(* ===== verification/Prelude.thy ===== *)
theory Prelude
  imports Complex_Main "HOL-Library.Word"
begin

text \<open>
  Shared vocabulary of the BlueFerry development.

  \<^item> \<^emph>\<open>Data\<close>: bytes are \<open>8 word\<close>s, a Python \<open>str\<close> is the list of its code points
    (\<open>pystr\<close>), a call that may raise returns a sum whose left side is the exception.
  \<^item> \<^emph>\<open>Python strings\<close>: the operations of \<open>str\<close> that several components use
    (\<open>isspace\<close>, \<open>strip\<close>, \<open>split()\<close>, \<open>join\<close>, \<open>startswith\<close>, \<open>in\<close>).
  \<^item> \<^emph>\<open>Effects\<close>: the daemon's components receive their timers and callbacks as constructor
    arguments. A component's state carries the history of those calls, newest first; what an
    injected function answers is a parameter, a function of the history so far.
  \<^item> \<^emph>\<open>Contracts\<close>: locales for a transition system with an invariant, for a component that owns
    its timers, and for a capped exponential backoff. The components interpret them.
\<close>

section \<open>Collections and types\<close>

named_theorems ops \<open>definitions of a component's operations\<close>
named_theorems consts_defs \<open>numeric and textual constants of the source\<close>

type_synonym byte = "8 word"
type_synonym pystr = "nat list"

definition lit :: "string \<Rightarrow> pystr" where
  "lit s = map of_char s"

lemma lit_Nil [simp]: "lit [] = []"
  by (simp add: lit_def)

lemma lit_eq_iff [simp]: "lit s = lit t \<longleftrightarrow> s = t"
proof -
  have "inj (of_char :: char \<Rightarrow> nat)" by (auto intro: injI)
  then show ?thesis by (auto simp: lit_def inj_map_eq_map)
qed

lemma length_lit [simp]: "length (lit s) = length s"
  by (simp add: lit_def)

abbreviation sum_bind :: "'e + 'a \<Rightarrow> ('a \<Rightarrow> 'e + 'b) \<Rightarrow> 'e + 'b" where
  "sum_bind x f \<equiv> case x of Inl e \<Rightarrow> Inl e | Inr a \<Rightarrow> f a"

fun is_ok :: "'e + 'a \<Rightarrow> bool" where
  "is_ok (Inl _) = False"
| "is_ok (Inr _) = True"

lemma is_ok_iff: "is_ok x \<longleftrightarrow> (\<exists>a. x = Inr a)"
  by (cases x) auto

lemma sum_bind_Inr: "sum_bind x f = Inr b \<longleftrightarrow> (\<exists>a. x = Inr a \<and> f a = Inr b)"
  by (cases x) auto

section \<open>Bytes\<close>

lemma unat_byte: "unat (b :: byte) < 256"
  using unsigned_less [of b] by simp

text \<open>The byte with value \<open>n\<close>, for \<open>n < 256\<close>.\<close>

definition byte_of :: "nat \<Rightarrow> byte" where
  "byte_of n = of_nat n"

lemma unat_byte_of [simp]: "n < 256 \<Longrightarrow> unat (byte_of n) = n"
  by (simp add: byte_of_def unat_of_nat)

lemma byte_of_unat [simp]: "byte_of (unat b) = b"
  by (simp add: byte_of_def)

lemma byte_of_eq_iff: "m < 256 \<Longrightarrow> n < 256 \<Longrightarrow> byte_of m = byte_of n \<longleftrightarrow> m = n"
  by (metis unat_byte_of)

lemma byte_of_eq_0: "n < 256 \<Longrightarrow> byte_of n = 0 \<longleftrightarrow> n = 0"
  by (metis unat_byte_of unat_0 byte_of_unat)

section \<open>Python strings\<close>

text \<open>\<open>str.isspace\<close>: the code points that \<open>str.split()\<close> and \<open>str.strip()\<close> treat as blank.\<close>

definition py_isspace :: "nat \<Rightarrow> bool" where
  "py_isspace c \<longleftrightarrow>
     9 \<le> c \<and> c \<le> 13 \<or> 28 \<le> c \<and> c \<le> 32 \<or> c = 133 \<or> c = 160 \<or> c = 5760 \<or>
     8192 \<le> c \<and> c \<le> 8202 \<or> c = 8232 \<or> c = 8233 \<or> c = 8239 \<or> c = 8287 \<or> c = 12288"

definition py_strip :: "pystr \<Rightarrow> pystr" where
  "py_strip s = rev (dropWhile py_isspace (rev (dropWhile py_isspace s)))"

text \<open>\<open>str.split()\<close> with no separator; the first argument is the word being read.\<close>

fun py_split_acc :: "pystr \<Rightarrow> pystr \<Rightarrow> pystr list" where
  "py_split_acc w [] = (if w = [] then [] else [rev w])"
| "py_split_acc w (c # cs) =
     (if py_isspace c then (if w = [] then py_split_acc [] cs else rev w # py_split_acc [] cs)
      else py_split_acc (c # w) cs)"

definition py_split :: "pystr \<Rightarrow> pystr list" where
  "py_split s = py_split_acc [] s"

fun py_join :: "pystr \<Rightarrow> pystr list \<Rightarrow> pystr" where
  "py_join sep [] = []"
| "py_join sep [w] = w"
| "py_join sep (w # ws) = w @ sep @ py_join sep ws"

fun py_startswith :: "pystr \<Rightarrow> pystr \<Rightarrow> bool" where
  "py_startswith s [] = True"
| "py_startswith [] (p # ps) = False"
| "py_startswith (c # cs) (p # ps) = (c = p \<and> py_startswith cs ps)"

text \<open>Python's \<open>needle in haystack\<close>.\<close>

fun py_contains :: "pystr \<Rightarrow> pystr \<Rightarrow> bool" where
  "py_contains needle [] = (needle = [])"
| "py_contains needle (c # cs) = (py_startswith (c # cs) needle \<or> py_contains needle cs)"

text \<open>\<open>str.split(sep)\<close> for a one-character separator.\<close>

fun split_on :: "nat \<Rightarrow> pystr \<Rightarrow> pystr list" where
  "split_on sep [] = [[]]"
| "split_on sep (c # cs) =
     (if c = sep then [] # split_on sep cs
      else case split_on sep cs of [] \<Rightarrow> [[c]] | w # ws \<Rightarrow> (c # w) # ws)"

lemma py_startswith_iff: "py_startswith s p \<longleftrightarrow> (\<exists>r. s = p @ r)"
  by (induction s p rule: py_startswith.induct) auto

lemma py_contains_iff: "py_contains n h \<longleftrightarrow> (\<exists>a b. h = a @ n @ b)"
proof (induction h)
  case Nil
  then show ?case by auto
next
  case (Cons c cs)
  have "(\<exists>a b. c # cs = a @ n @ b) \<longleftrightarrow> (\<exists>b. c # cs = n @ b) \<or> (\<exists>a b. cs = a @ n @ b)"
    by (auto simp: Cons_eq_append_conv)
  with Cons.IH show ?case by (simp add: py_startswith_iff)
qed

lemma py_split_acc_words:
  assumes "v \<in> set (py_split_acc w s)" and "\<And>c. c \<in> set w \<Longrightarrow> \<not> py_isspace c"
  shows "v \<noteq> [] \<and> (\<forall>c \<in> set v. \<not> py_isspace c)"
  using assms
proof (induction s arbitrary: w)
  case Nil
  then show ?case by (auto split: if_splits)
next
  case (Cons c cs)
  show ?case
  proof (cases "py_isspace c")
    case True
    with Cons.prems have "v = rev w \<and> w \<noteq> [] \<or> v \<in> set (py_split_acc [] cs)"
      by (auto split: if_splits)
    then show ?thesis using Cons.IH [of "[]"] Cons.prems(2) by auto
  next
    case False
    with Cons.prems have "v \<in> set (py_split_acc (c # w) cs)" by simp
    then show ?thesis by (rule Cons.IH) (use False Cons.prems(2) in auto)
  qed
qed

lemma py_split_words: "v \<in> set (py_split s) \<Longrightarrow> v \<noteq> [] \<and> (\<forall>c \<in> set v. \<not> py_isspace c)"
  by (rule py_split_acc_words) (auto simp: py_split_def)

lemma set_py_split_acc: "v \<in> set (py_split_acc w s) \<Longrightarrow> set v \<subseteq> set w \<union> set s"
proof (induction s arbitrary: w)
  case Nil
  then show ?case by (auto split: if_splits)
next
  case (Cons c cs)
  then have "v = rev w \<or> v \<in> set (py_split_acc [] cs) \<or> v \<in> set (py_split_acc (c # w) cs)"
    by (auto split: if_splits)
  with Cons.IH show ?case by fastforce
qed

lemma set_py_join: "set (py_join sep ws) \<subseteq> set sep \<union> \<Union> (set ` set ws)"
  by (induction sep ws rule: py_join.induct) auto

section \<open>Association lists (Python dictionaries in insertion order)\<close>

fun al_set :: "'k \<Rightarrow> 'v \<Rightarrow> ('k \<times> 'v) list \<Rightarrow> ('k \<times> 'v) list" where
  "al_set k v [] = [(k, v)]"
| "al_set k v ((a, b) # xs) = (if a = k then (k, v) # xs else (a, b) # al_set k v xs)"

definition al_pop :: "'k \<Rightarrow> ('k \<times> 'v) list \<Rightarrow> ('k \<times> 'v) list" where
  "al_pop k xs = filter (\<lambda>p. fst p \<noteq> k) xs"

lemma map_of_al_set [simp]: "map_of (al_set k v xs) = (map_of xs)(k \<mapsto> v)"
  by (induction k v xs rule: al_set.induct) (auto simp: fun_eq_iff)

lemma map_of_al_pop [simp]: "map_of (al_pop k xs) = (map_of xs)(k := None)"
  by (induction xs) (auto simp: al_pop_def fun_eq_iff)

lemma keys_al_set [simp]: "fst ` set (al_set k v xs) = insert k (fst ` set xs)"
  by (induction k v xs rule: al_set.induct) auto

lemma keys_al_pop [simp]: "fst ` set (al_pop k xs) = fst ` set xs - {k}"
  by (auto simp: al_pop_def)

lemma distinct_al_set [simp]: "distinct (map fst (al_set k v xs)) = distinct (map fst xs)"
  by (induction k v xs rule: al_set.induct) (auto simp: image_iff dest: map_of_SomeD)

lemma distinct_al_pop: "distinct (map fst xs) \<Longrightarrow> distinct (map fst (al_pop k xs))"
  by (simp add: al_pop_def distinct_map_filter)

lemma al_set_keys_in: "k \<in> fst ` set xs \<Longrightarrow> map fst (al_set k v xs) = map fst xs"
  by (induction k v xs rule: al_set.induct) auto

lemma al_set_keys_notin: "k \<notin> fst ` set xs \<Longrightarrow> map fst (al_set k v xs) = map fst xs @ [k]"
  by (induction k v xs rule: al_set.induct) auto

section \<open>Histories of injected calls and live timers\<close>

text \<open>
  \<open>Schedule i d f\<close>: the injected \<open>schedule(d, f)\<close> was called and answered \<open>i\<close>;
  \<open>Cancel i\<close>: \<open>cancel(i)\<close> was called; \<open>Expired i\<close>: the source \<open>i\<close> was destroyed because its
  callback returned \<open>False\<close>; \<open>Call e\<close>: any other injected function.
\<close>

datatype ('f, 'e) eff = Schedule nat int 'f | Cancel nat | Expired nat | Call 'e

fun live :: "('f, 'e) eff list \<Rightarrow> nat set" where
  "live [] = {}"
| "live (Schedule i d f # h) = insert i (live h)"
| "live (Cancel i # h) = live h - {i}"
| "live (Expired i # h) = live h - {i}"
| "live (Call e # h) = live h"

text \<open>GLib's documented promise: a new source never gets the id of a live one.\<close>

definition fresh_ids :: "(('f, 'e) eff list \<Rightarrow> nat) \<Rightarrow> bool" where
  "fresh_ids sched \<longleftrightarrow> (\<forall>h. sched h \<notin> live h)"

fun top_id :: "('f, 'e) eff list \<Rightarrow> nat" where
  "top_id [] = 0"
| "top_id (Schedule i d f # h) = max i (top_id h)"
| "top_id (_ # h) = top_id h"

lemma live_le_top: "i \<in> live h \<Longrightarrow> i \<le> top_id h"
  by (induction h rule: live.induct) auto

lemma fresh_ids_top: "fresh_ids (\<lambda>h. Suc (top_id h))"
  using live_le_top by (fastforce simp: fresh_ids_def)

lemma fresh_ids_live: "fresh_ids sched \<Longrightarrow> sched h \<notin> live h"
  by (simp add: fresh_ids_def)

lemma finite_live [simp]: "finite (live h)"
  by (induction h rule: live.induct) auto

fun calls :: "('f, 'e) eff list \<Rightarrow> 'e list" where
  "calls [] = []"
| "calls (Call e # h) = e # calls h"
| "calls (_ # h) = calls h"

text \<open>The callback that a source was created with.\<close>

fun callback_of :: "nat \<Rightarrow> ('f, 'e) eff list \<Rightarrow> 'f option" where
  "callback_of i [] = None"
| "callback_of i (Schedule j d f # h) = (if i = j then Some f else callback_of i h)"
| "callback_of i (_ # h) = callback_of i h"

lemma callback_of_live: "i \<in> live h \<Longrightarrow> \<exists>f. callback_of i h = Some f"
  by (induction h rule: live.induct) (auto split: if_splits)

fun timer_set :: "nat option list \<Rightarrow> nat set" where
  "timer_set [] = {}"
| "timer_set (None # ts) = timer_set ts"
| "timer_set (Some i # ts) = insert i (timer_set ts)"

section \<open>Reachability, invariants, timer ownership\<close>

inductive reachable :: "('s \<Rightarrow> bool) \<Rightarrow> ('s \<Rightarrow> 's \<Rightarrow> bool) \<Rightarrow> 's \<Rightarrow> bool"
  for init step where
  start: "init s \<Longrightarrow> reachable init step s"
| next_state: "reachable init step s \<Longrightarrow> step s t \<Longrightarrow> reachable init step t"

locale invariant_system =
  fixes init :: "'s \<Rightarrow> bool"
    and step :: "'s \<Rightarrow> 's \<Rightarrow> bool"
    and inv :: "'s \<Rightarrow> bool"
  assumes init_inv: "init s \<Longrightarrow> inv s"
    and step_inv: "inv s \<Longrightarrow> step s t \<Longrightarrow> inv t"
begin

lemma reachable_inv: "reachable init step s \<Longrightarrow> inv s"
  by (induction rule: reachable.induct) (blast intro: init_inv step_inv)+

lemma reachable_step_inv: "reachable init step s \<Longrightarrow> step s t \<Longrightarrow> inv t"
  by (blast intro: reachable_inv step_inv)

end

locale timer_owner = invariant_system init step inv
  for init :: "'s \<Rightarrow> bool" and step :: "'s \<Rightarrow> 's \<Rightarrow> bool" and inv :: "'s \<Rightarrow> bool" +
  fixes history :: "'s \<Rightarrow> ('f, 'e) eff list"
    and fields :: "'s \<Rightarrow> nat option list"
  assumes inv_live: "inv s \<Longrightarrow> live (history s) = timer_set (fields s)"
begin

lemma reachable_live: "reachable init step s \<Longrightarrow> live (history s) = timer_set (fields s)"
  by (rule inv_live) (rule reachable_inv)

lemma reachable_no_leak:
  "reachable init step s \<Longrightarrow> \<forall>f \<in> set (fields s). f = None \<Longrightarrow> live (history s) = {}"
proof -
  have "\<forall>f \<in> set fs. f = None \<Longrightarrow> timer_set fs = {}" for fs
    by (induction fs rule: timer_set.induct) auto
  then show "reachable init step s \<Longrightarrow> \<forall>f \<in> set (fields s). f = None \<Longrightarrow> live (history s) = {}"
    by (simp add: reachable_live)
qed

lemma reachable_bound: "reachable init step s \<Longrightarrow> card (live (history s)) \<le> length (fields s)"
proof -
  have "card (timer_set fs) \<le> length fs" for fs
    by (induction fs rule: timer_set.induct) (auto intro: le_trans [OF card_insert_le_m1] le_SucI
        simp: card_insert_if)
  then show "reachable init step s \<Longrightarrow> card (live (history s)) \<le> length (fields s)"
    by (simp add: reachable_live)
qed

end

section \<open>Capped exponential backoff\<close>

locale capped_backoff =
  fixes delay :: "nat \<Rightarrow> int" and base :: int and cap :: int
  assumes base_pos: "0 < base"
    and base_cap: "base \<le> cap"
    and delay_first: "delay 0 = base"
    and delay_next: "delay (Suc n) = min (2 * delay n) cap"
begin

lemma delay_bounds: "base \<le> delay n \<and> delay n \<le> cap"
  using base_pos base_cap by (induction n) (auto simp: delay_first delay_next)

lemma delay_mono: "m \<le> n \<Longrightarrow> delay m \<le> delay n"
proof (induction n)
  case 0
  then show ?case by simp
next
  case (Suc n)
  have "delay n \<le> delay (Suc n)"
    using delay_bounds [of n] base_pos by (auto simp: delay_next)
  with Suc show ?case by (auto simp: le_Suc_eq)
qed

lemma delay_closed: "delay n = min (base * 2 ^ n) cap"
proof (induction n)
  case 0
  then show ?case using base_cap by (simp add: delay_first)
next
  case (Suc n)
  have "0 < base * 2 ^ n" using base_pos by simp
  with Suc base_pos base_cap show ?case by (auto simp: delay_next min_def)
qed

lemma delay_saturates: "cap \<le> base * 2 ^ n \<Longrightarrow> n \<le> m \<Longrightarrow> delay m = cap"
  using delay_mono [of n m] delay_bounds [of m] delay_closed [of n] by simp

lemma total_wait: "int n * base \<le> (\<Sum>i<n. delay i)"
proof (induction n)
  case (Suc n)
  then show ?case using delay_bounds [of n] by (simp add: algebra_simps)
qed simp

end

section \<open>Sliding windows of admissions\<close>

definition spaced :: "nat \<Rightarrow> real \<Rightarrow> real list \<Rightarrow> bool" where
  "spaced n w ts \<longleftrightarrow> (\<forall>i. i + n < length ts \<longrightarrow> ts ! i + w \<le> ts ! (i + n))"

text \<open>
  \<open>q\<close> is what a window of \<open>n\<close> admissions in \<open>w\<close> seconds remembers at time \<open>now\<close> of the admissions
  \<open>ts\<close>: a suffix of them, the rest being out of the window.
\<close>

definition window_ok :: "nat \<Rightarrow> real \<Rightarrow> real \<Rightarrow> real list \<Rightarrow> real list \<Rightarrow> bool" where
  "window_ok n w now ts q \<longleftrightarrow> sorted ts \<and> (\<forall>t \<in> set ts. t \<le> now) \<and> spaced n w ts \<and>
     (\<exists>old. ts = old @ q \<and> (\<forall>t \<in> set old. t \<le> now - w))"

lemma window_ok_empty [simp]: "window_ok n w now [] []"
  by (simp add: window_ok_def spaced_def)

lemma window_ok_later: "window_ok n w now ts q \<Longrightarrow> now \<le> now' \<Longrightarrow> window_ok n w now' ts q"
  by (fastforce simp: window_ok_def)

lemma window_ok_drop:
  "window_ok n w now ts q \<Longrightarrow> window_ok n w now ts (dropWhile (\<lambda>t. t \<le> now - w) q)"
proof -
  assume *: "window_ok n w now ts q"
  then obtain old where o: "ts = old @ q" "\<forall>t \<in> set old. t \<le> now - w"
    by (auto simp: window_ok_def)
  have "ts = (old @ takeWhile (\<lambda>t. t \<le> now - w) q) @ dropWhile (\<lambda>t. t \<le> now - w) q"
    using o by simp
  then show ?thesis using * o(2) unfolding window_ok_def by (metis Un_iff set_append set_takeWhileD)
qed

lemma window_ok_admit:
  assumes "window_ok n w now ts q" and "length q < n"
  shows "window_ok n w now (ts @ [now]) (q @ [now])"
proof -
  from assms obtain old where o: "ts = old @ q" "\<forall>t \<in> set old. t \<le> now - w" and sp: "spaced n w ts"
    by (auto simp: window_ok_def)
  have "spaced n w (ts @ [now])"
    unfolding spaced_def
  proof (intro allI impI)
    fix i assume i: "i + n < length (ts @ [now])"
    show "(ts @ [now]) ! i + w \<le> (ts @ [now]) ! (i + n)"
    proof (cases "i + n = length ts")
      case True
      with assms(2) o(1) have "i < length old" by simp
      then have "ts ! i \<in> set old" using o(1) by (simp add: nth_append)
      moreover have "i < length ts" using True assms(2) by simp
      ultimately have "i < length ts" "ts ! i \<le> now - w" using o(2) by blast+
      then show ?thesis using True by (simp add: nth_append)
    next
      case False
      with i have "i + n < length ts" by simp
      with sp show ?thesis by (simp add: spaced_def nth_append)
    qed
  qed
  with assms(1) o show ?thesis by (auto simp: window_ok_def sorted_append)
qed

lemma sorted_interval:
  "sorted ts \<Longrightarrow>
     filter (\<lambda>t. a < t \<and> t \<le> b) ts = takeWhile (\<lambda>t. t \<le> b) (dropWhile (\<lambda>t. t \<le> a) (ts :: real list))"
proof (induction ts)
  case (Cons t ts)
  then have IH: "filter (\<lambda>t. a < t \<and> t \<le> b) ts = takeWhile (\<lambda>t. t \<le> b) (dropWhile (\<lambda>t. t \<le> a) ts)" by simp
  show ?case
  proof (cases "t \<le> a")
    case True
    then show ?thesis using IH by simp
  next
    case False
    with Cons.prems have "\<forall>u \<in> set ts. a < u" "t > b \<Longrightarrow> \<forall>u \<in> set ts. b < u" by fastforce+
    moreover from this(1) have "dropWhile (\<lambda>t. t \<le> a) ts = ts" by (cases ts) auto
    moreover have "takeWhile (\<lambda>t. t \<le> b) ts = []" if "\<forall>u \<in> set ts. b < u" using that by (cases ts) auto
    ultimately show ?thesis using False IH by (auto simp: filter_empty_conv)
  qed
qed simp

lemma spaced_count:
  assumes "sorted ts" and "spaced n w ts"
  shows "length (filter (\<lambda>t. a < t \<and> t \<le> a + w) ts) \<le> n"
proof (rule ccontr)
  let ?d = "dropWhile (\<lambda>t. t \<le> a) ts" and ?f = "filter (\<lambda>t. a < t \<and> t \<le> a + w) ts"
  assume "\<not> length ?f \<le> n"
  then have n: "n < length ?f" by simp
  have f: "?f = takeWhile (\<lambda>t. t \<le> a + w) ?d" by (rule sorted_interval [OF assms(1)])
  obtain k where d: "?d = drop k ts" by (metis dropWhile_eq_drop)
  have len: "k + n < length ts" using n f d length_takeWhile_le [of "\<lambda>t. t \<le> a + w" ?d] by simp
  have "?f ! 0 = ts ! k" "?f ! n = ts ! (k + n)"
    using n f d len takeWhile_nth [of 0 "\<lambda>t. t \<le> a + w" ?d] takeWhile_nth [of n "\<lambda>t. t \<le> a + w" ?d]
    by (auto dest: gr_implies_not0)
  moreover have "?f ! 0 \<in> set ?f" "?f ! n \<in> set ?f"
    using n by (auto simp only: intro!: nth_mem dest: gr_implies_not0 intro: le_less_trans)
  then have "a < ?f ! 0" "?f ! n \<le> a + w" by (simp_all only: set_filter mem_Collect_eq)
  ultimately show False using assms(2) len by (fastforce simp: spaced_def)
qed

end
