(* ===== verification/Utf8.thy ===== *)
theory Utf8
  imports Prelude
begin

text \<open>
  The part of Python's UTF-8 codec that the wire parsers use: \<open>bytes.decode("utf-8",
  errors="replace")\<close>, which replaces every maximal invalid subsequence by U+FFFD, and the strict
  \<open>str.encode("utf-8")\<close>, which raises on surrogates (\<open>None\<close> here). Decoding inverts encoding,
  and no byte below 0x80 appears in the encoding of a non-ASCII string.
\<close>

definition is_cont :: "byte \<Rightarrow> bool" where
  "is_cont b \<longleftrightarrow> 0x80 \<le> unat b \<and> unat b < 0xC0"

text \<open>The second byte a lead byte allows: no overlong forms, no surrogates, at most U+10FFFF.\<close>

definition second_ok :: "nat \<Rightarrow> byte \<Rightarrow> bool" where
  "second_ok lead b \<longleftrightarrow> is_cont b \<and>
     (lead = 0xE0 \<longrightarrow> 0xA0 \<le> unat b) \<and> (lead = 0xED \<longrightarrow> unat b < 0xA0) \<and>
     (lead = 0xF0 \<longrightarrow> 0x90 \<le> unat b) \<and> (lead = 0xF4 \<longrightarrow> unat b < 0x90)"

definition replacement :: nat where
  "replacement = 0xFFFD"

definition bits6 :: "byte \<Rightarrow> nat" where
  "bits6 b = unat b - 0x80"

text \<open>Decode one code point: its value and the number of bytes it takes.\<close>

fun utf8_next :: "byte \<Rightarrow> byte list \<Rightarrow> nat \<times> nat" where
  "utf8_next b bs =
     (let a = unat b in
      if a < 0x80 then (a, 1)
      else if a < 0xC2 then (replacement, 1)
      else if a < 0xE0 then
        (case bs of
           c # _ \<Rightarrow> if is_cont c then ((a - 0xC0) * 64 + bits6 c, 2) else (replacement, 1)
         | [] \<Rightarrow> (replacement, 1))
      else if a < 0xF0 then
        (case bs of
           c # d # _ \<Rightarrow>
             if \<not> second_ok a c then (replacement, 1)
             else if \<not> is_cont d then (replacement, 2)
             else ((a - 0xE0) * 4096 + bits6 c * 64 + bits6 d, 3)
         | [c] \<Rightarrow> (replacement, if second_ok a c then 2 else 1)
         | [] \<Rightarrow> (replacement, 1))
      else if a < 0xF5 then
        (case bs of
           c # d # e # _ \<Rightarrow>
             if \<not> second_ok a c then (replacement, 1)
             else if \<not> is_cont d then (replacement, 2)
             else if \<not> is_cont e then (replacement, 3)
             else ((a - 0xF0) * 262144 + bits6 c * 4096 + bits6 d * 64 + bits6 e, 4)
         | [c, d] \<Rightarrow>
             (replacement, if \<not> second_ok a c then 1 else if is_cont d then 3 else 2)
         | [c] \<Rightarrow> (replacement, if second_ok a c then 2 else 1)
         | [] \<Rightarrow> (replacement, 1))
      else (replacement, 1))"

declare utf8_next.simps [simp del]

fun utf8_decode :: "byte list \<Rightarrow> pystr" where
  "utf8_decode [] = []"
| "utf8_decode (b # bs) =
     fst (utf8_next b bs) # utf8_decode (drop (snd (utf8_next b bs) - 1) bs)"

definition utf8_char :: "nat \<Rightarrow> byte list option" where
  "utf8_char c =
     (if c < 0x80 then Some [byte_of c]
      else if c < 0x800 then Some [byte_of (0xC0 + c div 64), byte_of (0x80 + c mod 64)]
      else if 0xD800 \<le> c \<and> c < 0xE000 then None
      else if c < 0x10000 then
        Some [byte_of (0xE0 + c div 4096), byte_of (0x80 + c div 64 mod 64), byte_of (0x80 + c mod 64)]
      else if c < 0x110000 then
        Some [byte_of (0xF0 + c div 262144), byte_of (0x80 + c div 4096 mod 64),
              byte_of (0x80 + c div 64 mod 64), byte_of (0x80 + c mod 64)]
      else None)"

fun utf8_encode :: "pystr \<Rightarrow> byte list option" where
  "utf8_encode [] = Some []"
| "utf8_encode (c # cs) =
     (case (utf8_char c, utf8_encode cs) of (Some b, Some bs) \<Rightarrow> Some (b @ bs) | _ \<Rightarrow> None)"

section \<open>Decoding inverts encoding\<close>

lemma is_cont_enc [simp]: "is_cont (byte_of (128 + n mod 64))"
  by (simp add: is_cont_def)

lemma bits6_enc [simp]: "bits6 (byte_of (128 + n mod 64)) = n mod 64"
  by (simp add: bits6_def)

lemma utf8_next_1: "c < 128 \<Longrightarrow> utf8_next (byte_of c) r = (c, 1)"
  by (simp add: utf8_next.simps Let_def)

lemma utf8_next_2:
  assumes "128 \<le> c" "c < 2048"
  shows "utf8_next (byte_of (192 + c div 64)) (byte_of (128 + c mod 64) # r) = (c, 2)"
proof -
  have "192 + c div 64 < 224" "194 \<le> 192 + c div 64" using assms by auto
  moreover have "(192 + c div 64 - 192) * 64 + c mod 64 = c" by simp
  ultimately show ?thesis by (simp add: utf8_next.simps Let_def)
qed

text \<open>A code point is the sum of its six-bit groups.\<close>

lemma six_bits:
  fixes c :: nat
  shows "c div 4096 = c div 64 div 64" and "c div 262144 = c div 64 div 64 div 64"
    and "c = c div 64 div 64 * 4096 + c div 64 mod 64 * 64 + c mod 64"
    and "c = c div 64 div 64 div 64 * 262144 + c div 64 div 64 mod 64 * 4096 +
             c div 64 mod 64 * 64 + c mod 64"
proof -
  note d = div_mult_mod_eq [of c 64] div_mult_mod_eq [of "c div 64" 64]
    div_mult_mod_eq [of "c div 64 div 64" 64]
  show "c div 4096 = c div 64 div 64" "c div 262144 = c div 64 div 64 div 64"
    by (simp_all flip: div_mult2_eq)
  show "c = c div 64 div 64 * 4096 + c div 64 mod 64 * 64 + c mod 64"
    using d by linarith
  show "c = c div 64 div 64 div 64 * 262144 + c div 64 div 64 mod 64 * 4096 +
             c div 64 mod 64 * 64 + c mod 64"
    using d by linarith
qed

lemma utf8_next_3:
  assumes "2048 \<le> c" "c < 65536" "c < 55296 \<or> 57344 \<le> c"
  shows "utf8_next (byte_of (224 + c div 4096))
           (byte_of (128 + c div 64 mod 64) # byte_of (128 + c mod 64) # r) = (c, 3)"
proof -
  define x where "x = c div 64 div 64"
  define y where "y = c div 64 mod 64"
  define z where "z = c mod 64"
  have c: "c = x * 4096 + y * 64 + z" and d: "c div 4096 = x"
    unfolding x_def y_def z_def by (rule six_bits)+
  have lt: "y < 64" "z < 64" by (auto simp: y_def z_def)
  have x: "224 + x < 240" "224 + x < 256" using assms(2) c by auto
  have "second_ok (224 + x) (byte_of (128 + y))"
    using assms c lt x by (auto simp: second_ok_def is_cont_def)
  moreover have "is_cont (byte_of (128 + z))" "bits6 (byte_of (128 + z)) = z"
    "bits6 (byte_of (128 + y)) = y"
    using lt by (auto simp: is_cont_def bits6_def)
  ultimately have "utf8_next (byte_of (224 + x)) (byte_of (128 + y) # byte_of (128 + z) # r) = (c, 3)"
    using x by (simp add: utf8_next.simps Let_def c)
  then show ?thesis by (simp add: d y_def z_def)
qed

lemma utf8_next_4:
  assumes "65536 \<le> c" "c < 1114112"
  shows "utf8_next (byte_of (240 + c div 262144))
           (byte_of (128 + c div 4096 mod 64) # byte_of (128 + c div 64 mod 64) #
            byte_of (128 + c mod 64) # r) = (c, 4)"
proof -
  define w where "w = c div 64 div 64 div 64"
  define x where "x = c div 64 div 64 mod 64"
  define y where "y = c div 64 mod 64"
  define z where "z = c mod 64"
  have c: "c = w * 262144 + x * 4096 + y * 64 + z"
    and d: "c div 262144 = w" "c div 4096 mod 64 = x"
    unfolding w_def x_def y_def z_def by (rule six_bits, rule six_bits, simp only: six_bits(1))
  have lt: "x < 64" "y < 64" "z < 64" by (auto simp: x_def y_def z_def)
  have w: "240 + w < 245" "240 + w < 256" using assms(2) c by auto
  have "second_ok (240 + w) (byte_of (128 + x))"
    using assms c lt w by (auto simp: second_ok_def is_cont_def)
  moreover have "is_cont (byte_of (128 + k))" "bits6 (byte_of (128 + k)) = k" if "k < 64" for k
    using that by (auto simp: is_cont_def bits6_def)
  ultimately have "utf8_next (byte_of (240 + w))
      (byte_of (128 + x) # byte_of (128 + y) # byte_of (128 + z) # r) = (c, 4)"
    using w lt by (simp add: utf8_next.simps Let_def c)
  then show ?thesis by (simp add: d y_def z_def)
qed

lemma utf8_decode_char:
  "utf8_char c = Some b \<Longrightarrow> utf8_decode (b @ r) = c # utf8_decode r"
  by (auto simp: utf8_char_def utf8_next_1 utf8_next_2 utf8_next_3 utf8_next_4 split: if_splits)

lemma utf8_decode_encode: "utf8_encode s = Some bs \<Longrightarrow> utf8_decode bs = s"
proof (induction s arbitrary: bs)
  case Nil
  then show ?case by simp
next
  case (Cons c cs)
  then obtain b bs' where b: "utf8_char c = Some b" "utf8_encode cs = Some bs'" "bs = b @ bs'"
    by (auto split: option.splits)
  with Cons.IH [OF b(2)] show ?case by (simp add: utf8_decode_char)
qed

lemma length_utf8_decode: "length (utf8_decode bs) \<le> length bs"
proof (induction bs rule: utf8_decode.induct)
  case (2 b bs)
  then have "length (utf8_decode (drop (snd (utf8_next b bs) - 1) bs)) \<le> length bs"
    by (rule le_trans) simp
  then show ?case by simp
qed simp

text \<open>A code point other than U+0000 encodes without a zero byte.\<close>

lemma utf8_char_nonzero: "utf8_char c = Some b \<Longrightarrow> c \<noteq> 0 \<Longrightarrow> 0 \<notin> set b"
  by (auto simp: utf8_char_def byte_of_eq_0 eq_commute [of 0] split: if_splits)

lemma utf8_encode_nonzero: "utf8_encode s = Some bs \<Longrightarrow> 0 \<notin> set s \<Longrightarrow> 0 \<notin> set bs"
proof (induction s arbitrary: bs)
  case (Cons c cs)
  then show ?case by (auto split: option.splits dest: utf8_char_nonzero)
qed simp

section \<open>Cut encodings\<close>

lemma utf8_next_cont: "is_cont b \<Longrightarrow> utf8_next b bs = (replacement, 1)"
  by (simp add: utf8_next.simps Let_def is_cont_def)

lemma utf8_decode_conts: "\<forall>b \<in> set bs. is_cont b \<Longrightarrow> set (utf8_decode bs) \<subseteq> {replacement}"
  by (induction bs rule: utf8_decode.induct) (auto simp: utf8_next_cont)

lemma utf8_next_short:
  assumes "0xC2 \<le> unat b" and "length bs < (if unat b < 0xE0 then 1 else if unat b < 0xF0 then 2 else 3)"
  shows "fst (utf8_next b bs) = replacement"
proof -
  from assms(2) consider "bs = []" | c where "bs = [c]" "\<not> unat b < 0xE0" | c d where "bs = [c, d]" "\<not> unat b < 0xF0"
    by (cases bs; cases "tl bs"; cases "tl (tl bs)") (auto split: if_splits)
  then show ?thesis using assms(1) by cases (simp_all add: utf8_next.simps Let_def)
qed

lemma utf8_char_shape:
  assumes "utf8_char c = Some bs" and "k < length bs"
  shows "take k bs = [] \<or> (\<exists>b cs. take k bs = b # cs \<and> 0xC2 \<le> unat b \<and> (\<forall>x \<in> set cs. is_cont x) \<and>
    length cs < (if unat b < 0xE0 then 1 else if unat b < 0xF0 then 2 else 3))"
proof (cases "take k bs")
  case (Cons b cs)
  then have k: "k \<noteq> 0" "b = hd bs" "cs = take (k - 1) (tl bs)" by (cases bs; cases k; auto)+
  from assms k(1) consider (two) "128 \<le> c" "c < 2048" "bs = [byte_of (192 + c div 64), byte_of (128 + c mod 64)]"
    | (three) "2048 \<le> c" "c < 65536"
      "bs = [byte_of (224 + c div 4096), byte_of (128 + c div 64 mod 64), byte_of (128 + c mod 64)]"
    | (four) "65536 \<le> c" "c < 1114112" "bs = [byte_of (240 + c div 262144), byte_of (128 + c div 4096 mod 64),
        byte_of (128 + c div 64 mod 64), byte_of (128 + c mod 64)]"
    by (auto simp: utf8_char_def split: if_splits)
  then show ?thesis
  proof cases
    case two
    then have "192 + c div 64 < 224" "194 \<le> 192 + c div 64" by auto
    with two k assms(2) Cons show ?thesis by auto
  next
    case three
    then have "224 + c div 4096 < 240" by auto
    with three k assms(2) Cons show ?thesis by (auto dest!: in_set_takeD)
  next
    case four
    then have "240 + c div 262144 < 245" by auto
    with four k assms(2) Cons show ?thesis by (auto dest!: in_set_takeD)
  qed
qed simp

lemma utf8_decode_cut_char:
  assumes "utf8_char c = Some bs" "k < length bs"
  shows "set (utf8_decode (take k bs)) \<subseteq> {replacement}"
proof -
  from utf8_char_shape [OF assms] consider "take k bs = []"
    | b cs where "take k bs = b # cs" "fst (utf8_next b cs) = replacement" "\<forall>x \<in> set cs. is_cont x"
    using utf8_next_short by blast
  then show ?thesis
  proof cases
    case (2 b cs)
    have "\<forall>x \<in> set (drop (snd (utf8_next b cs) - 1) cs). is_cont x" using 2(3) by (auto dest: in_set_dropD)
    from utf8_decode_conts [OF this] 2 show ?thesis by simp
  next
    case 1
    then show ?thesis by (simp del: take_eq_Nil)
  qed
qed

text \<open>An encoding cut at any byte decodes to a prefix of the text, followed by replacement characters.\<close>

lemma utf8_decode_cut:
  "utf8_encode s = Some bs \<Longrightarrow> \<exists>m r. utf8_decode (take n bs) = take m s @ r \<and> set r \<subseteq> {replacement}"
proof (induction s arbitrary: bs n)
  case (Cons c cs)
  then obtain b bs' where b: "utf8_char c = Some b" "utf8_encode cs = Some bs'" "bs = b @ bs'"
    by (auto split: option.splits)
  show ?case
  proof (cases "n < length b")
    case True
    with b utf8_decode_cut_char [OF b(1) True] show ?thesis by (auto intro!: exI [of _ 0])
  next
    case False
    from Cons.IH [OF b(2), of "n - length b"] obtain m r where
      "utf8_decode (take (n - length b) bs') = take m cs @ r" "set r \<subseteq> {replacement}" by blast
    with False b show ?thesis
      by (auto simp: utf8_decode_char intro!: exI [of _ "Suc m"] exI [of _ r])
  qed
qed simp

end
