(* ===== verification/Ancs_Wire.thy ===== *)
theory Ancs_Wire
  imports Utf8
begin

text \<open>
  The ANCS wire format (\<open>ancs/constants.py\<close>, \<open>ancs/parsers.py\<close>): little-endian fields,
  length-prefixed attributes, the Notification Source and Data Source packets, the incremental
  assembler of fragmented Data Source responses, and the Control Point request builders. Every
  \<open>ValueError\<close> and \<open>struct.error\<close> of the source is a constructor of \<open>wire_error\<close>.
  The lemmas show that a response is recovered from any fragmentation, that what the assembler
  accepts the parser accepts, and that parsing inverts the wire encoding.
\<close>

unbundle bit_operations_syntax

section \<open>Constants\<close>

definition USHORT_MAX :: int where [consts_defs]: "USHORT_MAX = 2 ^ 16 - 1"
definition UINT_MAX :: int where [consts_defs]: "UINT_MAX = 2 ^ 32 - 1"
definition ANCS_TITLE_MAX_BYTES :: int where [consts_defs]: "ANCS_TITLE_MAX_BYTES = 128"
definition ANCS_SUBTITLE_MAX_BYTES :: int where [consts_defs]: "ANCS_SUBTITLE_MAX_BYTES = 128"
definition ANCS_MESSAGE_MAX_BYTES :: int where [consts_defs]: "ANCS_MESSAGE_MAX_BYTES = 1024"
definition MAX_DATA_SOURCE_RESPONSE :: nat where
  [consts_defs]: "MAX_DATA_SOURCE_RESPONSE = 64 * 1024"
definition MAX_ACTION_LABEL_CHARS :: nat where [consts_defs]: "MAX_ACTION_LABEL_CHARS = 64"

text \<open>\<open>class EventFlag\<close>\<close>
definition EventFlag_PreExisting :: nat where [consts_defs]: "EventFlag_PreExisting = 4"
definition EventFlag_PositiveAction :: nat where [consts_defs]: "EventFlag_PositiveAction = 8"
definition EventFlag_NegativeAction :: nat where [consts_defs]: "EventFlag_NegativeAction = 16"

text \<open>\<open>class CommandID\<close>\<close>
definition GetNotificationAttributes :: nat where [consts_defs]: "GetNotificationAttributes = 0"
definition GetAppAttributes :: nat where [consts_defs]: "GetAppAttributes = 1"
definition PerformNotificationAction :: nat where [consts_defs]: "PerformNotificationAction = 2"

text \<open>\<open>class ActionID\<close>\<close>
definition ActionID_Positive :: int where [consts_defs]: "ActionID_Positive = 0"
definition ActionID_Negative :: int where [consts_defs]: "ActionID_Negative = 1"

text \<open>\<open>class NotificationAttributeID\<close> and \<open>class AppAttributeID\<close>\<close>
definition AppIdentifier :: nat where [consts_defs]: "AppIdentifier = 0"
definition Title :: nat where [consts_defs]: "Title = 1"
definition Subtitle :: nat where [consts_defs]: "Subtitle = 2"
definition Message :: nat where [consts_defs]: "Message = 3"
definition PositiveActionLabel :: nat where [consts_defs]: "PositiveActionLabel = 6"
definition NegativeActionLabel :: nat where [consts_defs]: "NegativeActionLabel = 7"
definition DisplayName :: nat where [consts_defs]: "DisplayName = 0"

definition ACTION_LABEL_ATTRIBUTE_IDS :: "nat list" where
  "ACTION_LABEL_ATTRIBUTE_IDS = [PositiveActionLabel, NegativeActionLabel]"

datatype wire_error =
    Short_attribute_header
  | Truncated_attribute_body
  | NS_packet_too_short nat
  | Attrs_response_too_short
  | Unsupported_action_label_request
  | Unexpected_notification_attributes
  | App_missing_NUL
  | App_short_attribute_header
  | App_truncated_display_name
  | DS_packet_empty
  | Response_exceeds_safety_limit
  | Unexpected_trailing_bytes
  | Response_command_mismatch nat nat
  | Notification_id_mismatch
  | App_id_mismatch
  | Unsupported_response_command nat
  | Attribute_mismatch nat nat
  | Notification_id_out_of_range
  | Unknown_action_id
  | App_identifier_too_short
  | App_identifier_trailing
  | Struct_error
  | Unicode_encode_error

section \<open>Little-endian integers (\<open>struct\<close>)\<close>

definition u16_le :: "byte list \<Rightarrow> nat" where
  "u16_le bs = unat (bs ! 0) + 256 * unat (bs ! 1)"

definition u32_le :: "byte list \<Rightarrow> nat" where
  "u32_le bs = u16_le bs + 65536 * u16_le (drop 2 bs)"

definition pack_u16 :: "nat \<Rightarrow> byte list" where
  "pack_u16 n = [byte_of (n mod 256), byte_of (n div 256 mod 256)]"

definition pack_u32 :: "nat \<Rightarrow> byte list" where
  "pack_u32 n = pack_u16 (n mod 65536) @ pack_u16 (n div 65536)"

text \<open>\<open>struct.pack("<I", n)\<close> raises \<open>struct.error\<close> outside the unsigned 32-bit range.\<close>

definition struct_pack_I :: "int \<Rightarrow> wire_error + byte list" where
  "struct_pack_I n = (if 0 \<le> n \<and> n \<le> UINT_MAX then Inr (pack_u32 (nat n)) else Inl Struct_error)"

text \<open>A fixed-width integer code: its laws, and reading it off the front of a message.\<close>

locale fixed_width_code =
  fixes enc :: "nat \<Rightarrow> byte list" and dec :: "byte list \<Rightarrow> nat" and width :: nat and bound :: nat
  assumes length_enc: "length (enc n) = width"
    and dec_enc: "n < bound \<Longrightarrow> dec (enc n @ r) = n"
    and dec_bound: "dec bs < bound"
    and enc_dec: "width \<le> length bs \<Longrightarrow> enc (dec bs) = take width bs"
begin

lemma take_enc [simp]: "take width (enc n @ r) = enc n"
  by (simp add: length_enc)

lemma drop_enc [simp]: "drop width (enc n @ r) = r"
  by (simp add: length_enc)

lemma enc_inject: "m < bound \<Longrightarrow> n < bound \<Longrightarrow> enc m @ r = enc n @ r' \<Longrightarrow> m = n"
  by (metis dec_enc)

lemma split_enc: "width \<le> length bs \<Longrightarrow> bs = enc (dec bs) @ drop width bs"
  by (simp add: enc_dec)

end

lemma u16_le_pack: "n < 65536 \<Longrightarrow> u16_le (pack_u16 n @ r) = n"
  by (simp add: u16_le_def pack_u16_def)

lemma u16_le_bound: "u16_le bs < 65536"
  using unat_byte [of "bs ! 0"] unat_byte [of "bs ! 1"] by (simp add: u16_le_def)

lemma pack_u16_u16_le: "2 \<le> length bs \<Longrightarrow> pack_u16 (u16_le bs) = take 2 bs"
proof -
  assume "2 \<le> length bs"
  then obtain a b r where bs: "bs = a # b # r"
    by (metis Suc_le_length_iff numeral_2_eq_2)
  have "unat a + 256 * unat b < 65536" "(unat a + 256 * unat b) div 256 = unat b"
    using unat_byte [of a] unat_byte [of b] by auto
  then show ?thesis using unat_byte [of a] unat_byte [of b] by (simp add: bs pack_u16_def u16_le_def)
qed

interpretation u16: fixed_width_code pack_u16 u16_le 2 65536
  by unfold_locales
    (auto simp: u16_le_pack u16_le_bound pack_u16_u16_le, auto simp: pack_u16_def)

lemma u32_le_pack: "n < 4294967296 \<Longrightarrow> u32_le (pack_u32 n @ r) = n"
proof -
  assume "n < 4294967296"
  then have "n div 65536 < 65536" "n mod 65536 < 65536" by auto
  moreover have "drop 2 (pack_u16 (n mod 65536) @ pack_u16 (n div 65536) @ r) =
      pack_u16 (n div 65536) @ r"
    by (rule u16.drop_enc)
  ultimately show ?thesis by (simp add: u32_le_def pack_u32_def u16.dec_enc)
qed

lemma u32_le_bound: "u32_le bs < 4294967296"
  using u16.dec_bound [of bs] u16.dec_bound [of "drop 2 bs"] by (simp add: u32_le_def)

lemma pack_u32_u32_le: "4 \<le> length bs \<Longrightarrow> pack_u32 (u32_le bs) = take 4 bs"
proof -
  assume "4 \<le> length bs"
  then have len: "2 \<le> length bs" "2 \<le> length (drop 2 bs)" by auto
  have "u32_le bs mod 65536 = u16_le bs" "u32_le bs div 65536 = u16_le (drop 2 bs)"
    using u16.dec_bound [of bs] by (auto simp: u32_le_def)
  then have "pack_u32 (u32_le bs) = take 2 bs @ take 2 (drop 2 bs)"
    using len by (simp add: pack_u32_def u16.enc_dec)
  also have "\<dots> = take 4 bs" by (simp flip: take_add)
  finally show ?thesis .
qed

interpretation u32: fixed_width_code pack_u32 u32_le 4 4294967296
  by unfold_locales
    (auto simp: u32_le_pack u32_le_bound pack_u32_u32_le, auto simp: pack_u32_def u16.length_enc)

section \<open>Inbound packets\<close>

text \<open>
  \<open>parse_attr_string\<close>: one attribute \<open>[AttributeID: u8][Length: u16-le][bytes]\<close> off the front of
  the message. The attribute identifier is consumed but not examined.
\<close>

definition parse_attr_string :: "byte list \<Rightarrow> wire_error + pystr \<times> byte list" where
  "parse_attr_string data =
     (if length data < 3 then Inl Short_attribute_header
      else let size = u16_le (drop 1 data); body = take size (drop 3 data)
           in if length body < size then Inl Truncated_attribute_body
              else Inr (utf8_decode body, drop (3 + size) data))"

record Notification =
  n_id :: nat
  n_type :: nat
  n_flags :: nat
  n_category :: nat
  n_category_count :: nat

definition Notification_parse :: "byte list \<Rightarrow> wire_error + Notification" where
  "Notification_parse data =
     (if length data < 8 then Inl (NS_packet_too_short (length data))
      else Inr \<lparr>n_id = u32_le (drop 4 data), n_type = unat (data ! 0), n_flags = unat (data ! 1),
                n_category = unat (data ! 2), n_category_count = unat (data ! 3)\<rparr>)"

definition is_preexisting :: "Notification \<Rightarrow> bool" where
  "is_preexisting n \<longleftrightarrow> n_flags n AND EventFlag_PreExisting \<noteq> 0"

definition has_positive_action :: "Notification \<Rightarrow> bool" where
  "has_positive_action n \<longleftrightarrow> n_flags n AND EventFlag_PositiveAction \<noteq> 0"

definition has_negative_action :: "Notification \<Rightarrow> bool" where
  "has_negative_action n \<longleftrightarrow> n_flags n AND EventFlag_NegativeAction \<noteq> 0"

definition action_label_ids :: "Notification \<Rightarrow> nat list" where
  "action_label_ids n =
     (if has_positive_action n then [PositiveActionLabel] else []) @
     (if has_negative_action n then [NegativeActionLabel] else [])"

text \<open>\<open>_LABEL_CONTROL_RE.sub(" ", label)\<close>: every maximal run of control characters is one blank.\<close>

definition label_control :: "nat \<Rightarrow> bool" where
  "label_control c \<longleftrightarrow> c \<le> 0x1f \<or> 0x7f \<le> c \<and> c \<le> 0x9f \<or> c = 0x2028 \<or> c = 0x2029"

fun sub_runs :: "(nat \<Rightarrow> bool) \<Rightarrow> bool \<Rightarrow> pystr \<Rightarrow> pystr" where
  "sub_runs p in_run [] = []"
| "sub_runs p in_run (c # cs) =
     (if p c then (if in_run then sub_runs p True cs else 32 # sub_runs p True cs)
      else c # sub_runs p False cs)"

definition clean_action_label :: "pystr \<Rightarrow> pystr" where
  "clean_action_label label =
     take MAX_ACTION_LABEL_CHARS
       (py_join [32] (py_split (sub_runs label_control False label)))"

record NotificationAttributes =
  na_id :: nat
  na_app_id :: pystr
  na_title :: pystr
  na_subtitle :: pystr
  na_message :: pystr
  na_positive_action_label :: pystr
  na_negative_action_label :: pystr

text \<open>The loop over \<open>action_label_ids\<close>, with the \<open>labels\<close> dictionary as an accumulator.\<close>

fun parse_labels ::
  "nat list \<Rightarrow> byte list \<Rightarrow> (nat \<times> pystr) list \<Rightarrow> wire_error + (nat \<times> pystr) list \<times> byte list"
where
  "parse_labels [] msg labels = Inr (labels, msg)"
| "parse_labels (expected # ids) msg labels =
     (if expected \<notin> set ACTION_LABEL_ATTRIBUTE_IDS \<or> expected \<in> fst ` set labels
      then Inl Unsupported_action_label_request
      else case msg of
        [] \<Rightarrow> Inl Unexpected_notification_attributes
      | b # _ \<Rightarrow>
          if unat b \<noteq> expected then Inl Unexpected_notification_attributes
          else sum_bind (parse_attr_string msg)
                 (\<lambda>(label, msg'). parse_labels ids msg'
                    (al_set expected (clean_action_label label) labels)))"

definition dict_get :: "'k \<Rightarrow> 'v \<Rightarrow> ('k \<times> 'v) list \<Rightarrow> 'v" where
  "dict_get k d xs = (case map_of xs k of None \<Rightarrow> d | Some v \<Rightarrow> v)"

definition NotificationAttributes_parse ::
  "byte list \<Rightarrow> nat list \<Rightarrow> wire_error + NotificationAttributes"
where
  "NotificationAttributes_parse body label_ids =
     (if length body < 4 then Inl Attrs_response_too_short
      else let uid = u32_le body in
        sum_bind (parse_attr_string (drop 4 body)) (\<lambda>(app_id, msg).
        sum_bind (parse_attr_string msg) (\<lambda>(title, msg).
        sum_bind (parse_attr_string msg) (\<lambda>(subtitle, msg).
        sum_bind (parse_attr_string msg) (\<lambda>(message, msg).
        sum_bind (parse_labels label_ids msg []) (\<lambda>(labels, msg).
          if msg \<noteq> [] then Inl Unexpected_notification_attributes
          else Inr \<lparr>na_id = uid, na_app_id = app_id, na_title = title, na_subtitle = subtitle,
                    na_message = message,
                    na_positive_action_label = dict_get PositiveActionLabel [] labels,
                    na_negative_action_label = dict_get NegativeActionLabel [] labels\<rparr>))))))"

record AppAttributes =
  aa_app_id :: pystr
  aa_app_name :: pystr

definition AppAttributes_parse :: "byte list \<Rightarrow> wire_error + AppAttributes" where
  "AppAttributes_parse body =
     (if 0 \<notin> set body then Inl App_missing_NUL
      else let app_id_bytes = takeWhile (\<lambda>b. b \<noteq> 0) body;
               rest = drop (Suc (length app_id_bytes)) body;
               app_id = utf8_decode app_id_bytes
        in if rest = [] then Inr \<lparr>aa_app_id = app_id, aa_app_name = lit ''<not installed>''\<rparr>
           else if length rest < 3 then Inl App_short_attribute_header
           else let size = u16_le (drop 1 rest); body_bytes = take size (drop 3 rest)
             in if length body_bytes \<noteq> size then Inl App_truncated_display_name
                else Inr \<lparr>aa_app_id = app_id, aa_app_name = utf8_decode body_bytes\<rparr>)"

record DataSourceEvent =
  ds_type :: nat
  ds_body :: "byte list"

definition DataSourceEvent_parse :: "byte list \<Rightarrow> wire_error + DataSourceEvent" where
  "DataSourceEvent_parse data =
     (case data of [] \<Rightarrow> Inl DS_packet_empty
      | b # bs \<Rightarrow> Inr \<lparr>ds_type = unat b, ds_body = bs\<rparr>)"

definition parse_notification_app_identifier :: "byte list \<Rightarrow> wire_error + nat \<times> pystr" where
  "parse_notification_app_identifier body =
     (if length body < 7 then Inl App_identifier_too_short
      else sum_bind (parse_attr_string (drop 4 body)) (\<lambda>(app_id, remainder).
        if remainder \<noteq> [] then Inl App_identifier_trailing else Inr (u32_le body, app_id)))"

section \<open>The Data Source assembler\<close>

record DataSourceAssembler =
  das_command :: nat
  das_attribute_ids :: "nat list"
  das_notification_id :: "int option"
  das_app_id :: "pystr option"
  das_buffer :: "byte list"

definition assembler :: "nat \<Rightarrow> nat list \<Rightarrow> int option \<Rightarrow> pystr option \<Rightarrow> DataSourceAssembler" where
  "assembler command ids nid app =
     \<lparr>das_command = command, das_attribute_ids = ids, das_notification_id = nid,
      das_app_id = app, das_buffer = []\<rparr>"

text \<open>The loop over the expected attributes: \<open>None\<close> when more bytes are needed.\<close>

fun attributes_end :: "byte list \<Rightarrow> nat list \<Rightarrow> nat \<Rightarrow> wire_error + nat option" where
  "attributes_end data [] cursor = Inr (Some cursor)"
| "attributes_end data (expected # ids) cursor =
     (if length data < cursor + 3 then Inr None
      else let attr_id = unat (data ! cursor); size = u16_le (drop (cursor + 1) data)
        in if attr_id \<noteq> expected then Inl (Attribute_mismatch attr_id expected)
           else if length data < cursor + 3 + size then Inr None
           else attributes_end data ids (cursor + 3 + size))"

definition complete_length :: "DataSourceAssembler \<Rightarrow> wire_error + nat option" where
  "complete_length a =
     (let data = das_buffer a in
      case data of
        [] \<Rightarrow> Inr None
      | b # bs \<Rightarrow>
          if unat b \<noteq> das_command a then Inl (Response_command_mismatch (unat b) (das_command a))
          else if das_command a = GetNotificationAttributes then
            (if length data < 5 then Inr None
             else if (\<exists>nid \<in> set_option (das_notification_id a). int (u32_le bs) \<noteq> nid)
             then Inl Notification_id_mismatch
             else attributes_end data (das_attribute_ids a) 5)
          else if das_command a = GetAppAttributes then
            (if 0 \<notin> set bs then Inr None
             else let app = takeWhile (\<lambda>b. b \<noteq> 0) bs in
               if (\<exists>expected \<in> set_option (das_app_id a). utf8_decode app \<noteq> expected)
               then Inl App_id_mismatch
               else attributes_end data (das_attribute_ids a) (length app + 2))
          else Inl (Unsupported_response_command (das_command a)))"

definition feed :: "DataSourceAssembler \<Rightarrow> byte list \<Rightarrow>
    DataSourceAssembler \<times> (wire_error + byte list option)" where
  "feed a fragment =
     (let a' = a\<lparr>das_buffer := das_buffer a @ fragment\<rparr> in
      (a',
       if MAX_DATA_SOURCE_RESPONSE < length (das_buffer a') then Inl Response_exceeds_safety_limit
       else sum_bind (complete_length a') (\<lambda>stop.
         case stop of None \<Rightarrow> Inr None
         | Some n \<Rightarrow> if length (das_buffer a') \<noteq> n then Inl Unexpected_trailing_bytes
                     else Inr (Some (das_buffer a')))))"

text \<open>What the client does with the fragments of one response: feed them until it is complete.\<close>

fun feed_all :: "DataSourceAssembler \<Rightarrow> byte list list \<Rightarrow> wire_error + byte list option" where
  "feed_all a [] = Inr None"
| "feed_all a (f # fs) =
     (case feed a f of (a', r) \<Rightarrow>
        sum_bind r (\<lambda>res. case res of None \<Rightarrow> feed_all a' fs | Some bs \<Rightarrow> Inr (Some bs)))"

section \<open>Outbound builders\<close>

fun label_request :: "nat list \<Rightarrow> nat list \<Rightarrow> wire_error + byte list" where
  "label_request seen [] = Inr []"
| "label_request seen (i # ids) =
     (if i \<notin> set ACTION_LABEL_ATTRIBUTE_IDS \<or> i \<in> set seen
      then Inl Unsupported_action_label_request
      else sum_bind (label_request (i # seen) ids) (\<lambda>bs. Inr (byte_of i # bs)))"

definition clamp_max :: "int \<Rightarrow> nat" where
  "clamp_max n = nat (max 0 (min n USHORT_MAX))"

definition build_get_notification_attributes ::
  "int \<Rightarrow> int \<Rightarrow> int \<Rightarrow> int \<Rightarrow> nat list \<Rightarrow> wire_error + byte list"
where
  "build_get_notification_attributes nid title_max subtitle_max message_max label_ids =
     sum_bind (struct_pack_I nid) (\<lambda>packed.
     sum_bind (label_request [] label_ids) (\<lambda>labels.
       Inr ([byte_of GetNotificationAttributes] @ packed @ [byte_of AppIdentifier] @
            [byte_of Title] @ pack_u16 (clamp_max title_max) @
            [byte_of Subtitle] @ pack_u16 (clamp_max subtitle_max) @
            [byte_of Message] @ pack_u16 (clamp_max message_max) @ labels)))"

definition build_perform_notification_action :: "int \<Rightarrow> int \<Rightarrow> wire_error + byte list" where
  "build_perform_notification_action nid action_id =
     (if \<not> (0 \<le> nid \<and> nid \<le> UINT_MAX) then Inl Notification_id_out_of_range
      else if action_id \<notin> {ActionID_Positive, ActionID_Negative} then Inl Unknown_action_id
      else sum_bind (struct_pack_I nid) (\<lambda>packed.
        Inr ([byte_of PerformNotificationAction] @ packed @ [byte_of (nat action_id)])))"

definition build_get_notification_app_identifier :: "int \<Rightarrow> wire_error + byte list" where
  "build_get_notification_app_identifier nid =
     sum_bind (struct_pack_I nid) (\<lambda>packed.
       Inr ([byte_of GetNotificationAttributes] @ packed @ [byte_of AppIdentifier]))"

definition build_get_app_attributes :: "pystr \<Rightarrow> wire_error + byte list" where
  "build_get_app_attributes app_id =
     (case utf8_encode app_id of
        None \<Rightarrow> Inl Unicode_encode_error
      | Some bs \<Rightarrow> Inr ([byte_of GetAppAttributes] @ bs @ [0, byte_of DisplayName]))"

section \<open>Framing\<close>

text \<open>One attribute on the wire, and a sequence of them.\<close>

definition tlv :: "nat \<Rightarrow> byte list \<Rightarrow> byte list" where
  "tlv i v = byte_of i # pack_u16 (length v) @ v"

definition tlvs :: "(nat \<times> byte list) list \<Rightarrow> byte list" where
  "tlvs ps = concat (map (\<lambda>(i, v). tlv i v) ps)"

lemma tlvs_simps [simp]: "tlvs [] = []" "tlvs ((i, v) # ps) = tlv i v @ tlvs ps"
  by (simp_all add: tlvs_def)

lemma length_tlv [simp]: "length (tlv i v) = 3 + length v"
  by (simp add: tlv_def u16.length_enc)

definition attr_size :: "byte list \<Rightarrow> nat" where
  "attr_size q = u16_le (drop 1 q)"

lemma attr_size_bound: "attr_size q < 65536"
  by (simp add: attr_size_def u16.dec_bound)

lemma tlv_head: "i < 256 \<Longrightarrow> unat ((tlv i v @ r) ! 0) = i"
  by (simp add: tlv_def)

lemma tlv_size: "length v < 65536 \<Longrightarrow> attr_size (tlv i v @ r) = length v"
  by (simp add: attr_size_def tlv_def u16.dec_enc)

lemma tlv_drop: "drop 3 (tlv i v @ r) = v @ r" "drop (3 + length v) (tlv i v @ r) = r"
  by (simp add: tlv_def pack_u16_def, simp)

lemma tlv_of_bytes:
  assumes "3 \<le> length q" "3 + attr_size q \<le> length q"
  shows "q = tlv (unat (q ! 0)) (take (attr_size q) (drop 3 q)) @ drop (3 + attr_size q) q"
proof -
  obtain b q' where q: "q = b # q'" using assms(1) by (cases q) auto
  have size: "attr_size q = u16_le q'" by (simp add: attr_size_def q)
  define v where "v = take (u16_le q') (drop 2 q')"
  have len: "length v = u16_le q'" using assms(2) by (simp add: q v_def attr_size_def)
  have "q' = pack_u16 (u16_le q') @ drop 2 q'"
    using assms(1) by (intro u16.split_enc) (simp add: q)
  also have "drop 2 q' = v @ drop (2 + u16_le q') q'"
    by (metis add.commute append_take_drop_id drop_drop v_def)
  finally have "q' = pack_u16 (length v) @ v @ drop (2 + u16_le q') q'" by (simp only: len)
  then have "q = tlv (unat b) v @ drop (2 + u16_le q') q'" unfolding q tlv_def by simp
  moreover have "take (attr_size q) (drop 3 q) = v" "drop (3 + attr_size q) q = drop (2 + u16_le q') q'"
    unfolding size v_def by (simp_all add: q numeral_3_eq_3 numeral_2_eq_2)
  moreover have "unat (q ! 0) = unat b" by (simp add: q)
  ultimately show ?thesis by (simp only:)
qed

lemma parse_attr_string_tlv:
  assumes "length v < 65536"
  shows "parse_attr_string (tlv i v @ r) = Inr (utf8_decode v, r)"
  unfolding parse_attr_string_def Let_def attr_size_def [symmetric] tlv_size [OF assms] tlv_drop
  by simp

text \<open>The assembler's loop reads the buffer from its cursor only.\<close>

fun frame :: "nat list \<Rightarrow> byte list \<Rightarrow> wire_error + nat option" where
  "frame [] q = Inr (Some 0)"
| "frame (e # ids) q =
     (if length q < 3 then Inr None
      else if unat (q ! 0) \<noteq> e then Inl (Attribute_mismatch (unat (q ! 0)) e)
      else if length q < 3 + attr_size q then Inr None
      else map_sum id (map_option ((+) (3 + attr_size q))) (frame ids (drop (3 + attr_size q) q)))"

fun_cases frame_SomeE: "frame (e # ids) q = Inr (Some k)"

lemma attributes_end_frame:
  "attributes_end (p @ q) ids (length p) = map_sum id (map_option ((+) (length p))) (frame ids q)"
proof (induction ids arbitrary: p q)
  case Nil
  then show ?case by simp
next
  case (Cons e ids)
  let ?n = "3 + attr_size q"
  have IH: "attributes_end (p @ q) ids (length p + ?n) =
      map_sum id (map_option ((+) (length p + ?n))) (frame ids (drop ?n q))"
    if "?n \<le> length q"
  proof -
    have "length (p @ take ?n q) = length p + ?n" using that by simp
    then show ?thesis using Cons.IH [of "p @ take ?n q" "drop ?n q"] by (simp only: append_assoc append_take_drop_id)
  qed
  have "u16_le (drop (length p + 1) (p @ q)) = attr_size q" by (simp add: attr_size_def)
  then show ?case using IH
    by (cases "frame ids (drop ?n q)")
      (auto simp: nth_append Let_def option.map_comp o_def add.assoc not_less
        intro!: option.map_cong)
qed

lemma frame_tlvs:
  "length vs = length ids \<Longrightarrow> \<forall>i \<in> set ids. i < 256 \<Longrightarrow> \<forall>v \<in> set vs. length v < 65536 \<Longrightarrow>
     frame ids (tlvs (zip ids vs) @ r) = Inr (Some (length (tlvs (zip ids vs))))"
proof (induction vs ids rule: list_induct2)
  case (Cons v vs i ids)
  then have "attr_size (tlv i v @ q) = length v" "unat ((tlv i v @ q) ! 0) = i" for q
    by (simp_all add: tlv_size tlv_head del: append_Cons)
  with Cons show ?case by (simp add: tlv_drop del: drop_append)
qed simp

lemma frame_Some_tlvs:
  "frame ids q = Inr (Some k) \<Longrightarrow>
     \<exists>vs. length vs = length ids \<and> (\<forall>i \<in> set ids. i < 256) \<and> (\<forall>v \<in> set vs. length v < 65536) \<and>
        q = tlvs (zip ids vs) @ drop k q \<and> k = length (tlvs (zip ids vs))"
proof (induction ids arbitrary: q k)
  case Nil
  then show ?case by simp
next
  case (Cons e ids)
  let ?s = "attr_size q" and ?q = "drop (3 + attr_size q) q"
  from Cons.prems have len: "3 \<le> length q" "3 + ?s \<le> length q" and e: "e = unat (q ! 0)"
    by (auto simp: Let_def split: if_splits)
  with Cons.prems obtain k' where k': "frame ids ?q = Inr (Some k')" "k = 3 + ?s + k'"
    by (cases "frame ids ?q") (auto simp: Let_def)
  obtain vs where vs: "length vs = length ids" "\<forall>i \<in> set ids. i < 256" "\<forall>v \<in> set vs. length v < 65536"
    "?q = tlvs (zip ids vs) @ drop k' ?q" "k' = length (tlvs (zip ids vs))"
    using Cons.IH [OF k'(1)] by blast
  let ?v = "take ?s (drop 3 q)"
  have "length ?v = ?s" using len by simp
  then have v: "length ?v < 65536" "length (tlv e ?v) = 3 + ?s"
    using attr_size_bound [of q] by simp_all
  have "q = tlv e ?v @ ?q" using tlv_of_bytes [OF len] e by simp
  also have "?q = tlvs (zip ids vs) @ drop k q" using vs(4) k'(2) by (simp add: add.commute)
  finally have "q = tlvs (zip (e # ids) (?v # vs)) @ drop k q" by simp
  moreover have "k = length (tlvs (zip (e # ids) (?v # vs)))" using v(2) vs(5) k'(2) by simp
  moreover have "e < 256" using e unat_byte by simp
  ultimately show ?case
    using v(1) vs(1-3) by (intro exI [of _ "?v # vs"]) auto
qed

lemma frame_prefix:
  "frame ids q = Inr (Some k) \<Longrightarrow> frame ids (take j q) = Inr (if k \<le> j then Some k else None)"
proof (induction ids arbitrary: q k j)
  case Nil
  then show ?case by simp
next
  case (Cons e ids)
  let ?s = "attr_size q" and ?q = "drop (3 + attr_size q) q"
  from Cons.prems have len: "3 \<le> length q" "3 + ?s \<le> length q" and e: "unat (q ! 0) = e"
    by (auto simp: Let_def split: if_splits)
  with Cons.prems obtain k' where k': "frame ids ?q = Inr (Some k')" "k = 3 + ?s + k'"
    by (cases "frame ids ?q") (auto simp: Let_def)
  have IH: "frame ids (drop (3 + ?s) (take j q)) = Inr (if k' \<le> j - (3 + ?s) then Some k' else None)"
    using Cons.IH [OF k'(1), of "j - (3 + ?s)"] by (simp add: drop_take)
  have size: "attr_size (take j q) = ?s" if "3 \<le> j"
    using that len by (simp add: attr_size_def u16_le_def)
  show ?case
  proof (cases "3 + ?s \<le> j")
    case True
    then show ?thesis using IH size e len k' by (auto simp: Let_def)
  next
    case False
    then show ?thesis using size e len k' by (auto simp: Let_def)
  qed
qed

section \<open>Fragmentation\<close>

text \<open>
  The fixed header of a response: \<open>complete_length\<close> waits for all of it, then frames the rest.
\<close>

definition headed :: "DataSourceAssembler \<Rightarrow> byte list \<Rightarrow> bool" where
  "headed a hdr \<longleftrightarrow>
     (\<forall>q. complete_length (a\<lparr>das_buffer := hdr @ q\<rparr>) =
        map_sum id (map_option ((+) (length hdr))) (frame (das_attribute_ids a) q)) \<and>
     (\<forall>j < length hdr. complete_length (a\<lparr>das_buffer := take j hdr\<rparr>) = Inr None)"

lemma headed_notification:
  assumes cmd: "das_command a = GetNotificationAttributes" and len: "length uid = 4"
    and uid: "\<forall>nid \<in> set_option (das_notification_id a). int (u32_le uid) = nid"
  shows "headed a (byte_of GetNotificationAttributes # uid)"
proof -
  let ?h = "byte_of GetNotificationAttributes # uid"
  have u: "u32_le (uid @ q) = u32_le uid" for q
    using len by (simp add: u32_le_def u16_le_def nth_append)
  have e: "attributes_end (?h @ q) ids 5 = map_sum id (map_option ((+) 5)) (frame ids q)" for q ids
    using attributes_end_frame [of ?h q ids] len by simp
  have "complete_length (a\<lparr>das_buffer := ?h @ q\<rparr>) =
      map_sum id (map_option ((+) 5)) (frame (das_attribute_ids a) q)" for q
    using cmd uid len e [of q] by (auto simp: complete_length_def Let_def consts_defs u)
  moreover have "complete_length (a\<lparr>das_buffer := take j ?h\<rparr>) = Inr None" if "j < 5" for j
    using cmd len that by (cases j) (auto simp: complete_length_def Let_def consts_defs)
  ultimately show ?thesis using len by (simp add: headed_def)
qed

lemma headed_app:
  assumes cmd: "das_command a = GetAppAttributes" and nz: "0 \<notin> set app"
    and app: "\<forall>expected \<in> set_option (das_app_id a). utf8_decode app = expected"
  shows "headed a (byte_of GetAppAttributes # app @ [0])"
proof -
  let ?h = "byte_of GetAppAttributes # app @ [0]"
  have tw: "takeWhile (\<lambda>b. b \<noteq> 0) (app @ 0 # q) = app" for q
    using nz by (subst takeWhile_append2) auto
  have e: "attributes_end (?h @ q) ids (length app + 2) =
      map_sum id (map_option ((+) (length ?h))) (frame ids q)" for q ids
    using attributes_end_frame [of ?h q ids] by simp
  have "complete_length (a\<lparr>das_buffer := ?h @ q\<rparr>) =
      map_sum id (map_option ((+) (length ?h))) (frame (das_attribute_ids a) q)" for q
    using cmd app e [of q] by (auto simp: complete_length_def Let_def consts_defs tw)
  moreover have "complete_length (a\<lparr>das_buffer := take j ?h\<rparr>) = Inr None" if "j < length ?h" for j
    using cmd that nz by (cases j) (auto simp: complete_length_def Let_def consts_defs dest: in_set_takeD)
  ultimately show ?thesis unfolding headed_def by blast
qed

lemma first_zero_split:
  fixes bs :: "byte list"
  assumes "0 \<in> set bs"
  shows "bs = takeWhile (\<lambda>b. b \<noteq> 0) bs @ 0 # drop (Suc (length (takeWhile (\<lambda>b. b \<noteq> 0) bs))) bs"
proof -
  obtain ys zs where bs: "bs = ys @ 0 # zs" and "0 \<notin> set ys"
    using assms by (metis split_list_first)
  then have "takeWhile (\<lambda>b. b \<noteq> 0) bs = ys" by (auto simp: takeWhile_tail)
  then show ?thesis by (simp add: bs)
qed

text \<open>Every accepted buffer starts with such a header.\<close>

lemma complete_length_headed:
  assumes "complete_length (a\<lparr>das_buffer := data\<rparr>) = Inr (Some n)"
  obtains hdr q where "data = hdr @ q" "headed a hdr"
    "das_command a = GetNotificationAttributes \<longrightarrow>
       (\<exists>uid. length uid = 4 \<and> hdr = byte_of GetNotificationAttributes # uid)"
proof -
  obtain b bs where data: "data = b # bs" and b: "unat b = das_command a"
    using assms by (cases data) (auto simp: complete_length_def Let_def split: if_splits)
  consider (notif) "das_command a = GetNotificationAttributes" | (app) "das_command a = GetAppAttributes"
    using assms data by (auto simp: complete_length_def Let_def split: if_splits)
  then show thesis
  proof cases
    case notif
    have len: "4 \<le> length bs" and ok: "\<forall>nid \<in> set_option (das_notification_id a). int (u32_le bs) = nid"
      using assms notif data b by (auto simp: complete_length_def Let_def consts_defs split: if_splits)
    have "u32_le (take 4 bs) = u32_le bs" using len by (simp add: u32_le_def u16_le_def)
    then have "headed a (byte_of GetNotificationAttributes # take 4 bs)"
      using notif len ok by (intro headed_notification) auto
    moreover have "b = byte_of GetNotificationAttributes" using b notif by (metis byte_of_unat)
    ultimately show thesis
      using len data by (intro that [of "b # take 4 bs" "drop 4 bs"]) auto
  next
    case app
    let ?app = "takeWhile (\<lambda>b. b \<noteq> 0) bs"
    have z: "0 \<in> set bs" and ok: "\<forall>e \<in> set_option (das_app_id a). utf8_decode ?app = e"
      using assms app data b by (auto simp: complete_length_def Let_def consts_defs split: if_splits)
    have "bs = ?app @ 0 # drop (Suc (length ?app)) bs"
      using z by (rule first_zero_split)
    moreover have "headed a (byte_of GetAppAttributes # ?app @ [0])"
      using app ok by (intro headed_app) (auto dest: set_takeWhileD)
    moreover have "b = byte_of GetAppAttributes" using b app by (metis byte_of_unat)
    ultimately show thesis
      using data app by (intro that [of "b # ?app @ [0]" "drop (Suc (length ?app)) bs"])
        (auto simp: consts_defs)
  qed
qed

text \<open>Shorter buffers of a complete response are incomplete, never malformed.\<close>

lemma complete_length_prefix:
  assumes "complete_length (a\<lparr>das_buffer := data\<rparr>) = Inr (Some n)"
  shows "complete_length (a\<lparr>das_buffer := take j data\<rparr>) = Inr (if n \<le> j then Some n else None)"
proof -
  obtain hdr q where data: "data = hdr @ q" and h: "headed a hdr"
    using assms by (rule complete_length_headed)
  then obtain k where k: "frame (das_attribute_ids a) q = Inr (Some k)" "n = length hdr + k"
    using assms by (cases "frame (das_attribute_ids a) q") (auto simp: headed_def)
  show ?thesis
  proof (cases "length hdr \<le> j")
    case True
    then have "take j data = hdr @ take (j - length hdr) q" by (simp add: data)
    then show ?thesis using True h frame_prefix [OF k(1), of "j - length hdr"] k(2)
      by (auto simp: headed_def)
  next
    case False
    then have "take j data = take j hdr" by (simp add: data)
    then show ?thesis using False h k(2) by (simp add: headed_def)
  qed
qed

lemma feed_all_complete:
  assumes "complete_length (a\<lparr>das_buffer := data\<rparr>) = Inr (Some (length data))"
    and "length data \<le> MAX_DATA_SOURCE_RESPONSE"
    and "das_buffer a @ concat fs = data" and "length (das_buffer a) < length data"
  shows "feed_all a fs = Inr (Some data)"
  using assms
proof (induction fs arbitrary: a)
  case Nil
  then show ?case by simp
next
  case (Cons f fs)
  let ?p = "das_buffer a @ f" and ?a = "a\<lparr>das_buffer := das_buffer a @ f\<rparr>"
  have p: "?p = take (length ?p) data" using Cons.prems(3) by auto
  have le: "length ?p \<le> length data" using Cons.prems(3) by auto
  have c: "complete_length ?a = Inr (if length data \<le> length ?p then Some (length data) else None)"
    using complete_length_prefix [OF Cons.prems(1), of "length ?p"] p by simp
  show ?case
  proof (cases "length data \<le> length ?p")
    case True
    then have "?p = data" using p by simp
    then show ?thesis using c True Cons.prems(2) by (simp add: feed_def Let_def)
  next
    case False
    then have "feed_all ?a fs = Inr (Some data)"
      using Cons.prems by (intro Cons.IH) auto
    then show ?thesis using c False le Cons.prems(2) by (simp add: feed_def Let_def)
  qed
qed

section \<open>From fragments to attributes\<close>

text \<open>The four content attributes of a notification request, followed by the labels asked for.\<close>

definition content_ids :: "nat list \<Rightarrow> nat list" where
  "content_ids labels = [AppIdentifier, Title, Subtitle, Message] @ labels"

definition label_ids_ok :: "nat list \<Rightarrow> bool" where
  "label_ids_ok ids \<longleftrightarrow> distinct ids \<and> set ids \<subseteq> set ACTION_LABEL_ATTRIBUTE_IDS"

definition notification_response :: "nat \<Rightarrow> nat list \<Rightarrow> byte list list \<Rightarrow> byte list" where
  "notification_response uid ids vs =
     byte_of GetNotificationAttributes # pack_u32 uid @ tlvs (zip ids vs)"

definition label_of :: "nat \<Rightarrow> nat list \<Rightarrow> byte list list \<Rightarrow> pystr" where
  "label_of i ids vs =
     (case map_of (zip ids vs) i of None \<Rightarrow> [] | Some v \<Rightarrow> clean_action_label (utf8_decode v))"

lemma label_ids_ok_action: "label_ids_ok (action_label_ids n)"
  by (auto simp: label_ids_ok_def action_label_ids_def ACTION_LABEL_ATTRIBUTE_IDS_def consts_defs)

lemma label_ids_ok_byte: "label_ids_ok ids \<Longrightarrow> i \<in> set ids \<Longrightarrow> i < 256"
  by (auto simp: label_ids_ok_def ACTION_LABEL_ATTRIBUTE_IDS_def consts_defs)

lemma content_ids_byte: "label_ids_ok ids \<Longrightarrow> \<forall>i \<in> set (content_ids ids). i < 256"
  by (auto simp: content_ids_def consts_defs dest: label_ids_ok_byte)

lemma parse_labels_tlvs:
  assumes "length vs = length ids" "\<forall>v \<in> set vs. length v < 65536"
    "distinct ids" "set ids \<subseteq> set ACTION_LABEL_ATTRIBUTE_IDS" "set ids \<inter> fst ` set acc = {}"
  shows "\<exists>labels. parse_labels ids (tlvs (zip ids vs)) acc = Inr (labels, []) \<and>
    map_of labels = map_of acc ++ map_of (zip ids (map (clean_action_label \<circ> utf8_decode) vs))"
  using assms
proof (induction vs ids arbitrary: acc rule: list_induct2)
  case Nil
  then show ?case by simp
next
  case (Cons v vs i ids)
  let ?acc = "al_set i (clean_action_label (utf8_decode v)) acc"
  have i: "i < 256" using Cons.prems(3) by (auto simp: ACTION_LABEL_ATTRIBUTE_IDS_def consts_defs)
  have msg: "tlv i v @ r = byte_of i # pack_u16 (length v) @ v @ r" for r by (simp add: tlv_def)
  have p: "parse_attr_string (tlv i v @ tlvs (zip ids vs)) = Inr (utf8_decode v, tlvs (zip ids vs))"
    using Cons.prems(1) by (simp add: parse_attr_string_tlv)
  have "\<exists>labels. parse_labels ids (tlvs (zip ids vs)) ?acc = Inr (labels, []) \<and>
    map_of labels = map_of ?acc ++ map_of (zip ids (map (clean_action_label \<circ> utf8_decode) vs))"
    by (rule Cons.IH) (use Cons.prems in auto)
  then obtain labels where l: "parse_labels ids (tlvs (zip ids vs)) ?acc = Inr (labels, [])"
    "map_of labels = map_of ?acc ++ map_of (zip ids (map (clean_action_label \<circ> utf8_decode) vs))"
    by blast
  have "map_of acc i = None" using Cons.prems(4) by (auto simp: map_of_eq_None_iff)
  moreover have "i \<notin> dom (map_of (zip ids (map (clean_action_label \<circ> utf8_decode) vs)))"
    using Cons.prems(2) Cons.hyps by (simp add: dom_map_of_zip)
  ultimately have "map_of labels =
      map_of acc ++ map_of (zip (i # ids) (map (clean_action_label \<circ> utf8_decode) (v # vs)))"
    unfolding l(2) by (auto simp: fun_eq_iff map_add_def domIff split: option.splits)
  moreover have "parse_labels (i # ids) (tlvs (zip (i # ids) (v # vs))) acc = Inr (labels, [])"
    using Cons.prems(3,4) i p l(1) by (simp add: msg)
  ultimately show ?case by blast
qed

lemma dict_get_labels:
  assumes "length vs = length ids"
    and "map_of labels = map_of (zip ids (map (clean_action_label \<circ> utf8_decode) vs))"
  shows "dict_get i [] labels = label_of i ids vs"
proof -
  have "zip ids (map f vs) = map (\<lambda>(k, v). (k, f v)) (zip ids vs)" for f :: "byte list \<Rightarrow> pystr"
    by (simp add: zip_map2)
  then show ?thesis
    by (simp add: dict_get_def label_of_def assms(2) map_of_map split: option.splits)
qed

lemma NotificationAttributes_parse_tlvs:
  assumes "uid < 4294967296" "label_ids_ok ids" "length vs = length (content_ids ids)"
    and "\<forall>v \<in> set vs. length v < 65536"
  shows "NotificationAttributes_parse (pack_u32 uid @ tlvs (zip (content_ids ids) vs)) ids =
    Inr \<lparr>na_id = uid, na_app_id = utf8_decode (vs ! 0), na_title = utf8_decode (vs ! 1),
         na_subtitle = utf8_decode (vs ! 2), na_message = utf8_decode (vs ! 3),
         na_positive_action_label = label_of PositiveActionLabel ids (drop 4 vs),
         na_negative_action_label = label_of NegativeActionLabel ids (drop 4 vs)\<rparr>"
proof -
  obtain v0 v1 v2 v3 ls where vs: "vs = v0 # v1 # v2 # v3 # ls" and ls: "length ls = length ids"
    using assms(3) by (auto simp: content_ids_def length_Suc_conv)
  have big: "length v0 < 65536" "length v1 < 65536" "length v2 < 65536" "length v3 < 65536"
    "\<forall>v \<in> set ls. length v < 65536"
    using assms(4) by (auto simp: vs)
  obtain labels where l: "parse_labels ids (tlvs (zip ids ls)) [] = Inr (labels, [])"
    "map_of labels = map_of (zip ids (map (clean_action_label \<circ> utf8_decode) ls))"
    using parse_labels_tlvs [of ls ids "[]"] ls big(5) assms(2) by (auto simp: label_ids_ok_def)
  show ?thesis
    using assms(1) big l dict_get_labels [OF ls l(2)]
    by (simp add: NotificationAttributes_parse_def vs content_ids_def u32.length_enc u32.dec_enc
        parse_attr_string_tlv)
qed

section \<open>Properties\<close>





text \<open>
  One attribute is read exactly when the message starts with a complete one, and the rest of
  the message is left untouched; otherwise the error says whether the header or the body is cut.
\<close>

theorem parse_attr_string_spec:
  "(parse_attr_string data = Inr (text, rest) \<longleftrightarrow>
      (\<exists>i v. i < 256 \<and> length v < 65536 \<and> data = tlv i v @ rest \<and> text = utf8_decode v))
   \<and> (parse_attr_string data = Inl e \<longleftrightarrow>
      (length data < 3 \<and> e = Short_attribute_header \<or>
       3 \<le> length data \<and> length data < 3 + attr_size data \<and> e = Truncated_attribute_body))"
proof
  let ?v = "take (attr_size data) (drop 3 data)"
  show "parse_attr_string data = Inr (text, rest) \<longleftrightarrow>
      (\<exists>i v. i < 256 \<and> length v < 65536 \<and> data = tlv i v @ rest \<and> text = utf8_decode v)"
  proof
    assume ok: "parse_attr_string data = Inr (text, rest)"
    then have len: "3 \<le> length data" "3 + attr_size data \<le> length data"
      by (auto simp: parse_attr_string_def attr_size_def Let_def split: if_splits)
    have "text = utf8_decode ?v" "rest = drop (3 + attr_size data) data"
      using ok len by (auto simp: parse_attr_string_def attr_size_def Let_def split: if_splits)
    then show "\<exists>i v. i < 256 \<and> length v < 65536 \<and> data = tlv i v @ rest \<and> text = utf8_decode v"
      using tlv_of_bytes [OF len] len attr_size_bound [of data] unat_byte [of "data ! 0"]
      by (intro exI [of _ "unat (data ! 0)"] exI [of _ ?v]) auto
  qed (auto simp: parse_attr_string_tlv)
  show "parse_attr_string data = Inl e \<longleftrightarrow>
      (length data < 3 \<and> e = Short_attribute_header \<or>
       3 \<le> length data \<and> length data < 3 + attr_size data \<and> e = Truncated_attribute_body)"
    by (auto simp: parse_attr_string_def attr_size_def Let_def)
qed

lemma set_sub_runs: "c \<in> set (sub_runs p r s) \<Longrightarrow> c = 32 \<or> c \<in> set s \<and> \<not> p c"
  by (induction p r s rule: sub_runs.induct) (auto split: if_splits)

text \<open>
  An action label that reaches a notification server has at most 64 characters, none of them a
  control character, a line separator or any blank other than a space, whatever the phone sent.
\<close>

theorem clean_action_label_safe:
  "length (clean_action_label label) \<le> MAX_ACTION_LABEL_CHARS
   \<and> (c \<in> set (clean_action_label label) \<longrightarrow> \<not> label_control c \<and> (c = 32 \<or> \<not> py_isspace c))"
proof
  let ?words = "py_split (sub_runs label_control False label)"
  show "length (clean_action_label label) \<le> MAX_ACTION_LABEL_CHARS"
    by (simp add: clean_action_label_def)
  show "c \<in> set (clean_action_label label) \<longrightarrow> \<not> label_control c \<and> (c = 32 \<or> \<not> py_isspace c)"
  proof
    assume "c \<in> set (clean_action_label label)"
    then have "c \<in> set (py_join [32] ?words)"
      unfolding clean_action_label_def by (rule in_set_takeD)
    then consider "c = 32" | w where "w \<in> set ?words" "c \<in> set w"
      using set_py_join [of "[32]" ?words] by auto
    then show "\<not> label_control c \<and> (c = 32 \<or> \<not> py_isspace c)"
    proof cases
      case 1
      then show ?thesis by (simp add: label_control_def)
    next
      case 2
      then have "\<not> py_isspace c" "c \<in> set (sub_runs label_control False label)"
        using py_split_words set_py_split_acc by (fastforce simp: py_split_def)+
      moreover have "\<not> label_control 32" by (simp add: label_control_def)
      ultimately show ?thesis using set_sub_runs [of c label_control False label] by auto
    qed
  qed
qed

theorem clean_action_label_safe_witness:
  "33 \<in> set (clean_action_label (lit ''OK'' @ [10, 0] @ lit ''go!''))
   \<and> \<not> label_control 33 \<and> \<not> py_isspace 33"
proof -
  have "33 \<in> set (clean_action_label (lit ''OK'' @ [10, 0] @ lit ''go!''))"
    by (simp add: clean_action_label_def py_split_def py_isspace_def label_control_def lit_def consts_defs)
  then show ?thesis
    using clean_action_label_safe [of "lit ''OK'' @ [10, 0] @ lit ''go!''" 33] by simp
qed

lemma label_request_iff:
  "label_request seen ids = Inr bs \<longleftrightarrow>
     distinct ids \<and> set ids \<subseteq> set ACTION_LABEL_ATTRIBUTE_IDS \<and> set ids \<inter> set seen = {} \<and>
     bs = map byte_of ids"
  by (induction seen ids arbitrary: bs rule: label_request.induct)
    (auto simp: sum_bind_Inr split: sum.splits)

text \<open>
  A content request is built exactly for a 32-bit notification id and a duplicate-free list of
  action labels, and then asks for the four content attributes (the three sizes clamped to 16 bits)
  and those labels, in the order the assembler and the parser expect.
\<close>

theorem build_get_notification_attributes_spec:
  "build_get_notification_attributes nid tm sm mm ids = Inr bs \<longleftrightarrow>
     0 \<le> nid \<and> nid \<le> UINT_MAX \<and> label_ids_ok ids \<and>
     bs = byte_of GetNotificationAttributes # pack_u32 (nat nid) @
            [byte_of AppIdentifier, byte_of Title] @ pack_u16 (nat (max 0 (min tm 65535))) @
            [byte_of Subtitle] @ pack_u16 (nat (max 0 (min sm 65535))) @
            [byte_of Message] @ pack_u16 (nat (max 0 (min mm 65535))) @ map byte_of ids"
proof -
  have "clamp_max n = nat (max 0 (min n 65535))" for n by (simp add: clamp_max_def consts_defs)
  then show ?thesis
    by (auto simp: build_get_notification_attributes_def struct_pack_I_def label_ids_ok_def
        label_request_iff sum_bind_Inr)
qed

text \<open>
  Performing a notification action writes the six bytes of the wire format for the two known
  actions on a 32-bit id, and is refused with the error of the first failing check otherwise.
\<close>

theorem build_perform_notification_action_spec:
  "build_perform_notification_action nid act =
     (if nid < 0 \<or> UINT_MAX < nid then Inl Notification_id_out_of_range
      else if act \<noteq> 0 \<and> act \<noteq> 1 then Inl Unknown_action_id
      else Inr (2 # pack_u32 (nat nid) @ [byte_of (nat act)]))"
  by (auto simp: build_perform_notification_action_def struct_pack_I_def consts_defs byte_of_def)

text \<open>
  Asking for an application's display name and parsing the phone's answer agree on the
  application: for any bundle id without U+0000 that the request accepts, the answer that echoes the
  request's id bytes is parsed back to that id and to the decoded name.
\<close>

theorem app_attributes_roundtrip:
  assumes "build_get_app_attributes app = Inr bs" "0 \<notin> set app" "length name < 65536"
  shows "\<exists>raw. bs = byte_of GetAppAttributes # raw @ [0, byte_of DisplayName] \<and>
      AppAttributes_parse (raw @ 0 # tlv DisplayName name) =
        Inr \<lparr>aa_app_id = app, aa_app_name = utf8_decode name\<rparr> \<and>
      AppAttributes_parse (raw @ [0]) =
        Inr \<lparr>aa_app_id = app, aa_app_name = lit ''<not installed>''\<rparr>"
proof -
  obtain raw where raw: "utf8_encode app = Some raw"
    "bs = byte_of GetAppAttributes # raw @ [0, byte_of DisplayName]"
    using assms(1) by (auto simp: build_get_app_attributes_def split: option.splits)
  have nz: "0 \<notin> set raw" using utf8_encode_nonzero [OF raw(1) assms(2)] .
  then have tw: "takeWhile (\<lambda>b. b \<noteq> 0) (raw @ 0 # q) = raw" for q
    by (subst takeWhile_append2) auto
  have size: "u16_le (drop 1 (tlv DisplayName name)) = length name" "drop 3 (tlv DisplayName name) = name"
    using tlv_size [OF assms(3), of DisplayName "[]"] tlv_drop(1) [of DisplayName name "[]"]
    by (simp_all add: attr_size_def)
  have dec: "utf8_decode raw = app" by (rule utf8_decode_encode [OF raw(1)])
  have ne: "tlv DisplayName name \<noteq> []" by (simp add: tlv_def)
  have "AppAttributes_parse (raw @ 0 # tlv DisplayName name) =
      Inr \<lparr>aa_app_id = app, aa_app_name = utf8_decode name\<rparr>"
    using size ne by (simp add: AppAttributes_parse_def tw dec Let_def)
  moreover have "AppAttributes_parse (raw @ [0]) =
      Inr \<lparr>aa_app_id = app, aa_app_name = lit ''<not installed>''\<rparr>"
    by (simp add: AppAttributes_parse_def tw dec Let_def)
  ultimately show ?thesis using raw(2) by blast
qed

theorem app_attributes_roundtrip_witness:
  "\<exists>raw. [1, 97, 0, 0] = byte_of GetAppAttributes # raw @ [0, byte_of DisplayName] \<and>
      AppAttributes_parse (raw @ 0 # tlv DisplayName [66]) =
        Inr \<lparr>aa_app_id = [97], aa_app_name = utf8_decode [66]\<rparr> \<and>
      AppAttributes_parse (raw @ [0]) =
        Inr \<lparr>aa_app_id = [97], aa_app_name = lit ''<not installed>''\<rparr>"
  by (rule app_attributes_roundtrip)
    (simp_all add: build_get_app_attributes_def utf8_char_def byte_of_def consts_defs)

end
