(* ===== verification/Ancs_Backlog.thy ===== *)
theory Ancs_Backlog
  imports Prelude "HOL-Library.Multiset"
begin

text \<open>
  The bounded, duplicate-aware backlog of serialized ANCS requests (\<open>ancs/sequencer.py\<close>). A key
  stays reserved from \<open>enqueue\<close> until \<open>finish\<close>, also while its request is popped and in flight.
  The locale \<open>reservation_queue\<close> states what the ANCS client relies on; the invariant of a client
  that finishes or pushes back only what it popped is proved once in it, and the backlog's own
  operations interpret it.
\<close>

section \<open>The backlog\<close>

datatype backlog_error = Maximum_not_positive | Not_reserved | Empty_deque

record ('k, 'r) RequestBacklog =
  rb_maximum :: nat
  rb_queue :: "('k \<times> 'r) list"
  rb_reserved :: "'k set"

definition RequestBacklog_init :: "int \<Rightarrow> backlog_error + ('k, 'r) RequestBacklog" where
  "RequestBacklog_init maximum =
     (if maximum < 1 then Inl Maximum_not_positive
      else Inr \<lparr>rb_maximum = nat maximum, rb_queue = [], rb_reserved = {}\<rparr>)"

definition enqueue :: "'k \<Rightarrow> 'r \<Rightarrow> bool \<Rightarrow> ('k, 'r) RequestBacklog \<Rightarrow> ('k, 'r) RequestBacklog \<times> bool" where
  "enqueue key request front b =
     (if key \<in> rb_reserved b then (b, False)
      else if rb_maximum b \<le> card (rb_reserved b) then (b, False)
      else (b\<lparr>rb_reserved := insert key (rb_reserved b),
              rb_queue := (if front then (key, request) # rb_queue b
                           else rb_queue b @ [(key, request)])\<rparr>, True))"

definition remove_if :: "('r \<Rightarrow> bool) \<Rightarrow> ('k, 'r) RequestBacklog \<Rightarrow> ('k, 'r) RequestBacklog \<times> 'r list" where
  "remove_if predicate b =
     (b\<lparr>rb_reserved := rb_reserved b - fst ` {p \<in> set (rb_queue b). predicate (snd p)},
        rb_queue := filter (\<lambda>p. \<not> predicate (snd p)) (rb_queue b)\<rparr>,
      map snd (filter (\<lambda>p. predicate (snd p)) (rb_queue b)))"

definition count_if :: "('r \<Rightarrow> bool) \<Rightarrow> ('k, 'r) RequestBacklog \<Rightarrow> nat" where
  "count_if predicate b = length (filter (\<lambda>p. predicate (snd p)) (rb_queue b))"

definition popleft :: "('k, 'r) RequestBacklog \<Rightarrow> backlog_error + ('k, 'r) RequestBacklog \<times> 'r" where
  "popleft b = (case rb_queue b of [] \<Rightarrow> Inl Empty_deque
                | (_, request) # q \<Rightarrow> Inr (b\<lparr>rb_queue := q\<rparr>, request))"

definition push_front :: "'k \<Rightarrow> 'r \<Rightarrow> ('k, 'r) RequestBacklog \<Rightarrow> backlog_error + ('k, 'r) RequestBacklog" where
  "push_front key request b =
     (if key \<notin> rb_reserved b then Inl Not_reserved
      else Inr (b\<lparr>rb_queue := (key, request) # rb_queue b\<rparr>))"

definition finish :: "'k \<Rightarrow> ('k, 'r) RequestBacklog \<Rightarrow> ('k, 'r) RequestBacklog" where
  "finish key b = b\<lparr>rb_reserved := rb_reserved b - {key}\<rparr>"

definition clear_backlog :: "('k, 'r) RequestBacklog \<Rightarrow> ('k, 'r) RequestBacklog" where
  "clear_backlog b = b\<lparr>rb_queue := [], rb_reserved := {}\<rparr>"

lemmas backlog_defs = enqueue_def remove_if_def count_if_def popleft_def push_front_def finish_def
  clear_backlog_def

section \<open>The contract the client relies on\<close>

locale reservation_queue =
  fixes add :: "'k \<Rightarrow> 'r \<Rightarrow> bool \<Rightarrow> 'q \<Rightarrow> 'q \<times> bool"
    and drop_if :: "('r \<Rightarrow> bool) \<Rightarrow> 'q \<Rightarrow> 'q \<times> 'r list"
    and take_first :: "'q \<Rightarrow> 'e + 'q \<times> 'r"
    and put_back :: "'k \<Rightarrow> 'r \<Rightarrow> 'q \<Rightarrow> 'e + 'q"
    and release :: "'k \<Rightarrow> 'q \<Rightarrow> 'q"
    and reset :: "'q \<Rightarrow> 'q"
    and items :: "'q \<Rightarrow> ('k \<times> 'r) list"
    and reserved :: "'q \<Rightarrow> 'k set"
    and limit :: "'q \<Rightarrow> nat"
  assumes add_ok: "k \<notin> reserved q \<Longrightarrow> card (reserved q) < limit q \<Longrightarrow> add k r front q = (q', ok) \<Longrightarrow>
      ok \<and> reserved q' = insert k (reserved q) \<and> limit q' = limit q \<and>
      items q' = (if front then (k, r) # items q else items q @ [(k, r)])"
    and add_refused: "k \<in> reserved q \<or> limit q \<le> card (reserved q) \<Longrightarrow> add k r front q = (q, False)"
    and drop_if_spec: "drop_if p q = (q', rs) \<Longrightarrow> limit q' = limit q \<and>
      items q' = filter (\<lambda>x. \<not> p (snd x)) (items q) \<and>
      reserved q' = reserved q - fst ` {x \<in> set (items q). p (snd x)} \<and>
      rs = map snd (filter (\<lambda>x. p (snd x)) (items q))"
    and take_first_spec: "items q = (k, r) # xs \<Longrightarrow> \<exists>q'. take_first q = Inr (q', r) \<and> items q' = xs \<and>
      reserved q' = reserved q \<and> limit q' = limit q"
    and put_back_spec: "k \<in> reserved q \<Longrightarrow> \<exists>q'. put_back k r q = Inr q' \<and> items q' = (k, r) # items q \<and>
      reserved q' = reserved q \<and> limit q' = limit q"
    and release_spec: "items (release k q) = items q \<and> reserved (release k q) = reserved q - {k} \<and>
      limit (release k q) = limit q"
    and reset_spec: "items (reset q) = [] \<and> reserved (reset q) = {} \<and> limit (reset q) = limit q"
begin

text \<open>Queued and in-flight keys are distinct, they are the reserved ones, and bounded in number.\<close>

definition client_inv :: "'q \<times> 'k list \<Rightarrow> bool" where
  "client_inv c \<longleftrightarrow> (case c of (q, flying) \<Rightarrow>
     distinct (map fst (items q) @ flying) \<and>
     set (map fst (items q) @ flying) = reserved q \<and> card (reserved q) \<le> limit q)"

lemma client_inv_finite: "client_inv (q, flying) \<Longrightarrow> finite (reserved q)"
  by (auto simp: client_inv_def dest: sym)

lemma client_inv_length:
  "client_inv (q, flying) \<Longrightarrow> length (items q) + length flying = card (reserved q)"
  using distinct_card [of "map fst (items q) @ flying"] by (simp add: client_inv_def)

lemma add_inv: "client_inv (q, flying) \<Longrightarrow> add k r front q = (q', ok) \<Longrightarrow> client_inv (q', flying)"
proof (cases "k \<in> reserved q \<or> limit q \<le> card (reserved q)")
  case True
  then show "client_inv (q, flying) \<Longrightarrow> add k r front q = (q', ok) \<Longrightarrow> client_inv (q', flying)"
    by (simp add: add_refused)
next
  case False
  assume inv: "client_inv (q, flying)" and a: "add k r front q = (q', ok)"
  then show "client_inv (q', flying)"
    using False add_ok [OF _ _ a] client_inv_finite [OF inv]
    by (auto simp: client_inv_def card_insert_if)
qed

lemma drop_if_inv:
  assumes "client_inv (q, flying)" and "drop_if p q = (q', rs)"
  shows "client_inv (q', flying)"
proof -
  have d: "distinct (map fst (items q))" "set (map fst (items q)) \<inter> set flying = {}" "distinct flying"
    using assms(1) by (auto simp: client_inv_def)
  have keep: "fst ` set (filter (\<lambda>x. \<not> p (snd x)) (items q)) =
      fst ` set (items q) - fst ` {x \<in> set (items q). p (snd x)}"
    using d(1) by (auto simp: distinct_map dest: inj_onD)
  have "card (reserved q') \<le> card (reserved q)"
    using drop_if_spec [OF assms(2)] client_inv_finite [OF assms(1)] by (auto intro: card_mono)
  then show ?thesis
    using assms(1) drop_if_spec [OF assms(2)] keep d
    by (auto simp: client_inv_def distinct_map_filter)
qed

lemma take_first_inv:
  assumes "client_inv (q, flying)" and "items q = (k, r) # xs" and "take_first q = Inr (q', r')"
  shows "r' = r \<and> client_inv (q', k # flying)"
  using assms take_first_spec [OF assms(2)] by (auto simp: client_inv_def)

lemma put_back_inv:
  assumes "client_inv (q, xs @ k # ys)" and "put_back k r q = Inr q'"
  shows "client_inv (q', xs @ ys)"
proof -
  have "k \<in> reserved q" using assms(1) by (auto simp: client_inv_def)
  with assms put_back_spec [of k q r] show ?thesis by (auto simp: client_inv_def)
qed

lemma release_inv:
  assumes "client_inv (q, xs @ k # ys)"
  shows "client_inv (release k q, xs @ ys)"
proof -
  have "card (reserved q - {k}) \<le> card (reserved q)"
    using client_inv_finite [OF assms] by (simp add: card_mono)
  with assms release_spec [of k q] show ?thesis by (auto simp: client_inv_def)
qed

lemma reset_inv: "client_inv (reset q, [])"
  using reset_spec [of q] by (simp add: client_inv_def)

end

interpretation backlog: reservation_queue enqueue remove_if popleft push_front finish clear_backlog
  rb_queue rb_reserved rb_maximum
  by unfold_locales (auto simp: backlog_defs split: if_splits)

section \<open>The client's use of the backlog\<close>

text \<open>
  The ANCS client pops a request into flight, and later finishes it, pushes it back after a busy
  Control Point, or drops everything on a session reset; queued requests may be discarded.
\<close>

inductive backlog_step ::
  "('k, 'r) RequestBacklog \<times> 'k list \<Rightarrow> ('k, 'r) RequestBacklog \<times> 'k list \<Rightarrow> bool"
where
  submit: "backlog_step (b, fl) (fst (enqueue k r front b), fl)"
| discard: "backlog_step (b, fl) (fst (remove_if p b), fl)"
| pop: "rb_queue b = (k, r) # xs \<Longrightarrow> popleft b = Inr (b', r) \<Longrightarrow> backlog_step (b, fl) (b', k # fl)"
| retry: "push_front k r b = Inr b' \<Longrightarrow> backlog_step (b, xs @ k # ys) (b', xs @ ys)"
| finished: "backlog_step (b, xs @ k # ys) (finish k b, xs @ ys)"
| cleared: "backlog_step (b, fl) (clear_backlog b, [])"

definition backlog_start :: "('k, 'r) RequestBacklog \<times> 'k list \<Rightarrow> bool" where
  "backlog_start c \<longleftrightarrow> (\<exists>maximum. RequestBacklog_init maximum = Inr (fst c)) \<and> snd c = []"

lemma backlog_step_inv: "backlog_step c d \<Longrightarrow> backlog.client_inv c \<Longrightarrow> backlog.client_inv d"
proof (induction rule: backlog_step.induct)
  case (submit b fl k r front)
  then show ?case by (rule backlog.add_inv) (rule surjective_pairing)
next
  case (discard b fl p)
  then show ?case by (rule backlog.drop_if_inv) (rule surjective_pairing)
next
  case (pop b k r xs b' fl)
  from backlog.take_first_inv [OF pop.prems pop.hyps] show ?case by (rule conjunct2)
next
  case (retry k r b b' xs ys)
  from retry.prems retry.hyps show ?case by (rule backlog.put_back_inv)
next
  case (finished b xs k ys)
  then show ?case by (rule backlog.release_inv)
next
  case (cleared b fl)
  show ?case by (rule backlog.reset_inv)
qed

lemma backlog_start_one:
  "reachable backlog_start backlog_step (\<lparr>rb_maximum = 1, rb_queue = [], rb_reserved = {}\<rparr>, [])"
proof (rule reachable.start)
  have "RequestBacklog_init 1 = Inr \<lparr>rb_maximum = 1, rb_queue = [], rb_reserved = {}\<rparr>"
    by (simp add: RequestBacklog_init_def)
  then show "backlog_start (\<lparr>rb_maximum = 1, rb_queue = [], rb_reserved = {}\<rparr>, [])"
    unfolding backlog_start_def fst_conv snd_conv by blast
qed

interpretation backlog_run: invariant_system backlog_start backlog_step backlog.client_inv
proof
  show "backlog_start c \<Longrightarrow> backlog.client_inv c" for c :: "('a, 'b) RequestBacklog \<times> 'a list"
    by (cases c) (auto simp: backlog_start_def RequestBacklog_init_def backlog.client_inv_def
        split: if_splits)
qed (rule backlog_step_inv)

section \<open>Properties\<close>



text \<open>
  A request is accepted exactly when its key is not reserved and a reservation is free; it then
  goes to the requested end of the queue and every other request keeps its place. A refused request
  changes nothing. Taking the first request from the front gives back the request put there.
\<close>

theorem enqueue_spec:
  "snd (enqueue k r front b) = (k \<notin> rb_reserved b \<and> card (rb_reserved b) < rb_maximum b)
   \<and> (\<not> snd (enqueue k r front b) \<longrightarrow> fst (enqueue k r front b) = b)
   \<and> (snd (enqueue k r front b) \<longrightarrow>
        k \<in> rb_reserved (fst (enqueue k r front b)) \<and>
        rb_queue (fst (enqueue k r front b)) =
          (if front then (k, r) # rb_queue b else rb_queue b @ [(k, r)]) \<and>
        (front \<or> rb_queue b = [] \<longrightarrow>
           (\<exists>b'. popleft (fst (enqueue k r front b)) = Inr (b', r) \<and> rb_queue b' = rb_queue b)))"
  by (auto simp: enqueue_def popleft_def)

theorem enqueue_spec_witness:
  "rb_queue (fst (enqueue ''n'' (2::nat) True
     \<lparr>rb_maximum = 2, rb_queue = [(''m'', 1)], rb_reserved = {''m''}\<rparr>)) = [(''n'', 2), (''m'', 1)]"
  using enqueue_spec [of "''n''" "2::nat" True "\<lparr>rb_maximum = 2, rb_queue = [(''m'', 1)], rb_reserved = {''m''}\<rparr>"]
  by (simp add: enqueue_def)

text \<open>
  Discarding queued requests frees exactly the reservations of the discarded ones and returns
  them in order; in-flight keys stay reserved, and no request that does not match is lost.
\<close>

theorem remove_if_spec:
  assumes "reachable backlog_start backlog_step (b, flying)" and "remove_if p b = (b', removed)"
  shows "mset (map snd (rb_queue b')) + mset removed = mset (map snd (rb_queue b))
       \<and> count_if p b' = 0 \<and> length removed = count_if p b
       \<and> set flying \<subseteq> rb_reserved b'
       \<and> rb_reserved b' = set (map fst (rb_queue b') @ flying)"
proof -
  have inv: "backlog.client_inv (b, flying)" by (rule backlog_run.reachable_inv [OF assms(1)])
  then have inv': "backlog.client_inv (b', flying)" using assms(2) by (rule backlog.drop_if_inv)
  have "mset (map snd (filter (\<lambda>x. \<not> p (snd x)) xs)) + mset (map snd (filter (\<lambda>x. p (snd x)) xs)) =
      mset (map snd xs)" for xs :: "('a \<times> 'b) list"
    by (induction xs) auto
  then show ?thesis
    using assms(2) inv' by (auto simp: remove_if_def count_if_def backlog.client_inv_def)
qed

theorem remove_if_spec_witness:
  "count_if (\<lambda>r. r = 5) (fst (remove_if (\<lambda>r. r = (5::nat))
     \<lparr>rb_maximum = 1, rb_queue = ([] :: (string \<times> nat) list), rb_reserved = {}\<rparr>)) = 0"
proof -
  let ?b = "\<lparr>rb_maximum = 1, rb_queue = [], rb_reserved = {}\<rparr> :: (string, nat) RequestBacklog"
  have "reachable backlog_start backlog_step (?b, [] :: string list)"
    by (rule backlog_start_one)
  from remove_if_spec [OF this surjective_pairing] show ?thesis by blast
qed

end
