(* ===== verification/Connectivity.thy ===== *)
theory Connectivity
  imports Prelude
begin

text \<open>
  The daemon's MAP/PBAP connectivity state and retry policy (\<open>connectivity.py\<close>). Case folding of
  arbitrary Unicode text is a table of the Python runtime and a parameter (\<open>casefold\<close>). The lemmas
  show the retry delays are a capped exponential backoff, that a refused message connection stays
  visible while it is polled, and that raw error text never reaches the published snapshot.
\<close>

section \<open>States and details\<close>

datatype ConnectivityState = INITIALIZING | CONNECTING | READY | DEGRADED | RECONNECTING
  | AUTHORIZATION_REQUIRED | MAP_CONNECTION_REFUSED | STOPPING

fun state_value :: "ConnectivityState \<Rightarrow> pystr" where
  "state_value INITIALIZING = lit ''initializing''"
| "state_value CONNECTING = lit ''connecting''"
| "state_value READY = lit ''ready''"
| "state_value DEGRADED = lit ''degraded''"
| "state_value RECONNECTING = lit ''reconnecting''"
| "state_value AUTHORIZATION_REQUIRED = lit ''authorization-required''"
| "state_value MAP_CONNECTION_REFUSED = lit ''map-connection-refused''"
| "state_value STOPPING = lit ''stopping''"

fun PUBLIC_DETAILS :: "ConnectivityState \<Rightarrow> pystr" where
  "PUBLIC_DETAILS INITIALIZING = lit ''Backend initialization is in progress''"
| "PUBLIC_DETAILS CONNECTING = lit ''Opening Bluetooth message profiles''"
| "PUBLIC_DETAILS READY = lit ''Bluetooth message profiles are available''"
| "PUBLIC_DETAILS DEGRADED = lit ''Bluetooth message profiles are unavailable''"
| "PUBLIC_DETAILS RECONNECTING = lit ''Reopening Bluetooth message profiles''"
| "PUBLIC_DETAILS AUTHORIZATION_REQUIRED = lit ''iPhone authorization is required''"
| "PUBLIC_DETAILS MAP_CONNECTION_REFUSED = lit ''The iPhone refused the message connection''"
| "PUBLIC_DETAILS STOPPING = lit ''Backend shutdown is in progress''"

definition is_map_connection_refused :: "(pystr \<Rightarrow> pystr) \<Rightarrow> pystr \<Rightarrow> pystr \<Rightarrow> bool" where
  "is_map_connection_refused casefold detail state =
     (if state = state_value MAP_CONNECTION_REFUSED then True
      else let message = casefold detail in
        py_contains (lit ''createsession(map)'') message \<and>
        py_contains (lit ''connection refused'') message \<and>
        py_contains (lit ''111'') message)"

section \<open>The retry policy\<close>

record RetryPolicy =
  initial_seconds :: int
  maximum_seconds :: int
  multiplier :: int

definition default_policy :: RetryPolicy where
  "default_policy = \<lparr>initial_seconds = 5, maximum_seconds = 300, multiplier = 2\<rparr>"

definition policy_delay :: "RetryPolicy \<Rightarrow> int \<Rightarrow> int" where
  "policy_delay p failure_count =
     min (maximum_seconds p) (initial_seconds p * multiplier p ^ nat (max 0 (failure_count - 1)))"

interpretation default_retry: capped_backoff "\<lambda>n. policy_delay default_policy (int n + 1)" 5 300
proof
  fix n
  show "policy_delay default_policy (int (Suc n) + 1) =
      min (2 * policy_delay default_policy (int n + 1)) 300"
    by (auto simp: policy_delay_def default_policy_def nat_add_distrib min_def)
qed (simp_all add: policy_delay_def default_policy_def)

section \<open>The state machine\<close>

record Connectivity =
  c_policy :: RetryPolicy
  c_state :: ConnectivityState
  c_detail :: pystr
  c_failure_count :: int
  c_retry_delay :: "int option"

definition Connectivity_init :: "RetryPolicy option \<Rightarrow> Connectivity" where
  "Connectivity_init p =
     \<lparr>c_policy = (case p of None \<Rightarrow> default_policy | Some q \<Rightarrow> q), c_state = INITIALIZING,
      c_detail = lit ''backend startup'', c_failure_count = 0, c_retry_delay = None\<rparr>"

definition c_connecting :: "pystr \<Rightarrow> Connectivity \<Rightarrow> Connectivity" where
  [ops]: "c_connecting detail c =
     (if 0 < c_failure_count c \<and> c_state c = MAP_CONNECTION_REFUSED
      then c\<lparr>c_retry_delay := None\<rparr>
      else c\<lparr>c_state := (if c_failure_count c = 0 then CONNECTING else RECONNECTING),
             c_detail := detail, c_retry_delay := None\<rparr>)"

definition c_ready :: "Connectivity \<Rightarrow> Connectivity" where
  [ops]: "c_ready c = c\<lparr>c_state := READY, c_detail := lit ''MAP/PBAP sessions are available'',
                 c_failure_count := 0, c_retry_delay := None\<rparr>"

definition c_failed :: "pystr \<Rightarrow> bool \<Rightarrow> bool \<Rightarrow> int option \<Rightarrow> Connectivity \<Rightarrow> Connectivity \<times> int" where
  [ops]: "c_failed err authorization_required map_refused retry_delay c =
     (let n = c_failure_count c + 1;
          d = (case retry_delay of Some s \<Rightarrow> max 1 s | None \<Rightarrow> policy_delay (c_policy c) n)
      in (c\<lparr>c_failure_count := n, c_retry_delay := Some d,
            c_state := (if map_refused then MAP_CONNECTION_REFUSED
                        else if authorization_required then AUTHORIZATION_REQUIRED else DEGRADED),
            c_detail := (if err \<noteq> [] then err else lit ''Bluetooth profiles unavailable'')\<rparr>, d))"

definition c_lost :: "pystr \<Rightarrow> Connectivity \<Rightarrow> Connectivity" where
  [ops]: "c_lost reason c = c\<lparr>c_state := RECONNECTING, c_detail := reason, c_retry_delay := None\<rparr>"

definition c_stopping :: "Connectivity \<Rightarrow> Connectivity" where
  [ops]: "c_stopping c = c\<lparr>c_state := STOPPING, c_detail := lit ''backend stopping'', c_retry_delay := None\<rparr>"

record c_snapshot =
  connectivity_state :: pystr
  connectivity_detail :: pystr
  retry_attempt :: int
  retry_delay_seconds :: int

definition snapshot :: "Connectivity \<Rightarrow> c_snapshot" where
  "snapshot c =
     \<lparr>connectivity_state = state_value (c_state c), connectivity_detail = PUBLIC_DETAILS (c_state c),
      retry_attempt = c_failure_count c,
      retry_delay_seconds = (case c_retry_delay c of None \<Rightarrow> 0 | Some d \<Rightarrow> d)\<rparr>"

datatype conn_event = Connecting pystr | Ready | Failed pystr bool bool "int option" | Lost pystr | Stopping

fun conn_step :: "Connectivity \<Rightarrow> conn_event \<Rightarrow> Connectivity" where
  "conn_step c (Connecting d) = c_connecting d c"
| "conn_step c Ready = c_ready c"
| "conn_step c (Failed e a m r) = fst (c_failed e a m r c)"
| "conn_step c (Lost r) = c_lost r c"
| "conn_step c Stopping = c_stopping c"

definition conn_run :: "Connectivity \<Rightarrow> conn_event list \<Rightarrow> Connectivity" where
  "conn_run c es = foldl conn_step c es"

lemma conn_run_simps [simp]:
  "conn_run c [] = c" "conn_run c (e # es) = conn_run (conn_step c e) es"
  "conn_run c (es @ fs) = conn_run (conn_run c es) fs"
  by (simp_all add: conn_run_def)

section \<open>Properties\<close>



text \<open>
  Once a failed attempt reported that the iPhone refused the message connection, that state and
  its error text stay visible through any number of further polls, until a ready connection, a
  different failure, a loss or the shutdown replaces them; after a ready connection the next attempt
  is shown as a first one.
\<close>

theorem refusal_stays_visible:
  assumes "0 \<le> c_failure_count c" and "e \<noteq> []" and "\<forall>d \<in> set polls. \<exists>x. d = Connecting x"
  shows "c_state (conn_run c (Failed e a True r # polls)) = MAP_CONNECTION_REFUSED
       \<and> c_detail (conn_run c (Failed e a True r # polls)) = e
       \<and> c_failure_count (conn_run c (Failed e a True r # polls)) = c_failure_count c + 1
       \<and> c_state (conn_run c (Failed e a True r # polls @ [Ready, Connecting d])) = CONNECTING"
proof -
  have "c_state (conn_run b polls) = MAP_CONNECTION_REFUSED \<and> c_detail (conn_run b polls) = c_detail b \<and>
      c_failure_count (conn_run b polls) = c_failure_count b"
    if "c_state b = MAP_CONNECTION_REFUSED" "0 < c_failure_count b" for b
    using assms(3) that by (induction polls arbitrary: b) (auto simp: c_connecting_def)
  from this [of "conn_step c (Failed e a True r)"] assms(1,2)
  show ?thesis by (auto simp: c_failed_def Let_def c_connecting_def c_ready_def)
qed

theorem refusal_stays_visible_witness:
  "c_state (conn_run (Connectivity_init None)
     [Failed (lit ''refused'') False True (Some 5), Connecting (lit ''a''), Connecting (lit ''b'')]) =
   MAP_CONNECTION_REFUSED"
  using refusal_stays_visible [of "Connectivity_init None" "lit ''refused''"
      "[Connecting (lit ''a''), Connecting (lit ''b'')]" False "Some 5"]
  by (simp add: Connectivity_init_def lit_def)

fun same_but_text :: "conn_event \<Rightarrow> conn_event \<Rightarrow> bool" where
  "same_but_text (Connecting _) (Connecting _) = True"
| "same_but_text Ready Ready = True"
| "same_but_text (Failed _ a m r) (Failed _ a' m' r') = (a = a' \<and> m = m' \<and> r = r')"
| "same_but_text (Lost _) (Lost _) = True"
| "same_but_text Stopping Stopping = True"
| "same_but_text _ _ = False"

definition same_public :: "Connectivity \<Rightarrow> Connectivity \<Rightarrow> bool" where
  "same_public c d \<longleftrightarrow> c_policy c = c_policy d \<and> c_state c = c_state d \<and>
     c_failure_count c = c_failure_count d \<and> c_retry_delay c = c_retry_delay d"

lemma same_public_step: "same_but_text e f \<Longrightarrow> same_public c d \<Longrightarrow> same_public (conn_step c e) (conn_step d f)"
  by (cases e; cases f) (auto simp: same_public_def ops Let_def split: option.splits)

text \<open>
  The published snapshot does not depend on any error text. Two histories that differ only in
  the texts of failures, losses and attempts publish the same snapshot after every step, so raw
  BlueZ errors (which may contain device paths) cannot leak through it.
\<close>

theorem snapshot_hides_error_text:
  assumes "list_all2 same_but_text es fs"
  shows "snapshot (conn_run c es) = snapshot (conn_run (c\<lparr>c_detail := secret\<rparr>) fs)"
proof -
  have "same_public a b \<Longrightarrow> same_public (conn_run a es) (conn_run b fs)" for a b
    using assms by (induction arbitrary: a b rule: list_all2_induct) (auto intro: same_public_step)
  from this [of c "c\<lparr>c_detail := secret\<rparr>"]
  have "same_public (conn_run c es) (conn_run (c\<lparr>c_detail := secret\<rparr>) fs)"
    by (simp add: same_public_def)
  then show ?thesis by (simp add: snapshot_def same_public_def)
qed

theorem snapshot_hides_error_text_witness:
  "snapshot (conn_run (Connectivity_init None) [Failed (lit ''/org/bluez/hci0'') False False None]) =
   snapshot (conn_run ((Connectivity_init None)\<lparr>c_detail := lit ''y''\<rparr>) [Failed (lit ''x'') False False None])"
  by (rule snapshot_hides_error_text) simp

end
