(* ===== verification/Profile_Supervisor.thy ===== *)
theory Profile_Supervisor
  imports Connectivity
begin

text \<open>
  The supervisor of the long-lived MAP and PBAP sessions (\<open>profile_supervisor.py\<close>): open, close,
  retry, loss, pause and stop transitions. Its injected collaborators are modelled by what they
  answer: the OBEX worker accepts or rejects a job and later completes it, the session manager says
  which sessions exist, the scheduler hands out timer ids. Accepted jobs that have not completed are
  kept beside the supervisor's own fields (\<open>ps_jobs\<close>).
  The lemmas show that the supervisor owns at most one timer and one job of its current generation,
  that it is never stuck, that consumers are told about a loss exactly once per activation, and that
  completions of an earlier generation are ignored.
\<close>

section \<open>State\<close>

datatype ps_job = OpenJob nat | CloseJob nat bool

fun job_gen :: "ps_job \<Rightarrow> nat" where
  "job_gen (OpenJob g) = g"
| "job_gen (CloseJob g remove_remote) = g"

datatype ps_timer = RetryCb | RetryCloseCb nat bool

datatype ps_call = OnReady | OnLost pystr | OnStatus | OnPartialReady | OnAttemptPending
  | OnFirstAttemptComplete | StartMonitoring | Submit ps_job | SubmitRejected ps_job

record ProfileSupervisor =
  ps_connectivity :: Connectivity
  ps_retry_id :: "nat option"
  ps_opening :: bool
  ps_closing :: bool
  ps_ready :: bool
  ps_consumers_active :: bool
  ps_ever_ready :: bool
  ps_stopping :: bool
  ps_paused :: bool
  ps_generation :: nat
  ps_first_attempt_completed :: bool
  ps_history :: "(ps_timer, ps_call) eff list"
  ps_jobs :: "ps_job list"

text \<open>Which optional callbacks the constructor was given, and the scheduler.\<close>

record ps_config =
  has_partial_ready :: bool
  has_attempt_pending :: bool
  has_first_attempt_complete :: bool
  sched :: "(ps_timer, ps_call) eff list \<Rightarrow> nat"
  fold_case :: "pystr \<Rightarrow> pystr"

text \<open>What the collaborators answer during one operation.\<close>

record ps_env =
  accepts :: bool
  map_session :: bool
  pbap_session :: bool
  attempt_ready :: bool

definition ProfileSupervisor_init :: "Connectivity \<Rightarrow> ProfileSupervisor" where
  "ProfileSupervisor_init c =
     \<lparr>ps_connectivity = c, ps_retry_id = None, ps_opening = False, ps_closing = False,
      ps_ready = False, ps_consumers_active = False, ps_ever_ready = False, ps_stopping = False,
      ps_paused = False, ps_generation = 0, ps_first_attempt_completed = False,
      ps_history = [], ps_jobs = []\<rparr>"

section \<open>Calls to the collaborators\<close>

definition ps_call :: "ps_call \<Rightarrow> ProfileSupervisor \<Rightarrow> ProfileSupervisor" where
  [ops]: "ps_call e s = s\<lparr>ps_history := Call e # ps_history s\<rparr>"

definition ps_schedule :: "ps_config \<Rightarrow> int \<Rightarrow> ps_timer \<Rightarrow> ProfileSupervisor \<Rightarrow> ProfileSupervisor" where
  [ops]: "ps_schedule cf delay f s =
     s\<lparr>ps_retry_id := Some (sched cf (ps_history s)),
       ps_history := Schedule (sched cf (ps_history s)) delay f # ps_history s\<rparr>"

definition ps_cancel :: "ProfileSupervisor \<Rightarrow> ProfileSupervisor" where
  [ops]: "ps_cancel s = (case ps_retry_id s of None \<Rightarrow> s
     | Some i \<Rightarrow> s\<lparr>ps_history := Cancel i # ps_history s, ps_retry_id := None\<rparr>)"

definition ps_submit :: "ps_job \<Rightarrow> ProfileSupervisor \<Rightarrow> ProfileSupervisor" where
  [ops]: "ps_submit j s = ps_call (Submit j) (s\<lparr>ps_jobs := ps_jobs s @ [j]\<rparr>)"

section \<open>Operations\<close>

definition INITIAL_MAP_CONNECT_POLL_SECONDS :: int where
  [consts_defs]: "INITIAL_MAP_CONNECT_POLL_SECONDS = 5"
definition MAP_RECONNECT_POLL_SECONDS :: int where
  [consts_defs]: "MAP_RECONNECT_POLL_SECONDS = 15"

definition poll_seconds :: "ProfileSupervisor \<Rightarrow> int" where
  "poll_seconds s =
     (if ps_ever_ready s then MAP_RECONNECT_POLL_SECONDS else INITIAL_MAP_CONNECT_POLL_SECONDS)"

definition schedule_retry :: "ps_config \<Rightarrow> int \<Rightarrow> ProfileSupervisor \<Rightarrow> ProfileSupervisor" where
  [ops]: "schedule_retry cf delay s =
     (if ps_stopping s \<or> ps_retry_id s \<noteq> None then s else ps_schedule cf delay RetryCb s)"

definition complete_first_attempt :: "ps_config \<Rightarrow> ps_env \<Rightarrow> bool \<Rightarrow> ProfileSupervisor \<Rightarrow> ProfileSupervisor" where
  [ops]: "complete_first_attempt cf env force s =
     (if ps_first_attempt_completed s then s
      else if \<not> force \<and> \<not> attempt_ready env then s
      else let s' = s\<lparr>ps_first_attempt_completed := True\<rparr>
        in if has_first_attempt_complete cf then ps_call OnFirstAttemptComplete s' else s')"

definition begin_attempt_cycle :: "ps_config \<Rightarrow> ProfileSupervisor \<Rightarrow> ProfileSupervisor" where
  [ops]: "begin_attempt_cycle cf s =
     (if \<not> ps_first_attempt_completed s \<and> ps_opening s then s
      else let s' = s\<lparr>ps_first_attempt_completed := False\<rparr>
        in if has_attempt_pending cf then ps_call OnAttemptPending s' else s')"

definition mark_ready :: "ProfileSupervisor \<Rightarrow> ProfileSupervisor" where
  [ops]: "mark_ready s =
     (let s1 = ps_cancel s;
          s2 = ps_call OnStatus (s1\<lparr>ps_connectivity := c_ready (ps_connectivity s1)\<rparr>);
          s3 = s2\<lparr>ps_ever_ready := True\<rparr>
      in if ps_ready s3 then s3
         else ps_call OnReady (s3\<lparr>ps_ready := True, ps_consumers_active := True\<rparr>))"

definition ps_open :: "ps_config \<Rightarrow> ps_env \<Rightarrow> pystr \<Rightarrow> ProfileSupervisor \<Rightarrow> ProfileSupervisor" where
  [ops]: "ps_open cf env queue_full s =
     (if ps_stopping s \<or> ps_paused s \<or> ps_opening s \<or> ps_closing s then s
      else if map_session env \<and> pbap_session env then mark_ready s
      else
        let s1 = ps_call OnStatus (s\<lparr>ps_opening := True,
                   ps_connectivity := c_connecting (lit ''opening MAP/PBAP sessions'') (ps_connectivity s)\<rparr>);
            j = OpenJob (ps_generation s1)
        in if accepts env then ps_submit j s1
           else let s2 = (ps_call (SubmitRejected j) s1)\<lparr>ps_opening := False\<rparr>;
                    (c, delay) = c_failed queue_full False False (Some (poll_seconds s2)) (ps_connectivity s2)
             in schedule_retry cf delay (ps_call OnStatus (s2\<lparr>ps_connectivity := c\<rparr>)))"

definition ps_start :: "ps_config \<Rightarrow> ps_env \<Rightarrow> pystr \<Rightarrow> ProfileSupervisor \<Rightarrow> ProfileSupervisor" where
  [ops]: "ps_start cf env queue_full s =
     (if ps_stopping s then s
      else ps_open cf env queue_full (ps_call StartMonitoring (begin_attempt_cycle cf s)))"

definition submit_close :: "ps_config \<Rightarrow> ps_env \<Rightarrow> nat \<Rightarrow> bool \<Rightarrow> ProfileSupervisor \<Rightarrow> ProfileSupervisor" where
  [ops]: "submit_close cf env generation remove_remote s =
     (if ps_stopping s \<or> generation \<noteq> ps_generation s then s
      else if accepts env then ps_submit (CloseJob generation remove_remote) s
      else ps_schedule cf (poll_seconds s) (RetryCloseCb generation remove_remote)
             (ps_call (SubmitRejected (CloseJob generation remove_remote)) s))"

definition reconnect :: "ps_config \<Rightarrow> ps_env \<Rightarrow> pystr \<Rightarrow> bool \<Rightarrow> ProfileSupervisor \<Rightarrow> ProfileSupervisor" where
  [ops]: "reconnect cf env reason remove_remote s =
     (if ps_stopping s \<or> ps_paused s then s
      else if ps_closing s then s
      else
        let s1 = begin_attempt_cycle cf s;
            s2 = s1\<lparr>ps_generation := ps_generation s1 + 1,
                    ps_connectivity := c_lost reason (ps_connectivity s1)\<rparr>;
            s3 = (ps_call OnStatus s2)\<lparr>ps_ready := False\<rparr>;
            s4 = (if ps_consumers_active s3
                  then ps_call (OnLost reason) (s3\<lparr>ps_consumers_active := False\<rparr>) else s3);
            s5 = ps_cancel (s4\<lparr>ps_opening := False, ps_closing := True\<rparr>)
        in submit_close cf env (ps_generation s2) remove_remote s5)"

definition session_lost :: "ps_config \<Rightarrow> ps_env \<Rightarrow> pystr \<Rightarrow> ProfileSupervisor \<Rightarrow> ProfileSupervisor" where
  [ops]: "session_lost cf env reason s = reconnect cf env reason False s"

definition ps_pause :: "ProfileSupervisor \<Rightarrow> ProfileSupervisor" where
  [ops]: "ps_pause s =
     (let reason = lit ''Bluetooth adapter recovery'';
          s1 = ps_cancel (s\<lparr>ps_paused := True, ps_generation := ps_generation s + 1,
                            ps_opening := False, ps_closing := False\<rparr>);
          s2 = s1\<lparr>ps_ready := False\<rparr>;
          s3 = (if ps_consumers_active s2
                then ps_call (OnLost reason) (s2\<lparr>ps_consumers_active := False\<rparr>) else s2)
      in ps_call OnStatus (s3\<lparr>ps_connectivity := c_lost reason (ps_connectivity s3)\<rparr>))"

definition ps_resume :: "ps_config \<Rightarrow> ps_env \<Rightarrow> ProfileSupervisor \<Rightarrow> ProfileSupervisor" where
  [ops]: "ps_resume cf env s =
     reconnect cf env (lit ''Bluetooth adapter recovery completed'') False (s\<lparr>ps_paused := False\<rparr>)"

definition ps_stop :: "ProfileSupervisor \<Rightarrow> ProfileSupervisor" where
  [ops]: "ps_stop s =
     ps_cancel (s\<lparr>ps_stopping := True, ps_generation := ps_generation s + 1, ps_ready := False,
                  ps_consumers_active := False, ps_opening := False, ps_closing := False,
                  ps_connectivity := c_stopping (ps_connectivity s)\<rparr>)"

definition opened :: "ps_config \<Rightarrow> ps_env \<Rightarrow> nat \<Rightarrow> ProfileSupervisor \<Rightarrow> ProfileSupervisor" where
  [ops]: "opened cf env generation s =
     (if ps_stopping s \<or> generation \<noteq> ps_generation s \<or> ps_closing s then s
      else mark_ready (complete_first_attempt cf env True (s\<lparr>ps_opening := False\<rparr>)))"

definition open_failed ::
  "ps_config \<Rightarrow> ps_env \<Rightarrow> nat \<Rightarrow> bool \<Rightarrow> pystr \<Rightarrow> ProfileSupervisor \<Rightarrow> ProfileSupervisor" where
  [ops]: "open_failed cf env generation session_error message s =
     (if ps_stopping s \<or> generation \<noteq> ps_generation s then s
      else
        let s1 = complete_first_attempt cf env False (s\<lparr>ps_opening := False\<rparr>);
            s2 = (if has_partial_ready cf \<and> (map_session env \<or> pbap_session env)
                  then ps_call OnPartialReady (s1\<lparr>ps_consumers_active := True\<rparr>) else s1);
            authorization_required =
              (session_error \<and> (py_contains (lit ''Forbidden'') message \<or>
                                py_contains (lit ''0x43'') message));
            refused = is_map_connection_refused (fold_case cf) message [];
            (c, delay) = c_failed message authorization_required refused (Some (poll_seconds s2))
                           (ps_connectivity s2)
        in schedule_retry cf delay (ps_call OnStatus (s2\<lparr>ps_connectivity := c\<rparr>)))"

definition closed :: "ps_config \<Rightarrow> nat \<Rightarrow> ProfileSupervisor \<Rightarrow> ProfileSupervisor" where
  [ops]: "closed cf generation s =
     (if ps_stopping s \<or> generation \<noteq> ps_generation s then s
      else let s' = s\<lparr>ps_closing := False\<rparr> in schedule_retry cf (poll_seconds s') s')"

definition close_failed :: "ps_config \<Rightarrow> nat \<Rightarrow> ProfileSupervisor \<Rightarrow> ProfileSupervisor" where
  [ops]: "close_failed cf generation s = closed cf generation s"

definition ps_retry :: "ps_config \<Rightarrow> ps_env \<Rightarrow> pystr \<Rightarrow> ProfileSupervisor \<Rightarrow> ProfileSupervisor" where
  [ops]: "ps_retry cf env queue_full s =
     (let s' = s\<lparr>ps_retry_id := None\<rparr> in if ps_stopping s' then s' else ps_open cf env queue_full s')"

definition retry_close :: "ps_config \<Rightarrow> ps_env \<Rightarrow> nat \<Rightarrow> bool \<Rightarrow> ProfileSupervisor \<Rightarrow> ProfileSupervisor" where
  [ops]: "retry_close cf env generation remove_remote s =
     submit_close cf env generation remove_remote (s\<lparr>ps_retry_id := None\<rparr>)"

section \<open>Runs\<close>

definition ps_fire :: "ps_config \<Rightarrow> ps_env \<Rightarrow> pystr \<Rightarrow> ps_timer \<Rightarrow> ProfileSupervisor \<Rightarrow> ProfileSupervisor" where
  "ps_fire cf env queue_full f s =
     (case f of RetryCb \<Rightarrow> ps_retry cf env queue_full s
      | RetryCloseCb g r \<Rightarrow> retry_close cf env g r s)"

text \<open>
  One step: a call of the daemon, the completion of an accepted job, or a live timer that fires and
  is then destroyed (its callback returns \<open>False\<close>).
\<close>

inductive ps_step :: "ps_config \<Rightarrow> ProfileSupervisor \<Rightarrow> ProfileSupervisor \<Rightarrow> bool" for cf where
  api_start: "ps_step cf s (ps_start cf env q s)"
| api_open: "ps_step cf s (ps_open cf env q s)"
| api_reconnect: "ps_step cf s (reconnect cf env reason r s)"
| api_lost: "ps_step cf s (session_lost cf env reason s)"
| api_pause: "ps_step cf s (ps_pause s)"
| api_resume: "ps_step cf s (ps_resume cf env s)"
| api_stop: "ps_step cf s (ps_stop s)"
| open_ok: "ps_jobs s = xs @ OpenJob g # ys \<Longrightarrow> ps_step cf s (opened cf env g (s\<lparr>ps_jobs := xs @ ys\<rparr>))"
| open_error: "ps_jobs s = xs @ OpenJob g # ys \<Longrightarrow>
    ps_step cf s (open_failed cf env g session_error message (s\<lparr>ps_jobs := xs @ ys\<rparr>))"
| close_ok: "ps_jobs s = xs @ CloseJob g r # ys \<Longrightarrow> ps_step cf s (closed cf g (s\<lparr>ps_jobs := xs @ ys\<rparr>))"
| close_error: "ps_jobs s = xs @ CloseJob g r # ys \<Longrightarrow>
    ps_step cf s (close_failed cf g (s\<lparr>ps_jobs := xs @ ys\<rparr>))"
| timer: "i \<in> live (ps_history s) \<Longrightarrow> callback_of i (ps_history s) = Some f \<Longrightarrow>
    t = ps_fire cf env q f s \<Longrightarrow> ps_step cf s (t\<lparr>ps_history := Expired i # ps_history t\<rparr>)"

text \<open>The daemon starts a new supervisor, on a scheduler that keeps GLib's promise about ids.\<close>

definition ps_started :: "ps_config \<Rightarrow> ProfileSupervisor \<Rightarrow> bool" where
  "ps_started cf s \<longleftrightarrow>
     fresh_ids (sched cf) \<and> (\<exists>c env q. s = ps_start cf env q (ProfileSupervisor_init c))"

section \<open>Invariants\<close>

text \<open>The live timers are the supervisor's own one and those in \<open>X\<close> (a timer whose callback runs).\<close>

definition owns :: "nat set \<Rightarrow> ProfileSupervisor \<Rightarrow> bool" where
  "owns X s \<longleftrightarrow> live (ps_history s) = timer_set [ps_retry_id s] \<union> X \<and> timer_set [ps_retry_id s] \<inter> X = {}"

definition current_jobs :: "ProfileSupervisor \<Rightarrow> ps_job list" where
  "current_jobs s = filter (\<lambda>j. job_gen j = ps_generation s) (ps_jobs s)"

definition retry_callback :: "ProfileSupervisor \<Rightarrow> ps_timer option" where
  "retry_callback s = (case ps_retry_id s of None \<Rightarrow> None | Some i \<Rightarrow> callback_of i (ps_history s))"

definition jobs_inv :: "ProfileSupervisor \<Rightarrow> bool" where
  "jobs_inv s \<longleftrightarrow>
     (\<forall>j \<in> set (ps_jobs s). job_gen j \<le> ps_generation s) \<and>
     (ps_retry_id s \<noteq> None \<longrightarrow> retry_callback s \<noteq> None) \<and>
     (if ps_opening s then \<not> ps_stopping s \<and> \<not> ps_paused s \<and> \<not> ps_closing s \<and>
           current_jobs s = [OpenJob (ps_generation s)] \<and> retry_callback s \<in> {None, Some RetryCb}
      else if ps_closing s then \<not> ps_stopping s \<and> \<not> ps_paused s \<and>
           (\<exists>r. current_jobs s = [CloseJob (ps_generation s) r] \<and> ps_retry_id s = None \<or>
                current_jobs s = [] \<and> retry_callback s = Some (RetryCloseCb (ps_generation s) r))
      else current_jobs s = [] \<and> retry_callback s \<in> {None, Some RetryCb} \<and>
           (ps_stopping s \<or> ps_paused s \<longrightarrow> ps_retry_id s = None) \<and>
           (ps_stopping s \<or> ps_paused s \<or> ps_ready s \<or> ps_retry_id s \<noteq> None))"

fun consumers_on :: "ps_call list \<Rightarrow> bool" where
  "consumers_on [] = False"
| "consumers_on (OnReady # _) = True"
| "consumers_on (OnPartialReady # _) = True"
| "consumers_on (OnLost _ # _) = False"
| "consumers_on (_ # h) = consumers_on h"

text \<open>Every loss notice in the history follows an activation without another notice in between.\<close>

fun losses_balanced :: "ps_call list \<Rightarrow> bool" where
  "losses_balanced [] = True"
| "losses_balanced (OnLost _ # h) = (consumers_on h \<and> losses_balanced h)"
| "losses_balanced (_ # h) = losses_balanced h"

definition consumers_inv :: "ProfileSupervisor \<Rightarrow> bool" where
  "consumers_inv s \<longleftrightarrow>
     losses_balanced (calls (ps_history s)) \<and>
     (ps_consumers_active s \<longrightarrow> consumers_on (calls (ps_history s))) \<and>
     (\<not> ps_stopping s \<longrightarrow> ps_consumers_active s = consumers_on (calls (ps_history s))) \<and>
     (ps_ready s \<longrightarrow> ps_consumers_active s) \<and> (ps_stopping s \<longrightarrow> \<not> ps_consumers_active s)"

definition ps_inv :: "ps_config \<Rightarrow> ProfileSupervisor \<Rightarrow> bool" where
  "ps_inv cf s \<longleftrightarrow> fresh_ids (sched cf) \<and> owns {} s \<and> jobs_inv s \<and> consumers_inv s"

lemma owns_call [simp]: "owns X (ps_call e s) = owns X s"
  by (simp add: owns_def ps_call_def)

lemma owns_schedule:
  "fresh_ids (sched cf) \<Longrightarrow> owns X s \<Longrightarrow> ps_retry_id s = None \<Longrightarrow> owns X (ps_schedule cf d f s)"
  using fresh_ids_live [of "sched cf" "ps_history s"] by (auto simp: owns_def ps_schedule_def)

lemma owns_schedule_retry: "fresh_ids (sched cf) \<Longrightarrow> owns X s \<Longrightarrow> owns X (schedule_retry cf d s)"
  by (simp add: schedule_retry_def owns_schedule)

lemma owns_cancel: "owns X s \<Longrightarrow> owns X (ps_cancel s) \<and> ps_retry_id (ps_cancel s) = None"
  by (auto simp: owns_def ps_cancel_def split: option.splits)

lemma owns_update [simp]:
  "owns X (s\<lparr>ps_connectivity := c\<rparr>) = owns X s" "owns X (s\<lparr>ps_opening := b\<rparr>) = owns X s"
  "owns X (s\<lparr>ps_closing := b\<rparr>) = owns X s" "owns X (s\<lparr>ps_ready := b\<rparr>) = owns X s"
  "owns X (s\<lparr>ps_consumers_active := b\<rparr>) = owns X s" "owns X (s\<lparr>ps_ever_ready := b\<rparr>) = owns X s"
  "owns X (s\<lparr>ps_stopping := b\<rparr>) = owns X s" "owns X (s\<lparr>ps_paused := b\<rparr>) = owns X s"
  "owns X (s\<lparr>ps_generation := n\<rparr>) = owns X s" "owns X (s\<lparr>ps_first_attempt_completed := b\<rparr>) = owns X s"
  "owns X (s\<lparr>ps_jobs := js\<rparr>) = owns X s"
  by (simp_all add: owns_def)

lemma owns_submit [simp]: "owns X (ps_submit j s) = owns X s"
  by (simp add: ps_submit_def)

lemma owns_first_attempt [simp]: "owns X (complete_first_attempt cf env b s) = owns X s"
  by (simp add: complete_first_attempt_def Let_def)

lemma owns_begin_cycle [simp]: "owns X (begin_attempt_cycle cf s) = owns X s"
  by (simp add: begin_attempt_cycle_def Let_def)

lemma owns_mark_ready: "owns X s \<Longrightarrow> owns X (mark_ready s)"
  using owns_cancel [of X s] by (simp add: mark_ready_def Let_def)

lemma owns_open: "fresh_ids (sched cf) \<Longrightarrow> owns X s \<Longrightarrow> owns X (ps_open cf env q s)"
  by (simp add: ps_open_def Let_def owns_mark_ready owns_schedule_retry split: prod.splits)

lemma owns_submit_close:
  "fresh_ids (sched cf) \<Longrightarrow> owns X s \<Longrightarrow> ps_retry_id s = None \<Longrightarrow> owns X (submit_close cf env g r s)"
  by (auto simp: submit_close_def intro!: owns_schedule) (simp add: ps_call_def)

lemma owns_reconnect: "fresh_ids (sched cf) \<Longrightarrow> owns X s \<Longrightarrow> owns X (reconnect cf env reason r s)"
  unfolding reconnect_def Let_def
  by (auto intro!: owns_submit_close owns_cancel [THEN conjunct1] owns_cancel [THEN conjunct2])

lemmas owns_ops = owns_mark_ready owns_open owns_submit_close owns_reconnect owns_schedule_retry
  owns_cancel [THEN conjunct1]

lemma owns_fire:
  assumes "fresh_ids (sched cf)" "owns {} s" "ps_retry_id s = Some i"
  shows "owns {} ((ps_fire cf env q f s)\<lparr>ps_history := Expired i # ps_history (ps_fire cf env q f s)\<rparr>)"
proof -
  have "owns {i} (s\<lparr>ps_retry_id := None\<rparr>)" using assms(2,3) by (simp add: owns_def)
  then have "owns {i} (ps_fire cf env q f s)"
    using assms(1) by (cases f) (auto simp: ps_fire_def ps_retry_def retry_close_def Let_def
        intro!: owns_open owns_submit_close)
  then show ?thesis by (auto simp: owns_def)
qed

lemma owns_step: "ps_step cf s t \<Longrightarrow> fresh_ids (sched cf) \<Longrightarrow> owns {} s \<Longrightarrow> owns {} t"
proof (induction rule: ps_step.induct)
  case (timer i s f t env q)
  then have "ps_retry_id s = Some i" by (cases "ps_retry_id s") (auto simp: owns_def)
  then show ?case using timer owns_fire by simp
qed (auto simp: ps_start_def session_lost_def ps_pause_def ps_resume_def ps_stop_def opened_def
    open_failed_def closed_def close_failed_def Let_def split: prod.splits intro!: owns_ops)

subsection \<open>Jobs\<close>

text \<open>What each building block leaves alone; the callback behind \<open>_retry_id\<close> among it.\<close>

lemma retry_callback_None [simp]: "ps_retry_id s = None \<Longrightarrow> retry_callback s = None"
  by (simp add: retry_callback_def)

lemma retry_callback_update [simp]:
  "retry_callback (s\<lparr>ps_connectivity := c\<rparr>) = retry_callback s"
  "retry_callback (s\<lparr>ps_opening := b\<rparr>) = retry_callback s"
  "retry_callback (s\<lparr>ps_closing := b\<rparr>) = retry_callback s"
  "retry_callback (s\<lparr>ps_ready := b\<rparr>) = retry_callback s"
  "retry_callback (s\<lparr>ps_consumers_active := b\<rparr>) = retry_callback s"
  "retry_callback (s\<lparr>ps_ever_ready := b\<rparr>) = retry_callback s"
  "retry_callback (s\<lparr>ps_stopping := b\<rparr>) = retry_callback s"
  "retry_callback (s\<lparr>ps_paused := b\<rparr>) = retry_callback s"
  "retry_callback (s\<lparr>ps_generation := n\<rparr>) = retry_callback s"
  "retry_callback (s\<lparr>ps_first_attempt_completed := b\<rparr>) = retry_callback s"
  "retry_callback (s\<lparr>ps_jobs := js\<rparr>) = retry_callback s"
  by (simp_all add: retry_callback_def split: option.split)

lemma current_jobs_update [simp]:
  "current_jobs (s\<lparr>ps_connectivity := c\<rparr>) = current_jobs s"
  "current_jobs (s\<lparr>ps_opening := b\<rparr>) = current_jobs s"
  "current_jobs (s\<lparr>ps_closing := b\<rparr>) = current_jobs s"
  "current_jobs (s\<lparr>ps_ready := b\<rparr>) = current_jobs s"
  "current_jobs (s\<lparr>ps_consumers_active := b\<rparr>) = current_jobs s"
  "current_jobs (s\<lparr>ps_ever_ready := b\<rparr>) = current_jobs s"
  "current_jobs (s\<lparr>ps_stopping := b\<rparr>) = current_jobs s"
  "current_jobs (s\<lparr>ps_paused := b\<rparr>) = current_jobs s"
  "current_jobs (s\<lparr>ps_first_attempt_completed := b\<rparr>) = current_jobs s"
  "current_jobs (s\<lparr>ps_retry_id := r\<rparr>) = current_jobs s"
  by (simp_all add: current_jobs_def)

lemma ps_call_frame [simp]:
  "ps_opening (ps_call e s) = ps_opening s" "ps_closing (ps_call e s) = ps_closing s"
  "ps_ready (ps_call e s) = ps_ready s" "ps_consumers_active (ps_call e s) = ps_consumers_active s"
  "ps_stopping (ps_call e s) = ps_stopping s" "ps_paused (ps_call e s) = ps_paused s"
  "ps_generation (ps_call e s) = ps_generation s" "ps_jobs (ps_call e s) = ps_jobs s"
  "ps_retry_id (ps_call e s) = ps_retry_id s" "retry_callback (ps_call e s) = retry_callback s"
  "current_jobs (ps_call e s) = current_jobs s" "ps_connectivity (ps_call e s) = ps_connectivity s"
  "ps_ever_ready (ps_call e s) = ps_ever_ready s"
  by (simp_all add: ps_call_def retry_callback_def current_jobs_def split: option.splits)

lemma first_attempt_frame [simp]:
  "ps_opening (complete_first_attempt cf env b s) = ps_opening s"
  "ps_closing (complete_first_attempt cf env b s) = ps_closing s"
  "ps_ready (complete_first_attempt cf env b s) = ps_ready s"
  "ps_consumers_active (complete_first_attempt cf env b s) = ps_consumers_active s"
  "ps_stopping (complete_first_attempt cf env b s) = ps_stopping s"
  "ps_paused (complete_first_attempt cf env b s) = ps_paused s"
  "ps_generation (complete_first_attempt cf env b s) = ps_generation s"
  "ps_jobs (complete_first_attempt cf env b s) = ps_jobs s"
  "ps_retry_id (complete_first_attempt cf env b s) = ps_retry_id s"
  "retry_callback (complete_first_attempt cf env b s) = retry_callback s"
  "current_jobs (complete_first_attempt cf env b s) = current_jobs s"
  "ps_connectivity (complete_first_attempt cf env b s) = ps_connectivity s"
  "ps_ever_ready (complete_first_attempt cf env b s) = ps_ever_ready s"
  by (simp_all add: complete_first_attempt_def Let_def)

lemma begin_cycle_frame [simp]:
  "ps_opening (begin_attempt_cycle cf s) = ps_opening s"
  "ps_closing (begin_attempt_cycle cf s) = ps_closing s"
  "ps_ready (begin_attempt_cycle cf s) = ps_ready s"
  "ps_consumers_active (begin_attempt_cycle cf s) = ps_consumers_active s"
  "ps_stopping (begin_attempt_cycle cf s) = ps_stopping s"
  "ps_paused (begin_attempt_cycle cf s) = ps_paused s"
  "ps_generation (begin_attempt_cycle cf s) = ps_generation s"
  "ps_jobs (begin_attempt_cycle cf s) = ps_jobs s"
  "ps_retry_id (begin_attempt_cycle cf s) = ps_retry_id s"
  "retry_callback (begin_attempt_cycle cf s) = retry_callback s"
  "current_jobs (begin_attempt_cycle cf s) = current_jobs s"
  "ps_connectivity (begin_attempt_cycle cf s) = ps_connectivity s"
  "ps_ever_ready (begin_attempt_cycle cf s) = ps_ever_ready s"
  by (simp_all add: begin_attempt_cycle_def Let_def)

lemma ps_cancel_frame [simp]:
  "ps_opening (ps_cancel s) = ps_opening s" "ps_closing (ps_cancel s) = ps_closing s"
  "ps_ready (ps_cancel s) = ps_ready s" "ps_consumers_active (ps_cancel s) = ps_consumers_active s"
  "ps_stopping (ps_cancel s) = ps_stopping s" "ps_paused (ps_cancel s) = ps_paused s"
  "ps_generation (ps_cancel s) = ps_generation s" "ps_jobs (ps_cancel s) = ps_jobs s"
  "current_jobs (ps_cancel s) = current_jobs s" "ps_connectivity (ps_cancel s) = ps_connectivity s"
  "ps_ever_ready (ps_cancel s) = ps_ever_ready s" "ps_retry_id (ps_cancel s) = None"
  "retry_callback (ps_cancel s) = None"
  by (simp_all add: ps_cancel_def current_jobs_def split: option.splits)

lemma ps_schedule_frame [simp]:
  "ps_opening (ps_schedule cf d f s) = ps_opening s"
  "ps_closing (ps_schedule cf d f s) = ps_closing s" "ps_ready (ps_schedule cf d f s) = ps_ready s"
  "ps_consumers_active (ps_schedule cf d f s) = ps_consumers_active s"
  "ps_stopping (ps_schedule cf d f s) = ps_stopping s"
  "ps_paused (ps_schedule cf d f s) = ps_paused s"
  "ps_generation (ps_schedule cf d f s) = ps_generation s"
  "ps_jobs (ps_schedule cf d f s) = ps_jobs s"
  "current_jobs (ps_schedule cf d f s) = current_jobs s"
  "ps_connectivity (ps_schedule cf d f s) = ps_connectivity s"
  "ps_ever_ready (ps_schedule cf d f s) = ps_ever_ready s"
  "ps_retry_id (ps_schedule cf d f s) \<noteq> None"
  "retry_callback (ps_schedule cf d f s) = Some f"
  by (simp_all add: ps_schedule_def retry_callback_def current_jobs_def)

lemma schedule_retry_frame [simp]:
  "ps_opening (schedule_retry cf d s) = ps_opening s"
  "ps_closing (schedule_retry cf d s) = ps_closing s"
  "ps_ready (schedule_retry cf d s) = ps_ready s"
  "ps_consumers_active (schedule_retry cf d s) = ps_consumers_active s"
  "ps_stopping (schedule_retry cf d s) = ps_stopping s"
  "ps_paused (schedule_retry cf d s) = ps_paused s"
  "ps_generation (schedule_retry cf d s) = ps_generation s"
  "ps_jobs (schedule_retry cf d s) = ps_jobs s"
  "current_jobs (schedule_retry cf d s) = current_jobs s"
  "ps_connectivity (schedule_retry cf d s) = ps_connectivity s"
  "ps_ever_ready (schedule_retry cf d s) = ps_ever_ready s"
  by (simp_all add: schedule_retry_def)

lemma schedule_retry_callback:
  "ps_retry_id (schedule_retry cf d s) = None \<longleftrightarrow> ps_stopping s \<and> ps_retry_id s = None"
  "retry_callback (schedule_retry cf d s) =
     (if ps_stopping s \<or> ps_retry_id s \<noteq> None then retry_callback s else Some RetryCb)"
  by (auto simp: schedule_retry_def)

lemma mark_ready_frame [simp]:
  "ps_opening (mark_ready s) = ps_opening s" "ps_closing (mark_ready s) = ps_closing s"
  "ps_stopping (mark_ready s) = ps_stopping s" "ps_paused (mark_ready s) = ps_paused s"
  "ps_generation (mark_ready s) = ps_generation s" "ps_jobs (mark_ready s) = ps_jobs s"
  "current_jobs (mark_ready s) = current_jobs s" "ps_ready (mark_ready s)"
  "ps_retry_id (mark_ready s) = None" "retry_callback (mark_ready s) = None"
  by (simp_all add: mark_ready_def Let_def)

lemma ps_submit_frame [simp]:
  "ps_opening (ps_submit j s) = ps_opening s" "ps_closing (ps_submit j s) = ps_closing s"
  "ps_ready (ps_submit j s) = ps_ready s"
  "ps_consumers_active (ps_submit j s) = ps_consumers_active s"
  "ps_stopping (ps_submit j s) = ps_stopping s" "ps_paused (ps_submit j s) = ps_paused s"
  "ps_generation (ps_submit j s) = ps_generation s" "ps_retry_id (ps_submit j s) = ps_retry_id s"
  "retry_callback (ps_submit j s) = retry_callback s"
  "ps_connectivity (ps_submit j s) = ps_connectivity s"
  "ps_ever_ready (ps_submit j s) = ps_ever_ready s" "ps_jobs (ps_submit j s) = ps_jobs s @ [j]"
  "current_jobs (ps_submit j s) = current_jobs s @ (if job_gen j = ps_generation s then [j] else [])"
  by (simp_all add: ps_submit_def) (simp_all add: current_jobs_def)

lemma current_jobs_bump:
  "\<forall>j \<in> set (ps_jobs s). job_gen j \<le> n \<Longrightarrow> current_jobs (s\<lparr>ps_generation := Suc n\<rparr>) = []"
  by (auto simp: current_jobs_def filter_empty_conv)

lemma jobs_inv_schedule_retry:
  assumes "\<forall>j \<in> set (ps_jobs s). job_gen j \<le> ps_generation s" "current_jobs s = []"
    and "ps_retry_id s = None \<or> retry_callback s = Some RetryCb"
    and "\<not> ps_stopping s" "\<not> ps_paused s" "\<not> ps_opening s" "\<not> ps_closing s"
  shows "jobs_inv (schedule_retry cf d s)"
  using assms by (auto simp: jobs_inv_def schedule_retry_callback simp del: not_None_eq)

lemma jobs_inv_open_idle:
  assumes "\<forall>j \<in> set (ps_jobs s). job_gen j \<le> ps_generation s" "current_jobs s = []"
    and "ps_retry_id s = None \<or> retry_callback s = Some RetryCb"
    and "\<not> ps_stopping s" "\<not> ps_paused s" "\<not> ps_opening s" "\<not> ps_closing s"
  shows "jobs_inv (ps_open cf env q s)"
proof -
  have "jobs_inv (mark_ready s)" "jobs_inv (ps_submit (OpenJob (ps_generation s)) (ps_call OnStatus
      (s\<lparr>ps_opening := True, ps_connectivity := c\<rparr>)))" for c
    using assms by (auto simp: jobs_inv_def simp del: not_None_eq)
  with assms show ?thesis
    by (simp add: ps_open_def Let_def jobs_inv_schedule_retry del: not_None_eq split: prod.split)
qed

lemma jobs_inv_open:
  assumes "jobs_inv s" shows "jobs_inv (ps_open cf env q s)"
proof (cases "ps_stopping s \<or> ps_paused s \<or> ps_opening s \<or> ps_closing s")
  case True
  with assms show ?thesis by (simp add: ps_open_def)
next
  case False
  with assms show ?thesis by (intro jobs_inv_open_idle) (auto simp: jobs_inv_def)
qed

lemma jobs_inv_reconnect_live:
  assumes "\<forall>j \<in> set (ps_jobs s). job_gen j \<le> ps_generation s"
    and "\<not> ps_stopping s" "\<not> ps_paused s" "\<not> ps_closing s"
  shows "jobs_inv (reconnect cf env reason r s)"
  using assms by (auto simp: jobs_inv_def reconnect_def submit_close_def Let_def current_jobs_bump le_Suc_eq)

lemma jobs_inv_gen: "jobs_inv s \<Longrightarrow> \<forall>j \<in> set (ps_jobs s). job_gen j \<le> ps_generation s"
  by (simp add: jobs_inv_def)

lemma jobs_inv_reconnect:
  assumes "jobs_inv s" shows "jobs_inv (reconnect cf env reason r s)"
proof (cases "ps_stopping s \<or> ps_paused s \<or> ps_closing s")
  case True
  with assms show ?thesis by (auto simp: reconnect_def)
next
  case False
  with assms show ?thesis by (simp add: jobs_inv_reconnect_live jobs_inv_gen)
qed

lemma jobs_inv_resume:
  assumes "jobs_inv s" shows "jobs_inv (ps_resume cf env s)"
proof (cases "ps_paused s \<and> \<not> ps_stopping s")
  case True
  with assms have "\<not> ps_closing s" by (auto simp: jobs_inv_def split: if_splits)
  with True assms show ?thesis by (simp add: ps_resume_def jobs_inv_reconnect_live jobs_inv_gen)
next
  case False
  with assms have "jobs_inv (s\<lparr>ps_paused := False\<rparr>)"
    by (cases "ps_stopping s") (auto simp: jobs_inv_def split: if_splits)
  then show ?thesis by (simp add: ps_resume_def jobs_inv_reconnect)
qed

lemma jobs_inv_pause: "jobs_inv s \<Longrightarrow> jobs_inv (ps_pause s)"
  by (auto simp: jobs_inv_def ps_pause_def Let_def current_jobs_bump le_Suc_eq)

lemma jobs_inv_stop: "jobs_inv s \<Longrightarrow> jobs_inv (ps_stop s)"
  by (auto simp: jobs_inv_def ps_stop_def Let_def current_jobs_bump le_Suc_eq)

text \<open>A job that completes: if it belongs to the current generation it was the only such job.\<close>

lemma jobs_inv_done:
  assumes "jobs_inv s" and "ps_jobs s = xs @ j # ys"
  shows "\<forall>k \<in> set (xs @ ys). job_gen k \<le> ps_generation s"
    and "job_gen j \<noteq> ps_generation s \<Longrightarrow> jobs_inv (s\<lparr>ps_jobs := xs @ ys\<rparr>)"
    and "job_gen j = ps_generation s \<Longrightarrow>
      current_jobs s = [j] \<and> current_jobs (s\<lparr>ps_jobs := xs @ ys\<rparr>) = [] \<and> \<not> ps_stopping s \<and> \<not> ps_paused s \<and>
      (if ps_opening s then j = OpenJob (ps_generation s) else ps_closing s \<and> (\<exists>r. j = CloseJob (ps_generation s) r))"
proof -
  show "\<forall>k \<in> set (xs @ ys). job_gen k \<le> ps_generation s"
    using assms by (auto simp: jobs_inv_def)
  show "jobs_inv (s\<lparr>ps_jobs := xs @ ys\<rparr>)" if "job_gen j \<noteq> ps_generation s"
  proof -
    have "current_jobs (s\<lparr>ps_jobs := xs @ ys\<rparr>) = current_jobs s"
      using assms(2) that by (simp add: current_jobs_def)
    then show ?thesis using assms by (auto simp: jobs_inv_def)
  qed
  assume g: "job_gen j = ps_generation s"
  then have "current_jobs s = filter (\<lambda>k. job_gen k = ps_generation s) xs @ j #
      filter (\<lambda>k. job_gen k = ps_generation s) ys"
    using assms(2) by (simp add: current_jobs_def)
  moreover have "length (current_jobs s) \<le> 1"
    using assms(1) by (auto simp: jobs_inv_def split: if_splits)
  ultimately have c: "current_jobs s = [j]" and
    c': "filter (\<lambda>k. job_gen k = ps_generation s) (xs @ ys) = []"
    by auto
  then show "current_jobs s = [j] \<and> current_jobs (s\<lparr>ps_jobs := xs @ ys\<rparr>) = [] \<and> \<not> ps_stopping s \<and>
      \<not> ps_paused s \<and>
      (if ps_opening s then j = OpenJob (ps_generation s) else ps_closing s \<and> (\<exists>r. j = CloseJob (ps_generation s) r))"
    using assms(1) by (auto simp: jobs_inv_def current_jobs_def split: if_splits)
qed

lemma jobs_inv_mark_ready:
  assumes "\<forall>j \<in> set (ps_jobs s). job_gen j \<le> ps_generation s" "current_jobs s = []"
    and "\<not> ps_stopping s" "\<not> ps_paused s" "\<not> ps_opening s" "\<not> ps_closing s"
  shows "jobs_inv (mark_ready s)"
  using assms by (simp add: jobs_inv_def)

lemma jobs_inv_opened:
  assumes "jobs_inv s" and "ps_jobs s = xs @ OpenJob g # ys"
  shows "jobs_inv (opened cf env g (s\<lparr>ps_jobs := xs @ ys\<rparr>))"
proof (cases "g = ps_generation s")
  case True
  with jobs_inv_done [OF assms] have o: "ps_opening s" "\<not> ps_stopping s" "\<not> ps_paused s"
    "current_jobs (s\<lparr>ps_jobs := xs @ ys\<rparr>) = []" by (auto split: if_splits)
  moreover from o assms(1) have "\<not> ps_closing s" by (simp add: jobs_inv_def)
  moreover note jobs_inv_done(1) [OF assms]
  ultimately show ?thesis using True by (simp add: opened_def jobs_inv_mark_ready)
next
  case False
  with jobs_inv_done(2) [OF assms] show ?thesis by (simp add: opened_def)
qed

lemma jobs_inv_open_failed:
  assumes "jobs_inv s" and "ps_jobs s = xs @ OpenJob g # ys"
  shows "jobs_inv (open_failed cf env g e m (s\<lparr>ps_jobs := xs @ ys\<rparr>))"
proof (cases "g = ps_generation s")
  case True
  with jobs_inv_done [OF assms] have o: "ps_opening s" "\<not> ps_stopping s" "\<not> ps_paused s"
    "current_jobs (s\<lparr>ps_jobs := xs @ ys\<rparr>) = []" by (auto split: if_splits)
  moreover from o assms(1) have "\<not> ps_closing s" "ps_retry_id s = None \<or> retry_callback s = Some RetryCb"
    by (auto simp: jobs_inv_def)
  moreover note jobs_inv_done(1) [OF assms]
  ultimately show ?thesis using True
    by (simp add: open_failed_def Let_def jobs_inv_schedule_retry split: prod.split)
next
  case False
  with jobs_inv_done(2) [OF assms] show ?thesis by (simp add: open_failed_def)
qed

lemma jobs_inv_closed:
  assumes "jobs_inv s" and "ps_jobs s = xs @ CloseJob g r # ys"
  shows "jobs_inv (closed cf g (s\<lparr>ps_jobs := xs @ ys\<rparr>))"
proof (cases "g = ps_generation s")
  case True
  with jobs_inv_done [OF assms] have o: "\<not> ps_opening s" "ps_closing s" "\<not> ps_stopping s" "\<not> ps_paused s"
    "current_jobs (s\<lparr>ps_jobs := xs @ ys\<rparr>) = []" "current_jobs s \<noteq> []" by (auto split: if_splits)
  moreover from o assms(1) have "ps_retry_id s = None" by (auto simp: jobs_inv_def)
  moreover note jobs_inv_done(1) [OF assms]
  ultimately show ?thesis using True
    by (simp add: closed_def Let_def jobs_inv_schedule_retry)
next
  case False
  with jobs_inv_done(2) [OF assms] show ?thesis by (simp add: closed_def)
qed

lemma jobs_inv_frame [simp]:
  "jobs_inv (ps_call e s) = jobs_inv s" "jobs_inv (begin_attempt_cycle cf s) = jobs_inv s"
  by (simp_all add: jobs_inv_def cong: if_cong)

lemma jobs_inv_start: "jobs_inv s \<Longrightarrow> jobs_inv (ps_start cf env q s)"
  by (simp add: ps_start_def jobs_inv_open)

lemma jobs_inv_init: "jobs_inv (ps_start cf env q (ProfileSupervisor_init c))"
proof -
  have "jobs_inv (ps_open cf env q (ps_call StartMonitoring (begin_attempt_cycle cf (ProfileSupervisor_init c))))"
    by (rule jobs_inv_open_idle) (simp_all add: ProfileSupervisor_init_def current_jobs_def)
  then show ?thesis by (simp add: ps_start_def ProfileSupervisor_init_def)
qed

lemma jobs_inv_expired [simp]:
  "jobs_inv (s\<lparr>ps_history := Expired i # ps_history s\<rparr>) = jobs_inv s"
  by (simp add: jobs_inv_def retry_callback_def current_jobs_def split: option.split)

lemma jobs_inv_fire:
  assumes "jobs_inv s" and "ps_retry_id s = Some i" and "callback_of i (ps_history s) = Some f"
  shows "jobs_inv (ps_fire cf env q f s)"
proof (cases f)
  case RetryCb
  then have f: "retry_callback s = Some RetryCb" using assms(2,3) by (simp add: retry_callback_def)
  have g: "\<forall>j \<in> set (ps_jobs s). job_gen j \<le> ps_generation s" "\<not> ps_stopping s" "\<not> ps_closing s" "\<not> ps_paused s"
    using assms(1,2) f by (auto simp: jobs_inv_def split: if_splits)
  have "jobs_inv (ps_open cf env q (s\<lparr>ps_retry_id := None\<rparr>))"
  proof (cases "ps_opening s")
    case True
    with assms(1) show ?thesis by (simp add: ps_open_def jobs_inv_def)
  next
    case False
    with assms(1) g have "current_jobs s = []" by (simp add: jobs_inv_def)
    with False g show ?thesis by (intro jobs_inv_open_idle) simp_all
  qed
  with g RetryCb show ?thesis by (simp add: ps_fire_def ps_retry_def Let_def)
next
  case (RetryCloseCb g r)
  then have "retry_callback s = Some (RetryCloseCb g r)" using assms(2,3) by (simp add: retry_callback_def)
  with assms(1,2) have "ps_closing s" "\<not> ps_opening s" "\<not> ps_stopping s" "\<not> ps_paused s"
    "g = ps_generation s" "current_jobs s = []" "\<forall>j \<in> set (ps_jobs s). job_gen j \<le> ps_generation s"
    by (auto simp: jobs_inv_def split: if_splits)
  with RetryCloseCb show ?thesis
    by (simp add: ps_fire_def retry_close_def submit_close_def jobs_inv_def)
qed

lemma jobs_inv_step: "ps_step cf s t \<Longrightarrow> owns {} s \<Longrightarrow> jobs_inv s \<Longrightarrow> jobs_inv t"
proof (induction rule: ps_step.induct)
  case (timer i s f t env q)
  then have "ps_retry_id s = Some i" by (cases "ps_retry_id s") (auto simp: owns_def)
  then show ?case using timer jobs_inv_fire by simp
qed (auto simp: session_lost_def close_failed_def intro: jobs_inv_start jobs_inv_open jobs_inv_reconnect
    jobs_inv_pause jobs_inv_resume jobs_inv_stop jobs_inv_opened jobs_inv_open_failed jobs_inv_closed)

subsection \<open>Consumers\<close>

text \<open>The loss and activation notices among the calls of a history, newest first.\<close>

definition notices :: "ProfileSupervisor \<Rightarrow> ps_call list" where
  "notices s = filter (\<lambda>e. consumers_on [e] \<or> (\<exists>m. e = OnLost m)) (calls (ps_history s))"

lemma consumers_on_filter:
  "consumers_on (filter (\<lambda>e. consumers_on [e] \<or> (\<exists>m. e = OnLost m)) h) = consumers_on h"
  by (induction h rule: consumers_on.induct) auto

lemma losses_balanced_filter:
  "losses_balanced (filter (\<lambda>e. consumers_on [e] \<or> (\<exists>m. e = OnLost m)) h) = losses_balanced h"
  by (induction h rule: losses_balanced.induct) (auto simp: consumers_on_filter)

lemma consumers_inv_notices:
  "consumers_inv s \<longleftrightarrow> losses_balanced (notices s) \<and>
     (ps_consumers_active s \<longrightarrow> consumers_on (notices s)) \<and>
     (\<not> ps_stopping s \<longrightarrow> ps_consumers_active s = consumers_on (notices s)) \<and>
     (ps_ready s \<longrightarrow> ps_consumers_active s) \<and> (ps_stopping s \<longrightarrow> \<not> ps_consumers_active s)"
  by (simp add: consumers_inv_def notices_def consumers_on_filter losses_balanced_filter)

lemma notices_update [simp]:
  "notices (s\<lparr>ps_connectivity := c\<rparr>) = notices s" "notices (s\<lparr>ps_opening := b\<rparr>) = notices s"
  "notices (s\<lparr>ps_closing := b\<rparr>) = notices s" "notices (s\<lparr>ps_ready := b\<rparr>) = notices s"
  "notices (s\<lparr>ps_consumers_active := b\<rparr>) = notices s" "notices (s\<lparr>ps_ever_ready := b\<rparr>) = notices s"
  "notices (s\<lparr>ps_stopping := b\<rparr>) = notices s" "notices (s\<lparr>ps_paused := b\<rparr>) = notices s"
  "notices (s\<lparr>ps_generation := n\<rparr>) = notices s"
  "notices (s\<lparr>ps_first_attempt_completed := b\<rparr>) = notices s"
  "notices (s\<lparr>ps_jobs := js\<rparr>) = notices s" "notices (s\<lparr>ps_retry_id := r\<rparr>) = notices s"
  "notices (s\<lparr>ps_history := Expired i # ps_history s\<rparr>) = notices s"
  by (simp_all add: notices_def)

lemma notices_blocks [simp]:
  "notices (ps_call e s) =
     (if consumers_on [e] \<or> (\<exists>m. e = OnLost m) then e # notices s else notices s)"
  "notices (ps_schedule cf d f s) = notices s" "notices (ps_cancel s) = notices s"
  "notices (ps_submit j s) = notices s" "notices (schedule_retry cf d s) = notices s"
  "notices (complete_first_attempt cf env b s) = notices s"
  "notices (begin_attempt_cycle cf s) = notices s"
  "notices (submit_close cf env g r s) = notices s"
  by (simp_all add: notices_def ps_call_def ps_schedule_def ps_cancel_def ps_submit_def
      schedule_retry_def complete_first_attempt_def begin_attempt_cycle_def submit_close_def Let_def
      split: option.split)

lemma submit_close_frame [simp]:
  "ps_ready (submit_close cf env g r s) = ps_ready s"
  "ps_consumers_active (submit_close cf env g r s) = ps_consumers_active s"
  "ps_stopping (submit_close cf env g r s) = ps_stopping s"
  "ps_generation (submit_close cf env g r s) = ps_generation s"
  by (simp_all add: submit_close_def)

lemma consumers_inv_call [simp]:
  "\<not> consumers_on [e] \<and> (\<forall>m. e \<noteq> OnLost m) \<Longrightarrow> consumers_inv (ps_call e s) = consumers_inv s"
  by (simp add: consumers_inv_notices)

lemma consumers_inv_begin_cycle [simp]: "consumers_inv (begin_attempt_cycle cf s) = consumers_inv s"
  by (simp add: consumers_inv_notices)

lemma consumers_inv_update [simp]:
  "consumers_inv (s\<lparr>ps_paused := b\<rparr>) = consumers_inv s"
  "consumers_inv (s\<lparr>ps_retry_id := i\<rparr>) = consumers_inv s"
  "consumers_inv (s\<lparr>ps_jobs := js\<rparr>) = consumers_inv s"
  "consumers_inv (s\<lparr>ps_history := Expired k # ps_history s\<rparr>) = consumers_inv s"
  by (simp_all add: consumers_inv_notices)

lemma consumers_inv_mark_ready:
  "\<not> ps_stopping s \<Longrightarrow> consumers_inv s \<Longrightarrow> consumers_inv (mark_ready s)"
  by (auto simp: mark_ready_def consumers_inv_notices Let_def)

lemma consumers_inv_open: "consumers_inv s \<Longrightarrow> consumers_inv (ps_open cf env q s)"
  by (simp add: ps_open_def Let_def consumers_inv_mark_ready split: prod.split)
    (auto simp: consumers_inv_notices)

lemma consumers_inv_start: "consumers_inv s \<Longrightarrow> consumers_inv (ps_start cf env q s)"
  by (simp add: ps_start_def consumers_inv_open)

lemma consumers_inv_submit_close [simp]: "consumers_inv (submit_close cf env g r s) = consumers_inv s"
  by (simp add: consumers_inv_notices)

lemma consumers_inv_reconnect: "consumers_inv s \<Longrightarrow> consumers_inv (reconnect cf env reason r s)"
  by (simp add: reconnect_def Let_def) (auto simp: consumers_inv_notices)

lemma consumers_inv_pause: "consumers_inv s \<Longrightarrow> consumers_inv (ps_pause s)"
  by (auto simp: ps_pause_def Let_def consumers_inv_notices)

lemma consumers_inv_stop: "consumers_inv s \<Longrightarrow> consumers_inv (ps_stop s)"
  by (simp add: ps_stop_def consumers_inv_notices)

lemma consumers_inv_opened: "consumers_inv s \<Longrightarrow> consumers_inv (opened cf env g s)"
  by (simp add: opened_def, intro impI consumers_inv_mark_ready) (auto simp: consumers_inv_notices)

lemma consumers_inv_open_failed: "consumers_inv s \<Longrightarrow> consumers_inv (open_failed cf env g e m s)"
  by (simp add: open_failed_def Let_def split: prod.split) (auto simp: consumers_inv_notices)

lemma consumers_inv_closed: "consumers_inv s \<Longrightarrow> consumers_inv (closed cf g s)"
  by (auto simp: closed_def consumers_inv_notices Let_def)

lemma consumers_inv_fire: "consumers_inv s \<Longrightarrow> consumers_inv (ps_fire cf env q f s)"
  by (simp add: ps_fire_def ps_retry_def retry_close_def Let_def consumers_inv_open split: ps_timer.split)

lemma consumers_inv_step: "ps_step cf s t \<Longrightarrow> consumers_inv s \<Longrightarrow> consumers_inv t"
  by (induction rule: ps_step.induct)
    (simp_all add: session_lost_def close_failed_def ps_resume_def consumers_inv_start
      consumers_inv_open consumers_inv_reconnect consumers_inv_pause consumers_inv_stop
      consumers_inv_opened consumers_inv_open_failed consumers_inv_closed consumers_inv_fire)

section \<open>Properties of every run\<close>

lemma owns_init: "owns {} (ProfileSupervisor_init c)" "consumers_inv (ProfileSupervisor_init c)"
  by (simp_all add: ProfileSupervisor_init_def owns_def consumers_inv_def)

lemma owns_start: "fresh_ids (sched cf) \<Longrightarrow> owns X s \<Longrightarrow> owns X (ps_start cf env q s)"
  by (simp add: ps_start_def owns_open)

interpretation profile_run: timer_owner "ps_started cf" "ps_step cf" "ps_inv cf" ps_history "\<lambda>s. [ps_retry_id s]"
proof
  fix s t
  show "ps_started cf s \<Longrightarrow> ps_inv cf s"
    unfolding ps_started_def ps_inv_def
    by (auto intro: jobs_inv_init consumers_inv_start owns_start owns_init)
  show "ps_inv cf s \<Longrightarrow> ps_step cf s t \<Longrightarrow> ps_inv cf t"
    unfolding ps_inv_def using owns_step jobs_inv_step consumers_inv_step by blast
  show "ps_inv cf s \<Longrightarrow> live (ps_history s) = timer_set [ps_retry_id s]"
    by (simp add: ps_inv_def owns_def)
qed

text \<open>A supervisor that has opened its sessions once, lost them, and is closing them.\<close>

definition demo_config :: ps_config where
  "demo_config = \<lparr>has_partial_ready = True, has_attempt_pending = True,
     has_first_attempt_complete = True, sched = (\<lambda>h. Suc (top_id h)), fold_case = (\<lambda>s. s)\<rparr>"

definition demo_env :: ps_env where
  "demo_env = \<lparr>accepts = True, map_session = False, pbap_session = False, attempt_ready = True\<rparr>"

definition demo_opening :: ProfileSupervisor where
  "demo_opening = ps_start demo_config demo_env [] (ProfileSupervisor_init (Connectivity_init None))"

definition demo_lost :: ProfileSupervisor where
  "demo_lost = session_lost demo_config (demo_env\<lparr>accepts := False\<rparr>) (lit ''gone'')
     (opened demo_config demo_env 0 (demo_opening\<lparr>ps_jobs := []\<rparr>))"

lemma demo_opening_reachable: "reachable (ps_started demo_config) (ps_step demo_config) demo_opening"
  by (rule reachable.start) (auto simp: ps_started_def demo_opening_def demo_config_def fresh_ids_top)

lemmas demo_eval = demo_opening_def demo_lost_def demo_config_def demo_env_def ops
  ProfileSupervisor_init_def Connectivity_init_def default_policy_def Let_def

lemma demo_lost_reachable: "reachable (ps_started demo_config) (ps_step demo_config) demo_lost"
proof -
  have "ps_jobs demo_opening = [] @ OpenJob 0 # []" by (simp add: demo_eval)
  from ps_step.open_ok [OF this] show ?thesis
    unfolding demo_lost_def
    by (metis append_Nil demo_opening_reachable reachable.next_state ps_step.api_lost)
qed

text \<open>
  in every reachable state of the profile supervisor the timers that are alive are exactly the
  one it remembers in \<open>_retry_id\<close>: a retry is never scheduled twice, and no timer is leaked by a
  loss, a pause, a stop or a late completion.
\<close>

theorem profile_timers_owned:
  assumes "reachable (ps_started cf) (ps_step cf) s"
  shows "live (ps_history s) = timer_set [ps_retry_id s] \<and> card (live (ps_history s)) \<le> 1"
  using profile_run.reachable_live [OF assms] profile_run.reachable_bound [OF assms] by simp

theorem profile_timers_owned_witness:
  "live (ps_history demo_lost) = {1} \<and> ps_retry_id demo_lost = Some 1"
proof -
  have "ps_retry_id demo_lost = Some 1" by (simp add: demo_eval)
  then show ?thesis using profile_timers_owned [OF demo_lost_reachable] by simp
qed

text \<open>
  C21: in every reachable state of a profile supervisor that is neither stopped nor paused, the next
  move is already under way: the sessions are ready, or a live timer will retry the open, or the one
  outstanding open job of the current generation will complete, or cleanup is in flight as the one
  outstanding close job or as the timer that resubmits it. It is never opening and closing at once.
\<close>

theorem profile_never_stuck:
  assumes "reachable (ps_started cf) (ps_step cf) s" and "\<not> ps_stopping s" and "\<not> ps_paused s"
  shows "\<not> (ps_opening s \<and> ps_closing s) \<and> length (current_jobs s) \<le> 1 \<and>
    (ps_ready s \<or>
     (\<exists>i \<in> live (ps_history s). callback_of i (ps_history s) = Some RetryCb) \<or>
     ps_opening s \<and> current_jobs s = [OpenJob (ps_generation s)] \<or>
     ps_closing s \<and> (\<exists>r. current_jobs s = [CloseJob (ps_generation s) r] \<or>
       (\<exists>i \<in> live (ps_history s). callback_of i (ps_history s) = Some (RetryCloseCb (ps_generation s) r))))"
proof -
  from profile_run.reachable_inv [OF assms(1)] have inv: "jobs_inv s" "owns {} s" by (simp_all add: ps_inv_def)
  have cb: "\<exists>i \<in> live (ps_history s). callback_of i (ps_history s) = Some f" if "retry_callback s = Some f" for f
    using that inv(2) by (auto simp: retry_callback_def owns_def split: option.splits)
  consider "ps_opening s" | "ps_closing s" "\<not> ps_opening s" | "\<not> ps_opening s" "\<not> ps_closing s" by blast
  then show ?thesis
  proof cases
    case 1
    with inv(1) show ?thesis by (simp add: jobs_inv_def)
  next
    case 2
    with inv(1) obtain r where "current_jobs s = [CloseJob (ps_generation s) r] \<or>
        current_jobs s = [] \<and> retry_callback s = Some (RetryCloseCb (ps_generation s) r)"
      by (auto simp: jobs_inv_def)
    with 2 cb show ?thesis by fastforce
  next
    case 3
    with inv(1) assms(2,3) have "current_jobs s = []" "ps_ready s \<or> retry_callback s = Some RetryCb"
      by (auto simp: jobs_inv_def)
    with 3 cb show ?thesis by auto
  qed
qed

theorem profile_never_stuck_witness:
  "ps_opening demo_opening \<and> current_jobs demo_opening = [OpenJob 0]"
proof -
  have f: "\<not> ps_stopping demo_opening" "\<not> ps_paused demo_opening" "\<not> ps_ready demo_opening"
    "\<not> ps_closing demo_opening" "ps_generation demo_opening = 0"
    "\<forall>i. callback_of i (ps_history demo_opening) = None"
    by (simp_all add: demo_eval)
  from profile_never_stuck [OF demo_opening_reachable f(1,2)] f(3-) show ?thesis by auto
qed

text \<open>
  consumers hear of a loss exactly once per activation. In every reachable state each loss notice
  of the history is preceded by an activation (ready or partially ready) with no other loss notice in
  between, and until the supervisor is stopped its \<open>_consumers_active\<close> flag says precisely whether the
  last notice was an activation.
\<close>

theorem profile_loss_once:
  assumes "reachable (ps_started cf) (ps_step cf) s"
  shows "losses_balanced (calls (ps_history s)) \<and>
    (\<not> ps_stopping s \<longrightarrow> ps_consumers_active s = consumers_on (calls (ps_history s))) \<and>
    (ps_ready s \<longrightarrow> ps_consumers_active s)"
  using profile_run.reachable_inv [OF assms] by (simp add: ps_inv_def consumers_inv_def)

theorem profile_loss_once_witness:
  "losses_balanced (calls (ps_history demo_lost)) \<and> \<not> consumers_on (calls (ps_history demo_lost))"
proof -
  have "\<not> ps_stopping demo_lost" "\<not> ps_consumers_active demo_lost" by (simp_all add: demo_eval)
  then show ?thesis using profile_loss_once [OF demo_lost_reachable] by simp
qed

text \<open>
  a job that the worker had accepted before a loss, a pause or a stop cannot disturb the
  supervisor afterwards: whatever its outcome, its completion is ignored.
\<close>

theorem profile_stale_completion:
  assumes "reachable (ps_started cf) (ps_step cf) s" and "j \<in> set (ps_jobs s)"
    and "t = ps_pause s \<or> t = ps_stop s \<or>
         t = reconnect cf env reason r s \<and> \<not> ps_stopping s \<and> \<not> ps_paused s \<and> \<not> ps_closing s"
  shows "opened cf e (job_gen j) t = t \<and> open_failed cf e (job_gen j) b m t = t \<and>
    closed cf (job_gen j) t = t \<and> close_failed cf (job_gen j) t = t"
proof -
  from profile_run.reachable_inv [OF assms(1)] assms(2) have "job_gen j \<le> ps_generation s"
    by (auto simp: ps_inv_def jobs_inv_def)
  moreover have "ps_generation t = ps_generation s + 1"
    using assms(3) by (elim disjE) (simp_all add: ps_pause_def ps_stop_def reconnect_def Let_def)
  ultimately show ?thesis
    by (simp add: opened_def open_failed_def closed_def close_failed_def)
qed

theorem profile_stale_completion_witness:
  "opened demo_config demo_env 0 (ps_pause demo_opening) = ps_pause demo_opening"
proof -
  have "OpenJob 0 \<in> set (ps_jobs demo_opening)" by (simp add: demo_eval)
  from profile_stale_completion [OF demo_opening_reachable this] show ?thesis by simp
qed

text \<open>
  stopping is final. From a stopped supervisor no step starts a timer, submits a job or tells the
  consumers anything: the history stays as it is, but for a status notice of \<open>pause\<close>.
\<close>

theorem profile_stop_final:
  assumes "reachable (ps_started cf) (ps_step cf) s" and "ps_stopping s" and "ps_step cf s t"
  shows "ps_stopping t \<and> live (ps_history t) = {} \<and>
    (ps_history t = ps_history s \<or> t = ps_pause s \<and> ps_history t = Call OnStatus # ps_history s)"
proof -
  from profile_run.reachable_inv [OF assms(1)] have inv: "owns {} s" "jobs_inv s" "consumers_inv s"
    by (simp_all add: ps_inv_def)
  with assms(2) have r: "ps_retry_id s = None" by (auto simp: jobs_inv_def split: if_splits)
  with inv(1) have l: "live (ps_history s) = {}" by (simp add: owns_def)
  have "\<not> ps_consumers_active s" using inv(3) assms(2) by (simp add: consumers_inv_def)
  with assms(3,2) r l have "ps_stopping t \<and> (ps_history t = ps_history s \<or>
      t = ps_pause s \<and> ps_history t = Call OnStatus # ps_history s)"
    by (induction rule: ps_step.induct) (simp_all add: ops Let_def)
  then show ?thesis using l by auto
qed

theorem profile_stop_final_witness:
  "ps_history (ps_start demo_config demo_env [] (ps_stop demo_lost)) = ps_history (ps_stop demo_lost)"
proof -
  have s: "reachable (ps_started demo_config) (ps_step demo_config) (ps_stop demo_lost)"
    by (rule reachable.next_state [OF demo_lost_reachable ps_step.api_stop])
  have st: "ps_stopping (ps_stop demo_lost)" by (simp add: ps_stop_def)
  from profile_stop_final [OF s st ps_step.api_start, of demo_env "[]"] st show ?thesis
    by (auto simp: ps_start_def)
qed

end
