(* ===== verification/Caller_Guard.thy ===== *)
theory Caller_Guard
  imports Prelude
begin

text \<open>
  Caller validation and abuse limits of the session-bus API (\<open>dbus_security.py\<close>): the UID check, the
  cached credentials, and the sliding windows per caller and daemon-wide. Times are real numbers read
  from a clock that does not run backwards (\<open>time.monotonic\<close>); the bus daemon's answer about a
  connection is a parameter of \<open>authorize\<close>. A log of admissions and resets is kept beside the fields
  so that the limits can be stated; no operation reads it.
  The lemmas show that in any window no scope is ever admitted more often than its rules allow, that
  only the expected UID is admitted, and that a refused call uses up no quota.
\<close>

section \<open>Rules\<close>

datatype RateRule = RateRule (attempts: nat) (seconds: nat)

definition RULES :: "(pystr \<times> RateRule list) list" where
  "RULES = [
    (lit ''status'', [RateRule 600 60]),
    (lit ''read'', [RateRule 240 60]),
    (lit ''contact-photo'', [RateRule 120 60, RateRule 1200 3600]),
    (lit ''send'', [RateRule 30 60, RateRule 200 3600]),
    (lit ''contact-sync'', [RateRule 6 600, RateRule 20 3600]),
    (lit ''call-history-sync'', [RateRule 12 600, RateRule 60 3600]),
    (lit ''settings'', [RateRule 30 60]),
    (lit ''notification-click'', [RateRule 30 60, RateRule 300 3600]),
    (lit ''conversation-delete'', [RateRule 60 60, RateRule 500 3600]),
    (lit ''destructive'', [RateRule 6 600]),
    (lit ''unlock'', [RateRule 6 600]),
    (lit ''media-read'', [RateRule 600 60]),
    (lit ''media-command'', [RateRule 60 60, RateRule 1200 3600]),
    (lit ''calls-dial'', [RateRule 6 60, RateRule 60 3600]),
    (lit ''calls-answer'', [RateRule 10 60, RateRule 120 3600]),
    (lit ''calls-control'', [RateRule 60 60, RateRule 600 3600]),
    (lit ''calls-hangup'', [RateRule 60 60, RateRule 600 3600]),
    (lit ''tether'', [RateRule 10 60, RateRule 60 3600]),
    (lit ''audio-route'', [RateRule 20 60, RateRule 120 3600]),
    (lit ''notifications-read'', [RateRule 240 60]),
    (lit ''notifications-pin'', [RateRule 30 60, RateRule 300 3600]),
    (lit ''feature'', [RateRule 20 60, RateRule 120 3600]),
    (lit ''reconnect'', [RateRule 6 60, RateRule 60 3600])]"

definition GLOBAL_RULES :: "(pystr \<times> RateRule list) list" where
  "GLOBAL_RULES = [
    (lit ''contact-photo'', [RateRule 600 60, RateRule 6000 3600])]"

section \<open>The guard\<close>

datatype guard_error = AuthorizationError | RateLimitError | UnknownAction

datatype guard_event = Admitted pystr pystr real | Forgot pystr | Closed

text \<open>
  \<open>cg_attempts\<close> is a \<open>defaultdict\<close>: a key that is absent stands for the empty queue. Of the
  credentials only what \<open>int(credentials["UnixUserID"])\<close> gives is kept, \<open>None\<close> when it raises.
\<close>

record CallerGuard =
  cg_expected_uid :: int
  cg_credentials :: "(pystr \<times> int option) list"
  cg_attempts :: "pystr \<times> pystr \<times> nat \<Rightarrow> real list"
  cg_owner_match :: bool
  cg_log :: "guard_event list"
  cg_now :: real

definition CallerGuard_init :: "int \<Rightarrow> bool \<Rightarrow> CallerGuard" where
  "CallerGuard_init expected_uid has_bus =
     \<lparr>cg_expected_uid = expected_uid, cg_credentials = [], cg_attempts = (\<lambda>_. []),
      cg_owner_match = has_bus, cg_log = [], cg_now = 0\<rparr>"

definition forget :: "pystr \<Rightarrow> CallerGuard \<Rightarrow> CallerGuard" where
  [ops]: "forget sender g =
     g\<lparr>cg_credentials := al_pop sender (cg_credentials g),
       cg_attempts := (\<lambda>k. if fst k = sender then [] else cg_attempts g k),
       cg_log := Forgot sender # cg_log g\<rparr>"

definition name_owner_changed :: "pystr \<Rightarrow> pystr \<Rightarrow> pystr \<Rightarrow> CallerGuard \<Rightarrow> CallerGuard" where
  [ops]: "name_owner_changed nm old_owner new_owner g =
     (if py_startswith nm (lit '':'') \<and> old_owner \<noteq> [] \<and> new_owner = [] then forget nm g else g)"

definition guard_close :: "CallerGuard \<Rightarrow> CallerGuard" where
  [ops]: "guard_close g =
     g\<lparr>cg_owner_match := False, cg_credentials := [], cg_attempts := (\<lambda>_. []), cg_log := Closed # cg_log g\<rparr>"

definition prune :: "real \<Rightarrow> nat \<Rightarrow> real list \<Rightarrow> real list" where
  "prune now secs ts = dropWhile (\<lambda>t. t \<le> now - real secs) ts"

definition scoped :: "pystr \<Rightarrow> pystr \<Rightarrow> RateRule list \<Rightarrow> (pystr \<times> RateRule) list" where
  "scoped sender action rules =
     map (Pair sender) rules @
     map (Pair (lit ''*'')) (case map_of GLOBAL_RULES action of Some g \<Rightarrow> g | None \<Rightarrow> rules)"

fun check_windows ::
  "real \<Rightarrow> pystr \<Rightarrow> (pystr \<times> RateRule) list \<Rightarrow> CallerGuard \<Rightarrow> CallerGuard \<times> (guard_error + unit)" where
  "check_windows now action [] g = (g, Inr ())"
| "check_windows now action ((scope, rule) # rest) g =
     (let key = (scope, action, seconds rule);
          kept = prune now (seconds rule) (cg_attempts g key);
          g' = g\<lparr>cg_attempts := (cg_attempts g)(key := kept)\<rparr>
      in if attempts rule \<le> length kept then (g', Inl RateLimitError)
         else check_windows now action rest g')"

fun record_attempts :: "real \<Rightarrow> pystr \<Rightarrow> (pystr \<times> RateRule) list \<Rightarrow> CallerGuard \<Rightarrow> CallerGuard" where
  "record_attempts now action [] g = g"
| "record_attempts now action ((scope, rule) # rest) g =
     (let key = (scope, action, seconds rule)
      in record_attempts now action rest
           (g\<lparr>cg_attempts := (cg_attempts g)(key := cg_attempts g key @ [now])\<rparr>))"

definition check_rates :: "real \<Rightarrow> pystr \<Rightarrow> pystr \<Rightarrow> CallerGuard \<Rightarrow> CallerGuard \<times> (guard_error + unit)" where
  "check_rates now sender action g =
     (case map_of RULES action of
        None \<Rightarrow> (g, Inl UnknownAction)
      | Some rules \<Rightarrow>
          let g1 = g\<lparr>cg_now := now\<rparr>;
              (g2, r) = check_windows now action (scoped sender action rules) g1
          in case r of
               Inl e \<Rightarrow> (g2, Inl e)
             | Inr _ \<Rightarrow>
                 ((record_attempts now action (scoped sender action rules) g2)
                    \<lparr>cg_log := Admitted sender action now # cg_log g2\<rparr>, Inr ()))"

text \<open>\<open>answer\<close>: what the credential provider does for this sender; \<open>None\<close> when it raises.\<close>

definition credentials_for :: "int option option \<Rightarrow> pystr \<Rightarrow> CallerGuard \<Rightarrow> (CallerGuard \<times> int option) option" where
  "credentials_for answer identity g =
     (case map_of (cg_credentials g) identity of
        Some c \<Rightarrow> Some (g, c)
      | None \<Rightarrow> (case answer of None \<Rightarrow> None
                 | Some c \<Rightarrow> Some (g\<lparr>cg_credentials := al_set identity c (cg_credentials g)\<rparr>, c)))"

definition authorize ::
  "int option option \<Rightarrow> real \<Rightarrow> pystr option \<Rightarrow> pystr \<Rightarrow> CallerGuard \<Rightarrow> CallerGuard \<times> (guard_error + unit)" where
  "authorize answer now sender action g =
     (let identity = (case sender of None \<Rightarrow> [] | Some s \<Rightarrow> s)
      in if \<not> py_startswith identity (lit '':'') then (g, Inl AuthorizationError)
         else case credentials_for answer identity g of
           None \<Rightarrow> (g, Inl AuthorizationError)
         | Some (g', None) \<Rightarrow> (g', Inl AuthorizationError)
         | Some (g', Some uid) \<Rightarrow>
             if uid \<noteq> cg_expected_uid g' then (g', Inl AuthorizationError)
             else check_rates now identity action g')"

section \<open>Runs\<close>

inductive guard_step :: "CallerGuard \<Rightarrow> CallerGuard \<Rightarrow> bool" where
  call: "cg_now g \<le> now \<Longrightarrow> guard_step g (fst (authorize answer now sender action g))"
| owner_changed: "guard_step g (name_owner_changed nm old_owner new_owner g)"
| close: "guard_step g (guard_close g)"

definition guard_started :: "CallerGuard \<Rightarrow> bool" where
  "guard_started g \<longleftrightarrow> (\<exists>uid has_bus now. g = (CallerGuard_init uid has_bus)\<lparr>cg_now := now\<rparr>)"

text \<open>
  The times at which a scope (one connection, or \<open>*\<close> for the daemon) was admitted to an action since
  its windows were last reset, oldest first.
\<close>

fun admitted :: "pystr \<Rightarrow> pystr \<Rightarrow> guard_event list \<Rightarrow> real list" where
  "admitted scope action [] = []"
| "admitted scope action (Admitted s a t # l) =
     admitted scope action l @ (if a = action \<and> (scope = s \<or> scope = lit ''*'') then [t] else [])"
| "admitted scope action (Forgot s # l) = (if s = scope then [] else admitted scope action l)"
| "admitted scope action (Closed # l) = []"

text \<open>The rules a scope is held to.\<close>

definition scope_rules :: "pystr \<Rightarrow> pystr \<Rightarrow> RateRule list" where
  "scope_rules scope action =
     (case map_of RULES action of None \<Rightarrow> []
      | Some rules \<Rightarrow> if scope = lit ''*'' then (case map_of GLOBAL_RULES action of Some g \<Rightarrow> g | None \<Rightarrow> rules)
                      else rules)"

section \<open>What the loops do\<close>

lemma window_ok_prune: "window_ok n (real w) now ts q \<Longrightarrow> window_ok n (real w) now ts (prune now w q)"
  by (simp add: prune_def window_ok_drop)

lemma prune_prune [simp]: "prune now w (prune now w q) = prune now w q"
  by (simp add: prune_def)

lemma check_windows_frame:
  "check_windows now action sc g = (g', r) \<Longrightarrow>
     cg_log g' = cg_log g \<and> cg_now g' = cg_now g \<and> cg_credentials g' = cg_credentials g \<and>
     cg_expected_uid g' = cg_expected_uid g \<and>
     (\<forall>k. cg_attempts g' k = cg_attempts g k \<or> cg_attempts g' k = prune now (snd (snd k)) (cg_attempts g k))"
proof (induction now action sc g arbitrary: g' r rule: check_windows.induct)
  case (2 now action sc ru rest g)
  let ?k = "(sc, action, seconds ru)"
  let ?g = "g\<lparr>cg_attempts := (cg_attempts g)(?k := prune now (seconds ru) (cg_attempts g ?k))\<rparr>"
  from 2(2) consider "g' = ?g" | "check_windows now action rest ?g = (g', r)"
    "\<not> attempts ru \<le> length (prune now (seconds ru) (cg_attempts g ?k))"
    by (auto simp: Let_def split: if_splits)
  then show ?case
  proof cases
    case 1
    then show ?thesis by simp
  next
    case 2
    note IH = "2.IH" [OF refl refl refl 2(2,1)]
    have "cg_attempts g' k = cg_attempts g k \<or> cg_attempts g' k = prune now (snd (snd k)) (cg_attempts g k)" for k
      using IH [THEN conjunct2, THEN conjunct2, THEN conjunct2, THEN conjunct2, rule_format, of k]
      by (cases "k = ?k") simp_all
    with IH show ?thesis by simp
  qed
qed simp

lemma check_windows_below:
  "check_windows now action sc g = (g', Inr u) \<Longrightarrow> (scope, rule) \<in> set sc \<Longrightarrow>
     cg_attempts g' (scope, action, seconds rule) = prune now (seconds rule) (cg_attempts g (scope, action, seconds rule)) \<and>
     length (prune now (seconds rule) (cg_attempts g (scope, action, seconds rule))) < attempts rule"
proof (induction now action sc g arbitrary: g' rule: check_windows.induct)
  case (2 now action sc ru rest g)
  let ?k = "(sc, action, seconds ru)"
  let ?g = "g\<lparr>cg_attempts := (cg_attempts g)(?k := prune now (seconds ru) (cg_attempts g ?k))\<rparr>"
  from 2(2) have l: "length (prune now (seconds ru) (cg_attempts g ?k)) < attempts ru"
    and r: "check_windows now action rest ?g = (g', Inr u)"
    by (simp_all add: Let_def split: if_splits)
  note IH = 2(1) [OF refl refl refl _ r]
  show ?case
  proof (cases "(scope, rule) \<in> set rest")
    case True
    with IH l show ?thesis by (auto split: if_splits)
  next
    case False
    with 2(3) have "scope = sc" "rule = ru" by auto
    moreover have "cg_attempts g' ?k = cg_attempts ?g ?k \<or> cg_attempts g' ?k = prune now (seconds ru) (cg_attempts ?g ?k)"
      using check_windows_frame [OF r] by (metis snd_conv)
    ultimately show ?thesis using l by simp
  qed
qed simp

lemma record_attempts_frame [simp]:
  "cg_log (record_attempts now action sc g) = cg_log g"
  "cg_now (record_attempts now action sc g) = cg_now g"
  "cg_expected_uid (record_attempts now action sc g) = cg_expected_uid g"
  "cg_credentials (record_attempts now action sc g) = cg_credentials g"
  by (induction now action sc g rule: record_attempts.induct) (simp_all add: Let_def)

definition window_keys :: "pystr \<Rightarrow> (pystr \<times> RateRule) list \<Rightarrow> (pystr \<times> pystr \<times> nat) list" where
  "window_keys action sc = map (\<lambda>(s, r). (s, action, seconds r)) sc"

lemma record_attempts_eq:
  "distinct (window_keys action sc) \<Longrightarrow>
     cg_attempts (record_attempts now action sc g) k =
       cg_attempts g k @ (if k \<in> set (window_keys action sc) then [now] else [])"
  by (induction now action sc g rule: record_attempts.induct) (auto simp: Let_def window_keys_def)

section \<open>The windows hold in every run\<close>

definition guard_inv :: "CallerGuard \<Rightarrow> bool" where
  "guard_inv g \<longleftrightarrow> (\<forall>scope action. \<forall>rule \<in> set (scope_rules scope action).
     window_ok (attempts rule) (real (seconds rule)) (cg_now g) (admitted scope action (cg_log g))
       (cg_attempts g (scope, action, seconds rule)))"

lemma rule_tables:
  "\<forall>(a, rs) \<in> set RULES. distinct (map seconds rs)" "\<forall>(a, rs) \<in> set GLOBAL_RULES. distinct (map seconds rs)"
  by (simp_all add: RULES_def GLOBAL_RULES_def)

lemma rules_seconds_distinct:
  "map_of RULES action = Some rules \<Longrightarrow> distinct (map seconds rules)"
  "map_of GLOBAL_RULES action = Some rules \<Longrightarrow> distinct (map seconds rules)"
  using rule_tables by (auto dest!: map_of_SomeD)

lemma set_scoped:
  "map_of RULES action = Some rules \<Longrightarrow> sender \<noteq> lit ''*'' \<Longrightarrow>
     (scope, rule) \<in> set (scoped sender action rules) \<longleftrightarrow>
       (scope = sender \<or> scope = lit ''*'') \<and> rule \<in> set (scope_rules scope action)"
  by (auto simp: scoped_def scope_rules_def split: option.split)

lemma distinct_window_keys:
  assumes "map_of RULES action = Some rules" "sender \<noteq> lit ''*''"
  shows "distinct (window_keys action (scoped sender action rules))"
proof -
  have *: "distinct (map seconds rs) \<Longrightarrow> distinct (map ((\<lambda>(s, r). (s, action, seconds r)) \<circ> Pair t) rs)" for rs t
    by (induction rs) auto
  show ?thesis
    using assms * [OF rules_seconds_distinct(1)] * [OF rules_seconds_distinct(2)]
    by (auto simp: window_keys_def scoped_def split: option.split)
qed

lemma check_rates_logs:
  assumes "check_rates now sender action g = (g', Inr u)"
  shows "cg_log g' = Admitted sender action now # cg_log g \<and> cg_now g' = now \<and>
    (\<exists>rules. map_of RULES action = Some rules)"
  using assms check_windows_frame
  by (fastforce simp: check_rates_def Let_def split: option.splits prod.splits sum.splits)

text \<open>What an admitted call does to a window.\<close>

lemma check_rates_admits:
  assumes "check_rates now sender action g = (g', Inr u)" and "sender \<noteq> lit ''*''"
    and "rule \<in> set (scope_rules scope act)"
  shows "act = action \<and> (scope = sender \<or> scope = lit ''*'') \<Longrightarrow>
      length (prune now (seconds rule) (cg_attempts g (scope, act, seconds rule))) < attempts rule \<and>
      cg_attempts g' (scope, act, seconds rule) =
        prune now (seconds rule) (cg_attempts g (scope, act, seconds rule)) @ [now]"
    and "\<not> (act = action \<and> (scope = sender \<or> scope = lit ''*'')) \<Longrightarrow>
      cg_attempts g' (scope, act, seconds rule) \<in>
        {cg_attempts g (scope, act, seconds rule), prune now (seconds rule) (cg_attempts g (scope, act, seconds rule))}"
proof -
  from assms(1) obtain rules g2 where r: "map_of RULES action = Some rules"
    and c: "check_windows now action (scoped sender action rules) (g\<lparr>cg_now := now\<rparr>) = (g2, Inr ())"
    and g': "g' = (record_attempts now action (scoped sender action rules) g2)\<lparr>cg_log := Admitted sender action now # cg_log g2\<rparr>"
    by (auto simp: check_rates_def Let_def split: option.splits prod.splits sum.splits)
  note fr = check_windows_frame [OF c] and rec = record_attempts_eq [OF distinct_window_keys [OF r assms(2)], of now g2]
  {
    assume a: "act = action \<and> (scope = sender \<or> scope = lit ''*'')"
    then have i: "(scope, rule) \<in> set (scoped sender action rules)"
      using assms(3) by (simp add: set_scoped [OF r assms(2)])
    then have "(scope, act, seconds rule) \<in> set (window_keys action (scoped sender action rules))"
      using a by (force simp: window_keys_def)
    with check_windows_below [OF c i] rec [of "(scope, act, seconds rule)"] a g'
    show "length (prune now (seconds rule) (cg_attempts g (scope, act, seconds rule))) < attempts rule \<and>
      cg_attempts g' (scope, act, seconds rule) =
        prune now (seconds rule) (cg_attempts g (scope, act, seconds rule)) @ [now]" by simp
  }
  assume "\<not> (act = action \<and> (scope = sender \<or> scope = lit ''*''))"
  then have "(scope, act, seconds rule) \<notin> set (window_keys action (scoped sender action rules))"
    by (auto simp: window_keys_def scoped_def)
  with rec [of "(scope, act, seconds rule)"] fr g'
  show "cg_attempts g' (scope, act, seconds rule) \<in>
        {cg_attempts g (scope, act, seconds rule), prune now (seconds rule) (cg_attempts g (scope, act, seconds rule))}"
    by simp
qed

lemma check_rates_refuses:
  assumes "check_rates now sender action g = (g', Inl e)"
  shows "cg_log g' = cg_log g \<and> cg_now g' \<in> {cg_now g, now} \<and> cg_credentials g' = cg_credentials g \<and>
    (cg_attempts g' k = cg_attempts g k \<or> cg_now g' = now \<and> cg_attempts g' k = prune now (snd (snd k)) (cg_attempts g k))"
proof (cases "map_of RULES action")
  case None
  with assms show ?thesis by (simp add: check_rates_def)
next
  case (Some rules)
  with assms have "check_windows now action (scoped sender action rules) (g\<lparr>cg_now := now\<rparr>) = (g', Inl e)"
    by (auto simp: check_rates_def Let_def split: prod.splits sum.splits)
  from check_windows_frame [OF this] show ?thesis by (cases k) simp
qed

lemma guard_inv_check_rates:
  assumes "guard_inv g" "cg_now g \<le> now" "sender \<noteq> lit ''*''"
  shows "guard_inv (fst (check_rates now sender action g))"
proof (cases "check_rates now sender action g")
  case (Pair g' r)
  have "window_ok (attempts rule) (real (seconds rule)) (cg_now g') (admitted scope act (cg_log g'))
      (cg_attempts g' (scope, act, seconds rule))" if i: "rule \<in> set (scope_rules scope act)" for scope act rule
  proof -
    let ?k = "(scope, act, seconds rule)"
    from assms(1) i have w0: "window_ok (attempts rule) (real (seconds rule)) (cg_now g)
        (admitted scope act (cg_log g)) (cg_attempts g ?k)" by (auto simp: guard_inv_def)
    note w1 = window_ok_later [OF this assms(2)]
    note w2 = window_ok_prune [OF w1]
    show ?thesis
    proof (cases r)
      case (Inl e)
      with check_rates_refuses [of now sender action g g' e ?k] Pair w0 w1 w2 show ?thesis by auto
    next
      case (Inr u)
      note ad = check_rates_admits [OF Pair [unfolded Inr] assms(3) i]
        and lg = check_rates_logs [OF Pair [unfolded Inr]]
      show ?thesis
      proof (cases "act = action \<and> (scope = sender \<or> scope = lit ''*'')")
        case True
        then show ?thesis using lg ad(1) [OF True] window_ok_admit [OF w2] by auto
      next
        case False
        then show ?thesis using lg ad(2) [OF False] w1 w2 by auto
      qed
    qed
  qed
  with Pair show ?thesis by (simp add: guard_inv_def)
qed

lemma guard_inv_frame [simp]:
  "guard_inv (g\<lparr>cg_credentials := c\<rparr>) = guard_inv g" "guard_inv (g\<lparr>cg_owner_match := b\<rparr>) = guard_inv g"
  by (simp_all add: guard_inv_def)

lemma startswith_colon: "py_startswith s (lit '':'') \<Longrightarrow> s \<noteq> lit ''*''"
  by (auto simp: lit_def)

lemma guard_inv_authorize:
  "guard_inv g \<Longrightarrow> cg_now g \<le> now \<Longrightarrow> guard_inv (fst (authorize answer now sender action g))"
  using startswith_colon
  by (simp add: authorize_def credentials_for_def Let_def guard_inv_check_rates split: option.split)

lemma guard_inv_forget: "guard_inv g \<Longrightarrow> guard_inv (forget sender g)"
  by (auto simp: guard_inv_def forget_def)

lemma guard_inv_step: "guard_step g h \<Longrightarrow> guard_inv g \<Longrightarrow> guard_inv h"
proof (induction rule: guard_step.induct)
  case (close g)
  then show ?case by (simp add: guard_inv_def guard_close_def)
qed (simp_all add: name_owner_changed_def guard_inv_authorize guard_inv_forget)

interpretation guard_run: invariant_system guard_started guard_step guard_inv
proof
  fix g h
  show "guard_started g \<Longrightarrow> guard_inv g"
    by (auto simp: guard_started_def guard_inv_def CallerGuard_init_def)
  show "guard_inv g \<Longrightarrow> guard_step g h \<Longrightarrow> guard_inv h"
    by (rule guard_inv_step)
qed

text \<open>
  C23: the quotas of the D-Bus API hold in every run. Whatever callers do, in any interval of a rule's
  length the daemon as a whole (scope \<open>*\<close>), and each connection, is admitted to an action at most as
  often as the rule allows; for the daemon-wide scope reconnecting does not reset the count.
\<close>

theorem rate_windows_hold:
  assumes "reachable guard_started guard_step g" and "rule \<in> set (scope_rules scope action)"
  shows "length (filter (\<lambda>t. a < t \<and> t \<le> a + real (seconds rule)) (admitted scope action (cg_log g)))
    \<le> attempts rule"
proof -
  from guard_run.reachable_inv [OF assms(1)] assms(2)
  have "window_ok (attempts rule) (real (seconds rule)) (cg_now g) (admitted scope action (cg_log g))
    (cg_attempts g (scope, action, seconds rule))" by (auto simp: guard_inv_def)
  then show ?thesis by (intro spaced_count) (auto simp: window_ok_def)
qed

text \<open>A guard after a caller's sixth and seventh attempt to dial at time 0.\<close>

definition dial :: "CallerGuard \<Rightarrow> CallerGuard \<times> (guard_error + unit)" where
  "dial = authorize (Some (Some 1000)) 0 (Some (lit '':1.5'')) (lit ''calls-dial'')"

definition dialled :: "nat \<Rightarrow> CallerGuard" where
  "dialled n = ((fst \<circ> dial) ^^ n) (CallerGuard_init 1000 True)"

lemma dialled_reachable: "reachable guard_started guard_step (dialled n) \<and> cg_now (dialled n) = 0"
proof (induction n)
  case 0
  have "guard_started ((CallerGuard_init 1000 True)\<lparr>cg_now := 0\<rparr>)" unfolding guard_started_def by blast
  then show ?case by (auto simp: dialled_def CallerGuard_init_def intro: reachable.start)
next
  case (Suc n)
  have d: "dialled (Suc n) = fst (dial (dialled n))" by (simp add: dialled_def)
  have "cg_now (fst (check_rates 0 sender action g)) = 0" if "cg_now g = 0" for sender action g
    using that by (simp add: check_rates_def Let_def split: option.split prod.split sum.split)
      (use check_windows_frame in fastforce)
  then have "cg_now (dialled (Suc n)) = 0"
    using Suc d by (simp add: dial_def authorize_def credentials_for_def Let_def split: option.split)
  moreover have "guard_step (dialled n) (dialled (Suc n))"
    unfolding d dial_def using Suc by (intro guard_step.call) simp
  ultimately show ?case using Suc by (auto intro: reachable.next_state)
qed

lemmas guard_eval = dialled_def dial_def CallerGuard_init_def authorize_def credentials_for_def
  check_rates_def Let_def RULES_def GLOBAL_RULES_def scoped_def prune_def lit_def scope_rules_def

theorem rate_windows_hold_witness:
  "length (filter (\<lambda>t. -1 < t \<and> t \<le> 59) (admitted (lit ''*'') (lit ''calls-dial'') (cg_log (dialled 7)))) \<le> 6"
proof -
  have "RateRule 6 60 \<in> set (scope_rules (lit ''*'') (lit ''calls-dial''))" by (simp add: guard_eval)
  from rate_windows_hold [OF dialled_reachable [THEN conjunct1, of 7] this, of "-1"] show ?thesis by simp
qed

text \<open>
  C27: a call is admitted only for a connection with a unique name whose verified Unix UID is the
  daemon owner's, to an action that has rules; a call that is not admitted leaves the admission log as
  it is and takes from the windows only what has expired, so it uses up no quota.
\<close>

theorem authorize_sound:
  assumes "authorize answer now sender action g = (g', r)"
  shows "case r of
      Inr _ \<Rightarrow> (\<exists>s rules. sender = Some s \<and> py_startswith s (lit '':'') \<and> map_of RULES action = Some rules \<and>
        cg_log g' = Admitted s action now # cg_log g \<and>
        (map_of (cg_credentials g) s = Some (Some (cg_expected_uid g)) \<or>
         map_of (cg_credentials g) s = None \<and> answer = Some (Some (cg_expected_uid g))))
    | Inl _ \<Rightarrow> cg_log g' = cg_log g \<and> (\<forall>k. cg_attempts g' k = cg_attempts g k \<or>
        cg_attempts g' k = prune now (snd (snd k)) (cg_attempts g k))"
proof (cases "\<exists>s g1. sender = Some s \<and> py_startswith s (lit '':'') \<and>
    credentials_for answer s g = Some (g1, Some (cg_expected_uid g)) ")
  case True
  then obtain s g1 where s: "sender = Some s" "py_startswith s (lit '':'')"
    and c: "credentials_for answer s g = Some (g1, Some (cg_expected_uid g))" by blast
  from c have g1: "cg_log g1 = cg_log g" "cg_attempts g1 = cg_attempts g" "cg_expected_uid g1 = cg_expected_uid g"
    "map_of (cg_credentials g) s = Some (Some (cg_expected_uid g)) \<or>
     map_of (cg_credentials g) s = None \<and> answer = Some (Some (cg_expected_uid g))"
    by (auto simp: credentials_for_def split: option.splits)
  from assms s c g1 have r: "check_rates now s action g1 = (g', r)" by (simp add: authorize_def)
  show ?thesis
  proof (cases r)
    case (Inl e)
    with check_rates_refuses r g1 show ?thesis by fastforce
  next
    case (Inr u)
    with check_rates_logs [OF r [unfolded Inr]] s g1 show ?thesis by auto
  qed
next
  case False
  have fr: "cg_log g1 = cg_log g \<and> cg_attempts g1 = cg_attempts g \<and> cg_expected_uid g1 = cg_expected_uid g"
    if "credentials_for answer s g = Some (g1, c)" for s g1 c
    using that by (auto simp: credentials_for_def split: option.splits)
  have nil: "\<not> py_startswith [] (lit '':'')" by (simp add: lit_def)
  from assms False fr nil
  have "(\<exists>e. r = Inl e) \<and> cg_log g' = cg_log g \<and> cg_attempts g' = cg_attempts g"
    by (fastforce simp: authorize_def Let_def split: option.splits if_splits prod.splits)
  then show ?thesis by auto
qed

theorem authorize_sound_witness:
  "snd (dial (CallerGuard_init 1000 True)) = Inr () \<and>
   cg_log (fst (dial (CallerGuard_init 1000 True))) = [Admitted (lit '':1.5'') (lit ''calls-dial'') 0]"
proof -
  have *: "snd (dial (CallerGuard_init 1000 True)) = Inr ()" by (simp add: guard_eval)
  then have "authorize (Some (Some 1000)) 0 (Some (lit '':1.5'')) (lit ''calls-dial'') (CallerGuard_init 1000 True)
      = (fst (dial (CallerGuard_init 1000 True)), Inr ())"
    unfolding dial_def by (metis prod.collapse)
  from authorize_sound [OF this] * show ?thesis by (simp add: CallerGuard_init_def)
qed

end
