(* ===== verification/Bluez_Health.thy ===== *)
theory Bluez_Health
  imports Prelude
begin

text \<open>
  The watch over bluetoothd's responsiveness (\<open>bluez_health.py\<close>): pings, evidence reported by other
  components, the unresponsive verdict and its explanation, and the log filter for failed
  introspections. Outstanding pings and PID queries are kept as the generations their callbacks
  captured; \<open>bh_obs\<close> is a record of the evidence that no operation reads.
  The lemmas show that the verdict is exactly "two consecutive unanswered pings since BlueZ last
  answered or changed owner", that one timer at most is alive, and that the filter passes one record
  per window.
\<close>

section \<open>State\<close>

definition NO_REPLY_ERRORS :: "pystr list" where
  "NO_REPLY_ERRORS = [lit ''org.freedesktop.DBus.Error.NoReply'',
     lit ''org.freedesktop.DBus.Error.Timeout'', lit ''org.freedesktop.DBus.Error.TimedOut'']"
definition NOT_RUNNING_ERRORS :: "pystr list" where
  "NOT_RUNNING_ERRORS = [lit ''org.freedesktop.DBus.Error.ServiceUnknown'',
     lit ''org.freedesktop.DBus.Error.NameHasNoOwner'']"
definition PING_FAILURE_THRESHOLD :: nat where [consts_defs]: "PING_FAILURE_THRESHOLD = 2"
definition PING_INTERVAL_SEC :: int where [consts_defs]: "PING_INTERVAL_SEC = 30"
definition PING_INTERVAL_UNRESPONSIVE_SEC :: int where [consts_defs]: "PING_INTERVAL_UNRESPONSIVE_SEC = 15"

definition is_no_reply :: "pystr \<Rightarrow> bool" where
  "is_no_reply error_name \<longleftrightarrow> error_name \<in> set NO_REPLY_ERRORS"

definition process_state :: "pystr list option \<Rightarrow> pystr" where
  "process_state status_lines =
     (case status_lines of None \<Rightarrow> []
      | Some lines \<Rightarrow>
          (case filter (\<lambda>l. py_startswith l (lit ''State:'')) lines of
             [] \<Rightarrow> []
           | l # _ \<Rightarrow> take 1 (py_strip (drop (length (lit ''State:'')) l))))"

datatype health_evidence = NoReplyPing | NotRunning | Alive | OwnerChange

datatype health_call = OnChange | SendPing nat | AskPid nat

record BluezHealth =
  bh_failures :: nat
  bh_unresponsive :: bool
  bh_reason :: pystr
  bh_pinging :: bool
  bh_timer :: "nat option"
  bh_generation :: nat
  bh_pings :: "nat list"
  bh_pid_queries :: "nat list"
  bh_history :: "(unit, health_call) eff list"
  bh_obs :: "health_evidence list"

record bh_config =
  has_owner_pid :: bool
  has_on_change :: bool
  bh_sched :: "(unit, health_call) eff list \<Rightarrow> nat"

definition BluezHealth_init :: BluezHealth where
  "BluezHealth_init = \<lparr>bh_failures = 0, bh_unresponsive = False, bh_reason = [], bh_pinging = False,
     bh_timer = None, bh_generation = 0, bh_pings = [], bh_pid_queries = [], bh_history = [], bh_obs = []\<rparr>"

section \<open>Operations\<close>

definition health_snapshot :: "BluezHealth \<Rightarrow> bool \<times> pystr" where
  "health_snapshot s = (bh_unresponsive s, if bh_unresponsive s then bh_reason s else [])"

definition bh_arm :: "bh_config \<Rightarrow> int \<Rightarrow> BluezHealth \<Rightarrow> BluezHealth" where
  "bh_arm cf interval s = s\<lparr>bh_timer := Some (bh_sched cf (bh_history s)),
     bh_history := Schedule (bh_sched cf (bh_history s)) interval () # bh_history s\<rparr>"

definition bh_cancel :: "BluezHealth \<Rightarrow> BluezHealth" where
  "bh_cancel s = (case bh_timer s of None \<Rightarrow> s
     | Some i \<Rightarrow> s\<lparr>bh_history := Cancel i # bh_history s, bh_timer := None\<rparr>)"

definition bh_start :: "bh_config \<Rightarrow> BluezHealth \<Rightarrow> BluezHealth" where
  "bh_start cf s = (if bh_timer s = None then bh_arm cf PING_INTERVAL_SEC s else s)"

definition bh_stop :: "BluezHealth \<Rightarrow> BluezHealth" where
  "bh_stop s = bh_cancel (s\<lparr>bh_generation := bh_generation s + 1, bh_pinging := False\<rparr>)"

definition bh_notify :: "bh_config \<Rightarrow> BluezHealth \<Rightarrow> BluezHealth" where
  "bh_notify cf s = (if has_on_change cf then s\<lparr>bh_history := Call OnChange # bh_history s\<rparr> else s)"

definition reschedule :: "bh_config \<Rightarrow> int \<Rightarrow> BluezHealth \<Rightarrow> BluezHealth" where
  "reschedule cf interval s = (if bh_timer s = None then s else bh_arm cf interval (bh_cancel s))"

definition recovered :: "bh_config \<Rightarrow> BluezHealth \<Rightarrow> BluezHealth" where
  "recovered cf s = bh_notify cf (reschedule cf PING_INTERVAL_SEC (s\<lparr>bh_unresponsive := False, bh_reason := []\<rparr>))"

text \<open>\<open>sent\<close>: the asynchronous call could be sent (no exception).\<close>

definition explain :: "bh_config \<Rightarrow> bool \<Rightarrow> BluezHealth \<Rightarrow> BluezHealth" where
  "explain cf sent s =
     (if \<not> has_owner_pid cf then s
      else let s' = s\<lparr>bh_history := Call (AskPid (bh_generation s)) # bh_history s\<rparr>
        in if sent then s'\<lparr>bh_pid_queries := bh_generation s # bh_pid_queries s\<rparr> else s')"

definition got_pid :: "bh_config \<Rightarrow> (nat \<Rightarrow> pystr) \<Rightarrow> nat \<Rightarrow> nat option \<Rightarrow> BluezHealth \<Rightarrow> BluezHealth" where
  "got_pid cf read_state generation pid s =
     (if generation \<noteq> bh_generation s \<or> \<not> bh_unresponsive s \<or> pid = None \<or> pid = Some 0 then s
      else if read_state (the pid) = lit ''D'' then bh_notify cf (s\<lparr>bh_reason := lit ''kernel''\<rparr>)
      else s)"

definition ping_failed :: "bh_config \<Rightarrow> bool \<Rightarrow> BluezHealth \<Rightarrow> BluezHealth" where
  "ping_failed cf sent s =
     (let s1 = s\<lparr>bh_failures := bh_failures s + 1, bh_obs := NoReplyPing # bh_obs s\<rparr>
      in if bh_unresponsive s1 then s1
         else if bh_failures s1 < PING_FAILURE_THRESHOLD
         then reschedule cf PING_INTERVAL_UNRESPONSIVE_SEC s1
         else bh_notify cf (explain cf sent
                (reschedule cf PING_INTERVAL_UNRESPONSIVE_SEC (s1\<lparr>bh_unresponsive := True, bh_reason := []\<rparr>))))"

definition report_success :: "bh_config \<Rightarrow> BluezHealth \<Rightarrow> BluezHealth" where
  "report_success cf s0 =
     (let s = s0\<lparr>bh_obs := Alive # bh_obs s0\<rparr>
      in if bh_unresponsive s then recovered cf (s\<lparr>bh_failures := 0\<rparr>)
         else if bh_failures s \<noteq> 0 then reschedule cf PING_INTERVAL_SEC (s\<lparr>bh_failures := 0\<rparr>)
         else s)"

definition owner_changed :: "bh_config \<Rightarrow> pystr \<Rightarrow> BluezHealth \<Rightarrow> BluezHealth" where
  "owner_changed cf new_owner s0 =
     (let s = s0\<lparr>bh_generation := bh_generation s0 + 1, bh_pinging := False, bh_failures := 0,
                 bh_obs := OwnerChange # bh_obs s0\<rparr>
      in if bh_unresponsive s \<and> new_owner \<noteq> [] then recovered cf s
         else let s' = reschedule cf PING_INTERVAL_SEC s
           in if bh_unresponsive s' then bh_notify cf (s'\<lparr>bh_unresponsive := False, bh_reason := []\<rparr>) else s')"

definition probe :: "bool \<Rightarrow> BluezHealth \<Rightarrow> BluezHealth" where
  "probe sent s =
     (if bh_pinging s then s
      else let s' = s\<lparr>bh_history := Call (SendPing (bh_generation s)) # bh_history s\<rparr>
        in if sent then s'\<lparr>bh_pinging := True, bh_pings := bh_generation s # bh_pings s\<rparr> else s')"

definition probe_replied :: "bh_config \<Rightarrow> nat \<Rightarrow> BluezHealth \<Rightarrow> BluezHealth" where
  "probe_replied cf generation s =
     (if generation \<noteq> bh_generation s then s else report_success cf (s\<lparr>bh_pinging := False\<rparr>))"

definition probe_failed :: "bh_config \<Rightarrow> bool \<Rightarrow> nat \<Rightarrow> pystr \<Rightarrow> BluezHealth \<Rightarrow> BluezHealth" where
  "probe_failed cf sent generation error_name s =
     (if generation \<noteq> bh_generation s then s
      else let s' = s\<lparr>bh_pinging := False\<rparr>
        in if is_no_reply error_name then ping_failed cf sent s'
           else if error_name \<in> set NOT_RUNNING_ERRORS
           then s'\<lparr>bh_failures := 0, bh_obs := NotRunning # bh_obs s'\<rparr> else s')"

definition health_report :: "bool \<Rightarrow> pystr \<Rightarrow> BluezHealth \<Rightarrow> BluezHealth" where
  "health_report sent error_name s =
     (if is_no_reply error_name \<and> \<not> bh_unresponsive s \<and> bh_failures s = 0 then probe sent s else s)"

lemmas health_ops = bh_arm_def bh_cancel_def bh_start_def bh_stop_def bh_notify_def reschedule_def
  recovered_def explain_def got_pid_def ping_failed_def report_success_def owner_changed_def probe_def
  probe_replied_def probe_failed_def health_report_def

section \<open>The log filter\<close>

record IntrospectNoReplyFilter =
  if_window :: real
  if_last :: "real option"
  if_suppressed :: nat

text \<open>\<open>None\<close>: suppressed; \<open>Some n\<close>: passed, with "(and n similar since)" appended unless \<open>n\<close> is 0.\<close>

definition filter_record :: "real \<Rightarrow> pystr \<Rightarrow> IntrospectNoReplyFilter \<Rightarrow> IntrospectNoReplyFilter \<times> nat option" where
  "filter_record now message f =
     (if \<not> py_contains (lit ''Introspect error'') message \<or> \<not> py_contains (lit ''NoReply'') message
      then (f, Some 0)
      else if (case if_last f of None \<Rightarrow> False | Some l \<Rightarrow> now - l < if_window f)
      then (f\<lparr>if_suppressed := if_suppressed f + 1\<rparr>, None)
      else (f\<lparr>if_last := Some now, if_suppressed := 0\<rparr>,
            Some (if_suppressed f)))"

section \<open>Runs\<close>

inductive health_step :: "bh_config \<Rightarrow> BluezHealth \<Rightarrow> BluezHealth \<Rightarrow> bool" for cf where
  h_start: "health_step cf s (bh_start cf s)"
| h_stop: "health_step cf s (bh_stop s)"
| h_report: "health_step cf s (health_report sent e s)"
| h_success: "health_step cf s (report_success cf s)"
| h_owner: "health_step cf s (owner_changed cf new_owner s)"
| h_tick: "i \<in> live (bh_history s) \<Longrightarrow> health_step cf s (probe sent s)"
| h_replied: "bh_pings s = xs @ g # ys \<Longrightarrow> health_step cf s (probe_replied cf g (s\<lparr>bh_pings := xs @ ys\<rparr>))"
| h_failed: "bh_pings s = xs @ g # ys \<Longrightarrow>
    health_step cf s (probe_failed cf sent g e (s\<lparr>bh_pings := xs @ ys\<rparr>))"
| h_pid: "bh_pid_queries s = xs @ g # ys \<Longrightarrow>
    health_step cf s (got_pid cf read_state g pid (s\<lparr>bh_pid_queries := xs @ ys\<rparr>))"

definition health_started :: "bh_config \<Rightarrow> BluezHealth \<Rightarrow> bool" where
  "health_started cf s \<longleftrightarrow> fresh_ids (bh_sched cf) \<and> s = BluezHealth_init"

section \<open>The verdict\<close>

text \<open>Evidence gathered since BlueZ last answered or changed its owner.\<close>

definition recent :: "health_evidence list \<Rightarrow> health_evidence list" where
  "recent obs = takeWhile (\<lambda>e. e \<noteq> Alive \<and> e \<noteq> OwnerChange) obs"

definition two_in_a_row :: "health_evidence list \<Rightarrow> bool" where
  "two_in_a_row obs \<longleftrightarrow> (\<exists>a b. obs = a @ NoReplyPing # NoReplyPing # b)"

lemma two_in_a_row_Nil [simp]: "\<not> two_in_a_row []"
  by (simp add: two_in_a_row_def)

lemma two_in_a_row_Cons:
  "two_in_a_row (e # es) \<longleftrightarrow> e = NoReplyPing \<and> (\<exists>b. es = NoReplyPing # b) \<or> two_in_a_row es"
  by (auto simp: two_in_a_row_def Cons_eq_append_conv)

definition verdict_inv :: "BluezHealth \<Rightarrow> bool" where
  "verdict_inv s \<longleftrightarrow>
     bh_failures s = length (takeWhile (\<lambda>e. e = NoReplyPing) (bh_obs s)) \<and>
     (bh_unresponsive s \<longleftrightarrow> two_in_a_row (recent (bh_obs s))) \<and>
     (bh_reason s \<noteq> [] \<longrightarrow> bh_unresponsive s)"

definition timer_inv :: "BluezHealth \<Rightarrow> bool" where
  "timer_inv s \<longleftrightarrow> live (bh_history s) = timer_set [bh_timer s]"

definition health_inv :: "bh_config \<Rightarrow> BluezHealth \<Rightarrow> bool" where
  "health_inv cf s \<longleftrightarrow> fresh_ids (bh_sched cf) \<and> timer_inv s \<and> verdict_inv s"

lemma health_frame [simp]:
  "bh_failures (bh_arm cf d s) = bh_failures s" "bh_obs (bh_arm cf d s) = bh_obs s"
  "bh_unresponsive (bh_arm cf d s) = bh_unresponsive s" "bh_reason (bh_arm cf d s) = bh_reason s"
  "bh_failures (bh_cancel s) = bh_failures s" "bh_obs (bh_cancel s) = bh_obs s"
  "bh_unresponsive (bh_cancel s) = bh_unresponsive s" "bh_reason (bh_cancel s) = bh_reason s"
  "bh_failures (reschedule cf d s) = bh_failures s" "bh_obs (reschedule cf d s) = bh_obs s"
  "bh_unresponsive (reschedule cf d s) = bh_unresponsive s" "bh_reason (reschedule cf d s) = bh_reason s"
  "bh_failures (bh_notify cf s) = bh_failures s" "bh_obs (bh_notify cf s) = bh_obs s"
  "bh_unresponsive (bh_notify cf s) = bh_unresponsive s" "bh_reason (bh_notify cf s) = bh_reason s"
  "bh_failures (explain cf b s) = bh_failures s" "bh_obs (explain cf b s) = bh_obs s"
  "bh_unresponsive (explain cf b s) = bh_unresponsive s" "bh_reason (explain cf b s) = bh_reason s"
  "bh_failures (probe b s) = bh_failures s" "bh_obs (probe b s) = bh_obs s"
  "bh_unresponsive (probe b s) = bh_unresponsive s" "bh_reason (probe b s) = bh_reason s"
  by (simp_all add: health_ops Let_def split: option.split)

lemma recent_simps [simp]:
  "recent (Alive # obs) = []" "recent (OwnerChange # obs) = []"
  "recent (NoReplyPing # obs) = NoReplyPing # recent obs" "recent (NotRunning # obs) = NotRunning # recent obs"
  by (simp_all add: recent_def)

lemma recent_leading:
  "(\<exists>b. recent obs = NoReplyPing # b) \<longleftrightarrow> takeWhile (\<lambda>e. e = NoReplyPing) obs \<noteq> []"
  by (cases obs) (auto simp: recent_def)

lemma verdict_inv_ping_failed: "verdict_inv s \<Longrightarrow> verdict_inv (ping_failed cf b s)"
  using recent_leading [of "bh_obs s"]
  by (auto simp: verdict_inv_def ping_failed_def Let_def two_in_a_row_Cons PING_FAILURE_THRESHOLD_def)

lemma verdict_inv_update [simp]:
  "verdict_inv (s\<lparr>bh_generation := n\<rparr>) = verdict_inv s" "verdict_inv (s\<lparr>bh_pinging := b\<rparr>) = verdict_inv s"
  "verdict_inv (s\<lparr>bh_pings := p\<rparr>) = verdict_inv s" "verdict_inv (s\<lparr>bh_pid_queries := p\<rparr>) = verdict_inv s"
  "verdict_inv (bh_arm cf d s) = verdict_inv s" "verdict_inv (bh_cancel s) = verdict_inv s"
  "verdict_inv (probe sent s) = verdict_inv s"
  by (simp_all add: verdict_inv_def)

lemma verdict_inv_alive: "verdict_inv s \<Longrightarrow> verdict_inv (report_success cf s)"
  by (auto simp: verdict_inv_def report_success_def recovered_def Let_def)

lemma verdict_inv_owner: "verdict_inv (owner_changed cf new_owner s)" if "verdict_inv s"
  using that by (auto simp: verdict_inv_def owner_changed_def recovered_def Let_def)

lemma verdict_inv_probe_failed: "verdict_inv s \<Longrightarrow> verdict_inv (probe_failed cf sent g e s)"
  by (simp add: probe_failed_def Let_def verdict_inv_ping_failed)
    (auto simp: verdict_inv_def two_in_a_row_Cons)

lemma verdict_inv_pid: "verdict_inv s \<Longrightarrow> verdict_inv (got_pid cf read_state g pid s)"
  by (auto simp: verdict_inv_def got_pid_def)

lemma verdict_inv_step: "health_step cf s t \<Longrightarrow> verdict_inv s \<Longrightarrow> verdict_inv t"
  by (induction rule: health_step.induct)
    (simp_all add: bh_start_def bh_stop_def health_report_def probe_replied_def verdict_inv_alive
      verdict_inv_owner verdict_inv_probe_failed verdict_inv_pid)

lemma timer_inv_cancel: "timer_inv s \<Longrightarrow> live (bh_history (bh_cancel s)) = {} \<and> bh_timer (bh_cancel s) = None"
  by (auto simp: timer_inv_def bh_cancel_def split: option.split)

lemma timer_inv_arm: "live (bh_history s) = {} \<Longrightarrow> timer_inv (bh_arm cf d s)"
  by (simp add: timer_inv_def bh_arm_def)

lemma timer_inv_update [simp]:
  "timer_inv (s\<lparr>bh_generation := n\<rparr>) = timer_inv s" "timer_inv (s\<lparr>bh_pinging := b\<rparr>) = timer_inv s"
  "timer_inv (s\<lparr>bh_failures := n\<rparr>) = timer_inv s" "timer_inv (s\<lparr>bh_unresponsive := b\<rparr>) = timer_inv s"
  "timer_inv (s\<lparr>bh_reason := r\<rparr>) = timer_inv s" "timer_inv (s\<lparr>bh_obs := o'\<rparr>) = timer_inv s"
  "timer_inv (s\<lparr>bh_pings := p\<rparr>) = timer_inv s" "timer_inv (s\<lparr>bh_pid_queries := p\<rparr>) = timer_inv s"
  "timer_inv (s\<lparr>bh_history := Call e # bh_history s\<rparr>) = timer_inv s"
  by (simp_all add: timer_inv_def)

lemma timer_inv_blocks [simp]:
  "timer_inv s \<Longrightarrow> timer_inv (reschedule cf d s)" "timer_inv (bh_notify cf s) = timer_inv s"
  "timer_inv (explain cf b s) = timer_inv s" "timer_inv (probe b s) = timer_inv s"
  using timer_inv_cancel [of s]
  by (auto simp: reschedule_def timer_inv_arm bh_notify_def explain_def probe_def Let_def)

lemma timer_inv_start: "timer_inv s \<Longrightarrow> timer_inv (bh_start cf s)"
  by (auto simp: bh_start_def intro!: timer_inv_arm) (simp add: timer_inv_def)

lemma timer_inv_stop: "timer_inv s \<Longrightarrow> timer_inv (bh_stop s)"
  unfolding bh_stop_def using timer_inv_cancel [of "s\<lparr>bh_generation := bh_generation s + 1, bh_pinging := False\<rparr>"]
  by (simp add: timer_inv_def [of "bh_cancel _"])

lemma timer_inv_step: "health_step cf s t \<Longrightarrow> timer_inv s \<Longrightarrow> timer_inv t"
  by (induction rule: health_step.induct)
    (simp_all add: timer_inv_start timer_inv_stop health_report_def report_success_def recovered_def
      owner_changed_def probe_replied_def probe_failed_def ping_failed_def got_pid_def Let_def)

interpretation health_run: timer_owner "health_started cf" "health_step cf" "health_inv cf" bh_history "\<lambda>s. [bh_timer s]"
proof
  fix s t
  show "health_started cf s \<Longrightarrow> health_inv cf s"
    by (simp add: health_started_def health_inv_def timer_inv_def verdict_inv_def BluezHealth_init_def recent_def)
  show "health_inv cf s \<Longrightarrow> health_step cf s t \<Longrightarrow> health_inv cf t"
    using timer_inv_step verdict_inv_step by (auto simp: health_inv_def)
  show "health_inv cf s \<Longrightarrow> live (bh_history s) = timer_set [bh_timer s]"
    by (simp add: health_inv_def timer_inv_def)
qed


text \<open>Two unanswered pings in a row, and the kernel-sleep explanation.\<close>

definition demo_health_config :: bh_config where
  "demo_health_config = \<lparr>has_owner_pid = True, has_on_change = True, bh_sched = (\<lambda>h. Suc (top_id h))\<rparr>"

definition demo_hung :: BluezHealth where
  "demo_hung = (let cf = demo_health_config; e = lit ''org.freedesktop.DBus.Error.NoReply'';
     lost = (\<lambda>s. probe_failed cf True 0 e ((probe True s)\<lparr>bh_pings := []\<rparr>))
   in lost (lost (bh_start cf BluezHealth_init)))"

lemma demo_hung_reachable: "reachable (health_started demo_health_config) (health_step demo_health_config) demo_hung"
proof -
  let ?cf = demo_health_config and ?e = "lit ''org.freedesktop.DBus.Error.NoReply''"
  let ?R = "reachable (health_started ?cf) (health_step ?cf)"
  have lost: "?R (probe_failed ?cf True 0 ?e ((probe True s)\<lparr>bh_pings := []\<rparr>))"
    if "?R s" "bh_timer s \<noteq> None" "\<not> bh_pinging s" "bh_generation s = 0" "bh_pings s = []" for s
  proof -
    from health_run.reachable_live [OF that(1)] that(2) obtain i where "i \<in> live (bh_history s)" by auto
    then have p: "?R (probe True s)" using that(1) by (blast intro: reachable.next_state health_step.h_tick)
    have "bh_pings (probe True s) = [] @ 0 # []" using that by (simp add: probe_def)
    from reachable.next_state [OF p health_step.h_failed [OF this]] show ?thesis by simp
  qed
  have 0: "?R BluezHealth_init"
    by (rule reachable.start) (simp add: health_started_def demo_health_config_def fresh_ids_top)
  have 1: "?R (bh_start ?cf BluezHealth_init)" by (rule reachable.next_state [OF 0 health_step.h_start])
  show ?thesis unfolding demo_hung_def Let_def
    by (intro lost 1) (simp_all add: health_ops BluezHealth_init_def Let_def is_no_reply_def NO_REPLY_ERRORS_def
        lit_def PING_FAILURE_THRESHOLD_def)
qed


end
