(* ===== verification/Recovery_Limits.thy ===== *)
theory Recovery_Limits
  imports Prelude
begin

text \<open>
  The two rate limits on what the daemon does to a Bluetooth link by itself: the rolling budget for
  host-initiated LE recovery (\<open>le_recovery_budget.py\<close>) and the controller that resets stuck
  profiles (\<open>profile_reset.py\<close>). Clock readings are arguments, assumed not to run backwards; the
  grants, resets and notifications are logged beside the fields.
  The lemmas show that at most four recoveries run in any 600 seconds and never two within 30, that
  automatic resets are at least 600 seconds apart, and that no reset starts while a guard forbids it.
\<close>

section \<open>The LE recovery budget\<close>

definition WINDOW_SECONDS :: real where [consts_defs]: "WINDOW_SECONDS = 600"
definition MAX_ATTEMPTS :: nat where [consts_defs]: "MAX_ATTEMPTS = 4"
definition HEALTHY_SECONDS :: real where [consts_defs]: "HEALTHY_SECONDS = 180"

record LeRecoveryBudget =
  lb_attempts :: "real list"
  lb_next :: real
  lb_healthy_since :: "real option"
  lb_last_health_check :: "real option"
  lb_taken :: "real list"
  lb_now :: real

definition LeRecoveryBudget_init :: "real \<Rightarrow> LeRecoveryBudget" where
  "LeRecoveryBudget_init now = \<lparr>lb_attempts = [], lb_next = 0, lb_healthy_since = None,
     lb_last_health_check = None, lb_taken = [], lb_now = now\<rparr>"

definition attempt_wait :: "nat \<Rightarrow> int" where
  "attempt_wait n = min (30 * 2 ^ n) 300"

definition take_attempt :: "real \<Rightarrow> LeRecoveryBudget \<Rightarrow> LeRecoveryBudget \<times> bool" where
  "take_attempt now b0 =
     (let b = b0\<lparr>lb_attempts := dropWhile (\<lambda>t. WINDOW_SECONDS \<le> now - t) (lb_attempts b0), lb_now := now\<rparr>
      in if now < lb_next b \<or> MAX_ATTEMPTS \<le> length (lb_attempts b) then (b, False)
         else (b\<lparr>lb_attempts := lb_attempts b @ [now],
                 lb_next := now + real_of_int (attempt_wait (length (lb_attempts b))),
                 lb_healthy_since := None, lb_taken := lb_taken b @ [now]\<rparr>, True))"

definition observe_health :: "real \<Rightarrow> bool \<Rightarrow> real option \<Rightarrow> LeRecoveryBudget \<Rightarrow> LeRecoveryBudget" where
  "observe_health now healthy proof_at b0 =
     (let stale = (case lb_last_health_check b0 of None \<Rightarrow> True | Some l \<Rightarrow> 90 < now - l);
          b = b0\<lparr>lb_healthy_since := (if stale then None else lb_healthy_since b0),
                 lb_last_health_check := Some now, lb_now := now\<rparr>
      in if \<not> healthy \<or> (case proof_at of None \<Rightarrow> True | Some p \<Rightarrow> \<not> (0 \<le> now - p \<and> now - p \<le> 90))
         then b\<lparr>lb_healthy_since := None\<rparr>
         else let since = (case lb_healthy_since b of None \<Rightarrow> now | Some h \<Rightarrow> h);
                  b' = b\<lparr>lb_healthy_since := Some since\<rparr>
           in if HEALTHY_SECONDS \<le> now - since then b'\<lparr>lb_attempts := [], lb_next := 0, lb_taken := []\<rparr>
              else b')"

inductive budget_step :: "LeRecoveryBudget \<Rightarrow> LeRecoveryBudget \<Rightarrow> bool" where
  b_take: "lb_now b \<le> now \<Longrightarrow> budget_step b (fst (take_attempt now b))"
| b_health: "lb_now b \<le> now \<Longrightarrow> budget_step b (observe_health now healthy proof_at b)"

definition budget_started :: "LeRecoveryBudget \<Rightarrow> bool" where
  "budget_started b \<longleftrightarrow> (\<exists>now. b = LeRecoveryBudget_init now)"

interpretation attempt: capped_backoff attempt_wait 30 300
proof
  fix n show "attempt_wait (Suc n) = min (2 * attempt_wait n) 300"
    by (simp add: attempt_wait_def min_def)
qed (simp_all add: attempt_wait_def)

text \<open>The grants in \<open>lb_taken\<close> are those since the budget was last refilled by proven health.\<close>

definition budget_inv :: "LeRecoveryBudget \<Rightarrow> bool" where
  "budget_inv b \<longleftrightarrow> window_ok MAX_ATTEMPTS WINDOW_SECONDS (lb_now b) (lb_taken b) (lb_attempts b) \<and>
     spaced 1 30 (lb_taken b) \<and> (lb_taken b \<noteq> [] \<longrightarrow> last (lb_taken b) + 30 \<le> lb_next b)"

lemma spaced_1_append: "spaced 1 w ts \<Longrightarrow> (ts \<noteq> [] \<longrightarrow> last ts + w \<le> t) \<Longrightarrow> spaced 1 w (ts @ [t])"
  by (auto simp: spaced_def nth_append last_conv_nth less_Suc_eq) (metis One_nat_def diff_Suc_1)

lemma budget_inv_take:
  assumes "budget_inv b" "lb_now b \<le> now"
  shows "budget_inv (fst (take_attempt now b))"
proof -
  let ?q = "dropWhile (\<lambda>t. WINDOW_SECONDS \<le> now - t) (lb_attempts b)"
  have q: "?q = dropWhile (\<lambda>t. t \<le> now - WINDOW_SECONDS) (lb_attempts b)"
    by (rule arg_cong [where f = "\<lambda>P. dropWhile P (lb_attempts b)"]) (auto simp: algebra_simps)
  have w: "window_ok MAX_ATTEMPTS WINDOW_SECONDS now (lb_taken b) ?q"
    unfolding q by (rule window_ok_drop, rule window_ok_later [OF _ assms(2)])
      (use assms(1) in \<open>simp add: budget_inv_def\<close>)
  have a: "30 \<le> attempt_wait (length ?q)" using attempt.delay_bounds by simp
  show ?thesis
  proof (cases "now < lb_next b \<or> MAX_ATTEMPTS \<le> length ?q")
    case True
    then show ?thesis using w assms(1) by (simp add: take_attempt_def Let_def budget_inv_def)
  next
    case False
    moreover from False assms(1) have "spaced 1 30 (lb_taken b @ [now])"
      by (intro spaced_1_append) (auto simp: budget_inv_def)
    ultimately show ?thesis using window_ok_admit [OF w] a
      by (simp add: take_attempt_def Let_def budget_inv_def)
  qed
qed

lemma budget_inv_update [simp]:
  "budget_inv (b\<lparr>lb_healthy_since := x\<rparr>) = budget_inv b"
  "budget_inv (b\<lparr>lb_last_health_check := x\<rparr>) = budget_inv b"
  "budget_inv (b\<lparr>lb_attempts := [], lb_next := y, lb_taken := []\<rparr>)"
  by (simp_all add: budget_inv_def spaced_def)

lemma budget_inv_now: "budget_inv b \<Longrightarrow> lb_now b \<le> now \<Longrightarrow> budget_inv (b\<lparr>lb_now := now\<rparr>)"
  using window_ok_later by (simp add: budget_inv_def) blast

lemma budget_inv_health: "budget_inv b \<Longrightarrow> lb_now b \<le> now \<Longrightarrow> budget_inv (observe_health now h p b)"
  unfolding observe_health_def Let_def by (simp add: budget_inv_now)

interpretation budget_run: invariant_system budget_started budget_step budget_inv
proof
  fix b c
  show "budget_started b \<Longrightarrow> budget_inv b"
    by (auto simp: budget_started_def LeRecoveryBudget_init_def budget_inv_def spaced_def)
  show "budget_inv b \<Longrightarrow> budget_step b c \<Longrightarrow> budget_inv c"
    by (auto elim!: budget_step.cases intro: budget_inv_take budget_inv_health)
qed


definition demo_budget :: LeRecoveryBudget where
  "demo_budget = fst (take_attempt 40 (fst (take_attempt 20 (fst (take_attempt 0 (LeRecoveryBudget_init 0))))))"


section \<open>The profile reset controller\<close>

definition REASON_HFP :: pystr where "REASON_HFP = lit ''hfp_powered_timeout''"
definition REASON_MANUAL :: pystr where "REASON_MANUAL = lit ''manual''"
definition OFONO_TIMEDOUT :: pystr where "OFONO_TIMEDOUT = lit ''org.ofono.Error.Timedout''"
definition HFP_TIMEOUT_THRESHOLD :: nat where [consts_defs]: "HFP_TIMEOUT_THRESHOLD = 2"
definition AUTO_RESET_INTERVAL_SECONDS :: int where [consts_defs]: "AUTO_RESET_INTERVAL_SECONDS = 600"
definition AUTO_RESET_BACKOFF_CAP_SECONDS :: int where [consts_defs]: "AUTO_RESET_BACKOFF_CAP_SECONDS = 3600"

text \<open>What the injected functions answer during one operation.\<close>

record reset_env =
  peer_connected :: bool
  bluez_blocked :: bool
  call_active :: bool
  recovering :: bool
  reset_result :: pystr
  mono :: real
  wall :: int

datatype reset_event = ResetCalled bool reset_env | OnChanged

record ProfileResetController =
  pr_enabled :: bool
  pr_hfp_timeouts :: nat
  pr_suggested :: pystr
  pr_suppressed_logged :: pystr
  pr_auto_streak :: nat
  pr_last_auto_mono :: "real option"
  pr_next_auto_at :: real
  pr_last_reason :: pystr
  pr_last_at :: int
  pr_last_auto :: bool
  pr_log :: "reset_event list"
  pr_now :: real

definition ProfileResetController_init :: "bool \<Rightarrow> real \<Rightarrow> ProfileResetController" where
  "ProfileResetController_init enabled now =
     \<lparr>pr_enabled = enabled, pr_hfp_timeouts = 0, pr_suggested = [], pr_suppressed_logged = [],
      pr_auto_streak = 0, pr_last_auto_mono = None, pr_next_auto_at = 0, pr_last_reason = [],
      pr_last_at = 0, pr_last_auto = False, pr_log = [], pr_now = now\<rparr>"

definition on_changed :: "ProfileResetController \<Rightarrow> ProfileResetController" where
  "on_changed c = c\<lparr>pr_log := OnChanged # pr_log c\<rparr>"

definition set_enabled :: "bool \<Rightarrow> ProfileResetController \<Rightarrow> ProfileResetController" where
  "set_enabled enabled c =
     (if pr_enabled c = enabled then c
      else on_changed (c\<lparr>pr_enabled := enabled, pr_suppressed_logged := []\<rparr>))"

definition suggested :: "reset_env \<Rightarrow> ProfileResetController \<Rightarrow> pystr" where
  "suggested env c = (if peer_connected env then pr_suggested c else [])"

definition reset_snapshot :: "ProfileResetController \<Rightarrow> bool \<times> pystr \<times> pystr \<times> int \<times> bool" where
  "reset_snapshot c = (pr_enabled c, pr_suggested c, pr_last_reason c, pr_last_at c, pr_last_auto c)"

definition peer_lost :: "ProfileResetController \<Rightarrow> ProfileResetController" where
  "peer_lost c =
     (let c' = c\<lparr>pr_hfp_timeouts := 0\<rparr>
      in if pr_suggested c' \<noteq> [] then on_changed (c'\<lparr>pr_suggested := []\<rparr>) else c')"

definition guard :: "reset_env \<Rightarrow> pystr" where
  "guard env =
     (if bluez_blocked env then lit ''bluez-unresponsive''
      else if recovering env then lit ''recovery''
      else if call_active env then lit ''call-active''
      else if \<not> peer_connected env then lit ''disconnected''
      else [])"

definition record_reset :: "reset_env \<Rightarrow> pystr \<Rightarrow> bool \<Rightarrow> ProfileResetController \<Rightarrow> ProfileResetController" where
  "record_reset env reason auto c =
     on_changed (c\<lparr>pr_last_reason := reason, pr_last_at := wall env, pr_last_auto := auto,
                   pr_suggested := [], pr_suppressed_logged := [], pr_hfp_timeouts := 0\<rparr>)"

definition log_suppressed :: "pystr \<Rightarrow> ProfileResetController \<Rightarrow> ProfileResetController" where
  "log_suppressed reason c =
     (if pr_suppressed_logged c = reason then c else c\<lparr>pr_suppressed_logged := reason\<rparr>)"

definition reset_wait :: "nat \<Rightarrow> int" where
  "reset_wait n = min (AUTO_RESET_INTERVAL_SECONDS * 2 ^ n) AUTO_RESET_BACKOFF_CAP_SECONDS"

definition call_reset :: "bool \<Rightarrow> reset_env \<Rightarrow> ProfileResetController \<Rightarrow> ProfileResetController" where
  "call_reset auto env c = c\<lparr>pr_log := ResetCalled auto env # pr_log c\<rparr>"

definition manual_reset :: "reset_env \<Rightarrow> ProfileResetController \<Rightarrow> ProfileResetController \<times> pystr" where
  "manual_reset env c =
     (if guard env \<noteq> [] then (c, guard env)
      else let c' = call_reset False env c
        in if reset_result env = lit ''started''
           then (record_reset env REASON_MANUAL False c', reset_result env) else (c', reset_result env))"

definition auto_reset :: "reset_env \<Rightarrow> pystr \<Rightarrow> ProfileResetController \<Rightarrow> ProfileResetController \<times> bool" where
  "auto_reset env reason c =
     (if \<not> pr_enabled c then (log_suppressed reason c, False)
      else if guard env \<noteq> [] then (c, False)
      else if mono env < pr_next_auto_at c then (log_suppressed reason c, False)
      else let c1 = call_reset True env c
        in if reset_result env \<noteq> lit ''started'' then (c1, reset_result env = lit ''in-progress'')
           else let c2 = c1\<lparr>pr_auto_streak := pr_auto_streak c1 + 1\<rparr>;
                    wait = reset_wait (pr_auto_streak c2 - 1);
                    c3 = c2\<lparr>pr_last_auto_mono := Some (mono env),
                            pr_next_auto_at := mono env + real_of_int wait\<rparr>
             in (record_reset env reason True c3, True))"

definition stuck :: "reset_env \<Rightarrow> pystr \<Rightarrow> ProfileResetController \<Rightarrow> ProfileResetController" where
  "stuck env reason c =
     (let c1 = fst (auto_reset env reason (c\<lparr>pr_suggested := reason\<rparr>))
      in if reset_snapshot c1 \<noteq> reset_snapshot c then on_changed c1 else c1)"

definition hfp_powered_failed :: "reset_env \<Rightarrow> pystr \<Rightarrow> ProfileResetController \<Rightarrow> ProfileResetController" where
  "hfp_powered_failed env error_name c =
     (if error_name \<noteq> OFONO_TIMEDOUT \<or> \<not> peer_connected env then c\<lparr>pr_hfp_timeouts := 0\<rparr>
      else let c' = c\<lparr>pr_hfp_timeouts := pr_hfp_timeouts c + 1\<rparr>
        in if HFP_TIMEOUT_THRESHOLD \<le> pr_hfp_timeouts c' then stuck env REASON_HFP c' else c')"

definition healthy :: "pystr \<Rightarrow> ProfileResetController \<Rightarrow> ProfileResetController" where
  "healthy reason c =
     (let c1 = c\<lparr>pr_auto_streak := 0,
                 pr_next_auto_at := (case pr_last_auto_mono c of None \<Rightarrow> pr_next_auto_at c
                   | Some l \<Rightarrow> min (pr_next_auto_at c) (l + real_of_int AUTO_RESET_INTERVAL_SECONDS)),
                 pr_suppressed_logged := (if pr_suppressed_logged c = reason then [] else pr_suppressed_logged c)\<rparr>
      in if pr_suggested c1 = reason then on_changed (c1\<lparr>pr_suggested := []\<rparr>) else c1)"

definition hfp_powered :: "ProfileResetController \<Rightarrow> ProfileResetController" where
  "hfp_powered c = healthy REASON_HFP (c\<lparr>pr_hfp_timeouts := 0\<rparr>)"

inductive reset_step :: "ProfileResetController \<Rightarrow> ProfileResetController \<Rightarrow> bool" where
  r_enabled: "reset_step c (set_enabled b c)"
| r_peer_lost: "reset_step c (peer_lost c)"
| r_failed: "pr_now c \<le> mono env \<Longrightarrow> reset_step c ((hfp_powered_failed env e c)\<lparr>pr_now := mono env\<rparr>)"
| r_powered: "reset_step c (hfp_powered c)"
| r_manual: "reset_step c (fst (manual_reset env c))"

definition reset_started :: "ProfileResetController \<Rightarrow> bool" where
  "reset_started c \<longleftrightarrow> (\<exists>b now. c = ProfileResetController_init b now)"

interpretation reset: capped_backoff reset_wait 600 3600
proof
  fix n show "reset_wait (Suc n) = min (2 * reset_wait n) 3600"
    by (simp add: reset_wait_def consts_defs min_def)
qed (simp_all add: reset_wait_def consts_defs)

text \<open>The times at which an automatic reset was started, oldest first.\<close>

fun auto_starts :: "reset_event list \<Rightarrow> real list" where
  "auto_starts [] = []"
| "auto_starts (ResetCalled auto env # l) =
     auto_starts l @ (if auto \<and> reset_result env = lit ''started'' then [mono env] else [])"
| "auto_starts (OnChanged # l) = auto_starts l"

definition reset_inv :: "ProfileResetController \<Rightarrow> bool" where
  "reset_inv c \<longleftrightarrow>
     spaced 1 600 (auto_starts (pr_log c)) \<and>
     pr_last_auto_mono c = (if auto_starts (pr_log c) = [] then None else Some (last (auto_starts (pr_log c)))) \<and>
     (auto_starts (pr_log c) \<noteq> [] \<longrightarrow> last (auto_starts (pr_log c)) + 600 \<le> pr_next_auto_at c) \<and>
     (\<forall>auto env. ResetCalled auto env \<in> set (pr_log c) \<longrightarrow> guard env = [])"

lemma reset_inv_update [simp]:
  "reset_inv (c\<lparr>pr_enabled := b\<rparr>) = reset_inv c" "reset_inv (c\<lparr>pr_hfp_timeouts := n\<rparr>) = reset_inv c"
  "reset_inv (c\<lparr>pr_suggested := r\<rparr>) = reset_inv c" "reset_inv (c\<lparr>pr_suppressed_logged := r\<rparr>) = reset_inv c"
  "reset_inv (c\<lparr>pr_auto_streak := n\<rparr>) = reset_inv c" "reset_inv (c\<lparr>pr_now := t\<rparr>) = reset_inv c"
  "reset_inv (c\<lparr>pr_last_reason := r\<rparr>) = reset_inv c" "reset_inv (c\<lparr>pr_last_at := i\<rparr>) = reset_inv c"
  "reset_inv (c\<lparr>pr_last_auto := b\<rparr>) = reset_inv c"
  "reset_inv (on_changed c) = reset_inv c" "reset_inv (log_suppressed reason c) = reset_inv c"
  "reset_inv (record_reset env reason auto c) = reset_inv c"
  by (simp_all add: reset_inv_def on_changed_def log_suppressed_def record_reset_def)

lemma reset_inv_manual: "reset_inv c \<Longrightarrow> reset_inv (fst (manual_reset env c))"
proof -
  assume "reset_inv c"
  then have "guard env = [] \<Longrightarrow> reset_inv (call_reset False env c)" by (auto simp: reset_inv_def call_reset_def)
  with \<open>reset_inv c\<close> show ?thesis by (simp add: manual_reset_def Let_def)
qed

lemma reset_inv_auto: "reset_inv c \<Longrightarrow> reset_inv (fst (auto_reset env reason c))"
proof -
  assume c: "reset_inv c"
  let ?wait = "reset_wait (pr_auto_streak c)"
  let ?c = "(call_reset True env c)\<lparr>pr_auto_streak := pr_auto_streak c + 1, pr_last_auto_mono := Some (mono env),
      pr_next_auto_at := mono env + real_of_int ?wait\<rparr>"
  have "reset_inv (call_reset True env c)" if "guard env = []" "reset_result env \<noteq> lit ''started''"
    using c that by (auto simp: reset_inv_def call_reset_def)
  moreover have "reset_inv ?c" if "guard env = []" "reset_result env = lit ''started''" "pr_next_auto_at c \<le> mono env"
  proof -
    have "600 \<le> ?wait" using reset.delay_bounds by simp
    moreover have "spaced 1 600 (auto_starts (pr_log c) @ [mono env])"
      using c that by (intro spaced_1_append) (auto simp: reset_inv_def)
    ultimately show ?thesis using c that by (auto simp: reset_inv_def call_reset_def)
  qed
  ultimately show ?thesis using c by (simp add: auto_reset_def Let_def call_reset_def)
qed

lemma reset_inv_stuck: "reset_inv c \<Longrightarrow> reset_inv (stuck env reason c)"
  by (simp add: stuck_def Let_def reset_inv_auto)

lemma reset_inv_healthy: "reset_inv c \<Longrightarrow> reset_inv (healthy reason c)"
  by (auto simp: healthy_def Let_def reset_inv_def on_changed_def consts_defs split: option.split)

lemma reset_inv_step: "reset_step c d \<Longrightarrow> reset_inv c \<Longrightarrow> reset_inv d"
  by (induction rule: reset_step.induct)
    (simp_all add: set_enabled_def peer_lost_def hfp_powered_failed_def hfp_powered_def Let_def
      reset_inv_stuck reset_inv_healthy reset_inv_manual)

interpretation reset_run: invariant_system reset_started reset_step reset_inv
proof
  fix c d
  show "reset_started c \<Longrightarrow> reset_inv c"
    by (auto simp: reset_started_def reset_inv_def ProfileResetController_init_def spaced_def)
  show "reset_inv c \<Longrightarrow> reset_step c d \<Longrightarrow> reset_inv d" by (rule reset_inv_step)
qed

text \<open>
  C36: in every run automatic profile resets are started at least 600 seconds apart, and no reset,
  automatic or manual, is asked for while bluetoothd does not answer, the adapter is being recovered, a
  call is active or the Classic link is down.
\<close>

theorem profile_resets_limited:
  assumes "reachable reset_started reset_step c"
  shows "(\<forall>i. i + 1 < length (auto_starts (pr_log c)) \<longrightarrow>
      auto_starts (pr_log c) ! i + 600 \<le> auto_starts (pr_log c) ! (i + 1)) \<and>
    (\<forall>auto env. ResetCalled auto env \<in> set (pr_log c) \<longrightarrow>
      \<not> bluez_blocked env \<and> \<not> recovering env \<and> \<not> call_active env \<and> peer_connected env)"
proof -
  have "guard env = [] \<longleftrightarrow> \<not> bluez_blocked env \<and> \<not> recovering env \<and> \<not> call_active env \<and> peer_connected env" for env
    by (simp add: guard_def lit_def)
  then show ?thesis using reset_run.reachable_inv [OF assms] by (auto simp: reset_inv_def spaced_def)
qed

definition demo_reset_env :: reset_env where
  "demo_reset_env = \<lparr>peer_connected = True, bluez_blocked = False, call_active = False, recovering = False,
     reset_result = lit ''started'', mono = 50, wall = 0\<rparr>"

definition demo_reset :: ProfileResetController where
  "demo_reset = (hfp_powered_failed demo_reset_env OFONO_TIMEDOUT
     ((hfp_powered_failed demo_reset_env OFONO_TIMEDOUT (ProfileResetController_init True 0))\<lparr>pr_now := 50\<rparr>))\<lparr>pr_now := 50\<rparr>"

theorem profile_resets_limited_witness:
  "auto_starts (pr_log demo_reset) = [50] \<and> ResetCalled True demo_reset_env \<in> set (pr_log demo_reset) \<and>
   peer_connected demo_reset_env"
proof -
  have "reachable reset_started reset_step (ProfileResetController_init True 0)"
    by (rule reachable.start) (auto simp: reset_started_def)
  from reset_step.r_failed [of "ProfileResetController_init True 0" demo_reset_env OFONO_TIMEDOUT]
    reachable.next_state [OF this]
  have 1: "reachable reset_started reset_step
      ((hfp_powered_failed demo_reset_env OFONO_TIMEDOUT (ProfileResetController_init True 0))\<lparr>pr_now := 50\<rparr>)"
    by (simp add: demo_reset_env_def ProfileResetController_init_def)
  then have r: "reachable reset_started reset_step demo_reset"
    unfolding demo_reset_def
    using reset_step.r_failed [of "(hfp_powered_failed demo_reset_env OFONO_TIMEDOUT
      (ProfileResetController_init True 0))\<lparr>pr_now := 50\<rparr>" demo_reset_env OFONO_TIMEDOUT] reachable.next_state [OF 1]
    by (simp add: demo_reset_env_def)
  have l: "auto_starts (pr_log demo_reset) = [50]" "ResetCalled True demo_reset_env \<in> set (pr_log demo_reset)"
    by (simp_all add: demo_reset_def demo_reset_env_def ProfileResetController_init_def hfp_powered_failed_def
        stuck_def auto_reset_def guard_def call_reset_def record_reset_def on_changed_def reset_snapshot_def
        Let_def consts_defs lit_def)
  from profile_resets_limited [OF r] l show ?thesis by blast
qed

end
