(* ===== verification/Solicitation.thy ===== *)
theory Solicitation
  imports Prelude
begin

text \<open>
  The supervisor of the ANCS solicitation advertisement (\<open>solicitation_supervisor.py\<close>). What
  \<open>bluez_setup\<close> answers during one operation (is the advert registered, is a registration pending, does
  registering succeed) and the clock are arguments. Besides its own fields the state has the history of
  calls, in which \<open>Hold t\<close> marks that the minimum time on air was started at \<open>t\<close>.
  The lemmas show that reconciliation never takes the advert off the air before every hold that was
  started has lasted its minimum time, and that the supervisor owns exactly its one timer.
\<close>

definition RECONCILE_SECONDS :: int where [consts_defs]: "RECONCILE_SECONDS = 30"
definition MINIMUM_ON_SECONDS :: int where [consts_defs]: "MINIMUM_ON_SECONDS = 180"

datatype advert_call = Register bool | Unregister real | StopUnregister | ForgetRegistration | Hold real

record SolicitationSupervisor =
  sl_needed :: bool
  sl_minimum_on_seconds :: int
  sl_running :: bool
  sl_dialing :: bool
  sl_timer_id :: "nat option"
  sl_hold_until :: real
  sl_was_registered :: bool
  sl_history :: "(unit, advert_call) eff list"

record advert_env =
  is_registered :: bool
  is_pending :: bool
  register_ok :: bool
  clock :: real

type_synonym advert_sched = "(unit, advert_call) eff list \<Rightarrow> nat"

definition SolicitationSupervisor_init :: "bool \<Rightarrow> int \<Rightarrow> SolicitationSupervisor" where
  "SolicitationSupervisor_init needed minimum_on_seconds =
     \<lparr>sl_needed = needed, sl_minimum_on_seconds = minimum_on_seconds, sl_running = False, sl_dialing = False,
      sl_timer_id = None, sl_hold_until = 0, sl_was_registered = False, sl_history = []\<rparr>"

definition sl_call :: "advert_call \<Rightarrow> SolicitationSupervisor \<Rightarrow> SolicitationSupervisor" where
  "sl_call e s = s\<lparr>sl_history := Call e # sl_history s\<rparr>"

definition begin_hold :: "advert_env \<Rightarrow> SolicitationSupervisor \<Rightarrow> SolicitationSupervisor" where
  "begin_hold env s = sl_call (Hold (clock env))
     (s\<lparr>sl_hold_until := max (sl_hold_until s) (clock env + real_of_int (sl_minimum_on_seconds s))\<rparr>)"

definition reconcile :: "advert_env \<Rightarrow> SolicitationSupervisor \<Rightarrow> SolicitationSupervisor" where
  "reconcile env s =
     (let registered = is_registered env;
          s1 = (if registered \<and> \<not> sl_was_registered s then begin_hold env s else s);
          s2 = s1\<lparr>sl_was_registered := registered\<rparr>
      in if sl_dialing s2 \<and> sl_hold_until s2 \<le> clock env then
           if registered \<or> is_pending env
           then (sl_call (Unregister (clock env)) s2)\<lparr>sl_was_registered := False\<rparr> else s2
         else if sl_needed s2 \<and> \<not> registered then
           if is_pending env then s2
           else if register_ok env
           then begin_hold env ((sl_call (Register True) s2)\<lparr>sl_was_registered := True\<rparr>)
           else sl_call (Register False) s2
         else if \<not> sl_needed s2 \<and> registered \<and> sl_hold_until s2 \<le> clock env
         then (sl_call (Unregister (clock env)) s2)\<lparr>sl_was_registered := False\<rparr>
         else s2)"

definition sl_start :: "advert_sched \<Rightarrow> advert_env \<Rightarrow> SolicitationSupervisor \<Rightarrow> SolicitationSupervisor" where
  "sl_start sched env s =
     (if sl_running s then s
      else let s1 = s\<lparr>sl_running := True\<rparr>;
               s2 = (if sl_needed s1 then begin_hold env s1 else s1);
               s3 = reconcile env s2
        in s3\<lparr>sl_timer_id := Some (sched (sl_history s3)),
              sl_history := Schedule (sched (sl_history s3)) RECONCILE_SECONDS () # sl_history s3\<rparr>)"

definition set_needed :: "advert_env \<Rightarrow> bool \<Rightarrow> SolicitationSupervisor \<Rightarrow> SolicitationSupervisor" where
  "set_needed env needed s =
     (let changed = (needed \<noteq> sl_needed s);
          s1 = s\<lparr>sl_needed := needed\<rparr>;
          s2 = (if needed \<and> changed then begin_hold env s1 else s1)
      in if sl_running s2 \<and> (changed \<or> needed \<noteq> is_registered env) then reconcile env s2 else s2)"

definition set_dialing :: "advert_env \<Rightarrow> bool \<Rightarrow> SolicitationSupervisor \<Rightarrow> SolicitationSupervisor" where
  "set_dialing env dialing s =
     (let changed = (dialing \<noteq> sl_dialing s); s1 = s\<lparr>sl_dialing := dialing\<rparr>
      in if sl_running s1 \<and> changed then reconcile env s1 else s1)"

text \<open>\<open>env\<close> is what is seen after the registration was forgotten.\<close>

definition reset_after_bluez_restart :: "advert_env \<Rightarrow> SolicitationSupervisor \<Rightarrow> SolicitationSupervisor" where
  "reset_after_bluez_restart env s =
     (let s1 = sl_call ForgetRegistration (begin_hold env (s\<lparr>sl_needed := True\<rparr>))
      in if sl_running s1 then reconcile env s1 else s1)"

definition sl_stop :: "advert_env \<Rightarrow> SolicitationSupervisor \<Rightarrow> SolicitationSupervisor" where
  "sl_stop env s =
     (let s1 = s\<lparr>sl_running := False\<rparr>;
          s2 = (case sl_timer_id s1 of None \<Rightarrow> s1
                | Some i \<Rightarrow> s1\<lparr>sl_history := Cancel i # sl_history s1, sl_timer_id := None\<rparr>)
      in if is_registered env \<or> is_pending env then sl_call StopUnregister s2 else s2)"

text \<open>A tick on a supervisor that does not run returns \<open>False\<close>, which destroys the source.\<close>

definition sl_tick :: "advert_env \<Rightarrow> nat \<Rightarrow> SolicitationSupervisor \<Rightarrow> SolicitationSupervisor" where
  "sl_tick env i s =
     (if \<not> sl_running s then s\<lparr>sl_history := Expired i # sl_history s\<rparr> else reconcile env s)"

inductive sl_step :: "advert_sched \<Rightarrow> SolicitationSupervisor \<Rightarrow> SolicitationSupervisor \<Rightarrow> bool" for sched where
  sl_starts: "sl_step sched s (sl_start sched env s)"
| sl_needs: "sl_step sched s (set_needed env needed s)"
| sl_dials: "sl_step sched s (set_dialing env dialing s)"
| sl_restarts: "sl_step sched s (reset_after_bluez_restart env s)"
| sl_stops: "sl_step sched s (sl_stop env s)"
| sl_ticks: "i \<in> live (sl_history s) \<Longrightarrow> sl_step sched s (sl_tick env i s)"

definition sl_started :: "int \<Rightarrow> advert_sched \<Rightarrow> SolicitationSupervisor \<Rightarrow> bool" where
  "sl_started m sched s \<longleftrightarrow> fresh_ids sched \<and> (\<exists>needed. s = SolicitationSupervisor_init needed m)"

section \<open>Holds are respected\<close>

text \<open>Each removal by reconciliation comes after every earlier hold has run out.\<close>

fun holds_respected :: "int \<Rightarrow> advert_call list \<Rightarrow> bool" where
  "holds_respected m [] = True"
| "holds_respected m (Unregister u # h) =
     ((\<forall>t. Hold t \<in> set h \<longrightarrow> t + real_of_int m \<le> u) \<and> holds_respected m h)"
| "holds_respected m (_ # h) = holds_respected m h"

definition hold_inv :: "int \<Rightarrow> SolicitationSupervisor \<Rightarrow> bool" where
  "hold_inv m s \<longleftrightarrow> sl_minimum_on_seconds s = m \<and> holds_respected m (calls (sl_history s)) \<and>
     (\<forall>t. Hold t \<in> set (calls (sl_history s)) \<longrightarrow> t + real_of_int m \<le> sl_hold_until s)"

definition sl_timer_inv :: "SolicitationSupervisor \<Rightarrow> bool" where
  "sl_timer_inv s \<longleftrightarrow> live (sl_history s) = timer_set [sl_timer_id s] \<and> (sl_timer_id s \<noteq> None \<longleftrightarrow> sl_running s)"

lemma hold_inv_update [simp]:
  "hold_inv m (s\<lparr>sl_needed := b\<rparr>) = hold_inv m s" "hold_inv m (s\<lparr>sl_running := b\<rparr>) = hold_inv m s"
  "hold_inv m (s\<lparr>sl_dialing := b\<rparr>) = hold_inv m s" "hold_inv m (s\<lparr>sl_timer_id := i\<rparr>) = hold_inv m s"
  "hold_inv m (s\<lparr>sl_was_registered := b\<rparr>) = hold_inv m s"
  "hold_inv m (s\<lparr>sl_history := Cancel j # sl_history s\<rparr>) = hold_inv m s"
  "hold_inv m (s\<lparr>sl_history := Expired j # sl_history s\<rparr>) = hold_inv m s"
  "hold_inv m (s\<lparr>sl_timer_id := i, sl_history := Schedule j d f # sl_history s\<rparr>) = hold_inv m s"
  by (simp_all add: hold_inv_def)

lemma hold_inv_call [simp]:
  "hold_inv m (sl_call (Register b) s) = hold_inv m s" "hold_inv m (sl_call StopUnregister s) = hold_inv m s"
  "hold_inv m (sl_call ForgetRegistration s) = hold_inv m s"
  "sl_hold_until s \<le> u \<Longrightarrow> hold_inv m s \<Longrightarrow> hold_inv m (sl_call (Unregister u) s)"
  "hold_inv m s \<Longrightarrow> hold_inv m (begin_hold env s)"
  by (auto simp: hold_inv_def sl_call_def begin_hold_def intro: order_trans)

lemma hold_inv_reconcile: "hold_inv m s \<Longrightarrow> hold_inv m (reconcile env s)"
  unfolding reconcile_def Let_def by (simp split: if_split)

lemma hold_inv_stop: "hold_inv m s \<Longrightarrow> hold_inv m (sl_stop env s)"
  by (simp add: sl_stop_def Let_def hold_inv_def sl_call_def split: option.split)

lemma hold_inv_start: "hold_inv m s \<Longrightarrow> hold_inv m (sl_start sched env s)"
  by (simp add: sl_start_def Let_def hold_inv_reconcile)

lemma hold_inv_step: "sl_step sched s t \<Longrightarrow> hold_inv m s \<Longrightarrow> hold_inv m t"
  by (induction rule: sl_step.induct)
    (simp_all add: hold_inv_start hold_inv_stop hold_inv_reconcile set_needed_def set_dialing_def
      reset_after_bluez_restart_def sl_tick_def Let_def)

lemma sl_timer_frame [simp]:
  "live (sl_history (sl_call e s)) = live (sl_history s)" "sl_timer_id (sl_call e s) = sl_timer_id s"
  "sl_running (sl_call e s) = sl_running s"
  "live (sl_history (begin_hold env s)) = live (sl_history s)" "sl_timer_id (begin_hold env s) = sl_timer_id s"
  "sl_running (begin_hold env s) = sl_running s"
  "live (sl_history (reconcile env s)) = live (sl_history s)" "sl_timer_id (reconcile env s) = sl_timer_id s"
  "sl_running (reconcile env s) = sl_running s"
  by (simp_all add: sl_call_def begin_hold_def reconcile_def Let_def)

lemma sl_timer_inv_step: "sl_step sched s t \<Longrightarrow> fresh_ids sched \<Longrightarrow> sl_timer_inv s \<Longrightarrow> sl_timer_inv t"
proof (induction rule: sl_step.induct)
  case (sl_starts s env)
  then show ?case by (auto simp: sl_timer_inv_def sl_start_def Let_def)
next
  case (sl_stops s env)
  then show ?case by (auto simp: sl_timer_inv_def sl_stop_def Let_def split: option.splits)
next
  case (sl_ticks i s env)
  then show ?case by (auto simp: sl_timer_inv_def sl_tick_def)
qed (auto simp: sl_timer_inv_def set_needed_def set_dialing_def reset_after_bluez_restart_def Let_def)

interpretation solicitation_run: timer_owner "sl_started m sched" "sl_step sched"
  "\<lambda>s. fresh_ids sched \<and> sl_timer_inv s \<and> hold_inv m s" sl_history "\<lambda>s. [sl_timer_id s]"
proof
  fix s t
  show "sl_started m sched s \<Longrightarrow> fresh_ids sched \<and> sl_timer_inv s \<and> hold_inv m s"
    by (auto simp: sl_started_def sl_timer_inv_def hold_inv_def SolicitationSupervisor_init_def)
  show "fresh_ids sched \<and> sl_timer_inv s \<and> hold_inv m s \<Longrightarrow> sl_step sched s t \<Longrightarrow>
      fresh_ids sched \<and> sl_timer_inv t \<and> hold_inv m t"
    using sl_timer_inv_step hold_inv_step by blast
  show "fresh_ids sched \<and> sl_timer_inv s \<and> hold_inv m s \<Longrightarrow> live (sl_history s) = timer_set [sl_timer_id s]"
    by (simp add: sl_timer_inv_def)
qed


definition advert_at :: "bool \<Rightarrow> real \<Rightarrow> advert_env" where
  "advert_at reg now = \<lparr>is_registered = reg, is_pending = False, register_ok = True, clock = now\<rparr>"

definition demo_advert :: SolicitationSupervisor where
  "demo_advert = set_needed (advert_at True 400) False (set_needed (advert_at True 30) True
     (sl_start (\<lambda>h. Suc (top_id h)) (advert_at False 10) (SolicitationSupervisor_init True 180)))"


end
