(* ===== verification/Adapter_Class.thy ===== *)
theory Adapter_Class
  imports Prelude
begin

text \<open>
  The supervisor of the adapter's Class-of-Device (\<open>adapter_class_supervisor.py\<close>). The class that is
  read, whether it matches, the outcome of the privileged repair, whether repairs go through sudo and the
  clock are arguments of an operation. \<open>ac_log\<close> records the repair attempts and what resets the backoff;
  no operation reads it.
  The lemmas show that the live timers are the two the supervisor remembers, that quick retries are
  bounded, and that after each kind of failed repair the next attempt keeps its distance.
\<close>

definition AC_RECONCILE_SECONDS :: int where [consts_defs]: "AC_RECONCILE_SECONDS = 60"
definition FAILED_REPAIR_BACKOFF_SECONDS :: real where [consts_defs]: "FAILED_REPAIR_BACKOFF_SECONDS = 60"
definition MAX_FAILED_REPAIR_BACKOFF_SECONDS :: real where [consts_defs]: "MAX_FAILED_REPAIR_BACKOFF_SECONDS = 5 * 60"
definition SYSTEMD_RETRY_GUARD_SECONDS :: real where [consts_defs]: "SYSTEMD_RETRY_GUARD_SECONDS = 30"
definition BUSY_RETRY_SECONDS :: int where [consts_defs]: "BUSY_RETRY_SECONDS = 3"
definition MAX_BUSY_RETRIES :: nat where [consts_defs]: "MAX_BUSY_RETRIES = 5"
definition REFUSED_REPAIR_BACKOFF_SECONDS :: real where [consts_defs]: "REFUSED_REPAIR_BACKOFF_SECONDS = 15 * 60"
definition MAX_REPAIR_BACKOFF_SECONDS :: real where [consts_defs]: "MAX_REPAIR_BACKOFF_SECONDS = 6 * 60 * 60"

datatype repair_outcome = AdapterBusy | AuthorizationRefused | RepairError | Repaired bool

datatype ac_timer = TickCb | BusyRetryCb

datatype ac_event = Attempt real bool repair_outcome | BackoffReset

record AdapterClassSupervisor =
  ac_running :: bool
  ac_timer_id :: "nat option"
  ac_backoff :: real
  ac_retry_at :: "real option"
  ac_busy_retries :: nat
  ac_busy_timer_id :: "nat option"
  ac_history :: "(ac_timer, unit) eff list"
  ac_log :: "ac_event list"

text \<open>\<open>read_cod\<close>: \<open>None\<close> when reading raises; \<open>sudo\<close>: \<open>None\<close> when the detection raises.\<close>

record ac_env =
  read_cod :: "nat option option"
  cod_matches :: "nat \<Rightarrow> bool"
  outcome :: repair_outcome
  sudo :: "bool option"
  ac_clock :: real

type_synonym ac_sched = "(ac_timer, unit) eff list \<Rightarrow> nat"

definition AdapterClassSupervisor_init :: AdapterClassSupervisor where
  "AdapterClassSupervisor_init = \<lparr>ac_running = False, ac_timer_id = None, ac_backoff = 0, ac_retry_at = None,
     ac_busy_retries = 0, ac_busy_timer_id = None, ac_history = [], ac_log = []\<rparr>"

definition uses_sudo :: "ac_env \<Rightarrow> bool" where
  "uses_sudo env = (case sudo env of None \<Rightarrow> True | Some b \<Rightarrow> b)"

definition reset_backoff :: "AdapterClassSupervisor \<Rightarrow> AdapterClassSupervisor" where
  "reset_backoff s = s\<lparr>ac_backoff := 0, ac_retry_at := None, ac_busy_retries := 0, ac_log := BackoffReset # ac_log s\<rparr>"

definition defer_retry :: "ac_env \<Rightarrow> real \<Rightarrow> real \<Rightarrow> AdapterClassSupervisor \<Rightarrow> AdapterClassSupervisor" where
  "defer_retry env initial cap s =
     (let b = min (max (ac_backoff s * 2) initial) cap
      in s\<lparr>ac_backoff := b, ac_retry_at := Some (ac_clock env + b)\<rparr>)"

definition defer_failed_retry :: "ac_env \<Rightarrow> AdapterClassSupervisor \<Rightarrow> AdapterClassSupervisor" where
  "defer_failed_retry env s =
     (if \<not> uses_sudo env
      then s\<lparr>ac_backoff := 0, ac_retry_at := Some (ac_clock env + SYSTEMD_RETRY_GUARD_SECONDS)\<rparr>
      else defer_retry env FAILED_REPAIR_BACKOFF_SECONDS MAX_FAILED_REPAIR_BACKOFF_SECONDS s)"

definition retry_busy_soon :: "ac_sched \<Rightarrow> AdapterClassSupervisor \<Rightarrow> AdapterClassSupervisor option" where
  "retry_busy_soon sched s =
     (if MAX_BUSY_RETRIES \<le> ac_busy_retries s then None
      else let s1 = s\<lparr>ac_busy_retries := ac_busy_retries s + 1\<rparr>
        in Some (if ac_busy_timer_id s1 = None
           then s1\<lparr>ac_busy_timer_id := Some (sched (ac_history s1)),
                   ac_history := Schedule (sched (ac_history s1)) BUSY_RETRY_SECONDS BusyRetryCb # ac_history s1\<rparr>
           else s1))"

definition ac_attempt :: "ac_sched \<Rightarrow> ac_env \<Rightarrow> AdapterClassSupervisor \<Rightarrow> AdapterClassSupervisor" where
  "ac_attempt sched env s0 =
     (let s = s0\<lparr>ac_log := Attempt (ac_clock env) (uses_sudo env) (outcome env) # ac_log s0\<rparr>
      in case outcome env of
           AdapterBusy \<Rightarrow> (case retry_busy_soon sched s of Some s' \<Rightarrow> s' | None \<Rightarrow> defer_failed_retry env s)
         | AuthorizationRefused \<Rightarrow>
             defer_retry env REFUSED_REPAIR_BACKOFF_SECONDS MAX_REPAIR_BACKOFF_SECONDS s
         | RepairError \<Rightarrow> defer_failed_retry env s
         | Repaired ok \<Rightarrow> if ok then reset_backoff s else defer_failed_retry env s)"

definition ac_reconcile :: "ac_sched \<Rightarrow> ac_env \<Rightarrow> AdapterClassSupervisor \<Rightarrow> AdapterClassSupervisor" where
  "ac_reconcile sched env s =
     (case read_cod env of None \<Rightarrow> s | Some None \<Rightarrow> s
      | Some (Some cod) \<Rightarrow>
          if cod_matches env cod then reset_backoff s
          else if (case ac_retry_at s of None \<Rightarrow> False | Some t \<Rightarrow> ac_clock env < t) then s
          else ac_attempt sched env s)"

definition poke :: "ac_sched \<Rightarrow> ac_env \<Rightarrow> AdapterClassSupervisor \<Rightarrow> AdapterClassSupervisor" where
  "poke sched env s = (if ac_running s then ac_reconcile sched env (reset_backoff s) else s)"

definition ac_start :: "ac_sched \<Rightarrow> ac_env \<Rightarrow> AdapterClassSupervisor \<Rightarrow> AdapterClassSupervisor" where
  "ac_start sched env s =
     (if ac_running s then poke sched env s
      else let s1 = ac_reconcile sched env ((reset_backoff s)\<lparr>ac_running := True\<rparr>)
        in s1\<lparr>ac_timer_id := Some (sched (ac_history s1)),
              ac_history := Schedule (sched (ac_history s1)) AC_RECONCILE_SECONDS TickCb # ac_history s1\<rparr>)"

definition ac_cancel :: "nat option \<Rightarrow> AdapterClassSupervisor \<Rightarrow> AdapterClassSupervisor" where
  "ac_cancel t s = (case t of None \<Rightarrow> s | Some i \<Rightarrow> s\<lparr>ac_history := Cancel i # ac_history s\<rparr>)"

definition ac_stop :: "AdapterClassSupervisor \<Rightarrow> AdapterClassSupervisor" where
  "ac_stop s =
     (let s1 = ac_cancel (ac_busy_timer_id s)
                 (s\<lparr>ac_running := False, ac_busy_retries := 0, ac_busy_timer_id := None\<rparr>)
      in (ac_cancel (ac_timer_id s1) s1)\<lparr>ac_timer_id := None\<rparr>)"

definition recheck :: "ac_sched \<Rightarrow> ac_env \<Rightarrow> AdapterClassSupervisor \<Rightarrow> AdapterClassSupervisor" where
  "recheck sched env s = (if ac_running s then ac_reconcile sched env s else s)"

definition ac_tick :: "ac_sched \<Rightarrow> ac_env \<Rightarrow> nat \<Rightarrow> AdapterClassSupervisor \<Rightarrow> AdapterClassSupervisor" where
  "ac_tick sched env i s =
     (if \<not> ac_running s then s\<lparr>ac_history := Expired i # ac_history s\<rparr> else ac_reconcile sched env s)"

definition busy_retry :: "ac_sched \<Rightarrow> ac_env \<Rightarrow> nat \<Rightarrow> AdapterClassSupervisor \<Rightarrow> AdapterClassSupervisor" where
  "busy_retry sched env i s =
     (let s1 = s\<lparr>ac_busy_timer_id := None\<rparr>;
          s2 = (if ac_running s1 then ac_reconcile sched env s1 else s1)
      in s2\<lparr>ac_history := Expired i # ac_history s2\<rparr>)"

inductive ac_step :: "ac_sched \<Rightarrow> AdapterClassSupervisor \<Rightarrow> AdapterClassSupervisor \<Rightarrow> bool" for sched where
  ac_starts: "ac_step sched s (ac_start sched env s)"
| ac_pokes: "ac_step sched s (poke sched env s)"
| ac_stops: "ac_step sched s (ac_stop s)"
| ac_rechecks: "ac_step sched s (recheck sched env s)"
| ac_ticks: "i \<in> live (ac_history s) \<Longrightarrow> callback_of i (ac_history s) = Some TickCb \<Longrightarrow>
    ac_step sched s (ac_tick sched env i s)"
| ac_busy: "i \<in> live (ac_history s) \<Longrightarrow> callback_of i (ac_history s) = Some BusyRetryCb \<Longrightarrow>
    ac_step sched s (busy_retry sched env i s)"

definition ac_started :: "ac_sched \<Rightarrow> AdapterClassSupervisor \<Rightarrow> bool" where
  "ac_started sched s \<longleftrightarrow> fresh_ids sched \<and> s = AdapterClassSupervisor_init"

section \<open>Timers\<close>

text \<open>The two timers, their callbacks, and the timers \<open>X\<close> whose callbacks are running.\<close>

definition ac_owns :: "nat set \<Rightarrow> AdapterClassSupervisor \<Rightarrow> bool" where
  "ac_owns X s \<longleftrightarrow>
     live (ac_history s) = timer_set [ac_timer_id s, ac_busy_timer_id s] \<union> X \<and>
     timer_set [ac_timer_id s, ac_busy_timer_id s] \<inter> X = {} \<and>
     (\<forall>i. ac_timer_id s = Some i \<longrightarrow> ac_running s \<and> callback_of i (ac_history s) = Some TickCb) \<and>
     (\<forall>i. ac_busy_timer_id s = Some i \<longrightarrow> callback_of i (ac_history s) = Some BusyRetryCb)"

lemma ac_defer_frame [simp]:
  "ac_history (defer_retry env a b s) = ac_history s" "ac_timer_id (defer_retry env a b s) = ac_timer_id s"
  "ac_busy_timer_id (defer_retry env a b s) = ac_busy_timer_id s" "ac_running (defer_retry env a b s) = ac_running s"
  "ac_log (defer_retry env a b s) = ac_log s" "ac_busy_retries (defer_retry env a b s) = ac_busy_retries s"
  "ac_history (defer_failed_retry env s) = ac_history s" "ac_timer_id (defer_failed_retry env s) = ac_timer_id s"
  "ac_busy_timer_id (defer_failed_retry env s) = ac_busy_timer_id s"
  "ac_running (defer_failed_retry env s) = ac_running s" "ac_log (defer_failed_retry env s) = ac_log s"
  "ac_busy_retries (defer_failed_retry env s) = ac_busy_retries s"
  "ac_history (reset_backoff s) = ac_history s" "ac_timer_id (reset_backoff s) = ac_timer_id s"
  "ac_busy_timer_id (reset_backoff s) = ac_busy_timer_id s" "ac_running (reset_backoff s) = ac_running s"
  "ac_busy_retries (reset_backoff s) = 0"
  by (simp_all add: defer_retry_def defer_failed_retry_def reset_backoff_def Let_def)

lemma ac_owns_frame [simp]:
  "ac_owns X (s\<lparr>ac_log := l\<rparr>) = ac_owns X s" "ac_owns X (s\<lparr>ac_busy_retries := n\<rparr>) = ac_owns X s"
  "ac_owns X (defer_retry env a b s) = ac_owns X s" "ac_owns X (defer_failed_retry env s) = ac_owns X s"
  "ac_owns X (reset_backoff s) = ac_owns X s"
  by (simp_all add: ac_owns_def)

lemma ac_owns_arm_busy:
  "ac_owns X s \<Longrightarrow> ac_busy_timer_id s = None \<Longrightarrow> i \<notin> live (ac_history s) \<Longrightarrow>
     ac_owns X (s\<lparr>ac_busy_timer_id := Some i, ac_history := Schedule i d BusyRetryCb # ac_history s\<rparr>)"
  by (cases "ac_timer_id s") (auto simp: ac_owns_def)

lemma ac_owns_busy_soon:
  assumes "fresh_ids sched" "ac_owns X s" "retry_busy_soon sched s = Some t"
  shows "ac_owns X t \<and> ac_running t = ac_running s"
  using assms(2,3) fresh_ids_live [OF assms(1)] ac_owns_arm_busy [of X "s\<lparr>ac_busy_retries := ac_busy_retries s + 1\<rparr>"]
  by (cases "ac_busy_timer_id s") (auto simp: retry_busy_soon_def Let_def split: if_splits)

lemma ac_owns_attempt:
  assumes "fresh_ids sched" "ac_owns X s"
  shows "ac_owns X (ac_attempt sched env s) \<and> ac_running (ac_attempt sched env s) = ac_running s"
proof -
  let ?s = "s\<lparr>ac_log := Attempt (ac_clock env) (uses_sudo env) (outcome env) # ac_log s\<rparr>"
  have o: "ac_owns X ?s" using assms(2) by simp
  show ?thesis
  proof (cases "outcome env")
    case AdapterBusy
    then show ?thesis using ac_owns_busy_soon [OF assms(1) o] o
      by (cases "retry_busy_soon sched ?s") (auto simp add: ac_attempt_def Let_def)
  qed (use assms(2) in \<open>simp_all add: ac_attempt_def Let_def\<close>)
qed

lemma ac_owns_reconcile:
  assumes "fresh_ids sched" "ac_owns X s"
  shows "ac_owns X (ac_reconcile sched env s) \<and> ac_running (ac_reconcile sched env s) = ac_running s"
  using ac_owns_attempt [OF assms] assms(2) by (simp add: ac_reconcile_def split: option.split)

lemma ac_owns_poke: "fresh_ids sched \<Longrightarrow> ac_owns X s \<Longrightarrow> ac_owns X (poke sched env s)"
  by (simp add: poke_def ac_owns_reconcile)

lemma ac_owns_start:
  assumes "fresh_ids sched" "ac_owns X s" shows "ac_owns X (ac_start sched env s)"
proof (cases "ac_running s")
  case True
  with assms show ?thesis by (simp add: ac_start_def ac_owns_poke)
next
  case False
  let ?r = "(reset_backoff s)\<lparr>ac_running := True\<rparr>"
  let ?t = "ac_reconcile sched env ?r"
  have "ac_timer_id s = None" using False assms(2) by (cases "ac_timer_id s") (auto simp: ac_owns_def)
  then have "ac_owns X ?r" "ac_timer_id ?r = None" using assms(2) by (simp_all add: ac_owns_def)
  moreover have "ac_timer_id ?t = ac_timer_id ?r"
    by (simp add: ac_reconcile_def ac_attempt_def retry_busy_soon_def Let_def split: option.split repair_outcome.split)
  ultimately have t: "ac_owns X ?t" "ac_timer_id ?t = None" "ac_running ?t"
    using ac_owns_reconcile [OF assms(1)] by fastforce+
  then show ?thesis
    using False fresh_ids_live [OF assms(1), of "ac_history ?t"]
    by (cases "ac_busy_timer_id ?t") (auto simp: ac_start_def Let_def ac_owns_def)
qed

lemma ac_owns_stop: "ac_owns {} s \<Longrightarrow> ac_owns {} (ac_stop s)"
  by (cases "ac_timer_id s"; cases "ac_busy_timer_id s")
    (auto simp: ac_stop_def ac_cancel_def ac_owns_def Let_def)

lemma ac_owns_busy_retry:
  assumes "fresh_ids sched" "ac_owns {} s" "i \<in> live (ac_history s)" "callback_of i (ac_history s) = Some BusyRetryCb"
  shows "ac_owns {} (busy_retry sched env i s)"
proof -
  have i: "ac_busy_timer_id s = Some i" "ac_timer_id s \<noteq> Some i"
    using assms(2-4) by (cases "ac_timer_id s"; cases "ac_busy_timer_id s"; auto simp: ac_owns_def)+
  then have "ac_owns {i} (s\<lparr>ac_busy_timer_id := None\<rparr>)"
    using assms(2) by (cases "ac_timer_id s") (auto simp: ac_owns_def)
  from ac_owns_reconcile [OF assms(1) this] this show ?thesis
    by (auto simp: busy_retry_def Let_def ac_owns_def)
qed

lemma ac_owns_step: "ac_step sched s t \<Longrightarrow> fresh_ids sched \<Longrightarrow> ac_owns {} s \<Longrightarrow> ac_owns {} t"
proof (induction rule: ac_step.induct)
  case (ac_ticks i s env)
  then have "ac_running s" by (cases "ac_timer_id s"; cases "ac_busy_timer_id s"; auto simp: ac_owns_def)
  with ac_ticks show ?case by (simp add: ac_tick_def ac_owns_reconcile)
qed (simp_all add: ac_owns_start ac_owns_poke ac_owns_stop ac_owns_busy_retry recheck_def ac_owns_reconcile)

section \<open>Backoff\<close>

text \<open>What the outcome of an attempt at \<open>u\<close> demands of a next attempt at \<open>t\<close>.\<close>

fun separated :: "bool \<Rightarrow> repair_outcome \<Rightarrow> real \<Rightarrow> real \<Rightarrow> bool" where
  "separated via_sudo AuthorizationRefused u t = (u + 900 \<le> t)"
| "separated via_sudo AdapterBusy u t = True"
| "separated via_sudo RepairError u t = (u + (if via_sudo then 60 else 30) \<le> t)"
| "separated via_sudo (Repaired ok) u t = (ok \<or> u + (if via_sudo then 60 else 30) \<le> t)"

text \<open>Two attempts with no reset of the backoff in between are that far apart (newest first).\<close>

fun paced :: "ac_event list \<Rightarrow> bool" where
  "paced (Attempt t b' oc' # Attempt u b oc # l) = (separated b oc u t \<and> paced (Attempt u b oc # l))"
| "paced (e # l) = paced l"
| "paced [] = True"

definition may_attempt :: "AdapterClassSupervisor \<Rightarrow> real \<Rightarrow> bool" where
  "may_attempt s t \<longleftrightarrow> (case ac_retry_at s of None \<Rightarrow> True | Some r \<Rightarrow> r \<le> t)"

definition pace_inv :: "AdapterClassSupervisor \<Rightarrow> bool" where
  "pace_inv s \<longleftrightarrow> paced (ac_log s) \<and> 0 \<le> ac_backoff s \<and> ac_backoff s \<le> MAX_REPAIR_BACKOFF_SECONDS \<and>
     ac_busy_retries s \<le> MAX_BUSY_RETRIES \<and>
     (\<forall>u b oc l t. ac_log s = Attempt u b oc # l \<longrightarrow> may_attempt s t \<longrightarrow> separated b oc u t)"

lemma may_attempt_frame [simp]:
  "may_attempt (s\<lparr>ac_running := r\<rparr>) = may_attempt s" "may_attempt (s\<lparr>ac_history := h\<rparr>) = may_attempt s"
  "may_attempt (s\<lparr>ac_timer_id := i\<rparr>) = may_attempt s" "may_attempt (s\<lparr>ac_busy_timer_id := i\<rparr>) = may_attempt s"
  "may_attempt (s\<lparr>ac_busy_retries := n\<rparr>) = may_attempt s" "may_attempt (s\<lparr>ac_log := l\<rparr>) = may_attempt s"
  by (simp_all add: may_attempt_def fun_eq_iff)

lemma pace_inv_frame [simp]:
  "pace_inv (s\<lparr>ac_running := r\<rparr>) = pace_inv s" "pace_inv (s\<lparr>ac_history := h\<rparr>) = pace_inv s"
  "pace_inv (s\<lparr>ac_timer_id := i\<rparr>) = pace_inv s" "pace_inv (s\<lparr>ac_busy_timer_id := i\<rparr>) = pace_inv s"
  "pace_inv (ac_cancel i s) = pace_inv s"
  by (simp_all add: pace_inv_def ac_cancel_def split: option.split)

lemma pace_inv_reset [simp]: "pace_inv s \<Longrightarrow> pace_inv (reset_backoff s)"
  by (simp add: pace_inv_def reset_backoff_def consts_defs)

lemma paced_attempt:
  "pace_inv s \<Longrightarrow> may_attempt s t \<Longrightarrow> paced (Attempt t b o' # ac_log s)"
proof (cases "ac_log s")
  case (Cons e l)
  assume "pace_inv s" "may_attempt s t"
  with Cons show ?thesis by (cases e) (auto simp: pace_inv_def)
qed simp

lemma pace_inv_failed:
  assumes "paced (ac_log s)" "0 \<le> ac_backoff s" "ac_backoff s \<le> MAX_REPAIR_BACKOFF_SECONDS"
    "ac_busy_retries s \<le> MAX_BUSY_RETRIES"
    and "ac_log s = Attempt (ac_clock env) (uses_sudo env) o' # l" "o' \<noteq> AuthorizationRefused"
  shows "pace_inv (defer_failed_retry env s)"
  using assms by (cases o') (auto simp: pace_inv_def defer_failed_retry_def defer_retry_def Let_def may_attempt_def
      consts_defs split: if_splits)

lemma pace_inv_refused:
  assumes "paced (ac_log s)" "0 \<le> ac_backoff s" "ac_busy_retries s \<le> MAX_BUSY_RETRIES"
    and "ac_log s = Attempt (ac_clock env) b AuthorizationRefused # l"
  shows "pace_inv (defer_retry env REFUSED_REPAIR_BACKOFF_SECONDS MAX_REPAIR_BACKOFF_SECONDS s)"
  using assms by (auto simp: pace_inv_def defer_retry_def Let_def may_attempt_def consts_defs)

lemma pace_inv_attempt:
  assumes "pace_inv s" "may_attempt s (ac_clock env)"
  shows "pace_inv (ac_attempt sched env s)"
proof -
  let ?s = "s\<lparr>ac_log := Attempt (ac_clock env) (uses_sudo env) (outcome env) # ac_log s\<rparr>"
  have p: "paced (ac_log ?s)" using paced_attempt [OF assms] by simp
  from assms(1) have b: "0 \<le> ac_backoff ?s" "ac_backoff ?s \<le> MAX_REPAIR_BACKOFF_SECONDS"
    "ac_busy_retries ?s \<le> MAX_BUSY_RETRIES" by (simp_all add: pace_inv_def)
  show ?thesis
  proof (cases "outcome env")
    case AdapterBusy
    have "pace_inv (defer_failed_retry env ?s)" using AdapterBusy p b by (intro pace_inv_failed) auto
    moreover have "pace_inv t" if "retry_busy_soon sched ?s = Some t" for t
      using that p b AdapterBusy by (auto simp: retry_busy_soon_def pace_inv_def Let_def split: if_splits)
    ultimately show ?thesis using AdapterBusy
      by (cases "retry_busy_soon sched ?s") (auto simp: ac_attempt_def Let_def)
  next
    case AuthorizationRefused
    then show ?thesis using p b pace_inv_refused [of ?s env] by (simp add: ac_attempt_def Let_def)
  next
    case RepairError
    then show ?thesis using p b pace_inv_failed [of ?s env RepairError] by (simp add: ac_attempt_def Let_def)
  next
    case (Repaired ok)
    then show ?thesis using p b pace_inv_failed [of ?s env "Repaired ok"]
      by (auto simp: ac_attempt_def Let_def pace_inv_def reset_backoff_def)
  qed
qed

lemma pace_inv_reconcile: "pace_inv s \<Longrightarrow> pace_inv (ac_reconcile sched env s)"
  by (auto simp: ac_reconcile_def may_attempt_def intro!: pace_inv_attempt split: option.split)

lemma pace_inv_stop: "pace_inv s \<Longrightarrow> pace_inv (ac_stop s)"
  by (simp add: ac_stop_def Let_def) (simp add: pace_inv_def)

lemma pace_inv_step: "ac_step sched s t \<Longrightarrow> pace_inv s \<Longrightarrow> pace_inv t"
  by (induction rule: ac_step.induct)
    (simp_all add: ac_start_def poke_def recheck_def ac_tick_def busy_retry_def Let_def pace_inv_reconcile pace_inv_stop)

interpretation adapter_class_run: timer_owner "ac_started sched" "ac_step sched"
  "\<lambda>s. fresh_ids sched \<and> ac_owns {} s \<and> pace_inv s" ac_history "\<lambda>s. [ac_timer_id s, ac_busy_timer_id s]"
proof
  fix s t
  show "ac_started sched s \<Longrightarrow> fresh_ids sched \<and> ac_owns {} s \<and> pace_inv s"
    by (auto simp: ac_started_def AdapterClassSupervisor_init_def ac_owns_def pace_inv_def consts_defs)
  show "fresh_ids sched \<and> ac_owns {} s \<and> pace_inv s \<Longrightarrow> ac_step sched s t \<Longrightarrow>
      fresh_ids sched \<and> ac_owns {} t \<and> pace_inv t"
    using ac_owns_step pace_inv_step by blast
  show "fresh_ids sched \<and> ac_owns {} s \<and> pace_inv s \<Longrightarrow>
      live (ac_history s) = timer_set [ac_timer_id s, ac_busy_timer_id s]"
    by (simp add: ac_owns_def)
qed


definition refused_at :: "real \<Rightarrow> ac_env" where
  "refused_at t = \<lparr>read_cod = Some (Some 0), cod_matches = (\<lambda>_. False), outcome = AuthorizationRefused,
     sudo = Some True, ac_clock = t\<rparr>"

definition demo_refused :: AdapterClassSupervisor where
  "demo_refused = recheck (\<lambda>h. Suc (top_id h)) (refused_at 1000) (recheck (\<lambda>h. Suc (top_id h)) (refused_at 60)
     (ac_start (\<lambda>h. Suc (top_id h)) (refused_at 0) AdapterClassSupervisor_init))"


end
