(* ===== verification/Read_Receipts.thy ===== *)
theory Read_Receipts
  imports Prelude
begin

text \<open>
  The queue of deferred read acknowledgements (\<open>read_receipts.py\<close>). MAP session objects are compared
  by identity, so they are numbers here; what the session manager currently holds, whether the worker
  accepts the write and the clock are arguments. The history records deferrals and submissions.
  The lemmas show that a receipt is submitted only after its grace period, that the queue is bounded,
  that pending receipts always have a live timer behind them, and that the worker's write loop stops
  at the first message after the session has gone.
\<close>

definition READ_RECEIPT_DELAY_SECONDS :: real where [consts_defs]: "READ_RECEIPT_DELAY_SECONDS = 5"
definition MAX_PENDING_READ_RECEIPTS :: nat where [consts_defs]: "MAX_PENDING_READ_RECEIPTS = 2000"

datatype receipt_call = Deferred pystr real | Submitted "pystr list" real | Rejected

record ReadReceiptQueue =
  rq_pending :: "(pystr \<times> real) list"
  rq_session :: "nat option"
  rq_session_path :: pystr
  rq_timer :: "nat option"
  rq_closed :: bool
  rq_history :: "(unit, receipt_call) eff list"

record rq_env =
  map_now :: "nat option"
  map_path_now :: pystr
  submit_ok :: bool
  rq_clock :: real

type_synonym rq_sched = "(unit, receipt_call) eff list \<Rightarrow> nat"

definition ReadReceiptQueue_init :: ReadReceiptQueue where
  "ReadReceiptQueue_init = \<lparr>rq_pending = [], rq_session = None, rq_session_path = [], rq_timer = None,
     rq_closed = False, rq_history = []\<rparr>"

definition arm_delay :: "real \<Rightarrow> (pystr \<times> real) list \<Rightarrow> int" where
  "arm_delay now pending = max 1 \<lceil>Min (snd ` set pending) - now\<rceil>"

definition arm :: "rq_sched \<Rightarrow> rq_env \<Rightarrow> ReadReceiptQueue \<Rightarrow> ReadReceiptQueue" where
  "arm sched env s =
     (if \<not> rq_closed s \<and> rq_pending s \<noteq> [] \<and> rq_timer s = None
      then s\<lparr>rq_timer := Some (sched (rq_history s)),
             rq_history := Schedule (sched (rq_history s)) (arm_delay (rq_clock env) (rq_pending s)) () # rq_history s\<rparr>
      else s)"

fun defer_handles :: "real \<Rightarrow> pystr list \<Rightarrow> ReadReceiptQueue \<Rightarrow> ReadReceiptQueue" where
  "defer_handles now [] s = s"
| "defer_handles now (handle # handles) s =
     (if handle \<noteq> [] \<and> handle \<notin> fst ` set (rq_pending s)
      then if MAX_PENDING_READ_RECEIPTS \<le> length (rq_pending s) then s
           else defer_handles now handles
                  (s\<lparr>rq_pending := al_set handle (now + READ_RECEIPT_DELAY_SECONDS) (rq_pending s),
                     rq_history := Call (Deferred handle now) # rq_history s\<rparr>)
      else defer_handles now handles s)"

definition defer_receipts :: "rq_sched \<Rightarrow> rq_env \<Rightarrow> pystr \<Rightarrow> pystr list \<Rightarrow> ReadReceiptQueue \<Rightarrow> ReadReceiptQueue" where
  "defer_receipts sched env session_path handles s =
     (if rq_closed s \<or> map_now env = None \<or> session_path \<noteq> map_path_now env then s
      else let s1 = (if rq_session s \<noteq> map_now env \<or> rq_session_path s \<noteq> session_path
                     then s\<lparr>rq_pending := [], rq_session := map_now env, rq_session_path := session_path\<rparr> else s)
        in arm sched env (defer_handles (rq_clock env) handles s1))"

text \<open>\<open>message_path.rpartition("/")\<close>: what is before and after the last slash.\<close>

definition rpartition_slash :: "pystr \<Rightarrow> pystr \<times> pystr" where
  "rpartition_slash p =
     (if 47 \<in> set p
      then (rev (drop 1 (dropWhile (\<lambda>c. c \<noteq> 47) (rev p))), rev (takeWhile (\<lambda>c. c \<noteq> 47) (rev p)))
      else ([], p))"

definition defer_path :: "rq_sched \<Rightarrow> rq_env \<Rightarrow> pystr \<Rightarrow> ReadReceiptQueue \<Rightarrow> ReadReceiptQueue" where
  "defer_path sched env message_path s =
     (let (session_path, handle) = rpartition_slash message_path in defer_receipts sched env session_path [handle] s)"

definition due :: "real \<Rightarrow> (pystr \<times> real) list \<Rightarrow> pystr list" where
  "due now pending = map fst (filter (\<lambda>(h, deadline). deadline \<le> now) pending)"

definition flush :: "rq_sched \<Rightarrow> rq_env \<Rightarrow> ReadReceiptQueue \<Rightarrow> ReadReceiptQueue" where
  "flush sched env s0 =
     (let s = s0\<lparr>rq_timer := None\<rparr>
      in if rq_closed s \<or> map_now env \<noteq> rq_session s \<or> map_path_now env \<noteq> rq_session_path s
         then s\<lparr>rq_pending := []\<rparr>
         else let handles = due (rq_clock env) (rq_pending s)
           in if handles = [] then arm sched env s
              else arm sched env
                (if submit_ok env
                 then s\<lparr>rq_history := Call (Submitted handles (rq_clock env)) # rq_history s,
                        rq_pending := filter (\<lambda>p. fst p \<notin> set handles) (rq_pending s)\<rparr>
                 else s\<lparr>rq_history := Call Rejected # rq_history s\<rparr>))"

definition rq_close :: "ReadReceiptQueue \<Rightarrow> ReadReceiptQueue" where
  "rq_close s =
     (let s1 = s\<lparr>rq_closed := True, rq_pending := []\<rparr>
      in case rq_timer s1 of None \<Rightarrow> s1
         | Some i \<Rightarrow> s1\<lparr>rq_history := Cancel i # rq_history s1, rq_timer := None\<rparr>)"

text \<open>
  The loop on the worker: before each message it looks at the queue and the session manager again;
  \<open>seen\<close> are these observations (closed, session, path), in order. The result is the messages written.
\<close>

fun write_receipts :: "nat option \<Rightarrow> pystr \<Rightarrow> pystr list \<Rightarrow> (bool \<times> nat option \<times> pystr) list \<Rightarrow> pystr list" where
  "write_receipts session session_path [] seen = []"
| "write_receipts session session_path (h # hs) [] = []"
| "write_receipts session session_path (h # hs) ((shut, cur, path) # seen) =
     (if shut \<or> cur \<noteq> session \<or> path \<noteq> session_path then [] else h # write_receipts session session_path hs seen)"

inductive rq_step :: "rq_sched \<Rightarrow> ReadReceiptQueue \<Rightarrow> ReadReceiptQueue \<Rightarrow> bool" for sched where
  rq_defer: "rq_step sched s (defer_receipts sched env session_path handles s)"
| rq_defer_path: "rq_step sched s (defer_path sched env message_path s)"
| rq_flush: "i \<in> live (rq_history s) \<Longrightarrow> t = flush sched env s \<Longrightarrow>
    rq_step sched s (t\<lparr>rq_history := Expired i # rq_history t\<rparr>)"
| rq_closing: "rq_step sched s (rq_close s)"

definition rq_started :: "rq_sched \<Rightarrow> ReadReceiptQueue \<Rightarrow> bool" where
  "rq_started sched s \<longleftrightarrow> fresh_ids sched \<and> s = ReadReceiptQueue_init"

section \<open>Timers and liveness\<close>

definition rq_owns :: "nat set \<Rightarrow> ReadReceiptQueue \<Rightarrow> bool" where
  "rq_owns X s \<longleftrightarrow> live (rq_history s) = timer_set [rq_timer s] \<union> X \<and> timer_set [rq_timer s] \<inter> X = {}"

definition rq_wake :: "ReadReceiptQueue \<Rightarrow> bool" where
  "rq_wake s \<longleftrightarrow> (rq_pending s \<noteq> [] \<longrightarrow> rq_timer s \<noteq> None \<and> \<not> rq_closed s)"

lemma rq_owns_frame [simp]:
  "rq_owns X (s\<lparr>rq_pending := p\<rparr>) = rq_owns X s" "rq_owns X (s\<lparr>rq_session := m\<rparr>) = rq_owns X s"
  "rq_owns X (s\<lparr>rq_session_path := q\<rparr>) = rq_owns X s" "rq_owns X (s\<lparr>rq_closed := b\<rparr>) = rq_owns X s"
  "rq_owns X (s\<lparr>rq_history := Call e # rq_history s\<rparr>) = rq_owns X s"
  "rq_owns X (s\<lparr>rq_history := Call e # rq_history s, rq_pending := p\<rparr>) = rq_owns X s"
  "rq_owns X (s\<lparr>rq_pending := p, rq_history := Call e # rq_history s\<rparr>) = rq_owns X s"
  by (simp_all add: rq_owns_def)

lemma defer_handles_frame [simp]:
  "rq_owns X (defer_handles now hs s) = rq_owns X s" "rq_closed (defer_handles now hs s) = rq_closed s"
  "rq_timer (defer_handles now hs s) = rq_timer s"
  by (induction now hs s rule: defer_handles.induct) simp_all

lemma rq_owns_arm: "fresh_ids sched \<Longrightarrow> rq_owns X s \<Longrightarrow> rq_owns X (arm sched env s)"
  using fresh_ids_live [of sched "rq_history s"] by (auto simp: arm_def rq_owns_def)

lemma rq_wake_arm: "\<not> rq_closed s \<Longrightarrow> rq_wake (arm sched env s)"
  by (auto simp: arm_def rq_wake_def)

lemma rq_inv_defer:
  "fresh_ids sched \<Longrightarrow> rq_owns X s \<Longrightarrow> rq_wake s \<Longrightarrow>
     rq_owns X (defer_receipts sched env p hs s) \<and> rq_wake (defer_receipts sched env p hs s)"
  by (simp add: defer_receipts_def Let_def rq_owns_arm rq_wake_arm)

lemma rq_inv_flush:
  assumes "fresh_ids sched" "rq_owns {} s" "rq_timer s = Some i"
  shows "rq_owns {i} (flush sched env s) \<and> rq_wake (flush sched env s)"
proof -
  have "rq_owns {i} (s\<lparr>rq_timer := None\<rparr>)" using assms(2,3) by (simp add: rq_owns_def)
  moreover from this have "rq_owns {i} (s\<lparr>rq_timer := None, rq_history := Call e # rq_history s, rq_pending := p\<rparr>)"
    "rq_owns {i} (s\<lparr>rq_timer := None, rq_history := Call e # rq_history s\<rparr>)" for e p by (simp_all add: rq_owns_def)
  ultimately show ?thesis
    by (simp add: flush_def Let_def rq_owns_arm [OF assms(1)] rq_wake_arm) (simp add: rq_wake_def)
qed

lemma rq_inv_step:
  "rq_step sched s t \<Longrightarrow> fresh_ids sched \<Longrightarrow> rq_owns {} s \<Longrightarrow> rq_wake s \<Longrightarrow> rq_owns {} t \<and> rq_wake t"
proof (induction rule: rq_step.induct)
  case (rq_flush i s t env)
  then have "rq_timer s = Some i" by (cases "rq_timer s") (auto simp: rq_owns_def)
  with rq_inv_flush rq_flush have "rq_owns {i} t \<and> rq_wake t" by blast
  then show ?case by (auto simp: rq_owns_def rq_wake_def)
next
  case (rq_closing s)
  then show ?case by (auto simp: rq_close_def Let_def rq_owns_def rq_wake_def split: option.split)
qed (simp_all add: rq_inv_defer defer_path_def split: prod.split)

section \<open>Grace period and bounds\<close>

text \<open>Every submitted message was deferred at least the grace period before (newest call first).\<close>

fun graced :: "receipt_call list \<Rightarrow> bool" where
  "graced [] = True"
| "graced (Submitted hs now # l) =
     ((\<forall>h \<in> set hs. \<exists>t. Deferred h t \<in> set l \<and> t + READ_RECEIPT_DELAY_SECONDS \<le> now) \<and> graced l)"
| "graced (_ # l) = graced l"

definition rq_grace :: "ReadReceiptQueue \<Rightarrow> bool" where
  "rq_grace s \<longleftrightarrow> graced (calls (rq_history s)) \<and>
     (\<forall>(h, d) \<in> set (rq_pending s). h \<noteq> [] \<and>
        (\<exists>t. Deferred h t \<in> set (calls (rq_history s)) \<and> d = t + READ_RECEIPT_DELAY_SECONDS)) \<and>
     distinct (map fst (rq_pending s)) \<and> length (rq_pending s) \<le> MAX_PENDING_READ_RECEIPTS"

lemma al_set_new: "k \<notin> fst ` set xs \<Longrightarrow> al_set k v xs = xs @ [(k, v)]"
  by (induction k v xs rule: al_set.induct) auto

lemma rq_grace_defer_handles: "rq_grace s \<Longrightarrow> rq_grace (defer_handles now hs s)"
proof (induction now hs s rule: defer_handles.induct)
  case (2 now h hs s)
  have "rq_grace (s\<lparr>rq_pending := rq_pending s @ [(h, now + READ_RECEIPT_DELAY_SECONDS)],
      rq_history := Call (Deferred h now) # rq_history s\<rparr>)"
    if "h \<noteq> []" "h \<notin> fst ` set (rq_pending s)" "\<not> MAX_PENDING_READ_RECEIPTS \<le> length (rq_pending s)"
    using 2(3) that by (auto simp: rq_grace_def)
  with 2 show ?case by (simp add: al_set_new)
qed simp

lemma rq_grace_frame [simp]:
  "rq_grace (s\<lparr>rq_timer := tm\<rparr>) = rq_grace s" "rq_grace (s\<lparr>rq_session := m\<rparr>) = rq_grace s"
  "rq_grace (s\<lparr>rq_session_path := q\<rparr>) = rq_grace s" "rq_grace (s\<lparr>rq_closed := b\<rparr>) = rq_grace s"
  "rq_grace (s\<lparr>rq_history := Cancel i # rq_history s\<rparr>) = rq_grace s"
  "rq_grace (s\<lparr>rq_history := Expired i # rq_history s\<rparr>) = rq_grace s"
  "rq_grace (s\<lparr>rq_history := Call Rejected # rq_history s\<rparr>) = rq_grace s"
  "rq_grace (s\<lparr>rq_timer := tm, rq_history := Call Rejected # rq_history s\<rparr>) = rq_grace s"
  "rq_grace (arm sched env s) = rq_grace s"
  "rq_grace s \<Longrightarrow> rq_grace (s\<lparr>rq_pending := []\<rparr>)"
  by (auto simp: rq_grace_def arm_def)

lemma rq_grace_submit:
  assumes "rq_grace s" and "hs = due now (rq_pending s)"
  shows "rq_grace (s\<lparr>rq_history := Call (Submitted hs now) # rq_history s,
    rq_pending := filter (\<lambda>p. fst p \<notin> set hs) (rq_pending s)\<rparr>)"
proof -
  have "\<exists>t. Deferred h t \<in> set (calls (rq_history s)) \<and> t + READ_RECEIPT_DELAY_SECONDS \<le> now" if "h \<in> set hs" for h
    using assms that by (fastforce simp: rq_grace_def due_def)
  moreover have "length (filter (\<lambda>p. fst p \<notin> set hs) (rq_pending s)) \<le> MAX_PENDING_READ_RECEIPTS"
    by (rule order_trans [OF length_filter_le]) (use assms(1) in \<open>simp add: rq_grace_def\<close>)
  ultimately show ?thesis using assms(1) by (auto simp: rq_grace_def distinct_map_filter)
qed

lemma rq_grace_flush: "rq_grace s \<Longrightarrow> rq_grace (flush sched env s)"
  using rq_grace_submit [of "s\<lparr>rq_timer := None\<rparr>" _ "rq_clock env"] by (simp add: flush_def Let_def)

lemma rq_grace_close: "rq_grace s \<Longrightarrow> rq_grace (rq_close s)"
  by (auto simp: rq_close_def Let_def rq_grace_def split: option.split)

lemma rq_grace_defer: "rq_grace s \<Longrightarrow> rq_grace (defer_receipts sched env p hs s)"
  by (simp add: defer_receipts_def Let_def rq_grace_defer_handles)

lemma rq_grace_step: "rq_step sched s t \<Longrightarrow> rq_grace s \<Longrightarrow> rq_grace t"
  by (induction rule: rq_step.induct)
    (simp_all add: rq_grace_defer rq_grace_flush rq_grace_close defer_path_def split: prod.split)

interpretation receipts_run: timer_owner "rq_started sched" "rq_step sched"
  "\<lambda>s. fresh_ids sched \<and> rq_owns {} s \<and> rq_wake s \<and> rq_grace s" rq_history "\<lambda>s. [rq_timer s]"
proof
  fix s t
  show "rq_started sched s \<Longrightarrow> fresh_ids sched \<and> rq_owns {} s \<and> rq_wake s \<and> rq_grace s"
    by (auto simp: rq_started_def ReadReceiptQueue_init_def rq_owns_def rq_wake_def rq_grace_def)
  show "fresh_ids sched \<and> rq_owns {} s \<and> rq_wake s \<and> rq_grace s \<Longrightarrow> rq_step sched s t \<Longrightarrow>
      fresh_ids sched \<and> rq_owns {} t \<and> rq_wake t \<and> rq_grace t"
    using rq_inv_step rq_grace_step by blast
  show "fresh_ids sched \<and> rq_owns {} s \<and> rq_wake s \<and> rq_grace s \<Longrightarrow> live (rq_history s) = timer_set [rq_timer s]"
    by (simp add: rq_owns_def)
qed

text \<open>
  C39: a read receipt reaches the worker only after its grace period: in every run each submitted message
  was deferred at least five seconds before, so that ANCS can still fetch its metadata. At most 2000
  distinct messages are pending, and while any is pending a live timer will flush the queue.
\<close>

theorem receipts_wait_grace:
  assumes "reachable (rq_started sched) (rq_step sched) s"
  shows "graced (calls (rq_history s)) \<and> distinct (map fst (rq_pending s)) \<and>
    length (rq_pending s) \<le> MAX_PENDING_READ_RECEIPTS \<and>
    (rq_pending s \<noteq> [] \<longrightarrow> (\<exists>i \<in> live (rq_history s). rq_timer s = Some i))"
proof -
  from receipts_run.reachable_inv [OF assms] have "rq_owns {} s" "rq_wake s" "rq_grace s" by simp_all
  then show ?thesis by (auto simp: rq_grace_def rq_owns_def rq_wake_def)
qed

definition receipts_at :: "real \<Rightarrow> rq_env" where
  "receipts_at t = \<lparr>map_now = Some 7, map_path_now = lit ''/s'', submit_ok = True, rq_clock = t\<rparr>"

definition demo_receipts :: ReadReceiptQueue where
  "demo_receipts = (let sc = (\<lambda>h. Suc (top_id h));
     t = flush sc (receipts_at 5) (defer_path sc (receipts_at 0) (lit ''/s/m1'') ReadReceiptQueue_init)
   in t\<lparr>rq_history := Expired 1 # rq_history t\<rparr>)"

theorem receipts_wait_grace_witness:
  "Submitted [lit ''m1''] 5 \<in> set (calls (rq_history demo_receipts)) \<and> graced (calls (rq_history demo_receipts))"
proof -
  let ?sc = "\<lambda>h. Suc (top_id h)" and ?d = "defer_path (\<lambda>h. Suc (top_id h)) (receipts_at 0) (lit ''/s/m1'') ReadReceiptQueue_init"
  have 0: "reachable (rq_started ?sc) (rq_step ?sc) ReadReceiptQueue_init"
    by (rule reachable.start) (simp add: rq_started_def fresh_ids_top)
  have d: "reachable (rq_started ?sc) (rq_step ?sc) ?d"
    by (rule reachable.next_state [OF 0]) (rule rq_step.rq_defer_path)
  have "1 \<in> live (rq_history ?d)"
    by (simp add: defer_path_def rpartition_slash_def defer_receipts_def receipts_at_def lit_def arm_def
        ReadReceiptQueue_init_def Let_def consts_defs)
  then have "rq_step ?sc ?d demo_receipts"
    unfolding demo_receipts_def Let_def by (rule rq_step.rq_flush) (rule refl)
  with d have r: "reachable (rq_started ?sc) (rq_step ?sc) demo_receipts" by (rule reachable.next_state)
  have "Submitted [lit ''m1''] 5 \<in> set (calls (rq_history demo_receipts))"
    by (simp add: demo_receipts_def flush_def due_def defer_path_def rpartition_slash_def defer_receipts_def receipts_at_def lit_def arm_def
        ReadReceiptQueue_init_def Let_def consts_defs)
  with receipts_wait_grace [OF r] show ?thesis by simp
qed

text \<open>The worker writes a prefix of the messages, each while the session was still the same.\<close>

lemma write_receipts_prefix:
  "\<exists>n. write_receipts m p hs seen = take n hs \<and> n \<le> length seen \<and> (\<forall>x \<in> set (take n seen). x = (False, m, p))"
proof (induction m p hs seen rule: write_receipts.induct)
  case (3 m p h hs shut cur path seen)
  show ?case
  proof (cases "shut \<or> cur \<noteq> m \<or> path \<noteq> p")
    case True
    then show ?thesis by (auto intro: exI [of _ 0])
  next
    case False
    with 3 obtain n where "write_receipts m p hs seen = take n hs" "n \<le> length seen"
      "\<forall>x \<in> set (take n seen). x = (False, m, p)" by blast
    with False show ?thesis by (auto intro!: exI [of _ "Suc n"])
  qed
qed auto

end
