(* ===== verification/Call_Model.thy ===== *)
theory Call_Model
  imports Prelude "HOL-Library.Product_Lexorder" "HOL-Library.List_Lexorder"
begin

text \<open>
  Parsing of oFono's properties, choice of the modem and validation of what a client wants dialled
  (\<open>calls/model.py\<close>). Values that arrive over D-Bus are untyped (\<open>pyval\<close>); the Unicode category test,
  case folding and upper-casing are parameters. The lemmas show that a dialled number is digits with an
  optional plus and never an emergency number, that every call record is well-formed whatever oFono
  sends, and that the choice of a modem is the best candidate independently of the order.
\<close>

section \<open>Values and texts\<close>

text \<open>What a property can be: a string, \<open>True\<close> or \<open>False\<close>, a \<open>dbus.Boolean\<close>, a number, a list, a mapping.\<close>

datatype pyval = VStr pystr | VBool bool | VDbusBoolean bool | VInt int | VList "pyval list"
  | VDict "(pystr \<times> pyval) list" | VNone

definition MAX_DIAL_DIGITS :: nat where [consts_defs]: "MAX_DIAL_DIGITS = 32"
definition MAX_DTMF_TONES :: nat where [consts_defs]: "MAX_DTMF_TONES = 32"
definition MAX_CALL_ID_CHARS :: nat where [consts_defs]: "MAX_CALL_ID_CHARS = 64"

definition is_digit :: "nat \<Rightarrow> bool" where
  "is_digit c \<longleftrightarrow> 48 \<le> c \<and> c \<le> 57"

definition is_word :: "nat \<Rightarrow> bool" where
  "is_word c \<longleftrightarrow> is_digit c \<or> 65 \<le> c \<and> c \<le> 90 \<or> 97 \<le> c \<and> c \<le> 122 \<or> c = 95"

text \<open>\<open>control\<close>: the code points of the categories Cc, Cf, Zl and Zp.\<close>

definition remote_text :: "(nat \<Rightarrow> bool) \<Rightarrow> nat \<Rightarrow> pyval \<Rightarrow> pystr" where
  "remote_text control limit v =
     (case v of
        VStr s \<Rightarrow>
          let cleaned = map (\<lambda>c. if control c then 32 else c) (take (limit * 4) s)
          in take limit (py_join [32] (py_split cleaned))
      | _ \<Rightarrow> [])"

definition bool_value :: "pyval \<Rightarrow> bool" where
  "bool_value v = (case v of VBool b \<Rightarrow> b | VDbusBoolean b \<Rightarrow> b | _ \<Rightarrow> False)"

definition object_path_re :: "pystr \<Rightarrow> bool" where
  "object_path_re s \<longleftrightarrow>
     (case s of [] \<Rightarrow> False
      | c # r \<Rightarrow> c = 47 \<and> (r = [] \<or> (\<forall>w \<in> set (split_on 47 r). w \<noteq> [] \<and> (\<forall>x \<in> set w. is_word x))))"

definition valid_object_path :: "pyval \<Rightarrow> bool" where
  "valid_object_path v = (case v of VStr s \<Rightarrow> length s \<le> 255 \<and> object_path_re s | _ \<Rightarrow> False)"

definition call_id_re :: "pystr \<Rightarrow> bool" where
  "call_id_re s \<longleftrightarrow> 1 \<le> length s \<and> length s \<le> MAX_CALL_ID_CHARS \<and> (\<forall>c \<in> set s. is_word c)"

definition last_segment :: "pystr \<Rightarrow> pystr" where
  "last_segment s = rev (takeWhile (\<lambda>c. c \<noteq> 47) (dropWhile (\<lambda>c. c = 47) (rev s)))"

definition call_id_from_path :: "pyval \<Rightarrow> pystr option" where
  "call_id_from_path v =
     (if \<not> valid_object_path v then None
      else case v of
        VStr s \<Rightarrow> (if call_id_re (last_segment s) then Some (last_segment s) else None)
      | _ \<Rightarrow> None)"

section \<open>Input of local clients\<close>

datatype call_error = Call_identifier_invalid | Phone_number_invalid | Service_codes | Only_digits
  | Emergency_number | Dtmf_invalid | Dtmf_characters

definition validate_call_id :: "pystr \<Rightarrow> call_error + pystr" where
  "validate_call_id v =
     (if call_id_re (py_strip v) then Inr (py_strip v) else Inl Call_identifier_invalid)"

definition EMERGENCY_NUMBERS :: "pystr list" where
  "EMERGENCY_NUMBERS = map lit [
    ''000'', ''061'', ''062'', ''08'', ''091'', ''092'', ''100'', ''101'', ''102'', ''103'',
    ''104'', ''105'', ''107'', ''108'', ''110'', ''111'', ''112'', ''113'', ''114'', ''115'',
    ''116'', ''117'', ''118'', ''119'', ''120'', ''122'', ''123'', ''125'', ''131'', ''132'',
    ''133'', ''140'', ''144'', ''15'', ''150'', ''155'', ''158'', ''166'', ''17'', ''18'',
    ''180'', ''190'', ''191'', ''192'', ''193'', ''199'', ''911'', ''995'', ''997'', ''998'',
    ''999'', ''1122'', ''1414'', ''1530'', ''1669'', ''10111'', ''10177'']"

definition dial_separator :: "nat \<Rightarrow> bool" where
  "dial_separator c \<longleftrightarrow> py_isspace c \<or> c \<in> set (lit ''-.()/'')"

definition strip_separators :: "pystr \<Rightarrow> pystr" where
  "strip_separators s = filter (\<lambda>c. \<not> dial_separator c) s"

definition dial_re :: "pystr \<Rightarrow> bool" where
  "dial_re s \<longleftrightarrow>
     (let d = (case s of [] \<Rightarrow> [] | c # r \<Rightarrow> if c = 43 then r else s)
      in 1 \<le> length d \<and> length d \<le> MAX_DIAL_DIGITS \<and> (\<forall>c \<in> set d. is_digit c))"

definition lstrip_plus :: "pystr \<Rightarrow> pystr" where
  "lstrip_plus s = dropWhile (\<lambda>c. c = 43) s"

definition normalize_dial_number :: "pyval \<Rightarrow> call_error + pystr" where
  "normalize_dial_number v =
     (case v of
        VStr s \<Rightarrow>
          if MAX_DIAL_DIGITS * 3 < length s then Inl Phone_number_invalid
          else let compact = strip_separators s
            in if 42 \<in> set compact \<or> 35 \<in> set compact then Inl Service_codes
               else if \<not> dial_re compact then Inl Only_digits
               else if lstrip_plus compact \<in> set EMERGENCY_NUMBERS then Inl Emergency_number
               else Inr compact
      | _ \<Rightarrow> Inl Phone_number_invalid)"

definition validate_dtmf :: "pyval \<Rightarrow> call_error + pystr" where
  "validate_dtmf v =
     (case v of
        VStr s \<Rightarrow>
          let compact = py_strip s
          in if 1 \<le> length compact \<and> length compact \<le> MAX_DTMF_TONES \<and>
                (\<forall>c \<in> set compact. is_digit c \<or> c = 42 \<or> c = 35)
             then Inr compact else Inl Dtmf_characters
      | _ \<Rightarrow> Inl Dtmf_invalid)"

section \<open>Modems\<close>

record ModemInfo =
  m_path :: pystr
  m_type :: pystr
  m_powered :: bool
  m_online :: bool
  m_interfaces :: "pystr list"

definition VOICE_CALL_MANAGER_IFACE :: pystr where
  "VOICE_CALL_MANAGER_IFACE = lit ''org.ofono.VoiceCallManager''"

definition voice_ready :: "ModemInfo \<Rightarrow> bool" where
  "voice_ready m \<longleftrightarrow> m_online m \<and> VOICE_CALL_MANAGER_IFACE \<in> set (m_interfaces m)"

text \<open>The first match of \<open>/(hci[0-9]+)/\<close>.\<close>

fun find_adapter :: "pystr \<Rightarrow> pystr" where
  "find_adapter [] = []"
| "find_adapter (c # cs) =
     (let r = drop 4 (c # cs); d = takeWhile is_digit r
      in if py_startswith (c # cs) (lit ''/hci'') \<and> d \<noteq> [] \<and> py_startswith (drop (length d) r) [47]
         then lit ''hci'' @ d else find_adapter cs)"

definition m_adapter :: "ModemInfo \<Rightarrow> pystr" where
  "m_adapter m = find_adapter (m_path m)"

definition interfaces_value :: "pyval \<Rightarrow> pystr list" where
  "interfaces_value v =
     (case v of
        VList xs \<Rightarrow> [s. VStr s \<leftarrow> take 64 xs, length s \<le> 255]
      | _ \<Rightarrow> [])"

definition modem_updated :: "(nat \<Rightarrow> bool) \<Rightarrow> pystr \<Rightarrow> pyval \<Rightarrow> ModemInfo \<Rightarrow> ModemInfo" where
  "modem_updated control key v m =
     (if key = lit ''Powered'' then m\<lparr>m_powered := bool_value v\<rparr>
      else if key = lit ''Online'' then m\<lparr>m_online := bool_value v\<rparr>
      else if key = lit ''Interfaces'' then m\<lparr>m_interfaces := interfaces_value v\<rparr>
      else if key = lit ''Type'' then m\<lparr>m_type := remote_text control 32 v\<rparr>
      else m)"

definition prop_get :: "pystr \<Rightarrow> (pystr \<times> pyval) list \<Rightarrow> pyval" where
  "prop_get k d = (case map_of d k of Some v \<Rightarrow> v | None \<Rightarrow> VNone)"

definition parse_modem :: "(nat \<Rightarrow> bool) \<Rightarrow> pyval \<Rightarrow> pyval \<Rightarrow> ModemInfo option" where
  "parse_modem control path properties =
     (case (path, properties) of
        (VStr p, VDict d) \<Rightarrow>
          if valid_object_path path
          then Some \<lparr>m_path = p, m_type = remote_text control 32 (prop_get (lit ''Type'') d),
                     m_powered = bool_value (prop_get (lit ''Powered'') d),
                     m_online = bool_value (prop_get (lit ''Online'') d),
                     m_interfaces = interfaces_value (prop_get (lit ''Interfaces'') d)\<rparr>
          else None
      | _ \<Rightarrow> None)"

text \<open>\<open>mac.strip().upper().replace(":", "_")\<close>; upper-casing is a parameter.\<close>

definition device_suffix :: "(pystr \<Rightarrow> pystr) \<Rightarrow> pystr \<Rightarrow> pystr" where
  "device_suffix upper mac = lit ''/dev_'' @ map (\<lambda>c. if c = 58 then 95 else c) (upper (py_strip mac))"

definition py_endswith :: "pystr \<Rightarrow> pystr \<Rightarrow> bool" where
  "py_endswith s e = py_startswith (rev s) (rev e)"

definition modem_belongs_to :: "(pystr \<Rightarrow> pystr) \<Rightarrow> (pystr \<Rightarrow> pystr) \<Rightarrow> ModemInfo \<Rightarrow> pystr \<Rightarrow> bool" where
  "modem_belongs_to upper casefold m mac \<longleftrightarrow>
     mac \<noteq> [] \<and> m_type m = lit ''hfp'' \<and> py_endswith (casefold (m_path m)) (casefold (device_suffix upper mac))"

definition modem_key :: "pystr \<Rightarrow> ModemInfo \<Rightarrow> bool \<times> bool \<times> bool \<times> bool \<times> pystr" where
  "modem_key adapter m =
     (m_adapter m \<noteq> adapter, \<not> voice_ready m, \<not> m_online m, \<not> m_powered m, m_path m)"

definition select_modem ::
  "(pystr \<Rightarrow> pystr) \<Rightarrow> (pystr \<Rightarrow> pystr) \<Rightarrow> ModemInfo list \<Rightarrow> pystr \<Rightarrow> pystr \<Rightarrow> ModemInfo option" where
  "select_modem upper casefold modems mac adapter =
     (let candidates = filter (\<lambda>m. modem_belongs_to upper casefold m mac) modems
      in if candidates = [] then None else Some (arg_min_list (modem_key adapter) candidates))"

section \<open>Calls\<close>

definition CALL_STATES :: "pystr list" where
  "CALL_STATES = map lit [''active'', ''held'', ''dialing'', ''alerting'', ''incoming'', ''waiting'', ''disconnected'']"
definition RINGING_STATES :: "pystr list" where
  "RINGING_STATES = map lit [''incoming'', ''waiting'']"
definition UNKNOWN_STATE :: pystr where "UNKNOWN_STATE = lit ''unknown''"

datatype Direction = Incoming | Outgoing | UnknownDirection

definition direction_for_state :: "pystr \<Rightarrow> Direction" where
  "direction_for_state state =
     (if state \<in> set RINGING_STATES then Incoming
      else if state \<in> set (map lit [''dialing'', ''alerting'']) then Outgoing
      else UnknownDirection)"

definition parse_call_state :: "pyval \<Rightarrow> pystr" where
  "parse_call_state v =
     (let state = (case v of VStr s \<Rightarrow> s | _ \<Rightarrow> [])
      in if state \<in> set CALL_STATES then state else UNKNOWN_STATE)"

definition parse_line_identification :: "(nat \<Rightarrow> bool) \<Rightarrow> pyval \<Rightarrow> pystr" where
  "parse_line_identification control v =
     (let compact = strip_separators (remote_text control 64 v) in if dial_re compact then compact else [])"

record CallRecord =
  call_id :: pystr
  call_path :: pystr
  call_state :: pystr
  direction :: Direction
  number :: pystr
  network_name :: pystr
  contact_name :: pystr
  multiparty :: bool
  emergency :: bool
  first_seen :: pystr

definition ringing :: "CallRecord \<Rightarrow> bool" where
  "ringing c \<longleftrightarrow> call_state c \<in> set RINGING_STATES"

definition display_peer :: "CallRecord \<Rightarrow> pystr" where
  "display_peer c =
     (if contact_name c \<noteq> [] then contact_name c else if network_name c \<noteq> [] then network_name c
      else if number c \<noteq> [] then number c else lit ''Unknown caller'')"

definition with_property :: "(nat \<Rightarrow> bool) \<Rightarrow> pystr \<Rightarrow> pyval \<Rightarrow> CallRecord \<Rightarrow> CallRecord" where
  "with_property control key v c =
     (if key = lit ''State'' then c\<lparr>call_state := parse_call_state v\<rparr>
      else if key = lit ''LineIdentification'' then c\<lparr>number := parse_line_identification control v\<rparr>
      else if key = lit ''Name'' then c\<lparr>network_name := remote_text control 128 v\<rparr>
      else if key = lit ''Multiparty'' then c\<lparr>multiparty := bool_value v\<rparr>
      else if key = lit ''Emergency'' then c\<lparr>emergency := bool_value v\<rparr>
      else c)"

definition apply_properties :: "(nat \<Rightarrow> bool) \<Rightarrow> (pystr \<times> pyval) list \<Rightarrow> pystr list \<Rightarrow> CallRecord \<Rightarrow> CallRecord" where
  "apply_properties control d keys c =
     foldl (\<lambda>c k. case map_of d k of Some v \<Rightarrow> with_property control k v c | None \<Rightarrow> c) c keys"

definition parse_call :: "(nat \<Rightarrow> bool) \<Rightarrow> pystr \<Rightarrow> pyval \<Rightarrow> pyval \<Rightarrow> Direction option \<Rightarrow> CallRecord option" where
  "parse_call control now_iso path properties dir =
     (case call_id_from_path path of
        None \<Rightarrow> None
      | Some i \<Rightarrow>
          (case (path, properties) of
             (VStr p, VDict d) \<Rightarrow>
               let state = parse_call_state (prop_get (lit ''State'') d);
                   c = \<lparr>call_id = i, call_path = p, call_state = state,
                        direction = (case dir of Some x \<Rightarrow> x | None \<Rightarrow> direction_for_state state),
                        number = [], network_name = [], contact_name = [], multiparty = False,
                        emergency = False, first_seen = now_iso\<rparr>
               in Some (apply_properties control d
                    (map lit [''LineIdentification'', ''Name'', ''Multiparty'', ''Emergency'']) c)
           | _ \<Rightarrow> None))"

section \<open>Dialling\<close>

definition dial_digits :: "pystr \<Rightarrow> bool" where
  "dial_digits d \<longleftrightarrow> 1 \<le> length d \<and> length d \<le> 32 \<and> (\<forall>c \<in> set d. 48 \<le> c \<and> c \<le> 57)"

lemma dial_re_iff: "dial_re s \<longleftrightarrow> dial_digits s \<or> (\<exists>d. s = 43 # d \<and> dial_digits d)"
  by (cases s) (auto simp: dial_re_def dial_digits_def is_digit_def MAX_DIAL_DIGITS_def Let_def)

lemma dial_digits_facts:
  assumes "dial_digits d"
  shows "42 \<notin> set d" "35 \<notin> set d" "43 \<notin> set d" "\<forall>c \<in> set d. \<not> dial_separator c" "lstrip_plus d = d"
    "lstrip_plus (43 # d) = d"
proof -
  have r: "\<forall>c \<in> set d. 48 \<le> c \<and> c \<le> 57" using assms by (simp add: dial_digits_def)
  then show "42 \<notin> set d" "35 \<notin> set d" "43 \<notin> set d" by fastforce+
  then show "lstrip_plus d = d" "lstrip_plus (43 # d) = d" by (cases d; auto simp: lstrip_plus_def)+
  show "\<forall>c \<in> set d. \<not> dial_separator c"
  proof
    fix c assume "c \<in> set d"
    with r have "48 \<le> c \<and> c \<le> 57" by blast
    then show "\<not> dial_separator c" by (auto simp: dial_separator_def py_isspace_def lit_def)
  qed
qed

lemma normalize_dial_number_iff:
  "normalize_dial_number (VStr s) = Inr n \<longleftrightarrow>
     length s \<le> 96 \<and> n = strip_separators s \<and> dial_re n \<and> lstrip_plus n \<notin> set EMERGENCY_NUMBERS"
proof -
  have "dial_re n \<Longrightarrow> 42 \<notin> set n \<and> 35 \<notin> set n" for n
    by (auto simp: dial_re_iff dial_digits_facts)
  then show ?thesis by (auto simp: normalize_dial_number_def Let_def MAX_DIAL_DIGITS_def)
qed

text \<open>
  exactly these texts are accepted for dialling: at most 96 characters that, without spaces, dashes,
  dots, parentheses and slashes, are an optional plus and 1 to 32 digits which are not a listed emergency
  number; the result is that compact form, which is itself accepted unchanged.
\<close>

theorem normalize_dial_number_spec:
  "(normalize_dial_number v = Inr n \<longleftrightarrow>
     (\<exists>s d. v = VStr s \<and> length s \<le> 96 \<and> n = filter (\<lambda>c. \<not> dial_separator c) s \<and> (n = d \<or> n = 43 # d) \<and>
        dial_digits d \<and> d \<notin> set EMERGENCY_NUMBERS)) \<and>
   (normalize_dial_number v \<noteq> Inr n \<or> normalize_dial_number (VStr n) = Inr n)"
proof -
  have plus: "\<not> dial_separator 43" by (simp add: dial_separator_def py_isspace_def lit_def)
  have len: "length d \<le> 32" if "dial_digits d" for d using that by (simp add: dial_digits_def)
  have strip: "strip_separators n = n \<and> length n \<le> 33" if "dial_digits d" "n = d \<or> n = 43 # d" for n d
    using that(2) plus len [OF that(1)] dial_digits_facts(4) [OF that(1)]
    by (elim disjE) (simp_all add: strip_separators_def filter_id_conv)
  have "normalize_dial_number (VStr s) = Inr n \<longleftrightarrow>
      (\<exists>d. length s \<le> 96 \<and> n = filter (\<lambda>c. \<not> dial_separator c) s \<and> (n = d \<or> n = 43 # d) \<and>
        dial_digits d \<and> d \<notin> set EMERGENCY_NUMBERS)" for s
    unfolding normalize_dial_number_iff strip_separators_def dial_re_iff using dial_digits_facts(5,6) by metis
  moreover have "normalize_dial_number (VStr n) = Inr n" if "normalize_dial_number (VStr s) = Inr n" for s
    using that strip unfolding normalize_dial_number_iff dial_re_iff by fastforce
  ultimately show ?thesis by (cases v) (auto simp: normalize_dial_number_def)
qed

theorem normalize_dial_number_spec_witness:
  "normalize_dial_number (VStr (lit ''+49 (30) 1234'')) = Inr (lit ''+49301234'') \<and>
   normalize_dial_number (VStr (lit ''+49301234'')) = Inr (lit ''+49301234'')"
proof -
  have *: "normalize_dial_number (VStr (lit ''+49 (30) 1234'')) = Inr (lit ''+49301234'')"
    by (simp add: normalize_dial_number_def strip_separators_def dial_separator_def py_isspace_def dial_re_def
        is_digit_def lstrip_plus_def EMERGENCY_NUMBERS_def lit_def Let_def consts_defs)
  with normalize_dial_number_spec [of "VStr (lit ''+49 (30) 1234'')" "lit ''+49301234''", THEN conjunct2]
  show ?thesis by blast
qed

section \<open>Remote text and call records\<close>

definition text_safe :: "(nat \<Rightarrow> bool) \<Rightarrow> nat \<Rightarrow> pystr \<Rightarrow> bool" where
  "text_safe control limit s \<longleftrightarrow>
     length s \<le> limit \<and> (\<forall>c \<in> set s. c = 32 \<or> \<not> control c \<and> \<not> py_isspace c)"

lemma remote_text_safe: "text_safe control limit (remote_text control limit v)"
proof (cases v)
  case (VStr s)
  let ?cl = "map (\<lambda>c. if control c then 32 else c) (take (limit * 4) s)"
  have "c = 32 \<or> \<not> control c \<and> \<not> py_isspace c" if "c \<in> set (py_join [32] (py_split ?cl))" for c
  proof -
    from that consider "c = 32" | w where "w \<in> set (py_split ?cl)" "c \<in> set w"
      using set_py_join [of "[32]" "py_split ?cl"] by auto
    then show ?thesis
    proof cases
      case (2 w)
      then have "\<not> py_isspace c" "c \<in> set ?cl"
        using py_split_words set_py_split_acc by (fastforce simp: py_split_def)+
      then show ?thesis by (auto split: if_splits)
    qed simp
  qed
  then show ?thesis using VStr by (auto simp: remote_text_def text_safe_def Let_def dest!: in_set_takeD)
qed (simp_all add: remote_text_def text_safe_def)

definition call_wf :: "(nat \<Rightarrow> bool) \<Rightarrow> CallRecord \<Rightarrow> bool" where
  "call_wf control c \<longleftrightarrow>
     call_id_re (call_id c) \<and> (call_state c \<in> set CALL_STATES \<or> call_state c = UNKNOWN_STATE) \<and>
     (number c = [] \<or> dial_re (number c)) \<and> text_safe control 128 (network_name c)"

lemma call_wf_with_property: "call_wf control c \<Longrightarrow> call_wf control (with_property control k v c)"
  by (auto simp: call_wf_def with_property_def parse_call_state_def parse_line_identification_def
      remote_text_safe Let_def)

lemma call_wf_apply: "call_wf control c \<Longrightarrow> call_wf control (apply_properties control d keys c)"
proof (induction keys arbitrary: c)
  case (Cons k keys)
  then have "call_wf control (case map_of d k of Some v \<Rightarrow> with_property control k v c | None \<Rightarrow> c)"
    by (simp add: call_wf_with_property split: option.split)
  with Cons.IH show ?case by (simp add: apply_properties_def)
qed (simp add: apply_properties_def)

lemma call_id_valid: "call_id_from_path v = Some i \<Longrightarrow> call_id_re i"
  by (auto simp: call_id_from_path_def split: if_splits pyval.splits)

text \<open>
  C40: whatever oFono sends, a call record that was accepted stays well-formed under every later property
  change: its identifier has 1 to 64 word characters, its state is one oFono documents or \<open>unknown\<close>, its
  number is empty or dialable, and its network name is one line of at most 128 characters with no control
  or format characters.
\<close>

theorem call_records_wellformed:
  assumes "parse_call control now_iso path properties dir = Some c"
  shows "call_wf control (foldl (\<lambda>c (k, v). with_property control k v c) c changes)"
proof -
  have "call_wf control c"
    using assms by (auto simp: parse_call_def Let_def split: option.splits pyval.splits
        intro!: call_wf_apply) (auto simp: call_wf_def call_id_valid parse_call_state_def text_safe_def Let_def)
  then show ?thesis
    by (induction changes arbitrary: c) (auto simp: call_wf_with_property split: prod.split)
qed

definition demo_call :: "CallRecord option" where
  "demo_call = parse_call (\<lambda>c. c < 32) [] (VStr (lit ''/hfp/voicecall01''))
     (VDict [(lit ''State'', VStr (lit ''incoming'')), (lit ''LineIdentification'', VStr (lit ''+49 30 123''))]) None"

theorem call_records_wellformed_witness:
  "call_wf (\<lambda>c. c < 32) (with_property (\<lambda>c. c < 32) (lit ''Name'') (VStr (lit ''A'' @ [10])) (the demo_call)) \<and>
   number (the demo_call) = lit ''+4930123''"
proof -
  have d: "\<exists>c. demo_call = Some c \<and> number c = lit ''+4930123''"
    by (simp add: demo_call_def parse_call_def call_id_from_path_def valid_object_path_def object_path_re_def
        is_word_def is_digit_def call_id_re_def last_segment_def parse_call_state_def prop_get_def CALL_STATES_def
        apply_properties_def with_property_def parse_line_identification_def remote_text_def strip_separators_def
        dial_separator_def dial_re_def py_isspace_def py_split_def direction_for_state_def RINGING_STATES_def
        Let_def consts_defs lit_def)
  then obtain c where "demo_call = Some c" "number c = lit ''+4930123''" by blast
  with call_records_wellformed [of "\<lambda>c. c < 32" "[]" "VStr (lit ''/hfp/voicecall01'')" _ None c
      "[(lit ''Name'', VStr (lit ''A'' @ [10]))]"] show ?thesis by (simp add: demo_call_def)
qed

section \<open>The choice of a modem\<close>

lemma arg_min_list_first: "xs \<noteq> [] \<Longrightarrow> arg_min_list f xs \<in> set xs \<and> (\<forall>x \<in> set xs. f (arg_min_list f xs) \<le> f x)"
  using arg_min_list_in f_arg_min_list_f by (metis List.finite_set Min.coboundedI finite_imageI image_eqI)

text \<open>
  the modem that is used belongs to the configured phone and is the best such modem (configured
  adapter first, then usable for voice, online, powered, and the smallest path); none is used exactly when
  none belongs to the phone; and the choice depends only on which modems oFono reports, not on their order.
\<close>

theorem select_modem_best:
  assumes "\<forall>m \<in> set ms. \<forall>n \<in> set ms. m_path m = m_path n \<longrightarrow> m = n" and "set ms' = set ms"
  shows "(case select_modem upper casefold ms mac adapter of
       None \<Rightarrow> \<not> (\<exists>m \<in> set ms. modem_belongs_to upper casefold m mac)
     | Some b \<Rightarrow> b \<in> set ms \<and> modem_belongs_to upper casefold b mac \<and>
         (\<forall>m \<in> set ms. modem_belongs_to upper casefold m mac \<longrightarrow> modem_key adapter b \<le> modem_key adapter m)) \<and>
    select_modem upper casefold ms' mac adapter = select_modem upper casefold ms mac adapter"
proof -
  let ?P = "\<lambda>m. modem_belongs_to upper casefold m mac" and ?k = "modem_key adapter"
  have best: "case select_modem upper casefold xs mac adapter of
       None \<Rightarrow> \<not> (\<exists>m \<in> set xs. ?P m)
     | Some b \<Rightarrow> b \<in> set xs \<and> ?P b \<and> (\<forall>m \<in> set xs. ?P m \<longrightarrow> ?k b \<le> ?k m)" for xs
    using arg_min_list_first [of "filter ?P xs" ?k]
    by (auto simp: select_modem_def Let_def filter_empty_conv)
  have u: "b' = b" if "b \<in> set ms" "b' \<in> set ms" "?k b = ?k b'" for b b'
    using that assms(1) by (auto simp: modem_key_def)
  with best [of ms] best [of ms'] assms(2)
  have "select_modem upper casefold ms' mac adapter = select_modem upper casefold ms mac adapter"
    by (cases "select_modem upper casefold ms mac adapter"; cases "select_modem upper casefold ms' mac adapter")
      (auto intro!: u order_antisym)
  with best [of ms] show ?thesis by simp
qed

definition demo_modem :: "string \<Rightarrow> bool \<Rightarrow> ModemInfo" where
  "demo_modem hci online = \<lparr>m_path = lit (''/hfp/'' @ hci @ ''/dev_AA''), m_type = lit ''hfp'', m_powered = True,
     m_online = online, m_interfaces = []\<rparr>"

theorem select_modem_best_witness:
  "select_modem id id [demo_modem ''hci0'' True, demo_modem ''hci1'' False] (lit ''AA'') (lit ''hci1'') =
   select_modem id id [demo_modem ''hci1'' False, demo_modem ''hci0'' True] (lit ''AA'') (lit ''hci1'')"
  by (rule select_modem_best [THEN conjunct2]) (auto simp: demo_modem_def lit_def)

end
