(* ===== verification/Phone_Status.thy ===== *)
theory Phone_Status
  imports Call_Model
begin

text \<open>
  The phone's battery, signal and network as oFono reports them, and the low-battery warning
  (\<open>calls/phone_status.py\<close>). The lemmas show that whatever oFono sends, the published values are in
  range and a signal or network name is shown only while the phone is registered, and that the warning
  fires once per discharge cycle.
\<close>

section \<open>Parsing\<close>

definition BATTERY_STEPS :: int where [consts_defs]: "BATTERY_STEPS = 5"
definition BATTERY_STEP_PERCENT :: int where [consts_defs]: "BATTERY_STEP_PERCENT = 100 div BATTERY_STEPS"
definition MAX_NETWORK_NAME_CHARS :: nat where [consts_defs]: "MAX_NETWORK_NAME_CHARS = 64"
definition HANDSFREE_IFACE :: pystr where "HANDSFREE_IFACE = lit ''org.ofono.Handsfree''"

definition NETWORK_STATUSES :: "pystr list" where
  "NETWORK_STATUSES = map lit [''unregistered'', ''registered'', ''searching'', ''denied'', ''unknown'', ''roaming'']"
definition REGISTERED :: "pystr list" where
  "REGISTERED = map lit [''registered'', ''roaming'']"

definition byte_value :: "pyval \<Rightarrow> int \<Rightarrow> int option" where
  "byte_value v maximum =
     (case v of VInt i \<Rightarrow> if 0 \<le> i \<and> i \<le> maximum then Some i else None | _ \<Rightarrow> None)"

definition parse_battery_charge :: "pyval \<Rightarrow> int option" where
  "parse_battery_charge v = byte_value v BATTERY_STEPS"

definition parse_signal_strength :: "pyval \<Rightarrow> int option" where
  "parse_signal_strength v = byte_value v 100"

definition parse_network_status :: "pyval \<Rightarrow> pystr option" where
  "parse_network_status v =
     (case v of VStr s \<Rightarrow> Some (if s \<in> set NETWORK_STATUSES then s else lit ''unknown'') | _ \<Rightarrow> None)"

definition parse_network_name :: "(nat \<Rightarrow> bool) \<Rightarrow> pyval \<Rightarrow> pystr option" where
  "parse_network_name control v =
     (let text = remote_text control MAX_NETWORK_NAME_CHARS v in if text \<noteq> [] then Some text else None)"

section \<open>The status\<close>

record PhoneStatus =
  battery_steps :: "int option"
  signal_strength :: "int option"
  phone_network :: "pystr option"
  network_status :: "pystr option"

definition PhoneStatus_init :: PhoneStatus where
  "PhoneStatus_init = \<lparr>battery_steps = None, signal_strength = None, phone_network = None, network_status = None\<rparr>"

definition battery_percent :: "PhoneStatus \<Rightarrow> int option" where
  "battery_percent p = map_option (\<lambda>n. n * BATTERY_STEP_PERCENT) (battery_steps p)"

definition in_registered :: "pystr option \<Rightarrow> bool" where
  "in_registered st = (case st of None \<Rightarrow> False | Some s \<Rightarrow> s \<in> set REGISTERED)"

definition registered :: "PhoneStatus \<Rightarrow> bool" where
  "registered p = in_registered (network_status p)"

definition with_handsfree :: "pystr \<Rightarrow> pyval \<Rightarrow> PhoneStatus \<Rightarrow> PhoneStatus" where
  "with_handsfree key v p =
     (if key = lit ''BatteryChargeLevel'' then p\<lparr>battery_steps := parse_battery_charge v\<rparr> else p)"

definition with_network :: "(nat \<Rightarrow> bool) \<Rightarrow> pystr \<Rightarrow> pyval \<Rightarrow> PhoneStatus \<Rightarrow> PhoneStatus" where
  "with_network control key v p =
     (if key = lit ''Strength'' then p\<lparr>signal_strength := parse_signal_strength v\<rparr>
      else if key = lit ''Name'' then p\<lparr>phone_network := parse_network_name control v\<rparr>
      else if key = lit ''Status''
      then (let st = parse_network_status v
            in if in_registered st then p\<lparr>network_status := st\<rparr>
               else p\<lparr>network_status := st, signal_strength := None\<rparr>)
      else p)"

definition without_handsfree :: "PhoneStatus \<Rightarrow> PhoneStatus" where
  "without_handsfree p = p\<lparr>battery_steps := None\<rparr>"

definition without_network :: "PhoneStatus \<Rightarrow> PhoneStatus" where
  "without_network p = p\<lparr>signal_strength := None, phone_network := None, network_status := None\<rparr>"

record phone_wire =
  w_battery_level :: "int option"
  w_battery_source :: "pystr option"
  w_signal_strength :: "int option"
  w_network_name :: "pystr option"
  w_network_status :: "pystr option"

definition to_status :: "PhoneStatus \<Rightarrow> phone_wire" where
  "to_status p =
     \<lparr>w_battery_level = battery_percent p,
      w_battery_source = (if battery_percent p \<noteq> None then Some (lit ''hfp'') else None),
      w_signal_strength = (if registered p then signal_strength p else None),
      w_network_name = (if registered p then phone_network p else None),
      w_network_status = network_status p\<rparr>"

definition apply_phone_properties :: "(nat \<Rightarrow> bool) \<Rightarrow> pystr \<Rightarrow> pyval \<Rightarrow> PhoneStatus \<Rightarrow> PhoneStatus" where
  "apply_phone_properties control interface properties p =
     (case properties of
        VDict d \<Rightarrow>
          let handsfree = (interface = HANDSFREE_IFACE);
              fresh = (if handsfree then without_handsfree p else without_network p)
          in foldl (\<lambda>q (k, v). if handsfree then with_handsfree k v q else with_network control k v q) fresh (take 64 d)
      | _ \<Rightarrow> p)"

section \<open>The low-battery warning\<close>

record LowBatteryMonitor =
  threshold :: int
  warned :: bool

definition LowBatteryMonitor_init :: "int \<Rightarrow> LowBatteryMonitor" where
  "LowBatteryMonitor_init t = \<lparr>threshold = max 0 (min (100 - BATTERY_STEP_PERCENT) t), warned = False\<rparr>"

definition observe_battery :: "int option \<Rightarrow> bool \<Rightarrow> LowBatteryMonitor \<Rightarrow> LowBatteryMonitor \<times> bool" where
  "observe_battery percent enabled m =
     (case percent of
        None \<Rightarrow> (m, False)
      | Some p \<Rightarrow>
          if threshold m + BATTERY_STEP_PERCENT \<le> p then (m\<lparr>warned := False\<rparr>, False)
          else if enabled \<and> p \<le> threshold m \<and> \<not> warned m then (m\<lparr>warned := True\<rparr>, True)
          else (m, False))"

text \<open>The levels observed and whether each warned, oldest first.\<close>

fun observe_all :: "(int option \<times> bool) list \<Rightarrow> LowBatteryMonitor \<Rightarrow> (int option \<times> bool) list" where
  "observe_all [] m = []"
| "observe_all ((p, e) # obs) m = (let (m', w) = observe_battery p e m in (p, w) # observe_all obs m')"

section \<open>Properties\<close>

definition phone_wf :: "(nat \<Rightarrow> bool) \<Rightarrow> PhoneStatus \<Rightarrow> bool" where
  "phone_wf control p \<longleftrightarrow>
     (\<forall>n. battery_steps p = Some n \<longrightarrow> 0 \<le> n \<and> n \<le> 5) \<and>
     (\<forall>n. signal_strength p = Some n \<longrightarrow> 0 \<le> n \<and> n \<le> 100) \<and>
     (\<forall>s. phone_network p = Some s \<longrightarrow> s \<noteq> [] \<and> text_safe control 64 s) \<and>
     (\<forall>s. network_status p = Some s \<longrightarrow> s \<in> set NETWORK_STATUSES)"

lemma byte_value_range: "byte_value v m = Some n \<Longrightarrow> 0 \<le> n \<and> n \<le> m"
  by (auto simp: byte_value_def split: pyval.splits if_splits)

lemma network_name_safe: "parse_network_name control v = Some s \<Longrightarrow> s \<noteq> [] \<and> text_safe control 64 s"
  using remote_text_safe [of control 64 v]
  by (auto simp: parse_network_name_def Let_def MAX_NETWORK_NAME_CHARS_def split: if_splits)

lemma network_status_known: "parse_network_status v = Some s \<Longrightarrow> s \<in> set NETWORK_STATUSES"
  by (auto simp: parse_network_status_def NETWORK_STATUSES_def split: pyval.splits if_splits)

lemma phone_wf_handsfree: "phone_wf control p \<Longrightarrow> phone_wf control (with_handsfree k v p)"
  using byte_value_range [of v 5] by (simp add: phone_wf_def with_handsfree_def parse_battery_charge_def BATTERY_STEPS_def)

lemma phone_wf_network: "phone_wf control p \<Longrightarrow> phone_wf control (with_network control k v p)"
  using byte_value_range [of v 100] network_name_safe [of control v] network_status_known [of v]
  by (simp add: phone_wf_def with_network_def parse_signal_strength_def Let_def)

lemma phone_wf_apply: "phone_wf control p \<Longrightarrow> phone_wf control (apply_phone_properties control i props p)"
proof -
  assume p: "phone_wf control p"
  have f: "phone_wf control q \<Longrightarrow>
      phone_wf control (foldl (\<lambda>q (k, v). if h then with_handsfree k v q else with_network control k v q) q d)" for q h d
    by (induction d arbitrary: q) (auto simp: phone_wf_handsfree phone_wf_network split: prod.split)
  have "phone_wf control (without_handsfree p)" "phone_wf control (without_network p)"
    using p by (simp_all add: phone_wf_def without_handsfree_def without_network_def)
  then show ?thesis using p f by (simp add: apply_phone_properties_def Let_def split: pyval.split)
qed

text \<open>One signal or reply from oFono, or the loss of one of its interfaces.\<close>

datatype phone_event = HandsfreeChanged pystr pyval | NetworkChanged pystr pyval
  | PropertiesReply pystr pyval | HandsfreeGone | NetworkGone

fun phone_step :: "(nat \<Rightarrow> bool) \<Rightarrow> PhoneStatus \<Rightarrow> phone_event \<Rightarrow> PhoneStatus" where
  "phone_step control p (HandsfreeChanged k v) = with_handsfree k v p"
| "phone_step control p (NetworkChanged k v) = with_network control k v p"
| "phone_step control p (PropertiesReply i v) = apply_phone_properties control i v p"
| "phone_step control p HandsfreeGone = without_handsfree p"
| "phone_step control p NetworkGone = without_network p"

lemma phone_wf_run: "phone_wf control p \<Longrightarrow> phone_wf control (foldl (phone_step control) p evs)"
proof (induction evs arbitrary: p)
  case (Cons e evs)
  have "phone_wf control (without_handsfree p)" "phone_wf control (without_network p)"
    using Cons.prems by (simp_all add: phone_wf_def without_handsfree_def without_network_def)
  then have "phone_wf control (phone_step control p e)"
    using Cons.prems by (cases e) (simp_all add: phone_wf_handsfree phone_wf_network phone_wf_apply)
  with Cons.IH show ?case by simp
qed simp

text \<open>
  whatever oFono sends in whatever order, the published phone status is in range: the battery is one
  of 0, 20, ..., 100 percent or unknown, the signal is 0 to 100 percent, a network name is one clean line
  of at most 64 characters, the network status is a documented one; and signal and network name are
  published only while the phone is registered or roaming.
\<close>

theorem phone_status_in_range:
  assumes "w = to_status (foldl (phone_step control) PhoneStatus_init evs)"
  shows "(case w_battery_level w of None \<Rightarrow> True | Some n \<Rightarrow> n \<in> {0, 20, 40, 60, 80, 100}) \<and>
    (case w_signal_strength w of None \<Rightarrow> True | Some n \<Rightarrow> 0 \<le> n \<and> n \<le> 100 \<and> in_registered (w_network_status w)) \<and>
    (case w_network_name w of None \<Rightarrow> True
     | Some s \<Rightarrow> s \<noteq> [] \<and> text_safe control 64 s \<and> in_registered (w_network_status w)) \<and>
    (case w_network_status w of None \<Rightarrow> True | Some s \<Rightarrow> s \<in> set NETWORK_STATUSES)"
proof -
  let ?p = "foldl (phone_step control) PhoneStatus_init evs"
  have wf: "phone_wf control ?p"
    by (rule phone_wf_run) (simp add: phone_wf_def PhoneStatus_init_def)
  have "n * BATTERY_STEP_PERCENT \<in> {0, 20, 40, 60, 80, 100}" if "battery_steps ?p = Some n" for n
  proof -
    have "n \<in> {0..5}" using wf that by (simp add: phone_wf_def)
    then have "n \<in> {0, 1, 2, 3, 4, 5}" by auto
    then show ?thesis by (auto simp: consts_defs)
  qed
  with wf show ?thesis
    by (auto simp: assms to_status_def battery_percent_def phone_wf_def registered_def split: option.split)
qed

theorem phone_status_in_range_witness:
  "w_signal_strength (to_status (foldl (phone_step (\<lambda>c. c < 32)) PhoneStatus_init
     [NetworkChanged (lit ''Status'') (VStr (lit ''roaming'')), NetworkChanged (lit ''Strength'') (VInt 80)])) = Some 80 \<and>
   in_registered (Some (lit ''roaming''))"
  using phone_status_in_range [OF refl, of "\<lambda>c. c < 32"
      "[NetworkChanged (lit ''Status'') (VStr (lit ''roaming'')), NetworkChanged (lit ''Strength'') (VInt 80)]"]
  by (simp add: with_network_def parse_network_status_def parse_signal_strength_def byte_value_def to_status_def
      registered_def in_registered_def PhoneStatus_init_def NETWORK_STATUSES_def REGISTERED_def lit_def Let_def)

lemma warned_quiet:
  "warned m \<Longrightarrow> observe_all obs m = a @ (p, True) # b \<Longrightarrow>
     \<exists>q. (q, False) \<in> set a \<and> (\<exists>n. q = Some n \<and> threshold m + BATTERY_STEP_PERCENT \<le> n)"
proof (induction obs arbitrary: m a)
  case (Cons o' obs)
  obtain q e where o: "o' = (q, e)" by (cases o')
  obtain m' w where m: "observe_battery q e m = (m', w)" by (cases "observe_battery q e m")
  have t: "threshold m' = threshold m" "\<not> w" using m Cons.prems(1)
    by (auto simp: observe_battery_def split: option.splits if_splits)
  from Cons.prems(2) o m t obtain a' where a: "a = (q, False) # a'" "observe_all obs m' = a' @ (p, True) # b"
    by (cases a) auto
  show ?case
  proof (cases "warned m'")
    case True
    with Cons.IH a t show ?thesis by force
  next
    case False
    with m Cons.prems(1) have "\<exists>n. q = Some n \<and> threshold m + BATTERY_STEP_PERCENT \<le> n"
      by (auto simp: observe_battery_def split: option.splits if_splits)
    with a show ?thesis by auto
  qed
qed simp

lemma warned_after:
  "observe_all obs m = a @ (p, True) # b @ (p', True) # c \<Longrightarrow>
     (\<exists>n. p = Some n \<and> n \<le> threshold m) \<and>
     (\<exists>q. (q, False) \<in> set b \<and> (\<exists>n. q = Some n \<and> threshold m + BATTERY_STEP_PERCENT \<le> n))"
proof (induction obs arbitrary: m a)
  case (Cons o' obs)
  obtain q e where o: "o' = (q, e)" by (cases o')
  obtain m' w where m: "observe_battery q e m = (m', w)" by (cases "observe_battery q e m")
  have t: "threshold m' = threshold m" using m by (auto simp: observe_battery_def split: option.splits if_splits)
  show ?case
  proof (cases a)
    case Nil
    with Cons.prems o m have w: "w" "p = q" "observe_all obs m' = b @ (p', True) # c" by auto
    with m have "warned m'" "\<exists>n. q = Some n \<and> n \<le> threshold m"
      by (auto simp: observe_battery_def split: option.splits if_splits)
    with warned_quiet w t show ?thesis by fastforce
  next
    case (Cons x a')
    with Cons.prems o m have "observe_all obs m' = a' @ (p, True) # b @ (p', True) # c" by auto
    with Cons.IH t show ?thesis by fastforce
  qed
qed simp

text \<open>
  the low-battery warning fires once per discharge cycle: it fires only at or below the threshold, and
  between two warnings the battery was seen at least one step (20 percent) above the threshold. Unknown
  levels neither warn nor re-arm.
\<close>

theorem low_battery_once:
  assumes "observe_all obs (LowBatteryMonitor_init t) = a @ (p, True) # b @ (p', True) # c"
  shows "(\<exists>n. p = Some n \<and> n \<le> threshold (LowBatteryMonitor_init t)) \<and>
    (\<exists>n. (Some n, False) \<in> set b \<and> threshold (LowBatteryMonitor_init t) + 20 \<le> n)"
  using warned_after [OF assms] by (auto simp: consts_defs)

theorem low_battery_once_witness:
  "\<exists>n. (Some n, False) \<in> set [(Some 40, False), (None, False)] \<and> 40 \<le> (n::int)"
proof -
  have "observe_all [(Some 20, True), (Some 40, True), (None, True), (Some 20, True)] (LowBatteryMonitor_init 20) =
      [] @ (Some 20, True) # [(Some 40, False), (None, False)] @ (Some 20, True) # []"
    by (simp add: observe_battery_def LowBatteryMonitor_init_def consts_defs)
  from low_battery_once [OF this] show ?thesis by (simp add: LowBatteryMonitor_init_def consts_defs)
qed

end
