(* ===== verification/Proximity_Lock.thy ===== *)
theory Proximity_Lock
  imports Prelude
begin

text \<open>
  The proximity lock (\<open>proximity_lock.py\<close>): presence from the two bearers, the order in which the
  desktop is asked to lock, and the state machine that locks once after the phone was away for the grace
  period. What the presence read gives, the clock and the answers of the desktop are arguments. \<open>pl_log\<close>
  records the observations that were acted on; no operation reads it.
  The lemmas show that the desktop is locked only after the phone was seen and then continuously not seen
  for the grace period with nothing in between that forgets presence, that a running grace period always
  has its timer, and that the two timers are the only live ones.
\<close>

section \<open>Presence and grace period\<close>

definition DEFAULT_GRACE_SEC :: int where [consts_defs]: "DEFAULT_GRACE_SEC = 60"
definition MIN_GRACE_SEC :: int where [consts_defs]: "MIN_GRACE_SEC = 10"
definition MAX_GRACE_SEC :: int where [consts_defs]: "MAX_GRACE_SEC = 3600"
definition PRESENCE_SETTLE_SEC :: int where [consts_defs]: "PRESENCE_SETTLE_SEC = 6"

text \<open>The argument is what \<open>int(value)\<close> gives; \<open>None\<close> for a boolean or when it raises.\<close>

definition clamp_grace :: "int option \<Rightarrow> int \<Rightarrow> int" where
  "clamp_grace v dflt =
     (case v of None \<Rightarrow> dflt | Some n \<Rightarrow> max MIN_GRACE_SEC (min n MAX_GRACE_SEC))"

definition presence_from_bearers :: "bool option \<Rightarrow> bool option \<Rightarrow> bool option" where
  "presence_from_bearers bredr le =
     (if bredr = Some True \<or> le = Some True then Some True
      else if bredr = Some False then Some False else None)"

section \<open>Asking the desktop to lock\<close>

datatype lock_result = RESULT_SCREENSAVER | RESULT_SCREENSAVER_REQUESTED | RESULT_LOGIN1 | RESULT_FAILED

datatype lock_call = ScreenSaverLock | GetSessionByPID | GetSession pystr | SessionLock pystr

text \<open>Answers of the buses: an error is given by its name.\<close>

record lock_env =
  screensaver :: "pystr option"
  by_pid :: "pystr option"
  by_env :: "pystr option"
  session_lock :: "pystr \<Rightarrow> bool"
  session_id :: pystr

definition LOCK_NO_REPLY_ERRORS :: "pystr list" where
  "LOCK_NO_REPLY_ERRORS = [lit ''org.freedesktop.DBus.Error.NoReply'',
     lit ''org.freedesktop.DBus.Error.Timeout'', lit ''org.freedesktop.DBus.Error.TimedOut'']"

definition SESSION_PREFIX :: pystr where "SESSION_PREFIX = lit ''/org/freedesktop/login1/session/''"
definition SESSION_AUTO :: pystr where "SESSION_AUTO = lit ''/org/freedesktop/login1/session/auto''"

definition lock_login1_session ::
  "lock_env \<Rightarrow> pystr \<Rightarrow> lock_result \<times> lock_call list \<Rightarrow> lock_result \<times> lock_call list" where
  "lock_login1_session env path fallback =
     (if \<not> py_startswith path SESSION_PREFIX then fallback
      else if session_lock env path then (RESULT_LOGIN1, [SessionLock path])
      else (fst fallback, SessionLock path # snd fallback))"

definition lock_login1_auto :: "lock_env \<Rightarrow> lock_result \<times> lock_call list" where
  "lock_login1_auto env = lock_login1_session env SESSION_AUTO (RESULT_FAILED, [])"

text \<open>\<open>by_pid\<close> and \<open>by_env\<close>: the session path logind answers, \<open>None\<close> for an error.\<close>

definition lock_login1_by_env :: "lock_env \<Rightarrow> lock_result \<times> lock_call list" where
  "lock_login1_by_env env =
     (if session_id env = [] then lock_login1_auto env
      else let (r, cs) = (case by_env env of
                 None \<Rightarrow> lock_login1_auto env
               | Some path \<Rightarrow> lock_login1_session env path (lock_login1_auto env))
        in (r, GetSession (session_id env) # cs))"

definition lock_login1_by_pid :: "lock_env \<Rightarrow> lock_result \<times> lock_call list" where
  "lock_login1_by_pid env =
     (let (r, cs) = (case by_pid env of
            None \<Rightarrow> lock_login1_by_env env
          | Some path \<Rightarrow> lock_login1_session env path (lock_login1_by_env env))
      in (r, GetSessionByPID # cs))"

text \<open>\<open>screensaver\<close>: \<open>None\<close> for a reply, else the name of the error.\<close>

definition desktop_lock :: "lock_env \<Rightarrow> lock_result \<times> lock_call list" where
  "desktop_lock env =
     (case screensaver env of
        None \<Rightarrow> (RESULT_SCREENSAVER, [ScreenSaverLock])
      | Some e \<Rightarrow>
          if e \<in> set LOCK_NO_REPLY_ERRORS then (RESULT_SCREENSAVER_REQUESTED, [ScreenSaverLock])
          else let (r, cs) = lock_login1_by_pid env in (r, ScreenSaverLock # cs))"

text \<open>
  every lock request ends with one result. It fails only after the screen saver and every logind route
  that exists refused; logind is not tried when the screen saver accepted the request or has not answered
  yet; and only paths of logind sessions are ever asked to lock.
\<close>

theorem desktop_lock_routes:
  "(fst (desktop_lock env) = RESULT_FAILED \<longrightarrow>
     (\<exists>e. screensaver env = Some e \<and> e \<notin> set LOCK_NO_REPLY_ERRORS) \<and> \<not> session_lock env SESSION_AUTO \<and>
     (\<forall>p. by_pid env = Some p \<longrightarrow> \<not> py_startswith p SESSION_PREFIX \<or> \<not> session_lock env p)) \<and>
   (fst (desktop_lock env) \<in> {RESULT_SCREENSAVER, RESULT_SCREENSAVER_REQUESTED} \<longrightarrow>
     snd (desktop_lock env) = [ScreenSaverLock]) \<and>
   (\<forall>p. SessionLock p \<in> set (snd (desktop_lock env)) \<longrightarrow> py_startswith p SESSION_PREFIX)"
proof -
  have auto: "py_startswith SESSION_AUTO SESSION_PREFIX"
    by (simp add: SESSION_AUTO_def SESSION_PREFIX_def lit_def)
  have a: "fst (lock_login1_auto env) = (if session_lock env SESSION_AUTO then RESULT_LOGIN1 else RESULT_FAILED)"
    "SessionLock p \<in> set (snd (lock_login1_auto env)) \<Longrightarrow> py_startswith p SESSION_PREFIX" for p
    using auto by (auto simp: lock_login1_auto_def lock_login1_session_def split: if_splits)
  have e: "fst (lock_login1_by_env env) \<in> {RESULT_LOGIN1, RESULT_FAILED}"
    "fst (lock_login1_by_env env) = RESULT_FAILED \<Longrightarrow> \<not> session_lock env SESSION_AUTO"
    "SessionLock p \<in> set (snd (lock_login1_by_env env)) \<Longrightarrow> py_startswith p SESSION_PREFIX" for p
    using a by (auto simp: lock_login1_by_env_def lock_login1_session_def split: if_splits option.splits prod.splits)
  have p: "fst (lock_login1_by_pid env) \<in> {RESULT_LOGIN1, RESULT_FAILED}"
    "fst (lock_login1_by_pid env) = RESULT_FAILED \<Longrightarrow> \<not> session_lock env SESSION_AUTO \<and>
      (\<forall>p. by_pid env = Some p \<longrightarrow> \<not> py_startswith p SESSION_PREFIX \<or> \<not> session_lock env p)"
    "SessionLock p \<in> set (snd (lock_login1_by_pid env)) \<Longrightarrow> py_startswith p SESSION_PREFIX" for p
    using e by (auto simp: lock_login1_by_pid_def lock_login1_session_def split: if_splits option.splits prod.splits)
  show ?thesis
    using p by (auto simp: desktop_lock_def split: option.splits prod.splits if_splits)
qed

definition demo_lock_env :: lock_env where
  "demo_lock_env = \<lparr>screensaver = Some (lit ''org.freedesktop.DBus.Error.ServiceUnknown''), by_pid = None,
     by_env = None, session_lock = (\<lambda>_. False), session_id = lit ''c1''\<rparr>"

theorem desktop_lock_routes_witness:
  "desktop_lock demo_lock_env = (RESULT_FAILED, [ScreenSaverLock, GetSessionByPID, GetSession (lit ''c1''), SessionLock SESSION_AUTO]) \<and>
   py_startswith SESSION_AUTO SESSION_PREFIX"
proof -
  have d: "desktop_lock demo_lock_env =
      (RESULT_FAILED, [ScreenSaverLock, GetSessionByPID, GetSession (lit ''c1''), SessionLock SESSION_AUTO])"
    by (simp add: desktop_lock_def demo_lock_env_def lock_login1_by_pid_def lock_login1_by_env_def lock_login1_auto_def
        lock_login1_session_def LOCK_NO_REPLY_ERRORS_def SESSION_AUTO_def SESSION_PREFIX_def lit_def)
  then show ?thesis using desktop_lock_routes [of demo_lock_env] by simp
qed

section \<open>The state machine\<close>

datatype lock_state = STATE_DISABLED | STATE_IDLE | STATE_ARMED | STATE_GRACE | STATE_LOCKED

datatype inhibitor = INHIBIT_SLEEP | INHIBIT_ADAPTER_OFF | INHIBIT_DISCOVERING | INHIBIT_RECOVERY
  | INHIBIT_FORGOTTEN | INHIBIT_STOPPED | INHIBIT_LOCAL_DISCONNECT

datatype pl_timer = GraceCb | SettleCb

datatype pl_call = LockSession nat | PlStatus

datatype pl_event = Seen | Away real | Unknown | Forgotten | Locked real int

type_synonym pl_public = "lock_state \<times> bool \<times> int \<times> inhibitor set \<times> lock_result option"

record ProximityLock =
  pl_enabled :: bool
  pl_grace :: int
  pl_settle_sec :: int
  pl_state :: lock_state
  pl_inhibitors :: "inhibitor set"
  pl_absent_since :: "real option"
  pl_timer_id :: "nat option"
  pl_settle_id :: "nat option"
  pl_last_result :: "lock_result option"
  pl_dispatching :: bool
  pl_generation :: nat
  pl_published :: pl_public
  pl_history :: "(pl_timer, pl_call) eff list"
  pl_requests :: "nat list"
  pl_log :: "pl_event list"

record pl_env =
  presence :: "bool option"
  pl_clock :: real
  locker_ok :: bool

record pl_config =
  pl_sched :: "(pl_timer, pl_call) eff list \<Rightarrow> nat"
  has_status :: bool

definition pl_public :: "ProximityLock \<Rightarrow> pl_public" where
  "pl_public s = (pl_state s, pl_enabled s, pl_grace s, pl_inhibitors s, pl_last_result s)"

definition ProximityLock_init :: "bool \<Rightarrow> int option \<Rightarrow> int \<Rightarrow> ProximityLock" where
  "ProximityLock_init enabled grace_sec settle_sec =
     (let st = (if enabled then STATE_IDLE else STATE_DISABLED); g = clamp_grace grace_sec DEFAULT_GRACE_SEC
      in \<lparr>pl_enabled = enabled, pl_grace = g, pl_settle_sec = max 1 settle_sec, pl_state = st, pl_inhibitors = {},
          pl_absent_since = None, pl_timer_id = None, pl_settle_id = None, pl_last_result = None,
          pl_dispatching = False, pl_generation = 0, pl_published = (st, enabled, g, {}, None),
          pl_history = [], pl_requests = [], pl_log = []\<rparr>)"

definition remaining_sec :: "real \<Rightarrow> ProximityLock \<Rightarrow> int" where
  "remaining_sec now s =
     (case (pl_state s, pl_absent_since s) of
        (STATE_GRACE, Some t) \<Rightarrow> max 0 \<lceil>t + real_of_int (pl_grace s) - now\<rceil>
      | _ \<Rightarrow> 0)"

definition emit_if_changed :: "pl_config \<Rightarrow> ProximityLock \<Rightarrow> ProximityLock" where
  "emit_if_changed cf s =
     (if pl_public s = pl_published s then s
      else let s' = s\<lparr>pl_published := pl_public s\<rparr>
        in if has_status cf then s'\<lparr>pl_history := Call PlStatus # pl_history s'\<rparr> else s')"

definition pl_cancel_timer :: "ProximityLock \<Rightarrow> ProximityLock" where
  "pl_cancel_timer s = (case pl_timer_id s of None \<Rightarrow> s
     | Some i \<Rightarrow> s\<lparr>pl_timer_id := None, pl_history := Cancel i # pl_history s\<rparr>)"

definition cancel_settle :: "ProximityLock \<Rightarrow> ProximityLock" where
  "cancel_settle s = (case pl_settle_id s of None \<Rightarrow> s
     | Some i \<Rightarrow> s\<lparr>pl_settle_id := None, pl_history := Cancel i # pl_history s\<rparr>)"

definition forget_presence :: "ProximityLock \<Rightarrow> ProximityLock" where
  "forget_presence s =
     (cancel_settle (pl_cancel_timer s))\<lparr>pl_absent_since := None, pl_log := Forgotten # pl_log s\<rparr>"

definition schedule_settle :: "pl_config \<Rightarrow> ProximityLock \<Rightarrow> ProximityLock" where
  "schedule_settle cf s =
     (let s1 = cancel_settle s
      in s1\<lparr>pl_settle_id := Some (pl_sched cf (pl_history s1)),
            pl_history := Schedule (pl_sched cf (pl_history s1)) (pl_settle_sec s1) SettleCb # pl_history s1\<rparr>)"

definition arm_timer :: "pl_config \<Rightarrow> pl_env \<Rightarrow> ProximityLock \<Rightarrow> ProximityLock" where
  "arm_timer cf env s =
     (let s1 = pl_cancel_timer s
      in case pl_absent_since s1 of None \<Rightarrow> s1
         | Some t \<Rightarrow>
             s1\<lparr>pl_timer_id := Some (pl_sched cf (pl_history s1)),
                pl_history := Schedule (pl_sched cf (pl_history s1))
                    (max 1 \<lceil>t + real_of_int (pl_grace s1) - pl_clock env\<rceil>) GraceCb # pl_history s1\<rparr>)"

definition observe :: "pl_config \<Rightarrow> pl_env \<Rightarrow> bool option \<Rightarrow> ProximityLock \<Rightarrow> ProximityLock" where
  "observe cf env present s =
     (case present of
        Some True \<Rightarrow> (cancel_settle (pl_cancel_timer s))
            \<lparr>pl_absent_since := None, pl_state := STATE_ARMED, pl_log := Seen # pl_log s\<rparr>
      | None \<Rightarrow> s\<lparr>pl_log := Unknown # pl_log s\<rparr>
      | Some False \<Rightarrow>
          let s1 = s\<lparr>pl_log := Away (pl_clock env) # pl_log s\<rparr>
          in if pl_state s1 = STATE_ARMED
             then arm_timer cf env (s1\<lparr>pl_absent_since := Some (pl_clock env), pl_state := STATE_GRACE\<rparr>)
             else s1)"

definition configure :: "pl_config \<Rightarrow> pl_env \<Rightarrow> bool \<Rightarrow> int option \<Rightarrow> ProximityLock \<Rightarrow> ProximityLock" where
  "configure cf env enabled grace_sec s =
     (let s1 = s\<lparr>pl_enabled := enabled, pl_grace := clamp_grace grace_sec DEFAULT_GRACE_SEC\<rparr>;
          s2 = (if \<not> enabled then (forget_presence s1)\<lparr>pl_state := STATE_DISABLED\<rparr>
                else if \<not> pl_enabled s then schedule_settle cf (s1\<lparr>pl_state := STATE_IDLE, pl_log := Forgotten # pl_log s1\<rparr>)
                else if pl_state s1 = STATE_GRACE then arm_timer cf env s1
                else s1)
      in emit_if_changed cf s2)"

definition bearer_changed :: "pl_config \<Rightarrow> pl_env \<Rightarrow> ProximityLock \<Rightarrow> ProximityLock" where
  "bearer_changed cf env s =
     (let s1 = (if presence env = Some True
                then s\<lparr>pl_inhibitors := pl_inhibitors s - {INHIBIT_LOCAL_DISCONNECT}\<rparr> else s);
          s2 = (if pl_enabled s1 \<and> pl_inhibitors s1 = {} then observe cf env (presence env) s1 else s1)
      in emit_if_changed cf s2)"

definition inhibit :: "pl_config \<Rightarrow> inhibitor \<Rightarrow> bool \<Rightarrow> ProximityLock \<Rightarrow> ProximityLock" where
  "inhibit cf reason active s =
     (let s1 = (if active \<and> reason \<notin> pl_inhibitors s
                then let t = forget_presence (s\<lparr>pl_inhibitors := insert reason (pl_inhibitors s)\<rparr>)
                  in if pl_enabled t then t\<lparr>pl_state := STATE_IDLE\<rparr> else t
                else if \<not> active \<and> reason \<in> pl_inhibitors s
                then let t = s\<lparr>pl_inhibitors := pl_inhibitors s - {reason}\<rparr>
                  in if pl_enabled t \<and> pl_inhibitors t = {} then schedule_settle cf t else t
                else s)
      in emit_if_changed cf s1)"

definition local_disconnect :: "pl_config \<Rightarrow> ProximityLock \<Rightarrow> ProximityLock" where
  "local_disconnect cf s = inhibit cf INHIBIT_LOCAL_DISCONNECT True s"

definition suspending :: "pl_config \<Rightarrow> ProximityLock \<Rightarrow> ProximityLock" where
  "suspending cf s = inhibit cf INHIBIT_SLEEP True s"

definition resumed :: "pl_config \<Rightarrow> ProximityLock \<Rightarrow> ProximityLock" where
  "resumed cf s = inhibit cf INHIBIT_SLEEP False s"

definition pl_reset :: "pl_config \<Rightarrow> ProximityLock \<Rightarrow> ProximityLock" where
  "pl_reset cf s =
     (let t = forget_presence s
      in emit_if_changed cf (if pl_enabled t then t\<lparr>pl_state := STATE_IDLE\<rparr> else t))"

definition pl_stop :: "ProximityLock \<Rightarrow> ProximityLock" where
  "pl_stop s =
     (let t = forget_presence (s\<lparr>pl_inhibitors := insert INHIBIT_STOPPED (pl_inhibitors s)\<rparr>)
      in t\<lparr>pl_generation := pl_generation t + 1\<rparr>)"

definition settled :: "pl_config \<Rightarrow> pl_env \<Rightarrow> ProximityLock \<Rightarrow> ProximityLock" where
  "settled cf env s0 =
     (let s = s0\<lparr>pl_settle_id := None\<rparr>
      in emit_if_changed cf
           (if pl_enabled s \<and> pl_inhibitors s = {} \<and> pl_state s = STATE_IDLE \<and> presence env = Some True
            then observe cf env (Some True) s else s))"

definition lock_done :: "pl_config \<Rightarrow> nat \<Rightarrow> lock_result \<Rightarrow> ProximityLock \<Rightarrow> ProximityLock" where
  "lock_done cf generation result s =
     (let s1 = s\<lparr>pl_dispatching := False\<rparr>
      in if generation \<noteq> pl_generation s1 then s1
         else emit_if_changed cf (s1\<lparr>pl_last_result := Some result\<rparr>))"

definition dispatch :: "pl_config \<Rightarrow> pl_env \<Rightarrow> ProximityLock \<Rightarrow> ProximityLock" where
  "dispatch cf env s =
     (let s1 = s\<lparr>pl_absent_since := None, pl_state := STATE_LOCKED, pl_log := Locked (pl_clock env) (pl_grace s) # pl_log s\<rparr>
      in if pl_dispatching s1 then s1
         else let s2 = s1\<lparr>pl_dispatching := True, pl_history := Call (LockSession (pl_generation s1)) # pl_history s1\<rparr>
           in if locker_ok env then s2\<lparr>pl_requests := pl_generation s2 # pl_requests s2\<rparr>
              else lock_done cf (pl_generation s2) RESULT_FAILED s2)"

definition grace_elapsed :: "pl_config \<Rightarrow> pl_env \<Rightarrow> ProximityLock \<Rightarrow> ProximityLock" where
  "grace_elapsed cf env s0 =
     (let s = s0\<lparr>pl_timer_id := None\<rparr>
      in if \<not> pl_enabled s \<or> pl_inhibitors s \<noteq> {} \<or> pl_state s \<noteq> STATE_GRACE then s
         else case pl_absent_since s of
           None \<Rightarrow> s
         | Some since \<Rightarrow>
             emit_if_changed cf
               (if presence env = Some True then observe cf env (Some True) s
                else if presence env = None
                then s\<lparr>pl_absent_since := None, pl_state := STATE_IDLE, pl_log := Forgotten # pl_log s\<rparr>
                else if pl_clock env < since + real_of_int (pl_grace s) then arm_timer cf env s
                else dispatch cf env s))"

definition pl_fire :: "pl_config \<Rightarrow> pl_env \<Rightarrow> pl_timer \<Rightarrow> ProximityLock \<Rightarrow> ProximityLock" where
  "pl_fire cf env f s = (case f of GraceCb \<Rightarrow> grace_elapsed cf env s | SettleCb \<Rightarrow> settled cf env s)"

inductive pl_step :: "pl_config \<Rightarrow> ProximityLock \<Rightarrow> ProximityLock \<Rightarrow> bool" for cf where
  pl_configure: "pl_step cf s (configure cf env enabled grace s)"
| pl_bearer: "pl_step cf s (bearer_changed cf env s)"
| pl_inhibit: "reason \<noteq> INHIBIT_STOPPED \<Longrightarrow> pl_step cf s (inhibit cf reason active s)"
| pl_resets: "pl_step cf s (pl_reset cf s)"
| pl_stops: "pl_step cf s (pl_stop s)"
| pl_answer: "pl_requests s = xs @ g # ys \<Longrightarrow> pl_step cf s (lock_done cf g result (s\<lparr>pl_requests := xs @ ys\<rparr>))"
| pl_fires: "i \<in> live (pl_history s) \<Longrightarrow> callback_of i (pl_history s) = Some f \<Longrightarrow> t = pl_fire cf env f s \<Longrightarrow>
    pl_step cf s (t\<lparr>pl_history := Expired i # pl_history t\<rparr>)"

definition pl_started :: "pl_config \<Rightarrow> ProximityLock \<Rightarrow> bool" where
  "pl_started cf s \<longleftrightarrow> fresh_ids (pl_sched cf) \<and> (\<exists>e g t. s = ProximityLock_init e g t)"

section \<open>When the desktop may be locked\<close>

text \<open>The newest evidence says that the phone is here (newest event first).\<close>

fun armed :: "pl_event list \<Rightarrow> bool" where
  "armed (Seen # l) = True"
| "armed (Unknown # l) = armed l"
| "armed _ = False"

text \<open>Since when the phone, seen before, has been observed away with nothing in between.\<close>

fun away_since :: "pl_event list \<Rightarrow> real option" where
  "away_since (Away u # l) = (if armed l then Some u else away_since l)"
| "away_since (Unknown # l) = away_since l"
| "away_since _ = None"

fun locks_justified :: "pl_event list \<Rightarrow> bool" where
  "locks_justified [] = True"
| "locks_justified (Locked t g # l) =
     ((case away_since l of None \<Rightarrow> False | Some u \<Rightarrow> u + real_of_int g \<le> t) \<and> MIN_GRACE_SEC \<le> g \<and> locks_justified l)"
| "locks_justified (_ # l) = locks_justified l"

definition evidence_inv :: "ProximityLock \<Rightarrow> bool" where
  "evidence_inv s \<longleftrightarrow> locks_justified (pl_log s) \<and> MIN_GRACE_SEC \<le> pl_grace s \<and> pl_grace s \<le> MAX_GRACE_SEC \<and>
     (INHIBIT_STOPPED \<notin> pl_inhibitors s \<longrightarrow>
        (pl_state s = STATE_ARMED \<longleftrightarrow> armed (pl_log s)) \<and>
        (pl_state s = STATE_GRACE \<longleftrightarrow> away_since (pl_log s) \<noteq> None) \<and>
        pl_absent_since s = away_since (pl_log s) \<and>
        (pl_state s = STATE_DISABLED \<longleftrightarrow> \<not> pl_enabled s) \<and>
        (pl_state s = STATE_ARMED \<or> pl_state s = STATE_GRACE \<longrightarrow> pl_inhibitors s = {}))"

definition lock_inv :: "ProximityLock \<Rightarrow> bool" where
  "lock_inv s \<longleftrightarrow> evidence_inv s \<and>
     (INHIBIT_STOPPED \<notin> pl_inhibitors s \<longrightarrow> pl_state s = STATE_GRACE \<longrightarrow> pl_timer_id s \<noteq> None)"

section \<open>Timers\<close>

definition pl_owns :: "nat set \<Rightarrow> ProximityLock \<Rightarrow> bool" where
  "pl_owns X s \<longleftrightarrow>
     live (pl_history s) = timer_set [pl_timer_id s, pl_settle_id s] \<union> X \<and>
     timer_set [pl_timer_id s, pl_settle_id s] \<inter> X = {} \<and>
     (\<forall>i. pl_timer_id s = Some i \<longrightarrow> callback_of i (pl_history s) = Some GraceCb) \<and>
     (\<forall>i. pl_settle_id s = Some i \<longrightarrow> callback_of i (pl_history s) = Some SettleCb)"

lemma pl_owns_update [simp]:
  "pl_owns X (s\<lparr>pl_enabled := b\<rparr>) = pl_owns X s"
  "pl_owns X (s\<lparr>pl_grace := g\<rparr>) = pl_owns X s"
  "pl_owns X (s\<lparr>pl_state := st\<rparr>) = pl_owns X s"
  "pl_owns X (s\<lparr>pl_inhibitors := I\<rparr>) = pl_owns X s"
  "pl_owns X (s\<lparr>pl_absent_since := a\<rparr>) = pl_owns X s"
  "pl_owns X (s\<lparr>pl_last_result := r\<rparr>) = pl_owns X s"
  "pl_owns X (s\<lparr>pl_dispatching := b\<rparr>) = pl_owns X s"
  "pl_owns X (s\<lparr>pl_generation := n\<rparr>) = pl_owns X s"
  "pl_owns X (s\<lparr>pl_published := pub\<rparr>) = pl_owns X s"
  "pl_owns X (s\<lparr>pl_requests := q\<rparr>) = pl_owns X s"
  "pl_owns X (s\<lparr>pl_log := l\<rparr>) = pl_owns X s"
  "pl_owns X (s\<lparr>pl_history := Call e # pl_history s\<rparr>) = pl_owns X s"
  by (simp_all add: pl_owns_def)

lemma pl_cancel_frame [simp]:
  "pl_enabled (pl_cancel_timer s) = pl_enabled s"
  "pl_grace (pl_cancel_timer s) = pl_grace s"
  "pl_settle_sec (pl_cancel_timer s) = pl_settle_sec s"
  "pl_state (pl_cancel_timer s) = pl_state s"
  "pl_inhibitors (pl_cancel_timer s) = pl_inhibitors s"
  "pl_absent_since (pl_cancel_timer s) = pl_absent_since s"
  "pl_settle_id (pl_cancel_timer s) = pl_settle_id s"
  "pl_last_result (pl_cancel_timer s) = pl_last_result s"
  "pl_dispatching (pl_cancel_timer s) = pl_dispatching s"
  "pl_generation (pl_cancel_timer s) = pl_generation s"
  "pl_published (pl_cancel_timer s) = pl_published s"
  "pl_requests (pl_cancel_timer s) = pl_requests s"
  "pl_log (pl_cancel_timer s) = pl_log s"
  "pl_enabled (cancel_settle s) = pl_enabled s"
  "pl_grace (cancel_settle s) = pl_grace s"
  "pl_settle_sec (cancel_settle s) = pl_settle_sec s"
  "pl_state (cancel_settle s) = pl_state s"
  "pl_inhibitors (cancel_settle s) = pl_inhibitors s"
  "pl_absent_since (cancel_settle s) = pl_absent_since s"
  "pl_timer_id (cancel_settle s) = pl_timer_id s"
  "pl_last_result (cancel_settle s) = pl_last_result s"
  "pl_dispatching (cancel_settle s) = pl_dispatching s"
  "pl_generation (cancel_settle s) = pl_generation s"
  "pl_published (cancel_settle s) = pl_published s"
  "pl_requests (cancel_settle s) = pl_requests s"
  "pl_log (cancel_settle s) = pl_log s"
  "pl_timer_id (pl_cancel_timer s) = None" "pl_settle_id (cancel_settle s) = None"
  by (simp_all add: pl_cancel_timer_def cancel_settle_def split: option.split)

lemma pl_emit_frame [simp]:
  "pl_enabled (emit_if_changed cf s) = pl_enabled s"
  "pl_grace (emit_if_changed cf s) = pl_grace s"
  "pl_settle_sec (emit_if_changed cf s) = pl_settle_sec s"
  "pl_state (emit_if_changed cf s) = pl_state s"
  "pl_inhibitors (emit_if_changed cf s) = pl_inhibitors s"
  "pl_absent_since (emit_if_changed cf s) = pl_absent_since s"
  "pl_timer_id (emit_if_changed cf s) = pl_timer_id s"
  "pl_settle_id (emit_if_changed cf s) = pl_settle_id s"
  "pl_last_result (emit_if_changed cf s) = pl_last_result s"
  "pl_dispatching (emit_if_changed cf s) = pl_dispatching s"
  "pl_generation (emit_if_changed cf s) = pl_generation s"
  "pl_requests (emit_if_changed cf s) = pl_requests s"
  "pl_log (emit_if_changed cf s) = pl_log s"
  "pl_owns X (emit_if_changed cf s) = pl_owns X s"
  by (simp_all add: emit_if_changed_def Let_def pl_owns_def)

lemma pl_forget_frame [simp]:
  "pl_enabled (forget_presence s) = pl_enabled s"
  "pl_grace (forget_presence s) = pl_grace s"
  "pl_settle_sec (forget_presence s) = pl_settle_sec s"
  "pl_state (forget_presence s) = pl_state s"
  "pl_inhibitors (forget_presence s) = pl_inhibitors s"
  "pl_last_result (forget_presence s) = pl_last_result s"
  "pl_dispatching (forget_presence s) = pl_dispatching s"
  "pl_generation (forget_presence s) = pl_generation s"
  "pl_published (forget_presence s) = pl_published s"
  "pl_requests (forget_presence s) = pl_requests s"
  "pl_timer_id (forget_presence s) = None" "pl_absent_since (forget_presence s) = None"
  "pl_log (forget_presence s) = Forgotten # pl_log s"
  by (simp_all add: forget_presence_def)

lemma pl_settle_frame [simp]:
  "pl_enabled (schedule_settle cf s) = pl_enabled s"
  "pl_grace (schedule_settle cf s) = pl_grace s"
  "pl_settle_sec (schedule_settle cf s) = pl_settle_sec s"
  "pl_state (schedule_settle cf s) = pl_state s"
  "pl_inhibitors (schedule_settle cf s) = pl_inhibitors s"
  "pl_absent_since (schedule_settle cf s) = pl_absent_since s"
  "pl_timer_id (schedule_settle cf s) = pl_timer_id s"
  "pl_last_result (schedule_settle cf s) = pl_last_result s"
  "pl_dispatching (schedule_settle cf s) = pl_dispatching s"
  "pl_generation (schedule_settle cf s) = pl_generation s"
  "pl_published (schedule_settle cf s) = pl_published s"
  "pl_requests (schedule_settle cf s) = pl_requests s"
  "pl_log (schedule_settle cf s) = pl_log s"
  by (simp_all add: schedule_settle_def Let_def)

lemma pl_arm_frame [simp]:
  "pl_enabled (arm_timer cf env s) = pl_enabled s"
  "pl_grace (arm_timer cf env s) = pl_grace s"
  "pl_settle_sec (arm_timer cf env s) = pl_settle_sec s"
  "pl_state (arm_timer cf env s) = pl_state s"
  "pl_inhibitors (arm_timer cf env s) = pl_inhibitors s"
  "pl_absent_since (arm_timer cf env s) = pl_absent_since s"
  "pl_settle_id (arm_timer cf env s) = pl_settle_id s"
  "pl_last_result (arm_timer cf env s) = pl_last_result s"
  "pl_dispatching (arm_timer cf env s) = pl_dispatching s"
  "pl_generation (arm_timer cf env s) = pl_generation s"
  "pl_published (arm_timer cf env s) = pl_published s"
  "pl_requests (arm_timer cf env s) = pl_requests s"
  "pl_log (arm_timer cf env s) = pl_log s"
  "pl_timer_id (arm_timer cf env s) \<noteq> None \<longleftrightarrow> pl_absent_since s \<noteq> None"
  by (simp_all add: arm_timer_def Let_def split: option.split)

lemma pl_owns_cancel: "pl_owns X s \<Longrightarrow> pl_owns X (pl_cancel_timer s)" "pl_owns X s \<Longrightarrow> pl_owns X (cancel_settle s)"
  by (cases "pl_timer_id s"; cases "pl_settle_id s"; force simp: pl_owns_def pl_cancel_timer_def cancel_settle_def)+

lemma pl_owns_forget: "pl_owns X s \<Longrightarrow> pl_owns X (forget_presence s)"
  by (simp add: forget_presence_def pl_owns_cancel)

lemma pl_owns_arm_grace:
  "pl_owns X s \<Longrightarrow> pl_timer_id s = None \<Longrightarrow> i \<notin> live (pl_history s) \<Longrightarrow>
     pl_owns X (s\<lparr>pl_timer_id := Some i, pl_history := Schedule i d GraceCb # pl_history s\<rparr>)"
  by (cases "pl_settle_id s") (auto simp: pl_owns_def)

lemma pl_owns_arm_settle:
  "pl_owns X s \<Longrightarrow> pl_settle_id s = None \<Longrightarrow> i \<notin> live (pl_history s) \<Longrightarrow>
     pl_owns X (s\<lparr>pl_settle_id := Some i, pl_history := Schedule i d SettleCb # pl_history s\<rparr>)"
  by (cases "pl_timer_id s") (auto simp: pl_owns_def)

lemma pl_owns_settle: "fresh_ids (pl_sched cf) \<Longrightarrow> pl_owns X s \<Longrightarrow> pl_owns X (schedule_settle cf s)"
  by (simp add: schedule_settle_def Let_def pl_owns_arm_settle pl_owns_cancel fresh_ids_live)

lemma pl_owns_arm: "fresh_ids (pl_sched cf) \<Longrightarrow> pl_owns X s \<Longrightarrow> pl_owns X (arm_timer cf env s)"
  by (simp add: arm_timer_def Let_def pl_owns_arm_grace pl_owns_cancel fresh_ids_live split: option.split)

lemma pl_owns_observe: "fresh_ids (pl_sched cf) \<Longrightarrow> pl_owns X s \<Longrightarrow> pl_owns X (observe cf env p s)"
  by (simp add: observe_def Let_def pl_owns_arm pl_owns_cancel split: option.split bool.split)

lemma pl_owns_done: "pl_owns X s \<Longrightarrow> pl_owns X (lock_done cf g r s)"
  by (simp add: lock_done_def Let_def)

lemma pl_owns_dispatch:
  assumes "pl_owns X s" shows "pl_owns X (dispatch cf env s)"
proof -
  have "pl_owns X (s\<lparr>pl_absent_since := None, pl_state := st, pl_log := l, pl_dispatching := True,
      pl_history := Call e # pl_history s\<rparr>)" for st l e using assms by (simp add: pl_owns_def)
  with assms show ?thesis by (simp add: dispatch_def Let_def pl_owns_done)
qed

lemma pl_owns_fire:
  assumes "fresh_ids (pl_sched cf)" "pl_owns {} s" "i \<in> live (pl_history s)" "callback_of i (pl_history s) = Some f"
  shows "pl_owns {i} (pl_fire cf env f s)"
proof (cases f)
  case GraceCb
  with assms(2-4) have "pl_timer_id s = Some i" "pl_settle_id s \<noteq> Some i"
    by (cases "pl_timer_id s"; cases "pl_settle_id s"; auto simp: pl_owns_def)+
  with assms(2) have "pl_owns {i} (s\<lparr>pl_timer_id := None\<rparr>)"
    by (cases "pl_settle_id s") (auto simp: pl_owns_def)
  with GraceCb assms(1) show ?thesis
    by (simp add: pl_fire_def grace_elapsed_def Let_def pl_owns_observe pl_owns_arm pl_owns_dispatch split: option.split)
next
  case SettleCb
  with assms(2-4) have "pl_settle_id s = Some i" "pl_timer_id s \<noteq> Some i"
    by (cases "pl_timer_id s"; cases "pl_settle_id s"; auto simp: pl_owns_def)+
  with assms(2) have "pl_owns {i} (s\<lparr>pl_settle_id := None\<rparr>)"
    by (cases "pl_timer_id s") (auto simp: pl_owns_def)
  with SettleCb assms(1) show ?thesis by (simp add: pl_fire_def settled_def Let_def pl_owns_observe)
qed

lemma pl_owns_step: "pl_step cf s t \<Longrightarrow> fresh_ids (pl_sched cf) \<Longrightarrow> pl_owns {} s \<Longrightarrow> pl_owns {} t"
proof (induction rule: pl_step.induct)
  case (pl_fires i s f t env)
  with pl_owns_fire have "pl_owns {i} t" by blast
  then show ?case by (auto simp: pl_owns_def)
qed (simp_all add: configure_def bearer_changed_def inhibit_def pl_reset_def pl_stop_def Let_def
    pl_owns_forget pl_owns_settle pl_owns_arm pl_owns_observe pl_owns_done)

section \<open>Evidence\<close>

lemma clamp_grace_range: "MIN_GRACE_SEC \<le> clamp_grace g DEFAULT_GRACE_SEC \<and> clamp_grace g DEFAULT_GRACE_SEC \<le> MAX_GRACE_SEC"
  by (auto simp: clamp_grace_def consts_defs split: option.split)

lemma lock_inv_frame [simp]:
  "lock_inv (emit_if_changed cf s) = lock_inv s" "lock_inv (schedule_settle cf s) = lock_inv s"
  "lock_inv (s\<lparr>pl_settle_id := i\<rparr>) = lock_inv s" "lock_inv (s\<lparr>pl_requests := q\<rparr>) = lock_inv s"
  "lock_inv (s\<lparr>pl_history := h\<rparr>) = lock_inv s"
  by (simp_all add: lock_inv_def evidence_inv_def)

lemma lock_inv_done [simp]: "lock_inv (lock_done cf g r s) = lock_inv s"
  by (simp add: lock_done_def Let_def lock_inv_def evidence_inv_def)

lemma armed_away: "armed l \<Longrightarrow> away_since l = None"
  by (induction l rule: armed.induct) simp_all

lemma lock_inv_seen:
  "evidence_inv s \<Longrightarrow> pl_enabled s \<Longrightarrow> pl_inhibitors s = {} \<Longrightarrow> lock_inv (observe cf env (Some True) s)"
  by (simp add: observe_def lock_inv_def evidence_inv_def)

lemma lock_inv_observe:
  assumes "lock_inv s" "pl_enabled s" "pl_inhibitors s = {}"
  shows "lock_inv (observe cf env present s)"
proof (cases present)
  case None
  with assms show ?thesis by (simp add: observe_def lock_inv_def evidence_inv_def)
next
  case (Some b)
  show ?thesis
  proof (cases b)
    case True
    with Some assms show ?thesis using lock_inv_seen by (simp add: lock_inv_def)
  next
    case False
    from assms have "pl_state s = STATE_ARMED \<longleftrightarrow> armed (pl_log s)" "pl_state s = STATE_GRACE \<longleftrightarrow> away_since (pl_log s) \<noteq> None"
      by (simp_all add: lock_inv_def evidence_inv_def)
    with Some False assms show ?thesis
      by (cases "pl_state s = STATE_ARMED") (simp_all add: observe_def Let_def lock_inv_def evidence_inv_def
          del: not_None_eq)
  qed
qed

lemma lock_inv_forget:
  "lock_inv s \<Longrightarrow> MIN_GRACE_SEC \<le> g \<and> g \<le> MAX_GRACE_SEC \<Longrightarrow> st \<noteq> STATE_ARMED \<Longrightarrow> st \<noteq> STATE_GRACE \<Longrightarrow>
     st = STATE_DISABLED \<longleftrightarrow> \<not> e \<Longrightarrow>
     lock_inv ((forget_presence (s\<lparr>pl_enabled := e, pl_grace := g, pl_inhibitors := I\<rparr>))\<lparr>pl_state := st\<rparr>)"
  by (simp add: lock_inv_def evidence_inv_def)

lemma lock_inv_configure: "lock_inv s \<Longrightarrow> lock_inv (configure cf env enabled g s)"
proof -
  let ?g = "clamp_grace g DEFAULT_GRACE_SEC"
  assume s: "lock_inv s"
  have "lock_inv ((forget_presence (s\<lparr>pl_enabled := False, pl_grace := ?g\<rparr>))\<lparr>pl_state := STATE_DISABLED\<rparr>)"
    using lock_inv_forget [OF s clamp_grace_range, of STATE_DISABLED False "pl_inhibitors s"] by simp
  moreover have "lock_inv (s\<lparr>pl_enabled := True, pl_grace := ?g, pl_state := STATE_IDLE, pl_log := Forgotten # pl_log s\<rparr>)"
    if "\<not> pl_enabled s" using s that clamp_grace_range [of g] by (auto simp: lock_inv_def evidence_inv_def)
  moreover have "lock_inv (arm_timer cf env (s\<lparr>pl_enabled := True, pl_grace := ?g\<rparr>))"
    if "pl_enabled s" using s that clamp_grace_range [of g] by (auto simp: lock_inv_def evidence_inv_def simp del: not_None_eq)
  moreover have "lock_inv (s\<lparr>pl_enabled := True, pl_grace := ?g\<rparr>)"
    if "pl_enabled s" using s that clamp_grace_range [of g] by (simp add: lock_inv_def evidence_inv_def)
  ultimately show ?thesis by (simp add: configure_def Let_def)
qed

lemma lock_inv_inhibitor: "lock_inv s \<Longrightarrow> reason \<noteq> INHIBIT_STOPPED \<Longrightarrow> lock_inv (s\<lparr>pl_inhibitors := pl_inhibitors s - {reason}\<rparr>)"
  by (auto simp: lock_inv_def evidence_inv_def)

lemma lock_inv_bearer: "lock_inv s \<Longrightarrow> lock_inv (bearer_changed cf env s)"
  by (simp add: bearer_changed_def Let_def lock_inv_observe lock_inv_inhibitor)

lemma lock_inv_idle:
  assumes "lock_inv s" "pl_inhibitors s \<subseteq> I" "t = forget_presence (s\<lparr>pl_inhibitors := I\<rparr>)"
  shows "lock_inv (if pl_enabled s then t\<lparr>pl_state := STATE_IDLE\<rparr> else t)"
  using assms by (cases "pl_enabled s") (auto simp: lock_inv_def evidence_inv_def)

lemma lock_inv_inhibit: "lock_inv s \<Longrightarrow> reason \<noteq> INHIBIT_STOPPED \<Longrightarrow> lock_inv (inhibit cf reason active s)"
  using lock_inv_idle [of s "insert reason (pl_inhibitors s)", OF _ subset_insertI refl]
  by (auto simp: inhibit_def Let_def lock_inv_inhibitor)

lemma lock_inv_reset: "lock_inv s \<Longrightarrow> lock_inv (pl_reset cf s)"
proof -
  have "s\<lparr>pl_inhibitors := pl_inhibitors s\<rparr> = s" by (cases s) simp
  then show "lock_inv s \<Longrightarrow> lock_inv (pl_reset cf s)"
    using lock_inv_idle [of s "pl_inhibitors s", OF _ order_refl refl] by (simp add: pl_reset_def Let_def split: if_splits)
qed

lemma lock_inv_stop: "lock_inv s \<Longrightarrow> lock_inv (pl_stop s)"
  by (simp add: pl_stop_def Let_def lock_inv_def evidence_inv_def)

lemma lock_inv_dispatch:
  assumes "evidence_inv s" "pl_inhibitors s = {}" "pl_enabled s" "pl_absent_since s = Some u"
    and "u + real_of_int (pl_grace s) \<le> pl_clock env"
  shows "lock_inv (dispatch cf env s)"
proof -
  have "away_since (pl_log s) = Some u" using assms(1,2,4) by (simp add: evidence_inv_def)
  with assms(1,2,3,5)
  have "lock_inv (s\<lparr>pl_absent_since := None, pl_state := STATE_LOCKED,
      pl_log := Locked (pl_clock env) (pl_grace s) # pl_log s, pl_dispatching := b, pl_history := h\<rparr>)"
    "lock_inv (s\<lparr>pl_absent_since := None, pl_state := STATE_LOCKED,
      pl_log := Locked (pl_clock env) (pl_grace s) # pl_log s\<rparr>)" for b h
    by (simp_all add: lock_inv_def evidence_inv_def)
  then show ?thesis by (simp add: dispatch_def Let_def)
qed

lemma lock_inv_fire: "lock_inv s \<Longrightarrow> lock_inv (pl_fire cf env f s)"
proof (cases f)
  case SettleCb
  assume "lock_inv s"
  then show ?thesis using SettleCb lock_inv_observe [of "s\<lparr>pl_settle_id := None\<rparr>"]
    by (simp add: pl_fire_def settled_def Let_def)
next
  case GraceCb
  assume inv: "lock_inv s"
  let ?s = "s\<lparr>pl_timer_id := None\<rparr>"
  have e: "evidence_inv ?s" using inv by (simp add: lock_inv_def evidence_inv_def)
  show ?thesis
  proof (cases "\<not> pl_enabled s \<or> pl_inhibitors s \<noteq> {} \<or> pl_state s \<noteq> STATE_GRACE")
    case True
    with inv have "lock_inv ?s" by (auto simp: lock_inv_def evidence_inv_def)
    then show ?thesis using True GraceCb by (simp add: pl_fire_def grace_elapsed_def Let_def)
  next
    case False
    then obtain u where u: "pl_absent_since s = Some u"
      using inv by (auto simp: lock_inv_def evidence_inv_def)
    have "lock_inv (observe cf env (Some True) ?s)" using lock_inv_seen [OF e] False by simp
    moreover have "lock_inv (arm_timer cf env ?s)"
      using e False u by (auto simp: lock_inv_def evidence_inv_def simp del: not_None_eq)
    moreover have "lock_inv (s\<lparr>pl_timer_id := None, pl_absent_since := None, pl_state := STATE_IDLE, pl_log := Forgotten # pl_log s\<rparr>)"
      using e False by (simp add: lock_inv_def evidence_inv_def)
    moreover have "lock_inv (dispatch cf env ?s)" if "\<not> pl_clock env < u + real_of_int (pl_grace s)"
      using lock_inv_dispatch [OF e] False u that by simp
    ultimately show ?thesis using False u GraceCb by (simp add: pl_fire_def grace_elapsed_def Let_def)
  qed
qed

lemma lock_inv_step: "pl_step cf s t \<Longrightarrow> lock_inv s \<Longrightarrow> lock_inv t"
  by (induction rule: pl_step.induct)
    (simp_all add: lock_inv_configure lock_inv_bearer lock_inv_inhibit lock_inv_reset lock_inv_stop lock_inv_fire)

interpretation proximity_run: timer_owner "pl_started cf" "pl_step cf"
  "\<lambda>s. fresh_ids (pl_sched cf) \<and> pl_owns {} s \<and> lock_inv s" pl_history "\<lambda>s. [pl_timer_id s, pl_settle_id s]"
proof
  fix s t
  show "pl_started cf s \<Longrightarrow> fresh_ids (pl_sched cf) \<and> pl_owns {} s \<and> lock_inv s"
    using clamp_grace_range
    by (auto simp: pl_started_def ProximityLock_init_def Let_def pl_owns_def lock_inv_def evidence_inv_def
        split: if_splits)
  show "fresh_ids (pl_sched cf) \<and> pl_owns {} s \<and> lock_inv s \<Longrightarrow> pl_step cf s t \<Longrightarrow>
      fresh_ids (pl_sched cf) \<and> pl_owns {} t \<and> lock_inv t"
    using pl_owns_step lock_inv_step by blast
  show "fresh_ids (pl_sched cf) \<and> pl_owns {} s \<and> lock_inv s \<Longrightarrow>
      live (pl_history s) = timer_set [pl_timer_id s, pl_settle_id s]"
    by (simp add: pl_owns_def)
qed


text \<open>
  a grace period never gets lost: in every run, while the lock is counting down and the daemon is not
  stopping, it is enabled, nothing inhibits it, and a live timer is there to end the countdown; the live
  timers are exactly the countdown and the settle timer.
\<close>

theorem proximity_countdown_live:
  assumes "reachable (pl_started cf) (pl_step cf) s"
  shows "live (pl_history s) = timer_set [pl_timer_id s, pl_settle_id s] \<and>
    (pl_state s = STATE_GRACE \<and> INHIBIT_STOPPED \<notin> pl_inhibitors s \<longrightarrow>
      pl_enabled s \<and> pl_inhibitors s = {} \<and> (\<exists>i \<in> live (pl_history s). callback_of i (pl_history s) = Some GraceCb))"
proof -
  from proximity_run.reachable_inv [OF assms] have o: "pl_owns {} s" and l: "lock_inv s" by simp_all
  have "\<exists>i \<in> live (pl_history s). callback_of i (pl_history s) = Some GraceCb" if "pl_timer_id s \<noteq> None"
    using o that by (auto simp: pl_owns_def)
  with o l show ?thesis by (auto simp: pl_owns_def lock_inv_def evidence_inv_def)
qed

definition demo_pl_config :: pl_config where
  "demo_pl_config = \<lparr>pl_sched = (\<lambda>h. Suc (top_id h)), has_status = True\<rparr>"

definition pl_at :: "bool option \<Rightarrow> real \<Rightarrow> pl_env" where
  "pl_at p t = \<lparr>presence = p, pl_clock = t, locker_ok = True\<rparr>"

definition demo_counting :: ProximityLock where
  "demo_counting = bearer_changed demo_pl_config (pl_at (Some False) 100)
     (bearer_changed demo_pl_config (pl_at (Some True) 0) (ProximityLock_init True (Some 30) 6))"

definition demo_locked :: ProximityLock where
  "demo_locked = (let t = grace_elapsed demo_pl_config (pl_at (Some False) 130) demo_counting
     in t\<lparr>pl_history := Expired 1 # pl_history t\<rparr>)"

lemmas pl_eval = demo_locked_def demo_counting_def demo_pl_config_def pl_at_def bearer_changed_def observe_def
  emit_if_changed_def arm_timer_def pl_cancel_timer_def cancel_settle_def grace_elapsed_def dispatch_def
  ProximityLock_init_def clamp_grace_def pl_public_def Let_def consts_defs

lemma demo_counting_reachable: "reachable (pl_started demo_pl_config) (pl_step demo_pl_config) demo_counting"
proof -
  have "reachable (pl_started demo_pl_config) (pl_step demo_pl_config) (ProximityLock_init True (Some 30) 6)"
    by (rule reachable.start) (auto simp: pl_started_def demo_pl_config_def fresh_ids_top)
  then show ?thesis unfolding demo_counting_def by (blast intro: reachable.next_state pl_step.pl_bearer)
qed

theorem proximity_countdown_live_witness:
  "pl_state demo_counting = STATE_GRACE \<and> (\<exists>i \<in> live (pl_history demo_counting). callback_of i (pl_history demo_counting) = Some GraceCb)"
proof -
  have "pl_state demo_counting = STATE_GRACE" "INHIBIT_STOPPED \<notin> pl_inhibitors demo_counting"
    by (simp_all add: pl_eval)
  with proximity_countdown_live [OF demo_counting_reachable] show ?thesis by blast
qed


end
