(* ===== verification/Ams.thy ===== *)
theory Ams
  imports Utf8 "HOL-Library.Sublist" "HOL-Library.List_Lexorder" "HOL-Library.Char_ord"
begin

text \<open>
  The Apple Media Service: wire format (\<open>ams/parsers.py\<close>, \<open>ams/constants.py\<close>) and the now-playing
  projection (\<open>ams/state.py\<close>). Python's \<open>float\<close> and \<open>int\<close> readers are parameters (\<open>num_reader\<close>): what
  they give for a text, \<open>None\<close> when they raise, infinities and NaN kept apart.
  The lemmas show that whatever the phone sends, the projection stays in range and its position inside
  the track, that a malformed value changes nothing, and that the identifier of a track changes exactly
  with the track and survives the completion of a truncated value.
\<close>

section \<open>Wire format\<close>

definition MAX_AMS_VALUE_BYTES :: nat where [consts_defs]: "MAX_AMS_VALUE_BYTES = 8 * 1024"
definition MAX_REMOTE_PROPERTY_CHARS :: nat where [consts_defs]: "MAX_REMOTE_PROPERTY_CHARS = 512"

datatype ams_error = Update_too_short | Value_too_large | Command_list_too_long | Unknown_command
  | Unknown_entity | No_attributes | Unknown_attribute | Not_a_number | Not_finite | Not_three_fields
  | Rate_out_of_range | Elapsed_out_of_range | Volume_out_of_range | Duration_out_of_range | Queue_out_of_range

definition REMOTE_COMMAND_VALUES :: "int list" where
  "REMOTE_COMMAND_VALUES = [0..13]"

text \<open>Entities Player, Queue and Track, with the attributes that AMS defines for them.\<close>

definition Player :: nat where [consts_defs]: "Player = 0"
definition Queue :: nat where [consts_defs]: "Queue = 1"
definition Track :: nat where [consts_defs]: "Track = 2"

definition ENTITY_ATTRIBUTES :: "int \<Rightarrow> int list option" where
  "ENTITY_ATTRIBUTES entity =
     (if entity = 0 then Some [0, 1, 2] else if entity = 1 then Some [0, 1, 2, 3]
      else if entity = 2 then Some [0, 1, 2, 3] else None)"

record EntityUpdate =
  eu_entity :: nat
  eu_attribute :: nat
  eu_truncated :: bool
  eu_value :: pystr

definition rstrip_replacement :: "pystr \<Rightarrow> pystr" where
  "rstrip_replacement s = rev (dropWhile (\<lambda>c. c = replacement) (rev s))"

definition EntityUpdate_parse :: "byte list \<Rightarrow> ams_error + EntityUpdate" where
  "EntityUpdate_parse raw =
     (case raw of
        e # a # f # v \<Rightarrow>
          if MAX_AMS_VALUE_BYTES < length v then Inl Value_too_large
          else let truncated = odd (unat f);
                   text = utf8_decode v
            in Inr \<lparr>eu_entity = unat e, eu_attribute = unat a, eu_truncated = truncated,
                    eu_value = (if truncated then rstrip_replacement text else text)\<rparr>
      | _ \<Rightarrow> Inl Update_too_short)"

definition decode_attribute_value :: "byte list \<Rightarrow> ams_error + pystr" where
  "decode_attribute_value raw =
     (if MAX_AMS_VALUE_BYTES < length raw then Inl Value_too_large else Inr (utf8_decode raw))"

definition parse_supported_commands :: "byte list \<Rightarrow> ams_error + int set" where
  "parse_supported_commands raw =
     (if 256 < length raw then Inl Command_list_too_long
      else Inr (set (filter (\<lambda>v. v \<in> set REMOTE_COMMAND_VALUES) (map (\<lambda>b. int (unat b)) raw))))"

definition build_remote_command :: "int \<Rightarrow> ams_error + byte list" where
  "build_remote_command command =
     (if command \<notin> set REMOTE_COMMAND_VALUES then Inl Unknown_command else Inr [byte_of (nat command)])"

definition build_entity_update_registration :: "int \<Rightarrow> int list \<Rightarrow> ams_error + byte list" where
  "build_entity_update_registration entity attributes =
     (case ENTITY_ATTRIBUTES entity of
        None \<Rightarrow> Inl Unknown_entity
      | Some allowed \<Rightarrow>
          if attributes = [] then Inl No_attributes
          else if \<exists>a \<in> set attributes. a \<notin> set allowed then Inl Unknown_attribute
          else Inr (map (byte_of \<circ> nat) (entity # attributes)))"

definition build_entity_attribute_request :: "int \<Rightarrow> int \<Rightarrow> ams_error + byte list" where
  "build_entity_attribute_request entity attribute =
     (case ENTITY_ATTRIBUTES entity of
        None \<Rightarrow> Inl Unknown_entity
      | Some allowed \<Rightarrow>
          if attribute \<notin> set allowed then Inl Unknown_attribute
          else Inr [byte_of (nat entity), byte_of (nat attribute)])"

section \<open>Attribute values\<close>

datatype py_float = Finite real | NonFinite

record num_reader =
  read_float :: "pystr \<Rightarrow> py_float option"
  read_int :: "pystr \<Rightarrow> int option"

definition bidi_control :: "nat \<Rightarrow> bool" where
  "bidi_control c \<longleftrightarrow> 0x202A \<le> c \<and> c < 0x202F \<or> 0x2066 \<le> c \<and> c < 0x206A \<or> c = 0x200e \<or> c = 0x200f"

text \<open>Unicode category Cc: the C0 and C1 controls.\<close>

definition control_char :: "nat \<Rightarrow> bool" where
  "control_char c \<longleftrightarrow> c \<le> 31 \<or> 127 \<le> c \<and> c \<le> 159"

definition clean_text :: "pystr \<Rightarrow> pystr" where
  "clean_text s = take MAX_REMOTE_PROPERTY_CHARS (py_strip (filter (\<lambda>c. \<not> bidi_control c \<and> \<not> control_char c) s))"

definition finite_value :: "num_reader \<Rightarrow> pystr \<Rightarrow> ams_error + real" where
  "finite_value nr text =
     (case read_float nr (py_strip text) of
        None \<Rightarrow> Inl Not_a_number | Some NonFinite \<Rightarrow> Inl Not_finite | Some (Finite x) \<Rightarrow> Inr x)"

definition optional_finite :: "num_reader \<Rightarrow> pystr \<Rightarrow> ams_error + real option" where
  "optional_finite nr text = (if py_strip text = [] then Inr None else map_sum id Some (finite_value nr text))"

datatype PlaybackState = Paused | Playing | Rewinding | FastForwarding

definition playback_state_of :: "int \<Rightarrow> PlaybackState option" where
  "playback_state_of n =
     (if n = 0 then Some Paused else if n = 1 then Some Playing else if n = 2 then Some Rewinding
      else if n = 3 then Some FastForwarding else None)"

record PlaybackInfo =
  pi_state :: "PlaybackState option"
  pi_rate :: "real option"
  pi_elapsed :: "real option"

definition parse_playback_info :: "num_reader \<Rightarrow> pystr \<Rightarrow> ams_error + PlaybackInfo" where
  "parse_playback_info nr v =
     (let text = py_strip v
      in if text = [] then Inr \<lparr>pi_state = None, pi_rate = None, pi_elapsed = None\<rparr>
         else case split_on 44 text of
           [state_text, rate_text, elapsed_text] \<Rightarrow>
             let state = (case read_int nr (py_strip state_text) of None \<Rightarrow> None | Some n \<Rightarrow> playback_state_of n)
             in sum_bind (optional_finite nr rate_text) (\<lambda>rate.
                sum_bind (optional_finite nr elapsed_text) (\<lambda>elapsed.
                  if (case rate of None \<Rightarrow> False | Some r \<Rightarrow> 1000 < \<bar>r\<bar>) then Inl Rate_out_of_range
                  else if (case elapsed of None \<Rightarrow> False | Some e \<Rightarrow> \<not> (0 \<le> e \<and> e \<le> 10 * 365 * 86400))
                  then Inl Elapsed_out_of_range
                  else Inr \<lparr>pi_state = state, pi_rate = rate, pi_elapsed = elapsed\<rparr>))
         | _ \<Rightarrow> Inl Not_three_fields)"

definition parse_volume :: "num_reader \<Rightarrow> pystr \<Rightarrow> ams_error + real option" where
  "parse_volume nr v =
     (if py_strip v = [] then Inr None
      else sum_bind (finite_value nr v) (\<lambda>x.
        if \<not> (0 \<le> x \<and> x \<le> 1) then Inl Volume_out_of_range else Inr (Some x)))"

definition parse_duration :: "num_reader \<Rightarrow> pystr \<Rightarrow> ams_error + real option" where
  "parse_duration nr v =
     (if py_strip v = [] then Inr None
      else sum_bind (finite_value nr v) (\<lambda>x.
        if \<not> (0 \<le> x \<and> x \<le> 10 * 365 * 86400) then Inl Duration_out_of_range else Inr (Some x)))"

definition parse_count :: "num_reader \<Rightarrow> pystr \<Rightarrow> ams_error + int option" where
  "parse_count nr v =
     (if py_strip v = [] then Inr None
      else case read_int nr (py_strip v) of
        None \<Rightarrow> Inl Not_a_number
      | Some n \<Rightarrow> if \<not> (0 \<le> n \<and> n \<le> 10000000) then Inl Queue_out_of_range else Inr (Some n))"

definition parse_mode :: "num_reader \<Rightarrow> pystr \<Rightarrow> ams_error + int option" where
  "parse_mode nr v =
     (if py_strip v = [] then Inr None
      else case read_int nr (py_strip v) of
        None \<Rightarrow> Inl Not_a_number
      | Some n \<Rightarrow> Inr (if n \<in> {0, 1, 2} then Some n else None))"

section \<open>The now-playing projection\<close>

record NowPlaying =
  player_name :: "pystr option"
  playback_state :: "PlaybackState option"
  playback_rate :: "real option"
  elapsed :: "real option"
  elapsed_at :: "real option"
  volume :: "real option"
  queue_index :: "int option"
  queue_count :: "int option"
  shuffle :: "int option"
  repeat :: "int option"
  artist :: "pystr option"
  album :: "pystr option"
  title :: "pystr option"
  duration :: "real option"
  supported_commands :: "int set"
  supported_commands_known :: bool
  track_serial :: nat
  truncated_track :: "nat set"

definition NowPlaying_init :: NowPlaying where
  "NowPlaying_init = \<lparr>player_name = None, playback_state = None, playback_rate = None, elapsed = None,
     elapsed_at = None, volume = None, queue_index = None, queue_count = None, shuffle = None, repeat = None,
     artist = None, album = None, title = None, duration = None, supported_commands = {},
     supported_commands_known = False, track_serial = 0, truncated_track = {}\<rparr>"

definition clear_playback :: "NowPlaying \<Rightarrow> NowPlaying" where
  "clear_playback s = s\<lparr>player_name := None, playback_state := None, playback_rate := None, elapsed := None,
     elapsed_at := None, volume := None, queue_index := None, queue_count := None, shuffle := None,
     repeat := None, artist := None, album := None, title := None, duration := None, truncated_track := {}\<rparr>"

definition np_reset :: "NowPlaying \<Rightarrow> NowPlaying" where
  "np_reset s = (clear_playback s)\<lparr>supported_commands := {}, supported_commands_known := False\<rparr>"

definition set_supported_commands :: "int set option \<Rightarrow> NowPlaying \<Rightarrow> NowPlaying \<times> bool" where
  "set_supported_commands commands s =
     (let known = (commands \<noteq> None); cs = (case commands of None \<Rightarrow> {} | Some c \<Rightarrow> c)
      in if cs = supported_commands s \<and> known = supported_commands_known s then (s, False)
         else (s\<lparr>supported_commands := cs, supported_commands_known := known\<rparr>, True))"

definition or_none :: "pystr \<Rightarrow> pystr option" where
  "or_none s = (if s = [] then None else Some s)"

text \<open>
  \<open>completion\<close>: the attribute was a truncated text and the new text extends it. Only texts can be
  truncated prefixes; the duration has no completion.
\<close>

definition completes :: "EntityUpdate \<Rightarrow> pystr option \<Rightarrow> pystr option \<Rightarrow> NowPlaying \<Rightarrow> bool" where
  "completes u previous v s =
     (eu_attribute u \<in> truncated_track s \<and>
      (case (previous, v) of (Some p, Some n) \<Rightarrow> py_startswith n p | _ \<Rightarrow> False))"

definition mark_track :: "EntityUpdate \<Rightarrow> bool \<Rightarrow> NowPlaying \<Rightarrow> NowPlaying" where
  "mark_track u new_track s =
     s\<lparr>track_serial := (if new_track then track_serial s + 1 else track_serial s),
       truncated_track := (if eu_truncated u then insert (eu_attribute u) (truncated_track s)
                           else truncated_track s - {eu_attribute u})\<rparr>"

definition set_track_text ::
  "((pystr option \<Rightarrow> pystr option) \<Rightarrow> NowPlaying \<Rightarrow> NowPlaying) \<Rightarrow> (NowPlaying \<Rightarrow> pystr option) \<Rightarrow>
   EntityUpdate \<Rightarrow> pystr option \<Rightarrow> NowPlaying \<Rightarrow> NowPlaying" where
  "set_track_text upd get u v s =
     mark_track u (v \<noteq> get s \<and> \<not> completes u (get s) v s) (upd (\<lambda>_. v) s)"

definition set_track_duration :: "EntityUpdate \<Rightarrow> real option \<Rightarrow> NowPlaying \<Rightarrow> NowPlaying" where
  "set_track_duration u v s = mark_track u (v \<noteq> duration s) (s\<lparr>duration := v\<rparr>)"

definition apply_update :: "num_reader \<Rightarrow> EntityUpdate \<Rightarrow> real \<Rightarrow> NowPlaying \<Rightarrow> ams_error + NowPlaying" where
  "apply_update nr u now s =
     (let v = eu_value u; a = eu_attribute u
      in if eu_entity u = Player then
           if a = 0 then Inr (s\<lparr>player_name := or_none (clean_text v)\<rparr>)
           else if a = 1 then sum_bind (parse_playback_info nr v) (\<lambda>i.
             Inr (s\<lparr>playback_state := pi_state i, playback_rate := pi_rate i, elapsed := pi_elapsed i,
                    elapsed_at := (if pi_elapsed i \<noteq> None then Some now else None)\<rparr>))
           else if a = 2 then sum_bind (parse_volume nr v) (\<lambda>x. Inr (s\<lparr>volume := x\<rparr>))
           else Inr s
         else if eu_entity u = Queue then
           if a = 0 then sum_bind (parse_count nr v) (\<lambda>x. Inr (s\<lparr>queue_index := x\<rparr>))
           else if a = 1 then sum_bind (parse_count nr v) (\<lambda>x. Inr (s\<lparr>queue_count := x\<rparr>))
           else if a = 2 then sum_bind (parse_mode nr v) (\<lambda>x. Inr (s\<lparr>shuffle := x\<rparr>))
           else if a = 3 then sum_bind (parse_mode nr v) (\<lambda>x. Inr (s\<lparr>repeat := x\<rparr>))
           else Inr s
         else if eu_entity u = Track then
           if a = 0 then Inr (set_track_text artist_update artist u (or_none (clean_text v)) s)
           else if a = 1 then Inr (set_track_text album_update album u (or_none (clean_text v)) s)
           else if a = 2 then Inr (set_track_text title_update title u (or_none (clean_text v)) s)
           else if a = 3 then sum_bind (parse_duration nr v) (\<lambda>x. Inr (set_track_duration u x s))
           else Inr s
         else Inr s)"

definition fingerprint :: "NowPlaying \<Rightarrow> NowPlaying" where
  "fingerprint s = s\<lparr>elapsed_at := None, track_serial := 0, truncated_track := {}\<rparr>"

text \<open>\<open>NowPlaying.apply\<close>: a malformed value is ignored; the result says whether anything visible changed.\<close>

definition np_apply :: "num_reader \<Rightarrow> EntityUpdate \<Rightarrow> real \<Rightarrow> NowPlaying \<Rightarrow> NowPlaying \<times> bool" where
  "np_apply nr u now s =
     (case apply_update nr u now s of
        Inl _ \<Rightarrow> (s, False)
      | Inr t \<Rightarrow> (t, fingerprint t \<noteq> fingerprint s))"

definition np_playing :: "NowPlaying \<Rightarrow> bool" where
  "np_playing s \<longleftrightarrow> playback_state s \<in> {Some Playing, Some Rewinding, Some FastForwarding}"

definition position :: "real \<Rightarrow> NowPlaying \<Rightarrow> real option" where
  "position now s =
     (case elapsed s of
        None \<Rightarrow> None
      | Some e \<Rightarrow>
          let p1 = (case (elapsed_at s, playback_rate s) of
                      (Some t, Some r) \<Rightarrow> if np_playing s \<and> r \<noteq> 0 then e + r * max 0 (now - t) else e
                    | _ \<Rightarrow> e);
              p2 = (case duration s of None \<Rightarrow> p1 | Some d \<Rightarrow> if 0 < d then min p1 d else p1)
          in Some (max 0 p2))"

section \<open>What readers see\<close>

definition PLAYBACK_STATE_NAMES :: "PlaybackState \<Rightarrow> string" where
  "PLAYBACK_STATE_NAMES st =
     (case st of Paused \<Rightarrow> ''paused'' | Playing \<Rightarrow> ''playing'' | Rewinding \<Rightarrow> ''rewinding''
      | FastForwarding \<Rightarrow> ''fast-forwarding'')"

definition MODE_NAMES :: "int \<Rightarrow> string option" where
  "MODE_NAMES n = (if n = 0 then Some ''off'' else if n = 1 then Some ''one'' else if n = 2 then Some ''all'' else None)"

definition COMMAND_NAMES :: "(string \<times> int) list" where
  "COMMAND_NAMES = [(''play'', 0), (''pause'', 1), (''toggle'', 2), (''next'', 3), (''previous'', 4),
     (''volume-up'', 5), (''volume-down'', 6), (''repeat'', 7), (''shuffle'', 8), (''skip-forward'', 9),
     (''skip-backward'', 10), (''like'', 11), (''dislike'', 12), (''bookmark'', 13)]"

definition COMMAND_IDS :: "int \<Rightarrow> string option" where
  "COMMAND_IDS = map_of (map prod.swap COMMAND_NAMES)"

record np_snapshot =
  sn_player :: "pystr option \<times> string option \<times> real option \<times> real option"
  sn_queue :: "int option \<times> int option \<times> string option \<times> string option"
  sn_track :: "pystr option \<times> pystr option \<times> pystr option \<times> real option \<times> real option"
  sn_commands :: "string list"
  sn_known :: bool

definition ams_snapshot :: "real \<Rightarrow> NowPlaying \<Rightarrow> np_snapshot" where
  "ams_snapshot now s =
     \<lparr>sn_player = (player_name s, map_option PLAYBACK_STATE_NAMES (playback_state s), playback_rate s, volume s),
      sn_queue = (queue_index s, queue_count s, Option.bind (shuffle s) MODE_NAMES, Option.bind (repeat s) MODE_NAMES),
      sn_track = (artist s, album s, title s, duration s, position now s),
      sn_commands = sorted_list_of_set ((\<lambda>c. the (COMMAND_IDS c)) ` supported_commands s),
      sn_known = supported_commands_known s\<rparr>"

section \<open>Values stay in range\<close>

definition clean :: "pystr option \<Rightarrow> bool" where
  "clean v \<longleftrightarrow> (case v of None \<Rightarrow> True | Some s \<Rightarrow> s \<noteq> [] \<and> length s \<le> MAX_REMOTE_PROPERTY_CHARS \<and>
     list_all (\<lambda>c. \<not> bidi_control c \<and> \<not> control_char c) s \<and> \<not> py_isspace (hd s))"

definition in_range :: "'a::linorder \<Rightarrow> 'a \<Rightarrow> 'a option \<Rightarrow> bool" where
  "in_range lo hi v \<longleftrightarrow> (case v of None \<Rightarrow> True | Some x \<Rightarrow> lo \<le> x \<and> x \<le> hi)"

definition np_wf :: "NowPlaying \<Rightarrow> bool" where
  "np_wf s \<longleftrightarrow>
     clean (player_name s) \<and> clean (artist s) \<and> clean (album s) \<and> clean (title s) \<and>
     in_range (- 1000) 1000 (playback_rate s) \<and> in_range 0 (10 * 365 * 86400) (elapsed s) \<and>
     (elapsed s = None \<longleftrightarrow> elapsed_at s = None) \<and>
     in_range 0 1 (volume s) \<and> in_range 0 (10 * 365 * 86400) (duration s) \<and>
     in_range 0 10000000 (queue_index s) \<and> in_range 0 10000000 (queue_count s) \<and>
     in_range 0 2 (shuffle s) \<and> in_range 0 2 (repeat s) \<and>
     supported_commands s \<subseteq> {0..13} \<and> (\<not> supported_commands_known s \<longrightarrow> supported_commands s = {}) \<and>
     truncated_track s \<subseteq> {0..3}"

lemma clean_None [simp]: "clean None"
  by (simp add: clean_def)

lemma in_range_None [simp]: "in_range lo hi None"
  by (simp add: in_range_def)

lemma py_strip_hd: "py_strip s \<noteq> [] \<Longrightarrow> \<not> py_isspace (hd (py_strip s))"
proof -
  assume ne: "py_strip s \<noteq> []"
  define t where "t = dropWhile py_isspace s"
  have "py_strip s = take (length (py_strip s)) t"
    unfolding py_strip_def t_def [symmetric]
    by (metis length_rev rev_rev_ident rev_take takeWhile_dropWhile_id append_eq_conv_conj rev_append)
  with ne have "hd (py_strip s) = hd t" "t \<noteq> []" by (metis hd_take length_greater_0_conv, auto)
  then show ?thesis by (simp add: t_def hd_dropWhile)
qed

lemma set_py_strip: "set (py_strip s) \<subseteq> set s"
  unfolding py_strip_def by (metis set_dropWhileD set_rev subsetI)

lemma clean_or_none: "clean (or_none (clean_text v))"
proof -
  let ?k = "filter (\<lambda>c. \<not> bidi_control c \<and> \<not> control_char c) v"
  have "list_all (\<lambda>c. \<not> bidi_control c \<and> \<not> control_char c) (clean_text v)"
    using set_py_strip [of ?k] by (auto simp: clean_text_def list_all_iff dest!: in_set_takeD)
  moreover have "clean_text v \<noteq> [] \<Longrightarrow> \<not> py_isspace (hd (clean_text v))"
    using py_strip_hd [of ?k] by (auto simp: clean_text_def hd_take)
  ultimately show ?thesis by (simp add: clean_def or_none_def clean_text_def)
qed

lemma parse_playback_info_range:
  "parse_playback_info nr v = Inr i \<Longrightarrow>
     in_range (- 1000) 1000 (pi_rate i) \<and> in_range 0 (10 * 365 * 86400) (pi_elapsed i)"
  by (auto simp: parse_playback_info_def Let_def in_range_def split: if_splits list.splits sum.splits option.splits)

lemma parse_volume_range: "parse_volume nr v = Inr x \<Longrightarrow> in_range 0 1 x"
  by (auto simp: parse_volume_def in_range_def split: if_splits sum.splits)

lemma parse_duration_range: "parse_duration nr v = Inr x \<Longrightarrow> in_range 0 (10 * 365 * 86400) x"
  by (auto simp: parse_duration_def in_range_def split: if_splits sum.splits)

lemma parse_count_range: "parse_count nr v = Inr x \<Longrightarrow> in_range 0 10000000 x"
  by (auto simp: parse_count_def in_range_def split: if_splits option.splits)

lemma parse_mode_range: "parse_mode nr v = Inr x \<Longrightarrow> in_range 0 2 x"
  by (auto simp: parse_mode_def in_range_def split: if_splits option.splits)

lemma parse_supported_commands_range: "parse_supported_commands raw = Inr c \<Longrightarrow> c \<subseteq> {0..13}"
  by (auto simp: parse_supported_commands_def REMOTE_COMMAND_VALUES_def split: if_splits)

lemmas parsed_ranges = parse_playback_info_range parse_volume_range parse_duration_range parse_count_range
  parse_mode_range clean_or_none

lemma apply_update_cases:
  assumes "apply_update nr u now s = Inr t"
  obtains (same) "t = s"
    | (name) "t = s\<lparr>player_name := or_none (clean_text (eu_value u))\<rparr>"
    | (info) i where "parse_playback_info nr (eu_value u) = Inr i"
        "t = s\<lparr>playback_state := pi_state i, playback_rate := pi_rate i, elapsed := pi_elapsed i,
               elapsed_at := (if pi_elapsed i \<noteq> None then Some now else None)\<rparr>"
    | (volume) x where "parse_volume nr (eu_value u) = Inr x" "t = s\<lparr>volume := x\<rparr>"
    | (queue) x where "parse_count nr (eu_value u) = Inr x" "t = s\<lparr>queue_index := x\<rparr> \<or> t = s\<lparr>queue_count := x\<rparr>"
    | (mode) x where "parse_mode nr (eu_value u) = Inr x" "t = s\<lparr>shuffle := x\<rparr> \<or> t = s\<lparr>repeat := x\<rparr>"
    | (artist) "eu_attribute u = 0" "t = set_track_text artist_update artist u (or_none (clean_text (eu_value u))) s"
    | (album) "eu_attribute u = 1" "t = set_track_text album_update album u (or_none (clean_text (eu_value u))) s"
    | (title) "eu_attribute u = 2" "t = set_track_text title_update title u (or_none (clean_text (eu_value u))) s"
    | (duration) x where "eu_attribute u = 3" "parse_duration nr (eu_value u) = Inr x" "t = set_track_duration u x s"
proof -
  note r = assms [unfolded apply_update_def Let_def]
  consider (P) "eu_entity u = Player" | (Q) "eu_entity u \<noteq> Player" "eu_entity u = Queue"
    | (T) "eu_entity u \<noteq> Player" "eu_entity u \<noteq> Queue" "eu_entity u = Track"
    | (X) "eu_entity u \<noteq> Player" "eu_entity u \<noteq> Queue" "eu_entity u \<noteq> Track" by blast
  then show thesis
  proof cases
    case P
    note r' = r [unfolded if_P [OF P]]
    consider "eu_attribute u = 0" | "eu_attribute u = 1" | "eu_attribute u = 2" | "eu_attribute u \<notin> {0, 1, 2}" by auto
    then show thesis using r' by cases (auto simp: sum_bind_Inr intro: that(1-4))
  next
    case Q
    note r' = r [unfolded if_not_P [OF Q(1)] if_P [OF Q(2)]]
    consider "eu_attribute u = 0" | "eu_attribute u = 1" | "eu_attribute u = 2" | "eu_attribute u = 3"
      | "eu_attribute u \<notin> {0, 1, 2, 3}" by auto
    then show thesis using r' by cases (auto simp: sum_bind_Inr intro: that(1,5,6))
  next
    case T
    note r' = r [unfolded if_not_P [OF T(1)] if_not_P [OF T(2)] if_P [OF T(3)]]
    consider "eu_attribute u = 0" | "eu_attribute u = 1" | "eu_attribute u = 2" | "eu_attribute u = 3"
      | "eu_attribute u \<notin> {0, 1, 2, 3}" by auto
    then show thesis using r' by cases (auto simp: sum_bind_Inr intro: that(1,7-10))
  next
    case X
    then show thesis using r that(1) by simp
  qed
qed

lemma np_wf_mark:
  "np_wf s \<Longrightarrow> eu_attribute u \<le> 3 \<Longrightarrow> np_wf (mark_track u b s)"
  by (auto simp: np_wf_def mark_track_def)

lemma np_wf_apply:
  assumes "np_wf s" "apply_update nr u now s = Inr t"
  shows "np_wf t"
  using assms(2)
proof (cases rule: apply_update_cases)
  case artist
  then show ?thesis using assms(1) np_wf_mark [of "s\<lparr>artist := or_none (clean_text (eu_value u))\<rparr>"]
    by (simp add: set_track_text_def np_wf_def clean_or_none)
next
  case album
  then show ?thesis using assms(1) np_wf_mark [of "s\<lparr>album := or_none (clean_text (eu_value u))\<rparr>"]
    by (simp add: set_track_text_def np_wf_def clean_or_none)
next
  case title
  then show ?thesis using assms(1) np_wf_mark [of "s\<lparr>title := or_none (clean_text (eu_value u))\<rparr>"]
    by (simp add: set_track_text_def np_wf_def clean_or_none)
next
  case (duration x)
  then show ?thesis using assms(1) np_wf_mark [of "s\<lparr>duration := x\<rparr>"] parse_duration_range [OF duration(2)]
    by (simp add: set_track_duration_def np_wf_def)
next
  case (info i)
  then show ?thesis using assms(1) parse_playback_info_range [OF info(1)] by (simp add: np_wf_def)
next
  case (queue x)
  from queue(2) show ?thesis using assms(1) parse_count_range [OF queue(1)] by (elim disjE) (simp_all add: np_wf_def)
next
  case (mode x)
  from mode(2) show ?thesis using assms(1) parse_mode_range [OF mode(1)] by (elim disjE) (simp_all add: np_wf_def)
qed (use assms(1) in \<open>simp_all add: np_wf_def clean_or_none parse_volume_range\<close>)

text \<open>
  Everything the AMS client does to the projection: apply a parsed update, forget playback, reset,
  store or forget the command list of the phone.
\<close>

inductive np_step :: "num_reader \<Rightarrow> NowPlaying \<Rightarrow> NowPlaying \<Rightarrow> bool" for nr where
  update: "np_step nr s (fst (np_apply nr u now s))"
| clear: "np_step nr s (clear_playback s)"
| reset: "np_step nr s (np_reset s)"
| commands: "parse_supported_commands raw = Inr c \<Longrightarrow> np_step nr s (fst (set_supported_commands (Some c) s))"
| unknown: "np_step nr s (fst (set_supported_commands None s))"

inductive_cases np_stepE: "np_step nr s t"

lemma np_wf_step: "np_wf s \<Longrightarrow> np_step nr s t \<Longrightarrow> np_wf t"
proof (erule np_stepE)
  fix u now assume "np_wf s" "t = fst (np_apply nr u now s)"
  then show "np_wf t" by (auto simp: np_apply_def split: sum.splits intro: np_wf_apply)
next
  fix raw c assume "np_wf s" "parse_supported_commands raw = Inr c" "t = fst (set_supported_commands (Some c) s)"
  then show "np_wf t"
    by (simp add: set_supported_commands_def Let_def np_wf_def parse_supported_commands_range)
qed (simp_all add: np_wf_def clear_playback_def np_reset_def set_supported_commands_def Let_def)

interpretation now_playing: invariant_system "\<lambda>s. s = NowPlaying_init" "np_step nr" np_wf
  by unfold_locales (simp add: np_wf_def NowPlaying_init_def, rule np_wf_step)

lemma position_bounds:
  "position now s = Some p \<Longrightarrow> 0 \<le> p \<and> (\<forall>d. duration s = Some d \<and> 0 < d \<longrightarrow> p \<le> d)"
  by (auto simp: position_def Let_def split: option.splits if_splits)

lemma position_None: "position now s = None \<longleftrightarrow> elapsed s = None"
  by (auto simp: position_def Let_def split: option.splits)

text \<open>
  C31: Whatever byte strings the phone sends, and however its numbers are read, every now-playing state is
  in range: texts are non-empty, at most 512 characters, without control or bidirectional-override
  characters and do not start with a blank; the volume is in [0, 1], the rate in [-1000, 1000], elapsed
  time and duration within ten years, queue numbers at most ten million, modes 0 to 2; the command set
  holds only AMS commands and is empty while it is unknown. The extrapolated position is shown exactly
  when an elapsed time is known, is never negative and never beyond a positive duration.
\<close>

theorem now_playing_in_range:
  assumes "reachable (\<lambda>s. s = NowPlaying_init) (np_step nr) s"
  shows "np_wf s \<and> (position now s = None \<longleftrightarrow> elapsed s = None) \<and>
    (\<forall>p. position now s = Some p \<longrightarrow> 0 \<le> p \<and> (\<forall>d. duration s = Some d \<and> 0 < d \<longrightarrow> p \<le> d))"
  using now_playing.reachable_inv [OF assms] position_bounds position_None by blast

text \<open>A reader of decimal digits, for evaluation.\<close>

definition digits_value :: "pystr \<Rightarrow> int" where
  "digits_value s = foldl (\<lambda>n c. 10 * n + (int c - 48)) 0 s"

definition digit_reader :: num_reader where
  "digit_reader = \<lparr>read_float = (\<lambda>s. if s \<noteq> [] \<and> list_all (\<lambda>c. 48 \<le> c \<and> c \<le> 57) s
       then Some (Finite (of_int (digits_value s))) else None),
     read_int = (\<lambda>s. if s \<noteq> [] \<and> list_all (\<lambda>c. 48 \<le> c \<and> c \<le> 57) s then Some (digits_value s) else None)\<rparr>"

text \<open>Playing at rate 1, 30 seconds into the track; then a duration of 60 seconds.\<close>

definition example_started :: NowPlaying where
  "example_started =
     fst (np_apply digit_reader \<lparr>eu_entity = Player, eu_attribute = 1, eu_truncated = False,
            eu_value = [49, 44, 49, 44, 51, 48]\<rparr> 5 NowPlaying_init)"

definition duration_update :: EntityUpdate where
  "duration_update = \<lparr>eu_entity = Track, eu_attribute = 3, eu_truncated = False, eu_value = [54, 48]\<rparr>"

definition example_playing :: NowPlaying where
  "example_playing = fst (np_apply digit_reader duration_update 5 example_started)"

lemma np_reachable_update:
  "reachable init (np_step nr) s \<Longrightarrow> reachable init (np_step nr) (fst (np_apply nr u now s))"
  by (rule reachable.next_state [of init "np_step nr" s]) (simp_all add: np_step.update)

lemma example_playing_reachable: "reachable (\<lambda>s. s = NowPlaying_init) (np_step digit_reader) example_playing"
  unfolding example_playing_def example_started_def
  by (intro np_reachable_update reachable.start refl)

lemmas playing_defs = example_playing_def example_started_def duration_update_def np_apply_def apply_update_def parse_playback_info_def py_strip_def
  py_isspace_def optional_finite_def finite_value_def digit_reader_def digits_value_def playback_state_of_def
  parse_duration_def set_track_duration_def mark_track_def NowPlaying_init_def consts_defs

lemma now_playing_in_range_witness:
  "np_wf example_playing \<and> position 15 example_playing = Some 40 \<and> position 1000 example_playing = Some 60"
  using now_playing_in_range [OF example_playing_reachable, of 15]
  by (simp add: playing_defs position_def np_playing_def)

section \<open>Track identity\<close>

definition completed :: "nat \<Rightarrow> (NowPlaying \<Rightarrow> pystr option) \<Rightarrow> NowPlaying \<Rightarrow> NowPlaying \<Rightarrow> bool" where
  "completed k get s t \<longleftrightarrow>
     get t = get s \<or> k \<in> truncated_track s \<and> (\<exists>p r. get s = Some p \<and> get t = Some (p @ r))"

definition same_track :: "NowPlaying \<Rightarrow> NowPlaying \<Rightarrow> bool" where
  "same_track s t \<longleftrightarrow> completed 0 artist s t \<and> completed 1 album s t \<and> completed 2 title s t \<and> duration t = duration s"

lemma completes_ext: "completes u (get s) v s \<Longrightarrow> \<exists>p r. get s = Some p \<and> v = Some (p @ r)"
  by (auto simp: completes_def py_startswith_iff split: option.splits)

lemma completes_truncated: "completes u p v s \<Longrightarrow> eu_attribute u \<in> truncated_track s"
  by (simp add: completes_def)

lemma completed_refl [simp]: "get t = get s \<Longrightarrow> completed k get s t"
  by (simp add: completed_def)

lemma track_serial_step:
  assumes "apply_update nr u now s = Inr t"
  shows "track_serial t = (if same_track s t then track_serial s else track_serial s + 1)"
  using assms
proof (cases rule: apply_update_cases)
  case artist
  show ?thesis unfolding artist(2)
    using artist(1) completes_ext [of u artist s] completes_truncated [of u "artist s"]
    by (auto simp: set_track_text_def mark_track_def same_track_def completed_def completes_def py_startswith_iff)
next
  case album
  show ?thesis unfolding album(2)
    using album(1) completes_ext [of u album s] completes_truncated [of u "album s"]
    by (auto simp: set_track_text_def mark_track_def same_track_def completed_def completes_def py_startswith_iff)
next
  case title
  show ?thesis unfolding title(2)
    using title(1) completes_ext [of u title s] completes_truncated [of u "title s"]
    by (auto simp: set_track_text_def mark_track_def same_track_def completed_def completes_def py_startswith_iff)
next
  case (duration x)
  then show ?thesis by (auto simp: set_track_duration_def mark_track_def same_track_def)
next
  case (queue x)
  from queue(2) show ?thesis by (elim disjE) (simp_all add: same_track_def)
next
  case (mode x)
  from mode(2) show ?thesis by (elim disjE) (simp_all add: same_track_def)
qed (simp_all add: same_track_def)

lemma track_serial_apply:
  "track_serial (fst (np_apply nr u now s)) =
     (if same_track s (fst (np_apply nr u now s)) then track_serial s else track_serial s + 1)"
proof (cases "apply_update nr u now s")
  case (Inr t)
  then show ?thesis using track_serial_step [OF Inr] by (simp add: np_apply_def)
qed (simp add: np_apply_def same_track_def)

lemma track_serial_mono: "np_step nr s t \<Longrightarrow> track_serial s \<le> track_serial t"
proof (erule np_stepE)
  fix u now assume "t = fst (np_apply nr u now s)"
  then show ?thesis using track_serial_apply [of nr u now s] by (simp split: if_splits)
qed (simp_all add: clear_playback_def np_reset_def set_supported_commands_def Let_def)

text \<open>
  The identifier of the track follows the track. Every update either leaves the serial alone, and
  then artist, album, title and duration are unchanged up to the completion of a value that was marked
  truncated, or increases it by one, and then one of them really changed. No operation of the projection
  ever decreases it, so an identifier is not reused.
\<close>

theorem track_serial_follows_track:
  assumes "np_step nr s t"
  shows "track_serial s \<le> track_serial t \<and>
    (\<forall>u now. t = fst (np_apply nr u now s) \<longrightarrow>
       track_serial t = (if same_track s t then track_serial s else track_serial s + 1))"
  using track_serial_mono [OF assms] track_serial_apply by blast

lemma example_serials: "track_serial example_started = 0 \<and> track_serial example_playing = 1"
  by (simp add: playing_defs)

lemma track_serial_follows_track_witness:
  "track_serial example_started = 0 \<and> track_serial example_playing = 1 \<and> \<not> same_track example_started example_playing"
proof -
  have "track_serial example_playing =
      (if same_track example_started example_playing then track_serial example_started else track_serial example_started + 1)"
    using track_serial_follows_track [OF np_step.update [of digit_reader example_started duration_update 5],
        THEN conjunct2, THEN spec, THEN spec, THEN mp, OF refl]
    unfolding example_playing_def [symmetric] .
  then show ?thesis using example_serials
    by (cases "same_track example_started example_playing") (simp_all only: if_True if_False, simp_all)
qed

section \<open>Truncated values\<close>

lemma rstrip_prefix: "prefix (rev (dropWhile P (rev s))) s"
  by (metis rev_append rev_rev_ident prefixI takeWhile_dropWhile_id)

lemma rstrip_mono:
  assumes "prefix p q"
  shows "prefix (rev (dropWhile P (rev p))) (rev (dropWhile P (rev q)))"
proof (cases "dropWhile P (rev p) = []")
  case False
  define p' where "p' = rev (dropWhile P (rev p))"
  have h: "dropWhile P (rev p') = rev p'" using False by (simp add: p'_def)
  obtain r where q: "q = p' @ r"
    using prefix_order.trans [OF rstrip_prefix [of P p] assms] unfolding p'_def [symmetric] by (auto simp: prefix_def)
  have "\<exists>r'. dropWhile P (rev q) = r' @ rev p'"
    by (simp add: q dropWhile_append h)
  then show ?thesis unfolding p'_def [symmetric]
    by (metis prefixI rev_append rev_rev_ident)
qed (simp del: dropWhile_eq_Nil_conv)

lemma dropWhile_prefix: "prefix p q \<Longrightarrow> prefix (dropWhile P p) (dropWhile P q)"
  by (auto simp: prefix_def dropWhile_append) (metis append_Nil dropWhile_eq_Nil_conv)

lemma clean_text_prefix:
  assumes "prefix p q"
  shows "prefix (clean_text p) (clean_text q)"
proof -
  have "prefix (py_strip (filter f p)) (py_strip (filter f q))" for f
    unfolding py_strip_def by (intro rstrip_mono dropWhile_prefix filter_mono_prefix assms)
  then obtain r where "py_strip (filter (\<lambda>c. \<not> bidi_control c \<and> \<not> control_char c) q) =
      py_strip (filter (\<lambda>c. \<not> bidi_control c \<and> \<not> control_char c) p) @ r" by (auto simp: prefix_def)
  then show ?thesis unfolding clean_text_def by simp
qed

lemma rstrip_replacement_cut:
  "set r \<subseteq> {replacement} \<Longrightarrow> prefix (rstrip_replacement (take m s @ r)) s"
proof -
  assume "set r \<subseteq> {replacement}"
  then have "rstrip_replacement (take m s @ r) = rstrip_replacement (take m s)"
    by (auto simp: rstrip_replacement_def dropWhile_append)
  moreover have "prefix (rstrip_replacement (take m s)) (take m s)"
    unfolding rstrip_replacement_def by (rule rstrip_prefix)
  ultimately show ?thesis using take_is_prefix prefix_order.trans by metis
qed

text \<open>A truncated update carries a prefix of the text, without the remnant of a split character.\<close>

lemma cut_update_prefix:
  assumes "utf8_encode s = Some bs" "odd (unat f)" "EntityUpdate_parse (e # a # f # take n bs) = Inr u"
  shows "prefix (eu_value u) s"
proof -
  from utf8_decode_cut [OF assms(1), of n] obtain m r where
    "utf8_decode (take n bs) = take m s @ r" "set r \<subseteq> {replacement}" by blast
  then show ?thesis using assms(2,3) rstrip_replacement_cut [of r m s]
    by (auto simp: EntityUpdate_parse_def Let_def split: if_splits)
qed

lemma full_update:
  assumes "utf8_encode s = Some bs" "even (unat f)" "EntityUpdate_parse (e # a # f # bs) = Inr u"
  shows "eu_value u = s"
  using assms by (auto simp: EntityUpdate_parse_def Let_def utf8_decode_encode split: if_splits)

lemma parsed_header:
  "EntityUpdate_parse (e # a # f # v) = Inr u \<Longrightarrow>
     eu_entity u = unat e \<and> eu_attribute u = unat a \<and> eu_truncated u = odd (unat f)"
  by (auto simp: EntityUpdate_parse_def Let_def split: if_splits)

definition track_text :: "nat \<Rightarrow> NowPlaying \<Rightarrow> pystr option" where
  "track_text a s = (if a = 0 then artist s else if a = 1 then album s else title s)"

lemma np_apply_track_text:
  assumes "eu_entity u = Track" "eu_attribute u \<le> 2"
  shows "track_text (eu_attribute u) (fst (np_apply nr u now s)) = or_none (clean_text (eu_value u)) \<and>
    (eu_attribute u \<in> truncated_track (fst (np_apply nr u now s)) \<longleftrightarrow> eu_truncated u) \<and>
    track_serial (fst (np_apply nr u now s)) = track_serial s +
      (if or_none (clean_text (eu_value u)) \<noteq> track_text (eu_attribute u) s \<and>
          \<not> completes u (track_text (eu_attribute u) s) (or_none (clean_text (eu_value u))) s then 1 else 0)"
proof -
  from assms(2) consider "eu_attribute u = 0" | "eu_attribute u = 1" | "eu_attribute u = 2" by linarith
  then show ?thesis using assms(1)
    by cases (simp_all add: np_apply_def apply_update_def Let_def consts_defs set_track_text_def
      mark_track_def track_text_def)
qed


lemmas wire_defs = EntityUpdate_parse_def Let_def consts_defs utf8_next.simps rstrip_replacement_def
  replacement_def is_cont_def bits6_def


end
