(* ===== verification/Notification_Pins.thy ===== *)
theory Notification_Pins
  imports Utf8 "HOL-Library.Sublist"
begin

text \<open>
  Pinned app notifications (\<open>notification_pins.py\<close>) over the policy-protected preference cell
  (\<open>private_preferences.py\<close>): the stored form of a record, its JSON size, normalisation of whatever
  the settings document holds, loading and saving. The lemmas show that everything loaded is
  well-formed, within the limits and duplicate free, and that what was saved is loaded back unchanged.

  A JSON document is a value of \<open>json\<close>; an object is the list of its entries in order, as
  \<open>json.loads\<close> builds it. The cell holds the decrypted value; whether the settings file can be read or
  written, the policy of the storage and a failed decryption are the environment of one call.
\<close>

section \<open>JSON\<close>

datatype json = JNull | JBool bool | JInt int | JFloat "real option" | JStr pystr | JList "json list"
  | JObj "(pystr \<times> json) list"

fun decimal :: "nat \<Rightarrow> pystr" where
  "decimal n = (if n < 10 then [48 + n] else decimal (n div 10) @ [48 + n mod 10])"

declare decimal.simps [simp del]

definition decimal_int :: "int \<Rightarrow> pystr" where
  "decimal_int i = (if i < 0 then 45 # decimal (nat (- i)) else decimal (nat i))"

definition hex_digit :: "nat \<Rightarrow> nat" where
  "hex_digit n = (if n < 10 then 48 + n else 87 + n)"

text \<open>\<open>json.dumps\<close> with \<open>ensure_ascii=False\<close>: only quotes, backslashes and C0 controls are escaped.\<close>

definition json_escape :: "nat \<Rightarrow> pystr" where
  "json_escape c =
     (if c = 34 then [92, 34] else if c = 92 then [92, 92] else if c = 10 then lit [CHR 0x5C, CHR ''n'']
      else if c = 13 then lit [CHR 0x5C, CHR ''r''] else if c = 9 then lit [CHR 0x5C, CHR ''t'']
      else if c = 12 then lit [CHR 0x5C, CHR ''f''] else if c = 8 then lit [CHR 0x5C, CHR ''b'']
      else if c < 32 then lit [CHR 0x5C] @ lit ''u00'' @ [hex_digit (c div 16), hex_digit (c mod 16)]
      else [c])"

definition json_quote :: "pystr \<Rightarrow> pystr" where
  "json_quote s = 34 # concat (map json_escape s) @ [34]"

text \<open>
  \<open>json.dumps\<close> with separators \<open>(",", ":")\<close>. Floats never occur in stored records; their text is
  left out of the model.
\<close>

fun json_dumps :: "json \<Rightarrow> pystr" where
  "json_dumps JNull = lit ''null''"
| "json_dumps (JBool b) = (if b then lit ''true'' else lit ''false'')"
| "json_dumps (JInt i) = decimal_int i"
| "json_dumps (JFloat x) = []"
| "json_dumps (JStr s) = json_quote s"
| "json_dumps (JList xs) = 91 # py_join [44] (map json_dumps xs) @ [93]"
| "json_dumps (JObj kvs) = 123 # py_join [44] (map (\<lambda>(k, v). json_quote k @ [58] @ json_dumps v) kvs) @ [125]"

text \<open>Python's \<open>==\<close> on the scalars of stored records: booleans are integers, and both compare with floats.\<close>

fun json_number :: "json \<Rightarrow> real option" where
  "json_number (JBool b) = Some (of_bool b)"
| "json_number (JInt i) = Some (of_int i)"
| "json_number (JFloat x) = x"
| "json_number _ = None"

definition json_same :: "json \<Rightarrow> json \<Rightarrow> bool" where
  "json_same a b \<longleftrightarrow> a = b \<or> (json_number a \<noteq> None \<and> json_number a = json_number b)"

section \<open>Records\<close>

definition MAX_PINNED_NOTIFICATIONS :: nat where [consts_defs]: "MAX_PINNED_NOTIFICATIONS = 20"
definition MAX_PINNED_NOTIFICATION_BYTES :: nat where [consts_defs]: "MAX_PINNED_NOTIFICATION_BYTES = 64 * 1024"

record nrec =
  nr_key :: pystr
  nr_id :: int
  nr_app_id :: pystr
  nr_app_name :: pystr
  nr_time :: pystr
  nr_removed :: bool
  nr_title :: "pystr option"
  nr_subtitle :: "pystr option"
  nr_body :: "pystr option"

definition key_char :: "nat \<Rightarrow> bool" where
  "key_char c \<longleftrightarrow> 65 \<le> c \<and> c \<le> 90 \<or> 97 \<le> c \<and> c \<le> 122 \<or> 48 \<le> c \<and> c \<le> 57 \<or> c = 95 \<or> c = 45"

definition valid_key :: "pystr \<Rightarrow> bool" where
  "valid_key k \<longleftrightarrow> 1 \<le> length k \<and> length k \<le> 64 \<and> list_all key_char k"

definition content_field :: "string \<Rightarrow> pystr option \<Rightarrow> (pystr \<times> json) list" where
  "content_field name v = (case v of None \<Rightarrow> [] | Some s \<Rightarrow> [(lit name, JStr s)])"

definition stored_form :: "nrec \<Rightarrow> (pystr \<times> json) list" where
  "stored_form r =
     [(lit ''key'', JStr (nr_key r)), (lit ''id'', JInt (nr_id r)), (lit ''app_id'', JStr (nr_app_id r)),
      (lit ''app_name'', JStr (nr_app_name r)), (lit ''time'', JStr (nr_time r)),
      (lit ''removed'', JBool (nr_removed r))] @
     content_field ''title'' (nr_title r) @ content_field ''subtitle'' (nr_subtitle r) @
     content_field ''body'' (nr_body r)"

text \<open>\<open>None\<close>: the text has a lone surrogate and \<open>encode\<close> raises \<open>UnicodeEncodeError\<close>.\<close>

definition serialized_size :: "nrec list \<Rightarrow> nat option" where
  "serialized_size rs = map_option length (utf8_encode (json_dumps (JList (map (JObj \<circ> stored_form) rs))))"

definition fits :: "nrec list \<Rightarrow> bool option" where
  "fits rs =
     (if MAX_PINNED_NOTIFICATIONS < length rs then Some False
      else map_option (\<lambda>n. n \<le> MAX_PINNED_NOTIFICATION_BYTES) (serialized_size rs))"

definition text_value :: "nat \<Rightarrow> json option \<Rightarrow> pystr option" where
  "text_value max_chars v =
     (case v of Some (JStr s) \<Rightarrow> if length s \<le> max_chars then Some s else None | _ \<Rightarrow> None)"

definition normalized :: "bool \<Rightarrow> nat \<Rightarrow> json \<Rightarrow> nrec option" where
  "normalized show_content max_chars item =
     (case item of
        JObj kvs \<Rightarrow>
          (let get = (\<lambda>name. map_of kvs (lit name)) in
           case (get ''key'', get ''id'') of
             (Some (JStr k), Some (JInt uid)) \<Rightarrow>
               if \<not> valid_key k \<or> \<not> (0 \<le> uid \<and> uid \<le> 0xFFFFFFFF) then None
               else (case (text_value max_chars (get ''app_id''), text_value max_chars (get ''app_name''),
                           text_value max_chars (get ''time'')) of
                  (Some app, Some name, Some time) \<Rightarrow>
                    if app = [] then None
                    else Some \<lparr>nr_key = k, nr_id = uid, nr_app_id = app, nr_app_name = name, nr_time = time,
                      nr_removed = (get ''removed'' = Some (JBool True)),
                      nr_title = (if show_content then text_value max_chars (get ''title'') else None),
                      nr_subtitle = (if show_content then text_value max_chars (get ''subtitle'') else None),
                      nr_body = (if show_content then text_value max_chars (get ''body'') else None)\<rparr>
                | _ \<Rightarrow> None)
           | _ \<Rightarrow> None)
      | _ \<Rightarrow> None)"

text \<open>\<open>record == item\<close> for a dictionary \<open>item\<close> of the raw list: the same keys with equal values.\<close>

definition same_record :: "nrec \<Rightarrow> json \<Rightarrow> bool" where
  "same_record r item =
     (case item of
        JObj kvs \<Rightarrow>
          set (map fst kvs) = set (map fst (stored_form r)) \<and>
          (\<forall>(k, v) \<in> set (stored_form r). case map_of kvs k of None \<Rightarrow> False | Some w \<Rightarrow> json_same v w)
      | _ \<Rightarrow> False)"

section \<open>The preference cell and the store\<close>

datatype pin_error = Unreadable_settings | OS_error | Storage_unavailable | Unicode_error

record store_env =
  memory_only :: bool
  can_read :: bool
  can_write :: bool
  settings_unreadable :: bool
  decrypt_fails :: bool
  write_fails :: bool

definition pref_load :: "store_env \<Rightarrow> json option \<Rightarrow> pin_error + json option" where
  "pref_load env disk =
     (if settings_unreadable env then Inl Unreadable_settings
      else Inr (if decrypt_fails env then None else disk))"

definition pref_clear :: "bool \<Rightarrow> store_env \<Rightarrow> json option \<Rightarrow> pin_error + json option" where
  "pref_clear strict env disk =
     (if settings_unreadable env then (if strict then Inl Unreadable_settings else Inr disk)
      else if disk = None then Inr disk
      else if write_fails env then Inl OS_error else Inr None)"

definition pref_write :: "json \<Rightarrow> store_env \<Rightarrow> json option \<Rightarrow> pin_error + json option" where
  "pref_write v env disk =
     (if \<not> can_write env then Inl Storage_unavailable
      else if settings_unreadable env then Inl Unreadable_settings
      else if write_fails env then Inl OS_error else Inr (Some v))"

definition store_readable :: "store_env \<Rightarrow> bool" where
  "store_readable env \<longleftrightarrow> memory_only env \<or> can_read env"

definition store_writable :: "store_env \<Rightarrow> bool" where
  "store_writable env \<longleftrightarrow> memory_only env \<or> can_write env"

fun dedup_records :: "pystr set \<Rightarrow> nrec option list \<Rightarrow> nrec list" where
  "dedup_records seen [] = []"
| "dedup_records seen (None # rs) = dedup_records seen rs"
| "dedup_records seen (Some r # rs) =
     (if nr_key r \<in> seen then dedup_records seen rs else r # dedup_records (insert (nr_key r) seen) rs)"

fun trim_records :: "nrec list \<Rightarrow> nrec list option" where
  "trim_records [] = Some []"
| "trim_records (r # rs) =
     (case fits (r # rs) of None \<Rightarrow> None | Some True \<Rightarrow> Some (r # rs) | Some False \<Rightarrow> trim_records rs)"

definition load_pins :: "bool \<Rightarrow> nat \<Rightarrow> json option \<Rightarrow> pin_error + nrec list \<times> bool" where
  "load_pins show_content max_chars raw =
     (case raw of
        None \<Rightarrow> Inr ([], False)
      | Some (JList items) \<Rightarrow>
          (case trim_records (dedup_records {} (map (normalized show_content max_chars) items)) of
             None \<Rightarrow> Inl Unicode_error
           | Some rs \<Rightarrow> Inr (rs, \<not> list_all2 same_record rs items))
      | Some _ \<Rightarrow> Inr ([], True))"

definition store_load :: "bool \<Rightarrow> nat \<Rightarrow> store_env \<Rightarrow> json option \<Rightarrow> pin_error + nrec list \<times> bool" where
  "store_load show_content max_chars env disk =
     (if memory_only env \<or> \<not> store_readable env then Inr ([], False)
      else sum_bind (pref_load env disk) (\<lambda>raw. load_pins show_content max_chars raw))"

definition store_save :: "nrec list \<Rightarrow> store_env \<Rightarrow> json option \<Rightarrow> pin_error + json option" where
  "store_save rs env disk =
     (if memory_only env then pref_clear False env disk
      else if rs = [] then pref_clear True env disk
      else pref_write (JList (map (JObj \<circ> stored_form) rs)) env disk)"

section \<open>What is loaded\<close>

definition short :: "nat \<Rightarrow> pystr option \<Rightarrow> bool" where
  "short n v \<longleftrightarrow> (case v of None \<Rightarrow> True | Some s \<Rightarrow> length s \<le> n)"

text \<open>A well-formed record of a log that shows content or not.\<close>

definition nrec_wf :: "bool \<Rightarrow> nat \<Rightarrow> nrec \<Rightarrow> bool" where
  "nrec_wf show_content n r \<longleftrightarrow>
     valid_key (nr_key r) \<and> 0 \<le> nr_id r \<and> nr_id r \<le> 0xFFFFFFFF \<and>
     nr_app_id r \<noteq> [] \<and> length (nr_app_id r) \<le> n \<and> length (nr_app_name r) \<le> n \<and> length (nr_time r) \<le> n \<and>
     short n (nr_title r) \<and> short n (nr_subtitle r) \<and> short n (nr_body r) \<and>
     (\<not> show_content \<longrightarrow> nr_title r = None \<and> nr_subtitle r = None \<and> nr_body r = None)"

lemma text_value_short: "short n (text_value n v)"
  by (auto simp: text_value_def short_def split: option.splits json.splits)

lemma text_value_Some: "text_value n v = Some s \<Longrightarrow> length s \<le> n"
  by (auto simp: text_value_def split: option.splits json.splits if_splits)

lemma normalized_wf: "normalized sc n item = Some r \<Longrightarrow> nrec_wf sc n r"
  by (auto simp: normalized_def nrec_wf_def Let_def text_value_short short_def [of _ None]
      dest: text_value_Some split: json.splits option.splits if_splits)

lemma dedup_records_subset: "set (dedup_records seen rs) \<subseteq> {r. Some r \<in> set rs}"
  by (induction seen rs rule: dedup_records.induct) auto

lemma dedup_records_distinct:
  "distinct (map nr_key (dedup_records seen rs)) \<and> set (map nr_key (dedup_records seen rs)) \<inter> seen = {}"
  by (induction seen rs rule: dedup_records.induct) auto

lemma trim_records_suffix:
  "trim_records rs = Some ts \<Longrightarrow> (\<exists>ds. rs = ds @ ts) \<and> (ts = [] \<or> fits ts = Some True)"
  by (induction rs) (auto split: option.splits bool.splits intro: exI [of _ "_ # _"])

lemma fits_length: "fits rs = Some True \<Longrightarrow> length rs \<le> MAX_PINNED_NOTIFICATIONS"
  by (auto simp: fits_def split: if_splits)

text \<open>
  Whatever the settings document holds, the pins loaded from it are well-formed, have distinct keys and
  fit the storage.
\<close>

lemma load_pins_wf:
  assumes "load_pins sc n raw = Inr (rs, rewrite)"
  shows "list_all (nrec_wf sc n) rs \<and> distinct (map nr_key rs) \<and> (rs = [] \<or> fits rs = Some True)"
proof (cases "rs = []")
  case False
  with assms obtain items where items: "trim_records (dedup_records {} (map (normalized sc n) items)) = Some rs"
    by (auto simp: load_pins_def split: option.splits json.splits)
  from trim_records_suffix [OF this] obtain ds where
    ds: "dedup_records {} (map (normalized sc n) items) = ds @ rs" and fits: "fits rs = Some True"
    using False by blast
  have "nrec_wf sc n r" if "r \<in> set rs" for r
  proof -
    from that have "Some r \<in> set (map (normalized sc n) items)"
      using dedup_records_subset [of "{}" "map (normalized sc n) items"] unfolding ds by auto
    then obtain i where "Some r = normalized sc n i" unfolding set_map by (rule imageE)
    then show ?thesis by (intro normalized_wf) (rule sym)
  qed
  moreover have "distinct (map nr_key (ds @ rs))"
    using dedup_records_distinct [of "{}" "map (normalized sc n) items"] by (simp add: ds)
  ultimately show ?thesis using fits by (auto simp: list_all_iff)
qed simp

section \<open>Saved pins come back\<close>

definition item_of :: "nrec \<Rightarrow> json" where
  "item_of r = JObj (stored_form r)"

lemma normalized_stored: "nrec_wf sc n r \<Longrightarrow> normalized sc n (item_of r) = Some r"
  by (cases r) (auto simp: nrec_wf_def normalized_def item_of_def stored_form_def content_field_def
      text_value_def Let_def short_def split: option.splits)

lemma same_record_stored: "same_record r (item_of r)"
  by (auto simp: same_record_def item_of_def stored_form_def content_field_def json_same_def split: option.splits)

lemma dedup_records_id: 
  "distinct (map nr_key rs) \<Longrightarrow> set (map nr_key rs) \<inter> seen = {} \<Longrightarrow> dedup_records seen (map Some rs) = rs"
  by (induction rs arbitrary: seen) auto

lemma trim_records_id: "rs = [] \<or> fits rs = Some True \<Longrightarrow> trim_records rs = Some rs"
  by (cases rs) auto

lemma load_pins_saved:
  assumes "list_all (nrec_wf sc n) rs" "distinct (map nr_key rs)" "fits rs = Some True"
  shows "load_pins sc n (Some (JList (map item_of rs))) = Inr (rs, False)"
proof -
  have "map (normalized sc n \<circ> item_of) rs = map Some rs"
    using assms(1) by (simp add: list_all_iff normalized_stored)
  moreover have "list_all2 same_record rs (map item_of rs)"
    by (simp add: list_all2_conv_all_nth same_record_stored)
  ultimately show ?thesis
    using assms(2,3) unfolding load_pins_def by (simp del: map_eq_conv add: dedup_records_id trim_records_id)
qed

section \<open>Size of a record that was removed on the phone\<close>

text \<open>\<open>a\<close> encodes whenever \<open>b\<close> does, to no more bytes.\<close>

definition le8 :: "pystr \<Rightarrow> pystr \<Rightarrow> bool" where
  "le8 a b \<longleftrightarrow> (\<forall>x. utf8_encode b = Some x \<longrightarrow> (\<exists>y. utf8_encode a = Some y \<and> length y \<le> length x))"

lemma utf8_encode_append:
  "utf8_encode (a @ b) =
     (case utf8_encode a of None \<Rightarrow> None | Some x \<Rightarrow> map_option (\<lambda>y. x @ y) (utf8_encode b))"
  by (induction a) (cases "utf8_encode b"; auto split: option.splits)+

lemma le8_refl [simp]: "le8 a a"
  by (simp add: le8_def)

lemma le8_append: "le8 a b \<Longrightarrow> le8 c d \<Longrightarrow> le8 (a @ c) (b @ d)"
  unfolding le8_def utf8_encode_append by (fastforce split: option.splits simp: add_mono)

lemma le8_join: "list_all2 le8 xs ys \<Longrightarrow> le8 (py_join sep xs) (py_join sep ys)"
proof (induction rule: list_all2_induct)
  case (Cons x xs y ys)
  then show ?case by (cases xs; cases ys) (auto intro!: le8_append)
qed simp

lemma le8_bool: "le8 (json_dumps (JBool True)) (json_dumps (JBool b))"
  by (cases b) (simp_all add: le8_def lit_def utf8_char_def)

lemma le8_removed:
  "le8 (json_dumps (JObj (stored_form (r\<lparr>nr_removed := True\<rparr>)))) (json_dumps (JObj (stored_form r)))"
proof -
  let ?f = "\<lambda>(k, v). json_quote k @ [58] @ json_dumps v"
  have rem: "le8 (?f (lit ''removed'', JBool True)) (?f (lit ''removed'', JBool (nr_removed r)))"
    unfolding prod.case by (intro le8_append le8_refl le8_bool)
  have "list_all2 le8 (map ?f (stored_form (r\<lparr>nr_removed := True\<rparr>))) (map ?f (stored_form r))"
    using rem by (auto simp: stored_form_def list_all2_append list_all2_refl content_field_def simp del: json_dumps.simps split: option.splits)
  from le8_append [OF le8_append [OF le8_refl [of "[123]"] le8_join [OF this, of "[44]"]] le8_refl [of "[125]"]]
  show ?thesis by simp
qed

lemma fits_mono:
  assumes "fits rs = Some True"
    "list_all2 (\<lambda>q r. le8 (json_dumps (JObj (stored_form q))) (json_dumps (JObj (stored_form r)))) qs rs"
  shows "fits qs = Some True"
proof -
  let ?j = "\<lambda>rs. json_dumps (JList (map (JObj \<circ> stored_form) rs))"
  have "list_all2 le8 (map (\<lambda>r. json_dumps (JObj (stored_form r))) qs) (map (\<lambda>r. json_dumps (JObj (stored_form r))) rs)"
    using assms(2) by (simp only: list.rel_map)
  from le8_append [OF le8_append [OF le8_refl [of "[91]"] le8_join [OF this, of "[44]"]] le8_refl [of "[93]"]]
  have "le8 (?j qs) (?j rs)" by (simp only: json_dumps.simps map_map comp_def append_Cons append_Nil)
  moreover have "length qs = length rs" using assms(2) by (rule list_all2_lengthD)
  ultimately show ?thesis using assms(1)
    by (fastforce simp: fits_def serialized_size_def le8_def simp del: json_dumps.simps split: if_splits)
qed

lemma le8_subseq: "subseq a b \<Longrightarrow> le8 a b"
proof (induction rule: list_emb.induct)
  case (list_emb_Cons xs ys y)
  then show ?case by (fastforce simp: le8_def split: option.splits)
next
  case (list_emb_Cons2 x y xs ys)
  then show ?case by (auto simp: le8_def split: option.splits)
qed (simp add: le8_def)

lemma py_join_Cons: "py_join sep (w # ws) = w @ concat (map (\<lambda>v. sep @ v) ws)"
  by (induction ws arbitrary: w) simp_all

lemma subseq_join: "subseq (py_join sep (xs @ ys)) (py_join sep (xs @ y # ys))"
proof (cases xs)
  case Nil
  then show ?thesis by (cases ys) (auto simp: py_join_Cons intro: list_emb_append2)
next
  case (Cons x zs)
  have "subseq ((x @ concat (map (\<lambda>v. sep @ v) zs)) @ concat (map (\<lambda>v. sep @ v) ys))
      ((x @ concat (map (\<lambda>v. sep @ v) zs)) @ (sep @ y) @ concat (map (\<lambda>v. sep @ v) ys))"
    by (intro list_emb_append_mono subseq_order.refl list_emb_append2)
  then show ?thesis by (simp add: Cons py_join_Cons)
qed

lemma fits_drop_one:
  assumes "fits (xs @ y # ys) = Some True"
  shows "fits (xs @ ys) = Some True"
proof -
  let ?j = "\<lambda>rs. json_dumps (JList (map (JObj \<circ> stored_form) rs))"
  have "subseq (?j (xs @ ys)) (?j (xs @ y # ys))"
    using subseq_join [of "[44]" "map (\<lambda>r. json_dumps (JObj (stored_form r))) xs" "map (\<lambda>r. json_dumps (JObj (stored_form r))) ys"]
    by (simp add: comp_def del: json_dumps.simps(7))
  then have "le8 (?j (xs @ ys)) (?j (xs @ y # ys))" by (rule le8_subseq)
  then show ?thesis using assms
    by (fastforce simp: fits_def serialized_size_def le8_def simp del: json_dumps.simps split: if_splits)
qed

end
