(* ===== verification/Notification_Log.thy ===== *)
theory Notification_Log
  imports Notification_Pins
begin

text \<open>
  The opt-in log of recent app notifications (\<open>notification_log.py\<close>): a bounded ring of records plus the
  pinned ones. Every operation of \<open>NotificationLog\<close> is modelled, with the store of the pins under it.
  The keys that \<open>secrets.token_urlsafe\<close> is about to give are a list in the state; \<open>None\<close> as the result
  of an operation means that \<open>_unique_key\<close> is still drawing because that list ran out. What the
  operation asks of the storage is its environment (\<open>store_env\<close>), fixed during one operation except
  that a failed decryption makes the store unreadable.

  The lemmas show the shape of the log (ring bounded and duplicate free, at most twenty pins that fit the
  storage, a record for exactly the listed keys), that a record detached from its ANCS session is never
  matched, changed or offered for actions again, and that pins survive a restart.
\<close>

section \<open>State\<close>

definition MAX_FIELD_CHARS :: nat where [consts_defs]: "MAX_FIELD_CHARS = 512"
definition MESSAGES_APP_ID :: pystr where "MESSAGES_APP_ID = lit ''com.apple.MobileSMS''"

datatype nl_error = Key_error | Pin_limit | Pin_store pin_error

record nlog =
  show_content :: bool
  capacity :: nat
  entries :: "(pystr \<times> nrec) list"
  sessions :: "(pystr \<times> nat option) list"
  ring :: "pystr list"
  pinned :: "pystr list"
  session :: nat
  has_store :: bool
  pins_loaded :: bool
  pins_load_failed :: bool
  pins_dirty :: bool
  has_listener :: bool
  has_idle :: bool
  emit_pending :: bool
  draws :: "pystr list"
  disk :: "json option"
  announced :: nat

definition NotificationLog_init :: "bool \<Rightarrow> int \<Rightarrow> bool \<Rightarrow> bool \<Rightarrow> bool \<Rightarrow> pystr list \<Rightarrow> json option \<Rightarrow> nlog" where
  "NotificationLog_init content cap store listener idle ds d =
     \<lparr>show_content = content, capacity = nat (max 1 cap), entries = [], sessions = [], ring = [], pinned = [],
      session = 0, has_store = store, pins_loaded = \<not> store, pins_load_failed = False, pins_dirty = False,
      has_listener = listener, has_idle = idle, emit_pending = False, draws = ds, disk = d, announced = 0\<rparr>"

definition bounded :: "pystr \<Rightarrow> pystr" where
  "bounded s = (if length s \<le> MAX_FIELD_CHARS then s else take (MAX_FIELD_CHARS - 1) s @ [0x2026])"

text \<open>\<open>self._entries[key]\<close> for a key that is there.\<close>

definition entry :: "nlog \<Rightarrow> pystr \<Rightarrow> nrec" where
  "entry s k = the (map_of (entries s) k)"

definition live_key :: "nlog \<Rightarrow> pystr \<Rightarrow> bool" where
  "live_key s k \<longleftrightarrow> map_of (sessions s) k = Some (Some (session s))"

section \<open>Internals\<close>

definition nl_notify :: "nlog \<Rightarrow> nlog" where
  "nl_notify s =
     (if \<not> has_listener s then s
      else if \<not> has_idle s then s\<lparr>announced := announced s + 1\<rparr>
      else if emit_pending s then s
      else s\<lparr>emit_pending := True\<rparr>)"

text \<open>The idle callback that \<open>_notify\<close> scheduled.\<close>

definition nl_fire :: "nlog \<Rightarrow> nlog" where
  "nl_fire s = s\<lparr>emit_pending := False, announced := (if has_listener s then announced s + 1 else announced s)\<rparr>"

definition set_listener :: "nlog \<Rightarrow> nlog" where
  "set_listener s = s\<lparr>has_listener := True\<rparr>"

definition live_match :: "nlog \<Rightarrow> nrec \<Rightarrow> pystr option" where
  "live_match s r =
     map_option fst (find (\<lambda>(k, e). live_key s k \<and> \<not> nr_removed e \<and> nr_id e = nr_id r \<and> nr_app_id e = nr_app_id r)
       (entries s))"

definition fresh_key :: "nlog \<Rightarrow> pystr set \<Rightarrow> pystr \<Rightarrow> bool" where
  "fresh_key s avoid k \<longleftrightarrow> valid_key k \<and> k \<notin> fst ` set (entries s) \<and> k \<notin> avoid"

definition unique_key :: "pystr set \<Rightarrow> nlog \<Rightarrow> (pystr \<times> nlog) option" where
  "unique_key avoid s =
     (case dropWhile (\<lambda>k. \<not> fresh_key s avoid k) (draws s) of
        [] \<Rightarrow> None
      | k # ds \<Rightarrow> Some (k, s\<lparr>draws := ds\<rparr>))"

definition ring_remove :: "pystr \<Rightarrow> nlog \<Rightarrow> nlog" where
  "ring_remove k s = s\<lparr>ring := remove1 k (ring s)\<rparr>"

definition nl_drop :: "pystr \<Rightarrow> nlog \<Rightarrow> nlog" where
  "nl_drop k s = s\<lparr>entries := al_pop k (entries s), sessions := al_pop k (sessions s)\<rparr>"

text \<open>The loop of \<open>_ring_append\<close>: as many evictions as the ring is too long.\<close>

fun evict :: "nat \<Rightarrow> nlog \<Rightarrow> nlog" where
  "evict 0 s = s"
| "evict (Suc n) s =
     (case ring s of
        [] \<Rightarrow> s
      | k # ks \<Rightarrow>
          let s' = s\<lparr>ring := ks\<rparr> in evict n (if k \<in> set (pinned s) then s' else nl_drop k s'))"

definition ring_append :: "pystr \<Rightarrow> nlog \<Rightarrow> nlog" where
  "ring_append k s = (let t = evict (Suc (length (ring s)) - capacity s) s in t\<lparr>ring := ring t @ [k]\<rparr>)"

definition rekey :: "pystr \<Rightarrow> pystr set \<Rightarrow> nlog \<Rightarrow> nlog option" where
  "rekey k avoid s =
     (case unique_key avoid s of
        None \<Rightarrow> None
      | Some (fresh, s) \<Rightarrow>
          let r = entry s k; sess = (case map_of (sessions s) k of None \<Rightarrow> None | Some v \<Rightarrow> v)
          in Some (s\<lparr>entries := al_set fresh (r\<lparr>nr_key := fresh\<rparr>) (al_pop k (entries s)),
                     sessions := al_set fresh sess (al_pop k (sessions s)),
                     ring := map (\<lambda>i. if i = k then fresh else i) (ring s),
                     pinned := map (\<lambda>i. if i = k then fresh else i) (pinned s)\<rparr>))"

definition nl_save :: "store_env \<Rightarrow> nlog \<Rightarrow> pin_error + nlog" where
  "nl_save env s =
     (if \<not> has_store s then Inr s
      else sum_bind (store_save (map (entry s) (pinned s)) env (disk s)) (\<lambda>d.
        Inr (s\<lparr>disk := d, pins_dirty := False\<rparr>)))"

definition persist :: "store_env \<Rightarrow> nlog \<Rightarrow> nlog" where
  "persist env s =
     (if \<not> has_store s \<or> \<not> pins_loaded s then s
      else if \<not> store_writable env then s\<lparr>pins_dirty := True\<rparr>
      else case nl_save env s of Inl _ \<Rightarrow> s\<lparr>pins_dirty := True\<rparr> | Inr t \<Rightarrow> t)"

fun add_stored :: "pystr set \<Rightarrow> nrec list \<Rightarrow> nlog \<Rightarrow> nlog option" where
  "add_stored stored_keys [] s = Some s"
| "add_stored stored_keys (r # rs) s =
     (case (if nr_key r \<in> fst ` set (entries s) then rekey (nr_key r) stored_keys s else Some s) of
        None \<Rightarrow> None
      | Some s \<Rightarrow> add_stored stored_keys rs
          (s\<lparr>entries := al_set (nr_key r) r (entries s), sessions := al_set (nr_key r) None (sessions s)\<rparr>))"

text \<open>\<open>_load_pins\<close>: the inner sum says whether it raised; its state is the one left behind.\<close>

definition nl_load_pins :: "store_env \<Rightarrow> nlog \<Rightarrow> (nlog \<times> pin_error option) option" where
  "nl_load_pins env s =
     (if pins_loaded s \<or> \<not> has_store s \<or> \<not> store_readable env then Some (s, None)
      else case store_load (show_content s) MAX_FIELD_CHARS env (disk s) of
        Inl e \<Rightarrow> Some (s, Some e)
      | Inr (stored, rewrite) \<Rightarrow>
          if \<not> memory_only env \<and> decrypt_fails env then Some (s, None)
          else (case add_stored (set (map nr_key stored)) stored (s\<lparr>pins_loaded := True, pins_load_failed := False\<rparr>) of
                  None \<Rightarrow> None
                | Some t \<Rightarrow>
                    let loaded = map nr_key stored;
                        t = t\<lparr>pinned := loaded @ filter (\<lambda>k. k \<notin> set loaded) (pinned t)\<rparr>;
                        t = (if rewrite then persist env t else t)
                    in Some (if loaded \<noteq> [] then nl_notify t else t, None)))"

definition ensure_pins_loaded :: "store_env \<Rightarrow> nlog \<Rightarrow> nlog option" where
  "ensure_pins_loaded env s =
     (case nl_load_pins env s of
        None \<Rightarrow> None
      | Some (t, None) \<Rightarrow> Some t
      | Some (t, Some _) \<Rightarrow> Some (t\<lparr>pins_load_failed := True\<rparr>))"

section \<open>iPhone events\<close>

record nevent =
  ev_id :: int
  ev_app_id :: pystr
  ev_app_name :: pystr
  ev_time :: pystr
  ev_title :: pystr
  ev_subtitle :: pystr
  ev_body :: pystr

definition event_record :: "nlog \<Rightarrow> nevent \<Rightarrow> pystr \<Rightarrow> nrec" where
  "event_record s ev k =
     \<lparr>nr_key = k, nr_id = ev_id ev, nr_app_id = bounded (ev_app_id ev), nr_app_name = bounded (ev_app_name ev),
      nr_time = ev_time ev, nr_removed = False,
      nr_title = (if show_content s then Some (bounded (ev_title ev)) else None),
      nr_subtitle = (if show_content s then Some (bounded (ev_subtitle ev)) else None),
      nr_body = (if show_content s then Some (bounded (ev_body ev)) else None)\<rparr>"

text \<open>Storing the record under its key, the common tail of \<open>handle_ancs\<close>.\<close>

definition store_record :: "store_env \<Rightarrow> pystr \<Rightarrow> nevent \<Rightarrow> nlog \<Rightarrow> nlog" where
  "store_record env k ev s =
     (let s = s\<lparr>entries := al_set k (event_record s ev k) (entries s),
               sessions := al_set k (Some (session s)) (sessions s)\<rparr>;
          s = ring_append k s;
          s = (if k \<in> set (pinned s) then persist env s else s)
      in nl_notify s)"

definition store_new :: "store_env \<Rightarrow> nevent \<Rightarrow> nlog \<Rightarrow> nlog option" where
  "store_new env ev s = (case unique_key {} s of None \<Rightarrow> None | Some (k, s) \<Rightarrow> Some (store_record env k ev s))"

definition handle_ancs :: "store_env \<Rightarrow> nevent \<Rightarrow> nlog \<Rightarrow> (nlog \<times> nl_error option) option" where
  "handle_ancs env ev s =
     (if ev_app_id ev = [] \<or> ev_app_id ev = MESSAGES_APP_ID then Some (s, None)
      else case ensure_pins_loaded env s of
        None \<Rightarrow> None
      | Some s \<Rightarrow>
          (case live_match s (event_record s ev []) of
             None \<Rightarrow> map_option (\<lambda>t. (t, None)) (store_new env ev s)
           | Some k \<Rightarrow>
               if k \<in> set (pinned s) then
                 (case fits (map (\<lambda>p. if p = k then event_record s ev k else entry s p) (pinned s)) of
                    None \<Rightarrow> Some (s, Some (Pin_store Unicode_error))
                  | Some True \<Rightarrow> Some (store_record env k ev (ring_remove k s), None)
                  | Some False \<Rightarrow>
                      map_option (\<lambda>t. (t, None)) (store_new env ev (s\<lparr>sessions := al_set k None (sessions s)\<rparr>)))
               else Some (store_record env k ev (ring_remove k s), None)))"

definition matches_uid :: "nlog \<Rightarrow> int \<Rightarrow> pystr \<times> nrec \<Rightarrow> bool" where
  "matches_uid s uid p \<longleftrightarrow> live_key s (fst p) \<and> nr_id (snd p) = uid \<and> \<not> nr_removed (snd p)"

definition mark_removed :: "store_env \<Rightarrow> int \<Rightarrow> nlog \<Rightarrow> nlog" where
  "mark_removed env uid s =
     (let hit = filter (matches_uid s uid) (entries s);
          t = s\<lparr>entries := map (\<lambda>p. if matches_uid s uid p then (fst p, (snd p)\<lparr>nr_removed := True\<rparr>) else p) (entries s)\<rparr>;
          t = (if \<exists>p \<in> set hit. fst p \<in> set (pinned s) then persist env t else t)
      in if hit \<noteq> [] then nl_notify t else t)"

definition session_reset :: "nlog \<Rightarrow> nlog" where
  "session_reset s =
     (let live = filter (live_key s) (map fst (sessions s));
          t = s\<lparr>session := session s + 1\<rparr>
      in if \<exists>k \<in> set live. \<not> nr_removed (entry s k) then nl_notify t else t)"

section \<open>Pins\<close>

definition save_pins :: "store_env \<Rightarrow> pystr list \<Rightarrow> pystr \<Rightarrow> bool \<Rightarrow> nlog \<Rightarrow> nlog \<times> (nl_error + bool)" where
  "save_pins env pins k pin s =
     (case nl_save env (s\<lparr>pinned := pins\<rparr>) of
        Inl e \<Rightarrow> (s, Inl (Pin_store e))
      | Inr t \<Rightarrow>
          let t = (if \<not> pin \<and> k \<notin> set (ring t) then nl_drop k t else t)
          in (nl_notify t, Inr pin))"

definition change_pin :: "store_env \<Rightarrow> pystr \<Rightarrow> bool \<Rightarrow> nlog \<Rightarrow> nlog \<times> (nl_error + bool)" where
  "change_pin env k pin s =
     (if \<not> pins_loaded s then (s, Inl (Pin_store Storage_unavailable))
      else if \<not> valid_key k \<or> k \<notin> fst ` set (entries s) then (s, Inl Key_error)
      else if pin then
        if k \<in> set (pinned s) then (s, Inr True)
        else if MAX_PINNED_NOTIFICATIONS \<le> length (pinned s) then (s, Inl Pin_limit)
        else (case fits (map (entry s) (pinned s @ [k])) of
                None \<Rightarrow> (s, Inl (Pin_store Unicode_error))
              | Some False \<Rightarrow> (s, Inl Pin_limit)
              | Some True \<Rightarrow> save_pins env (pinned s @ [k]) k True s)
      else if k \<notin> set (pinned s) then (s, Inr False)
      else save_pins env (remove1 k (pinned s)) k False s)"

definition set_pinned :: "store_env \<Rightarrow> pystr \<Rightarrow> bool \<Rightarrow> nlog \<Rightarrow> (nlog \<times> (nl_error + bool)) option" where
  "set_pinned env k pin s =
     (case nl_load_pins env s of
        None \<Rightarrow> None
      | Some (t, Some Unreadable_settings) \<Rightarrow> Some (t, Inl (Pin_store Unreadable_settings))
      | Some (t, Some _) \<Rightarrow> Some (change_pin env k pin (t\<lparr>pins_load_failed := True\<rparr>))
      | Some (t, None) \<Rightarrow> Some (change_pin env k pin t))"

definition pinned_count :: "nlog \<Rightarrow> nat" where
  "pinned_count s = length (pinned s)"

text \<open>\<open>self._store.clear()\<close> of \<open>forget_pins\<close> and \<open>clear\<close>: the preference is removed, not strictly.\<close>

definition store_clear :: "store_env \<Rightarrow> nlog \<Rightarrow> pin_error + nlog" where
  "store_clear env s =
     (if \<not> has_store s then Inr s
      else sum_bind (pref_clear False env (disk s)) (\<lambda>d. Inr (s\<lparr>disk := d\<rparr>)))"

fun drop_unlisted :: "pystr list \<Rightarrow> nlog \<Rightarrow> nlog" where
  "drop_unlisted [] s = s"
| "drop_unlisted (k # ks) s = drop_unlisted ks (if k \<in> set (ring s) then s else nl_drop k s)"

definition forget_pins :: "store_env \<Rightarrow> nlog \<Rightarrow> pin_error + nlog" where
  "forget_pins env s =
     sum_bind (store_clear env s) (\<lambda>s.
       let t = (drop_unlisted (pinned s) s)\<lparr>pinned := [], pins_dirty := False\<rparr>
       in Inr (if pinned s \<noteq> [] then nl_notify t else t))"

definition nl_clear :: "store_env \<Rightarrow> nlog \<Rightarrow> pin_error + nlog" where
  "nl_clear env s =
     sum_bind (store_clear env s) (\<lambda>s.
       let t = s\<lparr>entries := [], sessions := [], ring := [], pinned := [], pins_dirty := False\<rparr>
       in Inr (if entries s \<noteq> [] then nl_notify t else t))"

definition storage_changed :: "store_env \<Rightarrow> nlog \<Rightarrow> nlog option" where
  "storage_changed env s =
     map_option (\<lambda>t. nl_notify (if pins_dirty t then persist env t else t)) (ensure_pins_loaded env s)"

section \<open>The list clients see\<close>

record public_rec =
  pr_record :: nrec
  pr_pinned :: bool
  pr_actionable :: bool

definition public :: "nlog \<Rightarrow> pystr \<Rightarrow> public_rec" where
  "public s k = \<lparr>pr_record = entry s k, pr_pinned = (k \<in> set (pinned s)),
     pr_actionable = (\<not> nr_removed (entry s k) \<and> live_key s k)\<rparr>"

definition listing :: "nlog \<Rightarrow> pystr list" where
  "listing s = rev (pinned s) @ filter (\<lambda>k. k \<notin> set (pinned s)) (rev (ring s))"

definition nl_snapshot :: "store_env \<Rightarrow> int \<Rightarrow> nlog \<Rightarrow> (nlog \<times> public_rec list) option" where
  "nl_snapshot env limit s =
     map_option (\<lambda>t. let t = (if pins_dirty t then persist env t else t)
                     in (t, map (public t) (take (nat limit) (listing t)))) (ensure_pins_loaded env s)"

section \<open>Shape of the log\<close>

definition records_wf :: "nlog \<Rightarrow> bool" where
  "records_wf s \<longleftrightarrow> (\<forall>k r. map_of (entries s) k = Some r \<longrightarrow> nr_key r = k \<and> nrec_wf (show_content s) MAX_FIELD_CHARS r)"

text \<open>\<open>X\<close>: keys whose record is stored and that are about to be listed.\<close>

definition keys_wf :: "pystr set \<Rightarrow> nlog \<Rightarrow> bool" where
  "keys_wf X s \<longleftrightarrow> X \<inter> set (ring s) = {} \<and> distinct (map fst (entries s)) \<and> distinct (map fst (sessions s)) \<and>
     fst ` set (sessions s) = fst ` set (entries s) \<and> fst ` set (entries s) = set (ring s) \<union> set (pinned s) \<union> X"

definition pins_wf :: "nlog \<Rightarrow> bool" where
  "pins_wf s \<longleftrightarrow> distinct (pinned s) \<and> (pinned s \<noteq> [] \<longrightarrow> pins_loaded s \<and> fits (map (entry s) (pinned s)) = Some True)"

definition ring_wf :: "nlog \<Rightarrow> bool" where
  "ring_wf s \<longleftrightarrow> distinct (ring s) \<and> 1 \<le> capacity s \<and> length (ring s) \<le> capacity s"

definition active :: "nlog \<Rightarrow> pystr \<Rightarrow> nrec \<Rightarrow> bool" where
  "active s k r \<longleftrightarrow> live_key s k \<and> map_of (entries s) k = Some r \<and> \<not> nr_removed r"

definition same_note :: "nrec \<Rightarrow> nrec \<Rightarrow> bool" where
  "same_note q r \<longleftrightarrow> nr_id q = nr_id r \<and> nr_app_id q = nr_app_id r"

definition sessions_wf :: "nlog \<Rightarrow> bool" where
  "sessions_wf s \<longleftrightarrow>
     (\<forall>k n. map_of (sessions s) k = Some (Some n) \<longrightarrow> n \<le> session s) \<and>
     (\<forall>k l q r. active s k q \<and> active s l r \<and> same_note q r \<longrightarrow> k = l)"

definition nl_invx :: "pystr set \<Rightarrow> nlog \<Rightarrow> bool" where
  "nl_invx X s \<longleftrightarrow> records_wf s \<and> keys_wf X s \<and> pins_wf s \<and> ring_wf s \<and> sessions_wf s"

abbreviation nl_inv :: "nlog \<Rightarrow> bool" where
  "nl_inv \<equiv> nl_invx {}"

lemmas nl_parts = records_wf_def keys_wf_def pins_wf_def ring_wf_def sessions_wf_def active_def live_key_def entry_def

text \<open>Two states with the same records, lists and sessions.\<close>

definition same_log :: "nlog \<Rightarrow> nlog \<Rightarrow> bool" where
  "same_log s t \<longleftrightarrow> show_content t = show_content s \<and> capacity t = capacity s \<and> entries t = entries s \<and>
     sessions t = sessions s \<and> ring t = ring s \<and> pinned t = pinned s \<and> session t = session s \<and>
     pins_loaded t = pins_loaded s"

lemma nl_inv_same: "same_log s t \<Longrightarrow> nl_invx X t = nl_invx X s"
  by (simp add: same_log_def nl_invx_def nl_parts entry_def [abs_def])

lemma same_log_refl [simp]: "same_log s s"
  by (simp add: same_log_def)

lemma same_log_trans [trans]: "same_log s t \<Longrightarrow> same_log t u \<Longrightarrow> same_log s u"
  by (simp add: same_log_def)

lemma same_log_notify [simp]: "same_log s (nl_notify s)"
  by (simp add: nl_notify_def same_log_def)

lemma same_log_fire [simp]: "same_log s (nl_fire s)"
  by (simp add: nl_fire_def same_log_def)

lemma nl_save_same: "nl_save env s = Inr t \<Longrightarrow> same_log s t"
  by (auto simp: nl_save_def same_log_def split: if_splits sum.splits)

lemma same_log_persist [simp]: "same_log s (persist env s)"
  by (auto simp: persist_def same_log_def [of s "s\<lparr>pins_dirty := True\<rparr>"] dest: nl_save_same split: sum.splits)

lemma unique_key_Some:
  assumes "unique_key avoid s = Some (k, t)"
  shows "fresh_key s avoid k \<and> same_log s t"
proof -
  from assms obtain ds where "dropWhile (\<lambda>k. \<not> fresh_key s avoid k) (draws s) = k # ds" "t = s\<lparr>draws := ds\<rparr>"
    by (auto simp: unique_key_def split: list.splits)
  then show ?thesis using hd_dropWhile [of "\<lambda>k. \<not> fresh_key s avoid k" "draws s"] by (simp add: same_log_def)
qed

lemma same_log_fields:
  "same_log s t \<Longrightarrow> entries t = entries s \<and> sessions t = sessions s \<and> ring t = ring s \<and> pinned t = pinned s \<and>
     session t = session s \<and> capacity t = capacity s \<and> show_content t = show_content s \<and> pins_loaded t = pins_loaded s"
  by (simp add: same_log_def)

section \<open>Ring\<close>

lemma map_le_Some: "m \<subseteq>\<^sub>m n \<Longrightarrow> m k = Some v \<Longrightarrow> n k = Some v"
  by (metis map_le_def domI)

text \<open>Restricting the dictionaries keeps what holds of every record.\<close>

lemma records_wf_sub: "records_wf s \<Longrightarrow> map_of (entries t) \<subseteq>\<^sub>m map_of (entries s) \<Longrightarrow> show_content t = show_content s \<Longrightarrow> records_wf t"
  unfolding records_wf_def by (auto dest: map_le_Some)

lemma active_sub:
  assumes "map_of (entries t) \<subseteq>\<^sub>m map_of (entries s)" "map_of (sessions t) \<subseteq>\<^sub>m map_of (sessions s)"
    "session t = session s" "active t k r"
  shows "active s k r"
  using assms(3,4) map_le_Some [OF assms(1)] map_le_Some [OF assms(2)] by (simp add: active_def live_key_def)

lemma sessions_wf_sub:
  assumes "sessions_wf s" "map_of (entries t) \<subseteq>\<^sub>m map_of (entries s)" "map_of (sessions t) \<subseteq>\<^sub>m map_of (sessions s)"
    "session t = session s"
  shows "sessions_wf t"
proof -
  have "map_of (sessions t) k = Some r \<Longrightarrow> map_of (sessions s) k = Some r" for k r
    by (rule map_le_Some [OF assms(3)])
  then show ?thesis
    using assms(1) active_sub [OF assms(2-4)] unfolding sessions_wf_def assms(4) by meson
qed

lemma pins_wf_cong:
  assumes "pinned t = pinned s" "pins_loaded t = pins_loaded s" "\<And>k. k \<in> set (pinned s) \<Longrightarrow> entry t k = entry s k"
  shows "pins_wf t = pins_wf s"
proof -
  have "map (entry t) (pinned s) = map (entry s) (pinned s)" using assms(3) by simp
  then show ?thesis unfolding pins_wf_def assms(1,2) by (simp only:)
qed

lemma nl_inv_drop:
  assumes "nl_invx X s" "k \<notin> set (pinned s)" "k \<notin> X"
  shows "nl_invx X (nl_drop k (s\<lparr>ring := remove1 k (ring s)\<rparr>))"
proof -
  have m: "map_of (al_pop k m) \<subseteq>\<^sub>m map_of m" for m :: "(pystr \<times> 'v) list"
    by (simp add: map_le_def)
  define t where "t = nl_drop k (s\<lparr>ring := remove1 k (ring s)\<rparr>)"
  note t = t_def [unfolded nl_drop_def, simplified]
  have "records_wf t" using assms(1) records_wf_sub [of s t] m by (simp add: t nl_invx_def)
  moreover have "sessions_wf t" using assms(1) sessions_wf_sub [of s t] m by (simp add: t nl_invx_def)
  moreover have "keys_wf X t" using assms
    by (auto simp: nl_invx_def keys_wf_def ring_wf_def t distinct_al_pop)
  moreover have "ring_wf t" using assms(1) by (auto simp: nl_invx_def ring_wf_def t length_remove1)
  moreover have "pins_wf t"
    using assms(1) by (subst pins_wf_cong [of _ s]) (use assms(2) in \<open>auto simp: nl_invx_def entry_def t\<close>)
  ultimately show ?thesis by (simp add: nl_invx_def flip: t_def)
qed

lemma nl_inv_unlist:
  assumes "nl_invx X s" "k \<in> set (pinned s)"
  shows "nl_invx X (s\<lparr>ring := remove1 k (ring s)\<rparr>)"
proof -
  let ?t = "s\<lparr>ring := remove1 k (ring s)\<rparr>"
  have "pins_wf ?t = pins_wf s" by (rule pins_wf_cong) (simp_all add: entry_def)
  moreover have "sessions_wf ?t = sessions_wf s" by (simp add: sessions_wf_def active_def live_key_def)
  ultimately show ?thesis using assms
    by (auto simp: nl_invx_def records_wf_def keys_wf_def ring_wf_def length_remove1)
qed

lemma evict_inv:
  "nl_invx X s \<Longrightarrow> nl_invx X (evict n s) \<and> length (ring (evict n s)) = length (ring s) - n \<and>
     capacity (evict n s) = capacity s \<and> pinned (evict n s) = pinned s \<and> set (ring (evict n s)) \<subseteq> set (ring s)"
proof (induction n s rule: evict.induct)
  case (2 n s)
  show ?case
  proof (cases "ring s")
    case (Cons k ks)
    let ?s = "s\<lparr>ring := remove1 k (ring s)\<rparr>"
    have k: "k \<notin> X" using 2(2) Cons by (auto simp: nl_invx_def keys_wf_def)
    have "nl_invx X (if k \<in> set (pinned s) then ?s else nl_drop k ?s)"
      using nl_inv_unlist [OF 2(2)] nl_inv_drop [OF 2(2) _ k] by simp
    moreover have "ring (if k \<in> set (pinned s) then ?s else nl_drop k ?s) = ks"
      "capacity (if k \<in> set (pinned s) then ?s else nl_drop k ?s) = capacity s"
      "pinned (if k \<in> set (pinned s) then ?s else nl_drop k ?s) = pinned s"
      by (simp_all add: Cons nl_drop_def)
    moreover have eq: "s\<lparr>ring := ks\<rparr> = ?s" by (simp add: Cons)
    ultimately show ?thesis using 2(1) [OF Cons refl, unfolded eq]
      unfolding evict.simps(2) Cons list.case Let_def eq by auto
  qed (use 2 in simp)
qed simp

lemma nl_inv_list:
  assumes "nl_invx (insert k X) s" "k \<notin> X" "k \<notin> set (ring s)" "length (ring s) < capacity s"
  shows "nl_invx X (s\<lparr>ring := ring s @ [k]\<rparr>)"
proof -
  let ?t = "s\<lparr>ring := ring s @ [k]\<rparr>"
  have "pins_wf ?t = pins_wf s" by (rule pins_wf_cong) (simp_all add: entry_def)
  moreover have "sessions_wf ?t = sessions_wf s" by (simp add: sessions_wf_def active_def live_key_def)
  ultimately show ?thesis using assms
    by (auto simp: nl_invx_def records_wf_def keys_wf_def ring_wf_def)
qed

lemma ring_append_inv:
  assumes "nl_invx (insert k X) s" "k \<notin> X"
  shows "nl_invx X (ring_append k s)"
proof -
  let ?n = "Suc (length (ring s)) - capacity s"
  have "length (ring s) \<le> capacity s" "1 \<le> capacity s" "k \<notin> set (ring s)"
    using assms(1) by (auto simp: nl_invx_def ring_wf_def keys_wf_def)
  moreover from this have "length (ring s) - ?n < capacity s" by arith
  ultimately show ?thesis
    using evict_inv [OF assms(1), of ?n] nl_inv_list [OF _ assms(2), of "evict ?n s"]
    by (auto simp: ring_append_def Let_def)
qed

section \<open>Storing a record\<close>

lemma nl_inv_unlisted:
  assumes "nl_invx X s" "k \<in> fst ` set (entries s)"
  shows "nl_invx (insert k X) (ring_remove k s)"
proof -
  let ?t = "s\<lparr>ring := remove1 k (ring s)\<rparr>"
  have "pins_wf ?t = pins_wf s" by (rule pins_wf_cong) (simp_all add: entry_def)
  moreover have "sessions_wf ?t = sessions_wf s" by (simp add: sessions_wf_def active_def live_key_def)
  ultimately show ?thesis using assms
    by (auto simp: ring_remove_def nl_invx_def records_wf_def keys_wf_def ring_wf_def length_remove1)
qed

definition put :: "pystr \<Rightarrow> nrec \<Rightarrow> nat option \<Rightarrow> nlog \<Rightarrow> nlog" where
  "put k r v s = s\<lparr>entries := al_set k r (entries s), sessions := al_set k v (sessions s)\<rparr>"

lemma same_note_sym: "same_note q p \<Longrightarrow> same_note p q"
  by (simp add: same_note_def)

lemma active_put:
  "active (put k r v s) l q \<longleftrightarrow>
     l = k \<and> q = r \<and> v = Some (session s) \<and> \<not> nr_removed r \<or> l \<noteq> k \<and> active s l q"
  by (auto simp: put_def active_def live_key_def)

lemma put_frame [simp]:
  "ring (put k r v s) = ring s" "pinned (put k r v s) = pinned s" "session (put k r v s) = session s"
  "capacity (put k r v s) = capacity s" "show_content (put k r v s) = show_content s"
  "pins_loaded (put k r v s) = pins_loaded s"
  by (simp_all add: put_def)

lemma entry_put: "entry (put k r v s) l = (if l = k then r else entry s l)"
  by (simp add: put_def entry_def)

lemma put_sessions_wf:
  assumes "sessions_wf s" "v = None \<or> v = Some (session s)"
    "v = None \<or> (\<forall>l q. active s l q \<and> same_note q r \<longrightarrow> l = k)"
  shows "sessions_wf (put k r v s)"
proof -
  have 1: "\<forall>l n. map_of (sessions (put k r v s)) l = Some (Some n) \<longrightarrow> n \<le> session (put k r v s)"
    using assms(1,2) by (auto simp: sessions_wf_def put_def)
  have "\<forall>l m p q. active s l p \<and> active s m q \<and> same_note p q \<longrightarrow> l = m"
    using assms(1) by (simp add: sessions_wf_def)
  then have "\<forall>l m p q. active (put k r v s) l p \<and> active (put k r v s) m q \<and> same_note p q \<longrightarrow> l = m"
    unfolding active_put using assms(3) same_note_sym option.distinct(1) by metis
  with 1 show ?thesis by (simp add: sessions_wf_def)
qed

lemma put_inv:
  assumes "nl_invx X s" "nr_key r = k" "nrec_wf (show_content s) MAX_FIELD_CHARS r" "k \<notin> set (ring s)"
    "v = None \<or> v = Some (session s)" "v = None \<or> (\<forall>l q. active s l q \<and> same_note q r \<longrightarrow> l = k)"
    "k \<in> set (pinned s) \<Longrightarrow> fits (map (\<lambda>p. if p = k then r else entry s p) (pinned s)) = Some True"
  shows "nl_invx (insert k X) (put k r v s)"
proof -
  have "records_wf (put k r v s)" using assms(1-3) by (auto simp: nl_invx_def records_wf_def put_def)
  moreover have "keys_wf (insert k X) (put k r v s)" using assms(1,4) by (auto simp: nl_invx_def keys_wf_def put_def)
  moreover have "ring_wf (put k r v s)" using assms(1) by (simp add: nl_invx_def ring_wf_def)
  moreover have "sessions_wf (put k r v s)" using assms(1,5,6) by (intro put_sessions_wf) (simp_all add: nl_invx_def)
  moreover have "pins_wf (put k r v s)"
  proof (cases "k \<in> set (pinned s)")
    case True
    then show ?thesis using assms(1,7) by (auto simp: nl_invx_def pins_wf_def entry_put [abs_def])
  next
    case False
    then have "pins_wf (put k r v s) = pins_wf s" by (intro pins_wf_cong) (auto simp: entry_put)
    then show ?thesis using assms(1) by (simp add: nl_invx_def)
  qed
  ultimately show ?thesis by (simp add: nl_invx_def)
qed

text \<open>An event as the ANCS client reports it: a 32-bit id and an ISO timestamp.\<close>

definition event_ok :: "nevent \<Rightarrow> bool" where
  "event_ok ev \<longleftrightarrow> 0 \<le> ev_id ev \<and> ev_id ev \<le> 0xFFFFFFFF \<and> length (ev_time ev) \<le> MAX_FIELD_CHARS"

lemma bounded_length: "length (bounded s) \<le> MAX_FIELD_CHARS"
  by (simp add: bounded_def consts_defs)

lemma bounded_Nil [simp]: "bounded s = [] \<longleftrightarrow> s = []"
  by (auto simp: bounded_def)

lemma event_record_wf:
  "event_ok ev \<Longrightarrow> ev_app_id ev \<noteq> [] \<Longrightarrow> valid_key k \<Longrightarrow> nrec_wf (show_content s) MAX_FIELD_CHARS (event_record s ev k)"
  by (simp add: event_ok_def nrec_wf_def event_record_def bounded_length short_def)

lemma store_record_inv:
  assumes "nl_invx X s" "X \<subseteq> {k}" "event_ok ev" "ev_app_id ev \<noteq> []" "valid_key k" "k \<notin> set (ring s)"
    "\<And>l q. active s l q \<Longrightarrow> same_note q (event_record s ev k) \<Longrightarrow> l = k"
    "k \<in> set (pinned s) \<Longrightarrow> fits (map (\<lambda>p. if p = k then event_record s ev k else entry s p) (pinned s)) = Some True"
  shows "nl_inv (store_record env k ev s)"
proof -
  let ?t = "put k (event_record s ev k) (Some (session s)) s"
  have "nl_invx (insert k X) ?t"
    by (rule put_inv [OF assms(1)])
      (use assms(6-8) event_record_wf [OF assms(3-5)] in \<open>auto simp: event_record_def\<close>)
  moreover have "insert k X = {k}" using assms(2) by blast
  ultimately have "nl_inv (ring_append k ?t)" using ring_append_inv [of k "{}" ?t] by simp
  then have "nl_inv (persist env (ring_append k ?t))" "nl_inv (ring_append k ?t)"
    using nl_inv_same [OF same_log_persist] by auto
  then show ?thesis unfolding store_record_def Let_def
    using nl_inv_same [OF same_log_notify] by (simp add: put_def)
qed

section \<open>Loading the pins\<close>

definition renamed :: "pystr \<Rightarrow> pystr \<Rightarrow> nlog \<Rightarrow> nlog" where
  "renamed k fresh s =
     s\<lparr>entries := al_set fresh ((entry s k)\<lparr>nr_key := fresh\<rparr>) (al_pop k (entries s)),
       sessions := al_set fresh (case map_of (sessions s) k of None \<Rightarrow> None | Some v \<Rightarrow> v) (al_pop k (sessions s)),
       ring := map (\<lambda>i. if i = k then fresh else i) (ring s),
       pinned := map (\<lambda>i. if i = k then fresh else i) (pinned s)\<rparr>"

lemma rekey_renamed:
  "rekey k avoid s = Some t \<Longrightarrow> \<exists>fresh u. fresh_key s avoid fresh \<and> same_log s u \<and> t = renamed k fresh u"
  by (fastforce simp: rekey_def renamed_def Let_def dest: unique_key_Some split: option.splits)

lemma fresh_key_unused: "keys_wf X s \<Longrightarrow> fresh_key s avoid f \<Longrightarrow> f \<notin> set (ring s) \<and> f \<notin> set (pinned s) \<and> f \<notin> X \<and> f \<notin> avoid"
  by (auto simp: keys_wf_def fresh_key_def)

lemma sessions_wf_uniq: "sessions_wf s \<Longrightarrow> active s k q \<Longrightarrow> active s l r \<Longrightarrow> same_note q r \<Longrightarrow> k = l"
  unfolding sessions_wf_def by blast

lemma sessions_wf_bound: "sessions_wf s \<Longrightarrow> map_of (sessions s) k = Some (Some n) \<Longrightarrow> n \<le> session s"
  unfolding sessions_wf_def by blast

lemma sessions_wf_shrink:
  "sessions_wf s \<Longrightarrow> (\<And>l q. active t l q \<Longrightarrow> active s l q) \<Longrightarrow>
     (\<And>l n. map_of (sessions t) l = Some (Some n) \<Longrightarrow> n \<le> session t) \<Longrightarrow> sessions_wf t"
  unfolding sessions_wf_def by blast

lemma map_of_key: "k \<in> fst ` set m \<Longrightarrow> \<exists>v. map_of m k = Some v"
  by (meson map_of_eq_None_iff option.exhaust)

lemma active_renamed:
  assumes "k \<in> fst ` set (entries s)" "f \<noteq> k" "active (renamed k f s) l q"
  shows "(l = f \<and> (\<exists>p. active s k p \<and> q = p\<lparr>nr_key := f\<rparr>)) \<or> (l \<noteq> k \<and> l \<noteq> f \<and> active s l q)"
proof -
  obtain r where r: "map_of (entries s) k = Some r" using map_of_key [OF assms(1)] by blast
  show ?thesis
  proof (cases "l = f")
    case True
    with assms(2,3) r have "q = r\<lparr>nr_key := f\<rparr>" "\<not> nr_removed r" "live_key s k"
      by (auto simp: active_def live_key_def renamed_def entry_def split: option.splits)
    then show ?thesis using r True by (auto simp: active_def)
  next
    case False
    then show ?thesis using assms(3) by (auto simp: active_def live_key_def renamed_def split: if_splits)
  qed
qed

lemma renamed_sessions_wf:
  assumes "sessions_wf s" "keys_wf X s" "k \<in> fst ` set (entries s)" "f \<notin> fst ` set (entries s)"
  shows "sessions_wf (renamed k f s)"
proof -
  have fk: "f \<noteq> k" using assms(3,4) by blast
  note a = active_renamed [OF assms(3) fk]
  have origin: "\<exists>m q. active s m q \<and> same_note q p \<and> l = (if m = k then f else m)" if "active (renamed k f s) l p" for l p
    using a [OF that]
  proof (elim disjE conjE exE)
    fix q assume "l = f" "active s k q" "p = q\<lparr>nr_key := f\<rparr>"
    then show ?thesis by (intro exI [of _ k] exI [of _ q]) (simp add: same_note_def)
  next
    assume "l \<noteq> k" "l \<noteq> f" "active s l p"
    then show ?thesis by (intro exI [of _ l] exI [of _ p]) (simp add: same_note_def)
  qed
  have "l = m" if "active (renamed k f s) l p" "active (renamed k f s) m q" "same_note p q" for l m p q
  proof -
    from origin [OF that(1)] obtain l' p' where l: "active s l' p'" "same_note p' p" "l = (if l' = k then f else l')" by blast
    from origin [OF that(2)] obtain m' q' where m: "active s m' q'" "same_note q' q" "m = (if m' = k then f else m')" by blast
    have "same_note p' q'" using l(2) m(2) that(3) by (simp add: same_note_def)
    then show ?thesis using sessions_wf_uniq [OF assms(1) l(1) m(1)] l(3) m(3) by simp
  qed
  moreover have "n \<le> session s" if "map_of (sessions (renamed k f s)) l = Some (Some n)" for l n
    using that assms(1) by (auto simp: sessions_wf_def renamed_def split: if_splits option.splits)
  moreover have "session (renamed k f s) = session s" by (simp add: renamed_def)
  ultimately show ?thesis unfolding sessions_wf_def by auto
qed

lemma renamed_inv:
  assumes "nl_invx X s" "k \<in> set (ring s)" "pinned s = []" "fresh_key s avoid f"
  shows "nl_invx X (renamed k f s)"
proof -
  have kw: "keys_wf X s" using assms(1) by (simp add: nl_invx_def)
  from fresh_key_unused [OF kw assms(4)] have f: "f \<notin> set (ring s)" "f \<notin> X" by auto
  have k: "k \<in> fst ` set (entries s)" "k \<notin> X" using kw assms(2) by (auto simp: keys_wf_def)
  have fe: "f \<notin> fst ` set (entries s)" using assms(4) by (simp add: fresh_key_def)
  obtain r where r: "map_of (entries s) k = Some r" using map_of_key [OF k(1)] by blast
  have "records_wf (renamed k f s)"
    using assms(1,4) r by (auto simp: nl_invx_def records_wf_def renamed_def entry_def nrec_wf_def fresh_key_def)
  moreover have "distinct (map (\<lambda>i. if i = k then f else i) (ring s))"
    using assms(1) f(1) by (auto simp: nl_invx_def ring_wf_def distinct_map inj_on_def)
  then have "keys_wf X (renamed k f s)" "ring_wf (renamed k f s)"
    using assms(1-3) f k(2) by (auto simp: nl_invx_def keys_wf_def ring_wf_def renamed_def distinct_al_pop)
  moreover have "pins_wf (renamed k f s)" using assms(3) by (simp add: pins_wf_def renamed_def)
  moreover have "sessions_wf (renamed k f s)"
    using assms(1) kw k(1) fe by (intro renamed_sessions_wf) (simp_all add: nl_invx_def)
  ultimately show ?thesis by (simp add: nl_invx_def)
qed

lemma rekey_inv:
  assumes "nl_invx X s" "k \<in> set (ring s)" "pinned s = []" "rekey k avoid s = Some t"
  shows "nl_invx X t \<and> k \<notin> fst ` set (entries t) \<and> pinned t = [] \<and> capacity t = capacity s \<and>
    show_content t = show_content s \<and> session t = session s \<and> pins_loaded t = pins_loaded s \<and>
    (\<forall>l \<in> X. map_of (entries t) l = map_of (entries s) l)"
proof -
  from rekey_renamed [OF assms(4)] obtain f u where
    f: "fresh_key s avoid f" "same_log s u" "t = renamed k f u" by blast
  note [simp] = same_log_fields [OF f(2)]
  have kw: "keys_wf X s" using assms(1) by (simp add: nl_invx_def)
  have "fresh_key u avoid f" using f(1) by (simp add: fresh_key_def)
  then have "nl_invx X t"
    using renamed_inv [of X u k avoid f] nl_inv_same [OF f(2), of X] assms(1-3) f(3) by simp
  moreover have "f \<noteq> k" "k \<notin> X" "f \<notin> X" "k \<in> fst ` set (entries s)"
    using fresh_key_unused [OF kw f(1)] assms(2) kw by (auto simp: keys_wf_def)
  ultimately show ?thesis using assms(3) by (auto simp: f(3) renamed_def)
qed

lemma nl_inv_add:
  assumes "nl_invx X s" "nr_key r \<notin> fst ` set (entries s)" "nrec_wf (show_content s) MAX_FIELD_CHARS r"
  shows "nl_invx (insert (nr_key r) X) (put (nr_key r) r None s)"
  using assms by (intro put_inv) (auto simp: nl_invx_def keys_wf_def)

lemma add_stored_inv:
  assumes "nl_invx X s" "pinned s = []" "distinct (map nr_key rs)" "set (map nr_key rs) \<inter> X = {}"
    "list_all (nrec_wf (show_content s) MAX_FIELD_CHARS) rs" "add_stored ks rs s = Some t"
  shows "nl_invx (X \<union> set (map nr_key rs)) t \<and> pinned t = [] \<and> show_content t = show_content s \<and>
    pins_loaded t = pins_loaded s \<and> session t = session s \<and>
    (\<forall>l \<in> X. map_of (entries t) l = map_of (entries s) l) \<and>
    (\<forall>r \<in> set rs. map_of (entries t) (nr_key r) = Some r)"
  using assms
proof (induction rs arbitrary: s X)
  case (Cons r rs)
  let ?k = "nr_key r"
  obtain u where u: "(if ?k \<in> fst ` set (entries s) then rekey ?k ks s else Some s) = Some u"
    using Cons.prems(6) by (auto split: option.splits)
  have "nl_invx X u \<and> ?k \<notin> fst ` set (entries u) \<and> pinned u = [] \<and> capacity u = capacity s \<and>
      show_content u = show_content s \<and> session u = session s \<and> pins_loaded u = pins_loaded s \<and>
      (\<forall>l \<in> X. map_of (entries u) l = map_of (entries s) l)"
  proof (cases "?k \<in> fst ` set (entries s)")
    case True
    then have "?k \<in> set (ring s)" using Cons.prems(1,2,4) by (auto simp: nl_invx_def keys_wf_def)
    then show ?thesis using rekey_inv [OF Cons.prems(1) _ Cons.prems(2)] u True by simp
  qed (use u Cons.prems in simp)
  then have w: "nl_invx (insert ?k X) (put ?k r None u)" and keep: "pinned u = []" "show_content u = show_content s"
      "session u = session s" "pins_loaded u = pins_loaded s" "\<forall>l \<in> X. map_of (entries u) l = map_of (entries s) l"
    using nl_inv_add [of X u r] Cons.prems(5) by auto
  have "add_stored ks rs (put ?k r None u) = Some t" using Cons.prems(6) u by (simp add: put_def)
  from Cons.IH [OF w _ _ _ _ this] Cons.prems(3-5) keep
  have "nl_invx (insert ?k X \<union> set (map nr_key rs)) t" "pinned t = []" "show_content t = show_content s"
    "pins_loaded t = pins_loaded s" "session t = session s"
    "\<forall>l \<in> insert ?k X. map_of (entries t) l = map_of (entries (put ?k r None u)) l"
    "\<forall>r \<in> set rs. map_of (entries t) (nr_key r) = Some r" by auto
  moreover have "?k \<notin> X" using Cons.prems(4) by simp
  ultimately show ?case using keep(5) by (auto simp: put_def)
qed simp

lemma nl_inv_pin_loaded:
  assumes "nl_invx (set ks) s" "pinned s = []" "distinct ks" "ks = [] \<or> fits (map (entry s) ks) = Some True" "pins_loaded s"
  shows "nl_inv (s\<lparr>pinned := ks\<rparr>)"
proof -
  have "sessions_wf (s\<lparr>pinned := ks\<rparr>) = sessions_wf s" by (simp add: sessions_wf_def active_def live_key_def)
  moreover have "entry (s\<lparr>pinned := ks\<rparr>) = entry s" by (simp add: entry_def [abs_def])
  ultimately show ?thesis using assms
    by (auto simp: nl_invx_def records_wf_def keys_wf_def ring_wf_def pins_wf_def)
qed

lemma nl_load_pins_new:
  assumes "nl_load_pins env s = Some (t, e)" "\<not> same_log s t"
  obtains stored rewrite u where "\<not> pins_loaded s"
    "store_load (show_content s) MAX_FIELD_CHARS env (disk s) = Inr (stored, rewrite)"
    "add_stored (set (map nr_key stored)) stored (s\<lparr>pins_loaded := True, pins_load_failed := False\<rparr>) = Some u"
    "same_log (u\<lparr>pinned := map nr_key stored @ filter (\<lambda>k. k \<notin> set (map nr_key stored)) (pinned u)\<rparr>) t"
proof -
  from assms obtain stored rewrite u where ld: "\<not> pins_loaded s"
      "store_load (show_content s) MAX_FIELD_CHARS env (disk s) = Inr (stored, rewrite)"
      "add_stored (set (map nr_key stored)) stored (s\<lparr>pins_loaded := True, pins_load_failed := False\<rparr>) = Some u"
    and t: "t = (let v = u\<lparr>pinned := map nr_key stored @ filter (\<lambda>k. k \<notin> set (map nr_key stored)) (pinned u)\<rparr>;
                 v = (if rewrite then persist env v else v) in if map nr_key stored \<noteq> [] then nl_notify v else v)"
    by (auto simp: nl_load_pins_def Let_def split: if_splits sum.splits option.splits)
  have "same_log (u\<lparr>pinned := map nr_key stored @ filter (\<lambda>k. k \<notin> set (map nr_key stored)) (pinned u)\<rparr>) t"
    unfolding t Let_def by (auto intro: same_log_trans same_log_notify same_log_persist)
  with ld show thesis by (rule that)
qed

lemma nl_load_pins_inv:
  assumes "nl_inv s" "nl_load_pins env s = Some (t, e)"
  shows "nl_inv t \<and> session t = session s"
proof (cases "same_log s t")
  case True
  then show ?thesis using assms(1) nl_inv_same same_log_fields by blast
next
  case False
  from nl_load_pins_new [OF assms(2) this] obtain stored rewrite u where ld: "\<not> pins_loaded s"
      "store_load (show_content s) MAX_FIELD_CHARS env (disk s) = Inr (stored, rewrite)"
      "add_stored (set (map nr_key stored)) stored (s\<lparr>pins_loaded := True, pins_load_failed := False\<rparr>) = Some u"
    and t: "same_log (u\<lparr>pinned := map nr_key stored @ filter (\<lambda>k. k \<notin> set (map nr_key stored)) (pinned u)\<rparr>) t" .
  have p: "pinned s = []" using assms(1) ld(1) by (auto simp: nl_invx_def pins_wf_def)
  have wf: "list_all (nrec_wf (show_content s) MAX_FIELD_CHARS) stored" "distinct (map nr_key stored)"
      "stored = [] \<or> fits stored = Some True"
    using ld(2) load_pins_wf by (auto simp: store_load_def split: if_splits sum.splits)
  let ?s = "s\<lparr>pins_loaded := True, pins_load_failed := False\<rparr>"
  have "sessions_wf ?s = sessions_wf s" by (simp add: sessions_wf_def active_def live_key_def)
  then have "nl_inv ?s" using assms(1) p
    by (simp add: nl_invx_def records_wf_def keys_wf_def ring_wf_def pins_wf_def)
  from add_stored_inv [OF this _ wf(2) _ _ ld(3)] p wf(1)
  have u: "nl_invx (set (map nr_key stored)) u" "pinned u = []" "pins_loaded u" "session u = session s"
      "\<forall>r \<in> set stored. map_of (entries u) (nr_key r) = Some r" by auto
  have "map (entry u) (map nr_key stored) = stored"
    using u(5) by (simp add: entry_def map_idI)
  then have "nl_inv (u\<lparr>pinned := map nr_key stored\<rparr>)"
    using nl_inv_pin_loaded [OF u(1,2) wf(2) _ u(3)] wf(3) by auto
  moreover have same: "same_log (u\<lparr>pinned := map nr_key stored\<rparr>) t" using t u(2) by simp
  ultimately show ?thesis using nl_inv_same [OF same] same_log_fields [OF same] u(4) by simp
qed

lemma ensure_pins_loaded_inv:
  assumes "nl_inv s" "ensure_pins_loaded env s = Some t"
  shows "nl_inv t \<and> session t = session s"
proof -
  from assms(2) obtain u e where u: "nl_load_pins env s = Some (u, e)" "t = u \<or> t = u\<lparr>pins_load_failed := True\<rparr>"
    by (auto simp: ensure_pins_loaded_def split: option.splits)
  then have "same_log u t" by (auto simp: same_log_def)
  then show ?thesis using nl_load_pins_inv [OF assms(1) u(1)] nl_inv_same same_log_fields by metis
qed

section \<open>Every operation keeps the shape\<close>

lemma live_match_Some:
  assumes "live_match s r = Some k"
  shows "\<exists>q. (k, q) \<in> set (entries s) \<and> live_key s k \<and> \<not> nr_removed q \<and> same_note q r"
  using assms by (auto simp: live_match_def find_Some_iff same_note_def set_conv_nth)

lemma live_match_None:
  assumes "live_match s r = None" "active s k q"
  shows "\<not> same_note q r"
  using assms by (auto simp: live_match_def find_None_iff same_note_def active_def dest!: map_of_SomeD)

lemma live_match_active:
  assumes "keys_wf X s" "live_match s r = Some k"
  shows "\<exists>q. active s k q \<and> same_note q r \<and> k \<in> fst ` set (entries s)"
  using live_match_Some [OF assms(2)] assms(1) by (force simp: active_def keys_wf_def)

lemma same_note_event:
  "same_note q (event_record s ev k) \<longleftrightarrow> nr_id q = ev_id ev \<and> nr_app_id q = bounded (ev_app_id ev)"
  by (simp add: same_note_def event_record_def)

lemma store_new_inv:
  assumes "nl_inv s" "event_ok ev" "ev_app_id ev \<noteq> []" "store_new env ev s = Some t"
    "\<And>k q. active s k q \<Longrightarrow> \<not> same_note q (event_record s ev [])"
  shows "nl_inv t"
proof -
  from assms(4) obtain k u where u: "unique_key {} s = Some (k, u)" "t = store_record env k ev u"
    by (auto simp: store_new_def split: option.splits)
  from unique_key_Some [OF u(1)] have k: "fresh_key s {} k" "same_log s u" by auto
  note [simp] = same_log_fields [OF k(2)]
  have n: "k \<notin> set (ring s)" "k \<notin> set (pinned s)" "valid_key k"
    using k(1) assms(1) by (auto simp: fresh_key_def nl_invx_def keys_wf_def)
  have "active u l q = active s l q" for l q by (simp add: active_def live_key_def)
  then have "l = k" if "active u l q" "same_note q (event_record u ev k)" for l q
    using assms(5) [of l q] that by (simp add: same_note_event)
  then have "nl_inv (store_record env k ev u)"
    using assms(1) n nl_inv_same [OF k(2), of "{}"]
    by (intro store_record_inv [of "{}" u k, OF _ _ assms(2,3)]) auto
  then show ?thesis by (simp add: u(2))
qed

lemma nl_inv_detach:
  assumes "nl_inv s" "k \<in> fst ` set (entries s)"
  shows "nl_inv (s\<lparr>sessions := al_set k None (sessions s)\<rparr>)"
proof -
  let ?t = "s\<lparr>sessions := al_set k None (sessions s)\<rparr>"
  have a: "active ?t l q \<Longrightarrow> active s l q" for l q by (auto simp: active_def live_key_def split: if_splits)
  have w: "sessions_wf s" using assms(1) by (simp add: nl_invx_def)
  then have "sessions_wf ?t"
    using a by (rule sessions_wf_shrink) (use w in \<open>auto simp: sessions_wf_def split: if_splits\<close>)
  moreover have "pins_wf ?t = pins_wf s" by (rule pins_wf_cong) (simp_all add: entry_def)
  ultimately show ?thesis using assms by (auto simp: nl_invx_def records_wf_def keys_wf_def ring_wf_def)
qed

lemma handle_match_inv:
  assumes "nl_inv s" "event_ok ev" "ev_app_id ev \<noteq> []" "live_match s (event_record s ev []) = Some k"
    "k \<in> set (pinned s) \<Longrightarrow> fits (map (\<lambda>p. if p = k then event_record s ev k else entry s p) (pinned s)) = Some True"
  shows "nl_inv (store_record env k ev (ring_remove k s))"
proof -
  let ?s = "ring_remove k s"
  have kw: "keys_wf {} s" using assms(1) by (simp add: nl_invx_def)
  from live_match_active [OF kw assms(4)] obtain q where
    q: "active s k q" "same_note q (event_record s ev [])" "k \<in> fst ` set (entries s)" by blast
  have inv: "nl_invx {k} ?s" using nl_inv_unlisted [OF assms(1) q(3)] by simp
  have same: "event_record ?s ev k = event_record s ev k" "entry ?s = entry s" "active ?s = active s" "pinned ?s = pinned s"
    by (simp_all add: event_record_def ring_remove_def entry_def [abs_def] active_def [abs_def] live_key_def)
  have "valid_key k"
    using assms(1) q(1) by (auto simp: nl_invx_def records_wf_def active_def nrec_wf_def)
  moreover have "k \<notin> set (ring ?s)" using inv by (auto simp: nl_invx_def keys_wf_def)
  moreover have "l = k" if "active s l p" "same_note p (event_record s ev k)" for l p
    using sessions_wf_uniq [of s l p k q] that q(1,2) assms(1)
    by (simp add: nl_invx_def same_note_def event_record_def)
  ultimately show ?thesis
    using assms(5) by (intro store_record_inv [OF inv _ assms(2,3)]) (auto simp only: same)
qed

lemma handle_ancs_inv:
  assumes "nl_inv s" "event_ok ev" "handle_ancs env ev s = Some (t, e)"
  shows "nl_inv t"
proof (cases "ev_app_id ev = [] \<or> ev_app_id ev = MESSAGES_APP_ID")
  case True
  then show ?thesis using assms by (simp add: handle_ancs_def)
next
  case False
  then obtain u where u: "ensure_pins_loaded env s = Some u" using assms(3)
    by (auto simp: handle_ancs_def split: option.splits)
  have inv: "nl_inv u" and app: "ev_app_id ev \<noteq> []" using ensure_pins_loaded_inv [OF assms(1) u] False by auto
  show ?thesis
  proof (cases "live_match u (event_record u ev [])")
    case None
    then have "store_new env ev u = Some t" using assms(3) u False by (auto simp: handle_ancs_def)
    then show ?thesis using store_new_inv [OF inv assms(2) app] live_match_None [OF None] by blast
  next
    case (Some k)
    let ?d = "u\<lparr>sessions := al_set k None (sessions u)\<rparr>"
    have kw: "keys_wf {} u" using inv by (simp add: nl_invx_def)
    from live_match_active [OF kw Some] obtain q where
      q: "active u k q" "same_note q (event_record u ev [])" "k \<in> fst ` set (entries u)" by blast
    have "t = u \<or> t = store_record env k ev (ring_remove k u) \<and>
        (k \<in> set (pinned u) \<longrightarrow> fits (map (\<lambda>p. if p = k then event_record u ev k else entry u p) (pinned u)) = Some True) \<or>
        store_new env ev ?d = Some t"
      using assms(3) u False Some by (auto simp: handle_ancs_def split: option.splits if_splits bool.splits)
    then show ?thesis
    proof (elim disjE conjE)
      assume "store_new env ev ?d = Some t"
      moreover have "\<not> same_note p (event_record ?d ev [])" if "active ?d l p" for l p
      proof -
        from that have "active u l p" "l \<noteq> k" by (auto simp: active_def live_key_def split: if_splits)
        then show ?thesis using sessions_wf_uniq [of u l p k q] q(1,2) inv
          by (auto simp: nl_invx_def same_note_def event_record_def)
      qed
      ultimately show ?thesis using store_new_inv [OF nl_inv_detach [OF inv q(3)] assms(2) app] by blast
    qed (use inv handle_match_inv [OF inv assms(2) app Some] in auto)
  qed
qed

definition flag_removed :: "(pystr \<times> nrec \<Rightarrow> bool) \<Rightarrow> (pystr \<times> nrec) list \<Rightarrow> (pystr \<times> nrec) list" where
  "flag_removed P es = map (\<lambda>p. if P p then (fst p, (snd p)\<lparr>nr_removed := True\<rparr>) else p) es"

lemma keys_flag [simp]: "map fst (flag_removed P es) = map fst es"
  by (induction es) (auto simp: flag_removed_def)

lemma keyset_flag [simp]: "fst ` set (flag_removed P es) = fst ` set es"
  using keys_flag by (metis set_map)

lemma map_of_flag:
  "map_of (flag_removed P es) k =
     map_option (\<lambda>r. if P (k, r) then r\<lparr>nr_removed := True\<rparr> else r) (map_of es k)"
  by (induction es) (auto simp: flag_removed_def)

lemma nrec_wf_removed [simp]: "nrec_wf sc n (r\<lparr>nr_removed := b\<rparr>) = nrec_wf sc n r"
  by (simp add: nrec_wf_def)

lemma flag_removed_inv:
  assumes "nl_inv s"
  shows "nl_inv (s\<lparr>entries := flag_removed P (entries s)\<rparr>)"
proof -
  let ?t = "s\<lparr>entries := flag_removed P (entries s)\<rparr>"
  have a: "active ?t l q \<Longrightarrow> active s l q" for l q
    by (auto simp: active_def live_key_def map_of_flag split: if_splits)
  have w: "sessions_wf s" using assms by (simp add: nl_invx_def)
  then have "sessions_wf ?t"
    using a by (rule sessions_wf_shrink) (auto dest: sessions_wf_bound [OF w])
  moreover have "records_wf ?t" using assms
    by (auto simp: nl_invx_def records_wf_def map_of_flag)
  moreover have "pins_wf ?t"
  proof (cases "pinned s = []")
    case False
    have "le8 (json_dumps (JObj (stored_form (entry ?t k)))) (json_dumps (JObj (stored_form (entry s k))))"
      if "k \<in> set (pinned s)" for k
    proof -
      have "k \<in> fst ` set (entries s)" using assms that by (auto simp: nl_invx_def keys_wf_def)
      from map_of_key [OF this] obtain r where r: "map_of (entries s) k = Some r" by blast
      have "entry s k = r" "entry ?t k = r\<lparr>nr_removed := True\<rparr> \<or> entry ?t k = r"
        by (simp_all add: entry_def map_of_flag r)
      then show ?thesis by (elim disjE) (simp_all only: le8_removed le8_refl)
    qed
    then have "list_all2 (\<lambda>q r. le8 (json_dumps (JObj (stored_form q))) (json_dumps (JObj (stored_form r))))
        (map (entry ?t) (pinned s)) (map (entry s) (pinned s))"
      unfolding list.rel_map by (intro list.rel_refl_strong)
    moreover have "fits (map (entry s) (pinned s)) = Some True" using assms False by (simp add: nl_invx_def pins_wf_def)
    ultimately have "fits (map (entry ?t) (pinned s)) = Some True" using fits_mono by blast
    then show ?thesis using assms by (simp add: nl_invx_def pins_wf_def)
  qed (simp add: pins_wf_def)
  ultimately show ?thesis using assms by (simp add: nl_invx_def keys_wf_def ring_wf_def)
qed

lemma mark_removed_eq:
  "same_log (s\<lparr>entries := flag_removed (matches_uid s uid) (entries s)\<rparr>) (mark_removed env uid s)"
  unfolding mark_removed_def Let_def flag_removed_def
  by (auto intro: same_log_trans same_log_notify same_log_persist)

lemma mark_removed_inv: "nl_inv s \<Longrightarrow> nl_inv (mark_removed env uid s)"
  using flag_removed_inv [of s] nl_inv_same [OF mark_removed_eq] by simp

lemma session_reset_inv: 
  assumes "nl_inv s"
  shows "nl_inv (session_reset s)"
proof -
  let ?t = "s\<lparr>session := session s + 1\<rparr>"
  have b: "map_of (sessions s) l = Some (Some n) \<Longrightarrow> n \<le> session s" for l n
    using assms by (simp add: nl_invx_def sessions_wf_def)
  have "\<not> active ?t l q" for l q using b [of l "Suc (session s)"] by (auto simp: active_def live_key_def)
  then have "sessions_wf ?t" using b by (force simp: sessions_wf_def)
  moreover have "pins_wf ?t = pins_wf s" by (rule pins_wf_cong) (simp_all add: entry_def)
  ultimately have "nl_inv ?t" using assms by (simp add: nl_invx_def records_wf_def keys_wf_def ring_wf_def)
  then show ?thesis using nl_inv_same [OF same_log_notify] by (simp add: session_reset_def Let_def)
qed

lemma nl_inv_pin:
  assumes "nl_inv s" "k \<in> fst ` set (entries s)" "k \<notin> set (pinned s)" "pins_loaded s"
    "fits (map (entry s) (pinned s @ [k])) = Some True"
  shows "nl_inv (s\<lparr>pinned := pinned s @ [k]\<rparr>)"
proof -
  let ?t = "s\<lparr>pinned := pinned s @ [k]\<rparr>"
  have "sessions_wf ?t = sessions_wf s" by (simp add: sessions_wf_def active_def live_key_def)
  moreover have "entry ?t = entry s" by (simp add: entry_def [abs_def])
  ultimately show ?thesis using assms
    by (auto simp: nl_invx_def records_wf_def keys_wf_def ring_wf_def pins_wf_def)
qed

lemma drop_record_inv:
  assumes "nl_invx {k} s" "k \<notin> set (pinned s)" "k \<notin> set (ring s)"
  shows "nl_inv (nl_drop k s)"
proof -
  let ?t = "nl_drop k s"
  have m: "map_of (al_pop k m) \<subseteq>\<^sub>m map_of m" for m :: "(pystr \<times> 'v) list"
    by (simp add: map_le_def)
  have "records_wf ?t" using assms(1) records_wf_sub [of s ?t] m by (simp add: nl_drop_def nl_invx_def)
  moreover have "sessions_wf ?t" using assms(1) sessions_wf_sub [of s ?t] m by (simp add: nl_drop_def nl_invx_def)
  moreover have "keys_wf {} ?t" using assms by (auto simp: nl_invx_def keys_wf_def nl_drop_def distinct_al_pop)
  moreover have "ring_wf ?t" using assms(1) by (simp add: nl_invx_def ring_wf_def nl_drop_def)
  moreover have "pins_wf ?t"
    using assms(1) by (subst pins_wf_cong [of _ s]) (use assms(2) in \<open>auto simp: nl_invx_def entry_def nl_drop_def\<close>)
  ultimately show ?thesis by (simp add: nl_invx_def)
qed

lemma nl_inv_unpin:
  assumes "nl_inv s" "k \<in> set (pinned s)"
  shows "nl_invx (if k \<in> set (ring s) then {} else {k}) (s\<lparr>pinned := remove1 k (pinned s)\<rparr>)"
proof -
  let ?t = "s\<lparr>pinned := remove1 k (pinned s)\<rparr>"
  from split_list_first [OF assms(2)] obtain xs ys where p: "pinned s = xs @ k # ys" "k \<notin> set xs" by blast
  then have r: "remove1 k (pinned s) = xs @ ys" by (simp add: remove1_append)
  have "fits (map (entry s) (pinned s)) = Some True" "pins_loaded s" "distinct (pinned s)"
    using assms by (auto simp: nl_invx_def pins_wf_def)
  with p fits_drop_one [of "map (entry s) xs" "entry s k" "map (entry s) ys"]
  have "fits (map (entry s) (xs @ ys)) = Some True" "pins_loaded s" "distinct (xs @ ys)" by auto
  moreover have "entry ?t = entry s" by (simp add: entry_def [abs_def])
  ultimately have "pins_wf ?t" unfolding pins_wf_def r by simp
  moreover have "sessions_wf ?t = sessions_wf s" by (simp add: sessions_wf_def active_def live_key_def)
  moreover have "set (pinned s) = insert k (set (xs @ ys))" "k \<notin> set (xs @ ys)"
    using p \<open>distinct (pinned s)\<close> by auto
  ultimately show ?thesis using assms(1) r by (auto simp: nl_invx_def records_wf_def keys_wf_def ring_wf_def)
qed

lemma save_pins_cases:
  assumes "save_pins env pins k pin s = (t, r)"
  obtains (failed) e where "t = s" "r = Inl (Pin_store e)"
    | (saved) u where "nl_save env (s\<lparr>pinned := pins\<rparr>) = Inr u"
        "t = nl_notify (if \<not> pin \<and> k \<notin> set (ring u) then nl_drop k u else u)" "r = Inr pin"
  using assms by (auto simp: save_pins_def Let_def split: sum.splits)

lemma save_pin_inv:
  assumes "nl_inv s" "k \<in> fst ` set (entries s)" "k \<notin> set (pinned s)" "pins_loaded s"
    "fits (map (entry s) (pinned s @ [k])) = Some True" "save_pins env (pinned s @ [k]) k True s = (t, r)"
  shows "nl_inv t"
  using assms(6)
proof (cases rule: save_pins_cases)
  case (saved u)
  from nl_inv_pin [OF assms(1-5)] have "nl_inv u" using nl_inv_same [OF nl_save_same [OF saved(1)]] by simp
  then show ?thesis using saved(2) nl_inv_same [OF same_log_notify] by simp
qed (use assms(1) in simp)

lemma save_unpin_inv:
  assumes "nl_inv s" "k \<in> set (pinned s)" "save_pins env (remove1 k (pinned s)) k False s = (t, r)"
  shows "nl_inv t"
  using assms(3)
proof (cases rule: save_pins_cases)
  case (saved u)
  note same = nl_save_same [OF saved(1)]
  have u: "nl_invx (if k \<in> set (ring s) then {} else {k}) u"
    using nl_inv_unpin [OF assms(1,2)] nl_inv_same [OF same] by simp
  have "ring u = ring s" "pinned u = remove1 k (pinned s)" "k \<notin> set (remove1 k (pinned s))"
    using same_log_fields [OF same] assms(1) by (auto simp: nl_invx_def pins_wf_def)
  then have "nl_inv (if \<not> False \<and> k \<notin> set (ring u) then nl_drop k u else u)"
    using u drop_record_inv [of k u] by (auto split: if_splits)
  then show ?thesis using saved(2) nl_inv_same [OF same_log_notify] by simp
qed (use assms(1) in simp)

lemma change_pin_inv:
  assumes "nl_inv s" "change_pin env k pin s = (t, r)"
  shows "nl_inv t"
proof -
  consider "t = s"
    | "k \<in> fst ` set (entries s)" "k \<notin> set (pinned s)" "pins_loaded s"
      "fits (map (entry s) (pinned s @ [k])) = Some True" "save_pins env (pinned s @ [k]) k True s = (t, r)"
    | "k \<in> set (pinned s)" "save_pins env (remove1 k (pinned s)) k False s = (t, r)"
    using assms(2) by (auto simp: change_pin_def split: if_splits option.splits bool.splits)
  then show ?thesis using assms(1) save_pin_inv save_unpin_inv by cases blast+
qed

lemma set_pinned_inv:
  assumes "nl_inv s" "set_pinned env k pin s = Some (t, r)"
  shows "nl_inv t"
proof -
  obtain u e where u: "nl_load_pins env s = Some (u, e)"
    using assms(2) by (auto simp: set_pinned_def split: option.splits)
  have inv: "nl_inv u" using nl_load_pins_inv [OF assms(1) u] by simp
  have "same_log u (u\<lparr>pins_load_failed := True\<rparr>)" by (simp add: same_log_def)
  then have inv': "nl_inv (u\<lparr>pins_load_failed := True\<rparr>)" using nl_inv_same inv by blast
  have "t = u \<or> change_pin env k pin u = (t, r) \<or> change_pin env k pin (u\<lparr>pins_load_failed := True\<rparr>) = (t, r)"
    using assms(2) u by (auto simp: set_pinned_def split: option.splits pin_error.splits)
  then show ?thesis using inv inv' change_pin_inv by blast
qed

lemma drop_unlisted_inv:
  assumes "nl_invx (set ks - set (ring s)) s" "pinned s = []" "distinct ks"
  shows "nl_inv (drop_unlisted ks s) \<and> ring (drop_unlisted ks s) = ring s"
  using assms
proof (induction ks arbitrary: s)
  case (Cons k ks)
  show ?case
  proof (cases "k \<in> set (ring s)")
    case True
    then have "set (k # ks) - set (ring s) = set ks - set (ring s)" by auto
    then show ?thesis using Cons True by simp
  next
    case False
    have m: "map_of (al_pop k m) \<subseteq>\<^sub>m map_of m" for m :: "(pystr \<times> 'v) list" by (simp add: map_le_def)
    let ?t = "nl_drop k s"
    have "records_wf ?t" using Cons.prems(1) records_wf_sub [of s ?t] m by (simp add: nl_drop_def nl_invx_def)
    moreover have "sessions_wf ?t" using Cons.prems(1) sessions_wf_sub [of s ?t] m by (simp add: nl_drop_def nl_invx_def)
    moreover have "keys_wf (set ks - set (ring s)) ?t" using Cons.prems False
      by (auto simp: nl_invx_def keys_wf_def nl_drop_def distinct_al_pop)
    moreover have "ring_wf ?t" "pins_wf ?t" "pinned ?t = []" "ring ?t = ring s"
      using Cons.prems(1,2) by (simp_all add: nl_invx_def ring_wf_def pins_wf_def nl_drop_def)
    ultimately show ?thesis using Cons.IH [of ?t] Cons.prems(3) False by (simp add: nl_invx_def)
  qed
qed simp

lemma store_clear_same: "store_clear env s = Inr t \<Longrightarrow> same_log s t"
  by (auto simp: store_clear_def same_log_def split: if_splits sum.splits)

lemma drop_unlisted_pinned: "(drop_unlisted ks s)\<lparr>pinned := ps\<rparr> = drop_unlisted ks (s\<lparr>pinned := ps\<rparr>)"
proof (induction ks arbitrary: s)
  case (Cons k ks)
  have "nl_drop k (s\<lparr>pinned := ps\<rparr>) = (nl_drop k s)\<lparr>pinned := ps\<rparr>" by (cases s) (simp add: nl_drop_def)
  then show ?case using Cons by simp
qed simp

lemma forget_pins_inv:
  assumes "nl_inv s" "forget_pins env s = Inr t"
  shows "nl_inv t"
proof -
  obtain u where u: "store_clear env s = Inr u"
      "t = (if pinned u \<noteq> [] then nl_notify ((drop_unlisted (pinned u) u)\<lparr>pinned := [], pins_dirty := False\<rparr>)
            else (drop_unlisted (pinned u) u)\<lparr>pinned := [], pins_dirty := False\<rparr>)"
    using assms(2) by (auto simp: forget_pins_def Let_def split: sum.splits)
  have inv: "nl_inv u" using assms(1) nl_inv_same [OF store_clear_same [OF u(1)]] by simp
  let ?v = "u\<lparr>pinned := []\<rparr>"
  have "sessions_wf ?v = sessions_wf u" by (simp add: sessions_wf_def active_def live_key_def)
  then have "nl_invx (set (pinned u) - set (ring u)) ?v"
    using inv by (auto simp: nl_invx_def records_wf_def keys_wf_def ring_wf_def pins_wf_def)
  then have "nl_inv (drop_unlisted (pinned u) ?v)"
    using drop_unlisted_inv [of "pinned u" ?v] inv by (simp add: nl_invx_def pins_wf_def)
  then have "nl_inv ((drop_unlisted (pinned u) u)\<lparr>pinned := []\<rparr>)" by (simp add: drop_unlisted_pinned)
  moreover have same: "same_log ((drop_unlisted (pinned u) u)\<lparr>pinned := []\<rparr>) t"
  proof -
    let ?w = "drop_unlisted (pinned u) u"
    have "same_log (?w\<lparr>pinned := []\<rparr>) (?w\<lparr>pinned := [], pins_dirty := False\<rparr>)" by (simp add: same_log_def)
    then show ?thesis unfolding u(2) using same_log_trans [OF _ same_log_notify]
      by (simp add: same_log_def [of "u\<lparr>pinned := []\<rparr>"])
  qed
  ultimately show ?thesis using nl_inv_same [OF same] by simp
qed

lemma nl_clear_inv:
  assumes "nl_inv s" "nl_clear env s = Inr t"
  shows "nl_inv t"
proof -
  obtain u where u: "store_clear env s = Inr u"
      "same_log (u\<lparr>entries := [], sessions := [], ring := [], pinned := [], pins_dirty := False\<rparr>) t"
    using assms(2) by (auto simp: nl_clear_def Let_def split: sum.splits if_splits)
  have "1 \<le> capacity u" using same_log_fields [OF store_clear_same [OF u(1)]] assms(1) by (simp add: nl_invx_def ring_wf_def)
  then have "nl_inv (u\<lparr>entries := [], sessions := [], ring := [], pinned := [], pins_dirty := False\<rparr>)"
    by (simp add: nl_invx_def nl_parts)
  then show ?thesis using nl_inv_same [OF u(2)] by simp
qed

lemma storage_changed_inv: "nl_inv s \<Longrightarrow> storage_changed env s = Some t \<Longrightarrow> nl_inv t"
  using ensure_pins_loaded_inv nl_inv_same [OF same_log_notify] nl_inv_same [OF same_log_persist]
  by (fastforce simp: storage_changed_def)

lemma nl_snapshot_inv: "nl_inv s \<Longrightarrow> nl_snapshot env n s = Some (t, l) \<Longrightarrow> nl_inv t"
  using ensure_pins_loaded_inv nl_inv_same [OF same_log_persist]
  by (fastforce simp: nl_snapshot_def Let_def)

lemma nl_inv_init: "nl_inv (NotificationLog_init c n st l i ds d)"
  by (simp add: NotificationLog_init_def nl_invx_def nl_parts)

section \<open>Detached records\<close>

abbreviation nl_keys :: "nlog \<Rightarrow> pystr set" where
  "nl_keys s \<equiv> fst ` set (entries s)"

text \<open>A record of an ended session, or one loaded from disk, stays detached and, once the pins are
  loaded, unchanged for as long as it is kept.\<close>

definition frozen :: "nlog \<Rightarrow> nlog \<Rightarrow> bool" where
  "frozen s t \<longleftrightarrow> (\<forall>k \<in> nl_keys s \<inter> nl_keys t. \<not> live_key s k \<longrightarrow>
     \<not> live_key t k \<and> (pins_loaded s \<longrightarrow> map_of (entries t) k = map_of (entries s) k))"

definition loads :: "nlog \<Rightarrow> nlog \<Rightarrow> bool" where
  "loads s t \<longleftrightarrow> nl_keys s \<subseteq> nl_keys t \<and> (\<forall>k \<in> nl_keys s. live_key t k \<longrightarrow> live_key s k) \<and>
     (pins_loaded s \<longrightarrow> same_log s t)"

lemma frozenD:
  "frozen s t \<Longrightarrow> k \<in> nl_keys s \<Longrightarrow> k \<in> nl_keys t \<Longrightarrow> \<not> live_key s k \<Longrightarrow>
     \<not> live_key t k \<and> (pins_loaded s \<longrightarrow> map_of (entries t) k = map_of (entries s) k)"
  unfolding frozen_def by blast

lemma frozen_loads:
  assumes "loads s u" "frozen u t"
  shows "frozen s t"
  unfolding frozen_def
proof (intro ballI impI)
  fix k assume k: "k \<in> nl_keys s \<inter> nl_keys t" "\<not> live_key s k"
  then have "k \<in> nl_keys u" "\<not> live_key u k" using assms(1) unfolding loads_def by blast+
  from frozenD [OF assms(2) this(1) _ this(2)] k(1)
  have t: "\<not> live_key t k" "pins_loaded u \<Longrightarrow> map_of (entries t) k = map_of (entries u) k" by auto
  have "same_log s u" if "pins_loaded s" using assms(1) that by (simp add: loads_def)
  then show "\<not> live_key t k \<and> (pins_loaded s \<longrightarrow> map_of (entries t) k = map_of (entries s) k)"
    using t by (auto dest!: same_log_fields)
qed

lemma loads_same: "same_log s t \<Longrightarrow> loads s t"
  by (simp add: loads_def same_log_def live_key_def)

lemma frozen_same: "same_log s t \<Longrightarrow> frozen s t"
  by (simp add: frozen_def same_log_def live_key_def)

lemma frozen_same_after: "frozen s t \<Longrightarrow> same_log t u \<Longrightarrow> frozen s u"
  by (simp add: frozen_def same_log_def live_key_def)

definition shrinks :: "nlog \<Rightarrow> nlog \<Rightarrow> bool" where
  "shrinks s t \<longleftrightarrow> map_of (entries t) \<subseteq>\<^sub>m map_of (entries s) \<and> map_of (sessions t) \<subseteq>\<^sub>m map_of (sessions s) \<and>
     session t = session s"

lemma shrinks_refl [simp]: "entries t = entries s \<Longrightarrow> sessions t = sessions s \<Longrightarrow> session t = session s \<Longrightarrow> shrinks s t"
  by (simp add: shrinks_def)

lemma shrinks_trans: "shrinks s t \<Longrightarrow> shrinks t u \<Longrightarrow> shrinks s u"
  unfolding shrinks_def by (auto intro: map_le_trans)

lemma shrinks_drop: "shrinks s (nl_drop k s)"
  by (simp add: shrinks_def nl_drop_def map_le_def)

lemma shrinks_live: "shrinks s t \<Longrightarrow> live_key t k \<Longrightarrow> live_key s k"
  unfolding shrinks_def live_key_def by (auto dest: map_le_Some)

lemma shrinks_entry: 
  assumes "shrinks s t" "k \<in> nl_keys t"
  shows "map_of (entries t) k = map_of (entries s) k"
proof -
  obtain r where "map_of (entries t) k = Some r" using map_of_key [OF assms(2)] by blast
  moreover from this have "map_of (entries s) k = Some r"
    using assms(1) map_le_Some unfolding shrinks_def by fast
  ultimately show ?thesis by simp
qed

lemma frozen_shrinks: "shrinks s t \<Longrightarrow> frozen s t"
  unfolding frozen_def by (auto dest: shrinks_live simp: shrinks_entry)

lemma shrinks_evict: "shrinks s (evict n s)"
proof (induction n s rule: evict.induct)
  case (2 n s)
  show ?case
  proof (cases "ring s")
    case (Cons k ks)
    let ?u = "if k \<in> set (pinned s) then s\<lparr>ring := ks\<rparr> else nl_drop k (s\<lparr>ring := ks\<rparr>)"
    have "shrinks s ?u" using shrinks_drop [of "s\<lparr>ring := ks\<rparr>" k] by (auto intro: shrinks_trans [of _ "s\<lparr>ring := ks\<rparr>"])
    then show ?thesis using 2 [OF Cons refl] Cons by (auto simp: Let_def intro: shrinks_trans)
  qed simp
qed simp

lemma shrinks_drop_unlisted: "shrinks s (drop_unlisted ks s)"
  by (induction ks arbitrary: s) (auto intro: shrinks_trans [OF shrinks_drop])

lemma shrinks_same: "same_log s t \<Longrightarrow> shrinks s t"
  by (simp add: same_log_def)

lemma frozen_put:
  assumes "live_key s k \<or> k \<notin> nl_keys s" "shrinks (put k r v s) t"
  shows "frozen s t"
  unfolding frozen_def
proof (intro ballI impI)
  fix l assume l: "l \<in> nl_keys s \<inter> nl_keys t" "\<not> live_key s l"
  then have lk: "l \<noteq> k" using assms(1) by auto
  have "\<not> live_key t l" using shrinks_live [OF assms(2), of l] l(2) lk by (auto simp: put_def live_key_def)
  moreover have "map_of (entries t) l = map_of (entries s) l"
    using shrinks_entry [OF assms(2), of l] l(1) lk by (simp add: put_def)
  ultimately show "\<not> live_key t l \<and> (pins_loaded s \<longrightarrow> map_of (entries t) l = map_of (entries s) l)" by simp
qed

lemma shrinks_store_record:
  "shrinks (put k (event_record s ev k) (Some (session s)) s) (store_record env k ev s)"
proof -
  let ?p = "put k (event_record s ev k) (Some (session s)) s"
  let ?e = "evict (Suc (length (ring ?p)) - capacity ?p) ?p"
  have "shrinks ?p (ring_append k ?p)"
    using shrinks_trans [OF shrinks_evict [of ?p] shrinks_refl [of "?e\<lparr>ring := ring ?e @ [k]\<rparr>" ?e]]
    by (simp add: ring_append_def Let_def)
  moreover have "same_log (ring_append k ?p) (store_record env k ev s)"
    unfolding store_record_def Let_def put_def
    by (auto intro: same_log_trans same_log_persist same_log_notify)
  ultimately show ?thesis using shrinks_trans shrinks_same by blast
qed

lemma rekey_live:
  assumes "rekey k avoid s = Some t"
  shows "nl_keys s \<subseteq> insert k (nl_keys t) \<and> (\<forall>l \<in> nl_keys s. l \<noteq> k \<and> live_key t l \<longrightarrow> live_key s l) \<and> session t = session s"
proof -
  from rekey_renamed [OF assms] obtain f u where
    f: "fresh_key s avoid f" "same_log s u" "t = renamed k f u" by blast
  have "f \<notin> nl_keys s" using f(1) by (simp add: fresh_key_def)
  then show ?thesis using same_log_fields [OF f(2)] by (auto simp: f(3) renamed_def live_key_def)
qed

lemma add_stored_grows:
  "add_stored ks rs s = Some t \<Longrightarrow>
     nl_keys s \<subseteq> nl_keys t \<and> (\<forall>k \<in> nl_keys s. live_key t k \<longrightarrow> live_key s k) \<and> session t = session s"
proof (induction rs arbitrary: s)
  case (Cons r rs)
  let ?k = "nr_key r"
  obtain u where u: "(if ?k \<in> nl_keys s then rekey ?k ks s else Some s) = Some u"
      "add_stored ks rs (put ?k r None u) = Some t"
    using Cons.prems by (auto simp: put_def split: option.splits)
  have a: "nl_keys s \<subseteq> insert ?k (nl_keys u) \<and> (\<forall>l \<in> nl_keys s. l \<noteq> ?k \<and> live_key u l \<longrightarrow> live_key s l) \<and> session u = session s"
    using u(1) rekey_live [of ?k ks s u] by (auto split: if_splits)
  have p: "nl_keys (put ?k r None u) = insert ?k (nl_keys u)" "live_key (put ?k r None u) l \<longleftrightarrow> l \<noteq> ?k \<and> live_key u l" for l
    by (auto simp: put_def live_key_def)
  note IH = Cons.IH [OF u(2), unfolded p put_frame]
  have "live_key s l" if "l \<in> nl_keys s" "live_key t l" for l
  proof -
    have "l \<in> insert ?k (nl_keys u)" using that(1) a by (simp add: subset_iff)
    from bspec [OF IH [THEN conjunct2, THEN conjunct1] this] that(2) have "l \<noteq> ?k \<and> live_key u l" by simp
    then show ?thesis using bspec [OF a [THEN conjunct2, THEN conjunct1] that(1)] by simp
  qed
  moreover have "nl_keys s \<subseteq> nl_keys t" using IH a by (meson subset_trans)
  ultimately show ?case using IH a by simp
qed simp

lemma nl_load_pins_loads:
  assumes "nl_load_pins env s = Some (t, e)"
  shows "loads s t"
proof (cases "same_log s t")
  case True
  then show ?thesis by (rule loads_same)
next
  case False
  from nl_load_pins_new [OF assms this] obtain stored rewrite u where ld: "\<not> pins_loaded s"
      "store_load (show_content s) MAX_FIELD_CHARS env (disk s) = Inr (stored, rewrite)"
      "add_stored (set (map nr_key stored)) stored (s\<lparr>pins_loaded := True, pins_load_failed := False\<rparr>) = Some u"
    and same: "same_log (u\<lparr>pinned := map nr_key stored @ filter (\<lambda>k. k \<notin> set (map nr_key stored)) (pinned u)\<rparr>) t" .
  from same_log_fields [OF same] have "entries t = entries u" "live_key t = live_key u"
    by (auto simp: live_key_def)
  then show ?thesis using add_stored_grows [OF ld(3)] ld(1) by (simp add: loads_def live_key_def)
qed

lemma ensure_pins_loaded_loads:
  assumes "ensure_pins_loaded env s = Some t"
  shows "loads s t"
proof -
  from assms obtain u e where u: "nl_load_pins env s = Some (u, e)" "t = u \<or> t = u\<lparr>pins_load_failed := True\<rparr>"
    by (auto simp: ensure_pins_loaded_def split: option.splits)
  then have "same_log u t" by (auto simp: same_log_def)
  then show ?thesis using nl_load_pins_loads [OF u(1)]
    by (simp add: loads_def same_log_def live_key_def)
qed

lemma store_new_frozen:
  assumes "store_new env ev s = Some t"
  shows "frozen s t"
proof -
  from assms obtain k u where u: "unique_key {} s = Some (k, u)" "t = store_record env k ev u"
    by (auto simp: store_new_def split: option.splits)
  from unique_key_Some [OF u(1)] have k: "fresh_key s {} k" "same_log s u" by auto
  then have "k \<notin> nl_keys u" by (simp add: fresh_key_def same_log_def)
  then have "frozen u t" unfolding u(2) by (intro frozen_put [OF _ shrinks_store_record]) simp
  then show ?thesis using frozen_loads [OF loads_same [OF k(2)]] by blast
qed

lemma handle_ancs_frozen:
  assumes "nl_inv s" "handle_ancs env ev s = Some (t, e)"
  shows "frozen s t"
proof (cases "ev_app_id ev = [] \<or> ev_app_id ev = MESSAGES_APP_ID")
  case True
  then show ?thesis using assms by (simp add: handle_ancs_def frozen_same)
next
  case False
  then obtain u where u: "ensure_pins_loaded env s = Some u" using assms(2)
    by (auto simp: handle_ancs_def split: option.splits)
  have kw: "keys_wf {} u" using ensure_pins_loaded_inv [OF assms(1) u] by (simp add: nl_invx_def)
  have "frozen u t"
  proof (cases "live_match u (event_record u ev [])")
    case None
    then have "store_new env ev u = Some t" using assms(2) u False by (auto simp: handle_ancs_def)
    then show ?thesis by (rule store_new_frozen)
  next
    case (Some k)
    let ?d = "u\<lparr>sessions := al_set k None (sessions u)\<rparr>"
    have live: "live_key u k" using live_match_active [OF kw Some] by (auto simp: active_def)
    have d: "frozen u ?d \<and> nl_keys ?d = nl_keys u" by (auto simp: frozen_def live_key_def)
    have "loads u ?d" if "\<not> pins_loaded u" using that by (auto simp: loads_def live_key_def)
    have "t = u \<or> t = store_record env k ev (ring_remove k u) \<or> store_new env ev ?d = Some t"
      using assms(2) u False Some by (auto simp: handle_ancs_def split: option.splits if_splits bool.splits)
    then show ?thesis
    proof (elim disjE)
      assume "t = store_record env k ev (ring_remove k u)"
      then have "frozen (ring_remove k u) t"
        using live by (simp add: frozen_put [OF _ shrinks_store_record] ring_remove_def live_key_def)
      then show ?thesis by (simp add: frozen_def ring_remove_def live_key_def)
    next
      assume "store_new env ev ?d = Some t"
      then have "frozen ?d t" by (rule store_new_frozen)
      then show ?thesis by (auto simp: frozen_def live_key_def)
    qed (simp add: frozen_same)
  qed
  then show ?thesis by (rule frozen_loads [OF ensure_pins_loaded_loads [OF u]])
qed

lemma mark_removed_frozen: "frozen s (mark_removed env uid s)"
proof -
  let ?u = "s\<lparr>entries := flag_removed (matches_uid s uid) (entries s)\<rparr>"
  have "frozen s ?u"
    by (auto simp: frozen_def live_key_def map_of_flag matches_uid_def option.map_ident split: option.splits)
  then show ?thesis using mark_removed_eq by (rule frozen_same_after)
qed

lemma session_reset_frozen:
  assumes "nl_inv s"
  shows "frozen s (session_reset s)"
proof -
  let ?t = "s\<lparr>session := session s + 1\<rparr>"
  have "sessions_wf s" using assms by (simp add: nl_invx_def)
  then have "frozen s ?t" by (auto simp: frozen_def live_key_def dest: sessions_wf_bound)
  moreover have "same_log ?t (session_reset s)" by (simp add: session_reset_def Let_def)
  ultimately show ?thesis by (rule frozen_same_after)
qed

lemma save_pins_shrinks:
  assumes "save_pins env pins k pin s = (t, r)"
  shows "shrinks s t"
  using assms
proof (cases rule: save_pins_cases)
  case (saved u)
  have "shrinks s u" using shrinks_same [OF nl_save_same [OF saved(1)]] by (simp add: shrinks_def)
  then have "shrinks s (if \<not> pin \<and> k \<notin> set (ring u) then nl_drop k u else u)"
    using shrinks_drop by (auto intro: shrinks_trans)
  then show ?thesis unfolding saved(2) by (rule shrinks_trans [OF _ shrinks_same [OF same_log_notify]])
qed simp

lemma change_pin_shrinks: "change_pin env k pin s = (t, r) \<Longrightarrow> shrinks s t"
  by (auto simp: change_pin_def split: if_splits option.splits bool.splits dest: save_pins_shrinks)

lemma set_pinned_frozen:
  assumes "set_pinned env k pin s = Some (t, r)"
  shows "frozen s t"
proof -
  obtain u e where u: "nl_load_pins env s = Some (u, e)"
    using assms by (auto simp: set_pinned_def split: option.splits)
  have "shrinks u t"
    using assms u change_pin_shrinks [of env k pin u t r] change_pin_shrinks [of env k pin "u\<lparr>pins_load_failed := True\<rparr>" t r]
    by (auto simp: set_pinned_def shrinks_def split: option.splits pin_error.splits)
  then show ?thesis by (intro frozen_loads [OF nl_load_pins_loads [OF u]] frozen_shrinks)
qed

lemma forget_pins_shrinks:
  assumes "forget_pins env s = Inr t"
  shows "shrinks s t"
proof -
  obtain u where u: "store_clear env s = Inr u"
      "same_log ((drop_unlisted (pinned u) u)\<lparr>pinned := [], pins_dirty := False\<rparr>) t"
    using assms by (auto simp: forget_pins_def Let_def split: sum.splits if_splits)
  have "shrinks u ((drop_unlisted (pinned u) u)\<lparr>pinned := [], pins_dirty := False\<rparr>)"
    by (rule shrinks_trans [OF shrinks_drop_unlisted [of u "pinned u"]]) simp
  then show ?thesis
    using shrinks_trans [OF shrinks_same [OF store_clear_same [OF u(1)]]] shrinks_trans [OF _ shrinks_same [OF u(2)]] by blast
qed

lemma nl_clear_frozen: "nl_clear env s = Inr t \<Longrightarrow> frozen s t"
  by (auto simp: nl_clear_def Let_def frozen_def nl_notify_def split: sum.splits if_splits)

lemma storage_changed_frozen:
  assumes "storage_changed env s = Some t"
  shows "frozen s t"
proof -
  obtain u where u: "ensure_pins_loaded env s = Some u" "t = nl_notify (if pins_dirty u then persist env u else u)"
    using assms by (auto simp: storage_changed_def)
  have "same_log u t" unfolding u(2) by (auto intro: same_log_trans same_log_notify same_log_persist)
  then show ?thesis using frozen_loads [OF ensure_pins_loaded_loads [OF u(1)]] frozen_same by blast
qed

lemma nl_snapshot_frozen:
  assumes "nl_snapshot env n s = Some (t, l)"
  shows "frozen s t"
proof -
  obtain u where u: "ensure_pins_loaded env s = Some u" "t = (if pins_dirty u then persist env u else u)"
    using assms by (auto simp: nl_snapshot_def Let_def)
  have "same_log u t" unfolding u(2) by simp
  then show ?thesis using frozen_loads [OF ensure_pins_loaded_loads [OF u(1)]] frozen_same by blast
qed

section \<open>Runs of the log\<close>

inductive nl_step :: "nlog \<Rightarrow> nlog \<Rightarrow> bool" where
  handle: "event_ok ev \<Longrightarrow> handle_ancs env ev s = Some (t, e) \<Longrightarrow> nl_step s t"
| removed: "nl_step s (mark_removed env uid s)"
| reset: "nl_step s (session_reset s)"
| pin: "set_pinned env k b s = Some (t, r) \<Longrightarrow> nl_step s t"
| forget: "forget_pins env s = Inr t \<Longrightarrow> nl_step s t"
| clear: "nl_clear env s = Inr t \<Longrightarrow> nl_step s t"
| storage: "storage_changed env s = Some t \<Longrightarrow> nl_step s t"
| list: "nl_snapshot env n s = Some (t, l) \<Longrightarrow> nl_step s t"
| fire: "emit_pending s \<Longrightarrow> nl_step s (nl_fire s)"
| listen: "nl_step s (set_listener s)"

inductive_cases nl_stepE: "nl_step s t"

definition nl_start :: "nlog \<Rightarrow> bool" where
  "nl_start s \<longleftrightarrow> (\<exists>c n st l i ds d. s = NotificationLog_init c n st l i ds d)"

lemma same_log_listener [simp]: "same_log s (set_listener s)"
  by (simp add: set_listener_def same_log_def)

lemma nl_inv_step: "nl_inv s \<Longrightarrow> nl_step s t \<Longrightarrow> nl_inv t"
  by (erule nl_stepE)
    (auto intro: handle_ancs_inv mark_removed_inv session_reset_inv set_pinned_inv forget_pins_inv nl_clear_inv
      storage_changed_inv nl_snapshot_inv simp: nl_inv_same [OF same_log_fire] nl_inv_same [OF same_log_listener])

lemma nl_step_frozen: "nl_inv s \<Longrightarrow> nl_step s t \<Longrightarrow> frozen s t"
  by (erule nl_stepE)
    (auto intro: handle_ancs_frozen mark_removed_frozen session_reset_frozen set_pinned_frozen
      frozen_shrinks [OF forget_pins_shrinks] nl_clear_frozen storage_changed_frozen nl_snapshot_frozen
      frozen_same [OF same_log_fire] frozen_same [OF same_log_listener])

interpretation notification_log: invariant_system nl_start nl_step nl_inv
  by unfold_locales (auto simp: nl_start_def nl_inv_init nl_inv_step)

lemma listing_shape:
  assumes "nl_inv s"
  shows "distinct (listing s) \<and> set (listing s) = nl_keys s"
  using assms by (auto simp: listing_def nl_invx_def keys_wf_def ring_wf_def pins_wf_def)

text \<open>
  C24: Whatever the phone, the clients and the storage do, the ring never exceeds its capacity, at most
  twenty records are pinned and together they fit the storage cap, the list shown to clients names every
  kept record exactly once (pinned ones first), every kept record is well-formed under its own key, and
  no title or body is kept unless content is shown.
\<close>

theorem notification_log_bounded:
  assumes "reachable nl_start nl_step s"
  shows "length (ring s) \<le> capacity s \<and> length (pinned s) \<le> MAX_PINNED_NOTIFICATIONS \<and>
    (pinned s = [] \<or> fits (map (entry s) (pinned s)) = Some True) \<and>
    distinct (listing s) \<and> set (listing s) = nl_keys s \<and>
    (\<forall>k \<in> nl_keys s. nr_key (entry s k) = k \<and> nrec_wf (show_content s) MAX_FIELD_CHARS (entry s k))"
proof -
  note inv = notification_log.reachable_inv [OF assms]
  have fits: "pinned s = [] \<or> fits (map (entry s) (pinned s)) = Some True"
    using inv by (auto simp: nl_invx_def pins_wf_def)
  then have "length (pinned s) \<le> MAX_PINNED_NOTIFICATIONS" using fits_length [of "map (entry s) (pinned s)"] by auto
  moreover have "nr_key (entry s k) = k \<and> nrec_wf (show_content s) MAX_FIELD_CHARS (entry s k)" if "k \<in> nl_keys s" for k
    using inv map_of_key [OF that] by (auto simp: nl_invx_def records_wf_def entry_def)
  ultimately show ?thesis using fits listing_shape [OF inv] inv by (auto simp: nl_invx_def ring_wf_def)
qed

text \<open>
  C25: ANCS reuses notification ids across sessions, so a record is tied to the session that reported it.
  Ending a session detaches every record. A detached record stays detached and is never offered for
  actions again whatever happens next and, once the saved pins were loaded, it is never changed: no
  update, removal or pin of another notification with the same id touches it.
\<close>

theorem detached_records_final:
  assumes "reachable nl_start nl_step s"
  shows "(\<forall>k. \<not> live_key (session_reset s) k) \<and>
    (\<forall>t k. nl_step s t \<and> k \<in> nl_keys s \<inter> nl_keys t \<and> \<not> live_key s k \<longrightarrow>
       \<not> live_key t k \<and> \<not> pr_actionable (public t k) \<and> (pins_loaded s \<longrightarrow> entry t k = entry s k))"
proof -
  note inv = notification_log.reachable_inv [OF assms]
  have "\<not> live_key (session_reset s) k" for k
    using inv by (auto simp: session_reset_def Let_def live_key_def nl_notify_def nl_invx_def dest: sessions_wf_bound)
  moreover have "\<not> live_key t k \<and> \<not> pr_actionable (public t k) \<and> (pins_loaded s \<longrightarrow> entry t k = entry s k)"
    if "nl_step s t" "k \<in> nl_keys s \<inter> nl_keys t" "\<not> live_key s k" for t k
    using frozenD [OF nl_step_frozen [OF inv that(1)], of k] that(2,3) by (simp add: public_def entry_def)
  ultimately show ?thesis by blast
qed

section \<open>Pins survive a restart\<close>

lemma add_stored_fresh:
  assumes "distinct (map nr_key rs)" "set (map nr_key rs) \<inter> nl_keys s = {}"
  shows "\<exists>t. add_stored ks rs s = Some t"
  using assms by (induction rs arbitrary: s) auto

definition good_env :: "store_env \<Rightarrow> bool" where
  "good_env env \<longleftrightarrow> \<not> memory_only env \<and> can_read env \<and> \<not> settings_unreadable env \<and> \<not> decrypt_fails env"

lemma reload_saved:
  assumes "list_all (nrec_wf c MAX_FIELD_CHARS) rs" "distinct (map nr_key rs)" "rs = [] \<or> fits rs = Some True"
    "d = (if rs = [] then None else Some (JList (map item_of rs)))" "good_env env"
  shows "\<exists>u. ensure_pins_loaded env (NotificationLog_init c n True l i ds d) = Some u \<and> pinned u = map nr_key rs \<and>
    (\<forall>r \<in> set rs. entry u (nr_key r) = r \<and> \<not> live_key u (nr_key r)) \<and> nl_keys u = set (map nr_key rs)"
proof -
  let ?s = "NotificationLog_init c n True l i ds d"
  let ?p = "?s\<lparr>pins_loaded := True, pins_load_failed := False\<rparr>"
  have ld: "store_load (show_content ?s) MAX_FIELD_CHARS env (disk ?s) = Inr (rs, False)"
    using assms load_pins_saved [of c MAX_FIELD_CHARS rs]
    by (auto simp: NotificationLog_init_def store_load_def store_readable_def pref_load_def good_env_def load_pins_def)
  obtain u where u: "add_stored (set (map nr_key rs)) rs ?p = Some u"
    using add_stored_fresh [OF assms(2), of ?p] by (auto simp: NotificationLog_init_def)
  have "nl_inv ?p" by (simp add: NotificationLog_init_def nl_invx_def nl_parts)
  from add_stored_inv [OF this _ assms(2) _ _ u] assms(1)
  have inv: "nl_invx (set (map nr_key rs)) u" "pinned u = []" "\<forall>r \<in> set rs. map_of (entries u) (nr_key r) = Some r"
    by (simp_all add: NotificationLog_init_def)
  let ?u = "u\<lparr>pinned := map nr_key rs\<rparr>"
  have "ensure_pins_loaded env ?s = Some (if rs \<noteq> [] then nl_notify ?u else ?u)"
    using ld u inv(2) assms(5)
    by (simp add: ensure_pins_loaded_def nl_load_pins_def NotificationLog_init_def store_readable_def good_env_def)
  moreover have "same_log ?u (if rs \<noteq> [] then nl_notify ?u else ?u)" by simp
  ultimately obtain v where v: "ensure_pins_loaded env ?s = Some v" "same_log ?u v" by blast
  note f = same_log_fields [OF v(2)]
  have sess: "ring u = [] \<and> (\<forall>k \<in> nl_keys u. map_of (sessions u) k = Some None)"
  proof -
    have "ring t = ring s \<and> (\<forall>k \<in> nl_keys t. map_of (sessions t) k = Some None)"
      if "add_stored ks qs s = Some t" "distinct (map nr_key qs)" "set (map nr_key qs) \<inter> nl_keys s = {}"
        "\<forall>k \<in> nl_keys s. map_of (sessions s) k = Some None" for ks qs s t
      using that
    proof (induction qs arbitrary: s)
      case (Cons q qs)
      have "add_stored ks qs (put (nr_key q) q None s) = Some t" using Cons.prems by (simp add: put_def)
      from Cons.IH [OF this] Cons.prems(2-4) show ?case by (auto simp: put_def)
    qed simp
    from this [OF u assms(2)] show ?thesis by (simp add: NotificationLog_init_def)
  qed
  have "nl_keys u = set (map nr_key rs)" using inv(1,2) sess by (auto simp: nl_invx_def keys_wf_def)
  with v f inv(3) sess show ?thesis by (intro exI [of _ v]) (auto simp: entry_def live_key_def)
qed

lemma save_pins_disk:
  assumes "nl_save env s = Inr t" "has_store s" "\<not> memory_only env"
  shows "disk t = (if map (entry s) (pinned s) = [] then None else Some (JList (map item_of (map (entry s) (pinned s)))))"
  using assms by (auto simp: nl_save_def store_save_def pref_clear_def pref_write_def item_of_def split: if_splits sum.splits)

lemma changed_pin_saved:
  assumes "nl_inv s" "change_pin env k pin s = (t, Inr b)" "(k \<in> set (pinned s)) \<noteq> pin" "has_store s" "\<not> memory_only env"
  shows "b = pin \<and> show_content t = show_content s \<and>
    disk t = (if map (entry t) (pinned t) = [] then None else Some (JList (map item_of (map (entry t) (pinned t)))))"
proof -
  define pins where "pins = (if pin then pinned s @ [k] else remove1 k (pinned s))"
  have "save_pins env pins k pin s = (t, Inr b)"
    using assms(2,3) by (auto simp: change_pin_def pins_def split: if_splits option.splits bool.splits)
  then show ?thesis
  proof (cases rule: save_pins_cases)
    case (saved u)
    have same: "same_log (s\<lparr>pinned := pins\<rparr>) u" by (rule nl_save_same [OF saved(1)])
    note f = same_log_fields [OF same]
    have d: "disk u = (if map (entry u) (pinned u) = [] then None else Some (JList (map item_of (map (entry u) (pinned u)))))"
      using save_pins_disk [OF saved(1)] assms(4,5) f by (simp add: entry_def [abs_def])
    let ?v = "if \<not> pin \<and> k \<notin> set (ring u) then nl_drop k u else u"
    have "k \<notin> set (pinned u)" if "\<not> pin" using f that assms(1) by (simp add: pins_def nl_invx_def pins_wf_def)
    then have "map (entry ?v) (pinned u) = map (entry u) (pinned u)" by (auto simp: entry_def nl_drop_def)
    moreover have "pinned t = pinned u" "entry t = entry ?v" "disk t = disk u" "show_content t = show_content u"
      unfolding saved(2) by (auto simp: nl_notify_def nl_drop_def entry_def [abs_def])
    ultimately have "map (entry t) (pinned t) = map (entry u) (pinned u)" by (simp only:)
    then show ?thesis using d saved(3) f \<open>disk t = disk u\<close> \<open>show_content t = show_content u\<close>
      by (simp del: map_eq_conv)
  qed simp
qed

text \<open>
  C26: Pins survive a restart of the daemon. When a client's pin or unpin succeeds, a new log started on
  what was then stored lists exactly the same pinned records in the same order, field for field, and
  every one of them is detached from the ANCS session.
\<close>

theorem pins_survive_restart:
  assumes "reachable nl_start nl_step s" "has_store s" "pins_loaded s" "(k \<in> set (pinned s)) \<noteq> pin"
    "\<not> memory_only env" "set_pinned env k pin s = Some (t, Inr b)" "good_env env'"
  shows "b = pin \<and> (\<exists>u. ensure_pins_loaded env' (NotificationLog_init (show_content s) n True l i ds (disk t)) = Some u \<and>
    pinned u = pinned t \<and> map (entry u) (pinned u) = map (entry t) (pinned t) \<and> (\<forall>q \<in> nl_keys u. \<not> live_key u q))"
proof -
  note inv = notification_log.reachable_inv [OF assms(1)]
  have c: "change_pin env k pin s = (t, Inr b)" using assms(3,6) by (simp add: set_pinned_def nl_load_pins_def)
  note saved = changed_pin_saved [OF inv c assms(4,2,5)]
  have tinv: "nl_inv t" using change_pin_inv [OF inv c] .
  let ?rs = "map (entry t) (pinned t)"
  have e: "nr_key (entry t q) = q \<and> nrec_wf (show_content s) MAX_FIELD_CHARS (entry t q)" if "q \<in> set (pinned t)" for q
  proof -
    have "q \<in> nl_keys t" using tinv that by (auto simp: nl_invx_def keys_wf_def)
    from map_of_key [OF this] tinv saved show ?thesis by (auto simp: nl_invx_def records_wf_def entry_def)
  qed
  then have ks: "map nr_key ?rs = pinned t" by (simp add: map_idI)
  have "list_all (nrec_wf (show_content s) MAX_FIELD_CHARS) ?rs" using e by (simp add: list_all_iff)
  moreover have "distinct (map nr_key ?rs)" "?rs = [] \<or> fits ?rs = Some True"
    unfolding ks using tinv by (auto simp: nl_invx_def pins_wf_def)
  ultimately obtain u where u: "ensure_pins_loaded env' (NotificationLog_init (show_content s) n True l i ds (disk t)) = Some u"
      "pinned u = map nr_key ?rs" "\<forall>r \<in> set ?rs. entry u (nr_key r) = r \<and> \<not> live_key u (nr_key r)"
      "nl_keys u = set (map nr_key ?rs)"
    using reload_saved [of "show_content s" ?rs "disk t" env' n l i ds] saved assms(7) by blast
  have "map (entry u) (pinned u) = ?rs" using u(2,3) e unfolding ks by auto
  moreover have "\<not> live_key u q" if "q \<in> nl_keys u" for q
  proof -
    from that have "q \<in> set (pinned t)" unfolding u(4) ks .
    then show ?thesis using u(3) e by auto
  qed
  ultimately show ?thesis using u(1,2) saved unfolding ks by blast
qed

section \<open>A run\<close>

definition demo_env :: store_env where
  "demo_env = \<lparr>memory_only = False, can_read = True, can_write = True, settings_unreadable = False,
     decrypt_fails = False, write_fails = False\<rparr>"

definition demo_event :: "int \<Rightarrow> nevent" where
  "demo_event n = \<lparr>ev_id = n, ev_app_id = lit ''mail'', ev_app_name = lit ''Mail'', ev_time = lit ''now'',
     ev_title = [], ev_subtitle = [], ev_body = []\<rparr>"

definition demo_key :: pystr where "demo_key = lit ''a''"

definition demo_start :: nlog where
  "demo_start = NotificationLog_init False 1 True False False [demo_key, lit ''b''] None"

definition demo_record :: nrec where
  "demo_record = \<lparr>nr_key = demo_key, nr_id = 7, nr_app_id = lit ''mail'', nr_app_name = lit ''Mail'',
     nr_time = lit ''now'', nr_removed = False, nr_title = None, nr_subtitle = None, nr_body = None\<rparr>"

definition demo_logged :: nlog where
  "demo_logged = demo_start\<lparr>pins_loaded := True, entries := [(demo_key, demo_record)], sessions := [(demo_key, Some 0)],
     ring := [demo_key], draws := [lit ''b'']\<rparr>"

definition demo_pinned :: nlog where
  "demo_pinned = demo_logged\<lparr>pinned := [demo_key], disk := Some (JList [item_of demo_record])\<rparr>"

lemmas demo_defs = demo_env_def demo_event_def demo_start_def demo_record_def demo_logged_def NotificationLog_init_def

lemma demo_logged: "handle_ancs demo_env (demo_event 7) demo_start = Some (demo_logged, None)"
  by (simp add: demo_defs handle_ancs_def ensure_pins_loaded_def nl_load_pins_def store_readable_def store_load_def
      pref_load_def load_pins_def live_match_def store_new_def unique_key_def fresh_key_def valid_key_def
      demo_key_def lit_def key_char_def store_record_def ring_append_def nl_notify_def event_record_def
      bounded_def consts_defs MESSAGES_APP_ID_def numeral_2_eq_2 Let_def)

lemma demo_fits: "fits [demo_record] = Some True"
  by (simp add: fits_def serialized_size_def stored_form_def content_field_def demo_record_def demo_key_def
      json_quote_def json_escape_def decimal_int_def decimal.simps lit_def utf8_char_def consts_defs)

lemma demo_pinned: "set_pinned demo_env demo_key True demo_logged = Some (demo_pinned, Inr True)"
proof -
  have "valid_key demo_key" by (simp add: valid_key_def demo_key_def lit_def key_char_def)
  moreover have "map (entry demo_logged) [demo_key] = [demo_record]" by (simp add: entry_def demo_logged_def)
  ultimately show ?thesis using demo_fits
    by (simp add: set_pinned_def nl_load_pins_def change_pin_def save_pins_def nl_save_def store_save_def pref_write_def
        demo_pinned_def demo_logged_def demo_start_def demo_env_def NotificationLog_init_def nl_notify_def item_of_def
        consts_defs entry_def)
qed

lemma demo_logged_reachable: "reachable nl_start nl_step demo_logged"
proof -
  have "reachable nl_start nl_step demo_start"
    by (rule reachable.start) (unfold nl_start_def demo_start_def, blast)
  moreover have "nl_step demo_start demo_logged"
    by (rule nl_step.handle [OF _ demo_logged]) (simp add: event_ok_def demo_event_def consts_defs lit_def)
  ultimately show ?thesis by (rule reachable.next_state)
qed

lemma demo_pinned_reachable: "reachable nl_start nl_step demo_pinned"
  by (rule reachable.next_state [OF demo_logged_reachable nl_step.pin [OF demo_pinned]])

lemma notification_log_bounded_witness:
  "length (ring demo_pinned) \<le> 1 \<and> length (pinned demo_pinned) \<le> 20 \<and> distinct (listing demo_pinned) \<and>
   listing demo_pinned = [demo_key]"
  using notification_log_bounded [OF demo_pinned_reachable]
  by (simp add: demo_pinned_def demo_logged_def demo_start_def NotificationLog_init_def consts_defs listing_def)

definition demo_later :: nlog where
  "demo_later = session_reset demo_pinned"

lemma demo_later_reachable: "reachable nl_start nl_step demo_later"
  unfolding demo_later_def by (rule reachable.next_state [OF demo_pinned_reachable nl_step.reset])

text \<open>The next session reports the removal of its own notification 7: the old record is not touched.\<close>

lemma detached_records_final_witness:
  "\<not> live_key demo_later demo_key \<and> \<not> nr_removed (entry (mark_removed demo_env 7 demo_later) demo_key) \<and>
   \<not> pr_actionable (public (mark_removed demo_env 7 demo_later) demo_key)"
proof -
  have k: "demo_key \<in> nl_keys demo_later" "pins_loaded demo_later" "\<not> nr_removed (entry demo_later demo_key)"
    by (simp_all add: demo_later_def session_reset_def Let_def nl_notify_def demo_pinned_def demo_logged_def
        demo_start_def NotificationLog_init_def entry_def demo_record_def)
  have "fst ` set (entries (mark_removed demo_env 7 demo_later)) = nl_keys demo_later"
    using same_log_fields [OF mark_removed_eq [of demo_later 7 demo_env]] by simp
  moreover have "\<not> live_key demo_later demo_key"
    using detached_records_final [OF demo_pinned_reachable] unfolding demo_later_def by blast
  ultimately show ?thesis
    using detached_records_final [OF demo_later_reachable, THEN conjunct2, rule_format,
        of "mark_removed demo_env 7 demo_later" demo_key] k nl_step.removed [of demo_later demo_env 7] by auto
qed

lemma pins_survive_restart_witness:
  "\<exists>u. ensure_pins_loaded demo_env (NotificationLog_init False 200 True True True [] (disk demo_pinned)) = Some u \<and>
     pinned u = [demo_key] \<and> map (entry u) (pinned u) = [demo_record]"
proof -
  have p: "pinned demo_pinned = [demo_key]" "map (entry demo_pinned) [demo_key] = [demo_record]"
    "show_content demo_logged = False" "pinned demo_logged = []" "has_store demo_logged" "pins_loaded demo_logged"
    by (simp_all add: demo_pinned_def demo_logged_def demo_start_def NotificationLog_init_def entry_def)
  have e: "\<not> memory_only demo_env" "good_env demo_env" by (simp_all add: demo_env_def good_env_def)
  have "(demo_key \<in> set (pinned demo_logged)) \<noteq> True" using p(4) by simp
  from pins_survive_restart [OF demo_logged_reachable p(5,6) this e(1) demo_pinned e(2), of 200 True True "[]",
      unfolded p, THEN conjunct2]
  show ?thesis by (elim exE conjE) (intro exI conjI)
qed

section \<open>Events are logged\<close>

text \<open>Drawing ends as soon as the generator gives a valid key that is not in use.\<close>

lemma unique_key_returns:
  assumes "k \<in> set (draws s)" "fresh_key s avoid k"
  shows "\<exists>l t. unique_key avoid s = Some (l, t)"
proof -
  have "dropWhile (\<lambda>k. \<not> fresh_key s avoid k) (draws s) \<noteq> []" using assms by auto
  then show ?thesis by (auto simp: unique_key_def split: list.splits)
qed

lemma store_record_logged:
  assumes "t = store_record env k ev s"
  shows "ring t \<noteq> [] \<and> last (ring t) = k \<and> session t = session s \<and>
    (nl_invx X s \<and> k \<notin> set (ring s) \<longrightarrow> entry t k = event_record s ev k \<and> live_key t k)"
proof -
  let ?p = "put k (event_record s ev k) (Some (session s)) s"
  have same: "same_log (ring_append k ?p) t"
    unfolding assms store_record_def Let_def put_def by (auto intro: same_log_trans same_log_persist same_log_notify)
  note f = same_log_fields [OF same]
  have ev: "map_of (entries (evict n u)) k = map_of (entries u) k \<and> map_of (sessions (evict n u)) k = map_of (sessions u) k"
    if "k \<notin> set (ring u)" for n u
    using that
  proof (induction n u rule: evict.induct)
    case (2 n u)
    then show ?case by (cases "ring u") (auto simp: Let_def nl_drop_def)
  qed simp
  have "session (evict n u) = session u" for n u using shrinks_evict [of u n] by (simp add: shrinks_def)
  then show ?thesis
    using f ev [of ?p] by (auto simp: ring_append_def Let_def entry_def live_key_def put_def)
qed

definition logged :: "nevent \<Rightarrow> nlog \<Rightarrow> bool" where
  "logged ev t \<longleftrightarrow> ring t \<noteq> [] \<and> live_key t (last (ring t)) \<and>
     entry t (last (ring t)) = event_record t ev (last (ring t))"

lemma store_record_logs:
  assumes "nl_invx X s" "k \<notin> set (ring s)"
  shows "logged ev (store_record env k ev s)"
proof -
  let ?t = "store_record env k ev s"
  have "show_content (evict n u) = show_content u" for n u
    by (induction n u rule: evict.induct) (auto simp: Let_def nl_drop_def split: list.splits)
  then have "show_content ?t = show_content s"
    by (simp add: store_record_def Let_def ring_append_def persist_def nl_notify_def nl_save_def split: sum.splits)
  then have "event_record ?t ev l = event_record s ev l" for l by (simp add: event_record_def)
  then show ?thesis using store_record_logged [OF refl, of env k ev s X] assms by (simp add: logged_def)
qed

lemma store_new_logs:
  assumes "nl_inv s" "k \<in> set (draws s)" "fresh_key s {} k"
  shows "\<exists>t. store_new env ev s = Some t \<and> logged ev t"
proof -
  obtain l u where u: "unique_key {} s = Some (l, u)" using unique_key_returns [OF assms(2,3)] by blast
  from unique_key_Some [OF u] have l: "fresh_key s {} l" "same_log s u" by auto
  have "nl_inv u" using nl_inv_same [OF l(2)] assms(1) by simp
  moreover have "l \<notin> set (ring u)"
    using fresh_key_unused [OF _ l(1), of "{}"] same_log_fields [OF l(2)] assms(1) by (simp add: nl_invx_def)
  ultimately show ?thesis using store_record_logs [of "{}" u l] by (simp add: store_new_def u)
qed



text \<open>
  Clearing the log is not strict about the settings file: while it cannot be read, \<open>clear\<close> and
  \<open>forget_pins\<close> report success and the stored pins remain.
\<close>

lemma clear_keeps_unreadable_pins:
  "settings_unreadable env \<Longrightarrow> has_store s \<Longrightarrow>
     (\<exists>t. nl_clear env s = Inr t \<and> disk t = disk s) \<and> (\<exists>t. forget_pins env s = Inr t \<and> pinned t = [] \<and> disk t = disk s)"
proof -
  assume a: "settings_unreadable env" "has_store s"
  then have c: "store_clear env s = Inr s" by (simp add: store_clear_def pref_clear_def)
  have d: "disk (drop_unlisted ks u) = disk u" for ks u
    by (induction ks arbitrary: u) (auto simp: nl_drop_def)
  show ?thesis by (auto simp: nl_clear_def forget_pins_def c Let_def nl_notify_def d)
qed

end
