(* ===== verification/Py_Text.thy ===== *)
theory Py_Text
  imports Prelude "HOL-Library.Sublist"
begin

text \<open>
  Python text operations of the message and vCard parsers: \<open>str.splitlines\<close>, with and without line
  ends, and the case mappings. ASCII letters are mapped here; what the Unicode tables say about other
  characters is a parameter (\<open>ucase\<close>), one list of code points per character, as \<open>str.upper\<close> and
  \<open>str.casefold\<close> are defined character by character.
\<close>

section \<open>Case\<close>

record ucase =
  upper_char :: "nat \<Rightarrow> pystr"
  fold_char :: "nat \<Rightarrow> pystr"

definition py_upper :: "ucase \<Rightarrow> pystr \<Rightarrow> pystr" where
  "py_upper uc s = concat (map (\<lambda>c. if c < 128 then [if 97 \<le> c \<and> c \<le> 122 then c - 32 else c] else upper_char uc c) s)"

definition py_casefold :: "ucase \<Rightarrow> pystr \<Rightarrow> pystr" where
  "py_casefold uc s = concat (map (\<lambda>c. if c < 128 then [if 65 \<le> c \<and> c \<le> 90 then c + 32 else c] else fold_char uc c) s)"

lemma py_casefold_simps [simp]:
  "py_casefold uc [] = []"
  "py_casefold uc (c # s) =
     (if c < 128 then [if 65 \<le> c \<and> c \<le> 90 then c + 32 else c] else fold_char uc c) @ py_casefold uc s"
  "py_casefold uc (s @ t) = py_casefold uc s @ py_casefold uc t"
  by (simp_all add: py_casefold_def)

lemma py_upper_simps [simp]:
  "py_upper uc [] = []"
  "py_upper uc (c # s) =
     (if c < 128 then [if 97 \<le> c \<and> c \<le> 122 then c - 32 else c] else upper_char uc c) @ py_upper uc s"
  "py_upper uc (s @ t) = py_upper uc s @ py_upper uc t"
  by (simp_all add: py_upper_def)

section \<open>Lines\<close>

text \<open>The line boundaries of \<open>str.splitlines\<close>; carriage return and line feed together are one.\<close>

definition line_break :: "nat \<Rightarrow> bool" where
  "line_break c \<longleftrightarrow> c = 10 \<or> c = 13 \<or> c = 11 \<or> c = 12 \<or> c = 28 \<or> c = 29 \<or> c = 30 \<or> c = 133 \<or> c = 8232 \<or> c = 8233"

text \<open>The lines of a text with their ends; only the last one can have an empty end.\<close>

function lines_of :: "pystr \<Rightarrow> (pystr \<times> pystr) list" where
  "lines_of s =
     (if s = [] then []
      else let t = takeWhile (\<lambda>c. \<not> line_break c) s; r = dropWhile (\<lambda>c. \<not> line_break c) s
        in case r of
             [] \<Rightarrow> [(t, [])]
           | c # r' \<Rightarrow> if c = 13 \<and> r' \<noteq> [] \<and> hd r' = 10 then (t, [13, 10]) # lines_of (tl r')
                      else (t, [c]) # lines_of r')"
  by pat_completeness auto
termination
proof (relation "measure length", goal_cases)
  case (2 s t r c r')
  then have "c # r' = dropWhile (\<lambda>c. \<not> line_break c) s" by simp
  then have "length (dropWhile (\<lambda>c. \<not> line_break c) s) = Suc (length r')" by (metis length_Cons)
  moreover have "length (dropWhile (\<lambda>c. \<not> line_break c) s) \<le> length s" by (rule length_dropWhile_le)
  ultimately show ?case by simp
next
  case (3 s t r c r')
  then have "c # r' = dropWhile (\<lambda>c. \<not> line_break c) s" by simp
  then have "length (dropWhile (\<lambda>c. \<not> line_break c) s) = Suc (length r')" by (metis length_Cons)
  moreover have "length (dropWhile (\<lambda>c. \<not> line_break c) s) \<le> length s" by (rule length_dropWhile_le)
  ultimately show ?case by simp
qed simp

declare lines_of.simps [simp del]

definition splitlines :: "pystr \<Rightarrow> pystr list" where
  "splitlines s = map fst (lines_of s)"

definition splitlines_keepends :: "pystr \<Rightarrow> pystr list" where
  "splitlines_keepends s = map (\<lambda>(t, e). t @ e) (lines_of s)"

lemma lines_of_Nil [simp]: "lines_of [] = []"
  by (simp add: lines_of.simps)

definition unbroken :: "pystr \<Rightarrow> bool" where
  "unbroken s \<longleftrightarrow> list_all (\<lambda>c. \<not> line_break c) s"

lemma unbroken_takeWhile: "unbroken (takeWhile (\<lambda>c. \<not> line_break c) s)"
  by (auto simp: unbroken_def list_all_iff dest: set_takeWhileD)

lemma takeWhile_unbroken: "unbroken t \<Longrightarrow> takeWhile (\<lambda>c. \<not> line_break c) (t @ s) = t @ takeWhile (\<lambda>c. \<not> line_break c) s"
  by (simp add: unbroken_def list_all_iff takeWhile_append2)

lemma dropWhile_unbroken: "unbroken t \<Longrightarrow> dropWhile (\<lambda>c. \<not> line_break c) (t @ s) = dropWhile (\<lambda>c. \<not> line_break c) s"
  by (simp add: unbroken_def list_all_iff dropWhile_append2)

text \<open>The equations of \<open>splitlines\<close> on a text cut at its first line end.\<close>

lemma lines_of_last:
  assumes "unbroken t" "t \<noteq> []"
  shows "lines_of t = [(t, [])]"
proof -
  have "takeWhile (\<lambda>c. \<not> line_break c) t = t" "dropWhile (\<lambda>c. \<not> line_break c) t = []"
    using assms(1) by (simp_all add: unbroken_def list_all_iff takeWhile_eq_all_conv)
  then show ?thesis using assms(2) by (subst lines_of.simps) (simp only: Let_def list.case if_False)
qed

lemma lines_of_crlf: "unbroken t \<Longrightarrow> lines_of (t @ 13 # 10 # s) = (t, [13, 10]) # lines_of s"
  using takeWhile_unbroken [of t "13 # 10 # s"] dropWhile_unbroken [of t "13 # 10 # s"]
  by (subst lines_of.simps) (simp add: line_break_def)

lemma lines_of_break:
  "unbroken t \<Longrightarrow> line_break c \<Longrightarrow> \<not> (c = 13 \<and> s \<noteq> [] \<and> hd s = 10) \<Longrightarrow> lines_of (t @ c # s) = (t, [c]) # lines_of s"
  using takeWhile_unbroken [of t "c # s"] dropWhile_unbroken [of t "c # s"]
  by (subst lines_of.simps) auto

lemma line_cases [case_names empty last crlf break]:
  obtains "s = []" | t where "s = t" "unbroken t" "t \<noteq> []"
    | t r where "s = t @ 13 # 10 # r" "unbroken t"
    | t c r where "s = t @ c # r" "unbroken t" "line_break c" "\<not> (c = 13 \<and> r \<noteq> [] \<and> hd r = 10)"
proof -
  let ?t = "takeWhile (\<lambda>c. \<not> line_break c) s" and ?r = "dropWhile (\<lambda>c. \<not> line_break c) s"
  note s = takeWhile_dropWhile_id [of "\<lambda>c. \<not> line_break c" s]
  show thesis
  proof (cases ?r)
    case Nil
    then have "s = ?t" using s by (metis append_Nil2)
    then show ?thesis using that(1,2) unbroken_takeWhile by metis
  next
    case (Cons c r)
    then have c: "line_break c" using hd_dropWhile [of "\<lambda>c. \<not> line_break c" s] by auto
    show ?thesis
    proof (cases "c = 13 \<and> r \<noteq> [] \<and> hd r = 10")
      case True
      then have "s = ?t @ 13 # 10 # tl r" using s Cons by (metis list.collapse)
      then show ?thesis using that(3) unbroken_takeWhile by blast
    next
      case False
      then show ?thesis using that(4) [of ?t c r] s Cons c unbroken_takeWhile by simp
    qed
  qed
qed

lemma concat_keepends: "concat (splitlines_keepends s) = s"
proof (induction "length s" arbitrary: s rule: less_induct)
  case less
  note IH = less [unfolded splitlines_keepends_def]
  show ?case
  proof (cases rule: line_cases [of s])
    case (crlf t r)
    then show ?thesis using IH [of r] by (simp add: splitlines_keepends_def lines_of_crlf)
  next
    case (break t c r)
    then show ?thesis using IH [of r] by (simp add: splitlines_keepends_def lines_of_break)
  qed (simp_all add: splitlines_keepends_def lines_of_last)
qed

lemma lines_unbroken: "(t, e) \<in> set (lines_of s) \<Longrightarrow> unbroken t"
proof (induction "length s" arbitrary: s rule: less_induct)
  case less
  show ?case
  proof (cases rule: line_cases [of s])
    case (crlf u r)
    then show ?thesis using less(1) [of r] less(2) by (auto simp: lines_of_crlf)
  next
    case (break u c r)
    then show ?thesis using less(1) [of r] less(2) by (auto simp: lines_of_break)
  qed (use less(2) in \<open>auto simp: lines_of_last\<close>)
qed

end
