(* ===== verification/Vcard.thy ===== *)
theory Vcard
  imports Py_Text
begin

text \<open>
  Bounded extraction of vCards (\<open>vcard.py\<close>): line pieces of a text that arrives in chunks, one card as a
  state machine over its physical lines, and the loop over the cards. Generators are modelled by the list
  of what they yield. The lemmas show that the pieces of any chunking are the lines of the whole text,
  and that every card body stays within its budget.
\<close>

definition MAX_VCARD_CHARS :: nat where [consts_defs]: "MAX_VCARD_CHARS = 1024 * 1024"
definition MAX_HEAD_CHARS :: nat where [consts_defs]: "MAX_HEAD_CHARS = 1024"
definition WHOLE_LINE_START :: nat where [consts_defs]: "WHOLE_LINE_START = 256"

section \<open>Pieces of lines\<close>

text \<open>
  State of \<open>_line_pieces\<close> between chunks: \<open>pending\<close>, \<open>continued\<close>, \<open>after_carriage_return\<close>, \<open>carry\<close>.
  A piece is its text, whether it continues a line and whether it ends the line.
\<close>

type_synonym piece = "pystr \<times> bool \<times> bool"

record piece_state =
  ps_pending :: "piece option"
  ps_continued :: bool
  ps_after_cr :: bool
  ps_carry :: pystr

definition piece_start :: piece_state where
  "piece_start = \<lparr>ps_pending = None, ps_continued = False, ps_after_cr = False, ps_carry = []\<rparr>"

text \<open>The loop over the lines of one chunk: the yielded pieces, the last one pending.\<close>

fun add_lines :: "(pystr \<times> pystr) list \<Rightarrow> piece option \<Rightarrow> bool \<Rightarrow> piece list \<times> piece option \<times> bool" where
  "add_lines [] pending continued = ([], pending, continued)"
| "add_lines ((text, ending) # ls) pending continued =
     (let terminated = (ending \<noteq> []);
          (out, p, c) = add_lines ls (Some (text, continued, terminated)) (\<not> terminated)
      in (case pending of None \<Rightarrow> out | Some q \<Rightarrow> q # out, p, c))"

definition add_chunk :: "pystr \<Rightarrow> piece_state \<Rightarrow> piece list \<times> piece_state" where
  "add_chunk chunk0 st =
     (let chunk = (if ps_after_cr st \<and> take 1 chunk0 = [10] then tl chunk0 else chunk0);
          after = (chunk \<noteq> [] \<and> last chunk = 13);
          (out, p, c) = add_lines (lines_of (ps_carry st @ chunk)) (ps_pending st) (ps_continued st)
      in case p of
           Some (text, False, False) \<Rightarrow>
             if length text < WHOLE_LINE_START
             then (out, \<lparr>ps_pending = None, ps_continued = False, ps_after_cr = after, ps_carry = text\<rparr>)
             else (out, \<lparr>ps_pending = p, ps_continued = c, ps_after_cr = after, ps_carry = []\<rparr>)
         | _ \<Rightarrow> (out, \<lparr>ps_pending = p, ps_continued = c, ps_after_cr = after, ps_carry = []\<rparr>))"

fun line_pieces_from :: "pystr list \<Rightarrow> piece_state \<Rightarrow> piece list" where
  "line_pieces_from [] st =
     (if ps_carry st \<noteq> [] then [(ps_carry st, False, True)]
      else case ps_pending st of None \<Rightarrow> [] | Some (text, continued, _) \<Rightarrow> [(text, continued, True)])"
| "line_pieces_from (chunk # chunks) st =
     (let (out, st') = add_chunk chunk st in out @ line_pieces_from chunks st')"

definition line_pieces :: "pystr list \<Rightarrow> piece list" where
  "line_pieces chunks = line_pieces_from chunks piece_start"

section \<open>One card\<close>

definition SKIPPED_PROPERTIES :: "pystr set" where
  "SKIPPED_PROPERTIES = {lit ''PHOTO'', lit ''LOGO'', lit ''SOUND'', lit ''KEY''}"
definition BASE64_PARAMETERS :: "pystr set" where
  "BASE64_PARAMETERS = {lit ''ENCODING=B'', lit ''ENCODING=BASE64'', lit ''BASE64''}"
definition QUOTED_PRINTABLE_PARAMETERS :: "pystr set" where
  "QUOTED_PRINTABLE_PARAMETERS = {lit ''ENCODING=QUOTED-PRINTABLE'', lit ''QUOTED-PRINTABLE''}"

definition py_rstrip :: "pystr \<Rightarrow> pystr" where
  "py_rstrip s = rev (dropWhile py_isspace (rev s))"

definition blank :: "nat \<Rightarrow> bool" where "blank c \<longleftrightarrow> c = 32 \<or> c = 9"

definition base64_char :: "nat \<Rightarrow> bool" where
  "base64_char c \<longleftrightarrow> 65 \<le> c \<and> c \<le> 90 \<or> 97 \<le> c \<and> c \<le> 122 \<or> 48 \<le> c \<and> c \<le> 57 \<or> c = 43 \<or> c = 47 \<or> c = 61"

definition base64_line :: "pystr \<Rightarrow> bool" where
  "base64_line s =
     (let core = rev (dropWhile blank (rev (dropWhile blank s))) in core \<noteq> [] \<and> list_all base64_char core)"

text \<open>\<open>_split_unquoted\<close>; the flag says whether the scan is inside double quotes.\<close>

fun split_unquoted :: "nat \<Rightarrow> bool \<Rightarrow> pystr \<Rightarrow> pystr list" where
  "split_unquoted sep quoted [] = [[]]"
| "split_unquoted sep quoted (c # cs) =
     (if c = sep \<and> c \<noteq> 34 \<and> \<not> quoted then [] # split_unquoted sep quoted cs
      else case split_unquoted sep (if c = 34 then \<not> quoted else quoted) cs of
             [] \<Rightarrow> [[c]] | w # ws \<Rightarrow> (c # w) # ws)"

record card =
  c_limit :: nat
  c_photo_limit :: nat
  c_photo :: "pystr option"
  c_photo_seen :: bool
  c_photo_oversized :: bool
  c_photo_value_chars :: int
  c_photo_padding_chars :: int
  c_photo_prefix :: "pystr option"
  c_lines :: "pystr list"
  c_size :: int
  c_overflowed :: bool
  c_version21 :: bool
  c_present :: bool
  c_decided :: bool
  c_skipped :: bool
  c_retaining :: bool
  c_measuring_photo :: bool
  c_head :: pystr
  c_quoted :: bool
  c_encoding :: "pystr set"
  c_base64_open :: bool
  c_soft_break :: bool
  c_parts :: "pystr list"
  c_property_size :: int

definition reset_property :: "bool \<Rightarrow> card \<Rightarrow> card" where
  "reset_property present c =
     c\<lparr>c_present := present, c_decided := False, c_skipped := False, c_retaining := False,
       c_measuring_photo := False, c_head := [], c_quoted := False, c_encoding := {}, c_base64_open := False,
       c_soft_break := False, c_parts := [], c_property_size := 1\<rparr>"

definition new_card :: "nat \<Rightarrow> nat \<Rightarrow> card" where
  "new_card limit photo_limit =
     reset_property False
       \<lparr>c_limit = limit, c_photo_limit = photo_limit, c_photo = None, c_photo_seen = False, c_photo_oversized = False,
        c_photo_value_chars = 0, c_photo_padding_chars = 0, c_photo_prefix = Some [], c_lines = [], c_size = 0,
        c_overflowed = False, c_version21 = False, c_present = False, c_decided = False, c_skipped = False,
        c_retaining = False, c_measuring_photo = False, c_head = [], c_quoted = False, c_encoding = {},
        c_base64_open = False, c_soft_break = False, c_parts = [], c_property_size = 1\<rparr>"

text \<open>\<open>s.partition(sep)\<close>: before, whether found, after.\<close>

definition partition_at :: "nat \<Rightarrow> pystr \<Rightarrow> pystr \<times> bool \<times> pystr" where
  "partition_at sep s =
     (takeWhile (\<lambda>c. c \<noteq> sep) s, sep \<in> set s, tl (dropWhile (\<lambda>c. c \<noteq> sep) s))"

definition count_photo :: "pystr \<Rightarrow> card \<Rightarrow> card" where
  "count_photo dense c =
     c\<lparr>c_photo_prefix := None, c_photo_value_chars := c_photo_value_chars c + int (length dense),
       c_photo_padding_chars := c_photo_padding_chars c + int (count_list dense 61)\<rparr>"

definition measure_photo :: "pystr \<Rightarrow> card \<Rightarrow> card" where
  "measure_photo text c =
     (let dense = filter (\<lambda>x. x \<notin> {32, 9, 13, 10, 11, 12}) text
      in case c_photo_prefix c of
           None \<Rightarrow> count_photo dense c
         | Some pre \<Rightarrow>
             let room = MAX_HEAD_CHARS - length pre;
                 prefix = pre @ take room dense;
                 rest = drop room dense
             in if length prefix < 5 \<and> py_startswith (lit ''data:'') prefix then c\<lparr>c_photo_prefix := Some prefix\<rparr>
                else if py_startswith prefix (lit ''data:'') then
                  let (_, comma, payload) = partition_at 44 prefix
                  in if \<not> comma \<and> length prefix < MAX_HEAD_CHARS then c\<lparr>c_photo_prefix := Some prefix\<rparr>
                     else count_photo ((if comma then payload else prefix) @ rest) c
                else count_photo (prefix @ rest) c)"

definition photo_size :: "card \<Rightarrow> int" where
  "photo_size c = (c_photo_value_chars c - c_photo_padding_chars c) * 3 div 4"

definition decide :: "ucase \<Rightarrow> pystr \<Rightarrow> card \<Rightarrow> card" where
  "decide uc head c =
     (let heads = split_unquoted 59 False head;
          encoding = set (map (\<lambda>p. py_upper uc (py_strip p)) (tl heads));
          selected = py_upper uc (last (split_on 46 (py_strip (hd heads))));
          c1 = c\<lparr>c_decided := True, c_head := [], c_encoding := encoding,
                 c_base64_open := (encoding \<inter> BASE64_PARAMETERS \<noteq> {})\<rparr>
      in if selected \<in> SKIPPED_PROPERTIES then
           if selected = lit ''PHOTO'' \<and> 0 < c_photo_limit c1 \<and> \<not> c_photo_seen c1
           then c1\<lparr>c_skipped := True, c_photo_seen := True, c_retaining := True, c_measuring_photo := True\<rparr>
           else c1\<lparr>c_skipped := True, c_parts := []\<rparr>
         else c1)"

text \<open>\<open>_read_head\<close> scans the new text for the first colon outside quotes.\<close>

fun scan_head :: "bool \<Rightarrow> pystr \<Rightarrow> bool \<times> nat option" where
  "scan_head quoted [] = (quoted, None)"
| "scan_head quoted (x # xs) =
     (if x = 34 then map_prod id (map_option Suc) (scan_head (\<not> quoted) xs)
      else if x = 58 \<and> \<not> quoted then (quoted, Some 0)
      else map_prod id (map_option Suc) (scan_head quoted xs))"

definition read_head :: "ucase \<Rightarrow> pystr \<Rightarrow> card \<Rightarrow> card" where
  "read_head uc text c =
     (let scanned = take (MAX_HEAD_CHARS - length (c_head c)) text;
          (quoted, found) = scan_head (c_quoted c) scanned;
          c = c\<lparr>c_quoted := quoted\<rparr>
      in case found of
           Some index \<Rightarrow>
             let c = decide uc (c_head c @ take index scanned) c
             in if c_measuring_photo c then measure_photo (drop (index + 1) text) c else c
         | None \<Rightarrow>
             let c = c\<lparr>c_head := c_head c @ scanned\<rparr>
             in if MAX_HEAD_CHARS \<le> length (c_head c) \<or> int MAX_HEAD_CHARS < c_property_size c
                then c\<lparr>c_decided := True\<rparr> else c)"

definition check_budget :: "card \<Rightarrow> card" where
  "check_budget c =
     (if int (c_limit c) < c_size c + c_property_size c then c\<lparr>c_overflowed := True, c_lines := [], c_parts := []\<rparr> else c)"

definition add_text :: "ucase \<Rightarrow> pystr \<Rightarrow> card \<Rightarrow> card" where
  "add_text uc text c =
     (if c_skipped c \<and> \<not> c_retaining c then (if c_measuring_photo c then measure_photo text c else c)
      else
        let c = (if text \<noteq> [] then c\<lparr>c_parts := c_parts c @ [text], c_property_size := c_property_size c + int (length text)\<rparr>
                 else c);
            c = (if \<not> c_decided c then read_head uc text c
                 else if c_measuring_photo c then measure_photo text c else c)
        in if c_retaining c then
             if int (c_photo_limit c) < c_property_size c
             then c\<lparr>c_retaining := False, c_photo_oversized := True, c_parts := []\<rparr> else c
           else if c_decided c \<and> \<not> c_skipped c then check_budget c else c)"

definition close_property :: "ucase \<Rightarrow> card \<Rightarrow> card" where
  "close_property uc c0 =
     (let c = (if c_retaining c0 \<and> \<not> c_overflowed c0
               then c0\<lparr>c_photo := Some (concat (c_parts c0)), c_retaining := False, c_parts := []\<rparr> else c0)
      in if \<not> c_present c \<or> c_overflowed c \<or> c_skipped c then c
         else let c = check_budget (c\<lparr>c_decided := True\<rparr>)
           in if c_overflowed c then c
              else let line = concat (c_parts c);
                       (name, _, value) = partition_at 58 line;
                       c = c\<lparr>c_lines := c_lines c @ [line], c_size := c_size c + c_property_size c\<rparr>;
                       c = (if py_upper uc (py_strip name) = lit ''VERSION''
                            then c\<lparr>c_version21 := (py_strip value = lit ''2.1'')\<rparr> else c)
                in c\<lparr>c_parts := []\<rparr>)"

text \<open>The loop of \<open>_drop_soft_break\<close> over the parts from the last one, here from the front of their reversal.\<close>

fun drop_blank_parts :: "pystr list \<Rightarrow> int \<Rightarrow> pystr list \<times> int" where
  "drop_blank_parts [] n = ([], n)"
| "drop_blank_parts (p # ps) n =
     (if py_rstrip p = [] then drop_blank_parts ps (n - int (length p)) else (p # ps, n))"

definition drop_soft_break :: "card \<Rightarrow> card" where
  "drop_soft_break c =
     (case drop_blank_parts (rev (c_parts c)) (c_property_size c) of
        ([], n) \<Rightarrow> c\<lparr>c_parts := [], c_property_size := n\<rparr>
      | (p # ps, n) \<Rightarrow>
          let l = py_rstrip p;
              l = (if l \<noteq> [] \<and> last l = 61 then butlast l else l)
          in c\<lparr>c_parts := rev (l # ps), c_property_size := n - (int (length p) - int (length l))\<rparr>)"

definition note_line_end :: "pystr \<Rightarrow> card \<Rightarrow> card" where
  "note_line_end text c =
     (let stripped = py_rstrip text
      in if stripped \<noteq> [] then c\<lparr>c_soft_break := (last stripped = 61)\<rparr> else c)"

definition starts_blank :: "pystr \<Rightarrow> bool" where
  "starts_blank text \<longleftrightarrow> text \<noteq> [] \<and> blank (hd text)"

definition start_line :: "ucase \<Rightarrow> pystr \<Rightarrow> card \<Rightarrow> card" where
  "start_line uc text c =
     (if c_overflowed c then c
      else
        let start = take WHOLE_LINE_START text;
            grow = (\<lambda>c. c\<lparr>c_property_size := c_property_size c + 1\<rparr>);
            c = (if c_soft_break c \<and> c_encoding c \<inter> QUOTED_PRINTABLE_PARAMETERS \<noteq> {}
                 then add_text uc text (grow (drop_soft_break c))
                 else if c_present c \<and> starts_blank text
                 then add_text uc (if c_version21 c then text else tl text) (grow c)
                 else if c_version21 c \<and> c_base64_open c \<and> (py_strip start = [] \<or> base64_line start)
                 then add_text uc text (grow (c\<lparr>c_base64_open := (py_strip start \<noteq> [])\<rparr>))
                 else add_text uc text (reset_property True (close_property uc c)))
        in note_line_end text (c\<lparr>c_soft_break := False\<rparr>))"

definition add_piece :: "ucase \<Rightarrow> pystr \<Rightarrow> card \<Rightarrow> card" where
  "add_piece uc text c = (if c_overflowed c then c else note_line_end text (add_text uc text c))"

definition finish_card :: "ucase \<Rightarrow> card \<Rightarrow> card \<times> pystr option" where
  "finish_card uc c =
     (let c = close_property uc c
      in (c, if c_overflowed c then None else Some (py_join [10] (c_lines c))))"

section \<open>The cards of a text\<close>

text \<open>A yielded card: its body, its photo and the size reported for an oversized photo.\<close>

record yielded =
  y_body :: pystr
  y_photo :: "pystr option"
  y_oversized :: "int option"

definition line_marker :: "ucase \<Rightarrow> card option \<Rightarrow> pystr \<Rightarrow> bool \<Rightarrow> pystr" where
  "line_marker uc cur line whole =
     (if \<not> whole \<or> (case cur of None \<Rightarrow> False | Some c \<Rightarrow> starts_blank line \<and> c_present c) then []
      else py_casefold uc (py_strip line))"

fun cards_loop :: "ucase \<Rightarrow> nat \<Rightarrow> nat \<Rightarrow> nat \<Rightarrow> nat \<Rightarrow> card option \<Rightarrow> piece list \<Rightarrow> yielded list" where
  "cards_loop uc maximum limit photo_limit n cur [] = []"
| "cards_loop uc maximum limit photo_limit n cur ((line, continued, whole) # ps) =
     (if continued then cards_loop uc maximum limit photo_limit n (map_option (add_piece uc line) cur) ps
      else let marker = line_marker uc cur line whole
        in if marker = lit ''begin:vcard'' then
             cards_loop uc maximum limit photo_limit n (Some (new_card limit photo_limit)) ps
           else if marker = lit ''end:vcard'' then
             (case cur of
                None \<Rightarrow> cards_loop uc maximum limit photo_limit n None ps
              | Some c \<Rightarrow>
                  (case finish_card uc c of
                     (c', None) \<Rightarrow> cards_loop uc maximum limit photo_limit n None ps
                   | (c', Some body) \<Rightarrow>
                       \<lparr>y_body = body, y_photo = c_photo c',
                        y_oversized = (if c_photo_oversized c' then Some (photo_size c') else None)\<rparr> #
                       (if maximum \<le> n + 1 then [] else cards_loop uc maximum limit photo_limit (n + 1) None ps)))
           else cards_loop uc maximum limit photo_limit n (map_option (start_line uc line) cur) ps)"

definition iter_cards :: "ucase \<Rightarrow> pystr list \<Rightarrow> int \<Rightarrow> int \<Rightarrow> int \<Rightarrow> yielded list" where
  "iter_cards uc chunks maximum max_card_chars max_photo_chars =
     cards_loop uc (nat maximum) (nat max_card_chars) (nat max_photo_chars) 0 None (line_pieces chunks)"

definition iter_vcard_bodies :: "ucase \<Rightarrow> pystr list \<Rightarrow> int \<Rightarrow> int \<Rightarrow> pystr list" where
  "iter_vcard_bodies uc chunks maximum max_card_chars = map y_body (iter_cards uc chunks maximum max_card_chars 0)"

definition iter_vcard_cards :: "ucase \<Rightarrow> pystr list \<Rightarrow> int \<Rightarrow> int \<Rightarrow> int \<Rightarrow> yielded list" where
  "iter_vcard_cards uc chunks maximum max_card_chars max_photo_chars =
     iter_cards uc chunks maximum max_card_chars (max 1 max_photo_chars)"

text \<open>\<open>iter_bounded_lines\<close>: \<open>readline(limit)\<close> until it returns nothing.\<close>

function iter_bounded_lines :: "int \<Rightarrow> pystr \<Rightarrow> pystr list" where
  "iter_bounded_lines limit s =
     (let n = nat (max 1 limit);
          line = takeWhile (\<lambda>c. c \<noteq> 10) s @ take 1 (dropWhile (\<lambda>c. c \<noteq> 10) s);
          piece = take n line
      in if piece = [] then [] else piece # iter_bounded_lines limit (drop (length piece) s))"
  by pat_completeness auto
termination
proof (relation "measure (length \<circ> snd)", goal_cases)
  case (2 limit s n line piece)
  then have "s \<noteq> []" "piece \<noteq> []" by auto
  then show ?case by simp
qed simp

declare iter_bounded_lines.simps [simp del]

section \<open>Chunks do not matter\<close>

text \<open>
  \<open>splitlines\<close> as a machine over characters: the finished lines, the open one, and whether the last
  character was a carriage return.
\<close>

type_synonym line_state = "pystr list \<times> pystr \<times> bool"

fun line_step :: "line_state \<Rightarrow> nat \<Rightarrow> line_state" where
  "line_step (done, cur, cr) c =
     (if cr \<and> c = 10 then (done, cur, False)
      else if line_break c then (done @ [cur], [], c = 13)
      else (done, cur @ [c], False))"

fun open_line :: "line_state \<Rightarrow> pystr list" where
  "open_line (done, cur, cr) = done @ (if cur = [] then [] else [cur])"

lemma line_step_cr: "s = [] \<or> hd s \<noteq> 10 \<Longrightarrow> s \<noteq> [] \<Longrightarrow> foldl line_step (d, u, True) s = foldl line_step (d, u, False) s"
  by (cases s) auto

text \<open>The state of the machine after a text, from its lines.\<close>

definition lines_state :: "pystr list \<Rightarrow> (pystr \<times> pystr) list \<Rightarrow> bool \<Rightarrow> line_state" where
  "lines_state d ls cr =
     (if ls \<noteq> [] \<and> snd (last ls) = [] then (d @ map fst (butlast ls), fst (last ls), cr) else (d @ map fst ls, [], cr))"

lemma lines_state_Cons: "e \<noteq> [] \<Longrightarrow> lines_state d ((t, e) # ls) cr = lines_state (d @ [t]) ls cr"
  by (auto simp: lines_state_def)

lemma unbroken_Nil [simp]: "unbroken []"
  by (simp add: unbroken_def)

lemma unbroken_snoc: "unbroken (t @ [c]) \<longleftrightarrow> unbroken t \<and> \<not> line_break c"
  by (simp add: unbroken_def)

lemma run_lines:
  assumes "unbroken u"
  shows "foldl line_step (d, u, False) s = lines_state d (lines_of (u @ s)) (s \<noteq> [] \<and> last s = 13)"
  using assms
proof (induction "length s" arbitrary: d u s rule: less_induct)
  case less
  show ?case
  proof (cases s)
    case Nil
    then show ?thesis using less.prems
      by (cases "u = []") (simp_all add: lines_state_def lines_of_last)
  next
    case (Cons c s')
    show ?thesis
    proof (cases "line_break c")
      case False
      then have "foldl line_step (d, u @ [c], False) s' = lines_state d (lines_of ((u @ [c]) @ s')) (s' \<noteq> [] \<and> last s' = 13)"
        using less.hyps [of s' "u @ [c]" d] less.prems Cons by (simp add: unbroken_snoc)
      moreover have "c \<noteq> 13" using False by (auto simp: line_break_def)
      ultimately show ?thesis using False Cons by (cases "s' = []") (auto simp: line_break_def)
    next
      case True
      note IH = less.hyps [of _ "[]" "d @ [u]"]
      show ?thesis
      proof (cases "c = 13 \<and> s' \<noteq> [] \<and> hd s' = 10")
        case True
        then obtain r where r: "s' = 10 # r" by (cases s') auto
        have "foldl line_step (d @ [u], [], False) r = lines_state (d @ [u]) (lines_of r) (r \<noteq> [] \<and> last r = 13)"
          using IH [of r] Cons r by simp
        then show ?thesis using True Cons r less.prems lines_of_crlf [of u r]
          by (simp add: lines_state_Cons line_break_def)
      next
        case F: False
        have eq: "foldl line_step (d @ [u], [], c = 13) s' = (if s' = [] then (d @ [u], [], c = 13) else foldl line_step (d @ [u], [], False) s')"
          using F by (cases s') auto
        have "foldl line_step (d @ [u], [], False) s' = lines_state (d @ [u]) (lines_of s') (s' \<noteq> [] \<and> last s' = 13)"
          using IH [of s'] Cons by simp
        then show ?thesis using Cons True eq lines_of_break [OF less.prems True F]
          by (cases "s' = []") (auto simp: lines_state_Cons lines_state_def)
      qed
    qed
  qed
qed

lemma lines_last_open:
  "lines_of s \<noteq> [] \<Longrightarrow> snd (last (lines_of s)) = [] \<Longrightarrow> fst (last (lines_of s)) \<noteq> [] \<and> \<not> line_break (last s)"
proof (induction "length s" arbitrary: s rule: less_induct)
  case less
  show ?case
  proof (cases rule: line_cases [of s])
    case (last t)
    then show ?thesis by (auto simp: lines_of_last unbroken_def list_all_iff)
  next
    case (crlf t r)
    then show ?thesis using less.hyps [of r] less.prems by (auto simp: lines_of_crlf split: if_splits)
  next
    case (break t c r)
    then show ?thesis using less.hyps [of r] less.prems by (auto simp: lines_of_break split: if_splits)
  qed (use less.prems in auto)
qed

lemma splitlines_run: "splitlines s = open_line (foldl line_step ([], [], False) s)"
proof -
  have "map fst ls = map fst (butlast ls) @ [fst (last ls)]" if "ls \<noteq> []" for ls :: "(pystr \<times> pystr) list"
    using that by (cases ls rule: rev_cases) auto
  moreover note lines_last_open [of s]
  ultimately show ?thesis
    using run_lines [of "[]" "[]" s] by (auto simp: splitlines_def lines_state_def)
qed

text \<open>The lines that a list of pieces spells out.\<close>

definition glue1 :: "pystr list \<Rightarrow> piece \<Rightarrow> pystr list" where
  "glue1 ls p = (case p of (t, k, _) \<Rightarrow> if k then butlast ls @ [last ls @ t] else ls @ [t])"

definition glue :: "piece list \<Rightarrow> pystr list" where
  "glue ps = foldl glue1 [] ps"

definition pend :: "piece option \<Rightarrow> piece list" where
  "pend p = (case p of None \<Rightarrow> [] | Some q \<Rightarrow> [q])"

lemma glue_snoc: "glue (ps @ [p]) = glue1 (glue ps) p"
  by (simp add: glue_def)

lemma glue_append: "glue (ps @ qs) = foldl glue1 (glue ps) qs"
  by (simp add: glue_def)

definition joined :: "bool \<Rightarrow> pystr list \<Rightarrow> pystr list \<Rightarrow> pystr list" where
  "joined k gs ts = (if k then butlast gs @ [last gs @ hd ts] @ tl ts else gs @ ts)"

lemma add_lines_glue:
  assumes "ls \<noteq> []" "list_all (\<lambda>l. snd l \<noteq> []) (butlast ls)" "add_lines ls p k = (out, p', k')"
  shows "glue (ps @ out @ pend p') = joined k (glue (ps @ pend p)) (map fst ls) \<and>
    k' = (snd (last ls) = []) \<and>
    (\<exists>t c. p' = Some (t, c, snd (last ls) \<noteq> []) \<and> (c \<longrightarrow> k \<and> length ls = 1) \<and> (\<not> c \<longrightarrow> t = fst (last ls)))"
  using assms
proof (induction ls arbitrary: out p' k' p k ps)
  case (Cons l ls)
  obtain tx ending where l: "l = (tx, ending)" by (cases l)
  let ?q = "(tx, k, ending \<noteq> [])"
  obtain out1 p1 k1 where r: "add_lines ls (Some ?q) (\<not> ending \<noteq> []) = (out1, p1, k1)"
    by (cases "add_lines ls (Some ?q) (\<not> ending \<noteq> [])")
  have res: "out = (case p of None \<Rightarrow> out1 | Some q \<Rightarrow> q # out1)" "p' = p1" "k' = k1"
    using Cons.prems(3) r by (auto simp: Let_def l)
  have pre: "ps @ out @ pend p' = (ps @ pend p) @ out1 @ pend p1" by (auto simp: res pend_def split: option.splits)
  have g: "glue ((ps @ pend p) @ pend (Some ?q)) = joined k (glue (ps @ pend p)) [tx]"
    using glue_snoc [of "ps @ pend p" ?q] by (simp add: pend_def glue1_def joined_def)
  show ?case
  proof (cases "ls = []")
    case True
    then have "out1 = []" "p1 = Some ?q" "k1 = (ending = [])" using r by auto
    then show ?thesis using pre g res True l by (simp add: joined_def)
  next
    case False
    then have e: "ending \<noteq> []" "list_all (\<lambda>l. snd l \<noteq> []) (butlast ls)" using Cons.prems(2) l by auto
    from Cons.IH [OF False e(2) r, of "ps @ pend p"] e(1) g
    show ?thesis unfolding pre unfolding res(2,3) using False l by (auto simp: joined_def)
  qed
qed simp

lemma lines_ends: "list_all (\<lambda>l. snd l \<noteq> []) (butlast (lines_of s))"
proof (induction "length s" arbitrary: s rule: less_induct)
  case less
  show ?case
  proof (cases rule: line_cases [of s])
    case (crlf t r)
    then show ?thesis using less [of r] by (auto simp: lines_of_crlf)
  next
    case (break t c r)
    then show ?thesis using less [of r] by (auto simp: lines_of_break)
  qed (auto simp: lines_of_last)
qed

lemma lines_of_ne [simp]: "lines_of s = [] \<longleftrightarrow> s = []"
  by (cases rule: line_cases [of s]) (auto simp: lines_of_last lines_of_crlf lines_of_break)

text \<open>Continuing an open line: only its first piece grows.\<close>

lemma lines_of_grow:
  assumes "unbroken u" "s \<noteq> []"
  shows "lines_of (u @ s) = (u @ fst (hd (lines_of s)), snd (hd (lines_of s))) # tl (lines_of s)"
proof (cases rule: line_cases [of s])
  case (last t)
  then have "unbroken (u @ t)" using assms(1) by (simp add: unbroken_def)
  then show ?thesis using last by (simp add: lines_of_last)
next
  case (crlf t r)
  then have "unbroken (u @ t)" using assms(1) by (simp add: unbroken_def)
  then show ?thesis using crlf lines_of_crlf [of "u @ t" r] by (simp add: lines_of_crlf)
next
  case (break t c r)
  then have "unbroken (u @ t)" using assms(1) by (simp add: unbroken_def)
  then show ?thesis using break lines_of_break [of "u @ t" c r] by (simp add: lines_of_break)
qed (use assms in simp)

text \<open>Simulation of the character machine by the loop over chunks.\<close>

definition represents :: "piece list \<Rightarrow> piece_state \<Rightarrow> line_state \<Rightarrow> bool" where
  "represents out st ls =
     (case ls of (d, u, cr) \<Rightarrow>
        unbroken u \<and> cr = ps_after_cr st \<and> (cr \<longrightarrow> u = []) \<and>
        (if ps_carry st \<noteq> [] then ps_pending st = None \<and> \<not> ps_continued st \<and> u = ps_carry st \<and> d = glue out
         else if ps_continued st then u \<noteq> [] \<and> (\<exists>t k. ps_pending st = Some (t, k, False)) \<and>
           glue (out @ pend (ps_pending st)) = d @ [u]
         else u = [] \<and> (\<forall>t k b. ps_pending st = Some (t, k, b) \<longrightarrow> b) \<and> glue (out @ pend (ps_pending st)) = d))"

lemma represents_start: "represents [] piece_start ([], [], False)"
  by (simp add: represents_def piece_start_def glue_def pend_def)

lemma joined_grow:
  assumes "represents out st (d, u, cr)" "s \<noteq> []"
  shows "joined (ps_continued st) (glue (out @ pend (ps_pending st))) (map fst (lines_of (ps_carry st @ s))) =
      d @ map fst (lines_of (u @ s))"
proof (cases "ps_continued st")
  case True
  then have "glue (out @ pend (ps_pending st)) = d @ [u]" "unbroken u" "ps_carry st = []"
    using assms(1) by (auto simp: represents_def split: if_splits)
  then show ?thesis using True lines_of_grow [of u s] assms(2)
    by (simp add: joined_def hd_map map_tl)
next
  case False
  then have "glue (out @ pend (ps_pending st)) = d \<and> u = ps_carry st"
    using assms(1) by (auto simp: represents_def pend_def split: if_splits)
  then show ?thesis using False by (simp add: joined_def)
qed

lemma lines_state_open:
  assumes "s \<noteq> []" "snd (last (lines_of (u @ s))) = []" "unbroken u"
  shows "\<exists>ts v. map fst (lines_of (u @ s)) = ts @ [v] \<and> v \<noteq> [] \<and> unbroken v \<and>
    lines_state d (lines_of (u @ s)) (s \<noteq> [] \<and> last s = 13) = (d @ ts, v, False)"
proof -
  let ?l = "lines_of (u @ s)"
  have ne: "?l \<noteq> []" using assms(1) by simp
  have l: "fst (last ?l) \<noteq> []" "\<not> line_break (last s)" using lines_last_open [OF ne assms(2)] assms(1) by auto
  have "(fst (last ?l), snd (last ?l)) \<in> set ?l" using ne by simp
  then have "unbroken (fst (last ?l))" by (rule lines_unbroken)
  moreover have "map fst ?l = map fst (butlast ?l) @ [fst (last ?l)]" using ne by (cases ?l rule: rev_cases) auto
  moreover have "last s \<noteq> 13" using l(2) by (auto simp: line_break_def)
  ultimately show ?thesis using l(1) ne assms(2) by (auto simp: lines_state_def)
qed

lemma last_end_grow:
  assumes "represents out st (d, u, cr)" "s \<noteq> []"
  shows "snd (last (lines_of (ps_carry st @ s))) = snd (last (lines_of (u @ s)))"
proof (cases "ps_carry st = [] \<and> u \<noteq> []")
  case True
  have "unbroken u" using assms(1) by (auto simp: represents_def)
  then show ?thesis using True assms(2) lines_of_grow [of u s]
    by (cases "lines_of s") auto
next
  case False
  then have "u = ps_carry st" using assms(1) by (auto simp: represents_def split: if_splits)
  then show ?thesis by simp
qed

lemma add_chunk_run:
  assumes "represents out st (d, u, cr)" "chunk \<noteq> []" "\<not> (cr \<and> take 1 chunk = [10])" "add_chunk chunk st = (out', st')"
  shows "represents (out @ out') st' (foldl line_step (d, u, cr) chunk)"
proof -
  let ?L = "lines_of (ps_carry st @ chunk)" and ?U = "lines_of (u @ chunk)"
  have ub: "unbroken u" and cr: "cr = ps_after_cr st" using assms(1) by (auto simp: represents_def)
  have run: "foldl line_step (d, u, cr) chunk = lines_state d ?U (chunk \<noteq> [] \<and> last chunk = 13)"
    using run_lines [OF ub, of d chunk] line_step_cr [of chunk d u] assms(2,3) by (cases chunk; cases cr) auto
  obtain o1 p k where a: "add_lines ?L (ps_pending st) (ps_continued st) = (o1, p, k)"
    by (cases "add_lines ?L (ps_pending st) (ps_continued st)")
  from add_lines_glue [OF _ lines_ends a, of out] assms(2) joined_grow [OF assms(1,2)]
  obtain t c where g: "glue (out @ o1 @ pend p) = d @ map fst ?U" "k = (snd (last ?U) = [])"
      "p = Some (t, c, snd (last ?U) \<noteq> [])"
    unfolding last_end_grow [OF assms(1,2)] by auto
  have st': "out' = o1" "ps_after_cr st' = (last chunk = 13)"
    using assms(2-4) a cr g(3) by (auto simp: add_chunk_def Let_def split: if_splits bool.splits)
  show ?thesis
  proof (cases "snd (last ?U) = []")
    case False
    then have "st' = \<lparr>ps_pending = p, ps_continued = False, ps_after_cr = (last chunk = 13), ps_carry = []\<rparr>"
      using assms(2-4) a cr g by (auto simp: add_chunk_def Let_def split: bool.splits)
    moreover have "lines_state d ?U (chunk \<noteq> [] \<and> last chunk = 13) = (d @ map fst ?U, [], last chunk = 13)"
      using False assms(2) by (simp add: lines_state_def)
    ultimately show ?thesis using run g False st' by (simp add: represents_def)
  next
    case True
    from lines_state_open [OF assms(2) True ub, of d] obtain ts v where
      v: "map fst ?U = ts @ [v]" "v \<noteq> []" "unbroken v" "foldl line_step (d, u, cr) chunk = (d @ ts, v, False)"
      using run by auto
    have lc: "\<not> line_break (last chunk)" using lines_last_open [of "u @ chunk"] True assms(2) by simp
    show ?thesis
    proof (cases "\<not> c \<and> length t < WHOLE_LINE_START")
      case carry: True
      then have "st' = \<lparr>ps_pending = None, ps_continued = False, ps_after_cr = (last chunk = 13), ps_carry = t\<rparr>"
        using assms(2-4) a cr g True by (auto simp: add_chunk_def Let_def)
      moreover have "glue (out @ o1) = d @ ts" "t = v"
        using g(1,3) carry v(1) glue_snoc [of "out @ o1" "(t, False, False)"] True
        by (auto simp: pend_def glue1_def)
      ultimately show ?thesis using v st' lc by (auto simp: represents_def line_break_def)
    next
      case keep: False
      then have "st' = \<lparr>ps_pending = p, ps_continued = True, ps_after_cr = (last chunk = 13), ps_carry = []\<rparr>"
        using assms(2-4) a cr g True by (auto simp: add_chunk_def Let_def split: bool.splits)
      then show ?thesis using g v True st' lc by (auto simp: represents_def line_break_def)
    qed
  qed
qed

lemma add_chunk_lf:
  assumes "represents out st (d, u, True)" "chunk = 10 # rest" "add_chunk chunk st = (out', st')"
  shows "represents (out @ out') st' (foldl line_step (d, u, True) chunk)"
proof -
  let ?st = "st\<lparr>ps_after_cr := False\<rparr>"
  have st: "ps_after_cr st" "u = []" "ps_carry st = []" "\<not> ps_continued st"
    using assms(1) by (auto simp: represents_def split: if_splits)
  have r: "represents out ?st (d, u, False)" using assms(1) st by (auto simp: represents_def)
  have fold: "foldl line_step (d, u, True) chunk = foldl line_step (d, u, False) rest" using assms(2) by simp
  have eq: "add_chunk chunk st = add_chunk rest ?st" using assms(2) st(1) by (simp add: add_chunk_def)
  show ?thesis
  proof (cases "rest = []")
    case True
    have "out' = [] \<and> st' = st\<lparr>ps_after_cr := False\<rparr>"
      using assms(3) eq True st r
      by (cases "ps_pending st") (auto simp: add_chunk_def represents_def split: bool.splits)
    then show ?thesis using r True fold by simp
  next
    case False
    then show ?thesis using add_chunk_run [OF r False] assms(3) eq fold by simp
  qed
qed

lemma add_chunk_represents:
  assumes "represents out st ls" "chunk \<noteq> []" "add_chunk chunk st = (out', st')"
  shows "represents (out @ out') st' (foldl line_step ls chunk)"
proof -
  obtain d u cr where ls: "ls = (d, u, cr)" by (cases ls)
  show ?thesis
  proof (cases "cr \<and> take 1 chunk = [10]")
    case True
    then obtain rest where "chunk = 10 # rest" by (cases chunk) auto
    then show ?thesis using add_chunk_lf [of out st d u] assms(1,3) True ls by simp
  next
    case False
    then show ?thesis using add_chunk_run [OF assms(1) [unfolded ls] assms(2) _ assms(3)] ls by simp
  qed
qed

lemma line_pieces_run:
  "represents out st ls \<Longrightarrow> [] \<notin> set chunks \<Longrightarrow>
     glue (out @ line_pieces_from chunks st) = open_line (foldl line_step ls (concat chunks))"
proof (induction chunks arbitrary: out st ls)
  case Nil
  obtain d u cr where ls: "ls = (d, u, cr)" by (cases ls)
  have g: "glue (out @ [(t, k, w)]) = glue (out @ [(t, k, w')])" for t k w w' by (simp add: glue_snoc glue1_def)
  show ?case
  proof (cases "ps_carry st = []")
    case True
    then show ?thesis using Nil.prems(1) ls g
      by (cases "ps_pending st") (auto simp: represents_def pend_def glue_snoc glue1_def split: if_splits)
  next
    case False
    then show ?thesis using Nil.prems(1) ls by (simp add: represents_def glue_snoc glue1_def)
  qed
next
  case (Cons chunk chunks)
  obtain o1 st' where a: "add_chunk chunk st = (o1, st')" by (cases "add_chunk chunk st")
  have "represents (out @ o1) st' (foldl line_step ls chunk)"
    using add_chunk_represents [OF Cons.prems(1) _ a] Cons.prems(2) by auto
  from Cons.IH [OF this] Cons.prems(2) show ?case by (simp add: a)
qed

text \<open>A piece that opens a line without ending it is at least \<open>_WHOLE_LINE_START\<close> characters long.\<close>

definition long_start :: "piece \<Rightarrow> bool" where
  "long_start p = (case p of (t, k, w) \<Rightarrow> k \<or> w \<or> WHOLE_LINE_START \<le> length t)"

lemma add_lines_starts:
  "add_lines ls p k = (out, p', k') \<Longrightarrow> list_all (\<lambda>l. snd l \<noteq> []) (butlast ls) \<Longrightarrow>
     list_all long_start (pend p) \<Longrightarrow> list_all long_start out \<and> (ls = [] \<longrightarrow> p' = p)"
proof (induction ls p k arbitrary: out p' k' rule: add_lines.induct)
  case (2 tx ending ls p k)
  obtain o1 p1 k1 where r: "add_lines ls (Some (tx, k, ending \<noteq> [])) (\<not> ending \<noteq> []) = (o1, p1, k1)"
    by (cases "add_lines ls (Some (tx, k, ending \<noteq> [])) (\<not> ending \<noteq> [])")
  have "list_all long_start o1"
  proof (cases "ls = []")
    case True
    then show ?thesis using r by simp
  next
    case False
    then have e: "ending \<noteq> []" "list_all (\<lambda>l. snd l \<noteq> []) (butlast ls)" using 2(3) by auto
    then have "list_all long_start (pend (Some (tx, k, ending \<noteq> [])))" by (simp add: long_start_def pend_def)
    with 2(1) [OF refl r e(2)] show ?thesis by blast
  qed
  then show ?case using 2(2,4) r by (auto simp: Let_def pend_def split: option.splits)
qed simp

lemma add_chunk_starts:
  assumes "add_chunk chunk st = (out, st')" "list_all long_start (pend (ps_pending st))"
  shows "list_all long_start out \<and> list_all long_start (pend (ps_pending st'))"
proof -
  define x where "x = lines_of (ps_carry st @ (if ps_after_cr st \<and> take 1 chunk = [10] then tl chunk else chunk))"
  obtain o1 p k where a: "add_lines x (ps_pending st) (ps_continued st) = (o1, p, k)"
    by (cases "add_lines x (ps_pending st) (ps_continued st)")
  have "list_all long_start o1"
    using add_lines_starts [OF a] lines_ends assms(2) by (simp add: x_def)
  then show ?thesis using assms(1) a
    by (auto simp: add_chunk_def x_def Let_def long_start_def pend_def split: if_splits option.splits bool.splits)
qed

lemma line_pieces_starts:
  "list_all long_start (pend (ps_pending st)) \<Longrightarrow> list_all long_start (line_pieces_from chunks st)"
proof (induction chunks arbitrary: st)
  case Nil
  then show ?case by (auto simp: long_start_def split: option.splits)
next
  case (Cons chunk chunks)
  obtain o1 st' where a: "add_chunk chunk st = (o1, st')" by (cases "add_chunk chunk st")
  show ?case using add_chunk_starts [OF a Cons.prems] Cons.IH [of st'] by (simp add: a)
qed

text \<open>
  C28: How a vCard text is cut into chunks does not matter. For every way of reading it in non-empty
  chunks, also when a chunk ends inside a line or between a carriage return and its line feed, the pieces
  spell out exactly \<open>splitlines\<close> of the whole text; and a piece that opens a line it does not end is at
  least 256 characters long, so markers and property names are never cut.
\<close>

theorem line_pieces_lines:
  assumes "[] \<notin> set chunks"
  shows "glue (line_pieces chunks) = splitlines (concat chunks) \<and> list_all long_start (line_pieces chunks)"
  using line_pieces_run [OF represents_start assms] line_pieces_starts [of piece_start chunks]
  by (simp add: line_pieces_def splitlines_run piece_start_def pend_def)

lemma line_pieces_lines_witness:
  "glue (line_pieces [[97, 13], [10, 98], [99]]) = [[97], [98, 99]]"
proof -
  have "splitlines [97, 13, 10, 98, 99] = [[97], [98, 99]]"
    using lines_of_crlf [of "[97]" "[98, 99]"] lines_of_last [of "[98, 99]"]
    by (simp add: splitlines_def unbroken_def line_break_def)
  then show ?thesis using line_pieces_lines [of "[[97, 13], [10, 98], [99]]"] by simp
qed

section \<open>Budgets\<close>

text \<open>
  What a card keeps at all times: the lines it has closed fit its budget, the parts of the open property
  are counted, and a photo is only kept below the photo budget. \<open>card_pre\<close> holds inside \<open>add_text\<close> too,
  before the size of a retained photo is checked.
\<close>

definition chars :: "pystr list \<Rightarrow> int" where
  "chars ls = int (sum_list (map length ls))"

lemma chars_simps [simp]:
  "chars [] = 0" "chars (x # xs) = int (length x) + chars xs" "chars (xs @ ys) = chars xs + chars ys"
  "chars (rev xs) = chars xs"
  by (simp_all add: chars_def sum_list_rev flip: rev_map)

lemma chars_nonneg: "0 \<le> chars xs"
  by (simp add: chars_def)

lemma chars_concat: "chars xs = int (length (concat xs))"
  by (simp add: chars_def length_concat)

definition card_pre :: "nat \<Rightarrow> nat \<Rightarrow> card \<Rightarrow> bool" where
  "card_pre L P c \<longleftrightarrow> c_limit c = L \<and> c_photo_limit c = P \<and>
     chars (c_lines c) + int (length (c_lines c)) \<le> c_size c \<and> c_size c \<le> int L \<and>
     1 + chars (c_parts c) \<le> c_property_size c \<and>
     (case c_photo c of None \<Rightarrow> True | Some p \<Rightarrow> length p < P)"

definition card_ok :: "nat \<Rightarrow> nat \<Rightarrow> card \<Rightarrow> bool" where
  "card_ok L P c \<longleftrightarrow> card_pre L P c \<and> (c_retaining c \<longrightarrow> c_property_size c \<le> int P)"

lemma measure_photo_frame:
  "\<exists>v w x. measure_photo tx c = c\<lparr>c_photo_prefix := x, c_photo_value_chars := v, c_photo_padding_chars := w\<rparr>"
proof -
  have c: "\<exists>v w x. count_photo d c = c\<lparr>c_photo_prefix := x, c_photo_value_chars := v, c_photo_padding_chars := w\<rparr>" for d
    unfolding count_photo_def by blast
  have p: "\<exists>v w x. c\<lparr>c_photo_prefix := y\<rparr> = c\<lparr>c_photo_prefix := x, c_photo_value_chars := v, c_photo_padding_chars := w\<rparr>" for y
    by (intro exI [of _ "c_photo_value_chars c"] exI [of _ "c_photo_padding_chars c"] exI [of _ y]) simp
  show ?thesis unfolding measure_photo_def Let_def
    by (simp only: c p split: option.split if_split prod.split) simp
qed

lemma measure_photo_keeps [simp]:
  "card_pre L P (measure_photo tx c) = card_pre L P c"
  "c_retaining (measure_photo tx c) = c_retaining c" "c_property_size (measure_photo tx c) = c_property_size c"
  using measure_photo_frame [of tx c] by (auto simp: card_pre_def)

lemma decide_pre: "card_pre L P c \<Longrightarrow> card_pre L P (decide uc h c)"
  using chars_nonneg [of "c_parts c"] by (auto simp: decide_def Let_def card_pre_def)

lemma read_head_pre: "card_pre L P c \<Longrightarrow> card_pre L P (read_head uc tx c)"
proof -
  assume c: "card_pre L P c"
  have "card_pre L P (c\<lparr>c_quoted := q\<rparr>)" "card_pre L P (c\<lparr>c_quoted := q, c_head := h\<rparr>)"
    "card_pre L P (c\<lparr>c_quoted := q, c_head := h, c_decided := True\<rparr>)" for q h
    using c by (simp_all add: card_pre_def)
  then show ?thesis by (auto simp: read_head_def Let_def decide_pre split: prod.split option.split)
qed

lemma check_budget_pre: "card_pre L P c \<Longrightarrow> card_pre L P (check_budget c)"
  using chars_nonneg [of "c_parts c"] chars_nonneg [of "c_lines c"] by (auto simp: check_budget_def card_pre_def)

lemma add_text_ok:
  assumes "card_pre L P c" "c_skipped c \<and> \<not> c_retaining c \<longrightarrow> card_ok L P c"
  shows "card_ok L P (add_text uc tx c)"
proof (cases "c_skipped c \<and> \<not> c_retaining c")
  case True
  then show ?thesis using assms by (auto simp: add_text_def card_ok_def)
next
  case False
  define c1 where "c1 = (if tx \<noteq> [] then c\<lparr>c_parts := c_parts c @ [tx], c_property_size := c_property_size c + int (length tx)\<rparr> else c)"
  define c2 where "c2 = (if \<not> c_decided c1 then read_head uc tx c1 else if c_measuring_photo c1 then measure_photo tx c1 else c1)"
  have "card_pre L P c1" using assms(1) by (auto simp: c1_def card_pre_def)
  then have c2: "card_pre L P c2" by (auto simp: c2_def read_head_pre)
  have eq: "add_text uc tx c = (if c_retaining c2 then
             if int (c_photo_limit c2) < c_property_size c2
             then c2\<lparr>c_retaining := False, c_photo_oversized := True, c_parts := []\<rparr> else c2
           else if c_decided c2 \<and> \<not> c_skipped c2 then check_budget c2 else c2)"
    using False unfolding add_text_def Let_def c2_def c1_def by (simp only: if_False)
  have "c_retaining (check_budget c2) = c_retaining c2" by (simp add: check_budget_def)
  moreover have "card_pre L P (c2\<lparr>c_retaining := False, c_photo_oversized := True, c_parts := []\<rparr>)"
    using c2 chars_nonneg [of "c_parts c2"] by (simp add: card_pre_def)
  ultimately show ?thesis using c2 check_budget_pre [OF c2] unfolding eq by (auto simp: card_ok_def card_pre_def)
qed

lemma close_property_ok:
  assumes "card_ok L P c"
  shows "card_ok L P (close_property uc c)"
proof -
  define c1 where "c1 = (if c_retaining c \<and> \<not> c_overflowed c
    then c\<lparr>c_photo := Some (concat (c_parts c)), c_retaining := False, c_parts := []\<rparr> else c)"
  have c1: "card_ok L P c1"
    using assms chars_nonneg [of "c_parts c"] chars_concat [of "c_parts c"] by (auto simp: c1_def card_ok_def card_pre_def)
  define c2 where "c2 = check_budget (c1\<lparr>c_decided := True\<rparr>)"
  have ret: "c_retaining c2 = c_retaining c1" "c_property_size c2 = c_property_size c1"
    by (simp_all add: c2_def check_budget_def)
  have c2: "card_ok L P c2" using check_budget_pre [of L P "c1\<lparr>c_decided := True\<rparr>"] c1 ret
    by (simp add: card_ok_def card_pre_def c2_def)
  define c3 where "c3 = c2\<lparr>c_lines := c_lines c2 @ [concat (c_parts c2)], c_size := c_size c2 + c_property_size c2\<rparr>"
  have c3: "card_ok L P (c3\<lparr>c_parts := []\<rparr>)" if "\<not> c_overflowed c2"
  proof -
    have "c_size c2 + c_property_size c2 \<le> int L"
      using that c1 by (auto simp: c2_def check_budget_def card_ok_def card_pre_def split: if_splits)
    then show ?thesis using c2 chars_nonneg [of "c_parts c2"] chars_concat [of "c_parts c2"] by (auto simp: c3_def card_ok_def card_pre_def)
  qed
  have v: "card_ok L P (c3\<lparr>c_version21 := b, c_parts := []\<rparr>) = card_ok L P (c3\<lparr>c_parts := []\<rparr>)" for b by (simp add: card_ok_def card_pre_def)
  have eq: "close_property uc c = c1 \<or> close_property uc c = c2 \<or>
      \<not> c_overflowed c2 \<and> (close_property uc c = c3\<lparr>c_parts := []\<rparr> \<or>
        (\<exists>b. close_property uc c = c3\<lparr>c_version21 := b, c_parts := []\<rparr>))"
    unfolding close_property_def Let_def c1_def [symmetric] c2_def [symmetric] c3_def
    by (simp split: prod.split) blast
  then show ?thesis using c1 c2 c3 v by auto
qed

lemma drop_blank_parts_size:
  "drop_blank_parts ps n = (qs, k) \<Longrightarrow> k - chars qs = n - chars ps \<and> k \<le> n"
proof (induction ps n arbitrary: qs k rule: drop_blank_parts.induct)
  case (2 p ps n)
  show ?case
  proof (cases "py_rstrip p = []")
    case True
    with 2(1) [OF True, of qs k] 2(2) show ?thesis by auto
  next
    case False
    with 2(2) show ?thesis by auto
  qed
qed simp

lemma drop_soft_break_pre:
  assumes "card_pre L P c"
  shows "card_pre L P (drop_soft_break c)"
proof -
  obtain qs k where d: "drop_blank_parts (rev (c_parts c)) (c_property_size c) = (qs, k)" by fastforce
  have k: "k - chars qs = c_property_size c - chars (c_parts c)" using drop_blank_parts_size [OF d] by simp
  show ?thesis
  proof (cases qs)
    case Nil
    then show ?thesis using assms k d by (auto simp: drop_soft_break_def card_pre_def)
  next
    case (Cons p ps)
    then show ?thesis using assms k d by (auto simp: drop_soft_break_def card_pre_def Let_def)
  qed
qed

lemma note_line_end_keeps [simp]:
  "card_ok L P (note_line_end tx c) = card_ok L P c"
  by (simp add: note_line_end_def Let_def card_ok_def card_pre_def)

lemma drop_soft_break_flags [simp]:
  "c_skipped (drop_soft_break c) = c_skipped c" "c_retaining (drop_soft_break c) = c_retaining c"
  by (auto simp: drop_soft_break_def Let_def split: prod.split list.split)

text \<open>One more character for the fold, then the text.\<close>

lemma add_folded_ok:
  assumes "card_pre L P c"
  shows "card_ok L P (add_text uc tx (c\<lparr>c_property_size := c_property_size c + 1\<rparr>))"
  by (rule add_text_ok) (use assms in \<open>auto simp: card_pre_def card_ok_def\<close>)

lemma start_line_ok:
  assumes "card_ok L P c"
  shows "card_ok L P (start_line uc tx c)"
proof (cases "c_overflowed c")
  case True
  then show ?thesis using assms by (simp add: start_line_def)
next
  case False
  have pre: "card_pre L P c" "card_pre L P (c\<lparr>c_base64_open := b\<rparr>)" for b using assms by (auto simp: card_ok_def card_pre_def)
  have "card_ok L P (reset_property True (close_property uc c))"
    using close_property_ok [OF assms, of uc] by (simp add: reset_property_def card_ok_def card_pre_def)
  then have r: "card_ok L P (add_text uc tx (reset_property True (close_property uc c)))"
    by (intro add_text_ok) (auto simp: card_ok_def)
  have s: "card_ok L P (x\<lparr>c_soft_break := False\<rparr>) = card_ok L P x" for x by (simp add: card_ok_def card_pre_def)
  show ?thesis
    using False r add_folded_ok [OF pre(1)] add_folded_ok [OF pre(2)] add_folded_ok [OF drop_soft_break_pre [OF pre(1)]]
    unfolding start_line_def Let_def by (simp add: s)
qed

lemma add_piece_ok: "card_ok L P c \<Longrightarrow> card_ok L P (add_piece uc tx c)"
  unfolding add_piece_def by (auto intro: add_text_ok simp: card_ok_def [THEN iffD1, THEN conjunct1])

lemma new_card_ok: "card_ok L P (new_card L P)"
  by (simp add: new_card_def reset_property_def card_ok_def card_pre_def)

definition yielded_ok :: "nat \<Rightarrow> nat \<Rightarrow> yielded \<Rightarrow> bool" where
  "yielded_ok L P y \<longleftrightarrow> length (y_body y) \<le> L \<and> (case y_photo y of None \<Rightarrow> True | Some p \<Rightarrow> length p < P)"

lemma finish_card_ok:
  assumes "card_ok L P c" "finish_card uc c = (c', Some body)"
  shows "length body \<le> L \<and> (case c_photo c' of None \<Rightarrow> True | Some p \<Rightarrow> length p < P)"
proof -
  have b: "c' = close_property uc c" "body = py_join [10] (c_lines c')"
    using assms(2) by (auto simp: finish_card_def Let_def split: if_splits)
  have j: "int (length (py_join [10] ls)) \<le> chars ls + int (length ls)" for ls
    by (induction "[10 :: nat]" ls rule: py_join.induct) (auto simp: chars_def)
  have "card_ok L P c'" using close_property_ok [OF assms(1)] b by simp
  with j [of "c_lines c'"] show ?thesis unfolding b(2) by (auto simp: card_ok_def card_pre_def)
qed

lemma cards_loop_ok:
  "case cur of None \<Rightarrow> True | Some c \<Rightarrow> card_ok L P c \<Longrightarrow>
     list_all (yielded_ok L P) (cards_loop uc mx L P n cur ps) \<and>
     length (cards_loop uc mx L P n cur ps) \<le> max 1 (mx - n)"
proof (induction uc mx L P n cur ps rule: cards_loop.induct)
  case (2 uc mx L P n cur line continued whole ps)
  let ?m = "line_marker uc cur line whole"
  have step: "case map_option f cur of None \<Rightarrow> True | Some c \<Rightarrow> card_ok L P c"
    if "\<And>c. card_ok L P c \<Longrightarrow> card_ok L P (f c)" for f
    using 2(7) that by (cases cur) auto
  consider "continued" | "\<not> continued" "?m = lit ''begin:vcard''"
    | "\<not> continued" "?m \<noteq> lit ''begin:vcard''" "?m \<noteq> lit ''end:vcard''"
    | "\<not> continued" "?m \<noteq> lit ''begin:vcard''" "?m = lit ''end:vcard''" by blast
  then show ?case
  proof cases
    case 1
    then show ?thesis using 2(1) [OF 1 step [OF add_piece_ok]] by simp
  next
    case b: 2
    then show ?thesis using 2(2) [OF b(1) refl b(2)] new_card_ok [of L P] by (simp add: Let_def)
  next
    case 3
    then show ?thesis using 2(6) [OF 3(1) refl 3(2,3) step [OF start_line_ok]] by (simp add: Let_def)
  next
    case 4
    show ?thesis
    proof (cases cur)
      case None
      then show ?thesis using 4 2(3) [OF 4(1) refl 4(2,3) None] by (simp add: Let_def)
    next
      case (Some c)
      obtain c' b where f: "finish_card uc c = (c', b)" by fastforce
      show ?thesis
      proof (cases b)
        case None
        then show ?thesis using 4 f Some 2(4) [OF 4(1) refl 4(2,3) Some f [symmetric] None] by (simp add: Let_def)
      next
        case (Some body)
        have ok: "length body \<le> L \<and> (case c_photo c' of None \<Rightarrow> True | Some p \<Rightarrow> length p < P)"
          using finish_card_ok [of L P c uc c' body] f Some \<open>cur = Some c\<close> 2(7) by simp
        show ?thesis
          using 4 f Some \<open>cur = Some c\<close> ok 2(5) [OF 4(1) refl 4(2,3) \<open>cur = Some c\<close> f [symmetric] Some]
          by (auto simp: Let_def yielded_ok_def)
      qed
    qed
  qed
qed simp


section \<open>Photos do not change bodies\<close>

text \<open>
  A card read with a photo budget and one read without differ only in the photo fields, and in the parts of
  a property that is skipped anyway.
\<close>

definition same_card :: "card \<Rightarrow> card \<Rightarrow> bool" where
  "same_card c d \<longleftrightarrow>
     c_limit d = c_limit c \<and> c_lines d = c_lines c \<and> c_size d = c_size c \<and> c_overflowed d = c_overflowed c \<and>
     c_version21 d = c_version21 c \<and> c_present d = c_present c \<and> c_decided d = c_decided c \<and>
     c_skipped d = c_skipped c \<and> c_head d = c_head c \<and> c_quoted d = c_quoted c \<and> c_encoding d = c_encoding c \<and>
     c_base64_open d = c_base64_open c \<and> c_soft_break d = c_soft_break c \<and>
     (\<not> c_skipped c \<longrightarrow> c_parts d = c_parts c \<and> c_property_size d = c_property_size c) \<and>
     c_photo_limit d = 0 \<and> \<not> c_retaining d \<and> \<not> c_measuring_photo d \<and>
     (c_retaining c \<or> c_measuring_photo c \<longrightarrow> c_skipped c) \<and> (c_skipped c \<longrightarrow> c_decided c)"

lemma same_card_measure: "same_card (measure_photo tx c) d = same_card c d"
proof -
  obtain v w x where "measure_photo tx c = c\<lparr>c_photo_prefix := x, c_photo_value_chars := v, c_photo_padding_chars := w\<rparr>"
    using measure_photo_frame by blast
  then show ?thesis by (simp add: same_card_def)
qed

lemma same_card_decide:
  "same_card c d \<Longrightarrow> \<not> c_decided c \<Longrightarrow> same_card (decide uc h c) (decide uc h d) \<and> \<not> c_measuring_photo (decide uc h d)"
proof -
  assume a: "same_card c d" "\<not> c_decided c"
  define head where "head = (\<lambda>(x :: card) e. x\<lparr>c_decided := True, c_head := [], c_encoding := e, c_base64_open := (e \<inter> BASE64_PARAMETERS \<noteq> {})\<rparr>)"
  have "same_card (head c e) (head d e)"
    "same_card (head c e\<lparr>c_skipped := True, c_parts := []\<rparr>) (head d e\<lparr>c_skipped := True, c_parts := []\<rparr>)"
    "same_card (head c e\<lparr>c_skipped := True, c_photo_seen := True, c_retaining := True, c_measuring_photo := True\<rparr>)
       (head d e\<lparr>c_skipped := True, c_parts := []\<rparr>)"
    "c_photo_limit (head d e) = 0" "\<not> c_measuring_photo (head d e)" for e
    using a by (auto simp: same_card_def head_def)
  moreover define sel where "sel = py_upper uc (last (split_on 46 (py_strip (hd (split_unquoted 59 False h)))))"
  define E where "E = set (map (\<lambda>p. py_upper uc (py_strip p)) (tl (split_unquoted 59 False h)))"
  have "decide uc h x = (if sel \<in> SKIPPED_PROPERTIES then
       if sel = lit ''PHOTO'' \<and> 0 < c_photo_limit x \<and> \<not> c_photo_seen x
       then head x E\<lparr>c_skipped := True, c_photo_seen := True, c_retaining := True, c_measuring_photo := True\<rparr>
       else head x E\<lparr>c_skipped := True, c_parts := []\<rparr> else head x E)" for x
    unfolding decide_def Let_def sel_def E_def head_def by simp
  moreover have "c_photo_limit d = 0" using a(1) by (simp add: same_card_def)
  ultimately show ?thesis by simp
qed

lemma same_card_head:
  assumes "same_card c d" "\<not> c_decided c"
  shows "same_card (read_head uc tx c) (read_head uc tx d)"
proof -
  have q: "same_card (c\<lparr>c_quoted := b\<rparr>) (d\<lparr>c_quoted := b\<rparr>)" for b using assms by (auto simp: same_card_def)
  have e: "c_head d = c_head c" "c_quoted d = c_quoted c" "c_property_size d = c_property_size c" "\<not> c_skipped c"
    using assms by (auto simp: same_card_def)
  obtain b f where s: "scan_head (c_quoted c) (take (MAX_HEAD_CHARS - length (c_head c)) tx) = (b, f)" by fastforce
  show ?thesis
  proof (cases f)
    case None
    then show ?thesis using assms e s by (auto simp: read_head_def Let_def same_card_def)
  next
    case (Some i)
    then show ?thesis
      using same_card_decide [OF q, of b uc] assms(2) e s by (auto simp: read_head_def Let_def same_card_measure)
  qed
qed

lemma same_card_text:
  assumes "same_card c d"
  shows "same_card (add_text uc tx c) (add_text uc tx d)"
proof (cases "c_skipped c")
  case True
  then have d: "add_text uc tx d = d" using assms by (simp add: add_text_def same_card_def)
  define grow where "grow = (if tx \<noteq> [] then c\<lparr>c_parts := c_parts c @ [tx], c_property_size := c_property_size c + int (length tx)\<rparr> else c)"
  have grow: "same_card grow d" "c_skipped grow" "c_decided grow" using assms True by (simp_all add: grow_def same_card_def)
  define fed where "fed = (if c_measuring_photo grow then measure_photo tx grow else grow)"
  have "c_skipped (measure_photo tx grow)" using measure_photo_frame [of tx grow] grow(2) by auto
  then have n: "same_card fed d" "c_skipped fed" using grow by (simp_all add: fed_def same_card_measure)
  have "add_text uc tx c = (if \<not> c_retaining c then if c_measuring_photo c then measure_photo tx c else c
      else if c_retaining fed then if int (c_photo_limit fed) < c_property_size fed
        then fed\<lparr>c_retaining := False, c_photo_oversized := True, c_parts := []\<rparr> else fed else fed)"
    using True n(2) grow(3) unfolding add_text_def Let_def grow_def [symmetric] fed_def [symmetric] by simp
  moreover have "same_card (fed\<lparr>c_retaining := False, c_photo_oversized := True, c_parts := []\<rparr>) d"
    using n by (simp add: same_card_def)
  ultimately show ?thesis unfolding d using assms n by (simp add: same_card_measure)
next
  case False
  define grow where "grow = (\<lambda>x :: card. if tx \<noteq> [] then x\<lparr>c_parts := c_parts x @ [tx], c_property_size := c_property_size x + int (length tx)\<rparr> else x)"
  have g: "same_card (grow c) (grow d)" "c_decided (grow c) = c_decided c" "c_measuring_photo (grow c) = c_measuring_photo c"
      "c_measuring_photo (grow d) = False" "c_decided (grow d) = c_decided c"
    using assms False by (auto simp: same_card_def grow_def)
  define h where "h = (\<lambda>x :: card. if \<not> c_decided x then read_head uc tx x else if c_measuring_photo x then measure_photo tx x else x)"
  have h: "same_card (h (grow c)) (h (grow d))"
    using same_card_head [OF g(1), of uc tx] g same_card_measure by (auto simp: h_def)
  define fin where "fin = (\<lambda>x :: card. if c_retaining x then
             if int (c_photo_limit x) < c_property_size x
             then x\<lparr>c_retaining := False, c_photo_oversized := True, c_parts := []\<rparr> else x
           else if c_decided x \<and> \<not> c_skipped x then check_budget x else x)"
  have f: "same_card (fin x) (fin y)" if "same_card x y" for x y
    using that by (auto simp: fin_def check_budget_def same_card_def)
  have "add_text uc tx x = fin (h (grow x))" if "\<not> c_skipped x" for x
    using that unfolding add_text_def Let_def fin_def h_def grow_def by simp
  then show ?thesis using f [OF h] False assms by (simp add: same_card_def [of c d])
qed

lemma same_card_close:
  assumes "same_card c d"
  shows "same_card (close_property uc c) (close_property uc d)"
proof (cases "c_skipped c \<or> \<not> c_present c \<or> c_overflowed c")
  case True
  then show ?thesis using assms by (auto simp: close_property_def same_card_def)
next
  case False
  then have e: "\<not> c_retaining c" "\<not> c_retaining d" "c_parts d = c_parts c" "c_lines d = c_lines c"
      "c_property_size d = c_property_size c" "c_size d = c_size c"
    using assms by (auto simp: same_card_def)
  have b: "same_card (check_budget (c\<lparr>c_decided := True\<rparr>)) (check_budget (d\<lparr>c_decided := True\<rparr>))"
    using assms False by (auto simp: check_budget_def same_card_def)
  show ?thesis using b e False assms
    by (auto simp: close_property_def Let_def same_card_def check_budget_def split: prod.split)
qed

lemma same_card_soft: "same_card c d \<Longrightarrow> same_card (drop_soft_break c) (drop_soft_break d)"
  by (cases "c_skipped c")
    (auto simp: drop_soft_break_def Let_def same_card_def split: prod.split list.split)

lemma same_card_updates:
  assumes "same_card c d"
  shows "same_card (c\<lparr>c_property_size := c_property_size c + 1\<rparr>) (d\<lparr>c_property_size := c_property_size d + 1\<rparr>)"
    and "same_card (c\<lparr>c_base64_open := b\<rparr>) (d\<lparr>c_base64_open := b\<rparr>)"
    and "same_card (note_line_end tx c) (note_line_end tx d)"
    and "same_card (c\<lparr>c_soft_break := b\<rparr>) (d\<lparr>c_soft_break := b\<rparr>)"
    and "same_card (reset_property b c) (reset_property b d)"
  using assms by (simp_all add: same_card_def note_line_end_def Let_def reset_property_def)

lemma same_card_if: "same_card x y \<Longrightarrow> same_card x' y' \<Longrightarrow> same_card (if p then x else x') (if p then y else y')"
  by simp

lemma same_card_line:
  assumes "same_card c d"
  shows "same_card (start_line uc tx c) (start_line uc tx d)"
proof -
  note up = same_card_updates
  have e: "c_overflowed d = c_overflowed c" "c_soft_break d = c_soft_break c" "c_encoding d = c_encoding c"
      "c_present d = c_present c" "c_version21 d = c_version21 c" "c_base64_open d = c_base64_open c"
    using assms by (simp_all add: same_card_def)
  have a: "same_card (add_text uc t (x\<lparr>c_property_size := c_property_size x + 1\<rparr>))
      (add_text uc t (y\<lparr>c_property_size := c_property_size y + 1\<rparr>))" if "same_card x y" for t x y
    using same_card_text [OF up(1) [OF that]] by blast
  have b: "same_card (add_text uc tx (reset_property True (close_property uc c))) (add_text uc tx (reset_property True (close_property uc d)))"
    by (intro same_card_text up(5) same_card_close assms)
  show ?thesis unfolding start_line_def Let_def e
    by (intro up(3,4) same_card_if a up(2) same_card_soft b assms)
qed

lemma same_card_piece: "same_card c d \<Longrightarrow> same_card (add_piece uc tx c) (add_piece uc tx d)"
  using same_card_updates(3) [OF same_card_text] by (auto simp: add_piece_def same_card_def [of c d])

lemma same_card_finish: "same_card c d \<Longrightarrow> snd (finish_card uc d) = snd (finish_card uc c)"
  using same_card_close [of c d uc] by (simp add: finish_card_def Let_def same_card_def [of "close_property uc c"])

lemma same_card_new: "same_card (new_card L P) (new_card L 0)"
  by (simp add: new_card_def reset_property_def same_card_def)

lemma cards_loop_bodies:
  "rel_option same_card cur cur' \<Longrightarrow>
     map y_body (cards_loop uc mx L P n cur ps) = map y_body (cards_loop uc mx L 0 n cur' ps)"
proof (induction uc mx L P n cur ps arbitrary: cur' rule: cards_loop.induct)
  case (2 uc mx L P n cur line continued whole ps)
  let ?m = "line_marker uc cur line whole"
  have m: "line_marker uc cur' line whole = ?m"
    using 2(7) by (cases cur; cases cur') (auto simp: line_marker_def same_card_def)
  consider "continued" | "\<not> continued" "?m = lit ''begin:vcard''"
    | "\<not> continued" "?m \<noteq> lit ''begin:vcard''" "?m \<noteq> lit ''end:vcard''"
    | "\<not> continued" "?m \<noteq> lit ''begin:vcard''" "?m = lit ''end:vcard''" by blast
  then show ?case
  proof cases
    case 1
    have "rel_option same_card (map_option (add_piece uc line) cur) (map_option (add_piece uc line) cur')"
      using 2(7) same_card_piece by (cases cur; cases cur') auto
    from 2(1) [OF 1 this] show ?thesis using 1 by simp
  next
    case b: 2
    show ?thesis using b m 2(2) [OF b(1) refl b(2), of "Some (new_card L 0)"] same_card_new [of L P] by (simp add: Let_def)
  next
    case 3
    have "rel_option same_card (map_option (start_line uc line) cur) (map_option (start_line uc line) cur')"
      using 2(7) same_card_line by (cases cur; cases cur') auto
    from 2(6) [OF 3(1) refl 3(2,3) this] show ?thesis using 3 m by (simp add: Let_def)
  next
    case 4
    show ?thesis
    proof (cases cur)
      case None
      then show ?thesis using 4 m 2(7) 2(3) [OF 4(1) refl 4(2,3) None, of None] by (auto simp: Let_def)
    next
      case (Some c)
      then obtain d where d: "cur' = Some d" "same_card c d" using 2(7) by (cases cur') auto
      obtain c' b where f: "finish_card uc c = (c', b)" by fastforce
      obtain d' where g: "finish_card uc d = (d', b)" using same_card_finish [OF d(2), of uc] f by (cases "finish_card uc d") auto
      show ?thesis
      proof (cases b)
        case None
        then show ?thesis using 4 m f g d(1) \<open>cur = Some c\<close> 2(4) [OF 4(1) refl 4(2,3) \<open>cur = Some c\<close> f [symmetric] None, of None]
          by (simp add: Let_def)
      next
        case (Some body)
        show ?thesis
          using 4 m f g d(1) Some \<open>cur = Some c\<close> 2(5) [OF 4(1) refl 4(2,3) \<open>cur = Some c\<close> f [symmetric] Some, of None]
          by (auto simp: Let_def)
      qed
    qed
  qed
qed simp

text \<open>
  Asking for photos does not change a single card: whatever the photo budget, \<open>iter_vcard_cards\<close> yields
  exactly the bodies that \<open>iter_vcard_bodies\<close> yields on the same input, in the same order, so a photo that
  is kept, dropped or cut never moves text into or out of a card.
\<close>

theorem photos_keep_bodies:
  "map y_body (iter_vcard_cards uc chunks maximum limit photo_limit) = iter_vcard_bodies uc chunks maximum limit"
  using cards_loop_bodies [where cur = None and cur' = None]
  by (simp add: iter_vcard_cards_def iter_vcard_bodies_def iter_cards_def)

end
