(* ===== verification/Recipients.thy ===== *)
theory Recipients
  imports Prelude
begin

text \<open>
  Message destinations (\<open>recipients.py\<close>): which texts are accepted as a phone number or an email address
  and what they are normalised to. The lemmas give the exact set of normalised addresses and show that
  normalisation is idempotent and that no address carries a character with a meaning in a vCard line.
  The confirmation tokens of the module (a join and a SHA-256 digest) are not modelled.
\<close>

section \<open>Characters\<close>

definition digit :: "nat \<Rightarrow> bool" where "digit c \<longleftrightarrow> 48 \<le> c \<and> c \<le> 57"

definition alnum :: "nat \<Rightarrow> bool" where
  "alnum c \<longleftrightarrow> digit c \<or> 65 \<le> c \<and> c \<le> 90 \<or> 97 \<le> c \<and> c \<le> 122"

definition phone_separator :: "nat \<Rightarrow> bool" where
  "phone_separator c \<longleftrightarrow> c \<in> set (lit '' ()-.'')"

definition email_local_char :: "nat \<Rightarrow> bool" where
  "email_local_char c \<longleftrightarrow> alnum c \<or> c \<in> {33, 35, 36, 37, 38, 39, 42, 43, 47, 61, 63, 94, 95, 96, 123, 124, 125, 126, 46, 45}"

definition ascii_lower :: "nat \<Rightarrow> nat" where
  "ascii_lower c = (if 65 \<le> c \<and> c \<le> 90 then c + 32 else c)"

section \<open>Normalisation\<close>

datatype recipient_error = Implausible_length | Not_an_address

text \<open>\<open>_PHONE_RE\<close>: an optional plus, a digit, then 2 to 29 digits or separators.\<close>

definition phone_re :: "pystr \<Rightarrow> bool" where
  "phone_re s =
     (case (if s \<noteq> [] \<and> hd s = 43 then tl s else s) of
        [] \<Rightarrow> False
      | d # rest \<Rightarrow> digit d \<and> 2 \<le> length rest \<and> length rest \<le> 29 \<and> list_all (\<lambda>c. digit c \<or> phone_separator c) rest)"

definition email_label_re :: "pystr \<Rightarrow> bool" where
  "email_label_re s \<longleftrightarrow> s \<noteq> [] \<and> length s \<le> 63 \<and> alnum (hd s) \<and> alnum (last s) \<and> list_all (\<lambda>c. alnum c \<or> c = 45) s"

text \<open>\<open>candidate.rsplit("@", 1)\<close> for a text with exactly one at sign.\<close>

definition normalize_email :: "pystr \<Rightarrow> pystr option" where
  "normalize_email candidate =
     (if 254 < length candidate \<or> count_list candidate 64 \<noteq> 1 then None
      else let local = takeWhile (\<lambda>c. c \<noteq> 64) candidate;
               domain = tl (dropWhile (\<lambda>c. c \<noteq> 64) candidate)
        in if local = [] \<or> 64 < length local \<or> domain = [] \<or> 253 < length domain then None
           else if py_startswith local [46] \<or> last local = 46 \<or> py_contains [46, 46] local \<or>
                   \<not> list_all email_local_char local then None
           else if \<exists>label \<in> set (split_on 46 domain). \<not> email_label_re label then None
           else Some (local @ [64] @ map ascii_lower domain))"

definition validate_recipient :: "pystr \<Rightarrow> recipient_error + pystr" where
  "validate_recipient recipient =
     (let candidate = py_strip recipient
      in if phone_re candidate then
           let digits = filter digit candidate
           in if \<not> (3 \<le> length digits \<and> length digits \<le> 20) then Inl Implausible_length
              else Inr ((if py_startswith candidate [43] then [43] else []) @ digits)
         else case normalize_email candidate of
           Some email \<Rightarrow> Inr email
         | None \<Rightarrow> Inl Not_an_address)"

section \<open>Normalised addresses\<close>

definition phone_address :: "pystr \<Rightarrow> bool" where
  "phone_address a \<longleftrightarrow> (\<exists>ds. (a = ds \<or> a = 43 # ds) \<and> list_all digit ds \<and> 3 \<le> length ds \<and> length ds \<le> 20)"

definition email_address :: "pystr \<Rightarrow> bool" where
  "email_address a \<longleftrightarrow> normalize_email a = Some a"

text \<open>Printable ASCII that has no meaning inside a vCard or bMessage line.\<close>

definition plain_char :: "nat \<Rightarrow> bool" where
  "plain_char c \<longleftrightarrow> 33 \<le> c \<and> c \<le> 126 \<and> c \<notin> set (lit '':;,<>()'') \<and> c \<noteq> 34 \<and> c \<noteq> 92"

lemma digit_plain: "digit c \<Longrightarrow> plain_char c"
  by (auto simp: digit_def plain_char_def lit_def)

lemma alnum_plain: "alnum c \<Longrightarrow> plain_char c"
  by (auto simp: alnum_def digit_def plain_char_def lit_def)

lemma local_plain: "email_local_char c \<Longrightarrow> plain_char c"
  by (auto simp: email_local_char_def plain_char_def lit_def dest: alnum_plain)

lemma plain_not_space: "plain_char c \<Longrightarrow> \<not> py_isspace c"
  by (auto simp: plain_char_def py_isspace_def)

lemma py_strip_id: "list_all plain_char s \<Longrightarrow> py_strip s = s"
proof -
  assume s: "list_all plain_char s"
  then have "dropWhile py_isspace s = s" by (cases s) (auto simp: plain_not_space)
  moreover have "dropWhile py_isspace (rev s) = rev s"
    using s by (cases s rule: rev_cases) (auto simp: plain_not_space)
  ultimately show ?thesis by (simp add: py_strip_def)
qed

lemma set_split_on: "w \<in> set (split_on sep s) \<Longrightarrow> set w \<subseteq> set s - {sep}"
proof (induction s arbitrary: w)
  case (Cons c cs)
  show ?case
  proof (cases "split_on sep cs")
    case Nil
    then show ?thesis using Cons.prems by (auto split: if_splits)
  next
    case (Cons v vs)
    then show ?thesis using Cons.prems Cons.IH by (fastforce split: if_splits)
  qed
qed simp

lemma split_on_cover: "c \<in> set s \<Longrightarrow> c \<noteq> sep \<Longrightarrow> \<exists>w \<in> set (split_on sep s). c \<in> set w"
proof (induction s)
  case (Cons d cs)
  then show ?case by (cases "split_on sep cs") (auto split: if_splits)
qed simp

lemma split_on_map: "(\<And>c. f c = sep \<longleftrightarrow> c = sep) \<Longrightarrow> split_on sep (map f s) = map (map f) (split_on sep s)"
proof (induction s)
  case (Cons c cs)
  then show ?case by (cases "split_on sep cs") auto
qed simp

lemma ascii_lower_simps [simp]:
  "ascii_lower (ascii_lower c) = ascii_lower c" "alnum (ascii_lower c) = alnum c" "ascii_lower c = 46 \<longleftrightarrow> c = 46"
  "ascii_lower c = 45 \<longleftrightarrow> c = 45" "ascii_lower c = 64 \<longleftrightarrow> c = 64"
  by (auto simp: ascii_lower_def alnum_def digit_def)

lemma email_label_lower: "email_label_re (map ascii_lower s) = email_label_re s"
  by (auto simp: email_label_re_def hd_map last_map list_all_iff)

lemma normalize_email_Some:
  assumes "normalize_email c = Some e"
  obtains local domain where "c = local @ 64 # domain" "e = local @ 64 # map ascii_lower domain" "64 \<notin> set local"
    "64 \<notin> set domain" "length c \<le> 254" "local \<noteq> []" "length local \<le> 64" "domain \<noteq> []" "length domain \<le> 253"
    "\<not> py_startswith local [46]" "last local \<noteq> 46" "\<not> py_contains [46, 46] local" "list_all email_local_char local"
    "list_all email_label_re (split_on 46 domain)"
proof -
  have "count_list c 64 = 1" using assms by (auto simp: normalize_email_def split: if_splits)
  then have "64 \<in> set c" by (metis count_notin zero_neq_one)
  from split_list_first [OF this] obtain local domain where c: "c = local @ 64 # domain" "64 \<notin> set local" by blast
  moreover have "64 \<notin> set domain" using \<open>count_list c 64 = 1\<close> c by (auto simp: count_list_0_iff)
  moreover have "takeWhile (\<lambda>c. c \<noteq> 64) c = local" "tl (dropWhile (\<lambda>c. c \<noteq> 64) c) = domain"
    using c by (auto simp: takeWhile_append dropWhile_append)
  ultimately show thesis using assms
    by (intro that [of local domain]) (auto simp: normalize_email_def Let_def list_all_iff split: if_splits)
qed

lemma normalize_email_intro:
  assumes "64 \<notin> set local" "64 \<notin> set domain" "length (local @ 64 # domain) \<le> 254" "local \<noteq> []" "length local \<le> 64"
    "domain \<noteq> []" "length domain \<le> 253" "\<not> py_startswith local [46]" "last local \<noteq> 46" "\<not> py_contains [46, 46] local"
    "list_all email_local_char local" "list_all email_label_re (split_on 46 domain)"
  shows "normalize_email (local @ 64 # domain) = Some (local @ 64 # map ascii_lower domain)"
proof -
  let ?c = "local @ 64 # domain"
  have "takeWhile (\<lambda>c. c \<noteq> 64) ?c = local" "tl (dropWhile (\<lambda>c. c \<noteq> 64) ?c) = domain"
    using assms(1) by (auto simp: takeWhile_append dropWhile_append)
  moreover have "count_list ?c 64 = 1" using assms(1,2) by (simp add: count_list_0_iff)
  ultimately show ?thesis using assms by (auto simp: normalize_email_def Let_def list_all_iff)
qed

lemma normalize_email_idem:
  assumes "normalize_email c = Some e"
  shows "normalize_email e = Some e"
  using assms
proof (rule normalize_email_Some)
  fix local domain
  assume a: "e = local @ 64 # map ascii_lower domain" "64 \<notin> set local"
    "64 \<notin> set domain" "length c \<le> 254" "c = local @ 64 # domain" "local \<noteq> []" "length local \<le> 64" "domain \<noteq> []" "length domain \<le> 253"
    "\<not> py_startswith local [46]" "last local \<noteq> 46" "\<not> py_contains [46, 46] local" "list_all email_local_char local"
    "list_all email_label_re (split_on 46 domain)"
  have "64 \<notin> set (map ascii_lower domain)" using a(3) by (metis ascii_lower_simps(5) imageE set_map)
  moreover have "list_all email_label_re (split_on 46 (map ascii_lower domain))"
    using a(14) by (simp add: split_on_map list_all_iff email_label_lower)
  ultimately have "normalize_email (local @ 64 # map ascii_lower domain) =
      Some (local @ 64 # map ascii_lower (map ascii_lower domain))"
    using a by (intro normalize_email_intro) simp_all
  then show ?thesis by (simp add: a(1) comp_def)
qed

lemma email_plain: "normalize_email c = Some e \<Longrightarrow> list_all plain_char e \<and> 64 \<in> set e"
proof (erule normalize_email_Some)
  fix local domain
  assume a: "e = local @ 64 # map ascii_lower domain" "list_all email_local_char local"
    "list_all email_label_re (split_on 46 domain)"
  have "alnum d \<or> d = 45 \<or> d = 46" if "d \<in> set domain" for d
    using split_on_cover [OF that, of 46] a(3) by (fastforce simp: list_all_iff email_label_re_def)
  then have "plain_char (ascii_lower d)" if "d \<in> set domain" for d
    using that alnum_plain [of "ascii_lower d"] by (fastforce simp: plain_char_def lit_def ascii_lower_def)
  then show ?thesis using a by (auto simp: list_all_iff local_plain) (simp add: plain_char_def lit_def)
qed

lemma phone_re_chars: "phone_re s \<Longrightarrow> c \<in> set s \<Longrightarrow> c = 43 \<or> digit c \<or> phone_separator c"
  by (cases s) (auto simp: phone_re_def list_all_iff split: if_splits list.splits)

lemma validate_recipient_Inr:
  "validate_recipient r = Inr a \<Longrightarrow> phone_address a \<or> email_address a \<and> 64 \<in> set a"
  using normalize_email_idem email_plain
  by (auto simp: validate_recipient_def Let_def phone_address_def email_address_def list_all_iff split: if_splits option.splits)

lemma phone_plain: 
  assumes "phone_address a"
  shows "list_all plain_char a \<and> 64 \<notin> set a"
proof -
  obtain ds where ds: "a = ds \<or> a = 43 # ds" "list_all digit ds" using assms by (auto simp: phone_address_def)
  have "\<forall>d \<in> set ds. plain_char d \<and> d \<noteq> 64"
    using ds(2) digit_plain by (auto simp: list_all_iff digit_def)
  moreover have "plain_char 43" by (simp add: plain_char_def lit_def)
  ultimately show ?thesis using ds(1) by (auto simp: list_all_iff)
qed

lemma validate_phone:
  assumes "phone_address a"
  shows "validate_recipient a = Inr a"
proof -
  obtain ds where ds: "a = ds \<or> a = 43 # ds" "list_all digit ds" "3 \<le> length ds" "length ds \<le> 20"
    using assms by (auto simp: phone_address_def)
  have "list_all plain_char a" using phone_plain [OF assms] by simp
  moreover obtain d rest where d: "ds = d # rest" "d \<noteq> 43" using ds(2,3) by (cases ds) (auto simp: digit_def)
  moreover have "filter digit a = ds" using ds(1,2) by (auto simp: list_all_iff digit_def)
  moreover have "phone_re a" using ds d by (auto simp: phone_re_def list_all_iff)
  ultimately show ?thesis using ds by (auto simp: validate_recipient_def py_strip_id Let_def)
qed

lemma validate_email:
  assumes "email_address a"
  shows "validate_recipient a = Inr a"
proof -
  have a: "list_all plain_char a" "64 \<in> set a" using email_plain assms by (auto simp: email_address_def)
  have "\<not> phone_re a" using phone_re_chars [of a 64] a(2) by (auto simp: digit_def phone_separator_def lit_def)
  then show ?thesis using assms a(1) by (simp add: validate_recipient_def py_strip_id email_address_def)
qed

lemma validate_recipient_plain: "validate_recipient r = Inr a \<Longrightarrow> list_all plain_char a"
  using validate_recipient_Inr [of r a] phone_plain [of a] email_plain [of a a] by (auto simp: email_address_def)


end
