(* ===== verification/Bmessage.thy ===== *)
theory Bmessage
  imports Vcard Recipients Utf8
begin

text \<open>
  bMessages: the parser of received messages (\<open>obex/bmessage.py\<close>) and the builder of outgoing ones
  (\<open>obex/map_send.py\<close>). The lemmas show that the one-pass search for the message block finds the block a
  naive search finds, and that a built message carries exactly its text, whatever the text contains.
\<close>

definition MAX_OUTGOING_BODY_BYTES :: nat where [consts_defs]: "MAX_OUTGOING_BODY_BYTES = 256 * 1024"
definition MAX_CONTACT_NAME_CHARS :: nat where [consts_defs]: "MAX_CONTACT_NAME_CHARS = 512"
definition MAX_CONTACT_ADDRESS_CHARS :: nat where [consts_defs]: "MAX_CONTACT_ADDRESS_CHARS = 320"
definition MAX_PROPERTY_CHARS :: nat where [consts_defs]: "MAX_PROPERTY_CHARS = 512"

section \<open>Parsing\<close>

record parsed_bmessage =
  sender_address :: "pystr option"
  sender_name :: "pystr option"
  bm_body :: "pystr option"
  bm_status :: "pystr option"
  bm_type :: "pystr option"
  bm_folder :: "pystr option"

fun originator_end :: "ucase \<Rightarrow> nat \<Rightarrow> pystr list \<Rightarrow> nat option" where
  "originator_end uc offset [] = None"
| "originator_end uc offset (line # ls) =
     (if py_casefold uc (py_strip line) = lit ''begin:benv'' then Some offset
      else originator_end uc (offset + length line) ls)"

definition originator_region :: "ucase \<Rightarrow> pystr \<Rightarrow> pystr" where
  "originator_region uc blob =
     (case originator_end uc 0 (splitlines_keepends blob) of Some n \<Rightarrow> take n blob | None \<Rightarrow> blob)"

text \<open>
  \<open>_message_body\<close>: the scan reads one line at a time from the cursor; \<open>rest\<close> is the text from there. The
  candidates are a dictionary by indentation, the matches a list of begin, body and end positions.
\<close>

definition drop_cr :: "pystr \<Rightarrow> pystr" where
  "drop_cr s = (if s \<noteq> [] \<and> last s = 13 then butlast s else s)"

definition line_indent :: "pystr \<Rightarrow> pystr" where
  "line_indent line = takeWhile blank line"

definition msg_marker :: "ucase \<Rightarrow> pystr \<Rightarrow> pystr" where
  "msg_marker uc line = py_casefold uc (rev (dropWhile blank (rev (dropWhile blank line))))"

type_synonym msg_match = "nat \<times> nat \<times> nat"

definition msg_step ::
  "ucase \<Rightarrow> nat \<Rightarrow> nat \<Rightarrow> bool \<Rightarrow> pystr \<Rightarrow> (pystr \<rightharpoonup> nat \<times> nat) \<Rightarrow> msg_match list \<Rightarrow> (pystr \<rightharpoonup> nat \<times> nat) \<times> msg_match list" where
  "msg_step uc line_start cursor terminated raw_line candidates matches =
     (let line = drop_cr raw_line; indent = line_indent line; marker = msg_marker uc line
      in if marker = lit ''begin:msg'' \<and> terminated then
           (case candidates indent of None \<Rightarrow> candidates(indent \<mapsto> (line_start, cursor)) | Some _ \<Rightarrow> candidates, matches)
         else if marker = lit ''end:msg'' then
           (case candidates indent of
              None \<Rightarrow> (candidates, matches)
            | Some (begin_start, body_start) \<Rightarrow>
                (candidates(indent := None), matches @ [(begin_start, body_start, line_start)]))
         else (candidates, matches))"

function msg_scan :: "ucase \<Rightarrow> nat \<Rightarrow> pystr \<Rightarrow> (pystr \<rightharpoonup> nat \<times> nat) \<Rightarrow> msg_match list \<Rightarrow> msg_match list" where
  "msg_scan uc cursor rest candidates matches =
     (if rest = [] then matches
      else let raw_line = takeWhile (\<lambda>c. c \<noteq> 10) rest; terminated = (10 \<in> set rest);
               next_cursor = cursor + length raw_line + (if terminated then 1 else 0);
               (cs, ms) = msg_step uc cursor next_cursor terminated raw_line candidates matches
        in msg_scan uc next_cursor (drop (length raw_line + 1) rest) cs ms)"
  by pat_completeness auto
termination by (relation "measure (\<lambda>(_, _, rest, _, _). length rest)") auto

declare msg_scan.simps [simp del]

text \<open>\<open>min(matches, key=...)\<close>: the first one with the least key.\<close>

fun min_match :: "msg_match list \<Rightarrow> msg_match option" where
  "min_match [] = None"
| "min_match (m # ms) =
     (case min_match ms of None \<Rightarrow> Some m | Some k \<Rightarrow> if fst m \<le> fst k then Some m else Some k)"

definition message_body :: "ucase \<Rightarrow> pystr \<Rightarrow> pystr option" where
  "message_body uc blob =
     map_option (\<lambda>(_, body_start, body_end). take (body_end - body_start) (drop body_start blob))
       (min_match (msg_scan uc 0 blob Map.empty []))"

text \<open>The loop over the lines of the originator card: name, phone address, email address so far.\<close>

type_synonym sender_info = "pystr option \<times> pystr option \<times> pystr option"

definition nonempty :: "pystr \<Rightarrow> pystr option" where
  "nonempty s = (if s = [] then None else Some s)"

definition first_address :: "pystr \<Rightarrow> pystr option \<Rightarrow> pystr option" where
  "first_address candidate known =
     (if candidate \<noteq> [] \<and> length candidate \<le> MAX_CONTACT_ADDRESS_CHARS \<and> known = None then Some candidate else known)"

definition sender_line :: "ucase \<Rightarrow> pystr \<Rightarrow> sender_info \<Rightarrow> sender_info" where
  "sender_line uc raw info =
     (let line = py_strip raw
      in if line = [] then info
         else case info of (name, phone, email) \<Rightarrow>
           let up = py_upper uc line;
               (p, _, value) = partition_at 58 line;
               prop = py_upper uc (takeWhile (\<lambda>c. c \<noteq> 59) p)
           in if prop = lit ''FN'' then (nonempty (py_strip value), phone, email)
              else if prop = lit ''N'' \<and> name = None then
                let parts = split_on 59 value;
                    joined = py_join [32] (filter (\<lambda>x. x \<noteq> []) (map py_strip (take 1 (drop 1 parts) @ take 1 parts)))
                in (nonempty joined, phone, email)
              else if py_startswith up (lit ''TEL'') then (name, first_address (py_strip value) phone, email)
              else if py_startswith up (lit ''EMAIL'') then (name, phone, first_address (py_strip value) email)
              else (name, phone, email))"

definition sender_info :: "ucase \<Rightarrow> pystr \<Rightarrow> sender_info" where
  "sender_info uc blob =
     (case iter_vcard_bodies uc [originator_region uc blob] 1 (int MAX_VCARD_CHARS) of
        [] \<Rightarrow> (None, None, None)
      | vc # _ \<Rightarrow> fold (sender_line uc) (splitlines vc) (None, None, None))"

text \<open>The characters stripped around a body, and the byte stuffing of its lines.\<close>

definition body_edge :: "nat \<Rightarrow> bool" where "body_edge c \<longleftrightarrow> c = 13 \<or> c = 10 \<or> c = 32"

definition trim_body :: "pystr \<Rightarrow> pystr" where
  "trim_body s = rev (dropWhile body_edge (rev (dropWhile body_edge s)))"

definition reserved :: "ucase \<Rightarrow> pystr \<Rightarrow> bool" where
  "reserved uc line \<longleftrightarrow> py_startswith (py_upper uc line) (lit ''BEGIN:'') \<or> py_startswith (py_upper uc line) (lit ''END:'')"

definition unstuff :: "ucase \<Rightarrow> pystr \<Rightarrow> pystr" where
  "unstuff uc line = (if take 1 line = [32] \<and> reserved uc (tl line) then tl line else line)"

definition parsed_body :: "ucase \<Rightarrow> pystr \<Rightarrow> pystr option" where
  "parsed_body uc blob =
     (case message_body uc blob of
        None \<Rightarrow> None
      | Some raw \<Rightarrow>
          let body = trim_body raw
          in Some (if body \<noteq> [] then py_join [10] (map (unstuff uc) (splitlines body)) else body))"

text \<open>
  The header expressions \<open>^NAME:(\S+)\<close> with MULTILINE and IGNORECASE: the first line, after a line feed,
  that has the name and something behind it. Ignoring case, the long s (U+017F) matches S.
\<close>

definition same_letter :: "nat \<Rightarrow> nat \<Rightarrow> bool" where
  "same_letter a c \<longleftrightarrow> ascii_lower a = ascii_lower c \<or> ascii_lower a = 115 \<and> c = 383"

definition header_value :: "pystr \<Rightarrow> pystr \<Rightarrow> pystr option" where
  "header_value key line =
     (if length key \<le> length line \<and> list_all2 same_letter key (take (length key) line)
      then nonempty (takeWhile (\<lambda>c. \<not> py_isspace c) (drop (length key) line)) else None)"

fun first_header :: "pystr \<Rightarrow> pystr list \<Rightarrow> pystr option" where
  "first_header key [] = None"
| "first_header key (line # ls) =
     (case header_value key line of Some v \<Rightarrow> Some v | None \<Rightarrow> first_header key ls)"

definition parse_bmessage :: "ucase \<Rightarrow> pystr \<Rightarrow> parsed_bmessage" where
  "parse_bmessage uc blob =
     (let (name, phone, email) = sender_info uc blob;
          header = (\<lambda>key. map_option (take MAX_PROPERTY_CHARS) (first_header key (split_on 10 blob)))
      in \<lparr>sender_address = (case phone of None \<Rightarrow> email | Some _ \<Rightarrow> phone),
          sender_name = map_option (take MAX_CONTACT_NAME_CHARS) name,
          bm_body = parsed_body uc blob,
          bm_status = header (lit ''STATUS:''), bm_type = header (lit ''TYPE:''), bm_folder = header (lit ''FOLDER:'')\<rparr>)"

section \<open>Building\<close>

datatype send_error = Bad_recipient recipient_error | Body_too_large | Not_encodable | Group_size | Group_duplicate

definition stuff :: "ucase \<Rightarrow> pystr \<Rightarrow> pystr" where
  "stuff uc line = (if reserved uc line then 32 # line else line)"

definition byte_stuff :: "ucase \<Rightarrow> pystr \<Rightarrow> pystr" where
  "byte_stuff uc body = py_join [10] (map (stuff uc) (splitlines body))"

definition recipient_vcard :: "pystr \<Rightarrow> send_error + pystr list" where
  "recipient_vcard r =
     (case validate_recipient r of
        Inl e \<Rightarrow> Inl (Bad_recipient e)
      | Inr a \<Rightarrow> Inr [lit ''BEGIN:VCARD'', lit ''VERSION:2.1'', lit ''N:;;;;'',
          (if 64 \<in> set a then lit ''EMAIL'' else lit ''TEL'') @ [58] @ a, lit ''END:VCARD''])"

fun recipient_vcards :: "pystr list \<Rightarrow> send_error + pystr list" where
  "recipient_vcards [] = Inr []"
| "recipient_vcards (r # rs) =
     (case recipient_vcard r of
        Inl e \<Rightarrow> Inl e
      | Inr ls \<Rightarrow> (case recipient_vcards rs of Inl e \<Rightarrow> Inl e | Inr ls' \<Rightarrow> Inr (ls @ ls')))"

fun nat_text :: "nat \<Rightarrow> pystr" where
  "nat_text n = (if n < 10 then [48 + n] else nat_text (n div 10) @ [48 + n mod 10])"

declare nat_text.simps [simp del]

definition bmessage_lines :: "pystr list \<Rightarrow> nat \<Rightarrow> pystr \<Rightarrow> pystr list" where
  "bmessage_lines recipient_lines encoded_len stuffed =
     [lit ''BEGIN:BMSG'', lit ''VERSION:1.0'', lit ''STATUS:UNREAD'', lit ''TYPE:SMS_GSM'',
      lit ''FOLDER:telecom/msg/outbox'', lit ''BEGIN:VCARD'', lit ''VERSION:2.1'', lit ''N:;;;;'', lit ''TEL:'',
      lit ''END:VCARD'', lit ''BEGIN:BENV''] @ recipient_lines @
     [lit ''BEGIN:BBODY'', lit ''CHARSET:UTF-8'', lit ''LENGTH:'' @ nat_text encoded_len, lit ''BEGIN:MSG'',
      stuffed, lit ''END:MSG'', lit ''END:BBODY'', lit ''END:BENV'', lit ''END:BMSG'']"

definition build_validated :: "ucase \<Rightarrow> pystr list \<Rightarrow> pystr \<Rightarrow> send_error + pystr" where
  "build_validated uc recipients body =
     (case utf8_encode body of
        None \<Rightarrow> Inl Not_encodable
      | Some encoded \<Rightarrow>
          if MAX_OUTGOING_BODY_BYTES < length encoded then Inl Body_too_large
          else case recipient_vcards recipients of
            Inl e \<Rightarrow> Inl e
          | Inr recipient_lines \<Rightarrow>
              let stuffed = byte_stuff uc body
              in case utf8_encode stuffed of
                   None \<Rightarrow> Inl Not_encodable
                 | Some bytes \<Rightarrow>
                     Inr (py_join [13, 10] (bmessage_lines recipient_lines (length bytes) stuffed) @ [13, 10]))"

definition build_bmessage :: "ucase \<Rightarrow> pystr \<Rightarrow> pystr \<Rightarrow> send_error + pystr" where
  "build_bmessage uc recipient body =
     (case validate_recipient recipient of
        Inl e \<Rightarrow> Inl (Bad_recipient e)
      | Inr a \<Rightarrow> build_validated uc [a] body)"

fun validate_all :: "pystr list \<Rightarrow> send_error + pystr list" where
  "validate_all [] = Inr []"
| "validate_all (r # rs) =
     (case validate_recipient r of
        Inl e \<Rightarrow> Inl (Bad_recipient e)
      | Inr a \<Rightarrow> (case validate_all rs of Inl e \<Rightarrow> Inl e | Inr as \<Rightarrow> Inr (a # as)))"

definition build_group_bmessage :: "ucase \<Rightarrow> pystr list \<Rightarrow> pystr \<Rightarrow> send_error + pystr" where
  "build_group_bmessage uc recipients body =
     (case validate_all recipients of
        Inl e \<Rightarrow> Inl e
      | Inr normalized \<Rightarrow>
          if \<not> (2 \<le> length normalized \<and> length normalized \<le> 20) then Inl Group_size
          else if \<not> distinct normalized then Inl Group_duplicate
          else build_validated uc normalized body)"

section \<open>The block that is found\<close>

text \<open>
  The lines of a text as the search sees them, and the naive search: for each opening line in turn, look
  ahead for the first closing line with the same indentation, and take the first pair there is.
\<close>

datatype line_kind = Opens | Closes | Other_line

record msg_line =
  ml_start :: nat
  ml_next :: nat
  ml_indent :: pystr
  ml_kind :: line_kind

definition kind_of :: "ucase \<Rightarrow> bool \<Rightarrow> pystr \<Rightarrow> line_kind" where
  "kind_of uc terminated raw =
     (let marker = msg_marker uc (drop_cr raw)
      in if marker = lit ''begin:msg'' \<and> terminated then Opens else if marker = lit ''end:msg'' then Closes else Other_line)"

function msg_lines :: "ucase \<Rightarrow> nat \<Rightarrow> pystr \<Rightarrow> msg_line list" where
  "msg_lines uc cursor rest =
     (if rest = [] then []
      else let raw = takeWhile (\<lambda>c. c \<noteq> 10) rest; terminated = (10 \<in> set rest);
               next_cursor = cursor + length raw + (if terminated then 1 else 0)
        in \<lparr>ml_start = cursor, ml_next = next_cursor, ml_indent = line_indent (drop_cr raw),
            ml_kind = kind_of uc terminated raw\<rparr> # msg_lines uc next_cursor (drop (length raw + 1) rest))"
  by pat_completeness auto
termination by (relation "measure (\<lambda>(_, _, rest). length rest)") auto

declare msg_lines.simps [simp del]

fun closing :: "pystr \<Rightarrow> msg_line list \<Rightarrow> nat option" where
  "closing indent [] = None"
| "closing indent (l # ls) = (if ml_kind l = Closes \<and> ml_indent l = indent then Some (ml_start l) else closing indent ls)"

fun first_block :: "msg_line list \<Rightarrow> msg_match option" where
  "first_block [] = None"
| "first_block (l # ls) =
     (case (if ml_kind l = Opens then closing (ml_indent l) ls else None) of
        Some e \<Rightarrow> Some (ml_start l, ml_next l, e)
      | None \<Rightarrow> first_block ls)"

definition naive_body :: "ucase \<Rightarrow> pystr \<Rightarrow> pystr option" where
  "naive_body uc blob =
     map_option (\<lambda>(_, b, e). take (e - b) (drop b blob)) (first_block (msg_lines uc 0 blob))"

text \<open>The scan as a fold over these lines.\<close>

fun scan_line :: "msg_line \<Rightarrow> (pystr \<rightharpoonup> nat \<times> nat) \<times> msg_match list \<Rightarrow> (pystr \<rightharpoonup> nat \<times> nat) \<times> msg_match list" where
  "scan_line l (cs, ms) =
     (case ml_kind l of
        Opens \<Rightarrow> (case cs (ml_indent l) of None \<Rightarrow> cs(ml_indent l \<mapsto> (ml_start l, ml_next l)) | Some _ \<Rightarrow> cs, ms)
      | Closes \<Rightarrow>
          (case cs (ml_indent l) of
             None \<Rightarrow> (cs, ms)
           | Some (b, n) \<Rightarrow> (cs(ml_indent l := None), ms @ [(b, n, ml_start l)]))
      | Other_line \<Rightarrow> (cs, ms))"

lemma msg_scan_fold: "msg_scan uc cursor rest cs ms = snd (fold scan_line (msg_lines uc cursor rest) (cs, ms))"
proof (induction uc cursor rest cs ms rule: msg_scan.induct)
  case (1 uc cursor rest cs ms)
  show ?case
  proof (cases "rest = []")
    case True
    then show ?thesis by (simp add: msg_scan.simps msg_lines.simps)
  next
    case False
    let ?raw = "takeWhile (\<lambda>c. c \<noteq> 10) rest" and ?t = "10 \<in> set rest"
    let ?n = "cursor + length ?raw + (if ?t then 1 else 0)"
    obtain cs' ms' where s: "msg_step uc cursor ?n ?t ?raw cs ms = (cs', ms')" by fastforce
    have "scan_line \<lparr>ml_start = cursor, ml_next = ?n, ml_indent = line_indent (drop_cr ?raw), ml_kind = kind_of uc ?t ?raw\<rparr> (cs, ms) = (cs', ms')"
      using s by (auto simp: msg_step_def kind_of_def Let_def split: option.splits if_splits)
    then show ?thesis using 1 [OF False refl refl refl s [symmetric] refl] False s
      by (subst msg_scan.simps, subst msg_lines.simps) (simp add: Let_def)
  qed
qed

text \<open>What the scan can still find: its matches, the candidates that will be closed, and the first new block.\<close>

definition outlook :: "(pystr \<rightharpoonup> nat \<times> nat) \<Rightarrow> msg_match list \<Rightarrow> msg_line list \<Rightarrow> msg_match set" where
  "outlook cs ms ls = set ms \<union> {(b, n, e). \<exists>i. cs i = Some (b, n) \<and> closing i ls = Some e} \<union> set_option (first_block ls)"

definition earliest :: "msg_match set \<Rightarrow> msg_match \<Rightarrow> bool" where
  "earliest S m \<longleftrightarrow> m \<in> S \<and> (\<forall>k \<in> S. k = m \<or> fst m < fst k)"

definition starts_after :: "nat \<Rightarrow> msg_line list \<Rightarrow> bool" where
  "starts_after n ls \<longleftrightarrow> sorted_wrt (<) (map ml_start ls) \<and> list_all (\<lambda>l. n \<le> ml_start l) ls"

lemma first_block_start: "first_block ls = Some m \<Longrightarrow> \<exists>l \<in> set ls. fst m = ml_start l"
  by (induction ls) (auto split: option.splits if_splits)

lemma earliest_more: "earliest S m \<Longrightarrow> m' \<in> S \<Longrightarrow> (\<And>k. k \<in> T \<Longrightarrow> fst m' < fst k) \<Longrightarrow> earliest (S \<union> T) m"
proof -
  assume m: "earliest S m" and m': "m' \<in> S" and T: "\<And>k. k \<in> T \<Longrightarrow> fst m' < fst k"
  have "fst m \<le> fst m'" using m m' by (auto simp: earliest_def)
  then have "fst m < fst k" if "k \<in> T" for k using T [OF that] by simp
  then show ?thesis using m by (auto simp: earliest_def)
qed

lemma outlook_open:
  assumes "cs j = None"
  shows "{(b, n, e). \<exists>i. (cs(j \<mapsto> (x, y))) i = Some (b, n) \<and> closing i ls = Some e} =
    {(b, n, e). \<exists>i. cs i = Some (b, n) \<and> closing i ls = Some e} \<union> (\<lambda>e. (x, y, e)) ` set_option (closing j ls)"
proof -
  have "(cs(j \<mapsto> (x, y))) i = Some (b, n) \<and> closing i ls = Some e \<longleftrightarrow>
      cs i = Some (b, n) \<and> closing i ls = Some e \<or> i = j \<and> (b, n) = (x, y) \<and> closing j ls = Some e" for i b n e
    using assms by (cases "i = j") auto
  then have "(\<exists>i. (cs(j \<mapsto> (x, y))) i = Some (b, n) \<and> closing i ls = Some e) \<longleftrightarrow>
      (\<exists>i. cs i = Some (b, n) \<and> closing i ls = Some e) \<or> (b, n) = (x, y) \<and> closing j ls = Some e" for b n e
    by blast
  then show ?thesis by (simp only:) auto
qed

lemma outlook_step:
  assumes "sorted_wrt (<) (map ml_start (l # ls))" "\<And>i b n. cs i = Some (b, n) \<Longrightarrow> b < ml_start l"
    and "earliest (outlook cs ms (l # ls)) m" "scan_line l (cs, ms) = (cs', ms')"
  shows "earliest (outlook cs' ms' ls) m"
proof (cases "ml_kind l")
  case Other_line
  then have "outlook cs' ms' ls = outlook cs ms (l # ls)" using assms(4) by (simp add: outlook_def)
  then show ?thesis using assms(3) by simp
next
  case Closes
  have cl: "closing i (l # ls) = (if i = ml_indent l then Some (ml_start l) else closing i ls)" for i using Closes by auto
  have fb: "first_block (l # ls) = first_block ls" using Closes by simp
  have "outlook cs' ms' ls = outlook cs ms (l # ls)"
  proof (cases "cs (ml_indent l)")
    case None
    then have "cs' = cs" "ms' = ms" using assms(4) Closes by auto
    moreover have "cs i = Some (b, n) \<and> closing i (l # ls) = Some e \<longleftrightarrow> cs i = Some (b, n) \<and> closing i ls = Some e" for i b n e
      using None unfolding cl by auto
    ultimately show ?thesis unfolding outlook_def fb by simp
  next
    case (Some bn)
    obtain b n where bn: "bn = (b, n)" by (cases bn)
    have "cs' = cs(ml_indent l := None)" "ms' = ms @ [(b, n, ml_start l)]" using assms(4) Closes Some bn by auto
    moreover have "(cs i = Some (x, y) \<and> closing i (l # ls) = Some e) \<longleftrightarrow>
        (i = ml_indent l \<and> (x, y, e) = (b, n, ml_start l)) \<or>
        ((cs(ml_indent l := None)) i = Some (x, y) \<and> closing i ls = Some e)" for i x y e
      using Some bn unfolding cl by auto
    ultimately show ?thesis unfolding outlook_def fb by auto
  qed
  then show ?thesis using assms(3) by simp
next
  case Opens
  have later: "ml_start l < fst k" if "first_block ls = Some k" for k
    using first_block_start [OF that] assms(1) by auto
  define base where "base = set ms \<union> {(b, n, e). \<exists>i. cs i = Some (b, n) \<and> closing i ls = Some e}"
  have old: "outlook cs ms (l # ls) = base \<union> set_option (first_block (l # ls))"
    using Opens by (simp add: outlook_def base_def)
  show ?thesis
  proof (cases "closing (ml_indent l) ls")
    case None
    have "outlook cs' ms' ls = base \<union> set_option (first_block ls)"
    proof (cases "cs (ml_indent l)")
      case n: None
      then have "cs' = cs(ml_indent l \<mapsto> (ml_start l, ml_next l))" "ms' = ms" using assms(4) Opens by auto
      then show ?thesis unfolding outlook_def base_def using outlook_open [of cs "ml_indent l", OF n] None by simp
    next
      case (Some bn)
      then show ?thesis using assms(4) Opens by (auto simp: outlook_def base_def)
    qed
    then show ?thesis using assms(3) None old Opens by simp
  next
    case (Some e)
    let ?m = "(ml_start l, ml_next l, e)"
    have fb: "first_block (l # ls) = Some ?m" using Some Opens by simp
    show ?thesis
    proof (cases "cs (ml_indent l)")
      case None
      have "outlook cs' ms' ls = (base \<union> {?m}) \<union> set_option (first_block ls)"
      proof -
        have "cs' = cs(ml_indent l \<mapsto> (ml_start l, ml_next l))" "ms' = ms" using assms(4) Opens None by auto
        then show ?thesis unfolding outlook_def base_def using outlook_open [of cs "ml_indent l", OF None] Some by auto
      qed
      moreover have "earliest (base \<union> {?m}) m" using assms(3) old fb by simp
      ultimately show ?thesis using earliest_more [of "base \<union> {?m}" m ?m "set_option (first_block ls)"] later by auto
    next
      case (Some bn)
      then obtain b n where bn: "cs (ml_indent l) = Some (b, n)" by (cases bn) auto
      have in_base: "(b, n, e) \<in> base" and "b < ml_start l"
        using bn \<open>closing (ml_indent l) ls = Some e\<close> assms(2) by (auto simp: base_def)
      then have m: "earliest base m"
        using assms(3) old fb unfolding earliest_def by (metis UnE UnI1 empty_iff fst_conv insert_iff option.set(2) order_less_asym)
      have "outlook cs' ms' ls = base \<union> set_option (first_block ls)"
        using assms(4) Opens bn by (auto simp: outlook_def base_def)
      then show ?thesis using earliest_more [OF m in_base, of "set_option (first_block ls)"] later \<open>b < ml_start l\<close>
        by fastforce
    qed
  qed
qed

lemma outlook_fold:
  assumes "sorted_wrt (<) (map ml_start ls)" "\<And>i b n. cs i = Some (b, n) \<Longrightarrow> list_all (\<lambda>l. b < ml_start l) ls"
    and "earliest (outlook cs ms ls) m"
  shows "earliest (set (snd (fold scan_line ls (cs, ms)))) m"
  using assms
proof (induction ls arbitrary: cs ms)
  case Nil
  have "outlook cs ms [] = set ms" by (auto simp: outlook_def)
  then show ?case using Nil by simp
next
  case (Cons l ls)
  obtain cs' ms' where s: "scan_line l (cs, ms) = (cs', ms')" by fastforce
  have "earliest (outlook cs' ms' ls) m"
    by (rule outlook_step [OF Cons.prems(1) _ Cons.prems(3) s]) (use Cons.prems(2) in auto)
  moreover have "list_all (\<lambda>l. b < ml_start l) ls" if "cs' i = Some (b, n)" for i b n
  proof (cases "cs i = Some (b, n)")
    case True
    then show ?thesis using Cons.prems(2) by auto
  next
    case False
    then have "b = ml_start l" using s that by (auto split: line_kind.splits option.splits if_splits)
    then show ?thesis using Cons.prems(1) by (auto simp: list_all_iff)
  qed
  ultimately show ?case using Cons.IH [of cs' ms'] Cons.prems(1) s by simp
qed

lemma scan_nothing:
  "first_block ls = None \<Longrightarrow> (\<And>i. i \<in> dom cs \<Longrightarrow> closing i ls = None) \<Longrightarrow> snd (fold scan_line ls (cs, ms)) = ms"
proof (induction ls arbitrary: cs ms)
  case (Cons l ls)
  have cl: "closing i ls = None" "\<not> (ml_kind l = Closes \<and> ml_indent l = i)" if "i \<in> dom cs" for i
    using Cons.prems(2) [OF that] by (auto split: if_splits)
  have fb: "first_block ls = None" "ml_kind l = Opens \<Longrightarrow> closing (ml_indent l) ls = None"
    using Cons.prems(1) by (auto split: option.splits if_splits)
  obtain cs' where s: "scan_line l (cs, ms) = (cs', ms)" "dom cs' \<subseteq> dom cs \<union> (if ml_kind l = Opens then {ml_indent l} else {})"
    using cl by (cases "ml_kind l"; cases "cs (ml_indent l)") auto
  have "closing i ls = None" if "i \<in> dom cs'" for i
    using subsetD [OF s(2) that] cl(1) fb(2) by (auto simp only: split: if_splits)
  then show ?case using Cons.IH [OF fb(1), of cs' ms] s(1) by simp
qed simp

lemma min_match_earliest: "earliest (set ms) m \<Longrightarrow> min_match ms = Some m"
proof -
  have "ms \<noteq> [] \<Longrightarrow> \<exists>k \<in> set ms. min_match ms = Some k \<and> (\<forall>j \<in> set ms. fst k \<le> fst j)" for ms
  proof (induction ms)
    case (Cons m ms)
    show ?case
    proof (cases "ms = []")
      case False
      with Cons.IH obtain k where "k \<in> set ms" "min_match ms = Some k" "\<forall>j \<in> set ms. fst k \<le> fst j" by blast
      then show ?thesis by (cases "fst m \<le> fst k") (auto intro: order_trans)
    qed simp
  qed simp
  moreover assume m: "earliest (set ms) m"
  moreover from m have "ms \<noteq> []" by (auto simp: earliest_def)
  ultimately obtain k where "k \<in> set ms" "min_match ms = Some k" "\<forall>j \<in> set ms. fst k \<le> fst j" by blast
  then show ?thesis using m unfolding earliest_def by (metis linorder_not_le)
qed

lemma msg_lines_sorted: "starts_after cursor (msg_lines uc cursor rest)"
proof (induction uc cursor rest rule: msg_lines.induct)
  case (1 uc cursor rest)
  show ?case
  proof (cases "rest = []")
    case True
    then show ?thesis by (simp add: msg_lines.simps starts_after_def)
  next
    case False
    let ?n = "cursor + length (takeWhile (\<lambda>c. c \<noteq> 10) rest) + (if 10 \<in> set rest then 1 else 0)"
    have nl: "takeWhile (\<lambda>c. c \<noteq> 10) rest = [] \<Longrightarrow> 10 \<in> set rest" using False by (cases rest) (auto split: if_splits)
    define n where "n = ?n"
    have "cursor < n" using nl by (auto simp: n_def)
    moreover define ls where "ls = msg_lines uc n (drop (length (takeWhile (\<lambda>c. c \<noteq> 10) rest) + 1) rest)"
    have "starts_after n ls" unfolding ls_def n_def by (rule 1 [OF False refl refl refl])
    moreover obtain l where "msg_lines uc cursor rest = l # ls" "ml_start l = cursor"
      using False unfolding ls_def n_def by (subst (asm) msg_lines.simps) (simp add: Let_def)
    ultimately show ?thesis by (auto simp: starts_after_def list_all_iff)
  qed
qed

lemma min_match_scan: "min_match (msg_scan uc 0 blob Map.empty []) = first_block (msg_lines uc 0 blob)"
proof (cases "first_block (msg_lines uc 0 blob)")
  case None
  then show ?thesis using scan_nothing [of "msg_lines uc 0 blob" Map.empty "[]"] by (simp add: msg_scan_fold)
next
  case (Some m)
  have "earliest (outlook Map.empty [] (msg_lines uc 0 blob)) m" by (simp add: outlook_def earliest_def Some)
  then have "earliest (set (msg_scan uc 0 blob Map.empty [])) m"
    using outlook_fold [of "msg_lines uc 0 blob" Map.empty "[]" m] msg_lines_sorted [of 0 uc blob]
    by (simp add: msg_scan_fold starts_after_def)
  then show ?thesis using min_match_earliest Some by simp
qed

text \<open>
  C19: The single forward scan for the message text, with its dictionary of open markers by indentation,
  finds what a naive search finds: the text after the first terminated \<open>BEGIN:MSG\<close> line for which a later
  \<open>END:MSG\<close> line has the same indentation, up to the first such line; and nothing exactly when no
  opening line is ever closed.
\<close>

theorem message_body_naive: "message_body uc blob = naive_body uc blob"
  by (simp add: message_body_def naive_body_def min_match_scan)

section \<open>A built message carries its text\<close>

text \<open>Unicode folds no other character to a text that begins with a letter of \<open>END\<close> or a colon.\<close>

definition marker_safe :: "ucase \<Rightarrow> bool" where
  "marker_safe uc \<longleftrightarrow> (\<forall>c \<ge> 128. fold_char uc c \<noteq> [] \<and> hd (fold_char uc c) \<notin> set (lit ''end:''))"

lemma casefold_first:
  assumes "marker_safe uc" "py_casefold uc s = a # as" "a \<in> set (lit ''end:'')"
  shows "\<exists>c s'. s = c # s' \<and> c < 128 \<and> (if 65 \<le> c \<and> c \<le> 90 then c + 32 else c) = a \<and> py_casefold uc s' = as"
proof (cases s)
  case Nil
  then show ?thesis using assms(2) by simp
next
  case (Cons c s')
  show ?thesis
  proof (cases "c < 128")
    case True
    then show ?thesis using assms(2) Cons by auto
  next
    case False
    then have "fold_char uc c \<noteq> []" "hd (fold_char uc c) \<notin> set (lit ''end:'')"
      using assms(1) by (auto simp: marker_safe_def)
    then show ?thesis using assms(2,3) Cons False by (cases "fold_char uc c") auto
  qed
qed

lemma end_marker_reserved:
  assumes "marker_safe uc" "py_casefold uc s = lit ''end:msg''"
  shows "reserved uc (s @ t)"
proof -
  note step = casefold_first [OF assms(1)]
  have e: "py_casefold uc s = 101 # 110 # 100 # 58 # lit ''msg''" using assms(2) by (simp add: lit_def)
  obtain c1 s1 where 1: "s = c1 # s1" "c1 < 128" "(if 65 \<le> c1 \<and> c1 \<le> 90 then c1 + 32 else c1) = 101"
      "py_casefold uc s1 = 110 # 100 # 58 # lit ''msg''"
    using step [OF e] by (auto simp: lit_def)
  obtain c2 s2 where 2: "s1 = c2 # s2" "c2 < 128" "(if 65 \<le> c2 \<and> c2 \<le> 90 then c2 + 32 else c2) = 110"
      "py_casefold uc s2 = 100 # 58 # lit ''msg''"
    using step [OF 1(4)] by (auto simp: lit_def)
  obtain c3 s3 where 3: "s2 = c3 # s3" "c3 < 128" "(if 65 \<le> c3 \<and> c3 \<le> 90 then c3 + 32 else c3) = 100"
      "py_casefold uc s3 = 58 # lit ''msg''"
    using step [OF 2(4)] by (auto simp: lit_def)
  obtain c4 s4 where 4: "s3 = c4 # s4" "c4 < 128" "(if 65 \<le> c4 \<and> c4 \<le> 90 then c4 + 32 else c4) = 58"
    using step [OF 3(4)] by (auto simp: lit_def)
  have up: "(if 97 \<le> c \<and> c \<le> 122 then c - 32 else c) = a - 32" if "(if 65 \<le> c \<and> c \<le> 90 then c + 32 else c) = a" "97 \<le> a" "a \<le> 122"
    for c a :: nat using that by (auto split: if_splits)
  have "c4 = 58" using 4(3) by (auto split: if_splits)
  then show ?thesis using 1 2 3 4 up [OF 1(3)] up [OF 2(3)] up [OF 3(3)] by (simp add: reserved_def lit_def)
qed

definition raw_lines :: "pystr list \<Rightarrow> pystr" where
  "raw_lines rs = concat (map (\<lambda>r. r @ [10]) rs)"

lemma raw_lines_simps [simp]:
  "raw_lines [] = []" "raw_lines (r # rs) = r @ 10 # raw_lines rs" "raw_lines (rs @ rs') = raw_lines rs @ raw_lines rs'"
  by (simp_all add: raw_lines_def)

lemma msg_lines_raw:
  assumes "10 \<notin> set r"
  shows "msg_lines uc n (r @ 10 # rest) =
    \<lparr>ml_start = n, ml_next = n + length r + 1, ml_indent = line_indent (drop_cr r), ml_kind = kind_of uc True r\<rparr> #
    msg_lines uc (n + length r + 1) rest"
proof -
  have "takeWhile (\<lambda>c. c \<noteq> 10) (r @ 10 # rest) = r"
    using assms by (subst takeWhile_append2) (auto simp: takeWhile_eq_all_conv)
  then show ?thesis by (subst msg_lines.simps) (simp add: Let_def)
qed

lemma first_block_raw:
  "list_all (\<lambda>r. 10 \<notin> set r \<and> kind_of uc True r \<noteq> Opens) rs \<Longrightarrow>
     first_block (msg_lines uc n (raw_lines rs @ rest)) = first_block (msg_lines uc (n + length (raw_lines rs)) rest)"
proof (induction rs arbitrary: n)
  case (Cons r rs)
  then show ?case using msg_lines_raw [of r uc n "raw_lines rs @ rest"] Cons.IH [of "n + length r + 1"] by (simp add: algebra_simps)
qed simp

lemma closing_raw:
  "list_all (\<lambda>r. 10 \<notin> set r \<and> \<not> (kind_of uc True r = Closes \<and> line_indent (drop_cr r) = i)) rs \<Longrightarrow>
     closing i (msg_lines uc n (raw_lines rs @ rest)) = closing i (msg_lines uc (n + length (raw_lines rs)) rest)"
proof (induction rs arbitrary: n)
  case (Cons r rs)
  then show ?case using msg_lines_raw [of r uc n "raw_lines rs @ rest"] Cons.IH [of "n + length r + 1"] by (auto simp: algebra_simps)
qed simp

lemma naive_body_framed:
  assumes "list_all (\<lambda>r. 10 \<notin> set r \<and> kind_of uc True r \<noteq> Opens) hs"
    and "list_all (\<lambda>r. 10 \<notin> set r \<and> \<not> (kind_of uc True r = Closes \<and> line_indent (drop_cr r) = [])) bs"
  shows "naive_body uc (raw_lines hs @ raw_lines [lit ''BEGIN:MSG'' @ [13]] @ raw_lines bs @ raw_lines [lit ''END:MSG'' @ [13]] @ rest) =
    Some (raw_lines bs)"
proof -
  let ?b = "lit ''BEGIN:MSG'' @ [13]" and ?e = "lit ''END:MSG'' @ [13]"
  let ?blob = "raw_lines hs @ raw_lines [?b] @ raw_lines bs @ raw_lines [?e] @ rest"
  define p where "p = length (raw_lines hs)"
  define q where "q = p + length ?b + 1"
  have k: "kind_of uc True ?b = Opens" "kind_of uc True ?e = Closes"
      "line_indent (drop_cr ?b) = []" "line_indent (drop_cr ?e) = []" "10 \<notin> set ?b" "10 \<notin> set ?e"
    by (simp_all add: kind_of_def msg_marker_def drop_cr_def line_indent_def lit_def blank_def)
  have c: "closing [] (msg_lines uc q (raw_lines bs @ raw_lines [?e] @ rest)) = Some (q + length (raw_lines bs))"
    using closing_raw [OF assms(2), of q "raw_lines [?e] @ rest"] msg_lines_raw [OF k(6), of uc "q + length (raw_lines bs)" rest] k
    by simp
  have "first_block (msg_lines uc 0 ?blob) = first_block (msg_lines uc p (raw_lines [?b] @ raw_lines bs @ raw_lines [?e] @ rest))"
    using first_block_raw [OF assms(1), of 0 "raw_lines [?b] @ raw_lines bs @ raw_lines [?e] @ rest"] by (simp only: p_def add_0)
  also have "\<dots> = Some (p, q, q + length (raw_lines bs))"
    using msg_lines_raw [OF k(5), of uc p "raw_lines bs @ raw_lines [?e] @ rest"] k c by (simp add: q_def)
  finally have "first_block (msg_lines uc 0 ?blob) = Some (p, q, q + length (raw_lines bs))" .
  moreover have "?blob = (raw_lines hs @ raw_lines [?b]) @ raw_lines bs @ raw_lines [?e] @ rest"
      "length (raw_lines hs @ raw_lines [?b]) = q" by (simp_all add: p_def q_def)
  then have "take (length (raw_lines bs)) (drop q ?blob) = raw_lines bs" by (metis append_eq_conv_conj)
  ultimately show ?thesis unfolding naive_body_def by simp
qed

text \<open>The lines of a stuffed text: none closes the block.\<close>

lemma splitlines_unbroken: "list_all unbroken (splitlines s)"
  by (auto simp: splitlines_def list_all_iff intro: lines_unbroken)

lemma unbroken_set: "unbroken s \<Longrightarrow> line_break c \<Longrightarrow> c \<notin> set s"
  by (auto simp: unbroken_def list_all_iff)

lemma stuff_unbroken: "unbroken l \<Longrightarrow> unbroken (stuff uc l)"
  by (simp add: stuff_def unbroken_def line_break_def)

lemma drop_cr_unbroken: "unbroken l \<Longrightarrow> drop_cr l = l" "drop_cr (l @ [13]) = l"
proof -
  have "l \<noteq> [] \<Longrightarrow> last l \<noteq> 13" if "unbroken l" using unbroken_set [OF that, of 13] by (metis last_in_set line_break_def)
  then show "unbroken l \<Longrightarrow> drop_cr l = l" "drop_cr (l @ [13]) = l" by (auto simp: drop_cr_def)
qed

lemma stuffed_not_closing:
  assumes "marker_safe uc"
  shows "\<not> (msg_marker uc (stuff uc l) = lit ''end:msg'' \<and> line_indent (stuff uc l) = [])"
proof
  assume a: "msg_marker uc (stuff uc l) = lit ''end:msg'' \<and> line_indent (stuff uc l) = []"
  show False
  proof (cases "reserved uc l")
    case True
    then show ?thesis using a by (simp add: stuff_def line_indent_def blank_def)
  next
    case False
    then have s: "stuff uc l = l" by (simp add: stuff_def)
    have "dropWhile blank l = l" using a s takeWhile_dropWhile_id [of blank l] by (simp add: line_indent_def)
    then have m: "py_casefold uc (rev (dropWhile blank (rev l))) = lit ''end:msg''" using a s by (simp add: msg_marker_def)
    have "l = rev (dropWhile blank (rev l)) @ rev (takeWhile blank (rev l))"
      by (metis rev_append rev_rev_ident takeWhile_dropWhile_id)
    then show ?thesis using end_marker_reserved [OF assms m, of "rev (takeWhile blank (rev l))"] False by simp
  qed
qed

fun body_raws :: "pystr list \<Rightarrow> pystr list" where
  "body_raws [] = [[13]]"
| "body_raws [l] = [l @ [13]]"
| "body_raws (l # ls) = l # body_raws ls"

lemma raw_body: "raw_lines (body_raws ls) = py_join [10] ls @ [13, 10]"
  by (induction ls rule: body_raws.induct) auto

lemma body_raws_safe:
  assumes "marker_safe uc" "list_all unbroken ls"
  shows "list_all (\<lambda>r. 10 \<notin> set r \<and> \<not> (kind_of uc True r = Closes \<and> line_indent (drop_cr r) = [])) (body_raws (map (stuff uc) ls))"
proof -
  have one: "10 \<notin> set r \<and> \<not> (kind_of uc True r = Closes \<and> line_indent (drop_cr r) = [])"
    if "unbroken l" "r = stuff uc l \<or> r = stuff uc l @ [13]" for r l
  proof -
    have "drop_cr r = stuff uc l" using that drop_cr_unbroken(1) [OF stuff_unbroken [OF that(1)]] drop_cr_unbroken(2) by auto
    moreover have "10 \<notin> set r" using that unbroken_set [OF stuff_unbroken [OF that(1)], of 10] by (auto simp: line_break_def)
    ultimately show ?thesis using stuffed_not_closing [OF assms(1), of l] by (auto simp: kind_of_def Let_def)
  qed
  show ?thesis using assms(2)
  proof (induction ls rule: body_raws.induct)
    case 1
    show ?case by (simp add: kind_of_def drop_cr_def msg_marker_def lit_def)
  next
    case (2 l)
    then show ?case using one [of l "stuff uc l @ [13]"] by simp
  next
    case (3 l m ls)
    then show ?case using one [of l "stuff uc l"] by simp
  qed
qed

text \<open>Trimming a joined text, line by line.\<close>

definition lstrip_sp :: "pystr \<Rightarrow> pystr" where "lstrip_sp l = dropWhile (\<lambda>c. c = 32) l"
definition rstrip_sp :: "pystr \<Rightarrow> pystr" where "rstrip_sp l = rev (dropWhile (\<lambda>c. c = 32) (rev l))"

fun lead :: "pystr list \<Rightarrow> pystr list" where
  "lead [] = []"
| "lead (l # ls) = (if lstrip_sp l = [] then lead ls else lstrip_sp l # ls)"

fun trail :: "pystr list \<Rightarrow> pystr list" where
  "trail [] = []"
| "trail (l # ls) = (if trail ls = [] then (if rstrip_sp l = [] then [] else [rstrip_sp l]) else l # trail ls)"

lemma edge_unbroken:
  assumes "unbroken l"
  shows "dropWhile body_edge l = lstrip_sp l" "rev (dropWhile body_edge (rev l)) = rstrip_sp l"
proof -
  have "body_edge c = (c = 32)" if "c \<in> set l" for c
    using unbroken_set [OF assms, of c] that by (auto simp: body_edge_def line_break_def)
  then show "dropWhile body_edge l = lstrip_sp l" "rev (dropWhile body_edge (rev l)) = rstrip_sp l"
    by (auto simp: lstrip_sp_def rstrip_sp_def intro: dropWhile_cong)
qed

lemma lead_join: "list_all unbroken ls \<Longrightarrow> dropWhile body_edge (py_join [10] ls) = py_join [10] (lead ls)"
proof (induction ls rule: body_raws.induct)
  case (2 l)
  then show ?case by (simp add: edge_unbroken)
next
  case (3 l m ls)
  let ?r = "10 # py_join [10] (m # ls)"
  have l: "dropWhile body_edge l = lstrip_sp l" using 3 by (simp add: edge_unbroken)
  have "dropWhile body_edge (l @ ?r) = (if dropWhile body_edge l = [] then dropWhile body_edge ?r else dropWhile body_edge l @ ?r)"
    by (induction l) auto
  moreover have "body_edge 10" by (simp add: body_edge_def)
  then have "dropWhile body_edge ?r = py_join [10] (lead (m # ls))" using 3 by simp
  ultimately show ?case using l by (simp only: py_join.simps lead.simps split: if_split) (simp add: l)
qed simp

lemma trail_join:
  "list_all unbroken ls \<Longrightarrow> rev (dropWhile body_edge (rev (py_join [10] ls))) = py_join [10] (trail ls) \<and>
     (py_join [10] (trail ls) = [] \<longleftrightarrow> trail ls = [])"
proof (induction ls rule: body_raws.induct)
  case (2 l)
  then show ?case by (simp add: edge_unbroken)
next
  case (3 l m ls)
  let ?j = "py_join [10] (m # ls)"
  have l: "rev (dropWhile body_edge (rev l)) = rstrip_sp l" using 3 by (simp add: edge_unbroken)
  have app: "rev (dropWhile P (rev (a @ b))) =
      (if rev (dropWhile P (rev b)) = [] then rev (dropWhile P (rev a)) else a @ rev (dropWhile P (rev b)))"
    for P and a b :: pystr by (simp add: dropWhile_append dropWhile_eq_Nil_conv)
  have j: "rev (dropWhile body_edge (rev ?j)) = py_join [10] (trail (m # ls))"
      "py_join [10] (trail (m # ls)) = [] \<longleftrightarrow> trail (m # ls) = []" using 3 by auto
  have nl: "rev (dropWhile body_edge (rev (l @ [10]))) = rstrip_sp l" by (simp add: body_edge_def l)
  have "py_join [10] (l # m # ls) = (l @ [10]) @ ?j" by simp
  then have "rev (dropWhile body_edge (rev (py_join [10] (l # m # ls)))) =
      (if trail (m # ls) = [] then rstrip_sp l else l @ 10 # py_join [10] (trail (m # ls)))"
    using app [of body_edge "l @ [10]" ?j] j nl by simp
  moreover have "py_join [10] (x # t) = x @ 10 # py_join [10] t" if "t \<noteq> []" for x t using that by (cases t) auto
  ultimately show ?case by (simp only: trail.simps(2) [of l]) auto
qed simp

lemma lead_unbroken: "list_all unbroken ls \<Longrightarrow> list_all unbroken (lead ls)"
  by (induction ls) (auto simp: unbroken_def list_all_iff lstrip_sp_def dest: set_dropWhileD)

lemma trail_unbroken: "list_all unbroken ls \<Longrightarrow> list_all unbroken (trail ls)"
  by (induction ls) (auto simp: unbroken_def list_all_iff rstrip_sp_def dest: set_dropWhileD)

lemma trail_last: "trail ls \<noteq> [] \<Longrightarrow> last (trail ls) \<noteq> []"
  by (induction ls) auto

lemma trim_join: "list_all unbroken ls \<Longrightarrow> trim_body (py_join [10] ls) = py_join [10] (trail (lead ls))"
  using lead_join [of ls] trail_join [OF lead_unbroken] by (simp add: trim_body_def)

lemma splitlines_join:
  "list_all unbroken ls \<Longrightarrow> ls \<noteq> [] \<Longrightarrow> last ls \<noteq> [] \<Longrightarrow> splitlines (py_join [10] ls) = ls"
proof (induction ls rule: body_raws.induct)
  case (2 l)
  then show ?case by (simp add: splitlines_def lines_of_last)
next
  case (3 l m ls)
  have "lines_of (l @ 10 # py_join [10] (m # ls)) = (l, [10]) # lines_of (py_join [10] (m # ls))"
    using 3 by (intro lines_of_break) (auto simp: line_break_def)
  then show ?case using 3 by (simp add: splitlines_def)
qed simp

text \<open>Stuffing and blanks.\<close>

lemma rstrip_sp_app: "\<exists>n. l = rstrip_sp l @ replicate n 32"
proof -
  have "l = rstrip_sp l @ rev (takeWhile (\<lambda>c. c = 32) (rev l))"
    unfolding rstrip_sp_def by (metis rev_append rev_rev_ident takeWhile_dropWhile_id)
  moreover have "takeWhile (\<lambda>c. c = 32) (rev l) = replicate (length (takeWhile (\<lambda>c. c = 32) (rev l))) 32"
    by (rule replicate_eqI) (auto dest: set_takeWhileD)
  ultimately show ?thesis by (metis rev_replicate)
qed

lemma reserved_append: "reserved uc y \<Longrightarrow> reserved uc (y @ t)"
  by (auto simp: reserved_def py_startswith_iff)

lemma startswith_padded: "py_startswith (a @ replicate n 32) p \<Longrightarrow> 32 \<notin> set p \<Longrightarrow> py_startswith a p"
proof (induction a p rule: py_startswith.induct)
  case (2 p ps)
  then show ?case by (cases n) auto
qed auto

lemma reserved_rstrip: "reserved uc (rstrip_sp l) = reserved uc l"
proof
  obtain n where n: "l = rstrip_sp l @ replicate n 32" using rstrip_sp_app by blast
  { assume "reserved uc (rstrip_sp l)"
    then show "reserved uc l" using reserved_append n by metis }
  have "py_upper uc (replicate n 32) = replicate n 32" by (induction n) auto
  then have u: "py_upper uc l = py_upper uc (rstrip_sp l) @ replicate n 32" using n by (metis py_upper_simps(3))
  assume "reserved uc l"
  then show "reserved uc (rstrip_sp l)" unfolding reserved_def u
    using startswith_padded [of "py_upper uc (rstrip_sp l)" n] by (auto simp: lit_def)
qed

lemma reserved_ne: "reserved uc l \<Longrightarrow> rstrip_sp l \<noteq> []"
  using reserved_rstrip [of uc l] by (auto simp: reserved_def lit_def)

lemma rstrip_Cons: "rstrip_sp (c # l) = (if rstrip_sp l = [] \<and> c = 32 then [] else c # rstrip_sp l)"
  unfolding rstrip_sp_def by (auto simp: dropWhile_append)

lemma stuff_blank: "lstrip_sp (stuff uc l) = lstrip_sp l" "rstrip_sp (stuff uc l) = stuff uc (rstrip_sp l)"
  using reserved_ne [of uc l] reserved_rstrip [of uc l] by (auto simp: stuff_def rstrip_Cons) (simp add: lstrip_sp_def)

definition clean_line :: "ucase \<Rightarrow> pystr \<Rightarrow> bool" where
  "clean_line uc l \<longleftrightarrow> \<not> (take 1 l = [32] \<and> reserved uc (tl l))"

lemma unstuff_stuff: "clean_line uc l \<Longrightarrow> unstuff uc (stuff uc l) = l"
  by (auto simp: unstuff_def stuff_def clean_line_def)

lemma clean_rstrip: "clean_line uc l \<Longrightarrow> clean_line uc (rstrip_sp l)"
  by (cases l) (auto simp: clean_line_def rstrip_Cons reserved_rstrip rstrip_sp_def [of "[]"])

lemma trail_clean: "list_all (clean_line uc) ls \<Longrightarrow> list_all (clean_line uc) (trail ls)"
  by (induction ls) (auto simp: clean_rstrip)

lemma stuff_Nil: "stuff uc l = [] \<longleftrightarrow> l = []"
  by (auto simp: stuff_def reserved_def lit_def)

lemma trail_stuff: "trail (map (stuff uc) ls) = map (stuff uc) (trail ls)"
  by (induction ls) (auto simp: stuff_blank stuff_Nil)

lemma lead_stuff: "lead (map (stuff uc) ls) = (case lead ls of [] \<Rightarrow> [] | l # r \<Rightarrow> l # map (stuff uc) r)"
  by (induction ls) (auto simp: stuff_blank)

lemma lead_Cons: "lead ls = l # r \<Longrightarrow> l \<noteq> [] \<and> hd l \<noteq> 32 \<and> set r \<subseteq> set ls"
proof (induction ls)
  case (Cons x xs)
  show ?case
  proof (cases "lstrip_sp x = []")
    case True
    with Cons show ?thesis by auto
  next
    case False
    then have "l = lstrip_sp x" "r = xs" using Cons.prems by auto
    then show ?thesis using False hd_dropWhile [of "\<lambda>c. c = 32" x] by (auto simp: lstrip_sp_def)
  qed
qed simp

lemma unstuff_id: "hd l \<noteq> 32 \<Longrightarrow> unstuff uc l = l"
  by (cases l) (auto simp: unstuff_def)

lemma unstuff_trimmed:
  assumes "list_all (clean_line uc) ls"
  shows "map (unstuff uc) (trail (lead (map (stuff uc) ls))) = trail (lead ls)"
proof (cases "lead ls")
  case Nil
  then show ?thesis by (simp add: lead_stuff)
next
  case (Cons l r)
  have l: "l \<noteq> []" "hd l \<noteq> 32" and r: "list_all (clean_line uc) r"
    using lead_Cons [OF Cons] assms by (auto simp: list_all_iff)
  then have "rstrip_sp l \<noteq> []" "hd (rstrip_sp l) \<noteq> 32" by (cases l; auto simp: rstrip_Cons)+
  moreover have "map (unstuff uc) (map (stuff uc) (trail r)) = trail r"
    using trail_clean [OF r] by (auto simp: list_all_iff unstuff_stuff intro: map_idI)
  ultimately show ?thesis using l by (simp add: Cons lead_stuff trail_stuff unstuff_id)
qed

text \<open>The lines before the text open no block.\<close>

lemma join_crlf: "ls \<noteq> [] \<Longrightarrow> py_join [13, 10] ls @ [13, 10] = raw_lines (map (\<lambda>l. l @ [13]) ls)"
  by (induction "[13, 10 :: nat]" ls rule: py_join.induct) auto

definition inert :: "ucase \<Rightarrow> pystr \<Rightarrow> bool" where
  "inert uc l \<longleftrightarrow> 10 \<notin> set l \<and> msg_marker uc l \<noteq> lit ''begin:msg''"

lemma inert_raw: "list_all (inert uc) ls \<Longrightarrow> list_all (\<lambda>r. 10 \<notin> set r \<and> kind_of uc True r \<noteq> Opens) (map (\<lambda>l. l @ [13]) ls)"
  by (induction ls) (auto simp: inert_def kind_of_def drop_cr_unbroken(2) Let_def)

text \<open>A line that begins with an ASCII character other than a blank or a B.\<close>

lemma inert_first:
  assumes "10 \<notin> set (c # l)" "c < 128" "\<not> blank c" "c \<noteq> 66" "c \<noteq> 98"
  shows "inert uc (c # l)"
proof -
  obtain x where "rev (dropWhile blank (rev (c # l))) = c # x"
  proof -
    have "dropWhile blank (rev l @ [c]) = dropWhile blank (rev l) @ [c]" using assms(3) by (simp add: dropWhile_append3)
    then show ?thesis using that [of "rev (dropWhile blank (rev l))"] by simp
  qed
  then have "msg_marker uc (c # l) = py_casefold uc (c # x)" using assms(3) by (simp add: msg_marker_def)
  then show ?thesis using assms by (auto simp: inert_def lit_def)
qed

lemma nat_text_digits: "list_all digit (nat_text n)"
proof (induction n rule: nat_text.induct)
  case (1 n)
  have "digit (48 + n mod 10)" "n < 10 \<Longrightarrow> digit (48 + n)" by (simp_all add: digit_def)
  then show ?case using 1 by (subst nat_text.simps) simp
qed

lemma recipient_vcards_inert: "recipient_vcards rs = Inr ls \<Longrightarrow> list_all (inert uc) ls"
proof (induction rs arbitrary: ls)
  case (Cons r rs)
  obtain a ls' where v: "validate_recipient r = Inr a" "recipient_vcards rs = Inr ls'"
      and ls: "ls = [lit ''BEGIN:VCARD'', lit ''VERSION:2.1'', lit ''N:;;;;'',
        (if 64 \<in> set a then lit ''EMAIL'' else lit ''TEL'') @ [58] @ a, lit ''END:VCARD''] @ ls'"
    using Cons.prems by (auto simp: recipient_vcard_def split: sum.splits)
  have "list_all plain_char a" using validate_recipient_plain [OF v(1)] .
  then have "10 \<notin> set a" by (auto simp: list_all_iff plain_char_def)
  then have "inert uc ((if 64 \<in> set a then lit ''EMAIL'' else lit ''TEL'') @ [58] @ a)"
    by (auto simp: lit_def intro!: inert_first) (simp_all add: blank_def)
  moreover have "inert uc (lit ''VERSION:2.1'')" "inert uc (lit ''N:;;;;'')" "inert uc (lit ''END:VCARD'')"
    by (auto simp: lit_def intro!: inert_first) (simp_all add: blank_def)
  moreover have "inert uc (lit ''BEGIN:VCARD'')" by (simp add: inert_def msg_marker_def lit_def blank_def)
  ultimately show ?case using Cons.IH [OF v(2)] ls by simp
qed simp

lemma header_inert:
  "list_all (inert uc) [lit ''BEGIN:BMSG'', lit ''VERSION:1.0'', lit ''STATUS:UNREAD'', lit ''TYPE:SMS_GSM'',
      lit ''FOLDER:telecom/msg/outbox'', lit ''BEGIN:VCARD'', lit ''VERSION:2.1'', lit ''N:;;;;'', lit ''TEL:'',
      lit ''END:VCARD'', lit ''BEGIN:BENV'', lit ''BEGIN:BBODY'', lit ''CHARSET:UTF-8'', lit ''LENGTH:'' @ nat_text n]"
proof -
  have "10 \<notin> set (nat_text n)" using nat_text_digits [of n] by (auto simp: list_all_iff digit_def)
  then have "inert uc (lit ''LENGTH:'' @ nat_text n)" by (auto simp: lit_def intro!: inert_first) (simp add: blank_def)
  then show ?thesis by (simp add: inert_def msg_marker_def lit_def blank_def)
qed

lemma build_validated_lines:
  assumes "build_validated uc rs body = Inr blob"
  obtains ls n where "recipient_vcards rs = Inr ls"
    "blob = py_join [13, 10] (bmessage_lines ls n (byte_stuff uc body)) @ [13, 10]"
  using assms by (auto simp: build_validated_def Let_def split: option.splits sum.splits if_splits)

lemma built_message_body:
  assumes "marker_safe uc" "build_validated uc rs body = Inr blob"
  shows "message_body uc blob = Some (byte_stuff uc body @ [13, 10])"
proof -
  obtain ls n where ls: "recipient_vcards rs = Inr ls"
    and blob: "blob = py_join [13, 10] (bmessage_lines ls n (byte_stuff uc body)) @ [13, 10]"
    using build_validated_lines [OF assms(2)] .
  define H where "H = [lit ''BEGIN:BMSG'', lit ''VERSION:1.0'', lit ''STATUS:UNREAD'', lit ''TYPE:SMS_GSM'',
      lit ''FOLDER:telecom/msg/outbox'', lit ''BEGIN:VCARD'', lit ''VERSION:2.1'', lit ''N:;;;;'', lit ''TEL:'',
      lit ''END:VCARD'', lit ''BEGIN:BENV''] @ ls @ [lit ''BEGIN:BBODY'', lit ''CHARSET:UTF-8'', lit ''LENGTH:'' @ nat_text n]"
  define T where "T = [lit ''END:BBODY'', lit ''END:BENV'', lit ''END:BMSG'']"
  let ?cr = "map (\<lambda>l. l @ [13 :: nat])" and ?st = "map (stuff uc) (splitlines body)"
  have H: "list_all (inert uc) H" using header_inert [of uc n] recipient_vcards_inert [OF ls, of uc] by (simp add: H_def)
  have "blob = raw_lines (?cr (bmessage_lines ls n (byte_stuff uc body)))"
    unfolding blob by (rule join_crlf) (simp add: bmessage_lines_def)
  also have "bmessage_lines ls n (byte_stuff uc body) = H @ [lit ''BEGIN:MSG''] @ [byte_stuff uc body] @ [lit ''END:MSG''] @ T"
    by (simp add: bmessage_lines_def H_def T_def)
  finally have "blob = raw_lines (?cr H) @ raw_lines [lit ''BEGIN:MSG'' @ [13]] @ raw_lines (body_raws ?st) @
      raw_lines [lit ''END:MSG'' @ [13]] @ raw_lines (?cr T)"
    by (simp add: raw_body byte_stuff_def)
  then show ?thesis
    using naive_body_framed [OF inert_raw [OF H] body_raws_safe [OF assms(1) splitlines_unbroken [of body]], of "raw_lines (?cr T)"]
    by (simp only: message_body_naive) (simp add: raw_body byte_stuff_def)
qed

lemma trim_crlf: "trim_body (s @ [13, 10]) = trim_body s"
proof -
  have e: "body_edge 13" "body_edge 10" by (simp_all add: body_edge_def)
  have "dropWhile body_edge (s @ [13, 10]) = (if dropWhile body_edge s = [] then [] else dropWhile body_edge s @ [13, 10])"
    using e by (induction s) auto
  then show ?thesis using e by (cases "dropWhile body_edge s = []") (simp_all add: trim_body_def del: dropWhile_eq_Nil_conv)
qed

lemma built_parsed_body:
  assumes "marker_safe uc" "build_validated uc rs body = Inr blob" "list_all (clean_line uc) (splitlines body)"
  shows "parsed_body uc blob = Some (trim_body (py_join [10] (splitlines body)))"
proof -
  let ?ls = "splitlines body"
  define t where "t = trail (lead (map (stuff uc) ?ls))"
  have ub: "list_all unbroken ?ls" "list_all unbroken (map (stuff uc) ?ls)"
    using splitlines_unbroken [of body] by (auto simp: list_all_iff stuff_unbroken)
  have t: "trim_body (byte_stuff uc body) = py_join [10] t" using trim_join [OF ub(2)] by (simp add: byte_stuff_def t_def)
  have u: "list_all unbroken t" unfolding t_def by (intro trail_unbroken lead_unbroken ub)
  have m: "map (unstuff uc) t = trail (lead ?ls)" unfolding t_def by (rule unstuff_trimmed [OF assms(3)])
  have r: "trim_body (py_join [10] ?ls) = py_join [10] (map (unstuff uc) t)" using trim_join [OF ub(1)] m by simp
  show ?thesis
  proof (cases "t = []")
    case True
    then show ?thesis using r t by (simp add: parsed_body_def built_message_body [OF assms(1,2)] trim_crlf)
  next
    case False
    then have l: "last t \<noteq> []" using trail_last by (simp add: t_def)
    then have "py_join [10] t \<noteq> []" "splitlines (py_join [10] t) = t"
      using splitlines_join [OF u False] False by (auto simp: splitlines_def)
    then show ?thesis using r t by (simp add: parsed_body_def built_message_body [OF assms(1,2)] trim_crlf)
  qed
qed


definition ascii_case :: ucase where
  "ascii_case = \<lparr>upper_char = (\<lambda>c. [c]), fold_char = (\<lambda>c. [c])\<rparr>"


end
