(* ===== verification/Ancs_Client.thy ===== *)
theory Ancs_Client
  imports Ancs_Wire Ancs_Backlog Py_Text "HOL-Library.List_Lexorder"
begin

text \<open>
  The ANCS client (\<open>ancs/client.py\<close>): discovery and subscription of the three characteristics, the
  serialized Control Point requests with their timeouts and retries, the pipeline from a Notification Source
  event over the app probe and the policy to the emitted event, and the notification actions.

  The client's D-Bus calls and callbacks are entries of its history (newest first), which also records the
  Notification Source events and the end of each UID session. Asynchronous calls that BlueZ has not answered
  are part of the state, and their replies are steps of their own. A blocking call answers at once; where the
  source checks afterwards that its attempt is still current, the environment decides. Python object
  identities (requests, write tokens) are numbers drawn from a counter.
\<close>

section \<open>Constants\<close>

definition REQUEST_TIMEOUT_SECONDS :: int where [consts_defs]: "REQUEST_TIMEOUT_SECONDS = 15"
definition CONTROL_POINT_BUSY_RETRY_SECONDS :: int where [consts_defs]: "CONTROL_POINT_BUSY_RETRY_SECONDS = 1"
definition MAX_CONTROL_POINT_BUSY_RETRIES :: nat where [consts_defs]: "MAX_CONTROL_POINT_BUSY_RETRIES = 3"
definition SUBSCRIBE_RETRY_SECONDS :: int where [consts_defs]: "SUBSCRIBE_RETRY_SECONDS = 2"
definition AUTHORIZATION_RETRY_SECONDS :: int where [consts_defs]: "AUTHORIZATION_RETRY_SECONDS = 5"
definition MANAGER_RETRY_SECONDS :: int where [consts_defs]: "MANAGER_RETRY_SECONDS = 2"
definition BEARER_SETTLE_SECONDS :: int where [consts_defs]: "BEARER_SETTLE_SECONDS = 2"
definition TRANSPORT_RESET_SECONDS :: int where [consts_defs]: "TRANSPORT_RESET_SECONDS = 15"
definition LEGACY_RETRY_CAP_SECONDS :: int where [consts_defs]: "LEGACY_RETRY_CAP_SECONDS = 60"
definition LEGACY_HEALTH_SECONDS :: int where [consts_defs]: "LEGACY_HEALTH_SECONDS = 60"
definition MAX_NOTIFY_REFRESHES_PER_LINK :: nat where [consts_defs]: "MAX_NOTIFY_REFRESHES_PER_LINK = 1"
definition MAX_ANCS_REQUESTS :: nat where [consts_defs]: "MAX_ANCS_REQUESTS = 512"
definition MAX_ANCS_APP_CACHE :: nat where [consts_defs]: "MAX_ANCS_APP_CACHE = 256"
definition MAX_ANCS_PENDING_PER_APP :: nat where [consts_defs]: "MAX_ANCS_PENDING_PER_APP = 128"
definition MAX_ANCS_ACTIONABLE :: nat where [consts_defs]: "MAX_ANCS_ACTIONABLE = 64"
definition MAX_ANCS_ACTIONS_IN_FLIGHT :: nat where [consts_defs]: "MAX_ANCS_ACTIONS_IN_FLIGHT = 4"
definition MESSAGES_BUNDLE :: pystr where "MESSAGES_BUNDLE = lit ''com.apple.MobileSMS''"
definition NOTIFICATION_SOURCE_CHAR :: pystr where "NOTIFICATION_SOURCE_CHAR = lit ''9fbf120d-6301-42d9-8c58-25e699a21dbd''"
definition CONTROL_POINT_CHAR :: pystr where "CONTROL_POINT_CHAR = lit ''69d1d8f3-45e1-49a8-9821-9bbdfdaad9d9''"
definition DATA_SOURCE_CHAR :: pystr where "DATA_SOURCE_CHAR = lit ''22eac6e9-24d6-4bb5-be44-b36ace7c7bfb''"
definition NotificationAdded :: nat where [consts_defs]: "NotificationAdded = 0"
definition NotificationRemoved :: nat where [consts_defs]: "NotificationRemoved = 2"
definition IncomingCall :: nat where [consts_defs]: "IncomingCall = 1"
definition MissedCall :: nat where [consts_defs]: "MissedCall = 2"

section \<open>D-Bus errors\<close>

text \<open>Name and message of an exception, empty when it has none, and \<open>str(error)\<close>.\<close>

record dbus_error =
  er_name :: pystr
  er_message :: pystr
  er_text :: pystr

definition er_detail :: "dbus_error \<Rightarrow> pystr" where
  "er_detail e = (if er_message e \<noteq> [] then er_message e else er_text e)"

definition py_endswith :: "pystr \<Rightarrow> pystr \<Rightarrow> bool" where
  "py_endswith s p = py_startswith (rev s) (rev p)"

definition connection_was_lost :: "ucase \<Rightarrow> dbus_error \<Rightarrow> bool" where
  "connection_was_lost uc e =
     (let detail = py_casefold uc (er_detail e)
      in py_endswith (py_casefold uc (er_name e)) (lit ''.notconnected'') \<or>
         py_contains (lit ''not connected'') detail \<or> py_contains (lit ''no att transport'') detail)"

definition notify_registration_pending :: "ucase \<Rightarrow> dbus_error \<Rightarrow> bool" where
  "notify_registration_pending uc e = py_endswith (py_casefold uc (er_name e)) (lit ''.inprogress'')"

definition notification_is_already_stopped :: "ucase \<Rightarrow> dbus_error \<Rightarrow> bool" where
  "notification_is_already_stopped uc e =
     (let name = py_casefold uc (er_name e); detail = py_casefold uc (er_detail e)
      in py_endswith name (lit ''.unknownobject'') \<or> py_endswith name (lit ''.unknowninterface'') \<or>
         (\<exists>m \<in> {lit ''not notifying'', lit ''no notify session'', lit ''no notification session'',
                lit ''notify session not started''}. py_contains m detail))"

text \<open>
  \<open>_ATT_ERROR_RE\<close>: \<open>att error:?\s*0x([0-9a-f]{1,2})\b\<close>, ignoring case. The number ends at a word boundary;
  which characters beyond ASCII are word characters is a parameter.
\<close>

definition hex_value :: "nat \<Rightarrow> nat option" where
  "hex_value c = (if 48 \<le> c \<and> c \<le> 57 then Some (c - 48)
     else if 97 \<le> c \<and> c \<le> 102 then Some (c - 87) else if 65 \<le> c \<and> c \<le> 70 then Some (c - 55) else None)"

definition word_char :: "(nat \<Rightarrow> bool) \<Rightarrow> nat \<Rightarrow> bool" where
  "word_char wc c \<longleftrightarrow> 48 \<le> c \<and> c \<le> 57 \<or> 65 \<le> c \<and> c \<le> 90 \<or> 97 \<le> c \<and> c \<le> 122 \<or> c = 95 \<or> 128 \<le> c \<and> wc c"

definition at_boundary :: "(nat \<Rightarrow> bool) \<Rightarrow> pystr \<Rightarrow> bool" where
  "at_boundary wc s \<longleftrightarrow> s = [] \<or> \<not> word_char wc (hd s)"

definition hex_number :: "(nat \<Rightarrow> bool) \<Rightarrow> pystr \<Rightarrow> nat option" where
  "hex_number wc s =
     (case map hex_value (take 2 s) of
        [Some a, Some b] \<Rightarrow>
          if at_boundary wc (drop 2 s) then Some (16 * a + b) else if at_boundary wc (drop 1 s) then Some a else None
      | Some a # _ \<Rightarrow> if at_boundary wc (drop 1 s) then Some a else None
      | _ \<Rightarrow> None)"

definition lower_ascii :: "nat \<Rightarrow> nat" where
  "lower_ascii c = (if 65 \<le> c \<and> c \<le> 90 then c + 32 else c)"

definition att_error_at :: "(nat \<Rightarrow> bool) \<Rightarrow> pystr \<Rightarrow> nat option" where
  "att_error_at wc s =
     (let low = map lower_ascii s
      in if \<not> py_startswith low (lit ''att error'') then None
         else let r = drop 9 s;
                  r = (if take 1 r = [58] then drop 1 r else r);
                  r = dropWhile py_isspace r
           in if py_startswith (map lower_ascii r) (lit ''0x'') then hex_number wc (drop 2 r) else None)"

fun att_error_code :: "(nat \<Rightarrow> bool) \<Rightarrow> pystr \<Rightarrow> nat option" where
  "att_error_code wc [] = None"
| "att_error_code wc (c # s) =
     (case att_error_at wc (c # s) of Some n \<Rightarrow> Some n | None \<Rightarrow> att_error_code wc s)"

datatype action_outcome = ACTION_SENT | ACTION_UNAVAILABLE | ACTION_DISCONNECTED | ACTION_BUSY
  | ACTION_REJECTED | ACTION_UNSUPPORTED | ACTION_FAILED

definition action_error_result :: "ucase \<Rightarrow> (nat \<Rightarrow> bool) \<Rightarrow> dbus_error \<Rightarrow> action_outcome" where
  "action_error_result uc wc e =
     (if connection_was_lost uc e then ACTION_DISCONNECTED
      else case att_error_code wc (er_detail e) of
             None \<Rightarrow> ACTION_FAILED
           | Some code \<Rightarrow>
               if code = 0xA2 then ACTION_UNAVAILABLE else if code = 0xA3 then ACTION_REJECTED
               else if code = 0xA0 \<or> code = 0xA1 then ACTION_UNSUPPORTED else ACTION_FAILED)"

section \<open>State\<close>

datatype req_key = Authorization_key | Notification_key nat | App_key pystr | Action_key int | Retired_key req_key

text \<open>\<open>ar_result\<close> stands for the \<open>on_result\<close> callback; \<open>ar_token\<close> is the token the click presented.\<close>

record action_request =
  ar_uid :: int
  ar_positive :: bool
  ar_result :: "nat option"
  ar_token :: int

record actionable =
  ao_token :: int
  ao_positive :: bool
  ao_negative :: bool
  ao_in_flight :: bool

record pending_request =
  rq_id :: nat
  rq_key :: req_key
  rq_packet :: "byte list"
  rq_assembler :: "DataSourceAssembler option"
  rq_notification :: "Notification option"
  rq_app_probe :: bool
  rq_expected_app :: "pystr option"
  rq_auth_probe :: bool
  rq_busy_retries :: nat
  rq_label_ids :: "nat list"
  rq_action :: "action_request option"
  rq_discarded :: bool

record ancs_event =
  ae_id :: nat
  ae_app_id :: pystr
  ae_app_name :: pystr
  ae_title :: pystr
  ae_subtitle :: pystr
  ae_body :: pystr
  ae_category :: nat
  ae_positive_label :: pystr
  ae_negative_label :: pystr
  ae_token :: int

datatype ancs_timer = Manager_retry | Subscribe_retry | Authorization_retry | Bearer_settle | Transport_reset
  | Legacy_health | Request_timeout | Busy_retry

text \<open>
  \<open>Announced\<close> and \<open>Clicked\<close> are what arrives; \<open>Session_end\<close> and \<open>Actions_retired\<close> mark the runs of
  \<open>_end_session\<close> and \<open>_reset_actions\<close>; the rest are the client's calls.
\<close>

datatype ancs_call =
    Write_value pending_request
  | Start_notify pystr | Stop_notify pystr | Get_notifying pystr
  | On_event ancs_event | On_status | On_transport_failure | On_call_activity string
  | On_notification_removed int | On_actions_reset | On_removed nat | On_session_reset
  | Action_result nat action_outcome | Asked_app pystr bool
  | Clicked nat | Announced Notification | Session_end | Actions_retired

type_synonym ancs_history = "(ancs_timer, ancs_call) eff list"

text \<open>A \<open>WriteValue\<close> that BlueZ has not answered, and a \<open>StopNotify\<close> or \<open>StartNotify\<close> of a CCC refresh.\<close>

record write_call =
  wc_token :: nat
  wc_generation :: nat
  wc_request :: pending_request

record notify_call =
  nc_start :: bool
  nc_path :: pystr
  nc_generation :: nat
  nc_token :: nat
  nc_remaining :: "pystr list"

record AncsClient =
  cl_live_seen :: bool
  cl_ns_path :: "pystr option"
  cl_ds_path :: "pystr option"
  cl_cp_path :: "pystr option"
  cl_notify_started :: bool
  cl_authorized :: bool
  cl_health_proof :: "real option"
  cl_permission_denied :: bool
  cl_was_authorized :: bool
  cl_bearer_connected :: "bool option"
  cl_subscription_gen :: nat
  cl_legacy_connected :: bool
  cl_legacy_delay :: int
  cl_bearer_ready :: bool
  cl_transport_blocked :: bool
  cl_owned_paths :: "pystr set"
  cl_notify_refresh :: "nat option"
  cl_notify_refreshes :: nat
  cl_app_names :: "(pystr \<times> pystr) list"
  cl_observed_apps :: "(pystr \<times> unit) list"
  cl_pending_lookups :: "(pystr \<times> NotificationAttributes list) list"
  cl_lookup_requested :: "pystr set"
  cl_categories :: "(nat \<times> nat) list"
  cl_queue :: "(req_key, pending_request) RequestBacklog"
  cl_active :: "pending_request option"
  cl_write_token :: "nat option"
  cl_actionable :: "(int \<times> actionable) list"
  cl_next_action :: int
  cl_receivers :: "(nat \<times> nat) option"
  cl_watching :: bool
  cl_owner_gen :: nat
  cl_owner_available :: bool
  cl_started :: bool
  cl_timers :: "ancs_timer \<Rightarrow> nat option"
  cl_writes :: "write_call list"
  cl_notifies :: "notify_call list"
  cl_next :: nat
  cl_hist :: ancs_history

record ancs_env =
  en_sched :: "ancs_history \<Rightarrow> nat"
  en_clock :: "ancs_history \<Rightarrow> real"
  en_case :: ucase
  en_word :: "nat \<Rightarrow> bool"
  en_device :: pystr
  en_has :: "string \<Rightarrow> bool"
  en_non_messages :: "ancs_history \<Rightarrow> bool"
  en_include_app :: "ancs_history \<Rightarrow> pystr \<Rightarrow> bool"
  en_actions :: "ancs_history \<Rightarrow> bool"
  en_write :: "ancs_history \<Rightarrow> dbus_error option"
  en_receive :: "ancs_history \<Rightarrow> dbus_error option"
  en_start_notify :: "ancs_history \<Rightarrow> dbus_error option"
  en_stop_notify :: "ancs_history \<Rightarrow> dbus_error option"
  en_dispatch :: "ancs_history \<Rightarrow> dbus_error option"
  en_notifying :: "ancs_history \<Rightarrow> bool option"
  en_current :: "ancs_history \<Rightarrow> bool"

definition AncsClient_init :: "bool \<Rightarrow> AncsClient" where
  "AncsClient_init previously_authorized =
     \<lparr>cl_live_seen = False, cl_ns_path = None, cl_ds_path = None, cl_cp_path = None, cl_notify_started = False,
      cl_authorized = False, cl_health_proof = None, cl_permission_denied = False,
      cl_was_authorized = previously_authorized, cl_bearer_connected = None, cl_subscription_gen = 0,
      cl_legacy_connected = False, cl_legacy_delay = SUBSCRIBE_RETRY_SECONDS, cl_bearer_ready = False,
      cl_transport_blocked = False, cl_owned_paths = {}, cl_notify_refresh = None, cl_notify_refreshes = 0,
      cl_app_names = [], cl_observed_apps = [], cl_pending_lookups = [], cl_lookup_requested = {},
      cl_categories = [], cl_queue = \<lparr>rb_maximum = MAX_ANCS_REQUESTS, rb_queue = [], rb_reserved = {}\<rparr>,
      cl_active = None, cl_write_token = None, cl_actionable = [], cl_next_action = 1, cl_receivers = None,
      cl_watching = False, cl_owner_gen = 0, cl_owner_available = True, cl_started = False,
      cl_timers = (\<lambda>_. None), cl_writes = [], cl_notifies = [], cl_next = 0, cl_hist = []\<rparr>"

section \<open>Timers, callbacks, dictionaries\<close>

definition cl_call :: "ancs_call \<Rightarrow> AncsClient \<Rightarrow> AncsClient" where
  "cl_call e s = s\<lparr>cl_hist := Call e # cl_hist s\<rparr>"

definition callback :: "ancs_env \<Rightarrow> string \<Rightarrow> ancs_call \<Rightarrow> AncsClient \<Rightarrow> AncsClient" where
  "callback env name e s = (if en_has env name then cl_call e s else s)"

definition start_timer :: "ancs_env \<Rightarrow> ancs_timer \<Rightarrow> int \<Rightarrow> AncsClient \<Rightarrow> AncsClient" where
  "start_timer env k d s =
     (let i = en_sched env (cl_hist s)
      in s\<lparr>cl_timers := (cl_timers s)(k \<mapsto> i), cl_hist := Schedule i d k # cl_hist s\<rparr>)"

definition cancel_timer :: "ancs_timer \<Rightarrow> AncsClient \<Rightarrow> AncsClient" where
  "cancel_timer k s =
     (case cl_timers s k of
        None \<Rightarrow> s
      | Some i \<Rightarrow> s\<lparr>cl_timers := (cl_timers s)(k := None), cl_hist := Cancel i # cl_hist s\<rparr>)"

text \<open>An \<open>OrderedDict\<close> entry is set, moved to the end, and the oldest entries beyond the limit go.\<close>

definition od_put :: "nat \<Rightarrow> 'k \<Rightarrow> 'v \<Rightarrow> ('k \<times> 'v) list \<Rightarrow> ('k \<times> 'v) list" where
  "od_put limit k v xs = (let ys = al_pop k xs @ [(k, v)] in drop (length ys - limit) ys)"

definition transport_available :: "AncsClient \<Rightarrow> bool" where
  "transport_available s \<longleftrightarrow> cl_bearer_connected s = Some True \<or> cl_legacy_connected s"

definition cl_connected :: "AncsClient \<Rightarrow> bool" where
  "cl_connected s \<longleftrightarrow> transport_available s \<and> cl_bearer_ready s \<and> \<not> cl_transport_blocked s \<and>
     cl_notify_started s \<and> cl_authorized s"

definition paths_known :: "AncsClient \<Rightarrow> bool" where
  "paths_known s \<longleftrightarrow> cl_ns_path s \<noteq> None \<and> cl_ds_path s \<noteq> None \<and> cl_cp_path s \<noteq> None"

definition packet_of :: "wire_error + byte list \<Rightarrow> byte list" where
  "packet_of r = (case r of Inl _ \<Rightarrow> [] | Inr p \<Rightarrow> p)"

section \<open>Requests and notification actions\<close>

definition report_action :: "action_request \<Rightarrow> action_outcome \<Rightarrow> AncsClient \<Rightarrow> AncsClient" where
  "report_action a r s = (case ar_result a of None \<Rightarrow> s | Some k \<Rightarrow> cl_call (Action_result k r) s)"

definition is_action :: "(action_request \<Rightarrow> bool) \<Rightarrow> pending_request \<Rightarrow> bool" where
  "is_action p rq = (case rq_action rq of None \<Rightarrow> False | Some a \<Rightarrow> p a)"

definition report_removed :: "action_outcome \<Rightarrow> pending_request \<Rightarrow> AncsClient \<Rightarrow> AncsClient" where
  "report_removed r rq s = (case rq_action rq of None \<Rightarrow> s | Some a \<Rightarrow> report_action a r s)"

definition drop_queued_actions ::
  "(action_request \<Rightarrow> bool) \<Rightarrow> action_outcome \<Rightarrow> AncsClient \<Rightarrow> AncsClient \<times> nat" where
  "drop_queued_actions p r s =
     (let (q, removed) = remove_if (is_action p) (cl_queue s)
      in (fold (report_removed r) removed (s\<lparr>cl_queue := q\<rparr>), length removed))"

definition reset_actions :: "ancs_env \<Rightarrow> AncsClient \<Rightarrow> AncsClient" where
  "reset_actions env s =
     (let had_actions = (cl_actionable s \<noteq> []);
          (s, dropped) = drop_queued_actions (\<lambda>_. True) ACTION_UNAVAILABLE (s\<lparr>cl_actionable := []\<rparr>);
          s = cl_call Actions_retired s
      in if had_actions \<or> dropped \<noteq> 0 then callback env ''on_actions_reset'' On_actions_reset s else s)"

definition forget_actionable :: "ancs_env \<Rightarrow> int \<Rightarrow> AncsClient \<Rightarrow> AncsClient" where
  "forget_actionable env uid s =
     (let (s, dropped) = drop_queued_actions (\<lambda>a. ar_uid a = uid) ACTION_UNAVAILABLE s;
          known = (uid \<in> fst ` set (cl_actionable s));
          s = s\<lparr>cl_actionable := al_pop uid (cl_actionable s)\<rparr>
      in if \<not> known \<and> dropped = 0 then s
         else callback env ''on_notification_removed'' (On_notification_removed uid) s)"

text \<open>\<open>None\<close> retires every notification, \<open>Some uid\<close> only that one.\<close>

definition about_uid :: "nat option \<Rightarrow> pending_request \<Rightarrow> bool" where
  "about_uid uid rq =
     (case rq_notification rq of None \<Rightarrow> False | Some n \<Rightarrow> (case uid of None \<Rightarrow> True | Some u \<Rightarrow> n_id n = u))"

definition discard_active :: "nat option \<Rightarrow> AncsClient \<Rightarrow> AncsClient" where
  "discard_active uid s =
     (case cl_active s of
        None \<Rightarrow> s
      | Some rq \<Rightarrow>
          if about_uid uid rq \<and> \<not> rq_discarded rq
          then s\<lparr>cl_active := Some (rq\<lparr>rq_discarded := True, rq_key := Retired_key (rq_key rq)\<rparr>),
                 cl_queue := finish (rq_key rq) (cl_queue s)\<rparr>
          else s)"

definition discard_lookups ::
  "nat option \<Rightarrow> (pystr \<times> NotificationAttributes list) list \<Rightarrow> (pystr \<times> NotificationAttributes list) list" where
  "discard_lookups uid ps =
     filter (\<lambda>p. snd p \<noteq> [])
       (map (\<lambda>(app, pending). (app, filter (\<lambda>a. case uid of None \<Rightarrow> False | Some u \<Rightarrow> na_id a \<noteq> u) pending)) ps)"

definition discard_notification_requests :: "nat option \<Rightarrow> AncsClient \<Rightarrow> AncsClient" where
  "discard_notification_requests uid s =
     (let s = discard_active uid (s\<lparr>cl_queue := fst (remove_if (about_uid uid) (cl_queue s))\<rparr>)
      in s\<lparr>cl_pending_lookups := discard_lookups uid (cl_pending_lookups s)\<rparr>)"

definition end_session :: "ancs_env \<Rightarrow> AncsClient \<Rightarrow> AncsClient" where
  "end_session env s =
     callback env ''on_session_reset'' On_session_reset
       (cl_call Session_end (discard_notification_requests None (s\<lparr>cl_live_seen := False\<rparr>)))"

definition finish_active_request :: "AncsClient \<Rightarrow> AncsClient" where
  "finish_active_request s =
     cancel_timer Request_timeout
       (case cl_active s of
          None \<Rightarrow> s
        | Some rq \<Rightarrow> s\<lparr>cl_active := None, cl_queue := finish (rq_key rq) (cl_queue s)\<rparr>)"

definition reset_requests :: "AncsClient \<Rightarrow> AncsClient" where
  "reset_requests s =
     (let s = fst (drop_queued_actions (\<lambda>_. True) ACTION_DISCONNECTED (cancel_timer Busy_retry s));
          s = finish_active_request (s\<lparr>cl_queue := clear_backlog (cl_queue s)\<rparr>)
      in s\<lparr>cl_pending_lookups := [], cl_lookup_requested := {}\<rparr>)"

definition remember_actionable :: "ancs_event \<Rightarrow> AncsClient \<Rightarrow> AncsClient \<times> ancs_event" where
  "remember_actionable ev s =
     (let positive = (ae_positive_label ev \<noteq> []); negative = (ae_negative_label ev \<noteq> []);
          token = cl_next_action s
      in if \<not> (positive \<or> negative) then (s, ev)
         else (s\<lparr>cl_next_action := token + 1,
                 cl_actionable := od_put MAX_ANCS_ACTIONABLE (int (ae_id ev))
                   \<lparr>ao_token = token, ao_positive = positive, ao_negative = negative, ao_in_flight = False\<rparr>
                   (cl_actionable s)\<rparr>,
               ev\<lparr>ae_token := token\<rparr>))"

definition emit :: "ancs_env \<Rightarrow> NotificationAttributes \<Rightarrow> pystr \<Rightarrow> AncsClient \<Rightarrow> AncsClient" where
  "emit env attrs app_name s =
     (let ev = \<lparr>ae_id = na_id attrs, ae_app_id = na_app_id attrs, ae_app_name = app_name, ae_title = na_title attrs,
                ae_subtitle = na_subtitle attrs, ae_body = na_message attrs,
                ae_category = dict_get (na_id attrs) 0 (cl_categories s),
                ae_positive_label = na_positive_action_label attrs,
                ae_negative_label = na_negative_action_label attrs, ae_token = 0\<rparr>;
          (s, ev) = (if en_actions env (cl_hist s) then remember_actionable ev s
                     else (s, ev\<lparr>ae_positive_label := [], ae_negative_label := []\<rparr>))
      in cl_call (On_event ev) s)"

definition schedule_authorization_retry :: "ancs_env \<Rightarrow> AncsClient \<Rightarrow> AncsClient" where
  "schedule_authorization_retry env s =
     (if \<not> cl_started s \<or> \<not> cl_notify_started s \<or> cl_authorized s \<or> cl_timers s Authorization_retry \<noteq> None then s
      else start_timer env Authorization_retry AUTHORIZATION_RETRY_SECONDS s)"

text \<open>The waiters for an app name are flushed in their order.\<close>

definition flush_lookups :: "ancs_env \<Rightarrow> pystr \<Rightarrow> pystr \<Rightarrow> AncsClient \<Rightarrow> AncsClient" where
  "flush_lookups env app_id app_name s =
     (let pending = dict_get app_id [] (cl_pending_lookups s);
          s = s\<lparr>cl_lookup_requested := cl_lookup_requested s - {app_id},
                cl_pending_lookups := al_pop app_id (cl_pending_lookups s)\<rparr>
      in fold (\<lambda>attrs. emit env attrs app_name) pending s)"

definition abandon_request :: "ancs_env \<Rightarrow> pending_request \<Rightarrow> AncsClient \<Rightarrow> AncsClient" where
  "abandon_request env rq s =
     (let s = s\<lparr>cl_queue := finish (rq_key rq) (cl_queue s)\<rparr>
      in if rq_auth_probe rq then schedule_authorization_retry env s
         else case rq_assembler rq of
           None \<Rightarrow> s
         | Some a \<Rightarrow>
             (case das_app_id a of
                None \<Rightarrow> s
              | Some app_id \<Rightarrow>
                  if rq_notification rq \<noteq> None \<or> app_id = [] then s else flush_lookups env app_id app_id s))"

definition action_written :: "action_request \<Rightarrow> AncsClient \<Rightarrow> AncsClient" where
  "action_written a s = report_action a ACTION_SENT (s\<lparr>cl_actionable := al_pop (ar_uid a) (cl_actionable s)\<rparr>)"

definition action_failed :: "ancs_env \<Rightarrow> action_request \<Rightarrow> dbus_error \<Rightarrow> AncsClient \<Rightarrow> AncsClient" where
  "action_failed env a e s =
     (let result = action_error_result (en_case env) (en_word env) e
      in report_action a result
           (if result = ACTION_UNAVAILABLE then s\<lparr>cl_actionable := al_pop (ar_uid a) (cl_actionable s)\<rparr>
            else s\<lparr>cl_actionable :=
              map (\<lambda>(u, x). (u, if u = ar_uid a then x\<lparr>ao_in_flight := False\<rparr> else x)) (cl_actionable s)\<rparr>))"

section \<open>Losing the transport\<close>

fun stop_paths :: "ancs_env \<Rightarrow> pystr list \<Rightarrow> AncsClient \<Rightarrow> AncsClient" where
  "stop_paths env [] s = s"
| "stop_paths env (path # paths) s =
     (let s = cl_call (Stop_notify path) s;
          stopped = (case en_stop_notify env (cl_hist s) of
                       None \<Rightarrow> True | Some e \<Rightarrow> notification_is_already_stopped (en_case env) e)
      in stop_paths env paths (if stopped then s\<lparr>cl_owned_paths := cl_owned_paths s - {path}\<rparr> else s))"

definition stop_bluez_notifications :: "ancs_env \<Rightarrow> AncsClient \<Rightarrow> AncsClient" where
  "stop_bluez_notifications env s =
     (let current = filter (\<lambda>p. p \<in> cl_owned_paths s)
            (List.map_filter id [cl_ns_path s, cl_ds_path s]);
          remaining = sorted_list_of_set (cl_owned_paths s - set current)
      in stop_paths env (current @ remaining) s)"

definition clear_characteristic_subscription :: "ancs_env \<Rightarrow> bool \<Rightarrow> AncsClient \<Rightarrow> AncsClient" where
  "clear_characteristic_subscription env stop_notify s =
     (let s = s\<lparr>cl_subscription_gen := cl_subscription_gen s + 1\<rparr>;
          s = cancel_timer Legacy_health (cancel_timer Authorization_retry s);
          s = s\<lparr>cl_receivers := None, cl_notify_refresh := None\<rparr>;
          s = (if cl_notify_started s \<and> stop_notify then stop_bluez_notifications env s else s);
          s = s\<lparr>cl_notify_started := False, cl_authorized := False\<rparr>
      in end_session env (reset_actions env (reset_requests s)))"

definition schedule_subscribe_retry :: "ancs_env \<Rightarrow> AncsClient \<Rightarrow> AncsClient" where
  "schedule_subscribe_retry env s =
     (if \<not> cl_started s \<or> cl_timers s Subscribe_retry \<noteq> None \<or> \<not> paths_known s then s
      else if cl_legacy_connected s
      then start_timer env Subscribe_retry (cl_legacy_delay s)
             (s\<lparr>cl_legacy_delay := min (cl_legacy_delay s * 2) LEGACY_RETRY_CAP_SECONDS\<rparr>)
      else start_timer env Subscribe_retry SUBSCRIBE_RETRY_SECONDS s)"

definition schedule_transport_reset :: "ancs_env \<Rightarrow> AncsClient \<Rightarrow> AncsClient" where
  "schedule_transport_reset env s =
     (if cl_started s \<and> cl_bearer_connected s = Some True \<and> en_has env ''on_transport_failure'' \<and>
         cl_timers s Transport_reset = None
      then start_timer env Transport_reset TRANSPORT_RESET_SECONDS s else s)"

definition mark_transport_failed :: "ancs_env \<Rightarrow> AncsClient \<Rightarrow> AncsClient" where
  "mark_transport_failed env s =
     (let was_connected = cl_connected s;
          s = s\<lparr>cl_transport_blocked := True, cl_bearer_ready := False\<rparr>;
          s = cancel_timer Subscribe_retry (cancel_timer Bearer_settle s);
          s = clear_characteristic_subscription env False s;
          s = (if cl_legacy_connected s then schedule_subscribe_retry env s else schedule_transport_reset env s)
      in if was_connected then callback env ''on_status'' On_status s else s)"

definition permission_words :: "pystr list" where
  "permission_words = [lit ''not authorized'', lit ''permission denied'', lit ''forbidden'']"

definition observe_permission_error :: "ancs_env \<Rightarrow> dbus_error \<Rightarrow> AncsClient \<Rightarrow> AncsClient" where
  "observe_permission_error env e s =
     (if py_endswith (er_name e) (lit ''.NotAuthorized'') \<or> py_endswith (er_name e) (lit ''.NotPermitted'') \<or>
         list_ex (\<lambda>w. py_contains w (py_casefold (en_case env) (er_message e))) permission_words
      then let s = s\<lparr>cl_permission_denied := True\<rparr>;
               s = (if cl_authorized s then callback env ''on_status'' On_status (s\<lparr>cl_authorized := False\<rparr>) else s)
        in schedule_authorization_retry env s
      else s)"

section \<open>The Control Point\<close>

definition is_current :: "write_call \<Rightarrow> AncsClient \<Rightarrow> bool" where
  "is_current c s \<longleftrightarrow> cl_started s \<and> wc_generation c = cl_owner_gen s \<and>
     (case cl_active s of None \<Rightarrow> False | Some rq \<Rightarrow> rq_id rq = rq_id (wc_request c))"

definition release_write :: "write_call \<Rightarrow> AncsClient \<Rightarrow> AncsClient \<times> bool" where
  "release_write c s =
     (if cl_write_token s = Some (wc_token c) then (s\<lparr>cl_write_token := None\<rparr>, True) else (s, False))"

text \<open>
  The closures \<open>written\<close> and \<open>failed\<close> of \<open>_pump_requests\<close>, without the call of \<open>_pump_requests\<close> at
  their end: the second component says whether they make it.
\<close>

definition written :: "ancs_env \<Rightarrow> write_call \<Rightarrow> AncsClient \<Rightarrow> AncsClient \<times> bool" where
  "written env c s0 =
     (case release_write c s0 of (s, released) \<Rightarrow>
        case rq_action (wc_request c) of
          Some a \<Rightarrow>
            if is_current c s then (action_written a (finish_active_request s), True)
            else (report_action a ACTION_SENT s, released)
        | None \<Rightarrow>
            if \<not> is_current c s then (s, released)
            else (start_timer env Request_timeout REQUEST_TIMEOUT_SECONDS s, False))"

definition retry_busy :: "ancs_env \<Rightarrow> pending_request \<Rightarrow> AncsClient \<Rightarrow> AncsClient" where
  "retry_busy env rq s =
     (let rq = rq\<lparr>rq_busy_retries := rq_busy_retries rq + 1\<rparr>;
          q = (case push_front (rq_key rq) rq (cl_queue s) of Inl _ \<Rightarrow> cl_queue s | Inr q \<Rightarrow> q)
      in start_timer env Busy_retry CONTROL_POINT_BUSY_RETRY_SECONDS (s\<lparr>cl_active := None, cl_queue := q\<rparr>))"

definition write_failed :: "ancs_env \<Rightarrow> write_call \<Rightarrow> dbus_error \<Rightarrow> AncsClient \<Rightarrow> AncsClient \<times> bool" where
  "write_failed env c e s0 =
     (case release_write c s0 of (s, released) \<Rightarrow>
        if \<not> is_current c s then
          (case rq_action (wc_request c) of
             None \<Rightarrow> s
           | Some a \<Rightarrow> report_action a (action_error_result (en_case env) (en_word env) e) s, released)
        else case cl_active s of
          None \<Rightarrow> (s, False)
        | Some rq \<Rightarrow>
            let lost = connection_was_lost (en_case env) e
            in if rq_discarded rq then
                 let s = finish_active_request s
                 in if lost then (mark_transport_failed env s, False) else (s, True)
               else if py_endswith (er_name e) (lit ''.InProgress'') \<and> rq_busy_retries rq < MAX_CONTROL_POINT_BUSY_RETRIES
               then (retry_busy env rq s, False)
               else case rq_action rq of
                 Some a \<Rightarrow>
                   let s = observe_permission_error env e (action_failed env a e (finish_active_request s))
                   in if lost then (mark_transport_failed env s, False) else (s, True)
               | None \<Rightarrow>
                   let s = observe_permission_error env e s
                   in if lost then (mark_transport_failed env s, False)
                      else ((abandon_request env rq s)\<lparr>cl_active := None\<rparr>, True))"

definition may_write :: "AncsClient \<Rightarrow> bool" where
  "may_write s \<longleftrightarrow> cl_active s = None \<and> cl_write_token s = None \<and> cl_timers s Busy_retry = None \<and>
     cl_notify_refresh s = None \<and> cl_cp_path s \<noteq> None"

definition begin_write :: "pending_request \<Rightarrow> (req_key, pending_request) RequestBacklog \<Rightarrow> AncsClient \<Rightarrow> AncsClient \<times> write_call" where
  "begin_write rq q s =
     (let c = \<lparr>wc_token = cl_next s, wc_generation = cl_owner_gen s, wc_request = rq\<rparr>
      in (cl_call (Write_value rq)
            (s\<lparr>cl_queue := q, cl_active := Some rq, cl_write_token := Some (cl_next s), cl_next := cl_next s + 1\<rparr>), c))"

text \<open>Nothing that runs between a failed write and the next one adds to the queue.\<close>

abbreviation queued :: "AncsClient \<Rightarrow> (req_key \<times> pending_request) list" where
  "queued s \<equiv> rb_queue (cl_queue s)"

lemma queued_leaf [simp]:
  "queued (cl_call e s) = queued s" "queued (callback env n e s) = queued s" "queued (start_timer env k d s) = queued s"
  "queued (cancel_timer k s) = queued s" "queued (report_action a r s) = queued s"
  by (simp_all add: cl_call_def callback_def start_timer_def cancel_timer_def report_action_def Let_def split: option.split)

lemma queued_finish_active [simp]: "queued (finish_active_request s) = queued s"
  by (simp add: finish_active_request_def finish_def split: option.split)

lemma queued_remember [simp]: "queued (fst (remember_actionable ev s)) = queued s"
  by (simp add: remember_actionable_def Let_def)

lemma queued_emit [simp]: "queued (emit env a n s) = queued s"
  using queued_remember by (auto simp: emit_def Let_def split: prod.split) (metis fst_conv queued_remember)

lemma queued_flush [simp]: "queued (flush_lookups env app n s) = queued s"
proof -
  have "queued (fold (\<lambda>a. emit env a n) as s) = queued s" for as s by (induction as arbitrary: s) simp_all
  then show ?thesis by (simp add: flush_lookups_def Let_def)
qed

lemma queued_abandon [simp]: "queued (abandon_request env rq s) = queued s"
  by (simp add: abandon_request_def schedule_authorization_retry_def Let_def finish_def split: option.split)

lemma queued_permission [simp]: "queued (observe_permission_error env e s) = queued s"
  by (simp add: observe_permission_error_def schedule_authorization_retry_def Let_def)

lemma queued_action_failed [simp]: "queued (action_failed env a e s) = queued s"
  by (simp add: action_failed_def Let_def)

lemma queued_write_failed: "write_failed env c e s = (t, True) \<Longrightarrow> queued t = queued s"
  by (auto simp: write_failed_def release_write_def Let_def split: if_splits option.splits)

lemma queued_begin_write [simp]: "queued (fst (begin_write rq q s)) = rb_queue q"
  by (simp add: begin_write_def Let_def cl_call_def)

text \<open>
  \<open>_pump_requests\<close>. A write that D-Bus refuses at once runs \<open>failed\<close> before the call returns; every
  other write stays unanswered.
\<close>

function pump_requests :: "ancs_env \<Rightarrow> AncsClient \<Rightarrow> AncsClient" where
  "pump_requests env s =
     (if \<not> may_write s then s
      else case popleft (cl_queue s) of
        Inl _ \<Rightarrow> s
      | Inr (q, rq) \<Rightarrow>
          (case begin_write rq q s of (s1, c) \<Rightarrow>
             case en_write env (cl_hist s1) of
               None \<Rightarrow> s1\<lparr>cl_writes := c # cl_writes s1\<rparr>
             | Some e \<Rightarrow>
                 (case write_failed env c e s1 of (s2, again) \<Rightarrow> if again then pump_requests env s2 else s2)))"
  by pat_completeness auto
termination
proof (relation "measure (\<lambda>(_, s). length (queued s))", goal_cases)
  case (2 env s x q rq s1 c e s2 again)
  have "queued s2 = queued s1" using queued_write_failed 2 by (metis (full_types))
  moreover have "queued s1 = rb_queue q" using 2 queued_begin_write by (metis fst_conv)
  moreover have "length (rb_queue q) < length (queued s)"
    using 2 by (auto simp: popleft_def split: list.splits)
  ultimately show ?case by simp
qed simp

declare pump_requests.simps [simp del]

text \<open>The run of a closure, then \<open>_pump_requests\<close> where it asks for it.\<close>

definition then_pump :: "ancs_env \<Rightarrow> AncsClient \<times> bool \<Rightarrow> AncsClient" where
  "then_pump env r = (case r of (s, again) \<Rightarrow> if again then pump_requests env s else s)"

definition write_reply :: "ancs_env \<Rightarrow> write_call \<Rightarrow> dbus_error option \<Rightarrow> AncsClient \<Rightarrow> AncsClient" where
  "write_reply env c e s0 =
     (let s = s0\<lparr>cl_writes := remove1 c (cl_writes s0)\<rparr>
      in then_pump env (case e of None \<Rightarrow> written env c s | Some err \<Rightarrow> write_failed env c err s))"

definition enqueue_request :: "ancs_env \<Rightarrow> pending_request \<Rightarrow> AncsClient \<Rightarrow> AncsClient" where
  "enqueue_request env rq s =
     (case enqueue (rq_key rq) rq False (cl_queue s) of (q, ok) \<Rightarrow>
        if ok then pump_requests env (s\<lparr>cl_queue := q\<rparr>) else s)"

text \<open>A new request object; its fields beyond key, packet and assembler start at their defaults.\<close>

definition new_request :: "req_key \<Rightarrow> byte list \<Rightarrow> DataSourceAssembler option \<Rightarrow> AncsClient \<Rightarrow> pending_request" where
  "new_request key packet a s =
     \<lparr>rq_id = cl_next s, rq_key = key, rq_packet = packet, rq_assembler = a, rq_notification = None, rq_app_probe = False,
      rq_expected_app = None, rq_auth_probe = False, rq_busy_retries = 0, rq_label_ids = [], rq_action = None,
      rq_discarded = False\<rparr>"

definition fresh :: "AncsClient \<Rightarrow> AncsClient" where
  "fresh s = s\<lparr>cl_next := cl_next s + 1\<rparr>"

definition authorization_request :: "AncsClient \<Rightarrow> pending_request" where
  "authorization_request s =
     (new_request Authorization_key (packet_of (build_get_app_attributes MESSAGES_BUNDLE))
        (Some (assembler GetAppAttributes [0] None (Some MESSAGES_BUNDLE))) s)\<lparr>rq_auth_probe := True\<rparr>"

definition queue_authorization_probe :: "ancs_env \<Rightarrow> bool \<Rightarrow> AncsClient \<Rightarrow> AncsClient" where
  "queue_authorization_probe env force s =
     (if \<not> cl_notify_started s \<or> (cl_authorized s \<and> \<not> force) then s
      else enqueue_request env (authorization_request s) (fresh s))"

definition probe_health :: "ancs_env \<Rightarrow> AncsClient \<Rightarrow> AncsClient" where
  "probe_health env s =
     (if cl_connected s \<and> cl_active s = None \<and> queued s = [] then queue_authorization_probe env True s else s)"

definition request_attrs :: "ancs_env \<Rightarrow> Notification \<Rightarrow> AncsClient \<Rightarrow> AncsClient" where
  "request_attrs env n s =
     enqueue_request env
       ((new_request (Notification_key (n_id n)) (packet_of (build_get_notification_app_identifier (int (n_id n))))
           (Some (assembler GetNotificationAttributes [0] (Some (int (n_id n))) None)) s)
          \<lparr>rq_notification := Some n, rq_app_probe := True\<rparr>)
       (fresh s)"

definition request_full_attrs :: "ancs_env \<Rightarrow> Notification \<Rightarrow> pystr \<Rightarrow> AncsClient \<Rightarrow> AncsClient" where
  "request_full_attrs env n app_id s =
     (let labels = (if en_actions env (cl_hist s) \<and> app_id \<noteq> MESSAGES_BUNDLE then action_label_ids n else []);
          pkt = packet_of (build_get_notification_attributes (int (n_id n)) ANCS_TITLE_MAX_BYTES
                  ANCS_SUBTITLE_MAX_BYTES ANCS_MESSAGE_MAX_BYTES labels)
      in enqueue_request env
           ((new_request (Notification_key (n_id n)) pkt
               (Some (assembler GetNotificationAttributes ([0, 1, 2, 3] @ labels) (Some (int (n_id n))) None)) s)
              \<lparr>rq_notification := Some n, rq_expected_app := Some app_id, rq_label_ids := labels\<rparr>)
           (fresh s))"

definition request_app_name :: "ancs_env \<Rightarrow> pystr \<Rightarrow> AncsClient \<Rightarrow> AncsClient \<times> bool" where
  "request_app_name env app_id s =
     (if app_id \<in> fst ` set (cl_app_names s) \<or> app_id \<in> cl_lookup_requested s then (s, True)
      else let rq = new_request (App_key app_id) (packet_of (build_get_app_attributes app_id))
                      (Some (assembler GetAppAttributes [0] None (Some app_id))) s
        in case enqueue (rq_key rq) rq False (cl_queue s) of (q, ok) \<Rightarrow>
             if ok then (pump_requests env ((fresh s)\<lparr>cl_queue := q, cl_lookup_requested := insert app_id (cl_lookup_requested s)\<rparr>), True)
             else ((fresh s)\<lparr>cl_lookup_requested := cl_lookup_requested s - {app_id}\<rparr>, False))"

definition handle_app_attrs :: "ancs_env \<Rightarrow> AppAttributes \<Rightarrow> AncsClient \<Rightarrow> AncsClient" where
  "handle_app_attrs env app s =
     (let app_name = take 256 (aa_app_name app)
      in flush_lookups env (aa_app_id app) app_name
           (s\<lparr>cl_app_names := od_put MAX_ANCS_APP_CACHE (aa_app_id app) app_name (cl_app_names s)\<rparr>))"

definition handle_notification_attrs :: "ancs_env \<Rightarrow> NotificationAttributes \<Rightarrow> AncsClient \<Rightarrow> AncsClient" where
  "handle_notification_attrs env attrs s =
     (let app = na_app_id attrs; pending = dict_get app [] (cl_pending_lookups s)
      in if app = MESSAGES_BUNDLE then emit env attrs app s
         else case map_of (cl_app_names s) app of
           Some name \<Rightarrow> emit env attrs name (s\<lparr>cl_app_names := al_pop app (cl_app_names s) @ [(app, name)]\<rparr>)
         | None \<Rightarrow>
             if MAX_ANCS_PENDING_PER_APP \<le> length pending
             then emit env attrs app (s\<lparr>cl_pending_lookups := al_set app pending (cl_pending_lookups s)\<rparr>)
             else
               (case request_app_name env app (s\<lparr>cl_pending_lookups := al_set app (pending @ [attrs]) (cl_pending_lookups s)\<rparr>) of
                  (s, True) \<Rightarrow> s
                | (s, False) \<Rightarrow>
                    let waiting = remove1 attrs (dict_get app [] (cl_pending_lookups s));
                        s = s\<lparr>cl_pending_lookups :=
                          (if waiting = [] then al_pop app (cl_pending_lookups s) else al_set app waiting (cl_pending_lookups s))\<rparr>
                    in emit env attrs app s))"

definition schedule_legacy_health :: "ancs_env \<Rightarrow> AncsClient \<Rightarrow> AncsClient" where
  "schedule_legacy_health env s =
     (if cl_started s \<and> cl_legacy_connected s \<and> cl_timers s Legacy_health = None
      then start_timer env Legacy_health LEGACY_HEALTH_SECONDS s else s)"

definition mark_authorized :: "ancs_env \<Rightarrow> AncsClient \<Rightarrow> AncsClient" where
  "mark_authorized env s =
     (let s = schedule_legacy_health env
            (s\<lparr>cl_health_proof := Some (en_clock env (cl_hist s)), cl_permission_denied := False,
               cl_legacy_delay := SUBSCRIBE_RETRY_SECONDS\<rparr>)
      in if cl_authorized s then s
         else callback env ''on_status'' On_status
                (cancel_timer Authorization_retry (s\<lparr>cl_authorized := True, cl_was_authorized := True\<rparr>)))"

section \<open>Data Source and Notification Source\<close>

text \<open>\<open>_APP_ID_RE\<close>\<close>

definition app_id_char :: "nat \<Rightarrow> bool" where
  "app_id_char c \<longleftrightarrow> 48 \<le> c \<and> c \<le> 57 \<or> 65 \<le> c \<and> c \<le> 90 \<or> 97 \<le> c \<and> c \<le> 122"

definition valid_app_id :: "pystr \<Rightarrow> bool" where
  "valid_app_id a \<longleftrightarrow> a \<noteq> [] \<and> length a \<le> 255 \<and> app_id_char (hd a) \<and>
     list_all (\<lambda>c. app_id_char c \<or> c = 46 \<or> c = 95 \<or> c = 45) (tl a)"

text \<open>The answer to an app probe: content is requested only for Messages and for apps the policy includes.\<close>

definition app_probed :: "ancs_env \<Rightarrow> Notification \<Rightarrow> nat \<Rightarrow> pystr \<Rightarrow> AncsClient \<Rightarrow> AncsClient" where
  "app_probed env n uid app_id s =
     (if uid \<noteq> n_id n then s
      else if app_id = MESSAGES_BUNDLE then request_full_attrs env n app_id s
      else if valid_app_id app_id \<and> en_non_messages env (cl_hist s) then
        let included = en_include_app env (cl_hist s) app_id;
            s = cl_call (Asked_app app_id included) s;
            s = s\<lparr>cl_observed_apps := od_put MAX_ANCS_APP_CACHE app_id () (cl_observed_apps s)\<rparr>
        in if included then request_full_attrs env n app_id s else s
      else s)"

definition ds_complete :: "ancs_env \<Rightarrow> pending_request \<Rightarrow> byte list \<Rightarrow> AncsClient \<Rightarrow> AncsClient" where
  "ds_complete env rq data s =
     (case DataSourceEvent_parse data of
        Inl _ \<Rightarrow> abandon_request env rq s
      | Inr ev \<Rightarrow>
          if ds_type ev = GetNotificationAttributes then
            (case rq_notification rq of
               None \<Rightarrow> s
             | Some n \<Rightarrow>
                 if rq_app_probe rq then
                   (case parse_notification_app_identifier (ds_body ev) of
                      Inl _ \<Rightarrow> abandon_request env rq s
                    | Inr (uid, app_id) \<Rightarrow> app_probed env n uid app_id s)
                 else
                   (case NotificationAttributes_parse (ds_body ev) (rq_label_ids rq) of
                      Inl _ \<Rightarrow> abandon_request env rq s
                    | Inr attrs \<Rightarrow>
                        if Some (na_app_id attrs) \<noteq> rq_expected_app rq then s else handle_notification_attrs env attrs s))
          else if ds_type ev = GetAppAttributes then
            (case AppAttributes_parse (ds_body ev) of
               Inl _ \<Rightarrow> abandon_request env rq s
             | Inr app \<Rightarrow> handle_app_attrs env app (if rq_auth_probe rq then mark_authorized env s else s))
          else s)"

definition on_ds_changed :: "ancs_env \<Rightarrow> byte list \<Rightarrow> AncsClient \<Rightarrow> AncsClient" where
  "on_ds_changed env value s =
     (case cl_active s of
        None \<Rightarrow> s
      | Some rq \<Rightarrow>
          (case rq_assembler rq of
             None \<Rightarrow> s
           | Some a \<Rightarrow>
               (case feed a value of (a', r) \<Rightarrow>
                  let rq = rq\<lparr>rq_assembler := Some a'\<rparr>; s = s\<lparr>cl_active := Some rq\<rparr>
                  in case r of
                       Inl _ \<Rightarrow> pump_requests env (abandon_request env rq (finish_active_request s))
                     | Inr None \<Rightarrow> s
                     | Inr (Some data) \<Rightarrow>
                         let s = finish_active_request s
                         in pump_requests env (if rq_discarded rq then s else ds_complete env rq data s))))"

definition report_call_activity :: "ancs_env \<Rightarrow> Notification \<Rightarrow> AncsClient \<Rightarrow> AncsClient" where
  "report_call_activity env n s =
     (if n_type n = NotificationAdded \<and> n_category n = MissedCall then
        if is_preexisting n then s else callback env ''on_call_activity'' (On_call_activity ''missed'') s
      else if n_type n = NotificationRemoved \<and> n_category n = IncomingCall
      then callback env ''on_call_activity'' (On_call_activity ''ended'') s else s)"

definition on_ns_changed :: "ancs_env \<Rightarrow> byte list \<Rightarrow> AncsClient \<Rightarrow> AncsClient" where
  "on_ns_changed env value s =
     (case Notification_parse value of
        Inl _ \<Rightarrow> s
      | Inr n \<Rightarrow>
          let s = cl_call (Announced n) (forget_actionable env (int (n_id n)) (report_call_activity env n s))
          in if n_type n = NotificationRemoved then
               callback env ''on_removed'' (On_removed (n_id n)) (discard_notification_requests (Some (n_id n)) s)
             else if is_preexisting n then
               let s = (if cl_actionable s \<noteq> [] then reset_actions env s else s)
               in if cl_live_seen s then end_session env s else s
             else request_attrs env n
                    (s\<lparr>cl_live_seen := True,
                       cl_categories := od_put MAX_ANCS_REQUESTS (n_id n) (n_category n) (cl_categories s)\<rparr>))"

text \<open>The receivers of an attempt only listen while it is the current one.\<close>

definition receiving :: "AncsClient \<Rightarrow> bool" where
  "receiving s \<longleftrightarrow> cl_started s \<and> cl_receivers s = Some (cl_owner_gen s, cl_subscription_gen s)"

definition ns_signal :: "ancs_env \<Rightarrow> byte list \<Rightarrow> AncsClient \<Rightarrow> AncsClient" where
  "ns_signal env value s = (if receiving s then on_ns_changed env value s else s)"

definition ds_signal :: "ancs_env \<Rightarrow> byte list \<Rightarrow> AncsClient \<Rightarrow> AncsClient" where
  "ds_signal env value s = (if receiving s then on_ds_changed env value s else s)"

section \<open>Timeouts and the CCC refresh\<close>

definition escalate_unresponsive_transport :: "ancs_env \<Rightarrow> AncsClient \<Rightarrow> AncsClient" where
  "escalate_unresponsive_transport env s =
     mark_transport_failed env
       (if cl_notify_started s \<and> cl_bearer_connected s = Some True \<and> cl_bearer_ready s
        then stop_bluez_notifications env s else s)"

definition refresh_current :: "nat \<Rightarrow> nat \<Rightarrow> AncsClient \<Rightarrow> bool" where
  "refresh_current token generation s \<longleftrightarrow>
     cl_started s \<and> cl_notify_refresh s = Some token \<and> generation = cl_owner_gen s"

text \<open>The closure \<open>failed\<close> of \<open>_refresh_notifications\<close>.\<close>

definition refresh_failed :: "ancs_env \<Rightarrow> nat \<Rightarrow> nat \<Rightarrow> dbus_error \<Rightarrow> AncsClient \<Rightarrow> AncsClient" where
  "refresh_failed env token generation e s =
     (if \<not> refresh_current token generation s then s
      else let s = s\<lparr>cl_notify_refresh := None\<rparr>
        in if connection_was_lost (en_case env) e then mark_transport_failed env s
           else escalate_unresponsive_transport env s)"

text \<open>
  \<open>_toggle_notify\<close>: the two asynchronous calls for one characteristic. What follows when they succeed,
  \<open>next_path\<close>, is determined by the paths that remain.
\<close>

definition start_toggle :: "ancs_env \<Rightarrow> notify_call \<Rightarrow> AncsClient \<Rightarrow> AncsClient" where
  "start_toggle env c s =
     (let s = cl_call (Start_notify (nc_path c)) s
      in case en_dispatch env (cl_hist s) of
           None \<Rightarrow> s\<lparr>cl_notifies := c\<lparr>nc_start := True\<rparr> # cl_notifies s\<rparr>
         | Some e \<Rightarrow> refresh_failed env (nc_token c) (nc_generation c) e s)"

definition toggle_stopped :: "ancs_env \<Rightarrow> notify_call \<Rightarrow> AncsClient \<Rightarrow> AncsClient" where
  "toggle_stopped env c s =
     (let s = (if nc_generation c = cl_owner_gen s then s\<lparr>cl_owned_paths := cl_owned_paths s - {nc_path c}\<rparr> else s)
      in if refresh_current (nc_token c) (nc_generation c) s then start_toggle env c s else s)"

definition toggle_stop_failed :: "ancs_env \<Rightarrow> notify_call \<Rightarrow> dbus_error \<Rightarrow> AncsClient \<Rightarrow> AncsClient" where
  "toggle_stop_failed env c e s =
     (if notification_is_already_stopped (en_case env) e then toggle_stopped env c s
      else refresh_failed env (nc_token c) (nc_generation c) e s)"

definition toggle_notify :: "ancs_env \<Rightarrow> notify_call \<Rightarrow> AncsClient \<Rightarrow> AncsClient" where
  "toggle_notify env c s =
     (let s = cl_call (Stop_notify (nc_path c)) s
      in case en_dispatch env (cl_hist s) of
           None \<Rightarrow> s\<lparr>cl_notifies := c\<lparr>nc_start := False\<rparr> # cl_notifies s\<rparr>
         | Some e \<Rightarrow> toggle_stop_failed env c e s)"

definition refresh_done :: "ancs_env \<Rightarrow> AncsClient \<Rightarrow> AncsClient" where
  "refresh_done env s =
     (let s = reset_actions env (s\<lparr>cl_notify_refresh := None\<rparr>);
          probe = authorization_request s
      in case enqueue (rq_key probe) probe True (cl_queue s) of (q, ok) \<Rightarrow>
           if \<not> ok \<and> count_if rq_auth_probe (cl_queue s) = 0 then escalate_unresponsive_transport env (fresh s)
           else pump_requests env ((fresh s)\<lparr>cl_queue := q\<rparr>))"

definition next_path :: "ancs_env \<Rightarrow> nat \<Rightarrow> nat \<Rightarrow> pystr list \<Rightarrow> AncsClient \<Rightarrow> AncsClient" where
  "next_path env token generation remaining s =
     (if \<not> refresh_current token generation s then s
      else case remaining of
        path # rest \<Rightarrow>
          toggle_notify env \<lparr>nc_start = False, nc_path = path, nc_generation = cl_owner_gen s, nc_token = token,
                             nc_remaining = rest\<rparr> s
      | [] \<Rightarrow> refresh_done env s)"

definition toggle_started :: "ancs_env \<Rightarrow> notify_call \<Rightarrow> AncsClient \<Rightarrow> AncsClient" where
  "toggle_started env c s =
     (let s = (if nc_generation c = cl_owner_gen s then s\<lparr>cl_owned_paths := insert (nc_path c) (cl_owned_paths s)\<rparr> else s)
      in next_path env (nc_token c) (nc_generation c) (nc_remaining c) s)"

definition notify_reply :: "ancs_env \<Rightarrow> notify_call \<Rightarrow> dbus_error option \<Rightarrow> AncsClient \<Rightarrow> AncsClient" where
  "notify_reply env c e s0 =
     (let s = s0\<lparr>cl_notifies := remove1 c (cl_notifies s0)\<rparr>
      in case e of
           None \<Rightarrow> if nc_start c then toggle_started env c s else toggle_stopped env c s
         | Some err \<Rightarrow>
             if nc_start c then refresh_failed env (nc_token c) (nc_generation c) err s
             else toggle_stop_failed env c err s)"

definition may_refresh :: "AncsClient \<Rightarrow> bool" where
  "may_refresh s \<longleftrightarrow> cl_started s \<and> cl_notify_started s \<and> \<not> cl_legacy_connected s \<and>
     cl_bearer_connected s = Some True \<and> cl_bearer_ready s \<and> cl_notify_refresh s = None \<and>
     cl_notify_refreshes s < MAX_NOTIFY_REFRESHES_PER_LINK \<and> cl_ns_path s \<noteq> None \<and> cl_ds_path s \<noteq> None"

definition refresh_notifications :: "ancs_env \<Rightarrow> AncsClient \<Rightarrow> AncsClient" where
  "refresh_notifications env s =
     (let s = end_session env (finish_active_request (s\<lparr>cl_notify_refreshes := cl_notify_refreshes s + 1\<rparr>));
          token = cl_next s;
          s = (fresh s)\<lparr>cl_notify_refresh := Some token\<rparr>
      in next_path env token (cl_owner_gen s) (List.map_filter id [cl_ns_path s, cl_ds_path s]) s)"

definition request_timed_out :: "ancs_env \<Rightarrow> AncsClient \<Rightarrow> AncsClient" where
  "request_timed_out env s =
     (case cl_active s of
        None \<Rightarrow> pump_requests env s
      | Some rq \<Rightarrow>
          if rq_auth_probe rq \<and> cl_was_authorized s then
            if may_refresh s then refresh_notifications env s else escalate_unresponsive_transport env s
          else pump_requests env ((abandon_request env rq s)\<lparr>cl_active := None\<rparr>))"

section \<open>Notification actions\<close>

definition notification_actions_changed :: "ancs_env \<Rightarrow> AncsClient \<Rightarrow> AncsClient" where
  "notification_actions_changed env s = (if en_actions env (cl_hist s) then s else reset_actions env s)"

definition queued_actions :: "AncsClient \<Rightarrow> nat" where
  "queued_actions s =
     count_if (\<lambda>rq. rq_action rq \<noteq> None) (cl_queue s) +
     (case cl_active s of Some rq \<Rightarrow> if rq_action rq \<noteq> None then 1 else 0 | None \<Rightarrow> 0)"

text \<open>\<open>None\<close> for an identifier or token that is not a number; the uid is then -1.\<close>

definition perform_notification_action ::
  "ancs_env \<Rightarrow> int option \<Rightarrow> bool \<Rightarrow> int option \<Rightarrow> nat option \<Rightarrow> AncsClient \<Rightarrow> AncsClient \<times> bool" where
  "perform_notification_action env uid0 positive token0 on_result s0 =
     (let s = (case on_result of None \<Rightarrow> s0 | Some k \<Rightarrow> cl_call (Clicked k) s0);
          (uid, token) = (case (uid0, token0) of (Some u, Some t) \<Rightarrow> (u, t) | _ \<Rightarrow> (-1, 0));
          action = \<lparr>ar_uid = uid, ar_positive = positive, ar_result = on_result, ar_token = token\<rparr>
      in case (if en_actions env (cl_hist s) then map_of (cl_actionable s) uid else None) of
           None \<Rightarrow> (report_action action ACTION_UNAVAILABLE s, False)
         | Some entry \<Rightarrow>
             if ao_token entry \<noteq> token \<or> \<not> (if positive then ao_positive entry else ao_negative entry)
             then (report_action action ACTION_UNAVAILABLE s, False)
             else if \<not> cl_connected s \<or> cl_cp_path s = None
             then (report_action action ACTION_DISCONNECTED s, False)
             else if ao_in_flight entry \<or> MAX_ANCS_ACTIONS_IN_FLIGHT \<le> queued_actions s
             then (report_action action ACTION_BUSY s, False)
             else
               let rq = (new_request (Action_key uid)
                           (packet_of (build_perform_notification_action uid
                              (if positive then ActionID_Positive else ActionID_Negative))) None s)
                          \<lparr>rq_action := Some action\<rparr>
               in case enqueue (rq_key rq) rq True (cl_queue s) of (q, ok) \<Rightarrow>
                    if \<not> ok then (report_action action ACTION_BUSY (fresh s), False)
                    else (pump_requests env
                            ((fresh s)\<lparr>cl_queue := q,
                               cl_actionable := map (\<lambda>(u, x). (u, if u = uid then x\<lparr>ao_in_flight := True\<rparr> else x)) (cl_actionable s)\<rparr>),
                          True))"

section \<open>Subscribing\<close>

datatype attempt = Stale | Refused dbus_error | Started

definition start_notify :: "ancs_env \<Rightarrow> AncsClient \<Rightarrow> dbus_error option" where
  "start_notify env s =
     (case en_start_notify env (cl_hist s) of
        None \<Rightarrow> None
      | Some e \<Rightarrow> if cl_legacy_connected s \<and> notify_registration_pending (en_case env) e then None else Some e)"

text \<open>One characteristic: \<open>_should_start_notify\<close>, \<open>_start_notify\<close> and the checks that follow each.\<close>

definition subscribe_path :: "ancs_env \<Rightarrow> pystr \<Rightarrow> AncsClient \<Rightarrow> AncsClient \<times> attempt" where
  "subscribe_path env path s0 =
     (let owned = (path \<in> cl_owned_paths s0);
          s = (if owned then cl_call (Get_notifying path) s0 else s0);
          start = (\<not> owned \<or> en_notifying env (cl_hist s) \<noteq> Some True)
      in if \<not> en_current env (cl_hist s) then (s, Stale)
         else if \<not> start then (s, Started)
         else let s = cl_call (Start_notify path) s
           in if \<not> en_current env (cl_hist s) then (s, Stale)
              else case start_notify env s of
                Some e \<Rightarrow> (s, Refused e)
              | None \<Rightarrow> (s\<lparr>cl_owned_paths := insert path (cl_owned_paths s)\<rparr>, Started))"

definition attempt_subscription :: "ancs_env \<Rightarrow> pystr \<Rightarrow> pystr \<Rightarrow> AncsClient \<Rightarrow> AncsClient \<times> attempt" where
  "attempt_subscription env ns_path ds_path s =
     (case en_receive env (cl_hist s) of
        Some e \<Rightarrow> (s, if en_current env (cl_hist s) then Refused e else Stale)
      | None \<Rightarrow>
          if \<not> en_current env (cl_hist s) then (s, Stale)
          else case subscribe_path env ns_path s of
            (s, Started) \<Rightarrow> subscribe_path env ds_path s
          | r \<Rightarrow> r)"

definition try_subscribe :: "ancs_env \<Rightarrow> AncsClient \<Rightarrow> AncsClient" where
  "try_subscribe env s0 =
     (if cl_notify_started s0 \<or> cl_transport_blocked s0 \<or> \<not> transport_available s0 \<or> \<not> cl_bearer_ready s0 then s0
      else case (cl_ns_path s0, cl_ds_path s0, cl_cp_path s0) of
        (Some ns_path, Some ds_path, Some _) \<Rightarrow>
          if \<not> cl_started s0 then s0
          else (case attempt_subscription env ns_path ds_path s0 of
             (s, Stale) \<Rightarrow> s
           | (s, Refused e) \<Rightarrow>
               let s = observe_permission_error env e s
               in if connection_was_lost (en_case env) e then mark_transport_failed env s
                  else schedule_subscribe_retry env s
           | (s, Started) \<Rightarrow>
               let s = cancel_timer Subscribe_retry s;
                   s = s\<lparr>cl_receivers := Some (cl_owner_gen s, cl_subscription_gen s), cl_notify_started := True\<rparr>
               in queue_authorization_probe env False (end_session env (reset_actions env s)))
      | _ \<Rightarrow> s0)"

definition retry_subscribe :: "ancs_env \<Rightarrow> AncsClient \<Rightarrow> AncsClient" where
  "retry_subscribe env s =
     (if \<not> cl_started s then s
      else try_subscribe env
        (if cl_legacy_connected s then s\<lparr>cl_transport_blocked := False, cl_bearer_ready := True\<rparr> else s))"

section \<open>Discovery\<close>

definition char_path_to_device_path :: "pystr \<Rightarrow> pystr" where
  "char_path_to_device_path path =
     (let parts = split_on 47 path in if length parts < 3 then [] else py_join [47] (take (length parts - 2) parts))"

definition iface_added :: "ancs_env \<Rightarrow> pystr \<Rightarrow> pystr option \<Rightarrow> AncsClient \<Rightarrow> AncsClient" where
  "iface_added env path char_uuid s0 =
     (case char_uuid of
        None \<Rightarrow> s0
      | Some u \<Rightarrow>
          let uuid = map lower_ascii u
          in if uuid \<notin> {NOTIFICATION_SOURCE_CHAR, CONTROL_POINT_CHAR, DATA_SOURCE_CHAR} \<or>
                char_path_to_device_path path \<noteq> en_device env then s0
             else let s = (if uuid = NOTIFICATION_SOURCE_CHAR then s0\<lparr>cl_ns_path := Some path\<rparr>
                           else if uuid = DATA_SOURCE_CHAR then s0\<lparr>cl_ds_path := Some path\<rparr>
                           else s0\<lparr>cl_cp_path := Some path\<rparr>)
               in if cl_legacy_connected s \<and> cl_transport_blocked s
                  then schedule_subscribe_retry env (s\<lparr>cl_legacy_delay := SUBSCRIBE_RETRY_SECONDS\<rparr>)
                  else try_subscribe env s)"

definition forget_path :: "pystr \<Rightarrow> AncsClient \<Rightarrow> AncsClient option" where
  "forget_path path s =
     (if cl_ns_path s = Some path then Some (s\<lparr>cl_ns_path := None\<rparr>)
      else if cl_ds_path s = Some path then Some (s\<lparr>cl_ds_path := None\<rparr>)
      else if cl_cp_path s = Some path then Some (s\<lparr>cl_cp_path := None\<rparr>) else None)"

definition iface_removed :: "ancs_env \<Rightarrow> pystr \<Rightarrow> AncsClient \<Rightarrow> AncsClient" where
  "iface_removed env path s0 =
     (case forget_path path s0 of
        None \<Rightarrow> s0
      | Some s \<Rightarrow>
          let s = cancel_timer Authorization_retry (cancel_timer Subscribe_retry s);
              s = clear_characteristic_subscription env False s;
              s = s\<lparr>cl_owned_paths := cl_owned_paths s - {path}\<rparr>
          in if cl_connected s0 then callback env ''on_status'' On_status s else s)"

text \<open>
  \<open>_bind_manager_once\<close>: new watches, then a sweep over the managed objects, each with the UUID of its
  characteristic interface; \<open>None\<close> stands for a D-Bus failure. The sweep is one blocking call, so the
  repetition in \<open>_bind_manager_and_rescan\<close> does not arise.
\<close>

definition bind_manager :: "ancs_env \<Rightarrow> (pystr \<times> pystr option) list option \<Rightarrow> AncsClient \<Rightarrow> AncsClient \<times> bool" where
  "bind_manager env managed s =
     (if \<not> cl_started s \<or> \<not> cl_owner_available s then (s, True)
      else case managed of
        None \<Rightarrow> (s\<lparr>cl_watching := False\<rparr>, False)
      | Some objects \<Rightarrow> (fold (\<lambda>(path, uuid). iface_added env path uuid) objects (s\<lparr>cl_watching := True\<rparr>), True))"

definition schedule_manager_retry :: "ancs_env \<Rightarrow> AncsClient \<Rightarrow> AncsClient" where
  "schedule_manager_retry env s =
     (if \<not> cl_started s \<or> cl_timers s Manager_retry \<noteq> None then s
      else start_timer env Manager_retry MANAGER_RETRY_SECONDS s)"

definition rebind_manager :: "ancs_env \<Rightarrow> (pystr \<times> pystr option) list option \<Rightarrow> AncsClient \<Rightarrow> AncsClient" where
  "rebind_manager env managed s =
     (case bind_manager env managed s of (s, ok) \<Rightarrow> if ok then s else schedule_manager_retry env s)"

section \<open>Lifecycle and bearer\<close>

definition schedule_bearer_settle :: "ancs_env \<Rightarrow> AncsClient \<Rightarrow> AncsClient" where
  "schedule_bearer_settle env s =
     (if cl_timers s Bearer_settle \<noteq> None \<or> \<not> transport_available s then s
      else start_timer env Bearer_settle BEARER_SETTLE_SECONDS s)"

definition cl_start :: "ancs_env \<Rightarrow> (pystr \<times> pystr option) list option \<Rightarrow> AncsClient \<Rightarrow> AncsClient" where
  "cl_start env managed s =
     (if cl_started s then s
      else case bind_manager env managed (s\<lparr>cl_owner_available := True, cl_started := True\<rparr>) of
        (s, False) \<Rightarrow> s\<lparr>cl_started := False\<rparr>
      | (s, True) \<Rightarrow> if transport_available s then schedule_bearer_settle env s else s)"

definition cl_stop :: "ancs_env \<Rightarrow> AncsClient \<Rightarrow> AncsClient" where
  "cl_stop env s0 =
     (let s = s0\<lparr>cl_started := False, cl_owner_available := False\<rparr>;
          s = fold cancel_timer [Manager_retry, Subscribe_retry, Authorization_retry, Bearer_settle, Transport_reset] s;
          s = clear_characteristic_subscription env (cl_bearer_connected s = Some True \<and> cl_bearer_ready s) s;
          s = s\<lparr>cl_owned_paths := {}, cl_watching := False, cl_ns_path := None, cl_ds_path := None, cl_cp_path := None\<rparr>
      in if cl_connected s0 then callback env ''on_status'' On_status s else s)"

definition forget_owner :: "ancs_env \<Rightarrow> AncsClient \<Rightarrow> AncsClient" where
  "forget_owner env s0 =
     (let s = fold cancel_timer [Manager_retry, Bearer_settle, Transport_reset] s0;
          s = cancel_timer Subscribe_retry (s\<lparr>cl_watching := False\<rparr>);
          s = clear_characteristic_subscription env False s;
          s = s\<lparr>cl_bearer_connected := None, cl_legacy_connected := False, cl_legacy_delay := SUBSCRIBE_RETRY_SECONDS,
                cl_bearer_ready := False, cl_transport_blocked := False, cl_owned_paths := {},
                cl_ns_path := None, cl_ds_path := None, cl_cp_path := None\<rparr>
      in if cl_connected s0 then callback env ''on_status'' On_status s else s)"

definition observe_bluez_owner :: "ancs_env \<Rightarrow> bool \<Rightarrow> bool \<Rightarrow> (pystr \<times> pystr option) list option \<Rightarrow> AncsClient \<Rightarrow> AncsClient" where
  "observe_bluez_owner env old_owner new_owner managed s =
     (if \<not> cl_started s then s
      else let s = s\<lparr>cl_owner_gen := cl_owner_gen s + 1, cl_owner_available := new_owner, cl_notify_refreshes := 0,
                     cl_write_token := None\<rparr>;
               s = (if old_owner then forget_owner env s else s)
        in if \<not> new_owner then s else rebind_manager env managed s)"

definition retry_manager_bind :: "ancs_env \<Rightarrow> (pystr \<times> pystr option) list option \<Rightarrow> AncsClient \<Rightarrow> AncsClient" where
  "retry_manager_bind env managed s = (if \<not> cl_started s then s else rebind_manager env managed s)"

definition legacy_transport_hint :: "ancs_env \<Rightarrow> AncsClient \<Rightarrow> AncsClient" where
  "legacy_transport_hint env s =
     (if \<not> cl_started s then s
      else if cl_connected s then probe_health env s
      else if cl_timers s Subscribe_retry \<noteq> None
      then schedule_subscribe_retry env ((cancel_timer Subscribe_retry s)\<lparr>cl_legacy_delay := SUBSCRIBE_RETRY_SECONDS\<rparr>)
      else s)"

text \<open>A confirmed LE disconnect.\<close>

definition bearer_lost :: "ancs_env \<Rightarrow> AncsClient \<Rightarrow> AncsClient" where
  "bearer_lost env s =
     (let s = s\<lparr>cl_notify_refreshes := 0, cl_transport_blocked := False, cl_bearer_ready := False\<rparr>;
          s = cancel_timer Transport_reset (cancel_timer Bearer_settle s);
          had_state = (cl_notify_started s \<or> cl_authorized s \<or> cl_receivers s \<noteq> None \<or> cl_owned_paths s \<noteq> {} \<or>
            cl_active s \<noteq> None \<or> queued s \<noteq> [])
      in if \<not> had_state then s\<lparr>cl_subscription_gen := cl_subscription_gen s + 1\<rparr>
         else callback env ''on_status'' On_status
                (clear_characteristic_subscription env False (cancel_timer Subscribe_retry s)))"

definition bearer_state :: "ancs_env \<Rightarrow> bool option \<Rightarrow> AncsClient \<Rightarrow> AncsClient" where
  "bearer_state env bearer s =
     (case bearer of
        None \<Rightarrow> cancel_timer Bearer_settle (s\<lparr>cl_bearer_connected := None, cl_bearer_ready := False\<rparr>)
      | Some False \<Rightarrow> bearer_lost env (s\<lparr>cl_bearer_connected := Some False\<rparr>)
      | Some True \<Rightarrow>
          let previous = cl_bearer_connected s; s = s\<lparr>cl_bearer_connected := Some True\<rparr>
          in if previous = Some True then s
             else if cl_transport_blocked s then schedule_transport_reset env s
             else if cl_started s then schedule_bearer_settle env s else s)"

definition observe_bearer_state :: "ancs_env \<Rightarrow> bool option \<Rightarrow> bool \<Rightarrow> AncsClient \<Rightarrow> AncsClient" where
  "observe_bearer_state env bearer legacy s0 =
     (if legacy \<noteq> cl_legacy_connected s0 then
        let s = s0\<lparr>cl_legacy_connected := legacy, cl_legacy_delay := SUBSCRIBE_RETRY_SECONDS\<rparr>;
            s = fold cancel_timer [Subscribe_retry, Bearer_settle, Transport_reset] s;
            s = clear_characteristic_subscription env False s;
            s = s\<lparr>cl_bearer_ready := False, cl_transport_blocked := False\<rparr>;
            s = (if cl_connected s0 then callback env ''on_status'' On_status s else s)
        in if legacy then
             let s = s\<lparr>cl_bearer_connected := None\<rparr> in if cl_started s then schedule_bearer_settle env s else s
           else if bearer \<noteq> Some True then s\<lparr>cl_bearer_connected := bearer\<rparr>
           else bearer_state env bearer s
      else if legacy then legacy_transport_hint env (s0\<lparr>cl_bearer_connected := None\<rparr>)
      else bearer_state env bearer s0)"

definition finish_bearer_settle :: "ancs_env \<Rightarrow> AncsClient \<Rightarrow> AncsClient" where
  "finish_bearer_settle env s =
     (if \<not> cl_started s \<or> \<not> transport_available s then s else try_subscribe env (s\<lparr>cl_bearer_ready := True\<rparr>))"

definition request_transport_reset :: "ancs_env \<Rightarrow> AncsClient \<Rightarrow> AncsClient" where
  "request_transport_reset env s =
     (if cl_started s \<and> cl_transport_blocked s \<and> cl_bearer_connected s = Some True
      then callback env ''on_transport_failure'' On_transport_failure s else s)"

definition check_legacy_health :: "ancs_env \<Rightarrow> AncsClient \<Rightarrow> AncsClient" where
  "check_legacy_health env s =
     (if cl_started s \<and> cl_legacy_connected s \<and> cl_authorized s
      then let s = probe_health env s in if cl_authorized s then schedule_legacy_health env s else s
      else s)"

section \<open>Runs\<close>

text \<open>
  A timer's callback first forgets the timer's id and ends the source by returning \<open>False\<close>. The source counts
  as gone from the start of its callback, so that the scheduler may even reuse its id there.
\<close>

definition run_timer :: "ancs_env \<Rightarrow> ancs_timer \<Rightarrow> (pystr \<times> pystr option) list option \<Rightarrow> AncsClient \<Rightarrow> AncsClient" where
  "run_timer env k managed s =
     (case k of
        Manager_retry \<Rightarrow> retry_manager_bind env managed s
      | Subscribe_retry \<Rightarrow> retry_subscribe env s
      | Authorization_retry \<Rightarrow> queue_authorization_probe env False s
      | Bearer_settle \<Rightarrow> finish_bearer_settle env s
      | Transport_reset \<Rightarrow> request_transport_reset env s
      | Legacy_health \<Rightarrow> check_legacy_health env s
      | Request_timeout \<Rightarrow> request_timed_out env s
      | Busy_retry \<Rightarrow> pump_requests env s)"

definition fire_timer :: "ancs_env \<Rightarrow> ancs_timer \<Rightarrow> nat \<Rightarrow> (pystr \<times> pystr option) list option \<Rightarrow> AncsClient \<Rightarrow> AncsClient" where
  "fire_timer env k i managed s =
     run_timer env k managed (s\<lparr>cl_timers := (cl_timers s)(k := None), cl_hist := Expired i # cl_hist s\<rparr>)"

inductive ancs_step :: "ancs_env \<Rightarrow> AncsClient \<Rightarrow> AncsClient \<Rightarrow> bool" for env where
  start: "ancs_step env s (cl_start env managed s)"
| stop: "ancs_step env s (cl_stop env s)"
| owner: "ancs_step env s (observe_bluez_owner env old new managed s)"
| bearer: "ancs_step env s (observe_bearer_state env bearer legacy s)"
| added: "ancs_step env s (iface_added env path uuid s)"
| removed: "ancs_step env s (iface_removed env path s)"
| notification: "ancs_step env s (ns_signal env value s)"
| data: "ancs_step env s (ds_signal env value s)"
| reply: "c \<in> set (cl_writes s) \<Longrightarrow> ancs_step env s (write_reply env c e s)"
| notified: "c \<in> set (cl_notifies s) \<Longrightarrow> ancs_step env s (notify_reply env c e s)"
| timer: "cl_timers s k = Some i \<Longrightarrow> ancs_step env s (fire_timer env k i managed s)"
| health: "ancs_step env s (probe_health env s)"
| setting: "ancs_step env s (notification_actions_changed env s)"
| click: "ancs_step env s (fst (perform_notification_action env uid positive token on_result s))"

definition ancs_started :: "AncsClient \<Rightarrow> bool" where
  "ancs_started s \<longleftrightarrow> (\<exists>b. s = AncsClient_init b)"

end
