(* ===== verification/Ancs_Invariant.thy ===== *)
theory Ancs_Invariant
  imports Ancs_Client
begin

text \<open>
  What the ANCS client guarantees whatever the phone, BlueZ and the desktop do: one unanswered Control Point
  write at a time, one result per clicked action, actions only under a standing offer, content requests only
  for admitted apps, events only for notifications that are still there, and no stray timer. The facts about
  the past are read off the history by recursive functions; one invariant over the fields they depend on
  carries all of them through the client's operations.
\<close>

section \<open>Reading the history\<close>

definition log_of :: "AncsClient \<Rightarrow> ancs_call list" where
  "log_of s = calls (cl_hist s)"

text \<open>An action offer stands until its uid is announced again or all actions are retired.\<close>

fun standing :: "int \<Rightarrow> int \<Rightarrow> ancs_call list \<Rightarrow> bool" where
  "standing u t [] = False"
| "standing u t (On_event ev # h) = (int (ae_id ev) = u \<and> ae_token ev = t \<and> t \<noteq> 0 \<or> standing u t h)"
| "standing u t (Announced n # h) = (int (n_id n) \<noteq> u \<and> standing u t h)"
| "standing u t (Actions_retired # h) = False"
| "standing u t (_ # h) = standing u t h"

text \<open>A notification is there from its announcement until it is removed or its session ends.\<close>

fun alive :: "nat \<Rightarrow> ancs_call list \<Rightarrow> bool" where
  "alive u [] = False"
| "alive u (Announced n # h) =
     (if n_id n = u \<and> n_type n = NotificationRemoved then False
      else if n_id n = u \<and> \<not> is_preexisting n then True else alive u h)"
| "alive u (Session_end # h) = False"
| "alive u (_ # h) = alive u h"

definition admitted :: "pystr \<Rightarrow> ancs_call list \<Rightarrow> bool" where
  "admitted app h \<longleftrightarrow> app = MESSAGES_BUNDLE \<or> Asked_app app True \<in> set h"

definition request_ok :: "pending_request \<Rightarrow> ancs_call list \<Rightarrow> bool" where
  "request_ok rq h \<longleftrightarrow>
     (case rq_action rq of
        Some a \<Rightarrow> rq_notification rq = None \<and> rq_assembler rq = None \<and> \<not> rq_discarded rq \<and>
          rq_packet rq = packet_of (build_perform_notification_action (ar_uid a)
            (if ar_positive a then ActionID_Positive else ActionID_Negative))
      | None \<Rightarrow>
          (case rq_notification rq of
             None \<Rightarrow> \<exists>app. rq_packet rq = packet_of (build_get_app_attributes app)
           | Some n \<Rightarrow>
               (\<exists>a. rq_assembler rq = Some a \<and> das_command a = GetNotificationAttributes \<and>
                  das_notification_id a = Some (int (n_id n))) \<and>
               (if rq_app_probe rq
                then rq_packet rq = packet_of (build_get_notification_app_identifier (int (n_id n)))
                else \<exists>app. rq_expected_app rq = Some app \<and> admitted app h)))"

definition offer_ok :: "pending_request \<Rightarrow> ancs_call list \<Rightarrow> bool" where
  "offer_ok rq h \<longleftrightarrow>
     (case rq_action rq of None \<Rightarrow> True | Some a \<Rightarrow> rq_busy_retries rq \<noteq> 0 \<or> standing (ar_uid a) (ar_token a) h)"

fun log_ok :: "ancs_call list \<Rightarrow> bool" where
  "log_ok [] = True"
| "log_ok (Write_value rq # h) = (request_ok rq h \<and> offer_ok rq h \<and> log_ok h)"
| "log_ok (On_event ev # h) = (alive (ae_id ev) h \<and> log_ok h)"
| "log_ok (_ # h) = log_ok h"

definition action_of :: "nat \<Rightarrow> pending_request \<Rightarrow> bool" where
  "action_of k rq \<longleftrightarrow> (case rq_action rq of None \<Rightarrow> False | Some a \<Rightarrow> ar_result a = Some k)"

fun clicks :: "nat \<Rightarrow> ancs_call list \<Rightarrow> nat" where
  "clicks k [] = 0"
| "clicks k (Clicked j # h) = (if j = k then 1 else 0) + clicks k h"
| "clicks k (_ # h) = clicks k h"

fun results :: "nat \<Rightarrow> ancs_call list \<Rightarrow> nat" where
  "results k [] = 0"
| "results k (Action_result j r # h) = (if j = k then 1 else 0) + results k h"
| "results k (_ # h) = results k h"

definition queued_for :: "nat \<Rightarrow> AncsClient \<Rightarrow> nat" where
  "queued_for k s = length (filter (\<lambda>p. action_of k (snd p)) (queued s))"

definition written_for :: "nat \<Rightarrow> AncsClient \<Rightarrow> nat" where
  "written_for k s = length (filter (\<lambda>c. action_of k (wc_request c)) (cl_writes s))"

section \<open>The invariant\<close>

text \<open>\<open>H\<close> is in hand: the request whose write reply is being handled, otherwise nothing.\<close>

definition requests :: "pending_request list \<Rightarrow> AncsClient \<Rightarrow> pending_request set" where
  "requests H s = snd ` set (queued s) \<union> set_option (cl_active s) \<union> wc_request ` set (cl_writes s) \<union> set H"

text \<open>At most the write of the current token is unanswered by the current bluetoothd.\<close>

definition serial :: "AncsClient \<Rightarrow> bool" where
  "serial s \<longleftrightarrow> distinct (map wc_token (cl_writes s)) \<and>
     (\<forall>c \<in> set (cl_writes s). wc_token c < cl_next s \<and> wc_generation c \<le> cl_owner_gen s \<and>
        (wc_generation c = cl_owner_gen s \<longrightarrow> cl_write_token s = Some (wc_token c)))"

text \<open>Request objects: numbered below the counter, and the same object has the same action.\<close>

definition coherent :: "pending_request list \<Rightarrow> AncsClient \<Rightarrow> bool" where
  "coherent H s \<longleftrightarrow> (\<forall>rq \<in> requests H s. rq_id rq < cl_next s \<and>
     (\<forall>rq' \<in> requests H s. rq_id rq = rq_id rq' \<longrightarrow> rq_action rq = rq_action rq'))"

definition accounted :: "pending_request list \<Rightarrow> AncsClient \<Rightarrow> bool" where
  "accounted H s \<longleftrightarrow> (\<forall>k. clicks k (log_of s) = results k (log_of s) + queued_for k s + written_for k s +
     length (filter (action_of k) H))"

definition offers_ok :: "AncsClient \<Rightarrow> bool" where
  "offers_ok s \<longleftrightarrow> 0 < cl_next_action s \<and> (\<forall>p \<in> set (queued s). offer_ok (snd p) (log_of s)) \<and>
     (\<forall>(u, e) \<in> set (cl_actionable s). standing u (ao_token e) (log_of s))"

definition content_ok :: "AncsClient \<Rightarrow> bool" where
  "content_ok s \<longleftrightarrow> (\<forall>p \<in> set (queued s). request_ok (snd p) (log_of s)) \<and>
     (\<forall>rq. cl_active s = Some rq \<longrightarrow> request_ok rq (log_of s))"

definition pipeline_ok :: "AncsClient \<Rightarrow> bool" where
  "pipeline_ok s \<longleftrightarrow>
     (\<forall>p \<in> set (queued s). \<forall>n. rq_notification (snd p) = Some n \<longrightarrow> alive (n_id n) (log_of s)) \<and>
     (\<forall>rq n. cl_active s = Some rq \<longrightarrow> \<not> rq_discarded rq \<longrightarrow> rq_notification rq = Some n \<longrightarrow> alive (n_id n) (log_of s)) \<and>
     (\<forall>p \<in> set (cl_pending_lookups s). \<forall>a \<in> set (snd p). alive (na_id a) (log_of s))"

definition separate :: "('a \<rightharpoonup> 'b) \<Rightarrow> bool" where
  "separate m \<longleftrightarrow> (\<forall>x y i. m x = Some i \<longrightarrow> m y = Some i \<longrightarrow> x = y)"

definition timers_ok :: "AncsClient \<Rightarrow> bool" where
  "timers_ok s \<longleftrightarrow> live (cl_hist s) = ran (cl_timers s) \<and> separate (cl_timers s) \<and>
     (cl_timers s Request_timeout \<noteq> None \<longrightarrow> cl_active s \<noteq> None \<and> cl_write_token s = None) \<and>
     (cl_timers s Busy_retry \<noteq> None \<longrightarrow> cl_active s = None)"

definition ancs_inv :: "pending_request list \<Rightarrow> AncsClient \<Rightarrow> bool" where
  "ancs_inv H s \<longleftrightarrow> serial s \<and> coherent H s \<and> accounted H s \<and> offers_ok s \<and> content_ok s \<and> pipeline_ok s \<and>
     log_ok (log_of s) \<and> timers_ok s"

lemmas inv_defs = ancs_inv_def serial_def coherent_def accounted_def offers_ok_def content_ok_def pipeline_ok_def
  timers_ok_def requests_def queued_for_def written_for_def

text \<open>The fields the invariant depends on; the others can change freely.\<close>

lemma inv_flags [simp]:
  "ancs_inv H (s\<lparr>cl_live_seen := b\<rparr>) = ancs_inv H s" "ancs_inv H (s\<lparr>cl_ns_path := x\<rparr>) = ancs_inv H s"
  "ancs_inv H (s\<lparr>cl_ds_path := x\<rparr>) = ancs_inv H s" "ancs_inv H (s\<lparr>cl_cp_path := x\<rparr>) = ancs_inv H s"
  "ancs_inv H (s\<lparr>cl_notify_started := b\<rparr>) = ancs_inv H s" "ancs_inv H (s\<lparr>cl_authorized := b\<rparr>) = ancs_inv H s"
  "ancs_inv H (s\<lparr>cl_health_proof := r\<rparr>) = ancs_inv H s" "ancs_inv H (s\<lparr>cl_permission_denied := b\<rparr>) = ancs_inv H s"
  "ancs_inv H (s\<lparr>cl_was_authorized := b\<rparr>) = ancs_inv H s" "ancs_inv H (s\<lparr>cl_bearer_connected := bo\<rparr>) = ancs_inv H s"
  "ancs_inv H (s\<lparr>cl_subscription_gen := m\<rparr>) = ancs_inv H s" "ancs_inv H (s\<lparr>cl_legacy_connected := b\<rparr>) = ancs_inv H s"
  "ancs_inv H (s\<lparr>cl_legacy_delay := d\<rparr>) = ancs_inv H s" "ancs_inv H (s\<lparr>cl_bearer_ready := b\<rparr>) = ancs_inv H s"
  "ancs_inv H (s\<lparr>cl_transport_blocked := b\<rparr>) = ancs_inv H s" "ancs_inv H (s\<lparr>cl_owned_paths := ps\<rparr>) = ancs_inv H s"
  "ancs_inv H (s\<lparr>cl_notify_refresh := no\<rparr>) = ancs_inv H s" "ancs_inv H (s\<lparr>cl_notify_refreshes := m\<rparr>) = ancs_inv H s"
  "ancs_inv H (s\<lparr>cl_app_names := ns\<rparr>) = ancs_inv H s" "ancs_inv H (s\<lparr>cl_observed_apps := os\<rparr>) = ancs_inv H s"
  "ancs_inv H (s\<lparr>cl_lookup_requested := ps\<rparr>) = ancs_inv H s" "ancs_inv H (s\<lparr>cl_categories := cs\<rparr>) = ancs_inv H s"
  "ancs_inv H (s\<lparr>cl_receivers := rs\<rparr>) = ancs_inv H s" "ancs_inv H (s\<lparr>cl_watching := b\<rparr>) = ancs_inv H s"
  "ancs_inv H (s\<lparr>cl_owner_available := b\<rparr>) = ancs_inv H s" "ancs_inv H (s\<lparr>cl_started := b\<rparr>) = ancs_inv H s"
  "ancs_inv H (s\<lparr>cl_notifies := nf\<rparr>) = ancs_inv H s"
  by (simp_all add: inv_defs log_of_def)

lemma init_inv: "ancs_started s \<Longrightarrow> ancs_inv [] s"
  by (auto simp: ancs_started_def AncsClient_init_def inv_defs log_of_def separate_def)

section \<open>Timers and neutral calls\<close>

lemma log_of_simps [simp]:
  "log_of (cl_call e s) = e # log_of s" "log_of (start_timer env k d s) = log_of s" "log_of (cancel_timer k s) = log_of s"
  "log_of (s\<lparr>cl_queue := q\<rparr>) = log_of s" "log_of (s\<lparr>cl_active := a\<rparr>) = log_of s" "log_of (s\<lparr>cl_writes := ws\<rparr>) = log_of s"
  "log_of (s\<lparr>cl_write_token := t\<rparr>) = log_of s" "log_of (s\<lparr>cl_next := m\<rparr>) = log_of s"
  "log_of (s\<lparr>cl_actionable := as\<rparr>) = log_of s" "log_of (s\<lparr>cl_next_action := i\<rparr>) = log_of s"
  "log_of (s\<lparr>cl_pending_lookups := ls\<rparr>) = log_of s" "log_of (s\<lparr>cl_timers := ts\<rparr>) = log_of s"
  "log_of (s\<lparr>cl_lookup_requested := ps\<rparr>) = log_of s" "log_of (s\<lparr>cl_live_seen := b\<rparr>) = log_of s"
  by (simp_all add: log_of_def cl_call_def start_timer_def cancel_timer_def Let_def split: option.split)

lemma request_ok_mono: "request_ok rq h \<Longrightarrow> request_ok rq (e # h)"
  by (auto simp: request_ok_def admitted_def split: option.splits if_splits)

fun neutral :: "ancs_call \<Rightarrow> bool" where
  "neutral (Write_value _) = False"
| "neutral (On_event _) = False"
| "neutral (Announced _) = False"
| "neutral Session_end = False"
| "neutral Actions_retired = False"
| "neutral (Action_result _ _) = False"
| "neutral (Clicked _) = False"
| "neutral _ = True"

lemma neutral_log:
  "neutral e \<Longrightarrow> standing u t (e # h) = standing u t h" "neutral e \<Longrightarrow> alive m (e # h) = alive m h"
  "neutral e \<Longrightarrow> log_ok (e # h) = log_ok h" "neutral e \<Longrightarrow> clicks k (e # h) = clicks k h"
  "neutral e \<Longrightarrow> results k (e # h) = results k h"
  by (cases e; simp)+

lemma neutral_offer: "neutral e \<Longrightarrow> offer_ok rq (e # h) = offer_ok rq h"
  by (simp add: offer_ok_def neutral_log split: option.split)

lemma cl_call_fields [simp]:
  "cl_queue (cl_call e s) = cl_queue s" "cl_active (cl_call e s) = cl_active s" "cl_writes (cl_call e s) = cl_writes s"
  "cl_write_token (cl_call e s) = cl_write_token s" "cl_owner_gen (cl_call e s) = cl_owner_gen s"
  "cl_next (cl_call e s) = cl_next s" "cl_actionable (cl_call e s) = cl_actionable s"
  "cl_next_action (cl_call e s) = cl_next_action s" "cl_pending_lookups (cl_call e s) = cl_pending_lookups s"
  "cl_timers (cl_call e s) = cl_timers s" "live (cl_hist (cl_call e s)) = live (cl_hist s)"
  by (simp_all add: cl_call_def)

lemma timer_fields [simp]:
  "cl_queue (start_timer env k d s) = cl_queue s" "cl_active (start_timer env k d s) = cl_active s"
  "cl_writes (start_timer env k d s) = cl_writes s" "cl_write_token (start_timer env k d s) = cl_write_token s"
  "cl_owner_gen (start_timer env k d s) = cl_owner_gen s" "cl_next (start_timer env k d s) = cl_next s"
  "cl_actionable (start_timer env k d s) = cl_actionable s" "cl_next_action (start_timer env k d s) = cl_next_action s"
  "cl_pending_lookups (start_timer env k d s) = cl_pending_lookups s"
  "cl_timers (start_timer env k d s) = (cl_timers s)(k \<mapsto> en_sched env (cl_hist s))"
  "live (cl_hist (start_timer env k d s)) = insert (en_sched env (cl_hist s)) (live (cl_hist s))"
  by (simp_all add: start_timer_def Let_def)

lemma cancel_fields [simp]:
  "cl_queue (cancel_timer k s) = cl_queue s" "cl_active (cancel_timer k s) = cl_active s"
  "cl_writes (cancel_timer k s) = cl_writes s" "cl_write_token (cancel_timer k s) = cl_write_token s"
  "cl_owner_gen (cancel_timer k s) = cl_owner_gen s" "cl_next (cancel_timer k s) = cl_next s"
  "cl_actionable (cancel_timer k s) = cl_actionable s" "cl_next_action (cancel_timer k s) = cl_next_action s"
  "cl_pending_lookups (cancel_timer k s) = cl_pending_lookups s"
  "cl_timers (cancel_timer k s) = (cl_timers s)(k := None)"
  by (auto simp: cancel_timer_def split: option.split)

lemma inv_call: "neutral e \<Longrightarrow> ancs_inv H s \<Longrightarrow> ancs_inv H (cl_call e s)"
proof -
  assume e: "neutral e" and s: "ancs_inv H s"
  have "serial (cl_call e s) = serial s" "coherent H (cl_call e s) = coherent H s" "timers_ok (cl_call e s) = timers_ok s"
    by (simp_all add: serial_def coherent_def requests_def timers_ok_def)
  moreover have "accounted H (cl_call e s) = accounted H s" "offers_ok (cl_call e s) = offers_ok s"
      "pipeline_ok (cl_call e s) = pipeline_ok s"
    using e by (simp_all add: accounted_def offers_ok_def pipeline_ok_def queued_for_def written_for_def neutral_log neutral_offer)
  moreover have "content_ok s \<Longrightarrow> content_ok (cl_call e s)" by (simp add: content_ok_def request_ok_mono)
  ultimately show ?thesis using s e by (simp add: ancs_inv_def neutral_log)
qed

lemma inv_callback: "neutral e \<Longrightarrow> ancs_inv H s \<Longrightarrow> ancs_inv H (callback env n e s)"
  by (simp add: callback_def inv_call)

text \<open>The invariant without the timers; starting and cancelling a timer concerns these only.\<close>

definition same_core :: "AncsClient \<Rightarrow> AncsClient \<Rightarrow> bool" where
  "same_core t s \<longleftrightarrow> cl_queue t = cl_queue s \<and> cl_active t = cl_active s \<and> cl_writes t = cl_writes s \<and>
     cl_write_token t = cl_write_token s \<and> cl_owner_gen t = cl_owner_gen s \<and> cl_next t = cl_next s \<and>
     cl_actionable t = cl_actionable s \<and> cl_next_action t = cl_next_action s \<and>
     cl_pending_lookups t = cl_pending_lookups s \<and> log_of t = log_of s"

lemma inv_timers: "timers_ok t \<Longrightarrow> ancs_inv H s \<Longrightarrow> same_core t s \<Longrightarrow> ancs_inv H t"
proof -
  assume t: "timers_ok t" and s: "ancs_inv H s" and c: "same_core t s"
  have "serial t = serial s" using c by (simp add: same_core_def serial_def)
  moreover have "coherent H t = coherent H s" using c by (simp add: same_core_def coherent_def requests_def)
  moreover have "accounted H t = accounted H s"
    using c by (simp add: same_core_def accounted_def queued_for_def written_for_def)
  moreover have "offers_ok t = offers_ok s" using c by (simp add: same_core_def offers_ok_def)
  moreover have "content_ok t = content_ok s" using c by (simp add: same_core_def content_ok_def)
  moreover have "pipeline_ok t = pipeline_ok s" using c by (simp add: same_core_def pipeline_ok_def)
  moreover have "log_of t = log_of s" using c by (simp add: same_core_def)
  ultimately show ?thesis using t s by (simp add: ancs_inv_def)
qed

lemma separate_upd: "separate m \<Longrightarrow> i \<notin> ran m \<Longrightarrow> separate (m(k \<mapsto> i))"
  by (auto simp: separate_def ran_def)

lemma separate_del: "separate m \<Longrightarrow> separate (m(k := None))"
  by (auto simp: separate_def)

lemma ran_map_del: "separate m \<Longrightarrow> m k = Some i \<Longrightarrow> ran (m(k := None)) = ran m - {i}"
proof -
  assume m: "separate m" "m k = Some i"
  have "(m(k := None)) x = Some j \<longleftrightarrow> m x = Some j \<and> j \<noteq> i" for x j
    using m by (cases "x = k") (auto simp: separate_def)
  then show ?thesis by (auto simp: ran_def)
qed

lemma timers_start:
  assumes "timers_ok s" "fresh_ids (en_sched env)" "cl_timers s k = None"
    and "k = Request_timeout \<Longrightarrow> cl_active s \<noteq> None \<and> cl_write_token s = None" "k = Busy_retry \<Longrightarrow> cl_active s = None"
  shows "timers_ok (start_timer env k d s)"
proof -
  have "en_sched env (cl_hist s) \<notin> ran (cl_timers s)"
    using fresh_ids_live [OF assms(2)] assms(1) by (metis timers_ok_def)
  then have "separate ((cl_timers s)(k \<mapsto> en_sched env (cl_hist s)))"
    using assms(1) by (intro separate_upd) (auto simp: timers_ok_def)
  then show ?thesis using assms(1,3,4,5) unfolding timers_ok_def
    by (cases "cl_timers s Request_timeout") (auto simp: ran_map_upd)
qed

lemma timers_cancel:
  assumes "timers_ok s"
  shows "timers_ok (cancel_timer k s)"
proof (cases "cl_timers s k")
  case None
  then show ?thesis using assms by (simp add: cancel_timer_def)
next
  case (Some i)
  have inj: "separate (cl_timers s)" using assms by (simp add: timers_ok_def)
  then have "separate ((cl_timers s)(k := None))" by (rule separate_del)
  moreover have "live (cl_hist (cancel_timer k s)) = live (cl_hist s) - {i}" using Some by (simp add: cancel_timer_def)
  ultimately show ?thesis using assms ran_map_del [OF inj Some] unfolding timers_ok_def by simp
qed

lemma inv_start_timer:
  assumes "ancs_inv H s" "fresh_ids (en_sched env)" "cl_timers s k = None"
    and "k = Request_timeout \<Longrightarrow> cl_active s \<noteq> None \<and> cl_write_token s = None" "k = Busy_retry \<Longrightarrow> cl_active s = None"
  shows "ancs_inv H (start_timer env k d s)"
proof (rule inv_timers [OF timers_start assms(1)])
  show "timers_ok s" using assms(1) by (simp add: ancs_inv_def)
qed (use assms in \<open>simp_all add: same_core_def\<close>)

lemma inv_cancel [simp]: "ancs_inv H s \<Longrightarrow> ancs_inv H (cancel_timer k s)"
  by (rule inv_timers [OF timers_cancel]) (simp_all add: ancs_inv_def same_core_def)

section \<open>Queue, active request, offers\<close>

text \<open>Reports are appended to the log; nothing else changes.\<close>

definition outcome_log :: "action_outcome \<Rightarrow> pending_request \<Rightarrow> ancs_call list" where
  "outcome_log r rq =
     (case rq_action rq of None \<Rightarrow> [] | Some a \<Rightarrow> (case ar_result a of None \<Rightarrow> [] | Some k \<Rightarrow> [Action_result k r]))"

lemma report_fields [simp]:
  "cl_queue (report_action a r s) = cl_queue s" "cl_active (report_action a r s) = cl_active s"
  "cl_writes (report_action a r s) = cl_writes s" "cl_write_token (report_action a r s) = cl_write_token s"
  "cl_owner_gen (report_action a r s) = cl_owner_gen s" "cl_next (report_action a r s) = cl_next s"
  "cl_actionable (report_action a r s) = cl_actionable s" "cl_next_action (report_action a r s) = cl_next_action s"
  "cl_pending_lookups (report_action a r s) = cl_pending_lookups s" "cl_timers (report_action a r s) = cl_timers s"
  "live (cl_hist (report_action a r s)) = live (cl_hist s)"
  "log_of (report_action a r s) = (case ar_result a of None \<Rightarrow> [] | Some k \<Rightarrow> [Action_result k r]) @ log_of s"
  by (simp_all add: report_action_def split: option.split)

lemma removed_fields [simp]:
  "cl_queue (report_removed r rq s) = cl_queue s" "cl_active (report_removed r rq s) = cl_active s"
  "cl_writes (report_removed r rq s) = cl_writes s" "cl_write_token (report_removed r rq s) = cl_write_token s"
  "cl_owner_gen (report_removed r rq s) = cl_owner_gen s" "cl_next (report_removed r rq s) = cl_next s"
  "cl_actionable (report_removed r rq s) = cl_actionable s" "cl_next_action (report_removed r rq s) = cl_next_action s"
  "cl_pending_lookups (report_removed r rq s) = cl_pending_lookups s" "cl_timers (report_removed r rq s) = cl_timers s"
  "live (cl_hist (report_removed r rq s)) = live (cl_hist s)"
  "log_of (report_removed r rq s) = outcome_log r rq @ log_of s"
  by (simp_all add: report_removed_def outcome_log_def split: option.split)

lemma fold_removed_fields [simp]:
  "cl_queue (fold (report_removed r) rqs s) = cl_queue s" "cl_active (fold (report_removed r) rqs s) = cl_active s"
  "cl_writes (fold (report_removed r) rqs s) = cl_writes s" "cl_write_token (fold (report_removed r) rqs s) = cl_write_token s"
  "cl_owner_gen (fold (report_removed r) rqs s) = cl_owner_gen s" "cl_next (fold (report_removed r) rqs s) = cl_next s"
  "cl_actionable (fold (report_removed r) rqs s) = cl_actionable s"
  "cl_next_action (fold (report_removed r) rqs s) = cl_next_action s"
  "cl_pending_lookups (fold (report_removed r) rqs s) = cl_pending_lookups s"
  "cl_timers (fold (report_removed r) rqs s) = cl_timers s"
  "live (cl_hist (fold (report_removed r) rqs s)) = live (cl_hist s)"
  "log_of (fold (report_removed r) rqs s) = concat (map (outcome_log r) (rev rqs)) @ log_of s"
  by (induction rqs arbitrary: s) simp_all

fun is_report :: "ancs_call \<Rightarrow> bool" where
  "is_report (Action_result _ _) = True"
| "is_report _ = False"

lemma report_one:
  assumes "is_report e"
  shows "standing u t (e # h) = standing u t h" "alive m (e # h) = alive m h" "log_ok (e # h) = log_ok h"
    "clicks k (e # h) = clicks k h" "offer_ok rq (e # h) = offer_ok rq h"
  using assms by (cases e; simp add: offer_ok_def split: option.split)+

lemma report_log:
  assumes "list_all is_report es"
  shows "standing u t (es @ h) = standing u t h" "alive m (es @ h) = alive m h" "log_ok (es @ h) = log_ok h"
    "clicks k (es @ h) = clicks k h" "offer_ok rq (es @ h) = offer_ok rq h" "results k (es @ h) = results k es + results k h"
    "request_ok rq h \<Longrightarrow> request_ok rq (es @ h)"
  using assms
proof (induction es)
  case (Cons e es)
  { case 1 then show ?case using Cons report_one(1) [of e u t "es @ h"] by simp }
  { case 2 then show ?case using Cons report_one(2) [of e m "es @ h"] by simp }
  { case 3 then show ?case using Cons report_one(3) [of e "es @ h"] by simp }
  { case 4 then show ?case using Cons report_one(4) [of e k "es @ h"] by simp }
  { case 5 then show ?case using Cons report_one(5) [of e rq "es @ h"] by simp }
  { case 6 then show ?case using Cons by (cases e) auto }
  { case 7 then show ?case using Cons request_ok_mono by simp }
qed simp_all

text \<open>A step back: less queued, fewer offers, the active request kept, discarded or gone.\<close>

definition active_le :: "pending_request option \<Rightarrow> pending_request option \<Rightarrow> bool" where
  "active_le a b \<longleftrightarrow> (case a of None \<Rightarrow> True | Some x \<Rightarrow>
     (case b of None \<Rightarrow> False | Some y \<Rightarrow> rq_id x = rq_id y \<and> rq_action x = rq_action y \<and>
        rq_notification x = rq_notification y \<and> (rq_discarded y \<longrightarrow> rq_discarded x) \<and>
        (\<forall>h. request_ok y h \<longrightarrow> request_ok x h)))"

lemma active_le_refl [simp]: "active_le a a"
  by (simp add: active_le_def split: option.split)

definition offers_le :: "(int \<times> actionable) list \<Rightarrow> (int \<times> actionable) list \<Rightarrow> bool" where
  "offers_le xs ys \<longleftrightarrow> (\<forall>(u, e) \<in> set xs. \<exists>e'. (u, e') \<in> set ys \<and> ao_token e' = ao_token e)"

definition waiting :: "AncsClient \<Rightarrow> NotificationAttributes set" where
  "waiting s = (\<Union>p \<in> set (cl_pending_lookups s). set (snd p))"

lemma offers_le_refl [simp]: "offers_le xs xs"
  by (auto simp: offers_le_def)

lemma offers_le_sub: "set xs \<subseteq> set ys \<Longrightarrow> offers_le xs ys"
  by (auto simp: offers_le_def)

definition shrunk :: "AncsClient \<Rightarrow> AncsClient \<Rightarrow> bool" where
  "shrunk t s \<longleftrightarrow> set (queued t) \<subseteq> set (queued s) \<and> cl_writes t = cl_writes s \<and> cl_write_token t = cl_write_token s \<and>
     cl_owner_gen t = cl_owner_gen s \<and> cl_next t = cl_next s \<and> offers_le (cl_actionable t) (cl_actionable s) \<and>
     cl_next_action t = cl_next_action s \<and> waiting t \<subseteq> waiting s \<and> active_le (cl_active t) (cl_active s)"

lemma shrunk_requests:
  assumes "shrunk t s" "rq \<in> requests H t"
  shows "\<exists>rq' \<in> requests H s. rq_id rq' = rq_id rq \<and> rq_action rq' = rq_action rq"
proof -
  consider "rq \<in> snd ` set (queued s)" | "cl_active t = Some rq" | "rq \<in> wc_request ` set (cl_writes s)" | "rq \<in> set H"
    using assms by (auto simp: requests_def shrunk_def)
  then show ?thesis
  proof cases
    case 2
    then obtain y where "cl_active s = Some y" "rq_id rq = rq_id y" "rq_action rq = rq_action y"
      using assms(1) by (auto simp: shrunk_def active_le_def split: option.splits)
    then show ?thesis by (auto simp: requests_def)
  qed (auto simp: requests_def)
qed

lemma shrunk_coherent: "shrunk t s \<Longrightarrow> coherent H s \<Longrightarrow> coherent H t"
proof -
  assume t: "shrunk t s" and s: "coherent H s"
  have "cl_next t = cl_next s" using t by (simp add: shrunk_def)
  with shrunk_requests [OF t] s show ?thesis unfolding coherent_def by metis
qed

lemma shrunk_pipeline:
  assumes "shrunk t s" "pipeline_ok s" "\<And>u. alive u (log_of s) \<Longrightarrow> alive u (log_of t)"
  shows "pipeline_ok t"
proof -
  have w: "alive (na_id a) (log_of t)" if "p \<in> set (cl_pending_lookups t)" "a \<in> set (snd p)" for p a
  proof -
    have "a \<in> waiting s" using that assms(1) by (auto simp: shrunk_def waiting_def)
    then show ?thesis using assms(2,3) by (auto simp: waiting_def pipeline_ok_def)
  qed
  have q: "alive (n_id n) (log_of t)" if "p \<in> set (queued t)" "rq_notification (snd p) = Some n" for p n
    using that assms by (auto simp: shrunk_def pipeline_ok_def)
  have "alive (n_id n) (log_of t)" if a: "cl_active t = Some rq" "\<not> rq_discarded rq" "rq_notification rq = Some n" for rq n
  proof -
    obtain y where "cl_active s = Some y" "rq_notification y = Some n" "\<not> rq_discarded y"
      using assms(1) a by (auto simp: shrunk_def active_le_def split: option.splits)
    then show ?thesis using assms(2,3) by (auto simp: pipeline_ok_def)
  qed
  then show ?thesis using w q unfolding pipeline_ok_def by blast
qed

lemma shrunk_content:
  assumes "shrunk t s" "content_ok s" "\<And>rq. request_ok rq (log_of s) \<Longrightarrow> request_ok rq (log_of t)"
  shows "content_ok t"
proof -
  have "request_ok rq (log_of t)" if a: "cl_active t = Some rq" for rq
  proof -
    obtain y where "cl_active s = Some y" "\<forall>h. request_ok y h \<longrightarrow> request_ok rq h"
      using assms(1) a by (auto simp: shrunk_def active_le_def split: option.splits)
    then show ?thesis using assms(2,3) by (auto simp: content_ok_def)
  qed
  moreover have "request_ok (snd p) (log_of t)" if "p \<in> set (queued t)" for p
    using that assms by (auto simp: shrunk_def content_ok_def)
  ultimately show ?thesis unfolding content_ok_def by blast
qed

lemma shrunk_offers:
  assumes "shrunk t s" "offers_ok s" "\<And>u k. standing u k (log_of s) \<Longrightarrow> standing u k (log_of t)"
  shows "offers_ok t"
proof -
  have "standing u (ao_token e) (log_of t)" if e: "(u, e) \<in> set (cl_actionable t)" for u e
  proof -
    obtain e' where "(u, e') \<in> set (cl_actionable s)" "ao_token e' = ao_token e"
      using assms(1) e by (auto simp: shrunk_def offers_le_def)
    then show ?thesis using assms(2,3) by (auto simp: offers_ok_def)
  qed
  moreover have "offer_ok (snd p) (log_of t)" if "p \<in> set (queued t)" for p
  proof -
    have "offer_ok (snd p) (log_of s)" using that assms(1,2) by (auto simp: shrunk_def offers_ok_def)
    then show ?thesis using assms(3) by (auto simp: offer_ok_def split: option.splits)
  qed
  moreover have "0 < cl_next_action t" using assms(1,2) by (simp add: shrunk_def offers_ok_def)
  ultimately show ?thesis unfolding offers_ok_def by blast
qed

lemma inv_shrunk:
  assumes "ancs_inv H s" "shrunk t s" "log_of t = es @ log_of s" "list_all is_report es" "accounted H t" "timers_ok t"
  shows "ancs_inv H t"
proof -
  note rl = report_log [OF assms(4)]
  have "serial t" using assms(1,2) by (simp add: ancs_inv_def serial_def shrunk_def)
  moreover have "coherent H t" using shrunk_coherent [OF assms(2)] assms(1) by (simp add: ancs_inv_def)
  moreover have "offers_ok t" using shrunk_offers [OF assms(2)] assms(1,3) rl by (simp add: ancs_inv_def)
  moreover have "content_ok t" using shrunk_content [OF assms(2)] assms(1,3) rl by (simp add: ancs_inv_def)
  moreover have "pipeline_ok t" using shrunk_pipeline [OF assms(2)] assms(1,3) rl by (simp add: ancs_inv_def)
  moreover have "log_ok (log_of t)" using assms(1,3) rl by (simp add: ancs_inv_def)
  ultimately show ?thesis using assms(5,6) by (simp add: ancs_inv_def)
qed

subsection \<open>Dropping and discarding\<close>

lemma results_outcomes: "results k (concat (map (outcome_log r) rqs)) = length (filter (action_of k) rqs)"
proof (induction rqs)
  case (Cons rq rqs)
  have "list_all is_report (outcome_log r rq)" by (simp add: outcome_log_def split: option.split)
  moreover have "results k (outcome_log r rq) = (if action_of k rq then 1 else 0)"
    by (simp add: outcome_log_def action_of_def split: option.split)
  ultimately show ?case using Cons by (simp add: report_log(6))
qed simp

lemma outcomes_reports: "list_all is_report (concat (map (outcome_log r) rqs))"
  by (induction rqs) (auto simp: outcome_log_def split: option.splits)

text \<open>\<open>_drop_queued_actions\<close> reports exactly what it removes.\<close>

lemma drop_queued_fields:
  assumes "drop_queued_actions p r s = (t, m)"
  shows "cl_active t = cl_active s" "cl_writes t = cl_writes s" "cl_write_token t = cl_write_token s"
    "cl_owner_gen t = cl_owner_gen s" "cl_next t = cl_next s" "cl_actionable t = cl_actionable s"
    "cl_next_action t = cl_next_action s" "cl_pending_lookups t = cl_pending_lookups s" "cl_timers t = cl_timers s"
    "live (cl_hist t) = live (cl_hist s)" "queued t = filter (\<lambda>x. \<not> is_action p (snd x)) (queued s)"
    "\<exists>rqs. log_of t = concat (map (outcome_log r) rqs) @ log_of s \<and>
       (\<forall>k. queued_for k s = queued_for k t + length (filter (action_of k) rqs))"
proof -
  let ?rm = "map snd (filter (\<lambda>x. is_action p (snd x)) (queued s))"
  have t: "t = fold (report_removed r) ?rm (s\<lparr>cl_queue := fst (remove_if (is_action p) (cl_queue s))\<rparr>)"
    using assms by (simp add: drop_queued_actions_def remove_if_def)
  show "cl_active t = cl_active s" "cl_writes t = cl_writes s" "cl_write_token t = cl_write_token s"
    "cl_owner_gen t = cl_owner_gen s" "cl_next t = cl_next s" "cl_actionable t = cl_actionable s"
    "cl_next_action t = cl_next_action s" "cl_pending_lookups t = cl_pending_lookups s" "cl_timers t = cl_timers s"
    "live (cl_hist t) = live (cl_hist s)" and q: "queued t = filter (\<lambda>x. \<not> is_action p (snd x)) (queued s)"
    unfolding t by (simp_all add: remove_if_def)
  have "length (filter (\<lambda>x. action_of k (snd x)) xs) =
      length (filter (\<lambda>x. action_of k (snd x)) (filter (\<lambda>x. \<not> is_action p (snd x)) xs)) +
      length (filter (action_of k) (rev (map snd (filter (\<lambda>x. is_action p (snd x)) xs))))" for k xs
    by (induction xs) auto
  then have "queued_for k s = queued_for k t + length (filter (action_of k) (rev ?rm))" for k
    by (simp add: queued_for_def q)
  moreover have "log_of t = concat (map (outcome_log r) (rev ?rm)) @ log_of s"
    unfolding t by (simp only: fold_removed_fields log_of_simps)
  ultimately show "\<exists>rqs. log_of t = concat (map (outcome_log r) rqs) @ log_of s \<and>
       (\<forall>k. queued_for k s = queued_for k t + length (filter (action_of k) rqs))" by blast
qed

lemma drop_queued_inv:
  assumes "ancs_inv H s" "drop_queued_actions p r s = (t, m)"
  shows "ancs_inv H t"
proof -
  note f = drop_queued_fields [OF assms(2)]
  from f(12) obtain rqs where l: "log_of t = concat (map (outcome_log r) rqs) @ log_of s"
    and q: "\<And>k. queued_for k s = queued_for k t + length (filter (action_of k) rqs)" by blast
  note rl = report_log [OF outcomes_reports [of r rqs]]
  have "shrunk t s" using f by (auto simp: shrunk_def waiting_def)
  moreover have "accounted H t"
    using assms(1) q by (simp add: ancs_inv_def accounted_def l rl results_outcomes written_for_def f(2))
  moreover have "timers_ok t" using assms(1) by (simp add: ancs_inv_def timers_ok_def f)
  ultimately show ?thesis using inv_shrunk [OF assms(1) _ l outcomes_reports] by blast
qed

text \<open>Changes that leave the log and the queued actions alone.\<close>

lemma inv_quiet:
  assumes "ancs_inv H s" "shrunk t s" "log_of t = log_of s" "\<And>k. queued_for k t = queued_for k s" "timers_ok t"
  shows "ancs_inv H t"
proof -
  have "written_for k t = written_for k s" for k using assms(2) by (simp add: written_for_def shrunk_def)
  then have "accounted H t" using assms(1,3,4) by (simp add: ancs_inv_def accounted_def)
  then show ?thesis using inv_shrunk [OF assms(1,2), of "[]"] assms(3,5) by simp
qed

lemma timers_same: "timers_ok s \<Longrightarrow> cl_timers t = cl_timers s \<Longrightarrow> live (cl_hist t) = live (cl_hist s) \<Longrightarrow>
    cl_write_token t = cl_write_token s \<Longrightarrow> (cl_active t = None) = (cl_active s = None) \<Longrightarrow> timers_ok t"
  by (simp add: timers_ok_def)

lemma inv_timers_ok: "ancs_inv H s \<Longrightarrow> timers_ok s"
  by (simp add: ancs_inv_def)

lemma inv_actionable: "ancs_inv H s \<Longrightarrow> offers_le as (cl_actionable s) \<Longrightarrow> ancs_inv H (s\<lparr>cl_actionable := as\<rparr>)"
  by (rule inv_quiet [where s = s]) (auto simp: shrunk_def waiting_def queued_for_def intro: timers_same [OF inv_timers_ok])

lemma inv_pending: "ancs_inv H s \<Longrightarrow> waiting (s\<lparr>cl_pending_lookups := ls\<rparr>) \<subseteq> waiting s \<Longrightarrow> ancs_inv H (s\<lparr>cl_pending_lookups := ls\<rparr>)"
  by (rule inv_quiet [where s = s]) (auto simp: shrunk_def queued_for_def intro: timers_same [OF inv_timers_ok])

text \<open>Only the reservations of the queue change.\<close>

lemma inv_reserved: "ancs_inv H s \<Longrightarrow> rb_queue q = queued s \<Longrightarrow> ancs_inv H (s\<lparr>cl_queue := q\<rparr>)"
  by (rule inv_quiet [where s = s]) (auto simp: shrunk_def queued_for_def waiting_def intro: timers_same [OF inv_timers_ok])

lemma call_common:
  assumes "ancs_inv H s" "offers_ok (cl_call e s)" "pipeline_ok (cl_call e s)" "log_ok (e # log_of s)"
    and "\<And>k. clicks k (e # log_of s) = clicks k (log_of s)" "\<And>k. results k (e # log_of s) = results k (log_of s)"
  shows "ancs_inv H (cl_call e s)"
proof -
  have "serial (cl_call e s) = serial s" "coherent H (cl_call e s) = coherent H s" "timers_ok (cl_call e s) = timers_ok s"
    by (simp_all add: serial_def coherent_def requests_def timers_ok_def)
  moreover have "accounted H (cl_call e s) = accounted H s"
    using assms(5,6) by (simp add: accounted_def queued_for_def written_for_def)
  moreover have "content_ok s \<Longrightarrow> content_ok (cl_call e s)" by (simp add: content_ok_def request_ok_mono)
  ultimately show ?thesis using assms by (simp add: ancs_inv_def)
qed

lemma inv_retired:
  assumes "ancs_inv H s" "cl_actionable s = []" "\<And>p. p \<in> set (queued s) \<Longrightarrow> rq_action (snd p) = None"
  shows "ancs_inv H (cl_call Actions_retired s)"
proof (rule call_common [OF assms(1)])
  show "offers_ok (cl_call Actions_retired s)" using assms by (auto simp: offers_ok_def offer_ok_def ancs_inv_def)
  show "pipeline_ok (cl_call Actions_retired s)" using assms(1) by (simp add: ancs_inv_def pipeline_ok_def)
qed (use assms(1) in \<open>simp_all add: ancs_inv_def\<close>)

lemma is_action_True: "is_action (\<lambda>_. True) rq = (rq_action rq \<noteq> None)"
  by (simp add: is_action_def split: option.split)

lemma reset_actions_inv [simp]:
  assumes "ancs_inv H s"
  shows "ancs_inv H (reset_actions env s)"
proof -
  obtain t m where t: "drop_queued_actions (\<lambda>_. True) ACTION_UNAVAILABLE (s\<lparr>cl_actionable := []\<rparr>) = (t, m)" by fastforce
  have "ancs_inv H (s\<lparr>cl_actionable := []\<rparr>)" using assms by (rule inv_actionable) (simp add: offers_le_def)
  from drop_queued_inv [OF this t] drop_queued_fields(6,11) [OF t]
  have "ancs_inv H (cl_call Actions_retired t)" by (intro inv_retired) (auto simp: is_action_True)
  then show ?thesis by (simp add: reset_actions_def t inv_callback Let_def)
qed

text \<open>A discarded active request keeps its place but not its notification.\<close>

lemma discard_active_inv: "ancs_inv H s \<Longrightarrow> ancs_inv H (discard_active uid s)"
proof -
  assume s: "ancs_inv H s"
  show ?thesis
  proof (cases "cl_active s")
    case None
    then show ?thesis using s by (simp add: discard_active_def)
  next
    case (Some rq)
    have r: "request_ok (rq\<lparr>rq_discarded := True, rq_key := k\<rparr>) h" if "about_uid uid rq" "request_ok rq h" for k h
      using that by (auto simp: request_ok_def about_uid_def split: option.splits)
    show ?thesis unfolding discard_active_def Some option.case
      by (cases "about_uid uid rq \<and> \<not> rq_discarded rq")
        (use s Some in \<open>auto intro!: inv_quiet [OF s] intro: timers_same [OF inv_timers_ok [OF s]]
           simp: shrunk_def waiting_def queued_for_def finish_def active_le_def dest: r\<close>)
  qed
qed

lemma remove_about_inv: "ancs_inv H s \<Longrightarrow> ancs_inv H (s\<lparr>cl_queue := fst (remove_if (about_uid uid) (cl_queue s))\<rparr>)"
proof -
  assume s: "ancs_inv H s"
  have "rq_action (snd p) = None" if "p \<in> set (queued s)" "about_uid uid (snd p)" for p
  proof -
    have "request_ok (snd p) (log_of s)" using s that by (auto simp: ancs_inv_def content_ok_def)
    then show ?thesis using that(2) by (auto simp: request_ok_def about_uid_def split: option.splits)
  qed
  then have "filter (\<lambda>p. action_of k (snd p)) (filter (\<lambda>p. \<not> about_uid uid (snd p)) (queued s)) =
      filter (\<lambda>p. action_of k (snd p)) (queued s)" for k
    by (auto simp: action_of_def intro!: filter_cong split: option.splits)
  then show ?thesis
    by (intro inv_quiet [OF s]) (auto simp: shrunk_def waiting_def queued_for_def remove_if_def
        intro: timers_same [OF inv_timers_ok [OF s]])
qed

lemma discard_inv [simp]: "ancs_inv H s \<Longrightarrow> ancs_inv H (discard_notification_requests uid s)"
proof -
  assume "ancs_inv H s"
  then have "ancs_inv H (discard_active uid (s\<lparr>cl_queue := fst (remove_if (about_uid uid) (cl_queue s))\<rparr>))"
    by (intro discard_active_inv remove_about_inv)
  then show ?thesis unfolding discard_notification_requests_def Let_def
    by (rule inv_pending) (auto simp: waiting_def discard_lookups_def)
qed

text \<open>What is left of the pipeline afterwards.\<close>

definition pipeline_uids :: "AncsClient \<Rightarrow> nat set" where
  "pipeline_uids s =
     {n_id n | n p. p \<in> set (queued s) \<and> rq_notification (snd p) = Some n} \<union>
     {n_id n | n rq. cl_active s = Some rq \<and> \<not> rq_discarded rq \<and> rq_notification rq = Some n} \<union> na_id ` waiting s"

lemma pipeline_ok_uids: "pipeline_ok s \<longleftrightarrow> (\<forall>u \<in> pipeline_uids s. alive u (log_of s))"
  unfolding pipeline_ok_def pipeline_uids_def waiting_def by blast

lemma discard_active_fields [simp]:
  "cl_pending_lookups (discard_active uid s) = cl_pending_lookups s" "cl_actionable (discard_active uid s) = cl_actionable s"
  "queued (discard_active uid s) = queued s"
  by (simp_all add: discard_active_def finish_def split: option.split)

lemma discard_actionable [simp]: "cl_actionable (discard_notification_requests uid s) = cl_actionable s"
  by (simp add: discard_notification_requests_def Let_def)

lemma queued_discard [simp]:
  "queued (discard_notification_requests uid s) = filter (\<lambda>p. \<not> about_uid uid (snd p)) (queued s)"
  by (simp add: discard_notification_requests_def Let_def remove_if_def)

lemma discard_uids:
  "pipeline_uids (discard_notification_requests uid s) \<subseteq> (case uid of None \<Rightarrow> {} | Some u \<Rightarrow> pipeline_uids s - {u})"
proof -
  let ?t = "discard_notification_requests uid s"
  have a: "cl_active ?t = cl_active (discard_active uid s)"
    by (simp add: discard_notification_requests_def Let_def discard_active_def split: option.split)
  have w: "a \<in> waiting s \<and> (case uid of None \<Rightarrow> False | Some u \<Rightarrow> na_id a \<noteq> u)" if "a \<in> waiting ?t" for a
    using that by (auto simp: waiting_def discard_notification_requests_def Let_def discard_lookups_def intro: rev_bexI)
  have q: "n_id n \<in> pipeline_uids s \<and> (case uid of None \<Rightarrow> False | Some u \<Rightarrow> n_id n \<noteq> u)"
    if "p \<in> set (queued s)" "\<not> about_uid uid (snd p)" "rq_notification (snd p) = Some n" for p n
  proof
    show "n_id n \<in> pipeline_uids s" using that unfolding pipeline_uids_def by blast
    show "case uid of None \<Rightarrow> False | Some u \<Rightarrow> n_id n \<noteq> u" using that by (auto simp: about_uid_def split: option.splits)
  qed
  have c: "n_id n \<in> pipeline_uids s \<and> (case uid of None \<Rightarrow> False | Some u \<Rightarrow> n_id n \<noteq> u)"
    if "cl_active (discard_active uid s) = Some rq" "\<not> rq_discarded rq" "rq_notification rq = Some n" for rq n
  proof -
    have rq: "cl_active s = Some rq \<and> \<not> about_uid uid rq"
      using that by (auto simp: discard_active_def split: option.splits if_splits)
    then have "n_id n \<in> pipeline_uids s" using that unfolding pipeline_uids_def by blast
    then show ?thesis using rq that(3) by (auto simp: about_uid_def split: option.splits)
  qed
  have "u \<in> pipeline_uids s \<and> (case uid of None \<Rightarrow> False | Some v \<Rightarrow> u \<noteq> v)" if "u \<in> pipeline_uids ?t" for u
  proof -
    consider n p where "u = n_id n" "p \<in> set (queued s)" "\<not> about_uid uid (snd p)" "rq_notification (snd p) = Some n"
      | n rq where "u = n_id n" "cl_active (discard_active uid s) = Some rq" "\<not> rq_discarded rq" "rq_notification rq = Some n"
      | a' where "u = na_id a'" "a' \<in> waiting ?t"
      using \<open>u \<in> pipeline_uids ?t\<close> unfolding pipeline_uids_def queued_discard a by auto
    then show ?thesis using q c w by cases (auto simp: pipeline_uids_def)
  qed
  then show ?thesis by (cases uid) auto
qed

lemma inv_session_end:
  assumes "ancs_inv H s" "pipeline_uids s = {}"
  shows "ancs_inv H (cl_call Session_end s)"
proof (rule call_common [OF assms(1)])
  have "pipeline_uids (cl_call Session_end s) = {}" using assms(2) by (simp add: pipeline_uids_def waiting_def)
  then show "pipeline_ok (cl_call Session_end s)" by (simp add: pipeline_ok_uids)
  show "offers_ok (cl_call Session_end s)"
    using assms(1) by (simp add: ancs_inv_def offers_ok_def offer_ok_def cong: option.case_cong)
qed (use assms(1) in \<open>simp_all add: ancs_inv_def\<close>)

lemma end_session_inv [simp]: "ancs_inv H s \<Longrightarrow> ancs_inv H (end_session env s)"
  using discard_uids [of None "s\<lparr>cl_live_seen := False\<rparr>"] unfolding end_session_def
  by (intro inv_callback inv_session_end) auto

lemma inv_announced:
  assumes "ancs_inv H s" "int (n_id n) \<notin> fst ` set (cl_actionable s)"
    and "\<And>p a. p \<in> set (queued s) \<Longrightarrow> rq_action (snd p) = Some a \<Longrightarrow> ar_uid a \<noteq> int (n_id n)"
    and "n_type n = NotificationRemoved \<Longrightarrow> n_id n \<notin> pipeline_uids s"
  shows "ancs_inv H (cl_call (Announced n) s)"
proof (rule call_common [OF assms(1)])
  have "pipeline_uids (cl_call (Announced n) s) = pipeline_uids s" by (simp add: pipeline_uids_def waiting_def)
  moreover have "\<forall>u \<in> pipeline_uids s. alive u (log_of s)" using assms(1) by (simp add: ancs_inv_def pipeline_ok_uids)
  ultimately show "pipeline_ok (cl_call (Announced n) s)" using assms(4) by (auto simp: pipeline_ok_uids)
  have o: "offers_ok s" using assms(1) by (simp add: ancs_inv_def)
  have "offer_ok (snd p) (Announced n # log_of s)" if "p \<in> set (queued s)" for p
    using o that assms(3) [OF that] by (auto simp: offers_ok_def offer_ok_def split: option.splits)
  moreover have "int (n_id n) \<noteq> u" if "(u, e) \<in> set (cl_actionable s)" for u e
    using assms(2) that by force
  ultimately show "offers_ok (cl_call (Announced n) s)" using o by (auto simp: offers_ok_def)
qed (use assms(1) in \<open>simp_all add: ancs_inv_def\<close>)

lemma forget_actionable_inv:
  assumes "ancs_inv H s" "t = forget_actionable env uid s"
  shows "ancs_inv H t" "uid \<notin> fst ` set (cl_actionable t)"
    "p \<in> set (queued t) \<Longrightarrow> rq_action (snd p) = Some a \<Longrightarrow> ar_uid a \<noteq> uid"
proof -
  obtain s1 m where d: "drop_queued_actions (\<lambda>a. ar_uid a = uid) ACTION_UNAVAILABLE s = (s1, m)" by fastforce
  let ?s2 = "s1\<lparr>cl_actionable := al_pop uid (cl_actionable s1)\<rparr>"
  have t: "t = ?s2 \<or> t = callback env ''on_notification_removed'' (On_notification_removed uid) ?s2"
    using assms(2) by (simp add: forget_actionable_def d Let_def split: if_splits)
  have "ancs_inv H ?s2"
    by (rule inv_actionable [OF drop_queued_inv [OF assms(1) d]]) (auto simp: al_pop_def intro: offers_le_sub)
  then show "ancs_inv H t" using t by (auto intro: inv_callback)
  have "cl_actionable t = al_pop uid (cl_actionable s1)" using t by (auto simp: callback_def)
  then show "uid \<notin> fst ` set (cl_actionable t)" by simp
  have "queued t = queued s1" using t by auto
  then show "p \<in> set (queued t) \<Longrightarrow> rq_action (snd p) = Some a \<Longrightarrow> ar_uid a \<noteq> uid"
    using drop_queued_fields(11) [OF d] by (auto simp: is_action_def)
qed

lemma finish_active_inv [simp]: "ancs_inv H s \<Longrightarrow> ancs_inv H (finish_active_request s)"
proof (cases "cl_active s")
  case None
  then show "ancs_inv H s \<Longrightarrow> ?thesis" by (simp add: finish_active_request_def)
next
  case (Some rq)
  assume s: "ancs_inv H s"
  let ?t = "s\<lparr>cl_active := None, cl_queue := finish (rq_key rq) (cl_queue s)\<rparr>"
  have t: "finish_active_request s = cancel_timer Request_timeout ?t" by (simp add: finish_active_request_def Some)
  have "cancel_timer Request_timeout ?t = (cancel_timer Request_timeout s)\<lparr>cl_active := None, cl_queue := finish (rq_key rq) (cl_queue s)\<rparr>"
    by (simp add: cancel_timer_def split: option.split)
  moreover have "timers_ok (cancel_timer Request_timeout s)" using s by (simp add: inv_timers_ok timers_cancel)
  ultimately have "timers_ok (finish_active_request s)" unfolding t by (simp add: timers_ok_def)
  then show ?thesis
    by (intro inv_quiet [OF s]) (auto simp: t shrunk_def waiting_def queued_for_def finish_def active_le_def)
qed

lemma finish_active_fields [simp]:
  "cl_active (finish_active_request s) = None" "cl_timers (finish_active_request s) = (cl_timers s)(Request_timeout := None)"
  "log_of (finish_active_request s) = log_of s" "cl_writes (finish_active_request s) = cl_writes s"
  "cl_write_token (finish_active_request s) = cl_write_token s" "cl_pending_lookups (finish_active_request s) = cl_pending_lookups s"
  "cl_actionable (finish_active_request s) = cl_actionable s"
  by (auto simp: finish_active_request_def split: option.split)

lemma reset_requests_inv [simp]:
  assumes "ancs_inv H s"
  shows "ancs_inv H (reset_requests s)"
proof -
  obtain t m where d: "drop_queued_actions (\<lambda>_. True) ACTION_DISCONNECTED (cancel_timer Busy_retry s) = (t, m)" by fastforce
  have t: "ancs_inv H t" by (rule drop_queued_inv [OF _ d]) (simp add: assms)
  have "\<not> action_of k (snd p)" if "p \<in> set (queued t)" for k p
    using that drop_queued_fields(11) [OF d] by (auto simp: is_action_True action_of_def)
  then have "queued_for k t = 0" for k by (simp add: queued_for_def)
  then have c: "ancs_inv H (t\<lparr>cl_queue := clear_backlog (cl_queue t)\<rparr>)"
    by (intro inv_quiet [OF t]) (auto simp: shrunk_def waiting_def clear_backlog_def queued_for_def
        intro: timers_same [OF inv_timers_ok [OF t]])
  then have "ancs_inv H ((finish_active_request (t\<lparr>cl_queue := clear_backlog (cl_queue t)\<rparr>))\<lparr>cl_pending_lookups := []\<rparr>)"
    by (intro inv_pending finish_active_inv) (auto simp: waiting_def)
  then show ?thesis by (simp add: reset_requests_def d Let_def)
qed

subsection \<open>Events\<close>

lemma set_od_put: "set (od_put l k v xs) \<subseteq> insert (k, v) (set xs)"
  unfolding od_put_def Let_def by (auto simp: al_pop_def dest: in_set_dropD)

lemma inv_event:
  assumes "ancs_inv H s" "alive (ae_id ev) (log_of s)" "0 < m"
    and as: "\<And>u e. (u, e) \<in> set as \<Longrightarrow>
      (u, e) \<in> set (cl_actionable s) \<or> u = int (ae_id ev) \<and> ao_token e = ae_token ev \<and> ae_token ev \<noteq> 0"
  shows "ancs_inv H (cl_call (On_event ev) (s\<lparr>cl_next_action := m, cl_actionable := as\<rparr>))"
proof -
  let ?t = "cl_call (On_event ev) (s\<lparr>cl_next_action := m, cl_actionable := as\<rparr>)"
  have l: "log_of ?t = On_event ev # log_of s" by simp
  have o: "offers_ok s" using assms(1) by (simp add: ancs_inv_def)
  have "serial ?t = serial s" "coherent H ?t = coherent H s" "timers_ok ?t = timers_ok s"
    by (simp_all add: serial_def coherent_def requests_def timers_ok_def)
  moreover have "accounted H ?t = accounted H s" by (simp add: accounted_def queued_for_def written_for_def)
  moreover have "content_ok s \<Longrightarrow> content_ok ?t" by (simp add: content_ok_def request_ok_mono)
  moreover have "pipeline_ok ?t = pipeline_ok s" by (simp add: pipeline_ok_def)
  moreover have "offer_ok (snd p) (log_of ?t)" if "p \<in> set (queued s)" for p
    using o that unfolding l by (auto simp: offers_ok_def offer_ok_def split: option.splits)
  moreover have "standing u (ao_token e) (log_of ?t)" if "(u, e) \<in> set as" for u e
    using as [OF that] o unfolding l by (auto simp: offers_ok_def)
  ultimately show ?thesis using assms(1-3) by (auto simp: ancs_inv_def offers_ok_def)
qed

definition offers_new :: "ancs_event \<Rightarrow> (int \<times> actionable) list \<Rightarrow> (int \<times> actionable) list \<Rightarrow> bool" where
  "offers_new ev old as \<longleftrightarrow> (\<forall>u e. (u, e) \<in> set as \<longrightarrow>
     (u, e) \<in> set old \<or> u = int (ae_id ev) \<and> ao_token e = ae_token ev \<and> ae_token ev \<noteq> 0)"

lemma offers_new_put:
  assumes "ao_token e = ae_token ev" "ae_token ev \<noteq> 0"
  shows "offers_new ev old (od_put l (int (ae_id ev)) e old)"
  using set_od_put [of l "int (ae_id ev)" e old] assms by (auto simp: offers_new_def)

lemma emit_form:
  "\<exists>ev m as. emit env a name s = cl_call (On_event ev) (s\<lparr>cl_next_action := m, cl_actionable := as\<rparr>) \<and>
     ae_id ev = na_id a \<and> (0 < cl_next_action s \<longrightarrow> 0 < m \<and> offers_new ev (cl_actionable s) as)"
proof -
  define ev where "ev = \<lparr>ae_id = na_id a, ae_app_id = na_app_id a, ae_app_name = name, ae_title = na_title a,
                ae_subtitle = na_subtitle a, ae_body = na_message a,
                ae_category = dict_get (na_id a) 0 (cl_categories s),
                ae_positive_label = na_positive_action_label a,
                ae_negative_label = na_negative_action_label a, ae_token = 0\<rparr>"
  have e: "emit env a name s = (case (if en_actions env (cl_hist s) then remember_actionable ev s
      else (s, ev\<lparr>ae_positive_label := [], ae_negative_label := []\<rparr>)) of (t, ev') \<Rightarrow> cl_call (On_event ev') t)"
    unfolding emit_def Let_def ev_def [symmetric] ..
  have same: "\<exists>m as. cl_call (On_event x) s = cl_call (On_event x) (s\<lparr>cl_next_action := m, cl_actionable := as\<rparr>) \<and>
      (0 < cl_next_action s \<longrightarrow> 0 < m \<and> offers_new x (cl_actionable s) as)" for x
    by (intro exI [of _ "cl_next_action s"] exI [of _ "cl_actionable s"]) (simp add: offers_new_def)
  show ?thesis
  proof (cases "en_actions env (cl_hist s) \<and> (ae_positive_label ev \<noteq> [] \<or> ae_negative_label ev \<noteq> [])")
    case True
    let ?ev = "ev\<lparr>ae_token := cl_next_action s\<rparr>"
    define x where "x = \<lparr>ao_token = cl_next_action s, ao_positive = (ae_positive_label ev \<noteq> []),
        ao_negative = (ae_negative_label ev \<noteq> []), ao_in_flight = False\<rparr>"
    have x: "ao_token x = cl_next_action s" "emit env a name s = cl_call (On_event ?ev)
        (s\<lparr>cl_next_action := cl_next_action s + 1, cl_actionable := od_put MAX_ANCS_ACTIONABLE (int (ae_id ev)) x (cl_actionable s)\<rparr>)"
      using True e by (auto simp: remember_actionable_def Let_def x_def)
    have "offers_new ?ev (cl_actionable s) (od_put MAX_ANCS_ACTIONABLE (int (ae_id ev)) x (cl_actionable s))"
      if "0 < cl_next_action s" using offers_new_put [where e = x and ev = ?ev and l = MAX_ANCS_ACTIONABLE and old = "cl_actionable s"] x(1) that by simp
    then show ?thesis using x(2) by (intro exI conjI) (auto simp: ev_def)
  next
    case False
    then obtain ev' where "emit env a name s = cl_call (On_event ev') s" "ae_id ev' = na_id a"
      using e by (cases "en_actions env (cl_hist s)") (auto simp: remember_actionable_def Let_def ev_def)
    moreover obtain m as where "cl_call (On_event ev') s = cl_call (On_event ev') (s\<lparr>cl_next_action := m, cl_actionable := as\<rparr>)"
      "0 < cl_next_action s \<longrightarrow> 0 < m \<and> offers_new ev' (cl_actionable s) as" using same [of ev'] by blast
    ultimately have "emit env a name s = cl_call (On_event ev') (s\<lparr>cl_next_action := m, cl_actionable := as\<rparr>) \<and>
        ae_id ev' = na_id a \<and> (0 < cl_next_action s \<longrightarrow> 0 < m \<and> offers_new ev' (cl_actionable s) as)" by (intro conjI) (rule trans)
    then show ?thesis by (intro exI)
  qed
qed

lemma emit_inv:
  assumes "ancs_inv H s" "alive (na_id a) (log_of s)"
  shows "ancs_inv H (emit env a name s)"
proof -
  have pos: "0 < cl_next_action s" using assms(1) by (simp add: ancs_inv_def offers_ok_def)
  obtain ev m as where e: "emit env a name s = cl_call (On_event ev) (s\<lparr>cl_next_action := m, cl_actionable := as\<rparr>)"
    "ae_id ev = na_id a" "0 < m" "offers_new ev (cl_actionable s) as" using emit_form pos by blast
  show ?thesis unfolding e(1) by (rule inv_event [OF assms(1)]) (use assms(2) e in \<open>simp_all add: offers_new_def\<close>)
qed

lemma emit_fields [simp]:
  "alive u (log_of (emit env a name s)) = alive u (log_of s)" "cl_active (emit env a name s) = cl_active s"
  "cl_timers (emit env a name s) = cl_timers s" "cl_writes (emit env a name s) = cl_writes s"
  "cl_write_token (emit env a name s) = cl_write_token s" "cl_pending_lookups (emit env a name s) = cl_pending_lookups s"
proof -
  obtain ev m as where e: "emit env a name s = cl_call (On_event ev) (s\<lparr>cl_next_action := m, cl_actionable := as\<rparr>)"
    using emit_form by blast
  show "alive u (log_of (emit env a name s)) = alive u (log_of s)" "cl_active (emit env a name s) = cl_active s"
    "cl_timers (emit env a name s) = cl_timers s" "cl_writes (emit env a name s) = cl_writes s"
    "cl_write_token (emit env a name s) = cl_write_token s" "cl_pending_lookups (emit env a name s) = cl_pending_lookups s"
    unfolding e by simp_all
qed

lemma fold_emit_inv:
  "ancs_inv H s \<Longrightarrow> \<forall>a \<in> set as. alive (na_id a) (log_of s) \<Longrightarrow> ancs_inv H (fold (\<lambda>a. emit env a name) as s)"
  by (induction as arbitrary: s) (simp_all add: emit_inv)

lemma fold_emit_fields [simp]:
  "alive u (log_of (fold (\<lambda>a. emit env a name) as s)) = alive u (log_of s)"
  "cl_active (fold (\<lambda>a. emit env a name) as s) = cl_active s" "cl_timers (fold (\<lambda>a. emit env a name) as s) = cl_timers s"
  "cl_writes (fold (\<lambda>a. emit env a name) as s) = cl_writes s"
  "cl_write_token (fold (\<lambda>a. emit env a name) as s) = cl_write_token s"
  by (induction as arbitrary: s) simp_all

lemma dict_get_waiting: "a \<in> set (dict_get app [] (cl_pending_lookups s)) \<Longrightarrow> a \<in> waiting s"
proof -
  assume a: "a \<in> set (dict_get app [] (cl_pending_lookups s))"
  then obtain as where "map_of (cl_pending_lookups s) app = Some as" "a \<in> set as"
    by (cases "map_of (cl_pending_lookups s) app") (auto simp: dict_get_def)
  then show ?thesis by (auto simp: waiting_def dest!: map_of_SomeD intro: rev_bexI)
qed

lemma waiting_alive: "ancs_inv H s \<Longrightarrow> a \<in> waiting s \<Longrightarrow> alive (na_id a) (log_of s)"
  by (auto simp: ancs_inv_def pipeline_ok_def waiting_def)

lemma flush_inv: "ancs_inv H s \<Longrightarrow> ancs_inv H (flush_lookups env app name s)"
proof -
  assume s: "ancs_inv H s"
  let ?t = "s\<lparr>cl_lookup_requested := cl_lookup_requested s - {app}, cl_pending_lookups := al_pop app (cl_pending_lookups s)\<rparr>"
  have "ancs_inv H (s\<lparr>cl_lookup_requested := cl_lookup_requested s - {app}\<rparr>)" using s by simp
  then have "ancs_inv H ?t" by (rule inv_pending) (auto simp: waiting_def al_pop_def)
  then show ?thesis unfolding flush_lookups_def Let_def
    using waiting_alive [OF s dict_get_waiting] by (intro fold_emit_inv) auto
qed

lemma flush_fields [simp]:
  "cl_active (flush_lookups env app name s) = cl_active s" "cl_timers (flush_lookups env app name s) = cl_timers s"
  "cl_writes (flush_lookups env app name s) = cl_writes s" "cl_write_token (flush_lookups env app name s) = cl_write_token s"
  by (simp_all add: flush_lookups_def Let_def)

end
