(* ===== verification/Ancs_Requests.thy ===== *)
theory Ancs_Requests
  imports Ancs_Invariant
begin

text \<open>
  The ANCS client refines the abstract client of the request backlog: whatever it does to its queue and its
  active request is a run of \<open>backlog_step\<close>, in which the active request is the one in flight. A request
  that was discarded while active no longer counts, since its key was finished and replaced.
\<close>

section \<open>The client as a user of the backlog\<close>

definition flying :: "AncsClient \<Rightarrow> req_key list" where
  "flying s = (case cl_active s of None \<Rightarrow> [] | Some rq \<Rightarrow> if rq_discarded rq then [] else [rq_key rq])"

definition backlog_view :: "AncsClient \<Rightarrow> (req_key, pending_request) RequestBacklog \<times> req_key list" where
  "backlog_view s = (cl_queue s, flying s)"

fun retired :: "req_key \<Rightarrow> bool" where
  "retired (Retired_key _) = True"
| "retired _ = False"

definition keys_ok :: "AncsClient \<Rightarrow> bool" where
  "keys_ok s \<longleftrightarrow> (\<forall>k \<in> rb_reserved (cl_queue s). \<not> retired k) \<and>
     (\<forall>p \<in> set (queued s). fst p = rq_key (snd p) \<and> \<not> retired (fst p) \<and> \<not> rq_discarded (snd p)) \<and>
     (\<forall>rq. cl_active s = Some rq \<longrightarrow> rq_discarded rq = retired (rq_key rq))"

definition tracks :: "AncsClient \<Rightarrow> AncsClient \<Rightarrow> bool" where
  "tracks s t \<longleftrightarrow> (keys_ok s \<longrightarrow> keys_ok t \<and> backlog_step\<^sup>*\<^sup>* (backlog_view s) (backlog_view t))"

lemma tracks_trans: "tracks s t \<Longrightarrow> tracks t u \<Longrightarrow> tracks s u"
  by (auto simp: tracks_def intro: rtranclp_trans)

lemma tracks_same: "cl_queue t = cl_queue s \<Longrightarrow> cl_active t = cl_active s \<Longrightarrow> tracks s t"
  by (auto simp: tracks_def keys_ok_def backlog_view_def flying_def)

lemma tracks_refl [simp]: "tracks s s"
  by (simp add: tracks_same)

lemma tracks_leaf [simp]:
  "tracks s (cl_call e s)" "tracks s (callback env n e s)" "tracks s (start_timer env k d s)"
  "tracks s (cancel_timer k s)" "tracks s (report_action a r s)"
  by (simp_all add: tracks_same callback_def)

text \<open>An operation after a change that leaves queue and active request alone.\<close>

lemma tracks_after: "tracks u t \<Longrightarrow> cl_queue u = cl_queue s \<Longrightarrow> cl_active u = cl_active s \<Longrightarrow> tracks s t"
  by (rule tracks_trans [of s u]) (simp_all add: tracks_same)

lemma tracks_then: "tracks s u \<Longrightarrow> cl_queue t = cl_queue u \<Longrightarrow> cl_active t = cl_active u \<Longrightarrow> tracks s t"
  by (rule tracks_trans [of s u]) (simp_all add: tracks_same)

subsection \<open>Dropping, discarding, finishing\<close>

lemma remove_if_tracks:
  assumes "cl_queue t = fst (remove_if p (cl_queue s))" "cl_active t = cl_active s"
  shows "tracks s t"
proof -
  have "backlog_step (backlog_view s) (backlog_view t)"
    using backlog_step.discard [of "cl_queue s" "flying s" p] assms by (simp add: backlog_view_def flying_def)
  then show ?thesis using assms by (auto simp: tracks_def keys_ok_def remove_if_def)
qed

lemma drop_queued_tracks: "tracks s (fst (drop_queued_actions p r s))"
  by (rule remove_if_tracks [of _ "is_action p"]) (simp_all add: drop_queued_actions_def split: prod.split)

lemma reset_actions_tracks [simp]: "tracks s (reset_actions env s)"
proof -
  let ?s = "s\<lparr>cl_actionable := []\<rparr>"
  obtain t m where t: "drop_queued_actions (\<lambda>_. True) ACTION_UNAVAILABLE ?s = (t, m)" by fastforce
  then have "tracks ?s t" using drop_queued_tracks [of ?s "\<lambda>_. True" ACTION_UNAVAILABLE] by simp
  then have "tracks ?s (reset_actions env s)"
    by (rule tracks_then) (simp_all add: reset_actions_def t Let_def callback_def)
  then show ?thesis by (rule tracks_after) simp_all
qed

lemma forget_actionable_tracks [simp]: "tracks s (forget_actionable env uid s)"
proof -
  obtain t m where t: "drop_queued_actions (\<lambda>a. ar_uid a = uid) ACTION_UNAVAILABLE s = (t, m)" by fastforce
  then have "tracks s t" using drop_queued_tracks [of s "\<lambda>a. ar_uid a = uid" ACTION_UNAVAILABLE] by simp
  then show ?thesis by (rule tracks_then) (simp_all add: forget_actionable_def t Let_def callback_def)
qed

text \<open>Finishing the key of the active request, which is no longer active or discarded afterwards.\<close>

lemma finish_retired: "keys_ok s \<Longrightarrow> retired k \<Longrightarrow> finish k (cl_queue s) = cl_queue s"
  by (cases "cl_queue s") (auto simp: finish_def keys_ok_def)

lemma finish_tracks:
  assumes "cl_active s = Some rq" "cl_queue t = finish (rq_key rq) (cl_queue s)"
    and "cl_active t = None \<or> (\<exists>rq'. cl_active t = Some rq' \<and> rq_discarded rq' \<and> retired (rq_key rq'))"
  shows "tracks s t"
proof -
  have k: "keys_ok t" if "keys_ok s" using that assms by (auto simp: keys_ok_def finish_def)
  have f: "flying t = []" using assms(3) by (auto simp: flying_def)
  have "backlog_step\<^sup>*\<^sup>* (backlog_view s) (backlog_view t)" if s: "keys_ok s"
  proof (cases "rq_discarded rq")
    case True
    then have "retired (rq_key rq)" using s assms(1) by (simp add: keys_ok_def)
    then have "cl_queue t = cl_queue s" using finish_retired [OF s] assms(2) by simp
    then show ?thesis using True assms(1) f by (simp add: backlog_view_def flying_def)
  next
    case False
    then have "backlog_view s = (cl_queue s, [] @ rq_key rq # [])" using assms(1) by (simp add: backlog_view_def flying_def)
    then show ?thesis using backlog_step.finished [of "cl_queue s" "[]" "rq_key rq" "[]"] f assms(2)
      by (simp add: backlog_view_def r_into_rtranclp)
  qed
  then show ?thesis using k by (simp add: tracks_def)
qed

lemma discard_active_tracks: "tracks s (discard_active uid s)"
proof (cases "cl_active s")
  case (Some rq)
  then show ?thesis
    by (cases "about_uid uid rq \<and> \<not> rq_discarded rq") (auto simp: discard_active_def intro: finish_tracks)
qed (simp add: discard_active_def)

lemma discard_tracks [simp]: "tracks s (discard_notification_requests uid s)"
proof -
  let ?u = "s\<lparr>cl_queue := fst (remove_if (about_uid uid) (cl_queue s))\<rparr>"
  have "tracks s ?u" by (rule remove_if_tracks [of _ "about_uid uid"]) simp_all
  then have "tracks s (discard_active uid ?u)" using discard_active_tracks by (rule tracks_trans)
  then show ?thesis by (rule tracks_then) (simp_all add: discard_notification_requests_def Let_def)
qed

lemma end_session_tracks [simp]: "tracks s (end_session env s)"
proof -
  have "tracks (s\<lparr>cl_live_seen := False\<rparr>) (end_session env s)" unfolding end_session_def
    by (rule tracks_then [OF discard_tracks [where uid = None]]) (simp_all add: callback_def)
  then show ?thesis by (rule tracks_after) simp_all
qed

lemma finish_active_tracks [simp]: "tracks s (finish_active_request s)"
proof (cases "cl_active s")
  case (Some rq)
  then show ?thesis by (intro finish_tracks [of s rq]) (simp_all add: finish_active_request_def)
qed (simp add: finish_active_request_def tracks_same)

lemma reset_requests_tracks [simp]: "tracks s (reset_requests s)"
proof -
  let ?s = "cancel_timer Busy_retry s"
  obtain t m where d: "drop_queued_actions (\<lambda>_. True) ACTION_DISCONNECTED ?s = (t, m)" by fastforce
  then have "tracks ?s t" using drop_queued_tracks [of ?s "\<lambda>_. True" ACTION_DISCONNECTED] by simp
  then have st: "tracks s t" by (rule tracks_after) simp_all
  have r: "cl_queue (reset_requests s) = clear_backlog (cl_queue t)" "cl_active (reset_requests s) = None"
    by (cases "cl_active t"; simp add: reset_requests_def d finish_active_request_def clear_backlog_def finish_def)+
  have "backlog_step (backlog_view t) (backlog_view (reset_requests s))"
    using backlog_step.cleared [of "cl_queue t" "flying t"] r by (simp add: backlog_view_def flying_def)
  then have "tracks t (reset_requests s)" using r by (auto simp: tracks_def keys_ok_def clear_backlog_def)
  with st show ?thesis by (rule tracks_trans)
qed

subsection \<open>Operations that leave the requests alone\<close>

lemma emit_queue [simp]: "cl_queue (emit env a name s) = cl_queue s"
proof -
  obtain ev m as where e: "emit env a name s = cl_call (On_event ev) (s\<lparr>cl_next_action := m, cl_actionable := as\<rparr>)"
    using emit_form by blast
  show ?thesis unfolding e by simp
qed

lemma flush_queue [simp]: "cl_queue (flush_lookups env app name s) = cl_queue s"
proof -
  have "cl_queue (fold (\<lambda>a. emit env a name) as s) = cl_queue s" for as s by (induction as arbitrary: s) simp_all
  then show ?thesis by (simp add: flush_lookups_def Let_def)
qed

lemma schedule_fields [simp]:
  "cl_queue (schedule_authorization_retry env s) = cl_queue s" "cl_active (schedule_authorization_retry env s) = cl_active s"
  "cl_queue (schedule_subscribe_retry env s) = cl_queue s" "cl_active (schedule_subscribe_retry env s) = cl_active s"
  "cl_queue (schedule_transport_reset env s) = cl_queue s" "cl_active (schedule_transport_reset env s) = cl_active s"
  "cl_queue (schedule_legacy_health env s) = cl_queue s" "cl_active (schedule_legacy_health env s) = cl_active s"
  "cl_queue (schedule_manager_retry env s) = cl_queue s" "cl_active (schedule_manager_retry env s) = cl_active s"
  "cl_queue (schedule_bearer_settle env s) = cl_queue s" "cl_active (schedule_bearer_settle env s) = cl_active s"
  by (simp_all add: schedule_authorization_retry_def schedule_subscribe_retry_def schedule_transport_reset_def
      schedule_legacy_health_def schedule_manager_retry_def schedule_bearer_settle_def)

lemma callback_fields [simp]:
  "cl_queue (callback env n e s) = cl_queue s" "cl_active (callback env n e s) = cl_active s"
  by (simp_all add: callback_def)

lemma permission_fields [simp]:
  "cl_queue (observe_permission_error env e s) = cl_queue s" "cl_active (observe_permission_error env e s) = cl_active s"
  by (simp_all add: observe_permission_error_def Let_def)

lemma authorized_fields [simp]:
  "cl_queue (mark_authorized env s) = cl_queue s" "cl_active (mark_authorized env s) = cl_active s"
  by (simp_all add: mark_authorized_def Let_def)

lemma action_fields [simp]:
  "cl_queue (action_written a s) = cl_queue s" "cl_active (action_written a s) = cl_active s"
  "cl_queue (action_failed env a e s) = cl_queue s" "cl_active (action_failed env a e s) = cl_active s"
  by (simp_all add: action_written_def action_failed_def Let_def)

lemma stop_paths_fields [simp]:
  "cl_queue (stop_paths env paths s) = cl_queue s" "cl_active (stop_paths env paths s) = cl_active s"
  by (induction paths arbitrary: s) (simp_all add: Let_def)

lemma stop_notifications_fields [simp]:
  "cl_queue (stop_bluez_notifications env s) = cl_queue s" "cl_active (stop_bluez_notifications env s) = cl_active s"
  by (simp_all add: stop_bluez_notifications_def Let_def)

lemma abandon_fields [simp]:
  "cl_queue (abandon_request env rq s) = finish (rq_key rq) (cl_queue s)" "cl_active (abandon_request env rq s) = cl_active s"
  by (simp_all add: abandon_request_def Let_def split: option.split)

lemma call_activity_fields [simp]:
  "cl_queue (report_call_activity env n s) = cl_queue s" "cl_active (report_call_activity env n s) = cl_active s"
  by (simp_all add: report_call_activity_def)

subsection \<open>Losing the transport\<close>

lemma clear_tracks [simp]: "tracks s (clear_characteristic_subscription env stop s)"
  unfolding clear_characteristic_subscription_def Let_def
  by (rule tracks_trans [OF tracks_trans [OF tracks_trans [OF tracks_same reset_requests_tracks] reset_actions_tracks]
        end_session_tracks]) simp_all

text \<open>A change of other fields, the loss of the subscription, and another such change.\<close>

lemma tracks_clear:
  assumes "cl_queue u = cl_queue s" "cl_active u = cl_active s"
    and "cl_queue t = cl_queue (clear_characteristic_subscription env stop u)"
    and "cl_active t = cl_active (clear_characteristic_subscription env stop u)"
  shows "tracks s t"
proof -
  have "tracks s (clear_characteristic_subscription env stop u)" using clear_tracks assms(1,2) by (rule tracks_after)
  then show ?thesis using assms(3,4) by (rule tracks_then)
qed

lemma transport_failed_tracks [simp]: "tracks s (mark_transport_failed env s)"
  unfolding mark_transport_failed_def Let_def
  by (rule tracks_clear [where stop = False and env = env and
        u = "cancel_timer Subscribe_retry (cancel_timer Bearer_settle (s\<lparr>cl_transport_blocked := True, cl_bearer_ready := False\<rparr>))"])
    simp_all

lemma escalate_tracks [simp]: "tracks s (escalate_unresponsive_transport env s)"
  unfolding escalate_unresponsive_transport_def by (rule tracks_after [OF transport_failed_tracks]) simp_all

subsection \<open>The Control Point\<close>

lemma begin_tracks:
  assumes "popleft (cl_queue s) = Inr (q, rq)" "cl_active s = None"
  shows "tracks s (fst (begin_write rq q s))"
proof -
  obtain k rest where q: "queued s = (k, rq) # rest" "q = (cl_queue s)\<lparr>rb_queue := rest\<rparr>"
    using assms(1) by (auto simp: popleft_def split: list.splits)
  let ?t = "fst (begin_write rq q s)"
  have t: "cl_queue ?t = q" "cl_active ?t = Some rq" by (simp_all add: begin_write_def)
  have "backlog_step (backlog_view s) (backlog_view ?t)" if "keys_ok s"
  proof -
    have "k = rq_key rq" "\<not> rq_discarded rq" using that q by (auto simp: keys_ok_def)
    then show ?thesis using backlog_step.pop [OF q(1) assms(1), of "[]"] t assms(2)
      by (simp add: backlog_view_def flying_def)
  qed
  moreover have "keys_ok ?t" if "keys_ok s" using that t q by (auto simp: keys_ok_def)
  ultimately show ?thesis by (simp add: tracks_def r_into_rtranclp)
qed

lemma release_fields [simp]:
  "cl_queue (fst (release_write c s)) = cl_queue s" "cl_active (fst (release_write c s)) = cl_active s"
  by (simp_all add: release_write_def)

lemma retry_fields:
  "cl_queue (retry_busy env rq s) =
     (if rq_key rq \<in> rb_reserved (cl_queue s)
      then (cl_queue s)\<lparr>rb_queue := (rq_key rq, rq\<lparr>rq_busy_retries := rq_busy_retries rq + 1\<rparr>) # queued s\<rparr> else cl_queue s)"
  "cl_active (retry_busy env rq s) = None"
  by (simp_all add: retry_busy_def push_front_def Let_def)

lemma retry_tracks:
  assumes "cl_active s = Some rq" "\<not> rq_discarded rq"
  shows "tracks s (retry_busy env rq s)"
proof -
  let ?t = "retry_busy env rq s" and ?rq = "rq\<lparr>rq_busy_retries := rq_busy_retries rq + 1\<rparr>"
  have v: "backlog_view s = (cl_queue s, [] @ rq_key rq # [])" using assms by (simp add: backlog_view_def flying_def)
  have w: "backlog_view ?t = (cl_queue ?t, [])" by (simp add: backlog_view_def flying_def retry_fields)
  have "backlog_step (backlog_view s) (backlog_view ?t)"
  proof (cases "rq_key rq \<in> rb_reserved (cl_queue s)")
    case True
    then have "push_front (rq_key rq) ?rq (cl_queue s) = Inr (cl_queue ?t)" by (simp add: push_front_def retry_fields)
    then show ?thesis using backlog_step.retry [of "rq_key rq" ?rq "cl_queue s" "cl_queue ?t" "[]" "[]"] v w by simp
  next
    case False
    then have "finish (rq_key rq) (cl_queue s) = cl_queue ?t" by (simp add: finish_def retry_fields)
    then show ?thesis using backlog_step.finished [of "cl_queue s" "[]" "rq_key rq" "[]"] v w by simp
  qed
  moreover have "keys_ok s \<Longrightarrow> keys_ok ?t" using assms by (auto simp: keys_ok_def retry_fields)
  ultimately show ?thesis by (simp add: tracks_def r_into_rtranclp)
qed

lemma abandon_tracks: "cl_active s = Some rq \<Longrightarrow> tracks s ((abandon_request env rq s)\<lparr>cl_active := None\<rparr>)"
  by (rule finish_tracks) simp_all

lemma write_failed_tracks: "tracks s (fst (write_failed env c e s))"
proof -
  obtain u b where r: "release_write c s = (u, b)" by fastforce
  have u: "cl_queue u = cl_queue s" "cl_active u = cl_active s" using release_fields [of c s] by (simp_all add: r)
  have "tracks u (fst (write_failed env c e s))"
  proof (cases "is_current c u")
    case False
    then show ?thesis by (cases "rq_action (wc_request c)") (simp_all add: write_failed_def r)
  next
    case cur: True
    then obtain rq where a: "cl_active u = Some rq" by (auto simp: is_current_def split: option.splits)
    have fin: "tracks u (mark_transport_failed env (finish_active_request u))"
      by (rule tracks_trans [OF finish_active_tracks]) simp
    have act: "tracks u (observe_permission_error env e (action_failed env x e (finish_active_request u)))" for x
      by (rule tracks_then [OF finish_active_tracks]) simp_all
    have lost: "tracks u (mark_transport_failed env (observe_permission_error env e (action_failed env x e (finish_active_request u))))" for x
      using act [of x] by (rule tracks_trans) simp
    have perm: "tracks u (observe_permission_error env e u)" by (rule tracks_same) simp_all
    then have permlost: "tracks u (mark_transport_failed env (observe_permission_error env e u))"
      by (rule tracks_trans) simp
    have "tracks u ((abandon_request env rq (observe_permission_error env e u))\<lparr>cl_active := None\<rparr>)"
      by (rule tracks_trans [OF perm abandon_tracks]) (simp add: a)
    then show ?thesis
      using fin act lost permlost retry_tracks [OF a] cur
      by (cases "rq_action rq") (simp_all add: write_failed_def r a Let_def)
  qed
  then show ?thesis by (rule tracks_after) (simp_all add: u)
qed

lemma pump_tracks [simp]: "tracks s (pump_requests env s)"
proof (induction env s rule: pump_requests.induct)
  case (1 env s)
  show ?case
  proof (cases "may_write s")
    case True
    then have a: "cl_active s = None" by (simp add: may_write_def)
    show ?thesis
    proof (cases "popleft (cl_queue s)")
      case (Inr p)
      obtain q rq where p: "p = (q, rq)" by fastforce
      obtain s1 c where b: "begin_write rq q s = (s1, c)" by fastforce
      have s1: "tracks s s1" using begin_tracks [of s q rq] Inr p a b by simp
      show ?thesis
      proof (cases "en_write env (cl_hist s1)")
        case None
        then show ?thesis using True Inr p b s1 tracks_then [OF s1, of "s1\<lparr>cl_writes := c # cl_writes s1\<rparr>"]
          by (subst pump_requests.simps) simp
      next
        case (Some e)
        obtain s2 again where f: "write_failed env c e s1 = (s2, again)" by fastforce
        have "tracks s s2" using tracks_trans [OF s1 write_failed_tracks [of s1 env c e]] f by simp
        moreover have "again \<Longrightarrow> tracks s2 (pump_requests env s2)"
          using 1 True Inr p b Some f by auto
        ultimately have "tracks s (if again then pump_requests env s2 else s2)" by (auto intro: tracks_trans)
        then show ?thesis using True Inr p b Some f by (subst pump_requests.simps) simp
      qed
    qed (simp add: pump_requests.simps)
  qed (simp add: pump_requests.simps)
qed

lemma written_tracks: "tracks s (fst (written env c s))"
proof -
  obtain u b where r: "release_write c s = (u, b)" by fastforce
  have u: "cl_queue u = cl_queue s" "cl_active u = cl_active s" using release_fields [of c s] by (simp_all add: r)
  have "tracks u (action_written x (finish_active_request u))" for x
    by (rule tracks_then [OF finish_active_tracks]) simp_all
  then have "tracks u (fst (written env c s))" by (simp add: written_def r split: option.split)
  then show ?thesis by (rule tracks_after) (simp_all add: u)
qed

lemma then_pump_tracks: "tracks s (fst r) \<Longrightarrow> tracks s (then_pump env r)"
  by (cases r) (auto simp: then_pump_def intro: tracks_trans)

lemma write_reply_tracks: "tracks s (write_reply env c e s)"
proof -
  let ?s = "s\<lparr>cl_writes := remove1 c (cl_writes s)\<rparr>"
  have "tracks ?s (write_reply env c e s)" unfolding write_reply_def Let_def
    by (rule then_pump_tracks) (cases e; simp add: written_tracks write_failed_tracks)
  then show ?thesis by (rule tracks_after) simp_all
qed

subsection \<open>New requests\<close>

definition proper :: "pending_request \<Rightarrow> bool" where
  "proper rq \<longleftrightarrow> \<not> retired (rq_key rq) \<and> \<not> rq_discarded rq"

lemma enqueue_tracks:
  assumes "enqueue (rq_key rq) rq front (cl_queue s) = (q, ok)" "proper rq" "cl_queue t = q" "cl_active t = cl_active s"
  shows "tracks s t"
proof -
  have "backlog_step (backlog_view s) (backlog_view t)"
    using backlog_step.submit [of "cl_queue s" "flying s" "rq_key rq" rq front] assms
    by (simp add: backlog_view_def flying_def)
  moreover have "keys_ok s \<Longrightarrow> keys_ok t"
    using assms(1,2) unfolding keys_ok_def assms(3,4) by (auto simp: enqueue_def proper_def split: if_splits)
  ultimately show ?thesis by (simp add: tracks_def r_into_rtranclp)
qed

lemma enqueue_pump_tracks:
  assumes "enqueue (rq_key rq) rq front (cl_queue s) = (q, ok)" "proper rq" "cl_queue t = q" "cl_active t = cl_active s"
  shows "tracks s (pump_requests env t)"
  using enqueue_tracks [OF assms] by (rule tracks_trans) simp

lemma enqueue_request_tracks: "proper rq \<Longrightarrow> tracks s (enqueue_request env rq s)"
proof -
  assume rq: "proper rq"
  obtain q ok where e: "enqueue (rq_key rq) rq False (cl_queue s) = (q, ok)" by fastforce
  show ?thesis using enqueue_pump_tracks [OF e rq, of "s\<lparr>cl_queue := q\<rparr>" env] by (simp add: enqueue_request_def e)
qed

lemma enqueue_fresh_tracks: "proper rq \<Longrightarrow> tracks s (enqueue_request env rq (fresh s))"
  by (rule tracks_after [OF enqueue_request_tracks]) (simp_all add: fresh_def)

lemma request_makers_proper [simp]:
  "proper (authorization_request s)"
  "proper (new_request (Notification_key u) pkt as s\<lparr>rq_notification := n, rq_app_probe := b\<rparr>)"
  "proper (new_request (Notification_key u) pkt as s\<lparr>rq_notification := n, rq_expected_app := x, rq_label_ids := ls\<rparr>)"
  "proper (new_request (App_key app) pkt as s)" "proper (new_request (Action_key i) pkt as s\<lparr>rq_action := a\<rparr>)"
  by (simp_all add: proper_def authorization_request_def new_request_def)

lemma probe_tracks [simp]: "tracks s (queue_authorization_probe env force s)"
  by (simp add: queue_authorization_probe_def enqueue_fresh_tracks)

lemma probe_health_tracks [simp]: "tracks s (probe_health env s)"
  by (simp add: probe_health_def)

lemma request_attrs_tracks [simp]: "tracks s (request_attrs env n s)"
  by (simp add: request_attrs_def enqueue_fresh_tracks)

lemma request_full_tracks [simp]: "tracks s (request_full_attrs env n app s)"
  by (simp add: request_full_attrs_def enqueue_fresh_tracks Let_def)

lemma request_name_tracks: "tracks s (fst (request_app_name env app s))"
proof -
  let ?rq = "new_request (App_key app) (packet_of (build_get_app_attributes app))
    (Some (assembler GetAppAttributes [0] None (Some app))) s"
  obtain q ok where e: "enqueue (rq_key ?rq) ?rq False (cl_queue s) = (q, ok)" by fastforce
  let ?t = "(fresh s)\<lparr>cl_queue := q, cl_lookup_requested := insert app (cl_lookup_requested s)\<rparr>"
  have "tracks s (pump_requests env ?t)" by (rule enqueue_pump_tracks [OF e]) (simp_all add: fresh_def)
  moreover have "tracks s ((fresh s)\<lparr>cl_lookup_requested := ps\<rparr>)" for ps
    by (rule tracks_same) (simp_all add: fresh_def)
  ultimately show ?thesis by (simp add: request_app_name_def e Let_def)
qed

lemma handle_notification_tracks [simp]: "tracks s (handle_notification_attrs env attrs s)"
proof -
  let ?app = "na_app_id attrs"
  let ?w = "dict_get ?app [] (cl_pending_lookups s)"
  let ?u = "s\<lparr>cl_pending_lookups := al_set ?app (?w @ [attrs]) (cl_pending_lookups s)\<rparr>"
  obtain v ok where r: "request_app_name env ?app ?u = (v, ok)" by fastforce
  then have "tracks ?u v" using request_name_tracks [of ?u env ?app] by simp
  then have v: "tracks s v" by (rule tracks_after) simp_all
  have e: "tracks s (emit env attrs name t)" if "cl_queue t = cl_queue s" "cl_active t = cl_active s" for name t
    by (rule tracks_same) (use that in simp_all)
  have e': "tracks s (emit env attrs name (v\<lparr>cl_pending_lookups := ls\<rparr>))" for name ls
    by (rule tracks_then [OF v]) simp_all
  consider "?app = MESSAGES_BUNDLE" | x where "?app \<noteq> MESSAGES_BUNDLE" "map_of (cl_app_names s) ?app = Some x"
    | "?app \<noteq> MESSAGES_BUNDLE" "map_of (cl_app_names s) ?app = None" "MAX_ANCS_PENDING_PER_APP \<le> length ?w"
    | "?app \<noteq> MESSAGES_BUNDLE" "map_of (cl_app_names s) ?app = None" "\<not> MAX_ANCS_PENDING_PER_APP \<le> length ?w"
    by (cases "map_of (cl_app_names s) ?app") blast+
  then show ?thesis
    by cases (use r v e e' in \<open>cases ok; simp add: handle_notification_attrs_def Let_def\<close>)+
qed

subsection \<open>Data Source and Notification Source\<close>

lemma app_probed_tracks [simp]: "tracks s (app_probed env n uid app s)"
proof -
  have "tracks s (request_full_attrs env n app t)" if "cl_queue t = cl_queue s" "cl_active t = cl_active s" for t
    using request_full_tracks that by (rule tracks_after)
  then show ?thesis by (simp add: app_probed_def Let_def tracks_same)
qed

lemma abandoned_tracks: "rq_key rq \<notin> rb_reserved (cl_queue s) \<Longrightarrow> tracks s (abandon_request env rq s)"
  by (rule tracks_same) (simp_all add: finish_def)

lemma handle_app_tracks [simp]: "tracks s (handle_app_attrs env app s)"
  by (rule tracks_same) (simp_all add: handle_app_attrs_def Let_def)

lemma ds_complete_tracks: "rq_key rq \<notin> rb_reserved (cl_queue s) \<Longrightarrow> tracks s (ds_complete env rq data s)"
proof -
  assume "rq_key rq \<notin> rb_reserved (cl_queue s)"
  then have ab: "tracks s (abandon_request env rq s)" by (rule abandoned_tracks)
  have "tracks s (handle_app_attrs env app (mark_authorized env s))" for app
    by (rule tracks_after [OF handle_app_tracks]) simp_all
  then show ?thesis using ab by (simp add: ds_complete_def split: sum.split option.split prod.split)
qed

lemma finish_active_key: "cl_active s = Some rq \<Longrightarrow> rq_key rq \<notin> rb_reserved (cl_queue (finish_active_request s))"
  by (simp add: finish_active_request_def finish_def)

lemma on_ds_tracks: "tracks s (on_ds_changed env value s)"
proof (cases "cl_active s")
  case (Some rq)
  show ?thesis
  proof (cases "rq_assembler rq")
    case (Some a)
    obtain a' r where f: "feed a value = (a', r)" by fastforce
    let ?rq = "rq\<lparr>rq_assembler := Some a'\<rparr>"
    let ?s = "s\<lparr>cl_active := Some ?rq\<rparr>"
    have u: "tracks s ?s" using \<open>cl_active s = Some rq\<close> by (auto simp: tracks_def keys_ok_def backlog_view_def flying_def)
    then have fin: "tracks s (finish_active_request ?s)" by (rule tracks_trans) simp
    have k: "rq_key ?rq \<notin> rb_reserved (cl_queue (finish_active_request ?s))" by (rule finish_active_key) simp
    have "tracks s (pump_requests env (abandon_request env ?rq (finish_active_request ?s)))"
      by (rule tracks_trans [OF tracks_trans [OF fin abandoned_tracks [OF k]] pump_tracks])
    moreover have "tracks s (pump_requests env (ds_complete env ?rq data (finish_active_request ?s)))" for data
      by (rule tracks_trans [OF tracks_trans [OF fin ds_complete_tracks [OF k]] pump_tracks])
    moreover have "tracks s (pump_requests env (finish_active_request ?s))" by (rule tracks_trans [OF fin]) simp
    ultimately show ?thesis using u \<open>cl_active s = Some rq\<close> Some f
      by (simp add: on_ds_changed_def Let_def split: sum.split option.split)
  qed (simp add: on_ds_changed_def Some)
qed (simp add: on_ds_changed_def)

lemma on_ns_tracks: "tracks s (on_ns_changed env value s)"
proof (cases "Notification_parse value")
  case (Inr n)
  let ?t = "cl_call (Announced n) (forget_actionable env (int (n_id n)) (report_call_activity env n s))"
  have "tracks (report_call_activity env n s) ?t" by (rule tracks_then [OF forget_actionable_tracks]) simp_all
  then have t: "tracks s ?t" by (rule tracks_after) simp_all
  let ?u = "if cl_actionable ?t \<noteq> [] then reset_actions env ?t else ?t"
  have u: "tracks s ?u" by (rule tracks_trans [OF t]) simp
  have "tracks s (callback env m x (discard_notification_requests y ?t))" for m x y
    by (rule tracks_trans [OF tracks_trans [OF t discard_tracks [where uid = y]]]) simp
  moreover have "tracks s (if cl_live_seen ?u then end_session env ?u else ?u)" by (rule tracks_trans [OF u]) simp
  moreover have "tracks s (request_attrs env n (?t\<lparr>cl_live_seen := True, cl_categories := cs\<rparr>))" for cs
    by (rule tracks_trans [OF tracks_then [OF t] request_attrs_tracks]) simp_all
  ultimately show ?thesis unfolding on_ns_changed_def Inr sum.case Let_def by simp
qed (simp add: on_ns_changed_def)

subsection \<open>Timeouts, refresh, actions, discovery, lifecycle\<close>

lemma refresh_failed_tracks [simp]: "tracks s (refresh_failed env token g e s)"
proof -
  have "tracks s (mark_transport_failed env (s\<lparr>cl_notify_refresh := None\<rparr>))"
    by (rule tracks_after [OF transport_failed_tracks]) simp_all
  moreover have "tracks s (escalate_unresponsive_transport env (s\<lparr>cl_notify_refresh := None\<rparr>))"
    by (rule tracks_after [OF escalate_tracks]) simp_all
  ultimately show ?thesis by (simp add: refresh_failed_def Let_def)
qed

lemma refresh_failed_after: "cl_queue u = cl_queue s \<Longrightarrow> cl_active u = cl_active s \<Longrightarrow> tracks s (refresh_failed env token g e u)"
  using refresh_failed_tracks by (rule tracks_after)

lemma start_toggle_tracks [simp]: "tracks s (start_toggle env c s)"
  by (simp add: start_toggle_def Let_def refresh_failed_after tracks_same split: option.split)

lemma toggle_stopped_tracks [simp]: "tracks s (toggle_stopped env c s)"
proof -
  have "tracks s (start_toggle env c (s\<lparr>cl_owned_paths := ps\<rparr>))" for ps
    by (rule tracks_after [OF start_toggle_tracks]) simp_all
  then show ?thesis by (simp add: toggle_stopped_def Let_def tracks_same)
qed

lemma toggle_stop_failed_tracks [simp]: "tracks s (toggle_stop_failed env c e s)"
  by (simp add: toggle_stop_failed_def)

lemma toggle_notify_tracks [simp]: "tracks s (toggle_notify env c s)"
proof -
  have "tracks s (toggle_stop_failed env c e (cl_call x s))" for e x
    by (rule tracks_after [OF toggle_stop_failed_tracks]) simp_all
  then show ?thesis by (simp add: toggle_notify_def Let_def tracks_same split: option.split)
qed

lemma refresh_done_tracks [simp]: "tracks s (refresh_done env s)"
proof -
  let ?t = "reset_actions env (s\<lparr>cl_notify_refresh := None\<rparr>)"
  let ?rq = "authorization_request ?t"
  have t: "tracks s ?t" by (rule tracks_after [OF reset_actions_tracks]) simp_all
  obtain q ok where e: "enqueue (rq_key ?rq) ?rq True (cl_queue ?t) = (q, ok)" by fastforce
  have "tracks ?t (pump_requests env ((fresh ?t)\<lparr>cl_queue := q\<rparr>))"
    by (rule enqueue_pump_tracks [OF e]) (simp_all add: fresh_def)
  moreover have "tracks ?t (escalate_unresponsive_transport env (fresh ?t))"
    by (rule tracks_after [OF escalate_tracks]) (simp_all add: fresh_def)
  ultimately show ?thesis unfolding refresh_done_def Let_def e prod.case by (auto intro: tracks_trans [OF t])
qed

lemma next_path_tracks [simp]: "tracks s (next_path env token g paths s)"
  by (simp add: next_path_def split: list.split)

lemma notify_reply_tracks: "tracks s (notify_reply env c e s)"
proof -
  let ?s = "s\<lparr>cl_notifies := remove1 c (cl_notifies s)\<rparr>"
  have "tracks ?s (toggle_started env c ?s)" unfolding toggle_started_def Let_def
    by (rule tracks_after [OF next_path_tracks]) simp_all
  then have "tracks ?s (notify_reply env c e s)" by (simp add: notify_reply_def Let_def split: option.split)
  then show ?thesis by (rule tracks_after) simp_all
qed

lemma refresh_tracks [simp]: "tracks s (refresh_notifications env s)"
proof -
  let ?a = "s\<lparr>cl_notify_refreshes := cl_notify_refreshes s + 1\<rparr>"
  let ?t = "end_session env (finish_active_request ?a)"
  have "tracks ?a ?t" by (rule tracks_trans [OF finish_active_tracks end_session_tracks])
  then have t: "tracks s ?t" by (rule tracks_after) simp_all
  show ?thesis unfolding refresh_notifications_def Let_def
    by (rule tracks_trans [OF tracks_then [OF t] next_path_tracks]) (simp_all add: fresh_def)
qed

lemma timed_out_tracks [simp]: "tracks s (request_timed_out env s)"
proof (cases "cl_active s")
  case (Some rq)
  have "tracks s (pump_requests env ((abandon_request env rq s)\<lparr>cl_active := None\<rparr>))"
    by (rule tracks_trans [OF abandon_tracks [OF Some] pump_tracks])
  then show ?thesis by (simp add: request_timed_out_def Some)
qed (simp add: request_timed_out_def)

definition clicked :: "nat option \<Rightarrow> AncsClient \<Rightarrow> AncsClient" where
  "clicked k s = (case k of None \<Rightarrow> s | Some k \<Rightarrow> cl_call (Clicked k) s)"

definition action_packet :: "int \<Rightarrow> bool \<Rightarrow> byte list" where
  "action_packet uid positive =
     packet_of (build_perform_notification_action uid (if positive then ActionID_Positive else ActionID_Negative))"

definition click_request :: "int \<Rightarrow> bool \<Rightarrow> action_request \<Rightarrow> AncsClient \<Rightarrow> pending_request" where
  "click_request uid positive a s = (new_request (Action_key uid) (action_packet uid positive) None s)\<lparr>rq_action := Some a\<rparr>"

definition in_flight_map :: "int \<Rightarrow> bool \<Rightarrow> (int \<times> actionable) list \<Rightarrow> (int \<times> actionable) list" where
  "in_flight_map uid b xs = map (\<lambda>(u, x). (u, if u = uid then x\<lparr>ao_in_flight := b\<rparr> else x)) xs"

text \<open>A click is refused with a report, or queued under the offer it names.\<close>

lemma perform_cases:
  obtains (refused) a r where "ar_result a = k"
      "fst (perform_notification_action env uid positive token k s) = report_action a r (clicked k s)"
    | (full) a r where "ar_result a = k"
      "fst (perform_notification_action env uid positive token k s) = report_action a r (fresh (clicked k s))"
    | (accepted) u a entry q where "ar_result a = k" "ar_uid a = u" "ar_positive a = positive"
      "(u, entry) \<in> set (cl_actionable s)" "ao_token entry = ar_token a"
      "enqueue (Action_key u) (click_request u positive a (clicked k s)) True (cl_queue s) = (q, True)"
      "fst (perform_notification_action env uid positive token k s) =
         pump_requests env ((fresh (clicked k s))\<lparr>cl_queue := q, cl_actionable := in_flight_map u True (cl_actionable s)\<rparr>)"
proof -
  define v where "v = clicked k s"
  have v: "cl_queue v = cl_queue s" "cl_actionable v = cl_actionable s"
    by (simp_all add: v_def clicked_def split: option.split)
  obtain u t where ut: "(case (uid, token) of (Some u, Some t) \<Rightarrow> (u, t) | _ \<Rightarrow> (-1, 0)) = (u, t)" by fastforce
  define a where "a = \<lparr>ar_uid = u, ar_positive = positive, ar_result = k, ar_token = t\<rparr>"
  define rq where "rq = click_request u positive a v"
  obtain q ok where e: "enqueue (Action_key u) rq True (cl_queue s) = (q, ok)" by fastforce
  define offer where "offer = (if en_actions env (cl_hist v) then map_of (cl_actionable s) u else None)"
  have k: "rq_key rq = Action_key u" by (simp add: rq_def click_request_def new_request_def)
  have p: "perform_notification_action env uid positive token k s =
      (case offer of None \<Rightarrow> (report_action a ACTION_UNAVAILABLE v, False)
       | Some entry \<Rightarrow>
           if ao_token entry \<noteq> t \<or> \<not> (if positive then ao_positive entry else ao_negative entry)
           then (report_action a ACTION_UNAVAILABLE v, False)
           else if \<not> cl_connected v \<or> cl_cp_path v = None then (report_action a ACTION_DISCONNECTED v, False)
           else if ao_in_flight entry \<or> MAX_ANCS_ACTIONS_IN_FLIGHT \<le> queued_actions v then (report_action a ACTION_BUSY v, False)
           else if \<not> ok then (report_action a ACTION_BUSY (fresh v), False)
           else (pump_requests env ((fresh v)\<lparr>cl_queue := q, cl_actionable := in_flight_map u True (cl_actionable s)\<rparr>), True))"
    unfolding perform_notification_action_def Let_def ut
    unfolding prod.case v_def [unfolded clicked_def, symmetric]
      a_def [symmetric] action_packet_def [symmetric] click_request_def [symmetric] rq_def [symmetric]
      offer_def [symmetric] k v e in_flight_map_def [symmetric] ..
  have ar: "ar_result a = k" "ar_uid a = u" "ar_positive a = positive" "ar_token a = t" by (simp_all add: a_def)
  show thesis
  proof (cases offer)
    case None
    then show thesis using refused [OF ar(1)] p v_def by simp
  next
    case (Some entry)
    then have "(u, entry) \<in> set (cl_actionable s)" by (auto simp: offer_def v map_of_SomeD split: if_splits)
    then show thesis using p Some refused [OF ar(1)] full [OF ar(1)] accepted [OF ar(1-3)] ar(4) e rq_def v_def
      by (simp split: if_splits)
  qed
qed

lemma clicked_fields [simp]:
  "cl_queue (clicked k s) = cl_queue s" "cl_active (clicked k s) = cl_active s"
  by (simp_all add: clicked_def split: option.split)

lemma perform_tracks: "tracks s (fst (perform_notification_action env uid positive token k s))"
proof (cases rule: perform_cases [where env = env and uid = uid and positive = positive and token = token and k = k and s = s])
  case (accepted u a entry q)
  let ?rq = "click_request u positive a (clicked k s)"
  have "proper ?rq" "rq_key ?rq = Action_key u" by (simp_all add: click_request_def proper_def new_request_def)
  then show ?thesis unfolding accepted(7) using accepted(6)
    by (intro enqueue_pump_tracks [where rq = ?rq and front = True and ok = True]) (simp_all add: fresh_def)
qed (simp_all add: tracks_same fresh_def)

lemma subscribe_path_fields:
  "cl_queue (fst (subscribe_path env path s)) = cl_queue s" "cl_active (fst (subscribe_path env path s)) = cl_active s"
  by (simp_all add: subscribe_path_def Let_def split: option.split)

lemma attempt_fields:
  assumes "attempt_subscription env ns ds s = (t, r)"
  shows "cl_queue t = cl_queue s" "cl_active t = cl_active s"
proof -
  obtain u x where u: "subscribe_path env ns s = (u, x)" by fastforce
  have f: "cl_queue u = cl_queue s" "cl_active u = cl_active s" using subscribe_path_fields [of env ns s] u by simp_all
  have g: "cl_queue (fst (subscribe_path env ds u)) = cl_queue s" "cl_active (fst (subscribe_path env ds u)) = cl_active s"
    by (simp_all add: subscribe_path_fields f)
  show "cl_queue t = cl_queue s" "cl_active t = cl_active s" using assms f g
    by (auto simp: attempt_subscription_def u split: option.splits if_splits attempt.splits)
qed

definition after_attempt :: "ancs_env \<Rightarrow> AncsClient \<Rightarrow> attempt \<Rightarrow> AncsClient" where
  "after_attempt env t r =
     (case r of
        Stale \<Rightarrow> t
      | Refused e \<Rightarrow>
          (if connection_was_lost (en_case env) e then mark_transport_failed env (observe_permission_error env e t)
           else schedule_subscribe_retry env (observe_permission_error env e t))
      | Started \<Rightarrow>
          queue_authorization_probe env False (end_session env (reset_actions env ((cancel_timer Subscribe_retry t)
            \<lparr>cl_receivers := Some (cl_owner_gen (cancel_timer Subscribe_retry t), cl_subscription_gen (cancel_timer Subscribe_retry t)),
             cl_notify_started := True\<rparr>))))"

lemma try_subscribe_cases:
  obtains (skipped) "try_subscribe env s = s"
    | (attempted) ns ds t r where "attempt_subscription env ns ds s = (t, r)" "try_subscribe env s = after_attempt env t r"
proof (cases "cl_notify_started s \<or> cl_transport_blocked s \<or> \<not> transport_available s \<or> \<not> cl_bearer_ready s \<or> \<not> cl_started s")
  case True
  then show thesis by (intro skipped) (auto simp: try_subscribe_def split: option.split)
next
  case False
  show thesis
  proof (cases "paths_known s")
    case True
    then obtain ns ds cp where p: "cl_ns_path s = Some ns" "cl_ds_path s = Some ds" "cl_cp_path s = Some cp"
      by (auto simp: paths_known_def)
    obtain t r where a: "attempt_subscription env ns ds s = (t, r)" by fastforce
    have "try_subscribe env s = after_attempt env t r"
      using False unfolding try_subscribe_def p option.case prod.case a after_attempt_def Let_def
      by (cases r) (simp_all only: attempt.case if_False de_Morgan_disj not_not simp_thms)
    with a show thesis by (rule attempted)
  next
    case no: False
    then show thesis using False by (intro skipped) (auto simp: try_subscribe_def paths_known_def split: option.split)
  qed
qed

lemma after_attempt_tracks: "cl_queue t = cl_queue s \<Longrightarrow> cl_active t = cl_active s \<Longrightarrow> tracks s (after_attempt env t r)"
proof (cases r)
  case (Refused e)
  assume f: "cl_queue t = cl_queue s" "cl_active t = cl_active s"
  have "tracks s (mark_transport_failed env (observe_permission_error env e t))"
    by (rule tracks_after [OF transport_failed_tracks]) (simp_all add: f)
  moreover have "tracks s (schedule_subscribe_retry env (observe_permission_error env e t))"
    by (rule tracks_same) (simp_all add: f)
  ultimately show ?thesis by (simp add: Refused after_attempt_def)
next
  case Started
  assume f: "cl_queue t = cl_queue s" "cl_active t = cl_active s"
  show ?thesis unfolding Started after_attempt_def attempt.case
    by (rule tracks_trans [OF tracks_trans [OF tracks_trans [OF tracks_same reset_actions_tracks] end_session_tracks] probe_tracks])
      (simp_all add: f)
qed (simp add: after_attempt_def tracks_same)

lemma try_subscribe_tracks [simp]: "tracks s (try_subscribe env s)"
proof (cases rule: try_subscribe_cases [of env s])
  case (attempted ns ds t r)
  then show ?thesis using after_attempt_tracks attempt_fields by metis
qed simp

lemma retry_subscribe_tracks [simp]: "tracks s (retry_subscribe env s)"
proof -
  have "tracks s (try_subscribe env (s\<lparr>cl_transport_blocked := False, cl_bearer_ready := True\<rparr>))"
    by (rule tracks_after [OF try_subscribe_tracks]) simp_all
  then show ?thesis by (simp add: retry_subscribe_def)
qed

lemma iface_added_tracks [simp]: "tracks s (iface_added env path uuid s)"
proof -
  have "tracks s (try_subscribe env t)" "tracks s (schedule_subscribe_retry env (t\<lparr>cl_legacy_delay := d\<rparr>))"
    if "cl_queue t = cl_queue s" "cl_active t = cl_active s" for t d
    using that tracks_after [OF try_subscribe_tracks] by (blast, simp add: tracks_same)
  then show ?thesis by (simp add: iface_added_def Let_def split: option.split)
qed

lemma iface_removed_tracks [simp]: "tracks s (iface_removed env path s)"
proof (cases "forget_path path s")
  case (Some t)
  then have f: "cl_queue t = cl_queue s" "cl_active t = cl_active s" by (auto simp: forget_path_def split: if_splits)
  show ?thesis unfolding iface_removed_def Some option.case Let_def
    by (rule tracks_clear [where env = env and stop = False and
          u = "cancel_timer Authorization_retry (cancel_timer Subscribe_retry t)"]) (simp_all add: f)
qed (simp add: iface_removed_def)

lemma bind_tracks: "tracks s (fst (bind_manager env managed s))"
proof -
  have "tracks t (fold (\<lambda>(path, uuid). iface_added env path uuid) os t)" for os t
  proof (induction os arbitrary: t)
    case (Cons o' os)
    then show ?case by (cases o') (auto intro: tracks_trans [OF iface_added_tracks])
  qed simp
  then have "tracks s (fold (\<lambda>(path, uuid). iface_added env path uuid) os (s\<lparr>cl_watching := True\<rparr>))" for os
    by (rule tracks_after) simp_all
  then show ?thesis by (simp add: bind_manager_def tracks_same split: option.split)
qed

lemma rebind_tracks [simp]: "tracks s (rebind_manager env managed s)"
  using bind_tracks [of s env managed] by (auto simp: rebind_manager_def split: prod.split intro: tracks_then)

lemma start_tracks [simp]: "tracks s (cl_start env managed s)"
proof -
  let ?s = "s\<lparr>cl_owner_available := True, cl_started := True\<rparr>"
  obtain t ok where b: "bind_manager env managed ?s = (t, ok)" by fastforce
  then have "tracks ?s t" using bind_tracks [of ?s env managed] by simp
  then have t: "tracks s t" by (rule tracks_after) simp_all
  then show ?thesis using tracks_then [OF t, of "t\<lparr>cl_started := False\<rparr>"] tracks_then [OF t, of "schedule_bearer_settle env t"]
    by (cases ok) (simp_all add: cl_start_def b)
qed

lemma fold_cancel_fields [simp]:
  "cl_queue (fold cancel_timer ks s) = cl_queue s" "cl_active (fold cancel_timer ks s) = cl_active s"
  by (induction ks arbitrary: s) simp_all

lemma stop_tracks [simp]: "tracks s (cl_stop env s)"
  unfolding cl_stop_def Let_def
  by (rule tracks_clear [where env = env and u = "fold cancel_timer [Manager_retry, Subscribe_retry, Authorization_retry,
        Bearer_settle, Transport_reset] (s\<lparr>cl_started := False, cl_owner_available := False\<rparr>)"]) (simp_all del: fold_simps)

lemma forget_owner_tracks [simp]: "tracks s (forget_owner env s)"
  unfolding forget_owner_def Let_def
  by (rule tracks_clear [where env = env and stop = False and u = "cancel_timer Subscribe_retry
        ((fold cancel_timer [Manager_retry, Bearer_settle, Transport_reset] s)\<lparr>cl_watching := False\<rparr>)"]) (simp_all del: fold_simps)

lemma owner_tracks: "tracks s (observe_bluez_owner env old new managed s)"
proof -
  let ?s = "s\<lparr>cl_owner_gen := cl_owner_gen s + 1, cl_owner_available := new, cl_notify_refreshes := 0, cl_write_token := None\<rparr>"
  let ?t = "if old then forget_owner env ?s else ?s"
  have "tracks ?s ?t" by simp
  then have t: "tracks s ?t" by (rule tracks_after) simp_all
  then have "tracks s (rebind_manager env managed ?t)" using rebind_tracks by (rule tracks_trans)
  then show ?thesis using t unfolding observe_bluez_owner_def Let_def by simp
qed

lemma legacy_hint_tracks [simp]: "tracks s (legacy_transport_hint env s)"
  by (simp add: legacy_transport_hint_def tracks_same)

lemma bearer_lost_tracks [simp]: "tracks s (bearer_lost env s)"
proof -
  let ?t = "cancel_timer Transport_reset (cancel_timer Bearer_settle
      (s\<lparr>cl_notify_refreshes := 0, cl_transport_blocked := False, cl_bearer_ready := False\<rparr>))"
  have "tracks s (callback env n e (clear_characteristic_subscription env False (cancel_timer Subscribe_retry ?t)))" for n e
    by (rule tracks_clear [where env = env and stop = False and u = "cancel_timer Subscribe_retry ?t"]) simp_all
  then show ?thesis unfolding bearer_lost_def Let_def by (simp add: tracks_same)
qed

lemma bearer_state_tracks [simp]: "tracks s (bearer_state env bearer s)"
proof -
  have "tracks s (bearer_lost env (s\<lparr>cl_bearer_connected := x\<rparr>))" for x
    by (rule tracks_after [OF bearer_lost_tracks]) simp_all
  then show ?thesis by (simp add: bearer_state_def Let_def tracks_same split: option.split bool.split)
qed

lemma bearer_tracks: "tracks s (observe_bearer_state env bearer legacy s)"
proof -
  let ?u = "fold cancel_timer [Subscribe_retry, Bearer_settle, Transport_reset]
    (s\<lparr>cl_legacy_connected := legacy, cl_legacy_delay := SUBSCRIBE_RETRY_SECONDS\<rparr>)"
  let ?c = "(clear_characteristic_subscription env False ?u)\<lparr>cl_bearer_ready := False, cl_transport_blocked := False\<rparr>"
  define d where "d = (if cl_connected s then callback env ''on_status'' On_status ?c else ?c)"
  have d: "tracks s d" unfolding d_def
    by (rule tracks_clear [where env = env and stop = False and u = ?u]) (simp_all del: fold_simps)
  have "tracks s (bearer_state env b d)" for b by (rule tracks_trans [OF d]) simp
  moreover have "tracks s (schedule_bearer_settle env (d\<lparr>cl_bearer_connected := None\<rparr>))"
    "tracks s (d\<lparr>cl_bearer_connected := x\<rparr>)" for x
    by (rule tracks_then [OF d]; simp)+
  moreover have "tracks s (legacy_transport_hint env (s\<lparr>cl_bearer_connected := None\<rparr>))"
    by (rule tracks_after [OF legacy_hint_tracks]) simp_all
  ultimately show ?thesis unfolding observe_bearer_state_def Let_def d_def [symmetric] by simp
qed

lemma run_timer_tracks: "tracks s (run_timer env k managed s)"
proof -
  have "tracks s (try_subscribe env (s\<lparr>cl_bearer_ready := True\<rparr>))"
    by (rule tracks_after [OF try_subscribe_tracks]) simp_all
  then have "tracks s (finish_bearer_settle env s)" by (simp add: finish_bearer_settle_def)
  moreover have "tracks s (check_legacy_health env s)"
    by (simp add: check_legacy_health_def Let_def tracks_then [OF probe_health_tracks])
  ultimately show ?thesis
    by (cases k) (simp_all add: run_timer_def retry_manager_bind_def request_transport_reset_def)
qed

lemma fire_timer_tracks: "tracks s (fire_timer env k i managed s)"
  unfolding fire_timer_def by (rule tracks_after [OF run_timer_tracks]) simp_all

lemma ancs_step_tracks: "ancs_step env s t \<Longrightarrow> tracks s t"
proof (induction rule: ancs_step.induct)
  case (notification s v)
  show ?case by (simp add: ns_signal_def on_ns_tracks)
next
  case (data s v)
  show ?case by (simp add: ds_signal_def on_ds_tracks)
next
  case (setting s)
  show ?case by (simp add: notification_actions_changed_def)
qed (simp_all add: owner_tracks bearer_tracks write_reply_tracks notify_reply_tracks fire_timer_tracks perform_tracks)

section \<open>The refinement\<close>

definition client_good :: "AncsClient \<Rightarrow> bool" where
  "client_good s \<longleftrightarrow> keys_ok s \<and> reachable backlog_start backlog_step (backlog_view s)"

lemma reachable_steps: "backlog_step\<^sup>*\<^sup>* c d \<Longrightarrow> reachable backlog_start backlog_step c \<Longrightarrow> reachable backlog_start backlog_step d"
  by (induction rule: rtranclp_induct) (auto intro: reachable.next_state)

lemma good_tracks: "tracks s t \<Longrightarrow> client_good s \<Longrightarrow> client_good t"
  by (auto simp: tracks_def client_good_def intro: reachable_steps)

lemma good_init: "ancs_started s \<Longrightarrow> client_good s"
proof -
  assume s: "ancs_started s"
  then have "keys_ok s" "backlog_view s = (\<lparr>rb_maximum = MAX_ANCS_REQUESTS, rb_queue = [], rb_reserved = {}\<rparr>, [])"
    by (auto simp: ancs_started_def AncsClient_init_def keys_ok_def backlog_view_def flying_def)
  moreover have "RequestBacklog_init (int MAX_ANCS_REQUESTS) =
      Inr (\<lparr>rb_maximum = MAX_ANCS_REQUESTS, rb_queue = [], rb_reserved = {}\<rparr> :: (req_key, pending_request) RequestBacklog)"
    by (simp add: RequestBacklog_init_def MAX_ANCS_REQUESTS_def)
  then have "backlog_start (\<lparr>rb_maximum = MAX_ANCS_REQUESTS, rb_queue = [], rb_reserved = {}\<rparr> ::
      (req_key, pending_request) RequestBacklog, [] :: req_key list)" unfolding backlog_start_def fst_conv snd_conv by blast
  ultimately show ?thesis by (simp add: client_good_def reachable.start)
qed

lemma good_client_inv: "client_good s \<Longrightarrow> backlog.client_inv (backlog_view s)"
  unfolding client_good_def by (blast intro: backlog_run.reachable_inv)

lemma active_reserved: "client_good s \<Longrightarrow> cl_active s = Some rq \<Longrightarrow> \<not> rq_discarded rq \<Longrightarrow> rq_key rq \<in> rb_reserved (cl_queue s)"
  using good_client_inv [of s] by (auto simp: backlog_view_def backlog.client_inv_def flying_def)

interpretation ancs_backlog: invariant_system ancs_started "ancs_step env" client_good for env
proof
  show "client_good s \<Longrightarrow> ancs_step env s t \<Longrightarrow> client_good t" for s t
    by (rule good_tracks [OF ancs_step_tracks])
qed (rule good_init)

text \<open>
  C11: The ANCS client refines the abstract user of the request backlog: every step of the client, in any
  reachable state, is a run of backlog operations on its queue with the active request as the one in flight.
  Its queue is therefore always a state that user can reach, so no key is queued or in flight twice, and a
  busy request can always be pushed back, because its key is still reserved.
\<close>

theorem ancs_refines_backlog:
  assumes "reachable ancs_started (ancs_step env) s" "ancs_step env s t"
  shows "backlog_step\<^sup>*\<^sup>* (backlog_view s) (backlog_view t) \<and> reachable backlog_start backlog_step (backlog_view t) \<and>
    distinct (map fst (queued t) @ flying t) \<and>
    length (queued t) + length (flying t) \<le> rb_maximum (cl_queue t) \<and>
    (\<forall>rq. cl_active t = Some rq \<and> \<not> rq_discarded rq \<longrightarrow> (\<exists>q. push_front (rq_key rq) rq (cl_queue t) = Inr q))"
proof -
  have s: "client_good s" by (rule ancs_backlog.reachable_inv [OF assms(1)])
  then have t: "client_good t" using good_tracks [OF ancs_step_tracks [OF assms(2)]] by blast
  have i: "backlog.client_inv (cl_queue t, flying t)" using good_client_inv [OF t] by (simp add: backlog_view_def)
  have "\<exists>q. push_front (rq_key rq) rq (cl_queue t) = Inr q" if "cl_active t = Some rq" "\<not> rq_discarded rq" for rq
    using active_reserved [OF t that] by (simp add: push_front_def)
  moreover have "backlog_step\<^sup>*\<^sup>* (backlog_view s) (backlog_view t)"
    using ancs_step_tracks [OF assms(2)] s by (simp add: tracks_def client_good_def)
  ultimately show ?thesis
    using t i backlog.client_inv_length [OF i] by (auto simp: client_good_def backlog.client_inv_def)
qed

text \<open>A run in which every D-Bus call succeeds.\<close>

definition calm_env :: ancs_env where
  "calm_env =
     \<lparr>en_sched = (\<lambda>h. Suc (top_id h)), en_clock = (\<lambda>_. 0), en_case = \<lparr>upper_char = (\<lambda>c. [c]), fold_char = (\<lambda>c. [c])\<rparr>,
      en_word = (\<lambda>_. False), en_device = lit ''/d'', en_has = (\<lambda>_. True), en_non_messages = (\<lambda>_. True),
      en_include_app = (\<lambda>_ _. True), en_actions = (\<lambda>_. True), en_write = (\<lambda>_. None), en_receive = (\<lambda>_. None),
      en_start_notify = (\<lambda>_. None), en_stop_notify = (\<lambda>_. None), en_dispatch = (\<lambda>_. None),
      en_notifying = (\<lambda>_. None), en_current = (\<lambda>_. True)\<rparr>"

definition demo_objects :: "(pystr \<times> pystr option) list" where
  "demo_objects = [(lit ''/d/s/n'', Some NOTIFICATION_SOURCE_CHAR), (lit ''/d/s/c'', Some CONTROL_POINT_CHAR),
     (lit ''/d/s/d'', Some DATA_SOURCE_CHAR)]"

definition demo_bound :: AncsClient where
  "demo_bound = observe_bearer_state calm_env (Some True) False
     (cl_start calm_env (Some demo_objects) (AncsClient_init False))"

definition demo_probing :: AncsClient where
  "demo_probing = fire_timer calm_env Bearer_settle 1 None demo_bound"

lemma demo_bound_reachable: "reachable ancs_started (ancs_step calm_env) demo_bound"
proof -
  have "reachable ancs_started (ancs_step calm_env) (AncsClient_init False)"
    by (rule reachable.start) (auto simp: ancs_started_def)
  then have "reachable ancs_started (ancs_step calm_env) (cl_start calm_env (Some demo_objects) (AncsClient_init False))"
    using ancs_step.start by (rule reachable.next_state)
  then show ?thesis unfolding demo_bound_def using ancs_step.bearer by (rule reachable.next_state)
qed

lemma demo_bound_settling: "cl_timers demo_bound Bearer_settle = Some 1"
  by code_simp

lemma demo_probing_step: "ancs_step calm_env demo_bound demo_probing"
  unfolding demo_probing_def by (rule ancs_step.timer [OF demo_bound_settling])

theorem ancs_refines_backlog_witness:
  "reachable backlog_start backlog_step (backlog_view demo_probing) \<and> flying demo_probing = [Authorization_key]"
proof -
  have "flying demo_probing = [Authorization_key]" by code_simp
  then show ?thesis using ancs_refines_backlog [OF demo_bound_reachable demo_probing_step] by blast
qed

end
