(* ===== verification/Ancs_Client_Safety.thy ===== *)
theory Ancs_Client_Safety
  imports Ancs_Requests
begin

text \<open>
  The invariant of \<open>Ancs_Invariant\<close> through every operation of the ANCS client, and the properties that rest
  on it: the Control Point is used serially, clicked actions are answered once and written only under a
  standing offer, content is requested only for admitted apps, events only concern notifications that are
  still there, and no timer is lost.
\<close>

section \<open>Operations without writes\<close>

lemma inv_plain_timer:
  "ancs_inv H s \<Longrightarrow> fresh_ids (en_sched env) \<Longrightarrow> cl_timers s k = None \<Longrightarrow> k \<noteq> Request_timeout \<Longrightarrow> k \<noteq> Busy_retry \<Longrightarrow>
     ancs_inv H (start_timer env k d s)"
  by (rule inv_start_timer) simp_all

lemma schedule_inv [simp]:
  assumes "fresh_ids (en_sched env)" "ancs_inv H s"
  shows "ancs_inv H (schedule_authorization_retry env s)" "ancs_inv H (schedule_subscribe_retry env s)"
    "ancs_inv H (schedule_transport_reset env s)" "ancs_inv H (schedule_legacy_health env s)"
    "ancs_inv H (schedule_manager_retry env s)" "ancs_inv H (schedule_bearer_settle env s)"
  using assms
  by (simp_all add: inv_plain_timer schedule_authorization_retry_def schedule_subscribe_retry_def
      schedule_transport_reset_def schedule_legacy_health_def schedule_manager_retry_def schedule_bearer_settle_def)

lemma abandon_inv [simp]:
  assumes "fresh_ids (en_sched env)" "ancs_inv H s"
  shows "ancs_inv H (abandon_request env rq s)"
proof -
  have "ancs_inv H (s\<lparr>cl_queue := finish k (cl_queue s)\<rparr>)" for k
    using assms(2) by (rule inv_reserved) (simp add: finish_def)
  then show ?thesis using assms(1) by (simp add: abandon_request_def Let_def flush_inv split: option.split)
qed

lemma permission_inv [simp]:
  "fresh_ids (en_sched env) \<Longrightarrow> ancs_inv H s \<Longrightarrow> ancs_inv H (observe_permission_error env e s)"
  by (simp add: observe_permission_error_def Let_def inv_callback)

lemma authorized_inv [simp]:
  "fresh_ids (en_sched env) \<Longrightarrow> ancs_inv H s \<Longrightarrow> ancs_inv H (mark_authorized env s)"
  by (simp add: mark_authorized_def Let_def inv_callback)

lemma stop_paths_inv: "ancs_inv H s \<Longrightarrow> ancs_inv H (stop_paths env paths s)"
  by (induction paths arbitrary: s) (simp_all add: Let_def inv_call)

lemma stop_notifications_inv [simp]: "ancs_inv H s \<Longrightarrow> ancs_inv H (stop_bluez_notifications env s)"
  by (simp add: stop_bluez_notifications_def Let_def stop_paths_inv)

lemma clear_inv [simp]: "ancs_inv H s \<Longrightarrow> ancs_inv H (clear_characteristic_subscription env stop s)"
  by (simp add: clear_characteristic_subscription_def Let_def)

lemma transport_failed_inv [simp]:
  "fresh_ids (en_sched env) \<Longrightarrow> ancs_inv H s \<Longrightarrow> ancs_inv H (mark_transport_failed env s)"
  by (simp add: mark_transport_failed_def Let_def inv_callback)

lemma escalate_inv [simp]:
  "fresh_ids (en_sched env) \<Longrightarrow> ancs_inv H s \<Longrightarrow> ancs_inv H (escalate_unresponsive_transport env s)"
  by (simp add: escalate_unresponsive_transport_def)

lemma call_activity_inv [simp]: "ancs_inv H s \<Longrightarrow> ancs_inv H (report_call_activity env n s)"
  by (simp add: report_call_activity_def inv_callback)

subsection \<open>The request in hand\<close>

lemma coherent_sub:
  assumes "coherent H s" "requests K t \<subseteq> requests H s" "cl_next s \<le> cl_next t"
  shows "coherent K t"
  unfolding coherent_def
proof (intro ballI conjI impI)
  fix x y assume x: "x \<in> requests K t" and y: "y \<in> requests K t"
  have xy: "x \<in> requests H s" "y \<in> requests H s" using x y assms(2) by blast+
  then have "rq_id x < cl_next s" using assms(1) by (simp add: coherent_def)
  then show "rq_id x < cl_next t" using assms(3) by simp
  show "rq_id x = rq_id y \<Longrightarrow> rq_action x = rq_action y" using xy assms(1) unfolding coherent_def by blast
qed

lemma inv_coherent: "ancs_inv H s \<Longrightarrow> coherent H s"
  by (simp add: ancs_inv_def)

text \<open>A request without an action leaves the hand silently, one with an action with its report.\<close>

lemma inv_unhand: "ancs_inv (rq # H) s \<Longrightarrow> rq_action rq = None \<Longrightarrow> ancs_inv H s"
proof -
  assume s: "ancs_inv (rq # H) s" and rq: "rq_action rq = None"
  have "requests H s \<subseteq> requests (rq # H) s" by (auto simp: requests_def)
  then have "coherent H s" using coherent_sub [OF inv_coherent [OF s]] by simp
  moreover have "\<not> action_of k rq" for k using rq by (simp add: action_of_def)
  then have "accounted H s" using s by (simp add: ancs_inv_def accounted_def)
  ultimately show ?thesis using s by (simp add: ancs_inv_def)
qed

lemma inv_report: "ancs_inv (rq # H) s \<Longrightarrow> rq_action rq = Some a \<Longrightarrow> ancs_inv H (report_action a r s)"
proof -
  assume s: "ancs_inv (rq # H) s" and rq: "rq_action rq = Some a"
  let ?es = "case ar_result a of None \<Rightarrow> [] | Some k \<Rightarrow> [Action_result k r]"
  let ?t = "report_action a r s"
  have es: "list_all is_report ?es" by (simp split: option.split)
  have l: "log_of ?t = ?es @ log_of s" by simp
  have "requests H ?t \<subseteq> requests (rq # H) s" by (auto simp: requests_def)
  then have c: "coherent H ?t" using coherent_sub [OF inv_coherent [OF s]] by simp
  have "results k ?es = (if action_of k rq then 1 else 0)" for k
    using rq by (simp add: action_of_def split: option.split)
  then have "accounted H ?t"
    using s unfolding accounted_def l report_log(4,6) [OF es] queued_for_def written_for_def report_fields
    by (simp add: ancs_inv_def accounted_def queued_for_def written_for_def)
  moreover have "offers_ok ?t" using s unfolding offers_ok_def l report_log(1,5) [OF es] report_fields
    by (simp add: ancs_inv_def offers_ok_def)
  moreover have "content_ok ?t" using s report_log(7) [OF es] unfolding content_ok_def l report_fields
    by (simp add: ancs_inv_def content_ok_def)
  moreover have "pipeline_ok ?t" using s unfolding pipeline_ok_def l report_log(2) [OF es] report_fields
    by (simp add: ancs_inv_def pipeline_ok_def)
  moreover have "log_ok (log_of ?t)" using s unfolding l report_log(3) [OF es] by (simp add: ancs_inv_def)
  moreover have "serial ?t" "timers_ok ?t" using s by (simp_all add: ancs_inv_def serial_def timers_ok_def)
  ultimately show ?thesis using c by (simp add: ancs_inv_def)
qed

lemma action_written_inv: "ancs_inv (rq # H) s \<Longrightarrow> rq_action rq = Some a \<Longrightarrow> ancs_inv H (action_written a s)"
  unfolding action_written_def by (rule inv_report [OF inv_actionable]) (auto simp: al_pop_def intro: offers_le_sub)

lemma in_flight_offers: "offers_le (in_flight_map u b as) as"
  by (fastforce simp: offers_le_def in_flight_map_def)

lemma action_failed_inv: "ancs_inv (rq # H) s \<Longrightarrow> rq_action rq = Some a \<Longrightarrow> ancs_inv H (action_failed env a e s)"
  unfolding action_failed_def Let_def in_flight_map_def [symmetric]
  by (rule inv_report [where rq = rq]) (auto intro!: inv_actionable in_flight_offers offers_le_sub simp: al_pop_def)

lemma inv_release:
  assumes "ancs_inv H s" "cl_write_token s = Some t" "t \<notin> wc_token ` set (cl_writes s)"
  shows "ancs_inv H (s\<lparr>cl_write_token := None\<rparr>)"
proof -
  let ?t = "s\<lparr>cl_write_token := None\<rparr>"
  have "wc_generation c \<noteq> cl_owner_gen s" if "c \<in> set (cl_writes s)" for c
    using assms that by (auto simp: ancs_inv_def serial_def)
  then have "serial ?t" using assms(1) by (auto simp: ancs_inv_def serial_def)
  moreover have "timers_ok ?t" using assms(1) by (auto simp: ancs_inv_def timers_ok_def)
  moreover have "coherent H ?t = coherent H s" by (simp add: coherent_def requests_def)
  moreover have "accounted H ?t = accounted H s" by (simp add: accounted_def queued_for_def written_for_def)
  moreover have "offers_ok ?t = offers_ok s" "content_ok ?t = content_ok s" "pipeline_ok ?t = pipeline_ok s"
    by (simp_all add: offers_ok_def content_ok_def pipeline_ok_def)
  ultimately show ?thesis using assms(1) by (simp add: ancs_inv_def)
qed

section \<open>Control Point writes\<close>

text \<open>A write that is being started or answered: it is no longer, or not yet, among the unanswered ones.\<close>

definition held :: "write_call \<Rightarrow> AncsClient \<Rightarrow> bool" where
  "held c s \<longleftrightarrow> wc_token c \<notin> wc_token ` set (cl_writes s) \<and> wc_token c < cl_next s \<and> wc_generation c \<le> cl_owner_gen s \<and>
     (wc_generation c = cl_owner_gen s \<longrightarrow> cl_write_token s = Some (wc_token c))"

lemma begin_inv:
  assumes "ancs_inv H s" "may_write s" "popleft (cl_queue s) = Inr (q, rq)" "begin_write rq q s = (s1, c)"
  shows "ancs_inv (wc_request c # H) s1" "held c s1"
proof -
  obtain k rest where q: "queued s = (k, rq) # rest" "q = (cl_queue s)\<lparr>rb_queue := rest\<rparr>"
    using assms(3) by (auto simp: popleft_def split: list.splits)
  have m: "cl_active s = None" "cl_write_token s = None" "cl_timers s Busy_retry = None"
    using assms(2) by (auto simp: may_write_def)
  have c: "c = \<lparr>wc_token = cl_next s, wc_generation = cl_owner_gen s, wc_request = rq\<rparr>"
    and s1: "s1 = cl_call (Write_value rq)
      (s\<lparr>cl_queue := q, cl_active := Some rq, cl_write_token := Some (cl_next s), cl_next := cl_next s + 1\<rparr>)"
    using assms(4) by (auto simp: begin_write_def Let_def)
  have f: "queued s1 = rest" "cl_active s1 = Some rq" "cl_write_token s1 = Some (cl_next s)" "cl_next s1 = cl_next s + 1"
    "cl_writes s1 = cl_writes s" "cl_owner_gen s1 = cl_owner_gen s" "cl_actionable s1 = cl_actionable s"
    "cl_next_action s1 = cl_next_action s" "cl_pending_lookups s1 = cl_pending_lookups s" "cl_timers s1 = cl_timers s"
    "live (cl_hist s1) = live (cl_hist s)" "log_of s1 = Write_value rq # log_of s"
    unfolding s1 q(2) by simp_all
  have old: "wc_generation d \<noteq> cl_owner_gen s" "wc_token d < cl_next s" if "d \<in> set (cl_writes s)" for d
    using assms(1) m(2) that by (auto simp: ancs_inv_def serial_def)
  have "serial s1" using assms(1) old unfolding serial_def f by (auto simp: ancs_inv_def serial_def less_SucI)
  moreover have "requests (wc_request c # H) s1 \<subseteq> requests H s" unfolding requests_def f c using q(1) m(1) by auto
  then have "coherent (wc_request c # H) s1"
    using coherent_sub [OF inv_coherent [OF assms(1)], of _ s1] f(4) by simp
  moreover have "accounted (wc_request c # H) s1"
    using assms(1) unfolding accounted_def queued_for_def written_for_def f c
    by (simp add: ancs_inv_def accounted_def queued_for_def written_for_def q(1))
  moreover have "offers_ok s1"
    using assms(1) unfolding offers_ok_def f
    by (simp add: ancs_inv_def offers_ok_def q(1) offer_ok_def cong: option.case_cong)
  moreover have "content_ok s1"
    using assms(1) unfolding content_ok_def f by (simp add: ancs_inv_def content_ok_def q(1) request_ok_mono)
  moreover have "pipeline_ok s1"
    using assms(1) unfolding pipeline_ok_def f by (simp add: ancs_inv_def pipeline_ok_def q(1))
  moreover have "log_ok (log_of s1)"
    using assms(1) unfolding f by (simp add: ancs_inv_def content_ok_def offers_ok_def q(1))
  moreover have "timers_ok s1" using assms(1) m unfolding timers_ok_def f by (simp add: ancs_inv_def timers_ok_def)
  ultimately show "ancs_inv (wc_request c # H) s1" by (simp add: ancs_inv_def)
  have "cl_next s \<notin> wc_token ` set (cl_writes s)" using old(2) by (metis imageE less_irrefl)
  then show "held c s1" unfolding held_def f c by simp
qed

lemma inv_unanswered:
  assumes "ancs_inv (wc_request c # H) s" "held c s"
  shows "ancs_inv H (s\<lparr>cl_writes := c # cl_writes s\<rparr>)"
proof -
  let ?t = "s\<lparr>cl_writes := c # cl_writes s\<rparr>"
  have "serial ?t" using assms by (auto simp: ancs_inv_def serial_def held_def)
  moreover have "requests H ?t \<subseteq> requests (wc_request c # H) s" by (auto simp: requests_def)
  then have "coherent H ?t" using coherent_sub [OF inv_coherent [OF assms(1)]] by simp
  moreover have "accounted H ?t"
    using assms(1) by (simp add: ancs_inv_def accounted_def queued_for_def written_for_def)
  moreover have "offers_ok ?t" using assms(1) by (simp add: ancs_inv_def offers_ok_def)
  moreover have "content_ok ?t" using assms(1) by (simp add: ancs_inv_def content_ok_def)
  moreover have "pipeline_ok ?t" using assms(1) by (simp add: ancs_inv_def pipeline_ok_def)
  moreover have "log_ok (log_of ?t)" "timers_ok ?t" using assms(1) by (simp_all add: ancs_inv_def timers_ok_def)
  ultimately show ?thesis by (simp add: ancs_inv_def)
qed

lemma filter_remove1: "x \<in> set xs \<Longrightarrow> length (filter P xs) = length (filter P (remove1 x xs)) + (if P x then 1 else 0)"
  by (induction xs) auto

lemma inv_answered:
  assumes "ancs_inv H s" "c \<in> set (cl_writes s)"
  shows "ancs_inv (wc_request c # H) (s\<lparr>cl_writes := remove1 c (cl_writes s)\<rparr>)"
    "held c (s\<lparr>cl_writes := remove1 c (cl_writes s)\<rparr>)"
proof -
  let ?t = "s\<lparr>cl_writes := remove1 c (cl_writes s)\<rparr>"
  have d: "distinct (map wc_token (cl_writes s))" using assms(1) by (simp add: ancs_inv_def serial_def)
  then have r: "set (remove1 c (cl_writes s)) = set (cl_writes s) - {c}" by (simp add: distinct_map)
  then have sub: "\<And>d. d \<in> set (remove1 c (cl_writes s)) \<Longrightarrow> d \<in> set (cl_writes s)" by auto
  have "distinct (map wc_token (remove1 c (cl_writes s)))" using d by (auto simp: distinct_map intro: inj_on_subset dest: sub)
  then have "serial ?t" using assms(1) sub by (auto simp: ancs_inv_def serial_def)
  moreover have "requests (wc_request c # H) ?t \<subseteq> requests H s" unfolding requests_def using assms(2) r by auto
  then have "coherent (wc_request c # H) ?t" using coherent_sub [OF inv_coherent [OF assms(1)]] by simp
  moreover have "accounted (wc_request c # H) ?t"
    using assms(1) filter_remove1 [OF assms(2)] by (simp add: ancs_inv_def accounted_def queued_for_def written_for_def)
  moreover have "offers_ok ?t" using assms(1) by (simp add: ancs_inv_def offers_ok_def)
  moreover have "content_ok ?t" using assms(1) by (simp add: ancs_inv_def content_ok_def)
  moreover have "pipeline_ok ?t" using assms(1) by (simp add: ancs_inv_def pipeline_ok_def)
  moreover have "log_ok (log_of ?t)" "timers_ok ?t" using assms(1) by (simp_all add: ancs_inv_def timers_ok_def)
  ultimately show "ancs_inv (wc_request c # H) ?t" by (simp add: ancs_inv_def)
  have "wc_token c \<notin> wc_token ` set (remove1 c (cl_writes s))" unfolding r using d assms(2)
    by (auto simp: distinct_map dest: inj_onD)
  then show "held c ?t" using assms by (auto simp: held_def ancs_inv_def serial_def)
qed

lemma inv_deactivate:
  "ancs_inv H s \<Longrightarrow> cl_timers s Request_timeout = None \<Longrightarrow> ancs_inv H (s\<lparr>cl_active := None\<rparr>)"
  by (rule inv_quiet [where s = s])
    (auto simp: shrunk_def waiting_def queued_for_def active_le_def timers_ok_def ancs_inv_def)

lemma released_write_inv:
  assumes "ancs_inv H s" "held c s" "release_write c s = (u, b)"
  shows "ancs_inv H u" "wc_generation c = cl_owner_gen u \<Longrightarrow> cl_write_token u = None \<and> cl_timers u Request_timeout = None"
    "cl_active u = cl_active s" "cl_queue u = cl_queue s"
proof -
  show "ancs_inv H u" using assms inv_release [OF assms(1)] by (auto simp: release_write_def held_def split: if_splits)
  show "cl_active u = cl_active s" "cl_queue u = cl_queue s" using assms(3) by (auto simp: release_write_def split: if_splits)
  assume g: "wc_generation c = cl_owner_gen u"
  then have "cl_write_token s = Some (wc_token c)" using assms(2,3) by (auto simp: release_write_def held_def split: if_splits)
  then have "cl_timers s Request_timeout = None" "u = s\<lparr>cl_write_token := None\<rparr>"
    using assms(1,3) by (auto simp: ancs_inv_def timers_ok_def release_write_def)
  then show "cl_write_token u = None \<and> cl_timers u Request_timeout = None" by simp
qed

text \<open>The active request is the one the write was for, so both carry the same action.\<close>

lemma current_action:
  assumes "ancs_inv (wc_request c # H) s" "is_current c s" "cl_active s = Some rq"
  shows "rq_action rq = rq_action (wc_request c)" "wc_generation c = cl_owner_gen s"
proof -
  have "rq_id rq = rq_id (wc_request c)" "wc_generation c = cl_owner_gen s" using assms(2,3) by (auto simp: is_current_def)
  moreover have "rq \<in> requests (wc_request c # H) s" "wc_request c \<in> requests (wc_request c # H) s"
    using assms(3) by (auto simp: requests_def)
  ultimately show "rq_action rq = rq_action (wc_request c)" "wc_generation c = cl_owner_gen s"
    using assms(1) unfolding ancs_inv_def coherent_def by blast+
qed

lemma written_inv:
  assumes "fresh_ids (en_sched env)" "ancs_inv (wc_request c # H) s" "held c s"
  shows "ancs_inv H (fst (written env c s))"
proof -
  obtain u b where r: "release_write c s = (u, b)" by fastforce
  note u = released_write_inv [OF assms(2,3) r]
  show ?thesis
  proof (cases "rq_action (wc_request c)")
    case (Some a)
    then show ?thesis using inv_report [OF u(1) Some] action_written_inv [OF finish_active_inv [OF u(1)] Some]
      by (simp add: written_def r)
  next
    case None
    then have h: "ancs_inv H u" by (rule inv_unhand [OF u(1)])
    show ?thesis
    proof (cases "is_current c u")
      case True
      then have "cl_active u \<noteq> None" "wc_generation c = cl_owner_gen u" by (auto simp: is_current_def split: option.splits)
      then have "ancs_inv H (start_timer env Request_timeout REQUEST_TIMEOUT_SECONDS u)"
        using u(2) by (intro inv_start_timer [OF h assms(1)]) simp_all
      then show ?thesis using True None by (simp add: written_def r)
    qed (use None h in \<open>simp add: written_def r\<close>)
  qed
qed

text \<open>A busy request goes back to the front of the queue, with a retry to its account.\<close>

lemma inv_put_back:
  assumes "ancs_inv (wc_request c # H) s" "cl_active s = Some rq" "\<not> rq_discarded rq" "rq_action rq = rq_action (wc_request c)"
    and "cl_timers s Request_timeout = None"
  shows "ancs_inv H (s\<lparr>cl_active := None, cl_queue := (cl_queue s)\<lparr>rb_queue :=
    (k, rq\<lparr>rq_busy_retries := rq_busy_retries rq + 1\<rparr>) # queued s\<rparr>\<rparr>)" (is "ancs_inv H ?t")
proof -
  let ?rq = "rq\<lparr>rq_busy_retries := rq_busy_retries rq + 1\<rparr>"
  have same: "\<exists>y \<in> requests (wc_request c # H) s. rq_id y = rq_id x \<and> rq_action y = rq_action x"
    if "x \<in> requests H ?t" for x
  proof (cases "x = ?rq")
    case True
    then show ?thesis using assms(2) by (intro bexI [of _ rq]) (simp_all add: requests_def)
  next
    case False
    then have "x \<in> requests (wc_request c # H) s" using that by (auto simp: requests_def)
    then show ?thesis by blast
  qed
  have "coherent H ?t" unfolding coherent_def
  proof (intro ballI conjI impI)
    fix x y assume "x \<in> requests H ?t" "y \<in> requests H ?t"
    then obtain x' y' where xy: "x' \<in> requests (wc_request c # H) s" "rq_id x' = rq_id x" "rq_action x' = rq_action x"
      "y' \<in> requests (wc_request c # H) s" "rq_id y' = rq_id y" "rq_action y' = rq_action y" using same by meson
    have co: "coherent (wc_request c # H) s" using assms(1) by (rule inv_coherent)
    show "rq_id x < cl_next ?t" using co xy(1,2) unfolding coherent_def by fastforce
    show "rq_id x = rq_id y \<Longrightarrow> rq_action x = rq_action y" using co xy unfolding coherent_def by metis
  qed
  moreover have "action_of j ?rq = action_of j (wc_request c)" for j using assms(4) by (simp add: action_of_def)
  then have "accounted H ?t"
    using assms(1) by (simp add: ancs_inv_def accounted_def queued_for_def written_for_def)
  moreover have "offers_ok ?t"
    using assms(1) by (simp add: ancs_inv_def offers_ok_def offer_ok_def split: option.split)
  moreover have "request_ok ?rq h = request_ok rq h" for h by (simp add: request_ok_def cong: option.case_cong)
  then have "content_ok ?t" using assms(1,2) by (simp add: ancs_inv_def content_ok_def)
  moreover have "pipeline_ok ?t" using assms(1,2,3) by (simp add: ancs_inv_def pipeline_ok_def)
  moreover have "serial ?t" "log_ok (log_of ?t)" "timers_ok ?t"
    using assms(1,5) by (simp_all add: ancs_inv_def serial_def timers_ok_def)
  ultimately show ?thesis by (simp add: ancs_inv_def)
qed

lemma retry_inv:
  assumes "fresh_ids (en_sched env)" "ancs_inv (wc_request c # H) s" "cl_active s = Some rq" "\<not> rq_discarded rq"
    and "rq_action rq = rq_action (wc_request c)" "cl_timers s Request_timeout = None" "rq_key rq \<in> rb_reserved (cl_queue s)"
  shows "ancs_inv H (retry_busy env rq s)"
proof -
  let ?t = "s\<lparr>cl_active := None, cl_queue := (cl_queue s)\<lparr>rb_queue :=
    (rq_key rq, rq\<lparr>rq_busy_retries := rq_busy_retries rq + 1\<rparr>) # queued s\<rparr>\<rparr>"
  have "ancs_inv H ?t" by (rule inv_put_back [OF assms(2-6)])
  moreover have "cl_timers s Busy_retry = None" using assms(2,3) by (auto simp: ancs_inv_def timers_ok_def)
  ultimately have "ancs_inv H (start_timer env Busy_retry CONTROL_POINT_BUSY_RETRY_SECONDS ?t)"
    by (intro inv_start_timer assms(1)) simp_all
  then show ?thesis using assms(7) by (simp add: retry_busy_def push_front_def)
qed

lemma request_timeout_kept [simp]:
  "cl_timers (observe_permission_error env e s) Request_timeout = cl_timers s Request_timeout"
  "cl_timers (abandon_request env rq s) Request_timeout = cl_timers s Request_timeout"
  by (simp_all add: observe_permission_error_def abandon_request_def schedule_authorization_retry_def callback_def Let_def
      split: option.split)

lemma write_failed_inv:
  assumes fr: "fresh_ids (en_sched env)" and s: "ancs_inv (wc_request c # H) s" "held c s" "client_good s"
  shows "ancs_inv H (fst (write_failed env c e s))"
proof -
  obtain u b where r: "release_write c s = (u, b)" by fastforce
  note u = released_write_inv [OF s(1,2) r]
  show ?thesis
  proof (cases "is_current c u")
    case False
    then show ?thesis using inv_unhand [OF u(1)] inv_report [OF u(1)]
      by (cases "rq_action (wc_request c)") (simp_all add: write_failed_def r)
  next
    case cur: True
    then obtain rq where a: "cl_active u = Some rq" by (auto simp: is_current_def split: option.splits)
    note act = current_action [OF u(1) cur a]
    have to: "cl_timers u Request_timeout = None" using u(2) act(2) by simp
    show ?thesis
    proof (cases "rq_discarded rq")
      case True
      have "request_ok rq (log_of u)" using u(1) a by (simp add: ancs_inv_def content_ok_def)
      then have "rq_action (wc_request c) = None" using True act(1) by (auto simp: request_ok_def split: option.splits)
      then have "ancs_inv H u" by (rule inv_unhand [OF u(1)])
      then show ?thesis using cur True fr by (simp add: write_failed_def r a Let_def)
    next
      case False
      have "rq_key rq \<in> rb_reserved (cl_queue u)" using active_reserved [OF s(3)] u(3,4) a False by simp
      from retry_inv [OF fr u(1) a False act(1) to this] have busy: "ancs_inv H (retry_busy env rq u)" .
      show ?thesis
      proof (cases "rq_action rq")
        case (Some x)
        then have "ancs_inv H (action_failed env x e (finish_active_request u))"
          using action_failed_inv [OF finish_active_inv [OF u(1)]] act(1) by simp
        then show ?thesis using cur False busy Some fr by (simp add: write_failed_def r a Let_def)
      next
        case None
        then have h: "ancs_inv H u" using inv_unhand [OF u(1)] act(1) by simp
        have "ancs_inv H ((abandon_request env rq (observe_permission_error env e u))\<lparr>cl_active := None\<rparr>)"
          by (rule inv_deactivate) (use h fr to in simp_all)
        then show ?thesis using cur False busy None fr h by (simp add: write_failed_def r a Let_def)
      qed
    qed
  qed
qed

lemma pump_inv:
  assumes "fresh_ids (en_sched env)"
  shows "client_good s \<Longrightarrow> ancs_inv H s \<Longrightarrow> ancs_inv H (pump_requests env s)"
  using assms
proof (induction env s rule: pump_requests.induct)
  case (1 env s)
  show ?case
  proof (cases "may_write s \<and> (\<exists>q rq. popleft (cl_queue s) = Inr (q, rq))")
    case True
    then obtain q rq where m: "may_write s" and p: "popleft (cl_queue s) = Inr (q, rq)" by blast
    obtain s1 c where b: "begin_write rq q s = (s1, c)" by fastforce
    note i = begin_inv [OF "1.prems"(2) m p b]
    show ?thesis
    proof (cases "en_write env (cl_hist s1)")
      case None
      then show ?thesis using inv_unanswered [OF i] m p b by (subst pump_requests.simps) simp
    next
      case (Some e)
      obtain s2 again where f: "write_failed env c e s1 = (s2, again)" by fastforce
      have "tracks s s1" using begin_tracks [OF p] m b by (simp add: may_write_def)
      then have g1: "client_good s1" using "1.prems"(1) by (rule good_tracks)
      then have g2: "client_good s2" using good_tracks [OF write_failed_tracks] f by (metis fst_conv)
      have i2: "ancs_inv H s2" using write_failed_inv [OF "1.prems"(3) i g1] f by (metis fst_conv)
      have "again \<Longrightarrow> ancs_inv H (pump_requests env s2)"
        using "1.IH" [of "(q, rq)" q rq s1 c e s2 again] m p b Some f g2 i2 "1.prems"(3) by simp
      then have "ancs_inv H (if again then pump_requests env s2 else s2)" using i2 by simp
      then show ?thesis using m p b Some f by (subst pump_requests.simps) simp
    qed
  next
    case False
    then have "pump_requests env s = s" by (subst pump_requests.simps) (auto split: sum.split prod.split)
    then show ?thesis using "1.prems"(2) by simp
  qed
qed

lemma write_reply_inv:
  assumes "fresh_ids (en_sched env)" "client_good s" "ancs_inv [] s" "c \<in> set (cl_writes s)"
  shows "ancs_inv [] (write_reply env c e s)"
proof -
  let ?s = "s\<lparr>cl_writes := remove1 c (cl_writes s)\<rparr>"
  let ?r = "case e of None \<Rightarrow> written env c ?s | Some err \<Rightarrow> write_failed env c err ?s"
  note i = inv_answered [OF assms(3,4)]
  have g: "client_good ?s" by (rule good_tracks [OF _ assms(2)]) (simp add: tracks_same)
  have "ancs_inv [] (fst ?r)" using written_inv [OF assms(1) i] write_failed_inv [OF assms(1) i g] by (cases e) simp_all
  moreover have "tracks ?s (fst ?r)" by (cases e) (simp_all add: written_tracks write_failed_tracks)
  then have "client_good (fst ?r)" using g by (rule good_tracks)
  ultimately have "ancs_inv [] (then_pump env ?r)" using pump_inv [OF assms(1)] by (cases ?r) (simp add: then_pump_def)
  then show ?thesis by (simp add: write_reply_def Let_def)
qed

section \<open>New requests\<close>

lemma coherent_insert:
  assumes "coherent H s" "rq_id rq = cl_next s" "requests K t = insert rq (requests H s)" "cl_next t = cl_next s + 1"
  shows "coherent K t"
  unfolding coherent_def assms(3,4)
proof (intro ballI conjI impI)
  have co: "\<And>x. x \<in> requests H s \<Longrightarrow> rq_id x < cl_next s"
    "\<And>x y. x \<in> requests H s \<Longrightarrow> y \<in> requests H s \<Longrightarrow> rq_id x = rq_id y \<Longrightarrow> rq_action x = rq_action y"
    using assms(1) unfolding coherent_def by blast+
  fix x y assume xy: "x \<in> insert rq (requests H s)" "y \<in> insert rq (requests H s)"
  show "rq_id x < cl_next s + 1" using xy(1) co(1) assms(2) by (auto intro: less_SucI)
  assume "rq_id x = rq_id y"
  then show "rq_action x = rq_action y" using xy co assms(2) by (metis insertE less_irrefl)
qed

text \<open>A new request, numbered with the counter, is in hand until it is queued.\<close>

lemma inv_new:
  assumes "ancs_inv H s" "rq_action rq = None" "rq_id rq = cl_next s"
  shows "ancs_inv (rq # H) (fresh s)"
proof -
  let ?t = "fresh s"
  have f: "queued ?t = queued s" "cl_active ?t = cl_active s" "cl_writes ?t = cl_writes s" "cl_next ?t = cl_next s + 1"
    "cl_write_token ?t = cl_write_token s" "cl_owner_gen ?t = cl_owner_gen s" "cl_actionable ?t = cl_actionable s"
    "cl_next_action ?t = cl_next_action s" "cl_pending_lookups ?t = cl_pending_lookups s" "cl_timers ?t = cl_timers s"
    "cl_hist ?t = cl_hist s" "log_of ?t = log_of s" by (simp_all add: fresh_def)
  have "requests (rq # H) ?t = insert rq (requests H s)" unfolding requests_def f by auto
  then have "coherent (rq # H) ?t" using coherent_insert [OF inv_coherent [OF assms(1)] assms(3)] f(4) by blast
  moreover have "\<not> action_of k rq" for k using assms(2) by (simp add: action_of_def)
  then have "accounted (rq # H) ?t"
    using assms(1) by (simp add: ancs_inv_def accounted_def queued_for_def written_for_def f)
  moreover have "serial ?t" using assms(1) unfolding serial_def f by (auto simp: ancs_inv_def serial_def less_SucI)
  moreover have "offers_ok ?t" using assms(1) by (simp add: ancs_inv_def offers_ok_def f)
  moreover have "content_ok ?t" using assms(1) by (simp add: ancs_inv_def content_ok_def f)
  moreover have "pipeline_ok ?t" using assms(1) by (simp add: ancs_inv_def pipeline_ok_def f)
  moreover have "log_ok (log_of ?t)" "timers_ok ?t" using assms(1) by (simp_all add: ancs_inv_def timers_ok_def f)
  ultimately show ?thesis by (simp add: ancs_inv_def)
qed

text \<open>What a request must satisfy to be queued.\<close>

definition queueable :: "pending_request \<Rightarrow> ancs_call list \<Rightarrow> bool" where
  "queueable rq h \<longleftrightarrow> proper rq \<and> request_ok rq h \<and> offer_ok rq h \<and>
     (\<forall>n. rq_notification rq = Some n \<longrightarrow> alive (n_id n) h)"

lemma inv_queue:
  assumes "ancs_inv (rq # H) s" "queueable rq (log_of s)" "enqueue k rq front (cl_queue s) = (q, True)"
  shows "ancs_inv H (s\<lparr>cl_queue := q\<rparr>)"
proof -
  let ?t = "s\<lparr>cl_queue := q\<rparr>"
  have q: "set (rb_queue q) = insert (k, rq) (set (queued s))"
    and n: "length (filter P (rb_queue q)) = (if P (k, rq) then 1 else 0) + length (filter P (queued s))" for P
    using assms(3) by (auto simp: enqueue_def split: if_splits)
  have "requests H ?t \<subseteq> requests (rq # H) s" unfolding requests_def using q by auto
  then have "coherent H ?t" using coherent_sub [OF inv_coherent [OF assms(1)]] by simp
  moreover have "accounted H ?t"
    using assms(1) by (simp add: ancs_inv_def accounted_def queued_for_def written_for_def n)
  moreover have "offers_ok ?t" using assms(1,2) by (simp add: ancs_inv_def offers_ok_def q queueable_def)
  moreover have "content_ok ?t" using assms(1,2) by (simp add: ancs_inv_def content_ok_def q queueable_def)
  moreover have "pipeline_ok ?t" using assms(1,2) by (simp add: ancs_inv_def pipeline_ok_def q queueable_def)
  moreover have "serial ?t" "log_ok (log_of ?t)" "timers_ok ?t"
    using assms(1) by (simp_all add: ancs_inv_def serial_def timers_ok_def)
  ultimately show ?thesis by (simp add: ancs_inv_def)
qed

lemma queue_pump_inv:
  assumes "fresh_ids (en_sched env)" "client_good s" "ancs_inv H s" "rq_action rq = None" "rq_id rq = cl_next s"
    and "queueable rq (log_of s)" "enqueue (rq_key rq) rq front (cl_queue s) = (q, True)"
  shows "ancs_inv H (pump_requests env ((fresh s)\<lparr>cl_queue := q\<rparr>))"
proof (rule pump_inv [OF assms(1)])
  have f: "cl_queue (fresh s) = cl_queue s" "log_of (fresh s) = log_of s" "cl_active (fresh s) = cl_active s"
    by (simp_all add: fresh_def)
  show "ancs_inv H ((fresh s)\<lparr>cl_queue := q\<rparr>)"
    by (rule inv_queue [OF inv_new [OF assms(3-5)]]) (use assms(6,7) f in simp_all)
  have "tracks s ((fresh s)\<lparr>cl_queue := q\<rparr>)"
    using assms(6,7) f by (intro enqueue_tracks [where rq = rq]) (auto simp: queueable_def)
  then show "client_good ((fresh s)\<lparr>cl_queue := q\<rparr>)" using assms(2) by (rule good_tracks)
qed

lemma inv_fresh: "ancs_inv H s \<Longrightarrow> ancs_inv H (fresh s)"
proof -
  let ?rq = "new_request Authorization_key [] None s"
  assume "ancs_inv H s"
  from inv_new [OF this, of ?rq] have "ancs_inv (?rq # H) (fresh s)" by (simp add: new_request_def)
  then show ?thesis by (rule inv_unhand) (simp add: new_request_def)
qed

lemma enqueue_fresh_inv:
  assumes "fresh_ids (en_sched env)" "client_good s" "ancs_inv H s" "rq_action rq = None" "rq_id rq = cl_next s"
    and "queueable rq (log_of s)"
  shows "ancs_inv H (enqueue_request env rq (fresh s))"
proof -
  obtain q ok where e: "enqueue (rq_key rq) rq False (cl_queue s) = (q, ok)" by fastforce
  have "cl_queue (fresh s) = cl_queue s" by (simp add: fresh_def)
  then show ?thesis using queue_pump_inv [OF assms, of False q] inv_fresh [OF assms(3)] e
    by (cases ok) (simp_all add: enqueue_request_def)
qed

lemma authorization_queueable: "queueable (authorization_request s) h"
  by (simp add: queueable_def authorization_request_def new_request_def request_ok_def offer_ok_def proper_def) blast

lemma new_request_id [simp]: "rq_id (new_request k p a s) = cl_next s" "rq_action (new_request k p a s) = None"
  "rq_id (authorization_request s) = cl_next s" "rq_action (authorization_request s) = None"
  by (simp_all add: new_request_def authorization_request_def)

lemma probe_inv [simp]:
  assumes "fresh_ids (en_sched env)" "client_good s" "ancs_inv H s"
  shows "ancs_inv H (queue_authorization_probe env force s)"
  using enqueue_fresh_inv [OF assms _ _ authorization_queueable] assms(3) by (simp add: queue_authorization_probe_def)

lemma probe_health_inv [simp]:
  "fresh_ids (en_sched env) \<Longrightarrow> client_good s \<Longrightarrow> ancs_inv H s \<Longrightarrow> ancs_inv H (probe_health env s)"
  by (simp add: probe_health_def)

lemma request_attrs_inv:
  assumes "fresh_ids (en_sched env)" "client_good s" "ancs_inv H s" "alive (n_id n) (log_of s)"
  shows "ancs_inv H (request_attrs env n s)"
  unfolding request_attrs_def
  by (rule enqueue_fresh_inv [OF assms(1-3)])
    (use assms(4) in \<open>simp_all add: queueable_def request_ok_def offer_ok_def proper_def new_request_def assembler_def\<close>)

lemma request_full_inv:
  assumes "fresh_ids (en_sched env)" "client_good s" "ancs_inv H s" "alive (n_id n) (log_of s)" "admitted app (log_of s)"
  shows "ancs_inv H (request_full_attrs env n app s)"
  unfolding request_full_attrs_def Let_def
  by (rule enqueue_fresh_inv [OF assms(1-3)])
    (use assms(4,5) in \<open>simp_all add: queueable_def request_ok_def offer_ok_def proper_def new_request_def assembler_def\<close>)

section \<open>Data Source\<close>

lemma inv_waiting:
  assumes "ancs_inv H s" "\<And>a. a \<in> waiting (s\<lparr>cl_pending_lookups := ls\<rparr>) \<Longrightarrow> alive (na_id a) (log_of s)"
  shows "ancs_inv H (s\<lparr>cl_pending_lookups := ls\<rparr>)"
proof -
  let ?t = "s\<lparr>cl_pending_lookups := ls\<rparr>"
  have "\<forall>p \<in> set ls. \<forall>a \<in> set (snd p). alive (na_id a) (log_of s)" using assms(2) by (auto simp: waiting_def)
  then have "pipeline_ok ?t" using assms(1) by (simp add: ancs_inv_def pipeline_ok_def)
  moreover have "serial ?t = serial s" "coherent H ?t = coherent H s" "accounted H ?t = accounted H s"
    "offers_ok ?t = offers_ok s" "content_ok ?t = content_ok s" "timers_ok ?t = timers_ok s"
    by (simp_all add: serial_def coherent_def requests_def accounted_def queued_for_def written_for_def offers_ok_def
        content_ok_def timers_ok_def)
  ultimately show ?thesis using assms(1) by (simp add: ancs_inv_def)
qed

lemma waiting_set: "waiting (s\<lparr>cl_pending_lookups := al_set app as (cl_pending_lookups s)\<rparr>) \<subseteq> set as \<union> waiting s"
proof -
  have "set (al_set app as xs) \<subseteq> insert (app, as) (set xs)" for xs :: "(pystr \<times> NotificationAttributes list) list"
    by (induction xs) (auto split: if_splits)
  then show ?thesis by (fastforce simp: waiting_def)
qed

lemma inv_wait:
  assumes "ancs_inv H s" "\<And>a. a \<in> set as \<Longrightarrow> alive (na_id a) (log_of s)"
  shows "ancs_inv H (s\<lparr>cl_pending_lookups := al_set app as (cl_pending_lookups s)\<rparr>)"
  using assms waiting_set [of app as s] waiting_alive [OF assms(1)] by (intro inv_waiting) blast+

lemma lookups_alive: "ancs_inv H s \<Longrightarrow> a \<in> set (dict_get app [] (cl_pending_lookups s)) \<Longrightarrow> alive (na_id a) (log_of s)"
  by (rule waiting_alive [OF _ dict_get_waiting])

text \<open>A refused name request writes nothing.\<close>

lemma request_name_inv:
  assumes "fresh_ids (en_sched env)" "client_good s" "ancs_inv H s" "request_app_name env app s = (t, ok)"
  shows "ancs_inv H t" "\<not> ok \<Longrightarrow> log_of t = log_of s \<and> cl_pending_lookups t = cl_pending_lookups s"
proof -
  let ?rq = "new_request (App_key app) (packet_of (build_get_app_attributes app))
    (Some (assembler GetAppAttributes [0] None (Some app))) s"
  let ?L = "\<lambda>x. x\<lparr>cl_lookup_requested := insert app (cl_lookup_requested s)\<rparr>"
  obtain q k where e: "enqueue (rq_key ?rq) ?rq False (cl_queue s) = (q, k)" by fastforce
  have qa: "queueable ?rq (log_of s)"
    by (simp add: queueable_def proper_def request_ok_def offer_ok_def new_request_def) blast
  have g: "client_good (?L s)" "ancs_inv H (?L s)" using assms(2,3) by (auto intro: good_tracks [OF tracks_same])
  have rq: "new_request k p a (?L s) = new_request k p a s" for k p a by (simp add: new_request_def)
  have "ancs_inv H (pump_requests env ((fresh (?L s))\<lparr>cl_queue := q\<rparr>))" if k
    by (rule queue_pump_inv [OF assms(1) g, where rq = ?rq and front = False]) (use qa e that in simp_all)
  moreover have "(fresh (?L s))\<lparr>cl_queue := q\<rparr> = (fresh s)\<lparr>cl_queue := q, cl_lookup_requested := insert app (cl_lookup_requested s)\<rparr>"
    by (simp add: fresh_def)
  ultimately show "ancs_inv H t" using assms(3,4) e inv_fresh [OF assms(3)]
    by (auto simp: request_app_name_def Let_def split: if_splits)
  show "\<not> ok \<Longrightarrow> log_of t = log_of s \<and> cl_pending_lookups t = cl_pending_lookups s"
    using assms(4) e by (auto simp: request_app_name_def Let_def fresh_def split: if_splits)
qed

lemma handle_notification_inv:
  assumes "fresh_ids (en_sched env)" "client_good s" "ancs_inv H s" "alive (na_id attrs) (log_of s)"
  shows "ancs_inv H (handle_notification_attrs env attrs s)"
proof -
  let ?app = "na_app_id attrs"
  let ?w = "dict_get ?app [] (cl_pending_lookups s)"
  let ?u = "s\<lparr>cl_pending_lookups := al_set ?app (?w @ [attrs]) (cl_pending_lookups s)\<rparr>"
  have w: "alive (na_id a) (log_of s)" if "a \<in> set (?w @ [attrs])" for a
    using that lookups_alive [OF assms(3)] assms(4) by auto
  have u: "ancs_inv H ?u" by (rule inv_wait [OF assms(3) w])
  have gu: "client_good ?u" by (rule good_tracks [OF tracks_same assms(2)]) simp_all
  obtain v ok where r: "request_app_name env ?app ?u = (v, ok)" by fastforce
  note v = request_name_inv [OF assms(1) gu u r]
  have lists: "alive (na_id a) (log_of v)" if "\<not> ok" "a \<in> set (remove1 attrs (dict_get ?app [] (cl_pending_lookups v)))" for a
    using lookups_alive [OF v(1)] notin_set_remove1 that by metis
  have pop: "ancs_inv H (v\<lparr>cl_pending_lookups := al_pop ?app (cl_pending_lookups v)\<rparr>)"
    using v(1) by (rule inv_pending) (auto simp: waiting_def al_pop_def)
  have set: "ancs_inv H (v\<lparr>cl_pending_lookups := al_set ?app (remove1 attrs (dict_get ?app [] (cl_pending_lookups v))) (cl_pending_lookups v)\<rparr>)"
    if "\<not> ok" using lists that by (intro inv_wait [OF v(1)]) blast
  have full: "ancs_inv H (emit env attrs ?app (s\<lparr>cl_pending_lookups := al_set ?app ?w (cl_pending_lookups s)\<rparr>))"
    by (rule emit_inv [OF inv_wait [OF assms(3)]]) (use w assms(4) in auto)
  have refused: "ancs_inv H (emit env attrs ?app (v\<lparr>cl_pending_lookups :=
      (if remove1 attrs (dict_get ?app [] (cl_pending_lookups v)) = [] then al_pop ?app (cl_pending_lookups v)
       else al_set ?app (remove1 attrs (dict_get ?app [] (cl_pending_lookups v))) (cl_pending_lookups v))\<rparr>))" if "\<not> ok"
    by (rule emit_inv) (use pop set that v(2) assms(4) in auto)
  consider (messages) "?app = MESSAGES_BUNDLE"
    | (named) x where "?app \<noteq> MESSAGES_BUNDLE" "map_of (cl_app_names s) ?app = Some x"
    | (full) "?app \<noteq> MESSAGES_BUNDLE" "map_of (cl_app_names s) ?app = None" "MAX_ANCS_PENDING_PER_APP \<le> length ?w"
    | (ask) "?app \<noteq> MESSAGES_BUNDLE" "map_of (cl_app_names s) ?app = None" "\<not> MAX_ANCS_PENDING_PER_APP \<le> length ?w"
    by (cases "map_of (cl_app_names s) ?app") blast+
  then show ?thesis
  proof cases
    case messages
    then show ?thesis using assms(3,4) by (simp add: handle_notification_attrs_def Let_def emit_inv)
  next
    case named
    have "ancs_inv H (emit env attrs x (s\<lparr>cl_app_names := ns\<rparr>))" for ns
      by (rule emit_inv) (use assms(3,4) in \<open>simp_all add: log_of_def\<close>)
    then show ?thesis using named by (simp add: handle_notification_attrs_def Let_def)
  next
    case ask
    then show ?thesis using v(1) refused r by (cases ok) (simp_all add: handle_notification_attrs_def Let_def)
  qed (use full in \<open>simp add: handle_notification_attrs_def Let_def\<close>)
qed

lemma app_probed_inv:
  assumes "fresh_ids (en_sched env)" "client_good s" "ancs_inv H s" "alive (n_id n) (log_of s)"
  shows "ancs_inv H (app_probed env n uid app s)"
proof -
  let ?t = "\<lambda>b. (cl_call (Asked_app app b) s)\<lparr>cl_observed_apps := od_put MAX_ANCS_APP_CACHE app () (cl_observed_apps (cl_call (Asked_app app b) s))\<rparr>"
  have t: "ancs_inv H (?t b)" for b using assms(3) by (simp add: inv_call)
  have g: "client_good (?t b)" for b by (rule good_tracks [OF tracks_same assms(2)]) simp_all
  have l: "log_of (?t b) = Asked_app app b # log_of s" for b by (simp add: log_of_def cl_call_def)
  have "ancs_inv H (request_full_attrs env n app (?t True))"
    by (rule request_full_inv [OF assms(1) g t]) (use assms(4) in \<open>simp_all add: l admitted_def\<close>)
  moreover have "ancs_inv H (request_full_attrs env n app s)" if "app = MESSAGES_BUNDLE"
    by (rule request_full_inv [OF assms]) (simp add: admitted_def that)
  ultimately show ?thesis using assms(3) t [of False]
    by (cases "en_include_app env (cl_hist s) app") (simp_all add: app_probed_def Let_def)
qed

lemma feed_assembler: "feed a v = (a', r) \<Longrightarrow> das_command a' = das_command a \<and> das_notification_id a' = das_notification_id a"
  by (auto simp: feed_def Let_def)

lemma feed_uid:
  assumes "feed a v = (a', Inr (Some data))" "das_command a = GetNotificationAttributes" "das_notification_id a = Some (int u)"
    and "DataSourceEvent_parse data = Inr ev"
  shows "u32_le (ds_body ev) = u"
proof -
  let ?a = "a\<lparr>das_buffer := das_buffer a @ v\<rparr>"
  obtain k where c: "complete_length ?a = Inr (Some k)" and d: "data = das_buffer ?a"
    using assms(1) by (auto simp: feed_def Let_def split: if_splits sum.splits option.splits)
  obtain b bs where bs: "data = b # bs" "ds_body ev = bs" using assms(4) by (auto simp: DataSourceEvent_parse_def split: list.splits)
  have "das_buffer ?a = b # bs" using bs(1) d by simp
  then show ?thesis using c assms(2,3) bs(2) unfolding complete_length_def by (auto simp: Let_def split: if_splits)
qed

lemma attributes_uid: "NotificationAttributes_parse body ids = Inr attrs \<Longrightarrow> na_id attrs = u32_le body"
  by (auto simp: NotificationAttributes_parse_def Let_def split: if_splits sum.splits)

lemma handle_app_inv [simp]: "ancs_inv H s \<Longrightarrow> ancs_inv H (handle_app_attrs env app s)"
  by (simp add: handle_app_attrs_def Let_def flush_inv)

lemma ds_complete_inv:
  assumes "fresh_ids (en_sched env)" "client_good s" "ancs_inv H s"
    and "\<And>n. rq_notification rq = Some n \<Longrightarrow> alive (n_id n) (log_of s)"
    and "\<And>n ev. rq_notification rq = Some n \<Longrightarrow> DataSourceEvent_parse data = Inr ev \<Longrightarrow> u32_le (ds_body ev) = n_id n"
  shows "ancs_inv H (ds_complete env rq data s)"
proof (cases "DataSourceEvent_parse data")
  case (Inr ev)
  have ab: "ancs_inv H (abandon_request env rq s)" using assms(1,3) by simp
  consider (notification) n where "ds_type ev = GetNotificationAttributes" "rq_notification rq = Some n"
    | (stray) "ds_type ev = GetNotificationAttributes" "rq_notification rq = None"
    | (app) "ds_type ev = GetAppAttributes" "ds_type ev \<noteq> GetNotificationAttributes"
    | (other) "ds_type ev \<noteq> GetAppAttributes" "ds_type ev \<noteq> GetNotificationAttributes" by fastforce
  then show ?thesis
  proof cases
    case notification
    have al: "alive (n_id n) (log_of s)" by (rule assms(4) [OF notification(2)])
    have "ancs_inv H (app_probed env n uid a s)" for uid a by (rule app_probed_inv [OF assms(1-3) al])
    moreover have "ancs_inv H (handle_notification_attrs env attrs s)"
      if "NotificationAttributes_parse (ds_body ev) (rq_label_ids rq) = Inr attrs" for attrs
      by (rule handle_notification_inv [OF assms(1-3)])
        (use attributes_uid [OF that] assms(5) [OF notification(2) Inr] al in simp)
    ultimately show ?thesis using notification Inr ab assms(3)
      by (auto simp: ds_complete_def split: sum.split prod.split)
  next
    case app
    then show ?thesis using Inr ab assms(1,3) by (simp add: ds_complete_def split: sum.split)
  qed (use Inr assms(3) in \<open>simp_all add: ds_complete_def\<close>)
qed (use assms(1,3) in \<open>simp add: ds_complete_def\<close>)

lemma inv_reassembled:
  assumes "ancs_inv H s" "cl_active s = Some rq" "rq_assembler rq = Some a" "feed a v = (a', r)"
  shows "ancs_inv H (s\<lparr>cl_active := Some (rq\<lparr>rq_assembler := Some a'\<rparr>)\<rparr>)"
proof -
  let ?rq = "rq\<lparr>rq_assembler := Some a'\<rparr>"
  have "request_ok rq h \<Longrightarrow> request_ok ?rq h" for h
    using assms(3) feed_assembler [OF assms(4)] by (auto simp: request_ok_def split: option.splits)
  then show ?thesis using assms(2)
    by (intro inv_quiet [OF assms(1)]) (auto simp: shrunk_def waiting_def queued_for_def active_le_def
        intro: timers_same [OF inv_timers_ok [OF assms(1)]])
qed

lemma on_ds_inv:
  assumes fr: "fresh_ids (en_sched env)" and s: "client_good s" "ancs_inv H s"
  shows "ancs_inv H (on_ds_changed env value s)"
proof (cases "\<exists>rq a. cl_active s = Some rq \<and> rq_assembler rq = Some a")
  case False
  then show ?thesis using s(2) by (simp add: on_ds_changed_def split: option.split)
next
  case True
  then obtain rq a where a: "cl_active s = Some rq" "rq_assembler rq = Some a" by blast
  obtain a' r where f: "feed a value = (a', r)" by fastforce
  let ?rq = "rq\<lparr>rq_assembler := Some a'\<rparr>"
  let ?s = "s\<lparr>cl_active := Some ?rq\<rparr>"
  let ?t = "finish_active_request ?s"
  have i: "ancs_inv H ?s" by (rule inv_reassembled [OF s(2) a f])
  have t: "ancs_inv H ?t" using i by simp
  have "tracks s ?s" using a(1) by (auto simp: tracks_def keys_ok_def backlog_view_def flying_def)
  then have g: "client_good ?t" using s(1) good_tracks finish_active_tracks tracks_trans by meson
  have k: "rq_key ?rq \<notin> rb_reserved (cl_queue ?t)" by (rule finish_active_key) simp
  have ab: "ancs_inv H (pump_requests env (abandon_request env ?rq ?t))"
    by (rule pump_inv [OF fr good_tracks [OF abandoned_tracks [OF k] g]]) (use fr t in simp)
  have fin: "ancs_inv H (pump_requests env ?t)" by (rule pump_inv [OF fr g t])
  have "ancs_inv H (ds_complete env ?rq data ?t)" if d: "r = Inr (Some data)" "\<not> rq_discarded rq" for data
  proof (rule ds_complete_inv [OF fr g t])
    fix n assume n: "rq_notification ?rq = Some n"
    have "alive (n_id n) (log_of s)" using s(2) a(1) n d(2) by (simp add: ancs_inv_def pipeline_ok_def)
    then show "alive (n_id n) (log_of ?t)" by simp
    have "request_ok rq (log_of s)" using s(2) a(1) by (simp add: ancs_inv_def content_ok_def)
    then have "das_command a = GetNotificationAttributes" "das_notification_id a = Some (int (n_id n))"
      using n a(2) by (auto simp: request_ok_def split: option.splits)
    then show "DataSourceEvent_parse data = Inr ev \<Longrightarrow> u32_le (ds_body ev) = n_id n" for ev
      using feed_uid f d(1) by blast
  qed
  then have "ancs_inv H (pump_requests env (ds_complete env ?rq data ?t))" if "r = Inr (Some data)" "\<not> rq_discarded rq" for data
    by (intro pump_inv [OF fr good_tracks [OF ds_complete_tracks [OF k] g]]) (use that in blast)
  then show ?thesis using i ab fin a f by (simp add: on_ds_changed_def Let_def split: sum.split option.split)
qed

section \<open>Notification Source\<close>

lemma discard_call: "discard_notification_requests uid (cl_call e s) = cl_call e (discard_notification_requests uid s)"
  by (simp add: discard_notification_requests_def discard_active_def cl_call_def Let_def split: option.split)

text \<open>The code records a removal before it discards what belongs to the notification; the order does not matter.\<close>

lemma removed_inv:
  assumes "ancs_inv H s" "int (n_id n) \<notin> fst ` set (cl_actionable s)"
    and "\<And>p a. p \<in> set (queued s) \<Longrightarrow> rq_action (snd p) = Some a \<Longrightarrow> ar_uid a \<noteq> int (n_id n)"
  shows "ancs_inv H (discard_notification_requests (Some (n_id n)) (cl_call (Announced n) s))"
  unfolding discard_call
proof (rule inv_announced)
  let ?t = "discard_notification_requests (Some (n_id n)) s"
  show "ancs_inv H ?t" using assms(1) by simp
  show "int (n_id n) \<notin> fst ` set (cl_actionable ?t)" using assms(2) by simp
  show "n_id n \<notin> pipeline_uids ?t" using discard_uids [of "Some (n_id n)" s] by auto
qed (use assms(3) in auto)

lemma on_ns_inv:
  assumes fr: "fresh_ids (en_sched env)" and s: "client_good s" "ancs_inv H s"
  shows "ancs_inv H (on_ns_changed env value s)"
proof (cases "Notification_parse value")
  case (Inr n)
  define u where "u = forget_actionable env (int (n_id n)) (report_call_activity env n s)"
  note ui = forget_actionable_inv [OF call_activity_inv [OF s(2)] u_def]
  let ?t = "cl_call (Announced n) u"
  have "tracks (report_call_activity env n s) u" unfolding u_def by simp
  then have "tracks (report_call_activity env n s) ?t" by (rule tracks_then) simp_all
  then have "tracks s ?t" by (rule tracks_after) simp_all
  then have g: "client_good ?t" using s(1) by (rule good_tracks)
  have rem: "ancs_inv H (discard_notification_requests (Some (n_id n)) ?t)" by (rule removed_inv [OF ui])
  have t: "ancs_inv H ?t" if "n_type n \<noteq> NotificationRemoved"
    by (rule inv_announced [OF ui]) (use that in simp_all)
  let ?p = "if cl_actionable ?t \<noteq> [] then reset_actions env ?t else ?t"
  have pre: "ancs_inv H (if cl_live_seen ?p then end_session env ?p else ?p)" if "n_type n \<noteq> NotificationRemoved"
    using t [OF that] by simp
  have new: "ancs_inv H (request_attrs env n (?t\<lparr>cl_live_seen := True, cl_categories := cs\<rparr>))"
    if "n_type n \<noteq> NotificationRemoved" "\<not> is_preexisting n" for cs
  proof (rule request_attrs_inv [OF fr])
    show "client_good (?t\<lparr>cl_live_seen := True, cl_categories := cs\<rparr>)" by (rule good_tracks [OF tracks_same g]) simp_all
    show "ancs_inv H (?t\<lparr>cl_live_seen := True, cl_categories := cs\<rparr>)" using t that(1) by simp
    show "alive (n_id n) (log_of (?t\<lparr>cl_live_seen := True, cl_categories := cs\<rparr>))" using that by (simp add: log_of_def cl_call_def)
  qed
  show ?thesis using rem pre new unfolding on_ns_changed_def Inr sum.case Let_def u_def [symmetric]
    by (simp add: inv_callback)
qed (use s(2) in \<open>simp add: on_ns_changed_def\<close>)

section \<open>Timeouts, refresh, actions\<close>

lemma refresh_failed_inv [simp]:
  "fresh_ids (en_sched env) \<Longrightarrow> ancs_inv H s \<Longrightarrow> ancs_inv H (refresh_failed env token g e s)"
  by (simp add: refresh_failed_def Let_def)

lemma start_toggle_inv [simp]:
  "fresh_ids (en_sched env) \<Longrightarrow> ancs_inv H s \<Longrightarrow> ancs_inv H (start_toggle env c s)"
  by (simp add: start_toggle_def Let_def inv_call split: option.split)

lemma toggle_stopped_inv [simp]:
  "fresh_ids (en_sched env) \<Longrightarrow> ancs_inv H s \<Longrightarrow> ancs_inv H (toggle_stopped env c s)"
  by (simp add: toggle_stopped_def Let_def)

lemma toggle_stop_failed_inv [simp]:
  "fresh_ids (en_sched env) \<Longrightarrow> ancs_inv H s \<Longrightarrow> ancs_inv H (toggle_stop_failed env c e s)"
  by (simp add: toggle_stop_failed_def)

lemma toggle_notify_inv [simp]:
  "fresh_ids (en_sched env) \<Longrightarrow> ancs_inv H s \<Longrightarrow> ancs_inv H (toggle_notify env c s)"
  by (simp add: toggle_notify_def Let_def inv_call split: option.split)

lemma refresh_done_inv:
  assumes "fresh_ids (en_sched env)" "client_good s" "ancs_inv H s"
  shows "ancs_inv H (refresh_done env s)"
proof -
  let ?t = "reset_actions env (s\<lparr>cl_notify_refresh := None\<rparr>)"
  let ?rq = "authorization_request ?t"
  have t: "ancs_inv H ?t" using assms(3) by simp
  have g: "client_good ?t" by (rule good_tracks [OF tracks_after [OF reset_actions_tracks] assms(2)]) simp_all
  obtain q ok where e: "enqueue (rq_key ?rq) ?rq True (cl_queue ?t) = (q, ok)" by fastforce
  have "ancs_inv H (pump_requests env ((fresh ?t)\<lparr>cl_queue := q\<rparr>))"
  proof (cases ok)
    case True
    then show ?thesis using queue_pump_inv [OF assms(1) g t _ _ authorization_queueable] e by simp
  next
    case False
    then have q: "q = cl_queue ?t" using e by (auto simp: enqueue_def split: if_splits)
    then have "(fresh ?t)\<lparr>cl_queue := q\<rparr> = fresh ?t" by (simp add: fresh_def)
    moreover have "client_good (fresh ?t)" by (rule good_tracks [OF tracks_same g]) (simp_all add: fresh_def)
    ultimately show ?thesis using pump_inv [OF assms(1)] inv_fresh [OF t] by simp
  qed
  moreover have "ancs_inv H (escalate_unresponsive_transport env (fresh ?t))" using assms(1) inv_fresh [OF t] by simp
  ultimately show ?thesis unfolding refresh_done_def Let_def e prod.case by simp
qed

lemma next_path_inv:
  "fresh_ids (en_sched env) \<Longrightarrow> client_good s \<Longrightarrow> ancs_inv H s \<Longrightarrow> ancs_inv H (next_path env token g paths s)"
  by (simp add: next_path_def refresh_done_inv split: list.split)

lemma notify_reply_inv:
  assumes "fresh_ids (en_sched env)" "client_good s" "ancs_inv H s"
  shows "ancs_inv H (notify_reply env c e s)"
proof -
  let ?s = "s\<lparr>cl_notifies := remove1 c (cl_notifies s)\<rparr>"
  have "ancs_inv H (toggle_started env c ?s)" unfolding toggle_started_def Let_def
    by (rule next_path_inv [OF assms(1) good_tracks [OF tracks_same assms(2)]]) (use assms(3) in simp_all)
  then show ?thesis using assms(1,3) by (simp add: notify_reply_def Let_def split: option.split)
qed

lemma refresh_inv:
  assumes "fresh_ids (en_sched env)" "client_good s" "ancs_inv H s"
  shows "ancs_inv H (refresh_notifications env s)"
proof -
  let ?a = "s\<lparr>cl_notify_refreshes := cl_notify_refreshes s + 1\<rparr>"
  let ?t = "end_session env (finish_active_request ?a)"
  have "tracks ?a ?t" by (rule tracks_trans [OF finish_active_tracks end_session_tracks])
  then have "tracks s ?t" by (rule tracks_after) simp_all
  then have t: "tracks s ((fresh ?t)\<lparr>cl_notify_refresh := x\<rparr>)" for x by (rule tracks_then) (simp_all add: fresh_def)
  show ?thesis unfolding refresh_notifications_def Let_def
    by (rule next_path_inv [OF assms(1) good_tracks [OF t assms(2)]]) (use assms(3) in \<open>simp add: inv_fresh\<close>)
qed

lemma timed_out_inv:
  assumes "fresh_ids (en_sched env)" "client_good s" "ancs_inv H s" "cl_timers s Request_timeout = None"
  shows "ancs_inv H (request_timed_out env s)"
proof (cases "cl_active s")
  case None
  then show ?thesis using pump_inv [OF assms(1-3)] by (simp add: request_timed_out_def)
next
  case (Some rq)
  have "ancs_inv H ((abandon_request env rq s)\<lparr>cl_active := None\<rparr>)"
    by (rule inv_deactivate) (use assms in simp_all)
  then have "ancs_inv H (pump_requests env ((abandon_request env rq s)\<lparr>cl_active := None\<rparr>))"
    by (rule pump_inv [OF assms(1) good_tracks [OF abandon_tracks [OF Some] assms(2)]])
  then show ?thesis using refresh_inv [OF assms(1-3)] assms(1,3) by (simp add: request_timed_out_def Some)
qed

text \<open>A click, counted and in hand.\<close>

lemma inv_click:
  assumes "ancs_inv [] s" "rq_action rq = Some a" "ar_result a = k" "rq_id rq = cl_next s"
  shows "ancs_inv [rq] (fresh (clicked k s))"
proof -
  let ?t = "fresh (clicked k s)"
  let ?es = "case k of None \<Rightarrow> [] | Some k \<Rightarrow> [Clicked k]"
  have f: "queued ?t = queued s" "cl_active ?t = cl_active s" "cl_writes ?t = cl_writes s" "cl_next ?t = cl_next s + 1"
    "cl_write_token ?t = cl_write_token s" "cl_owner_gen ?t = cl_owner_gen s" "cl_actionable ?t = cl_actionable s"
    "cl_next_action ?t = cl_next_action s" "cl_pending_lookups ?t = cl_pending_lookups s" "cl_timers ?t = cl_timers s"
    "live (cl_hist ?t) = live (cl_hist s)" "log_of ?t = ?es @ log_of s"
    by (simp_all add: fresh_def clicked_def split: option.split)
  have e: "standing u t (?es @ h) = standing u t h" "alive m (?es @ h) = alive m h" "log_ok (?es @ h) = log_ok h"
    "request_ok x h \<Longrightarrow> request_ok x (?es @ h)" "offer_ok x (?es @ h) = offer_ok x h"
    "clicks j (?es @ h) = (if action_of j rq then 1 else 0) + clicks j h" "results j (?es @ h) = results j h" for u t m x h j
    using assms(2,3) by (auto simp: action_of_def offer_ok_def request_ok_mono split: option.split)
  have "requests [rq] ?t = insert rq (requests [] s)" unfolding requests_def f by auto
  then have "coherent [rq] ?t" using coherent_insert [OF inv_coherent [OF assms(1)] assms(4)] f(4) by blast
  moreover have "accounted [rq] ?t"
    using assms(1) unfolding accounted_def queued_for_def written_for_def f e
    by (simp add: ancs_inv_def accounted_def queued_for_def written_for_def)
  moreover have "serial ?t" using assms(1) unfolding serial_def f by (auto simp: ancs_inv_def serial_def less_SucI)
  moreover have "offers_ok ?t" using assms(1) unfolding offers_ok_def f e by (simp add: ancs_inv_def offers_ok_def)
  moreover have "content_ok ?t" using assms(1) e(4) unfolding content_ok_def f by (simp add: ancs_inv_def content_ok_def)
  moreover have "pipeline_ok ?t" using assms(1) unfolding pipeline_ok_def f e by (simp add: ancs_inv_def pipeline_ok_def)
  moreover have "log_ok (log_of ?t)" "timers_ok ?t" using assms(1) unfolding timers_ok_def f e by (simp_all add: ancs_inv_def timers_ok_def)
  ultimately show ?thesis by (simp add: ancs_inv_def)
qed

text \<open>A click that is refused at once is answered at once.\<close>

lemma inv_refused:
  assumes "ancs_inv H s" "ar_result a = k"
  shows "ancs_inv H (report_action a r (clicked k s))"
proof (cases k)
  case (Some j)
  let ?t = "cl_call (Action_result j r) (cl_call (Clicked j) s)"
  have "serial ?t = serial s" "coherent H ?t = coherent H s" "timers_ok ?t = timers_ok s" "pipeline_ok ?t = pipeline_ok s"
    by (simp_all add: serial_def coherent_def requests_def timers_ok_def pipeline_ok_def)
  moreover have "accounted H ?t = accounted H s" by (simp add: accounted_def queued_for_def written_for_def add.assoc)
  moreover have "offers_ok ?t = offers_ok s" by (simp add: offers_ok_def offer_ok_def cong: option.case_cong)
  moreover have "content_ok s \<Longrightarrow> content_ok ?t" by (simp add: content_ok_def request_ok_mono)
  ultimately have "ancs_inv H ?t" using assms(1) by (simp add: ancs_inv_def)
  then show ?thesis using assms(2) Some by (simp add: report_action_def clicked_def)
qed (use assms in \<open>simp add: report_action_def clicked_def\<close>)

lemma perform_inv:
  assumes "fresh_ids (en_sched env)" "client_good s" "ancs_inv [] s"
  shows "ancs_inv [] (fst (perform_notification_action env uid positive token k s))"
proof (cases rule: perform_cases [where env = env and uid = uid and positive = positive and token = token and k = k and s = s])
  case (refused a r)
  then show ?thesis using inv_refused [OF assms(3)] by simp
next
  case (full a r)
  have "report_action a r (fresh (clicked k s)) = fresh (report_action a r (clicked k s))"
    by (simp add: report_action_def fresh_def cl_call_def split: option.split)
  then show ?thesis using inv_fresh [OF inv_refused [OF assms(3) full(1)]] full(2) by simp
next
  case (accepted u a entry q)
  let ?rq = "click_request u positive a (clicked k s)"
  let ?t = "(fresh (clicked k s))\<lparr>cl_queue := q, cl_actionable := in_flight_map u True (cl_actionable s)\<rparr>"
  have n: "cl_next (clicked k s) = cl_next s" "cl_actionable (clicked k s) = cl_actionable s"
    by (simp_all add: clicked_def split: option.split)
  have rq: "rq_action ?rq = Some a" "rq_id ?rq = cl_next s" "rq_key ?rq = Action_key u" "proper ?rq"
    by (simp_all add: click_request_def new_request_def proper_def n)
  have l: "standing u t (log_of (fresh (clicked k s))) = standing u t (log_of s)" for t
    by (simp add: fresh_def clicked_def split: option.split)
  have "standing u (ao_token entry) (log_of s)" using assms(3) accepted(4) by (auto simp: ancs_inv_def offers_ok_def)
  then have "offer_ok ?rq (log_of (fresh (clicked k s)))" using accepted(2,5) by (simp add: offer_ok_def rq l)
  moreover have "request_ok ?rq h" for h
    using accepted(2,3) by (simp add: request_ok_def rq) (simp add: click_request_def new_request_def action_packet_def)
  ultimately have qa: "queueable ?rq (log_of (fresh (clicked k s)))"
    using rq(4) by (simp add: queueable_def) (simp add: click_request_def new_request_def)
  have e: "enqueue (rq_key ?rq) ?rq True (cl_queue (fresh (clicked k s))) = (q, True)"
    using accepted(6) by (simp add: rq fresh_def)
  have i: "ancs_inv [] ((fresh (clicked k s))\<lparr>cl_queue := q\<rparr>)"
    by (rule inv_queue [OF inv_click [OF assms(3) rq(1) accepted(1) rq(2)] qa e])
  have "ancs_inv [] ((fresh (clicked k s))\<lparr>cl_queue := q, cl_actionable := in_flight_map u True (cl_actionable s)\<rparr>)"
    using inv_actionable [OF i, of "in_flight_map u True (cl_actionable s)"] in_flight_offers n by (simp add: fresh_def)
  moreover have "tracks s ?t"
    using e rq(4) by (intro enqueue_tracks [where rq = ?rq and front = True and ok = True]) (simp_all add: fresh_def)
  then have "client_good ?t" using assms(2) by (rule good_tracks)
  ultimately show ?thesis unfolding accepted(7) by (intro pump_inv [OF assms(1)])
qed

section \<open>Discovery, lifecycle, bearer\<close>

lemma subscribe_path_inv: "ancs_inv H s \<Longrightarrow> ancs_inv H (fst (subscribe_path env path s))"
  by (simp add: subscribe_path_def Let_def inv_call split: option.split)

lemma attempt_inv:
  assumes "ancs_inv H s" "attempt_subscription env ns ds s = (t, r)"
  shows "ancs_inv H t"
proof -
  obtain u x where u: "subscribe_path env ns s = (u, x)" by fastforce
  then have "ancs_inv H u" using subscribe_path_inv [OF assms(1), of env ns] by simp
  then have "ancs_inv H (fst (subscribe_path env ds u))" by (rule subscribe_path_inv)
  then show ?thesis using assms \<open>ancs_inv H u\<close>
    by (auto simp: attempt_subscription_def u split: option.splits if_splits attempt.splits)
qed

lemma try_subscribe_inv [simp]:
  assumes fr: "fresh_ids (en_sched env)" and s: "client_good s" "ancs_inv H s"
  shows "ancs_inv H (try_subscribe env s)"
proof (cases rule: try_subscribe_cases [of env s])
  case (attempted ns ds t r)
  have t: "ancs_inv H t" by (rule attempt_inv [OF s(2) attempted(1)])
  show ?thesis unfolding attempted(2)
  proof (cases r)
    case Started
    let ?u = "(cancel_timer Subscribe_retry t)\<lparr>cl_receivers := Some (cl_owner_gen (cancel_timer Subscribe_retry t),
        cl_subscription_gen (cancel_timer Subscribe_retry t)), cl_notify_started := True\<rparr>"
    have "tracks s (end_session env (reset_actions env ?u))"
      by (rule tracks_trans [OF tracks_trans [OF tracks_same reset_actions_tracks] end_session_tracks])
        (simp_all add: attempt_fields [OF attempted(1)])
    then have "client_good (end_session env (reset_actions env ?u))" using s(1) by (rule good_tracks)
    then show "ancs_inv H (after_attempt env t r)" unfolding Started after_attempt_def attempt.case
      by (intro probe_inv [OF fr]) (use t in simp_all)
  qed (use t fr in \<open>simp_all add: after_attempt_def\<close>)
qed (use s(2) in simp)

lemma iface_added_inv:
  assumes "fresh_ids (en_sched env)" "client_good s" "ancs_inv H s"
  shows "ancs_inv H (iface_added env path uuid s)"
proof -
  have "ancs_inv H (try_subscribe env t)" if "cl_queue t = cl_queue s" "cl_active t = cl_active s" "ancs_inv H t" for t
    by (rule try_subscribe_inv [OF assms(1) good_tracks [OF tracks_same assms(2)]]) (use that in simp_all)
  then show ?thesis using assms by (simp add: iface_added_def Let_def split: option.split)
qed

lemma iface_removed_inv: "ancs_inv H s \<Longrightarrow> ancs_inv H (iface_removed env path s)"
proof (cases "forget_path path s")
  case (Some t)
  assume "ancs_inv H s"
  then have "ancs_inv H t" using Some by (auto simp: forget_path_def split: if_splits)
  then show ?thesis by (simp add: iface_removed_def Some Let_def inv_callback)
qed (simp add: iface_removed_def)

lemma bind_inv:
  assumes fr: "fresh_ids (en_sched env)" and s: "client_good s" "ancs_inv H s"
  shows "ancs_inv H (fst (bind_manager env managed s))"
proof -
  have "client_good t \<Longrightarrow> ancs_inv H t \<Longrightarrow> ancs_inv H (fold (\<lambda>(path, uuid). iface_added env path uuid) os t)" for os t
  proof (induction os arbitrary: t)
    case (Cons x os)
    obtain path uuid where x: "x = (path, uuid)" by fastforce
    have "client_good (iface_added env path uuid t)" by (rule good_tracks [OF iface_added_tracks Cons.prems(1)])
    then show ?case using Cons.IH iface_added_inv [OF fr Cons.prems] by (simp add: x)
  qed simp
  moreover have "client_good (s\<lparr>cl_watching := True\<rparr>)" by (rule good_tracks [OF tracks_same s(1)]) simp_all
  ultimately show ?thesis using s(2) by (simp add: bind_manager_def split: option.split)
qed

lemma rebind_inv [simp]:
  "fresh_ids (en_sched env) \<Longrightarrow> client_good s \<Longrightarrow> ancs_inv H s \<Longrightarrow> ancs_inv H (rebind_manager env managed s)"
  using bind_inv [of env s H managed] by (auto simp: rebind_manager_def split: prod.split)

lemma start_inv:
  assumes "fresh_ids (en_sched env)" "client_good s" "ancs_inv H s"
  shows "ancs_inv H (cl_start env managed s)"
proof -
  let ?s = "s\<lparr>cl_owner_available := True, cl_started := True\<rparr>"
  obtain t ok where b: "bind_manager env managed ?s = (t, ok)" by fastforce
  have "client_good ?s" by (rule good_tracks [OF tracks_same assms(2)]) simp_all
  then have "ancs_inv H t" using bind_inv [OF assms(1), of ?s H managed] assms(3) b by simp
  then show ?thesis using assms by (cases ok) (simp_all add: cl_start_def b)
qed

lemma stop_inv: "ancs_inv H s \<Longrightarrow> ancs_inv H (cl_stop env s)"
  by (simp add: cl_stop_def Let_def inv_callback)

lemma forget_owner_inv: "ancs_inv H s \<Longrightarrow> ancs_inv H (forget_owner env s)"
  by (simp add: forget_owner_def Let_def inv_callback)

text \<open>A new bluetoothd does not know the writes of the old one.\<close>

lemma inv_owner:
  assumes "ancs_inv H s"
  shows "ancs_inv H (s\<lparr>cl_owner_gen := cl_owner_gen s + 1, cl_write_token := None\<rparr>)" (is "ancs_inv H ?t")
proof -
  have "serial ?t" using assms by (auto simp: ancs_inv_def serial_def)
  moreover have "timers_ok ?t" using assms by (auto simp: ancs_inv_def timers_ok_def)
  moreover have "coherent H ?t = coherent H s" "accounted H ?t = accounted H s" "offers_ok ?t = offers_ok s"
    "content_ok ?t = content_ok s" "pipeline_ok ?t = pipeline_ok s" "log_of ?t = log_of s"
    by (simp_all add: coherent_def requests_def accounted_def queued_for_def written_for_def offers_ok_def content_ok_def
        pipeline_ok_def log_of_def)
  ultimately show ?thesis using assms by (simp add: ancs_inv_def)
qed

lemma owner_inv:
  assumes "fresh_ids (en_sched env)" "client_good s" "ancs_inv H s"
  shows "ancs_inv H (observe_bluez_owner env old new managed s)"
proof -
  let ?s = "s\<lparr>cl_owner_gen := cl_owner_gen s + 1, cl_owner_available := new, cl_notify_refreshes := 0, cl_write_token := None\<rparr>"
  let ?t = "if old then forget_owner env ?s else ?s"
  have "?s = (s\<lparr>cl_owner_gen := cl_owner_gen s + 1, cl_write_token := None\<rparr>)\<lparr>cl_owner_available := new, cl_notify_refreshes := 0\<rparr>" by simp
  then have i: "ancs_inv H ?s" using inv_owner [OF assms(3)] by (metis inv_flags(18,25))
  then have t: "ancs_inv H ?t" by (simp add: forget_owner_inv)
  have "client_good ?s" by (rule good_tracks [OF tracks_same assms(2)]) simp_all
  then have "client_good ?t" by (simp add: good_tracks [OF forget_owner_tracks])
  then have "ancs_inv H (rebind_manager env managed ?t)" by (intro rebind_inv assms(1) t)
  then show ?thesis using assms(3) t unfolding observe_bluez_owner_def Let_def by simp
qed

lemma legacy_hint_inv [simp]:
  "fresh_ids (en_sched env) \<Longrightarrow> client_good s \<Longrightarrow> ancs_inv H s \<Longrightarrow> ancs_inv H (legacy_transport_hint env s)"
  by (simp add: legacy_transport_hint_def)

lemma bearer_lost_inv [simp]: "ancs_inv H s \<Longrightarrow> ancs_inv H (bearer_lost env s)"
  by (simp add: bearer_lost_def Let_def inv_callback)

lemma bearer_state_inv [simp]:
  "fresh_ids (en_sched env) \<Longrightarrow> ancs_inv H s \<Longrightarrow> ancs_inv H (bearer_state env bearer s)"
  by (simp add: bearer_state_def Let_def split: option.split bool.split)

lemma bearer_inv:
  assumes "fresh_ids (en_sched env)" "client_good s" "ancs_inv H s"
  shows "ancs_inv H (observe_bearer_state env bearer legacy s)"
proof -
  have "client_good (s\<lparr>cl_bearer_connected := None\<rparr>)" by (rule good_tracks [OF tracks_same assms(2)]) simp_all
  then have "ancs_inv H (legacy_transport_hint env (s\<lparr>cl_bearer_connected := None\<rparr>))" using assms(1,3) by simp
  then show ?thesis using assms(1,3) by (simp add: observe_bearer_state_def Let_def inv_callback)
qed

lemma retry_subscribe_inv:
  assumes "fresh_ids (en_sched env)" "client_good s" "ancs_inv H s"
  shows "ancs_inv H (retry_subscribe env s)"
proof -
  have "client_good (s\<lparr>cl_transport_blocked := False, cl_bearer_ready := True\<rparr>)"
    by (rule good_tracks [OF tracks_same assms(2)]) simp_all
  then show ?thesis using assms by (simp add: retry_subscribe_def)
qed

lemma check_health_inv:
  "fresh_ids (en_sched env) \<Longrightarrow> client_good s \<Longrightarrow> ancs_inv H s \<Longrightarrow> ancs_inv H (check_legacy_health env s)"
  by (simp add: check_legacy_health_def Let_def)

lemma run_timer_inv:
  assumes "fresh_ids (en_sched env)" "client_good s" "ancs_inv H s" "cl_timers s k = None"
  shows "ancs_inv H (run_timer env k managed s)"
proof -
  have "client_good (s\<lparr>cl_bearer_ready := True\<rparr>)" by (rule good_tracks [OF tracks_same assms(2)]) simp_all
  then have "ancs_inv H (finish_bearer_settle env s)" using assms(1,3) by (simp add: finish_bearer_settle_def)
  moreover have "k = Request_timeout \<Longrightarrow> ancs_inv H (request_timed_out env s)" using timed_out_inv assms by blast
  ultimately show ?thesis
    using assms(1-3) retry_subscribe_inv [OF assms(1-3)] check_health_inv [OF assms(1-3)] pump_inv [OF assms(1-3)]
    by (cases k) (simp_all add: run_timer_def retry_manager_bind_def request_transport_reset_def inv_callback)
qed

lemma expired_timers:
  assumes "timers_ok s" "cl_timers s k = Some i"
  shows "timers_ok (s\<lparr>cl_timers := (cl_timers s)(k := None), cl_hist := Expired i # cl_hist s\<rparr>)"
proof -
  have m: "separate (cl_timers s)" using assms(1) by (simp add: timers_ok_def)
  have "live (Expired i # cl_hist s) = ran ((cl_timers s)(k := None))"
    using assms(1) ran_map_del [OF m assms(2)] by (simp add: timers_ok_def)
  then show ?thesis using assms(1) separate_del [OF m, of k] by (simp add: timers_ok_def)
qed

lemma fire_timer_inv:
  assumes "fresh_ids (en_sched env)" "client_good s" "ancs_inv H s" "cl_timers s k = Some i"
  shows "ancs_inv H (fire_timer env k i managed s)"
proof -
  let ?t = "s\<lparr>cl_timers := (cl_timers s)(k := None), cl_hist := Expired i # cl_hist s\<rparr>"
  have "ancs_inv H ?t"
    by (rule inv_timers [OF expired_timers [OF inv_timers_ok [OF assms(3)] assms(4)] assms(3)])
      (simp add: same_core_def log_of_def)
  moreover have "client_good ?t" by (rule good_tracks [OF tracks_same assms(2)]) simp_all
  ultimately show ?thesis unfolding fire_timer_def by (intro run_timer_inv assms(1)) simp_all
qed

lemma ancs_step_inv:
  "ancs_step env s t \<Longrightarrow> fresh_ids (en_sched env) \<Longrightarrow> client_good s \<Longrightarrow> ancs_inv [] s \<Longrightarrow> ancs_inv [] t"
proof (induction rule: ancs_step.induct)
  case (notification s v)
  then show ?case by (simp add: ns_signal_def on_ns_inv)
next
  case (data s v)
  then show ?case by (simp add: ds_signal_def on_ds_inv)
next
  case (setting s)
  then show ?case by (simp add: notification_actions_changed_def)
qed (simp_all add: start_inv stop_inv owner_inv bearer_inv iface_added_inv iface_removed_inv write_reply_inv notify_reply_inv
    fire_timer_inv perform_inv)

end
