(* ===== verification/Ancs_Guarantees.thy ===== *)
theory Ancs_Guarantees
  imports Ancs_Client_Safety
begin

text \<open>
  What the ANCS client guarantees in every state it can reach, whatever the phone, BlueZ and the desktop do,
  provided the scheduler hands out fresh timer ids: the consequences of the invariant, and a complete run from
  start to a clicked action on which they are exercised.
\<close>

section \<open>Reachable states\<close>

definition ancs_begins :: "ancs_env \<Rightarrow> AncsClient \<Rightarrow> bool" where
  "ancs_begins env s \<longleftrightarrow> fresh_ids (en_sched env) \<and> ancs_started s"

definition ancs_sound :: "ancs_env \<Rightarrow> AncsClient \<Rightarrow> bool" where
  "ancs_sound env s \<longleftrightarrow> fresh_ids (en_sched env) \<and> client_good s \<and> ancs_inv [] s"

definition all_timers :: "ancs_timer list" where
  "all_timers = [Manager_retry, Subscribe_retry, Authorization_retry, Bearer_settle, Transport_reset, Legacy_health,
     Request_timeout, Busy_retry]"

lemma all_timers_all: "k \<in> set all_timers"
  by (cases k) (simp_all add: all_timers_def)

lemma timer_set_map: "timer_set (map f xs) = {i. \<exists>x \<in> set xs. f x = Some i}"
proof (induction xs)
  case (Cons x xs)
  then show ?case by (cases "f x") auto
qed simp

lemma ran_all_timers: "ran m = timer_set (map m all_timers)"
  using all_timers_all unfolding timer_set_map ran_def by blast

interpretation ancs: timer_owner "ancs_begins env" "ancs_step env" "ancs_sound env" cl_hist
  "\<lambda>s. map (cl_timers s) all_timers" for env
proof
  show "ancs_begins env s \<Longrightarrow> ancs_sound env s" for s
    by (simp add: ancs_begins_def ancs_sound_def good_init init_inv)
  show "ancs_sound env s \<Longrightarrow> ancs_step env s t \<Longrightarrow> ancs_sound env t" for s t
    using ancs_step_inv [of env s t] good_tracks [OF ancs_step_tracks] by (auto simp: ancs_sound_def)
  show "ancs_sound env s \<Longrightarrow> live (cl_hist s) = timer_set (map (cl_timers s) all_timers)" for s
    by (simp add: ancs_sound_def ancs_inv_def timers_ok_def ran_all_timers)
qed

lemma reachable_ancs_inv: "reachable (ancs_begins env) (ancs_step env) s \<Longrightarrow> ancs_inv [] s"
  using ancs.reachable_inv by (simp add: ancs_sound_def)

section \<open>Reading the log\<close>

lemma log_ok_write: "log_ok (later @ Write_value rq # earlier) \<Longrightarrow> request_ok rq earlier \<and> offer_ok rq earlier"
proof (induction later)
  case (Cons e later)
  then show ?case by (cases e) auto
qed simp

lemma log_ok_event: "log_ok (later @ On_event ev # earlier) \<Longrightarrow> alive (ae_id ev) earlier"
proof (induction later)
  case (Cons e later)
  then show ?case by (cases e) auto
qed simp

lemma one_current_write: "serial s \<Longrightarrow> length (filter (\<lambda>c. wc_generation c = cl_owner_gen s) (cl_writes s)) \<le> 1"
proof -
  assume s: "serial s"
  let ?cs = "filter (\<lambda>c. wc_generation c = cl_owner_gen s) (cl_writes s)"
  have "distinct (map wc_token ?cs)" using s by (auto simp: serial_def distinct_map_filter)
  moreover have "set (map wc_token ?cs) \<subseteq> set_option (cl_write_token s)" using s by (auto simp: serial_def)
  moreover have "finite (set_option (cl_write_token s))" by (cases "cl_write_token s") simp_all
  ultimately have "length (map wc_token ?cs) \<le> card (set_option (cl_write_token s))"
    using distinct_card card_mono by metis
  also have "\<dots> \<le> 1" by (cases "cl_write_token s") simp_all
  finally show ?thesis by simp
qed

section \<open>Stopping\<close>

lemma drop_timers: "cl_timers (fst (drop_queued_actions p r s)) = cl_timers s"
  using drop_queued_fields(9) by (metis prod.collapse)

lemma reset_actions_fields [simp]:
  "cl_timers (reset_actions env s) = cl_timers s" "cl_actionable (reset_actions env s) = []"
proof -
  obtain t m where t: "drop_queued_actions (\<lambda>_. True) ACTION_UNAVAILABLE (s\<lparr>cl_actionable := []\<rparr>) = (t, m)" by fastforce
  show "cl_timers (reset_actions env s) = cl_timers s" "cl_actionable (reset_actions env s) = []"
    using drop_queued_fields(6,9) [OF t] by (simp_all add: reset_actions_def t Let_def callback_def)
qed

lemma end_session_fields [simp]:
  "cl_timers (end_session env s) = cl_timers s" "cl_actionable (end_session env s) = cl_actionable s"
proof -
  show "cl_timers (end_session env s) = cl_timers s"
    by (simp add: end_session_def callback_def discard_notification_requests_def discard_active_def Let_def split: option.split)
  show "cl_actionable (end_session env s) = cl_actionable s" by (simp add: end_session_def callback_def)
qed

lemma reset_requests_timers [simp]:
  "cl_timers (reset_requests s) = (cl_timers s)(Busy_retry := None, Request_timeout := None)"
  by (simp add: reset_requests_def Let_def drop_timers)

lemma stop_paths_timers [simp]: "cl_timers (stop_paths env paths s) = cl_timers s"
  by (induction paths arbitrary: s) (simp_all add: Let_def)

lemma clear_timers [simp]:
  "cl_timers (clear_characteristic_subscription env stop s) =
     (cl_timers s)(Authorization_retry := None, Legacy_health := None, Busy_retry := None, Request_timeout := None)"
  "cl_actionable (clear_characteristic_subscription env stop s) = []"
  by (simp_all add: clear_characteristic_subscription_def stop_bluez_notifications_def Let_def)

lemma stop_timers: "cl_timers (cl_stop env s) k = None"
  by (cases k) (simp_all add: cl_stop_def Let_def callback_def)

lemma reset_requests_gone: "queued (reset_requests s) = [] \<and> cl_active (reset_requests s) = None"
  by (simp add: reset_requests_def Let_def clear_backlog_def)

lemma cleared_gone:
  assumes "queued s = []" "cl_active s = None"
  shows "queued (end_session env (reset_actions env s)) = [] \<and> cl_active (end_session env (reset_actions env s)) = None"
proof -
  obtain t m where t: "drop_queued_actions (\<lambda>_. True) ACTION_UNAVAILABLE (s\<lparr>cl_actionable := []\<rparr>) = (t, m)" by fastforce
  have r: "queued (reset_actions env s) = []" "cl_active (reset_actions env s) = None"
    using drop_queued_fields(1,11) [OF t] assms by (simp_all add: reset_actions_def t Let_def)
  then show ?thesis
    by (simp add: end_session_def discard_notification_requests_def discard_active_def Let_def remove_if_def)
qed

section \<open>A run\<close>

text \<open>BlueZ answers the oldest write, a timer fires: nothing happens when there is none.\<close>

definition demo_reply :: "AncsClient \<Rightarrow> AncsClient" where
  "demo_reply s = (case cl_writes s of [] \<Rightarrow> s | c # _ \<Rightarrow> write_reply calm_env c None s)"

definition demo_fire :: "ancs_timer \<Rightarrow> AncsClient \<Rightarrow> AncsClient" where
  "demo_fire k s = (case cl_timers s k of None \<Rightarrow> s | Some i \<Rightarrow> fire_timer calm_env k i None s)"

definition demo_authorized :: AncsClient where
  "demo_authorized = ds_signal calm_env ([1, 99, 111, 109, 46, 97, 112, 112, 108, 101, 46, 77, 111, 98, 105, 108, 101, 83, 77, 83, 0, 0, 1, 0, 77])
     (demo_reply (demo_fire Bearer_settle demo_bound))"

definition demo_probed :: AncsClient where
  "demo_probed = ds_signal calm_env [0, 9, 0, 0, 0, 0, 3, 0, 97, 46, 98]
     (demo_reply (ns_signal calm_env [0, 24, 4, 1, 9, 0, 0, 0] demo_authorized))"

text \<open>The rest of the run, from a state in which the content of the notification has been asked for.\<close>

definition demo_shown :: "AncsClient \<Rightarrow> AncsClient" where
  "demo_shown s = ds_signal calm_env [1, 97, 46, 98, 0, 0, 1, 0, 65] (demo_reply
     (ds_signal calm_env [0, 9, 0, 0, 0, 0, 3, 0, 97, 46, 98, 1, 1, 0, 84, 2, 0, 0, 3, 1, 0, 66, 6, 1, 0, 89, 7, 1, 0, 78]
        (demo_reply s)))"

definition demo_clicked :: "AncsClient \<Rightarrow> AncsClient" where
  "demo_clicked s = fst (perform_notification_action calm_env (Some 9) True (Some 1) (Some 5) (demo_shown s))"

definition demo_note :: Notification where
  "demo_note = \<lparr>n_id = 9, n_type = 0, n_flags = 24, n_category = 4, n_category_count = 1\<rparr>"

definition demo_content :: pending_request where
  "demo_content =
     \<lparr>rq_id = 4, rq_key = Notification_key 9,
      rq_packet = map byte_of [0, 9, 0, 0, 0, 0, 1, 128, 0, 2, 128, 0, 3, 0, 4, 6, 7],
      rq_assembler = Some (assembler 0 [0, 1, 2, 3, 6, 7] (Some 9) None), rq_notification = Some demo_note,
      rq_app_probe = False, rq_expected_app = Some (lit ''a.b''), rq_auth_probe = False, rq_busy_retries = 0,
      rq_label_ids = [6, 7], rq_action = None, rq_discarded = False\<rparr>"

definition demo_asked :: "ancs_history \<Rightarrow> AncsClient" where
  "demo_asked h = (AncsClient_init False)
     \<lparr>cl_live_seen := True, cl_ns_path := Some (lit ''/d/s/n''), cl_ds_path := Some (lit ''/d/s/d''),
      cl_cp_path := Some (lit ''/d/s/c''), cl_notify_started := True, cl_authorized := True, cl_health_proof := Some 0,
      cl_was_authorized := True, cl_bearer_connected := Some True, cl_bearer_ready := True,
      cl_owned_paths := {lit ''/d/s/d'', lit ''/d/s/n''}, cl_app_names := [(MESSAGES_BUNDLE, [77])],
      cl_observed_apps := [(lit ''a.b'', ())], cl_categories := [(9, 4)],
      cl_queue := \<lparr>rb_maximum = 512, rb_queue = [], rb_reserved = {Notification_key 9}\<rparr>,
      cl_active := Some demo_content, cl_write_token := Some 5, cl_receivers := Some (0, 0), cl_watching := True,
      cl_started := True, cl_writes := [\<lparr>wc_token = 5, wc_generation = 0, wc_request = demo_content\<rparr>],
      cl_next := 6, cl_hist := Call (Write_value demo_content) # h\<rparr>"

abbreviation calm :: "AncsClient \<Rightarrow> bool" where
  "calm \<equiv> reachable (ancs_begins calm_env) (ancs_step calm_env)"

lemma calm_begins: "calm (AncsClient_init False)"
proof (rule reachable.start)
  have "fresh_ids (en_sched calm_env)" by (simp add: calm_env_def fresh_ids_top)
  then show "ancs_begins calm_env (AncsClient_init False)" by (auto simp: ancs_begins_def ancs_started_def)
qed

lemma calm_steps:
  assumes "calm s"
  shows "calm (cl_start calm_env managed s)" "calm (observe_bearer_state calm_env bearer legacy s)"
    "calm (ds_signal calm_env v s)" "calm (ns_signal calm_env v s)"
    "calm (fst (perform_notification_action calm_env uid positive token k s))" "calm (demo_reply s)" "calm (demo_fire j s)"
proof -
  note step = reachable.next_state [where step = "ancs_step calm_env", OF assms]
  show "calm (cl_start calm_env managed s)" "calm (observe_bearer_state calm_env bearer legacy s)"
    "calm (ds_signal calm_env v s)" "calm (ns_signal calm_env v s)"
    "calm (fst (perform_notification_action calm_env uid positive token k s))"
    by (rule step, rule ancs_step.intros)+
  show "calm (demo_reply s)"
  proof (cases "cl_writes s")
    case (Cons c cs)
    then have "calm (write_reply calm_env c None s)" by (intro step ancs_step.reply) simp
    then show ?thesis by (simp add: demo_reply_def Cons)
  qed (use assms in \<open>simp add: demo_reply_def\<close>)
  show "calm (demo_fire j s)"
  proof (cases "cl_timers s j")
    case (Some i)
    then have "calm (fire_timer calm_env j i None s)" by (intro step ancs_step.timer)
    then show ?thesis by (simp add: demo_fire_def Some)
  qed (use assms in \<open>simp add: demo_fire_def\<close>)
qed

lemma demo_probed_calm: "calm demo_probed"
  unfolding demo_probed_def demo_authorized_def demo_bound_def by (intro calm_steps calm_begins)

lemma demo_clicked_calm: "calm (demo_clicked demo_probed)"
  unfolding demo_clicked_def demo_shown_def by (intro calm_steps demo_probed_calm)

text \<open>What the evaluation of the run unfolds.\<close>

lemmas client_eval = MESSAGES_BUNDLE_def NOTIFICATION_SOURCE_CHAR_def CONTROL_POINT_CHAR_def DATA_SOURCE_CHAR_def
  lower_ascii_def AncsClient_init_def cl_call_def callback_def start_timer_def cancel_timer_def od_put_def
  transport_available_def cl_connected_def packet_of_def report_action_def is_action_def report_removed_def
  drop_queued_actions_def reset_actions_def forget_actionable_def about_uid_def discard_active_def discard_lookups_def
  discard_notification_requests_def end_session_def finish_active_request_def remember_actionable_def emit_def
  schedule_authorization_retry_def flush_lookups_def is_current_def release_write_def written_def may_write_def
  begin_write_def then_pump_def write_reply_def enqueue_request_def new_request_def fresh_def
  authorization_request_def queue_authorization_probe_def request_attrs_def request_full_attrs_def
  request_app_name_def handle_app_attrs_def handle_notification_attrs_def schedule_legacy_health_def
  mark_authorized_def app_id_char_def valid_app_id_def app_probed_def ds_complete_def on_ds_changed_def
  report_call_activity_def on_ns_changed_def receiving_def ns_signal_def ds_signal_def queued_actions_def
  perform_notification_action_def start_notify_def subscribe_path_def attempt_subscription_def try_subscribe_def
  char_path_to_device_path_def iface_added_def bind_manager_def schedule_bearer_settle_def cl_start_def
  bearer_state_def observe_bearer_state_def finish_bearer_settle_def run_timer_def fire_timer_def pump_requests.simps

lemmas wire_eval = consts_defs ACTION_LABEL_ATTRIBUTE_IDS_def u16_le_def u32_le_def pack_u16_def pack_u32_def
  struct_pack_I_def parse_attr_string_def Notification_parse_def is_preexisting_def has_positive_action_def
  has_negative_action_def action_label_ids_def label_control_def clean_action_label_def dict_get_def
  NotificationAttributes_parse_def AppAttributes_parse_def DataSourceEvent_parse_def
  parse_notification_app_identifier_def assembler_def complete_length_def feed_def clamp_max_def
  build_get_notification_attributes_def build_perform_notification_action_def
  build_get_notification_app_identifier_def build_get_app_attributes_def enqueue_def remove_if_def count_if_def
  popleft_def finish_def utf8_char_def utf8_next.simps py_split_def py_isspace_def lit_def al_pop_def log_of_def
  Let_def

lemmas demo_eval = demo_objects_def demo_bound_def demo_fire_def demo_reply_def calm_env_def demo_asked_def
  demo_content_def demo_note_def

lemma demo_probed_asked: "\<exists>h. demo_probed = demo_asked h \<and> top_id h = 3"
  by (simp add: client_eval demo_probed_def demo_authorized_def demo_eval wire_eval cong: let_weak_cong prod.case_cong_weak)

lemma demo_asked_log:
  assumes "top_id h = 3"
  shows "\<exists>rq ev h'. log_of (demo_clicked (demo_asked h)) = Write_value rq # Clicked 5 # On_event ev # h' \<and>
    rq_action rq = Some \<lparr>ar_uid = 9, ar_positive = True, ar_result = Some 5, ar_token = 1\<rparr> \<and> rq_busy_retries rq = 0 \<and>
    ae_id ev = 9"
  using assms
  by (simp add: client_eval demo_clicked_def demo_shown_def demo_eval wire_eval cong: let_weak_cong prod.case_cong_weak)

lemma demo_clicked_log:
  obtains rq ev h where "log_of (demo_clicked demo_probed) = Write_value rq # Clicked 5 # On_event ev # h"
    "rq_action rq = Some \<lparr>ar_uid = 9, ar_positive = True, ar_result = Some 5, ar_token = 1\<rparr>" "rq_busy_retries rq = 0"
    "ae_id ev = 9"
  using demo_probed_asked demo_asked_log by metis

section \<open>Properties\<close>

text \<open>
  C9: The Control Point is used serially. At most one \<open>WriteValue\<close> that the running bluetoothd has accepted is
  unanswered at any time, and a new one is only started when there is none.
\<close>

theorem control_point_serialized:
  assumes "reachable (ancs_begins env) (ancs_step env) s"
  shows "length (filter (\<lambda>c. wc_generation c = cl_owner_gen s) (cl_writes s)) \<le> 1 \<and>
    (may_write s \<longrightarrow> (\<forall>c. c \<in> set (cl_writes s) \<longrightarrow> wc_generation c \<noteq> cl_owner_gen s))"
proof -
  have s: "serial s" using reachable_ancs_inv [OF assms] by (simp add: ancs_inv_def)
  moreover have "wc_generation c \<noteq> cl_owner_gen s" if "may_write s" "c \<in> set (cl_writes s)" for c
    using s that by (auto simp: serial_def may_write_def)
  ultimately show ?thesis using one_current_write by blast
qed

theorem control_point_serialized_witness:
  "length (filter (\<lambda>c. wc_generation c = cl_owner_gen demo_probed) (cl_writes demo_probed)) = 1"
proof -
  obtain h where h: "demo_probed = demo_asked h" using demo_probed_asked by blast
  have "filter (\<lambda>c. wc_generation c = cl_owner_gen demo_probed) (cl_writes demo_probed) \<noteq> []"
    unfolding h by (simp add: demo_asked_def AncsClient_init_def)
  then show ?thesis using control_point_serialized [OF demo_probed_calm] by (simp add: le_Suc_eq)
qed

text \<open>
  C1: An action is written to the phone only under the offer it was clicked on: when its request is first
  written, the event with that uid and token has been shown, its uid has not been announced again since and
  the offers have not been retired, and the packet names that uid and the clicked action. (A write the phone
  refused as busy is repeated without another check.)
\<close>

theorem actions_respect_offers:
  assumes "reachable (ancs_begins env) (ancs_step env) s" "log_of s = later @ Write_value rq # earlier"
    and "rq_action rq = Some a" "rq_busy_retries rq = 0"
  shows "standing (ar_uid a) (ar_token a) earlier \<and> rq_packet rq = action_packet (ar_uid a) (ar_positive a)"
proof -
  have "log_ok (later @ Write_value rq # earlier)"
    using reachable_ancs_inv [OF assms(1)] assms(2) by (simp add: ancs_inv_def)
  from log_ok_write [OF this] show ?thesis using assms(3,4) by (simp add: offer_ok_def request_ok_def action_packet_def)
qed

theorem actions_respect_offers_witness: "standing 9 1 (tl (log_of (demo_clicked demo_probed)))"
proof -
  obtain rq ev h where l: "log_of (demo_clicked demo_probed) = [] @ Write_value rq # Clicked 5 # On_event ev # h"
    "rq_action rq = Some \<lparr>ar_uid = 9, ar_positive = True, ar_result = Some 5, ar_token = 1\<rparr>" "rq_busy_retries rq = 0"
    using demo_clicked_log by (metis append_Nil)
  from actions_respect_offers [OF demo_clicked_calm this] l(1) show ?thesis by simp
qed

text \<open>
  C7: Every clicked action is answered exactly once: the clicks with a callback are the results delivered to
  it, plus the requests still queued, plus the writes still unanswered.
\<close>

theorem action_results_once:
  assumes "reachable (ancs_begins env) (ancs_step env) s"
  shows "clicks k (log_of s) = results k (log_of s) + queued_for k s + written_for k s"
  using reachable_ancs_inv [OF assms] by (simp add: ancs_inv_def accounted_def)

theorem action_results_once_witness:
  "clicks 5 (log_of (demo_clicked demo_probed)) = results 5 (log_of (demo_clicked demo_probed)) +
     queued_for 5 (demo_clicked demo_probed) + written_for 5 (demo_clicked demo_probed)"
  by (rule action_results_once [OF demo_clicked_calm])

text \<open>
  C3: Notification content is requested only where it is wanted. Every Control Point write is a clicked
  action, a question for the name of an app, a question for the app of a notification, or a content request
  for Messages or for an app which the user's filter had admitted before.
\<close>

theorem content_policy:
  assumes "reachable (ancs_begins env) (ancs_step env) s" "log_of s = later @ Write_value rq # earlier"
  shows "(\<exists>a. rq_action rq = Some a \<and> rq_packet rq = action_packet (ar_uid a) (ar_positive a)) \<or>
    (\<exists>app. rq_packet rq = packet_of (build_get_app_attributes app)) \<or>
    (\<exists>n. rq_notification rq = Some n \<and> rq_packet rq = packet_of (build_get_notification_app_identifier (int (n_id n)))) \<or>
    (\<exists>app. rq_expected_app rq = Some app \<and> (app = MESSAGES_BUNDLE \<or> Asked_app app True \<in> set earlier))"
proof -
  have "log_ok (later @ Write_value rq # earlier)"
    using reachable_ancs_inv [OF assms(1)] assms(2) by (simp add: ancs_inv_def)
  then have "request_ok rq earlier" by (blast dest: log_ok_write)
  then show ?thesis by (auto simp: request_ok_def admitted_def action_packet_def split: option.splits if_splits)
qed

theorem content_policy_witness:
  "\<exists>h. log_of demo_probed = Write_value demo_content # h \<and> Asked_app (lit ''a.b'') True \<in> set h"
proof -
  obtain k where k: "demo_probed = demo_asked k" using demo_probed_asked by blast
  have l: "log_of demo_probed = [] @ Write_value demo_content # calls k"
    unfolding k by (simp add: demo_asked_def log_of_def)
  have "rq_action demo_content = None" "rq_expected_app demo_content = Some (lit ''a.b'')" "length (rq_packet demo_content) = 17"
    "hd (rq_packet demo_content) = 0" "rq_notification demo_content = Some demo_note"
    by (simp_all add: demo_content_def byte_of_def)
  moreover have "rq_packet demo_content \<noteq> packet_of (build_get_app_attributes app)" for app
    by (simp add: demo_content_def packet_of_def build_get_app_attributes_def consts_defs byte_of_def split: option.split)
  moreover have "length (packet_of (build_get_notification_app_identifier (int (n_id demo_note)))) = 6"
    by (simp add: demo_note_def wire_eval packet_of_def)
  moreover have "lit ''a.b'' \<noteq> MESSAGES_BUNDLE" by (simp add: MESSAGES_BUNDLE_def lit_def)
  ultimately show ?thesis using content_policy [OF demo_probed_calm l] l by auto
qed

text \<open>
  C5: An event is only emitted for a notification that is still there: the phone announced it in the current
  session and has not removed it, however long its attributes and its app name took to arrive.
\<close>

theorem events_alive:
  assumes "reachable (ancs_begins env) (ancs_step env) s" "log_of s = later @ On_event ev # earlier"
  shows "alive (ae_id ev) earlier"
proof -
  have "log_ok (later @ On_event ev # earlier)"
    using reachable_ancs_inv [OF assms(1)] assms(2) by (simp add: ancs_inv_def)
  then show ?thesis by (rule log_ok_event)
qed

theorem events_alive_witness: "alive 9 (drop 3 (log_of (demo_clicked demo_probed)))"
proof -
  obtain rq ev h where l: "log_of (demo_clicked demo_probed) = [Write_value rq, Clicked 5] @ On_event ev # h" "ae_id ev = 9"
    using demo_clicked_log by (metis append_Cons append_Nil)
  from events_alive [OF demo_clicked_calm l(1)] l show ?thesis by simp
qed

text \<open>
  The client never loses a timer: the live timer sources are exactly the ones its eight fields name, and
  after \<open>stop\<close> there are none, nor a queued or active request, nor an offer.
\<close>

theorem ancs_stop_final:
  assumes "reachable (ancs_begins env) (ancs_step env) s"
  shows "live (cl_hist s) = timer_set (map (cl_timers s) all_timers) \<and> live (cl_hist (cl_stop env s)) = {} \<and>
    queued (cl_stop env s) = [] \<and> cl_active (cl_stop env s) = None \<and> cl_actionable (cl_stop env s) = []"
proof -
  have t: "reachable (ancs_begins env) (ancs_step env) (cl_stop env s)"
    using assms ancs_step.stop by (rule reachable.next_state)
  have "live (cl_hist (cl_stop env s)) = {}" by (rule ancs.reachable_no_leak [OF t]) (simp add: stop_timers)
  moreover have "queued (cl_stop env s) = [] \<and> cl_active (cl_stop env s) = None"
    using cleared_gone reset_requests_gone unfolding cl_stop_def clear_characteristic_subscription_def Let_def by simp
  moreover have "cl_actionable (cl_stop env s) = []" by (simp add: cl_stop_def Let_def callback_def)
  ultimately show ?thesis using ancs.reachable_live [OF assms] by simp
qed

theorem ancs_stop_final_witness: "live (cl_hist (cl_stop calm_env demo_probed)) = {}"
  using ancs_stop_final [OF demo_probed_calm] by blast

end
