(* ===== verification/Power_Restore.thy ===== *)
theory Power_Restore
  imports Notification_Pins Py_Text
begin

text \<open>
  The adapter side of the Bluetooth power cycle (\<open>bluetooth_recovery.py\<close>, class
  \<open>BluezRecoveryAdapter\<close>): the signals that count topology changes, the snapshot of the adapter, and the
  power-off / power-on transaction with its restoration journal in the settings document.

  Two threads touch this state. The worker runs \<open>cycle\<close> and \<open>restore\<close>, GLib's main thread handles the
  signals and retries the journal clean-up. The worker is a program counter (\<open>job\<close>) that stands at the
  external call it waits for; one step of it takes the answer of that call and runs to the dispatch of the
  next one, and main-thread events interleave between these steps. A transaction is a mutable object shared
  by \<open>_restore\<close> and by the worker's local variable, so transactions live in a heap and are named by their
  index. \<open>ba_log\<close> records what was asked of BlueZ and of the disk; no operation reads it.

  This theory holds the operations; what they guarantee is shown in \<open>Power_Safety\<close>.
\<close>

section \<open>Data\<close>

record adapter_state =
  as_owner :: pystr
  as_address :: pystr
  as_powered :: bool
  as_safe :: bool
  as_power_state :: pystr
  as_revision :: nat
  as_incarnation :: nat
  as_le_reset_safe :: bool

record power_restore =
  pr_expected :: adapter_state
  pr_bus_id :: pystr
  pr_instance :: pystr
  pr_saw_off :: bool
  pr_completed :: bool

text \<open>The properties BlueZ publishes, with their documented types; \<open>None\<close> for a property that is not there.\<close>

record adapter1 =
  a1_address :: "pystr option"
  a1_powered :: "bool option"
  a1_power_state :: "pystr option"
  a1_discovering :: "bool option"
  a1_discoverable :: "bool option"

record device1 =
  d1_paired :: "bool option"
  d1_bonded :: "bool option"
  d1_blocked :: "bool option"
  d1_connected :: "bool option"

text \<open>One managed object: its interfaces; a bearer is its property \<open>Connected\<close>.\<close>

record managed =
  mo_adapter :: "adapter1 option"
  mo_device :: "device1 option"
  mo_le :: "bool option option"
  mo_bredr :: "bool option option"

type_synonym managed_objects = "(pystr \<times> managed) list"

datatype recovery_error = RuntimeError | KeyError | FileNotFoundError | DBusException pystr | OtherError

text \<open>
  One \<open>SettingsStore.update\<close>: it succeeds, it raises and leaves the document alone, or it raises after the
  new document replaced the old one (the directory could not be synchronised).
\<close>

datatype disk = Saved | Unsaved | SavedButRaised

datatype ba_entry = Journaled nat pystr | SentOff nat | SentOn nat | Completed nat | Loaded nat
  | InvalidateManaged | InvalidateAll | CacheProperties pystr pystr

datatype job = Idle
  | Prepare adapter_state
  | Recheck nat
  | Verify nat nat nat
  | PoweringOff nat
  | RestoreBus nat "recovery_error option"
  | RestoreProps nat "recovery_error option"
  | RestoreInstance nat bool "recovery_error option"
  | RestoreRead nat bool nat nat "recovery_error option"
  | PoweringOn nat "recovery_error option"
  | Finished "recovery_error option"

text \<open>The answer of the external call the worker waits for.\<close>

datatype answer = Prepared "recovery_error + pystr \<times> pystr" | Text "recovery_error + pystr"
  | Reply "recovery_error option" | Objects "recovery_error + pystr \<times> managed_objects"

record adapter_config =
  ac_path :: pystr
  ac_device :: pystr
  ac_case :: ucase
  ac_valid_bus_name :: "pystr \<Rightarrow> bool"

record power_adapter =
  ba_revision :: nat
  ba_incarnation :: nat
  ba_matches :: bool
  ba_heap :: "power_restore list"
  ba_restore :: "nat option"
  ba_stale :: bool
  ba_journal :: json
  ba_job :: job
  ba_log :: "ba_entry list"

definition pr_update :: "nat \<Rightarrow> (power_restore \<Rightarrow> power_restore) \<Rightarrow> power_adapter \<Rightarrow> power_adapter" where
  "pr_update t f s = s\<lparr>ba_heap := (ba_heap s)[t := f (ba_heap s ! t)]\<rparr>"

abbreviation transaction :: "power_adapter \<Rightarrow> nat \<Rightarrow> power_restore" where
  "transaction s t \<equiv> ba_heap s ! t"

definition ba_note :: "ba_entry \<Rightarrow> power_adapter \<Rightarrow> power_adapter" where
  "ba_note e s = s\<lparr>ba_log := e # ba_log s\<rparr>"

section \<open>The journal\<close>

definition restore_pending :: "power_adapter \<Rightarrow> bool" where
  "restore_pending s = (case ba_restore s of None \<Rightarrow> False | Some t \<Rightarrow> \<not> pr_completed (transaction s t))"

definition cleanup_pending :: "power_adapter \<Rightarrow> bool" where
  "cleanup_pending s =
     (ba_stale s \<or> (case ba_restore s of None \<Rightarrow> False | Some t \<Rightarrow> pr_completed (transaction s t)))"

definition nonempty_text :: "json option \<Rightarrow> pystr option" where
  "nonempty_text v = (case v of Some (JStr s) \<Rightarrow> if s = [] then None else Some s | _ \<Rightarrow> None)"

text \<open>\<open>raw.get("version") != 1\<close> compares numbers: \<open>1.0\<close> and \<open>true\<close> pass.\<close>

definition load_restore :: "adapter_config \<Rightarrow> json \<Rightarrow> power_restore option" where
  "load_restore cf raw =
     (case raw of
        JObj kvs \<Rightarrow>
          (let field = (\<lambda>k. map_of kvs (lit k)) in
           if (case field ''version'' of Some v \<Rightarrow> json_same v (JInt 1) | None \<Rightarrow> False) \<and>
              field ''path'' = Some (JStr (ac_path cf)) \<and> field ''device'' = Some (JStr (ac_device cf))
           then
             (case (nonempty_text (field ''owner''), nonempty_text (field ''address''),
                    nonempty_text (field ''bus_id''), nonempty_text (field ''instance''), field ''phase'') of
                (Some owner, Some address, Some bus, Some inst, Some (JStr phase)) \<Rightarrow>
                  if py_startswith owner (lit '':'') \<and> phase \<in> {lit ''off'', lit ''on''} \<and> ac_valid_bus_name cf owner
                  then Some \<lparr>pr_expected = \<lparr>as_owner = owner, as_address = address, as_powered = True, as_safe = True,
                               as_power_state = lit ''on'', as_revision = 0, as_incarnation = 0, as_le_reset_safe = False\<rparr>,
                             pr_bus_id = bus, pr_instance = inst, pr_saw_off = (phase = lit ''on''), pr_completed = False\<rparr>
                  else None
              | _ \<Rightarrow> None)
           else None)
      | _ \<Rightarrow> None)"

definition journal_of :: "adapter_config \<Rightarrow> power_restore \<Rightarrow> pystr \<Rightarrow> json" where
  "journal_of cf tr phase =
     JObj [(lit ''version'', JInt 1), (lit ''path'', JStr (ac_path cf)), (lit ''device'', JStr (ac_device cf)),
           (lit ''owner'', JStr (as_owner (pr_expected tr))), (lit ''address'', JStr (as_address (pr_expected tr))),
           (lit ''bus_id'', JStr (pr_bus_id tr)), (lit ''instance'', JStr (pr_instance tr)), (lit ''phase'', JStr phase)]"

definition update_journal :: "disk \<Rightarrow> json \<Rightarrow> power_adapter \<Rightarrow> power_adapter" where
  "update_journal d v s = (if d = Unsaved then s else s\<lparr>ba_journal := v\<rparr>)"

definition cleanup_journal :: "disk \<Rightarrow> power_adapter \<Rightarrow> power_adapter" where
  "cleanup_journal d s =
     (if \<not> cleanup_pending s then s
      else let s = update_journal d JNull s
        in if d = Saved then s\<lparr>ba_restore := None, ba_stale := False\<rparr> else s)"

definition complete_restore :: "disk \<Rightarrow> nat \<Rightarrow> power_adapter \<Rightarrow> power_adapter" where
  "complete_restore d t s =
     (let s = ba_note (Completed t) (pr_update t (pr_completed_update (\<lambda>_. True)) s)
      in if ba_restore s = Some t then cleanup_journal d s else s)"

text \<open>\<open>reload_journal\<close>; \<open>readable\<close>: an unreadable settings document reads as empty.\<close>

definition reload_journal :: "adapter_config \<Rightarrow> bool \<Rightarrow> power_adapter \<Rightarrow> power_adapter" where
  "reload_journal cf readable s =
     (let raw = (if readable then ba_journal s else JNull)
      in case load_restore cf raw of
           None \<Rightarrow> s\<lparr>ba_restore := None, ba_stale := (raw \<noteq> JNull)\<rparr>
         | Some tr \<Rightarrow> ba_note (Loaded (length (ba_heap s)))
             (s\<lparr>ba_heap := ba_heap s @ [tr], ba_restore := Some (length (ba_heap s)), ba_stale := False\<rparr>))"

text \<open>A new process over the settings document that is on disk.\<close>

definition BluezRecoveryAdapter_init :: "adapter_config \<Rightarrow> bool \<Rightarrow> json \<Rightarrow> power_adapter" where
  "BluezRecoveryAdapter_init cf readable doc =
     reload_journal cf readable \<lparr>ba_revision = 0, ba_incarnation = 0, ba_matches = False, ba_heap = [], ba_restore = None,
       ba_stale = False, ba_journal = doc, ba_job = Idle, ba_log = []\<rparr>"

section \<open>Signals\<close>

definition start_monitoring :: "bool \<Rightarrow> power_adapter \<Rightarrow> bool \<times> power_adapter" where
  "start_monitoring subscribed s =
     (if ba_matches s then (True, s) else (subscribed, s\<lparr>ba_matches := subscribed\<rparr>))"

definition stop_monitoring :: "power_adapter \<Rightarrow> power_adapter" where
  "stop_monitoring s = s\<lparr>ba_matches := False\<rparr>"

definition ADAPTER1 :: pystr where "ADAPTER1 = lit ''org.bluez.Adapter1''"
definition DEVICE1 :: pystr where "DEVICE1 = lit ''org.bluez.Device1''"
definition BEARER_LE1 :: pystr where "BEARER_LE1 = lit ''org.bluez.Bearer.LE1''"
definition BEARER_BREDR1 :: pystr where "BEARER_BREDR1 = lit ''org.bluez.Bearer.BREDR1''"

definition below_adapter :: "adapter_config \<Rightarrow> pystr \<Rightarrow> bool" where
  "below_adapter cf path = py_startswith path (ac_path cf @ lit ''/'')"

definition bump_revision :: "power_adapter \<Rightarrow> power_adapter" where
  "bump_revision s = ba_note InvalidateManaged (s\<lparr>ba_revision := ba_revision s + 1\<rparr>)"

definition interfaces_changed :: "adapter_config \<Rightarrow> pystr \<Rightarrow> pystr list \<Rightarrow> power_adapter \<Rightarrow> power_adapter" where
  "interfaces_changed cf path interfaces s =
     (if path = ac_path cf \<and> ADAPTER1 \<in> set interfaces
      then bump_revision (s\<lparr>ba_incarnation := ba_incarnation s + 1\<rparr>)
      else if below_adapter cf path \<and> (\<exists>name \<in> set [DEVICE1, BEARER_LE1, BEARER_BREDR1]. name \<in> set interfaces)
      then bump_revision s
      else s)"

definition adapter_owner_changed :: "power_adapter \<Rightarrow> power_adapter" where
  "adapter_owner_changed s =
     ba_note InvalidateAll (s\<lparr>ba_incarnation := ba_incarnation s + 1, ba_revision := ba_revision s + 1\<rparr>)"

text \<open>
  The part of \<open>_properties_changed\<close> under the lock: \<open>changed\<close> lists the changed properties with the truth
  value of the new value.
\<close>

definition observe_power :: "disk \<Rightarrow> (pystr \<times> bool) list \<Rightarrow> power_adapter \<Rightarrow> power_adapter" where
  "observe_power d changed s =
     (case (ba_restore s, map_of changed (lit ''Powered'')) of
        (Some t, Some on) \<Rightarrow>
          if \<not> on then pr_update t (pr_saw_off_update (\<lambda>_. True)) s
          else if pr_saw_off (transaction s t) then complete_restore d t s
          else s
      | _ \<Rightarrow> s)"

definition relevant_change :: "adapter_config \<Rightarrow> pystr \<Rightarrow> pystr \<Rightarrow> pystr set \<Rightarrow> bool" where
  "relevant_change cf path interface names =
     (if path = ac_path cf \<and> interface = ADAPTER1
      then names \<inter> {lit ''Address'', lit ''Powered'', lit ''PowerState'', lit ''Discovering'', lit ''Discoverable''} \<noteq> {}
      else if below_adapter cf path
      then if interface = DEVICE1
           then names \<inter> ({lit ''Paired'', lit ''Bonded'', lit ''Blocked''} \<union>
                  (if path \<noteq> ac_device cf then {lit ''Connected''} else {})) \<noteq> {}
           else path \<noteq> ac_device cf \<and> interface \<in> {BEARER_LE1, BEARER_BREDR1} \<and> lit ''Connected'' \<in> names
      else False)"

definition properties_changed ::
  "adapter_config \<Rightarrow> disk \<Rightarrow> pystr \<Rightarrow> pystr \<Rightarrow> (pystr \<times> bool) list \<Rightarrow> pystr list \<Rightarrow> power_adapter \<Rightarrow> power_adapter" where
  "properties_changed cf d path interface changed invalidated s =
     (let names = fst ` set changed \<union> set invalidated;
          s = ba_note (CacheProperties path interface) s;
          s = (if path = ac_path cf \<and> interface = ADAPTER1 then observe_power d changed s else s)
      in if relevant_change cf path interface names then bump_revision s else s)"

section \<open>Snapshots\<close>

definition prop_or :: "bool \<Rightarrow> bool option \<Rightarrow> bool" where
  "prop_or dflt v = (case v of None \<Rightarrow> dflt | Some b \<Rightarrow> b)"

definition bearer_connected :: "bool option option \<Rightarrow> bool" where
  "bearer_connected b = (b = Some (Some True))"

definition blocks_cycle :: "adapter_config \<Rightarrow> pystr \<times> managed \<Rightarrow> bool" where
  "blocks_cycle cf po =
     (let (path, ob) = po in below_adapter cf path \<and> path \<noteq> ac_device cf \<and>
        (case mo_device ob of None \<Rightarrow> False
         | Some dev \<Rightarrow> prop_or True (d1_connected dev) \<or> prop_or False (d1_paired dev) \<or> prop_or False (d1_bonded dev) \<or>
             bearer_connected (mo_le ob) \<or> bearer_connected (mo_bredr ob)))"

definition state_from_objects ::
  "adapter_config \<Rightarrow> pystr \<Rightarrow> managed_objects \<Rightarrow> nat \<Rightarrow> nat \<Rightarrow> power_adapter \<Rightarrow> recovery_error + adapter_state" where
  "state_from_objects cf owner objects revision incarnation s =
     (case Option.bind (map_of objects (ac_path cf)) mo_adapter of
        None \<Rightarrow> Inl KeyError
      | Some props \<Rightarrow>
          let phone = Option.bind (map_of objects (ac_device cf)) mo_device;
              flag = (\<lambda>dflt f. prop_or dflt (Option.bind phone f))
          in case a1_powered props of
               None \<Rightarrow> Inl KeyError
             | Some powered \<Rightarrow>
                 let power_state = (case a1_power_state props of None \<Rightarrow> [] | Some p \<Rightarrow> p);
                     le_reset_safe = (powered \<and> power_state = lit ''on'' \<and> flag (flag False d1_paired) d1_bonded \<and>
                                      \<not> flag False d1_blocked);
                     safe = (le_reset_safe \<and> \<not> prop_or True (a1_discovering props) \<and> \<not> prop_or True (a1_discoverable props) \<and>
                             \<not> (\<exists>po \<in> set objects. blocks_cycle cf po))
                 in if revision \<noteq> ba_revision s then Inl RuntimeError
                    else case a1_address props of
                           None \<Rightarrow> Inl KeyError
                         | Some address \<Rightarrow>
                             Inr \<lparr>as_owner = owner, as_address = py_upper (ac_case cf) address, as_powered = powered, as_safe = safe,
                               as_power_state = power_state, as_revision = revision, as_incarnation = incarnation,
                               as_le_reset_safe = le_reset_safe\<rparr>)"

section \<open>The power cycle\<close>

definition goto_job :: "job \<Rightarrow> power_adapter \<Rightarrow> power_adapter" where
  "goto_job j s = s\<lparr>ba_job := j\<rparr>"

abbreviation raise_job :: "recovery_error \<Rightarrow> power_adapter \<Rightarrow> power_adapter" where
  "raise_job e \<equiv> goto_job (Finished (Some e))"

text \<open>\<open>cycle\<close> up to its first external calls.\<close>

definition cycle_begin :: "adapter_state \<Rightarrow> power_adapter \<Rightarrow> power_adapter" where
  "cycle_begin expected s =
     (if restore_pending s \<or> cleanup_pending s then raise_job RuntimeError s else goto_job (Prepare expected) s)"

text \<open>
  The bus and the insertion are known: journal the transaction and install it. A failed write raises and
  nothing was sent.
\<close>

definition cycle_journal :: "adapter_config \<Rightarrow> disk \<Rightarrow> adapter_state \<Rightarrow> pystr \<Rightarrow> pystr \<Rightarrow> power_adapter \<Rightarrow> power_adapter" where
  "cycle_journal cf d expected bus inst s =
     (let tr = \<lparr>pr_expected = expected, pr_bus_id = bus, pr_instance = inst, pr_saw_off = False, pr_completed = False\<rparr>;
          t = length (ba_heap s);
          s = update_journal d (journal_of cf tr (lit ''off'')) (s\<lparr>ba_heap := ba_heap s @ [tr]\<rparr>)
      in if d = Saved then goto_job (Recheck t) (ba_note (Journaled t (lit ''off'')) (s\<lparr>ba_restore := Some t\<rparr>))
         else raise_job OtherError s)"

text \<open>No power request was sent: the obligation ends with the exception.\<close>

definition cycle_abandon :: "disk \<Rightarrow> nat \<Rightarrow> recovery_error \<Rightarrow> power_adapter \<Rightarrow> power_adapter" where
  "cycle_abandon d t e s = raise_job e (complete_restore d t s)"

definition cycle_recheck :: "disk \<Rightarrow> nat \<Rightarrow> recovery_error + pystr \<Rightarrow> power_adapter \<Rightarrow> power_adapter" where
  "cycle_recheck d t inst s =
     (case inst of
        Inl e \<Rightarrow> cycle_abandon d t e s
      | Inr i \<Rightarrow> if i \<noteq> pr_instance (transaction s t) then cycle_abandon d t RuntimeError s
                 else goto_job (Verify t (ba_revision s) (ba_incarnation s)) s)"

definition read_answer ::
  "adapter_config \<Rightarrow> recovery_error + pystr \<times> managed_objects \<Rightarrow> nat \<Rightarrow> nat \<Rightarrow> power_adapter \<Rightarrow> recovery_error + adapter_state" where
  "read_answer cf a revision incarnation s =
     (case a of Inl e \<Rightarrow> Inl e | Inr (owner, objects) \<Rightarrow> state_from_objects cf owner objects revision incarnation s)"

definition cycle_verify ::
  "disk \<Rightarrow> bool \<Rightarrow> nat \<Rightarrow> recovery_error + adapter_state \<Rightarrow> power_adapter \<Rightarrow> power_adapter" where
  "cycle_verify d cancelled t result s =
     (case result of
        Inl e \<Rightarrow> cycle_abandon d t e s
      | Inr current \<Rightarrow>
          if cancelled \<or> current \<noteq> pr_expected (transaction s t) \<or> \<not> as_safe current \<or>
             ba_revision s \<noteq> as_revision current \<or> pr_completed (transaction s t)
          then cycle_abandon d t RuntimeError s
          else goto_job (PoweringOff t) (ba_note (SentOff t) s))"

section \<open>Restoring power\<close>

text \<open>
  \<open>restore\<close> up to its first external call. \<open>e\<close> is the exception of a failed \<open>Set(False)\<close> that leaves
  \<open>cycle\<close> after its \<open>finally\<close> block returned.
\<close>

definition restore_begin :: "disk \<Rightarrow> recovery_error option \<Rightarrow> power_adapter \<Rightarrow> power_adapter" where
  "restore_begin d e s =
     (let s = cleanup_journal d s
      in case ba_restore s of
           None \<Rightarrow> goto_job (Finished e) s
         | Some t \<Rightarrow> if pr_completed (transaction s t) then goto_job (Finished e) s else goto_job (RestoreBus t e) s)"

definition restore_bus :: "disk \<Rightarrow> nat \<Rightarrow> recovery_error option \<Rightarrow> recovery_error + pystr \<Rightarrow> power_adapter \<Rightarrow> power_adapter" where
  "restore_bus d t e bus s =
     (case bus of
        Inl x \<Rightarrow> raise_job x s
      | Inr b \<Rightarrow> if b \<noteq> pr_bus_id (transaction s t) then raise_job RuntimeError (complete_restore d t s)
                 else goto_job (RestoreProps t e) s)"

definition GONE_ERRORS :: "pystr list" where
  "GONE_ERRORS = [lit ''org.freedesktop.DBus.Error.NameHasNoOwner'', lit ''org.freedesktop.DBus.Error.ServiceUnknown'',
     lit ''org.freedesktop.DBus.Error.UnknownObject'']"

text \<open>The \<open>except\<close> clauses of \<open>_restoration_state\<close>.\<close>

definition restoration_error :: "disk \<Rightarrow> nat \<Rightarrow> recovery_error \<Rightarrow> power_adapter \<Rightarrow> power_adapter" where
  "restoration_error d t x s =
     (case x of
        FileNotFoundError \<Rightarrow> raise_job RuntimeError (complete_restore d t s)
      | KeyError \<Rightarrow> raise_job RuntimeError (complete_restore d t s)
      | DBusException name \<Rightarrow> raise_job x (if name \<in> set GONE_ERRORS then complete_restore d t s else s)
      | _ \<Rightarrow> raise_job x s)"

definition restoration_instance ::
  "disk \<Rightarrow> nat \<Rightarrow> bool \<Rightarrow> recovery_error option \<Rightarrow> recovery_error + pystr \<Rightarrow> power_adapter \<Rightarrow> power_adapter" where
  "restoration_instance d t final e inst s =
     (case inst of
        Inl x \<Rightarrow> restoration_error d t x s
      | Inr i \<Rightarrow>
          if i \<noteq> pr_instance (transaction s t) \<or> ba_incarnation s \<noteq> as_incarnation (pr_expected (transaction s t))
          then raise_job RuntimeError (complete_restore d t s)
          else goto_job (RestoreRead t final (ba_revision s) (ba_incarnation s) e) s)"

definition TERMINAL_POWER :: "pystr list" where
  "TERMINAL_POWER = [lit ''on'', lit ''off'']"

text \<open>What \<open>restore\<close> does with the first snapshot.\<close>

definition restore_decide ::
  "adapter_config \<Rightarrow> disk \<Rightarrow> nat \<Rightarrow> recovery_error option \<Rightarrow> adapter_state \<Rightarrow> power_adapter \<Rightarrow> power_adapter" where
  "restore_decide cf d t e current s =
     (if as_power_state current \<notin> set TERMINAL_POWER then goto_job (Finished e) s
      else if as_powered current then goto_job (Finished e) (complete_restore d t s)
      else if pr_completed (transaction s t) then goto_job (Finished e) (complete_restore d t s)
      else if ba_incarnation s \<noteq> as_incarnation (pr_expected (transaction s t))
      then raise_job RuntimeError (complete_restore d t s)
      else let s = pr_update t (pr_saw_off_update (\<lambda>_. True)) s;
               s = update_journal d (journal_of cf (transaction s t) (lit ''on'')) s;
               s = (if d = Saved then ba_note (Journaled t (lit ''on'')) s else s)
           in goto_job (RestoreInstance t True e) s)"

text \<open>What it does with the second snapshot, right before the request.\<close>

definition restore_request ::
  "disk \<Rightarrow> nat \<Rightarrow> recovery_error option \<Rightarrow> adapter_state \<Rightarrow> power_adapter \<Rightarrow> power_adapter" where
  "restore_request d t e current s =
     (let terminal = as_power_state current \<in> set TERMINAL_POWER; done = pr_completed (transaction s t) in
      if done \<or> as_powered current \<or> \<not> terminal
      then goto_job (Finished e) (if done \<or> as_powered current \<and> terminal then complete_restore d t s else s)
      else goto_job (PoweringOn t e) (ba_note (SentOn t) s))"

definition restoration_read ::
  "adapter_config \<Rightarrow> disk \<Rightarrow> nat \<Rightarrow> bool \<Rightarrow> recovery_error option \<Rightarrow> recovery_error + adapter_state \<Rightarrow> power_adapter \<Rightarrow> power_adapter" where
  "restoration_read cf d t final e result s =
     (let expected = pr_expected (transaction s t) in
      case result of
        Inl x \<Rightarrow> restoration_error d t x s
      | Inr current \<Rightarrow>
          if as_owner current \<noteq> as_owner expected \<or> as_address current \<noteq> as_address expected \<or>
             as_incarnation current \<noteq> as_incarnation expected
          then raise_job RuntimeError (complete_restore d t s)
          else if as_power_state current = lit ''off-blocked'' then raise_job RuntimeError (complete_restore d t s)
          else if final then restore_request d t e current s else restore_decide cf d t e current s)"

definition restore_requested :: "disk \<Rightarrow> nat \<Rightarrow> recovery_error option \<Rightarrow> recovery_error option \<Rightarrow> power_adapter \<Rightarrow> power_adapter" where
  "restore_requested d t e reply s =
     (case reply of Some x \<Rightarrow> raise_job x s | None \<Rightarrow> goto_job (Finished e) (complete_restore d t s))"

section \<open>The worker and the main thread\<close>

text \<open>
  One step of the worker: the answer of the call it waits for, whether the cycle was cancelled, and the
  outcome of the settings update this step may make (each step makes at most one).
\<close>

fun run_job :: "adapter_config \<Rightarrow> disk \<Rightarrow> bool \<Rightarrow> answer \<Rightarrow> job \<Rightarrow> power_adapter \<Rightarrow> power_adapter" where
  "run_job cf d c a (Prepare expected) s =
     (case a of
        Prepared r \<Rightarrow> (case r of Inl e \<Rightarrow> raise_job e s | Inr (bus, inst) \<Rightarrow> cycle_journal cf d expected bus inst s)
      | _ \<Rightarrow> s)"
| "run_job cf d c a (Recheck t) s = (case a of Text inst \<Rightarrow> cycle_recheck d t inst s | _ \<Rightarrow> s)"
| "run_job cf d c a (Verify t revision incarnation) s =
     (case a of Objects r \<Rightarrow> cycle_verify d c t (read_answer cf r revision incarnation s) s | _ \<Rightarrow> s)"
| "run_job cf d c a (PoweringOff t) s = (case a of Reply r \<Rightarrow> restore_begin d r s | _ \<Rightarrow> s)"
| "run_job cf d c a (RestoreBus t e) s = (case a of Text bus \<Rightarrow> restore_bus d t e bus s | _ \<Rightarrow> s)"
| "run_job cf d c a (RestoreProps t e) s =
     (case a of Reply None \<Rightarrow> goto_job (RestoreInstance t False e) s | Reply (Some x) \<Rightarrow> raise_job x s | _ \<Rightarrow> s)"
| "run_job cf d c a (RestoreInstance t final e) s =
     (case a of Text inst \<Rightarrow> restoration_instance d t final e inst s | _ \<Rightarrow> s)"
| "run_job cf d c a (RestoreRead t final revision incarnation e) s =
     (case a of
        Objects r \<Rightarrow> restoration_read cf d t final e (read_answer cf r revision incarnation s) s
      | _ \<Rightarrow> s)"
| "run_job cf d c a (PoweringOn t e) s = (case a of Reply r \<Rightarrow> restore_requested d t e r s | _ \<Rightarrow> s)"
| "run_job cf d c a Idle s = s"
| "run_job cf d c a (Finished e) s = s"

definition worker_step :: "adapter_config \<Rightarrow> disk \<Rightarrow> bool \<Rightarrow> answer \<Rightarrow> power_adapter \<Rightarrow> power_adapter" where
  "worker_step cf d c a s = run_job cf d c a (ba_job s) s"

text \<open>
  Everything that happens to the adapter: signals and clean-up on the main thread, jobs that are handed to
  the worker, the worker's steps and the delivery of a result.
\<close>

datatype ba_event =
    InterfacesChanged pystr "pystr list"
  | OwnerChanged
  | PropertiesChanged disk pystr pystr "(pystr \<times> bool) list" "pystr list"
  | Cleanup disk
  | Monitor bool
  | Unmonitor
  | StartCycle adapter_state
  | StartRestore disk
  | WorkerStep disk bool answer
  | Delivered

fun ba_apply :: "adapter_config \<Rightarrow> ba_event \<Rightarrow> power_adapter \<Rightarrow> power_adapter" where
  "ba_apply cf (InterfacesChanged path interfaces) s = (if ba_matches s then interfaces_changed cf path interfaces s else s)"
| "ba_apply cf OwnerChanged s = (if ba_matches s then adapter_owner_changed s else s)"
| "ba_apply cf (PropertiesChanged d path interface changed invalidated) s =
     (if ba_matches s then properties_changed cf d path interface changed invalidated s else s)"
| "ba_apply cf (Cleanup d) s = cleanup_journal d s"
| "ba_apply cf (Monitor subscribed) s = snd (start_monitoring subscribed s)"
| "ba_apply cf Unmonitor s = stop_monitoring s"
| "ba_apply cf (StartCycle expected) s = (if ba_job s = Idle then cycle_begin expected s else s)"
| "ba_apply cf (StartRestore d) s = (if ba_job s = Idle then restore_begin d None s else s)"
| "ba_apply cf (WorkerStep d c a) s = worker_step cf d c a s"
| "ba_apply cf Delivered s = (case ba_job s of Finished e \<Rightarrow> goto_job Idle s | _ \<Rightarrow> s)"

text \<open>
  What D-Bus and the kernel promise: \<open>GetNameOwner\<close> answers a unique bus name, an adapter has an address, the
  bus an identifier and the adapter directory an insertion.
\<close>

definition unique_name :: "adapter_config \<Rightarrow> pystr \<Rightarrow> bool" where
  "unique_name cf owner \<longleftrightarrow> py_startswith owner (lit '':'') \<and> ac_valid_bus_name cf owner"

definition known_adapter :: "adapter_config \<Rightarrow> adapter_state \<Rightarrow> bool" where
  "known_adapter cf st \<longleftrightarrow> unique_name cf (as_owner st) \<and> as_address st \<noteq> []"

fun sound_event :: "adapter_config \<Rightarrow> ba_event \<Rightarrow> bool" where
  "sound_event cf (StartCycle expected) = known_adapter cf expected"
| "sound_event cf (WorkerStep d c (Prepared (Inr (bus, inst)))) = (bus \<noteq> [] \<and> inst \<noteq> [])"
| "sound_event cf _ = True"

inductive ba_step :: "adapter_config \<Rightarrow> power_adapter \<Rightarrow> power_adapter \<Rightarrow> bool" for cf where
  "sound_event cf ev \<Longrightarrow> ba_step cf s (ba_apply cf ev s)"

inductive_cases ba_stepE: "ba_step cf s s'"

definition ba_init :: "adapter_config \<Rightarrow> power_adapter \<Rightarrow> bool" where
  "ba_init cf s \<longleftrightarrow> (\<exists>readable doc. s = BluezRecoveryAdapter_init cf readable doc)"

end
