(* ===== verification/Power_Safety.thy ===== *)
theory Power_Safety
  imports Power_Restore
begin

text \<open>
  What the adapter's power transaction guarantees, whatever signals interleave with the worker, however its
  D-Bus calls end and whichever settings updates fail: the controller is switched off only while the journal on
  disk records the obligation to switch it on again, a restart of the daemon finds a pending obligation
  unchanged, and a completed transaction never switches the controller on again.
\<close>

section \<open>The invariant\<close>

definition same_target :: "power_restore \<Rightarrow> power_restore \<Rightarrow> bool" where
  "same_target a b \<longleftrightarrow> as_owner (pr_expected a) = as_owner (pr_expected b) \<and>
     as_address (pr_expected a) = as_address (pr_expected b) \<and> pr_bus_id a = pr_bus_id b \<and> pr_instance a = pr_instance b"

definition wf_restore :: "adapter_config \<Rightarrow> power_restore \<Rightarrow> bool" where
  "wf_restore cf tr \<longleftrightarrow> known_adapter cf (pr_expected tr) \<and> pr_bus_id tr \<noteq> [] \<and> pr_instance tr \<noteq> []"

fun power_log_ok :: "ba_entry list \<Rightarrow> bool" where
  "power_log_ok [] = True"
| "power_log_ok (SentOff t # l) =
     (Journaled t (lit ''off'') \<in> set l \<and> SentOff t \<notin> set l \<and> Completed t \<notin> set l \<and> power_log_ok l)"
| "power_log_ok (SentOn t # l) =
     (Completed t \<notin> set l \<and> (SentOff t \<in> set l \<or> Loaded t \<in> set l) \<and> power_log_ok l)"
| "power_log_ok (_ # l) = power_log_ok l"

definition heap_inv :: "adapter_config \<Rightarrow> power_adapter \<Rightarrow> bool" where
  "heap_inv cf s \<longleftrightarrow> (\<forall>t < length (ba_heap s). wf_restore cf (transaction s t)) \<and>
     (\<forall>t. ba_restore s = Some t \<longrightarrow> t < length (ba_heap s) \<and> \<not> ba_stale s)"

definition journal_inv :: "adapter_config \<Rightarrow> power_adapter \<Rightarrow> bool" where
  "journal_inv cf s \<longleftrightarrow> (\<forall>t. ba_restore s = Some t \<longrightarrow> \<not> pr_completed (transaction s t) \<longrightarrow>
     (\<exists>tr. load_restore cf (ba_journal s) = Some tr \<and> same_target tr (transaction s t)))"

definition log_inv :: "power_adapter \<Rightarrow> bool" where
  "log_inv s \<longleftrightarrow> power_log_ok (ba_log s) \<and>
     (\<forall>t. Completed t \<in> set (ba_log s) \<longrightarrow> t < length (ba_heap s) \<and> pr_completed (transaction s t)) \<and>
     (\<forall>t. SentOff t \<in> set (ba_log s) \<longrightarrow> t < length (ba_heap s))"

definition owes :: "power_adapter \<Rightarrow> nat \<Rightarrow> bool" where
  "owes s t \<longleftrightarrow> SentOff t \<in> set (ba_log s) \<or> Loaded t \<in> set (ba_log s)"

definition tracked :: "power_adapter \<Rightarrow> nat \<Rightarrow> bool" where
  "tracked s t \<longleftrightarrow> t < length (ba_heap s) \<and> (ba_restore s = Some t \<or> ba_restore s = None \<and> pr_completed (transaction s t))"

fun preflight :: "job \<Rightarrow> nat option" where
  "preflight (Recheck t) = Some t"
| "preflight (Verify t r i) = Some t"
| "preflight _ = None"

definition owed_inv :: "power_adapter \<Rightarrow> bool" where
  "owed_inv s \<longleftrightarrow> (\<forall>t. ba_restore s = Some t \<longrightarrow> \<not> pr_completed (transaction s t) \<longrightarrow>
     owes s t \<or> preflight (ba_job s) = Some t)"

fun job_ok :: "adapter_config \<Rightarrow> power_adapter \<Rightarrow> job \<Rightarrow> bool" where
  "job_ok cf s (Prepare expected) = (known_adapter cf expected \<and> ba_restore s = None \<and> \<not> ba_stale s)"
| "job_ok cf s (Recheck t) = (tracked s t \<and> Journaled t (lit ''off'') \<in> set (ba_log s) \<and> SentOff t \<notin> set (ba_log s))"
| "job_ok cf s (Verify t r i) = (tracked s t \<and> Journaled t (lit ''off'') \<in> set (ba_log s) \<and> SentOff t \<notin> set (ba_log s))"
| "job_ok cf s (PoweringOff t) = (tracked s t \<and> owes s t)"
| "job_ok cf s (RestoreBus t e) = (tracked s t \<and> owes s t)"
| "job_ok cf s (RestoreProps t e) = (tracked s t \<and> owes s t)"
| "job_ok cf s (RestoreInstance t final e) = (tracked s t \<and> owes s t)"
| "job_ok cf s (RestoreRead t final r i e) = (tracked s t \<and> owes s t)"
| "job_ok cf s (PoweringOn t e) = (tracked s t \<and> owes s t)"
| "job_ok cf s Idle = True"
| "job_ok cf s (Finished e) = True"

definition ba_inv :: "adapter_config \<Rightarrow> power_adapter \<Rightarrow> bool" where
  "ba_inv cf s \<longleftrightarrow> heap_inv cf s \<and> journal_inv cf s \<and> log_inv s \<and> owed_inv s \<and> job_ok cf s (ba_job s)"

section \<open>Changes that keep the obligations\<close>

text \<open>
  The signal handlers, the clean-up and the end of a transaction leave the worker's job and the target of
  every transaction alone, only latch \<open>completed\<close>, drop \<open>_restore\<close> only when it is completed, and let the
  journal go only when nothing is pending.
\<close>

fun quiet_entry :: "power_adapter \<Rightarrow> ba_entry \<Rightarrow> bool" where
  "quiet_entry s (SentOff t) = False"
| "quiet_entry s (SentOn t) = False"
| "quiet_entry s (Loaded t) = False"
| "quiet_entry s (Completed t) = (t < length (ba_heap s) \<and> pr_completed (transaction s t))"
| "quiet_entry s _ = True"

definition heap_grows :: "power_adapter \<Rightarrow> power_adapter \<Rightarrow> bool" where
  "heap_grows s s' \<longleftrightarrow> length (ba_heap s') = length (ba_heap s) \<and>
     (\<forall>t < length (ba_heap s). pr_expected (transaction s' t) = pr_expected (transaction s t) \<and>
        pr_bus_id (transaction s' t) = pr_bus_id (transaction s t) \<and> pr_instance (transaction s' t) = pr_instance (transaction s t) \<and>
        (pr_completed (transaction s t) \<longrightarrow> pr_completed (transaction s' t)))"

definition journal_kept :: "adapter_config \<Rightarrow> power_adapter \<Rightarrow> power_adapter \<Rightarrow> bool" where
  "journal_kept cf s s' \<longleftrightarrow> (\<forall>t. ba_restore s' = Some t \<longrightarrow> \<not> pr_completed (transaction s' t) \<longrightarrow>
     ba_journal s' = ba_journal s \<or> (\<exists>phase \<in> {lit ''off'', lit ''on''}. ba_journal s' = journal_of cf (transaction s' t) phase))"

definition quiet :: "adapter_config \<Rightarrow> power_adapter \<Rightarrow> power_adapter \<Rightarrow> bool" where
  "quiet cf s s' \<longleftrightarrow> heap_grows s s' \<and> journal_kept cf s s' \<and>
     (ba_restore s' = ba_restore s \<or> ba_restore s' = None \<and> (\<forall>t. ba_restore s = Some t \<longrightarrow> pr_completed (transaction s' t))) \<and>
     (ba_stale s' \<longrightarrow> ba_stale s) \<and> ba_job s' = ba_job s \<and>
     (\<exists>l. ba_log s' = l @ ba_log s \<and> (\<forall>e \<in> set l. quiet_entry s' e))"

lemma load_journal_of:
  assumes "wf_restore cf tr" "phase \<in> {lit ''off'', lit ''on''}"
  shows "\<exists>tr'. load_restore cf (journal_of cf tr phase) = Some tr' \<and> same_target tr' tr \<and> \<not> pr_completed tr'"
  using assms by (auto simp: load_restore_def journal_of_def wf_restore_def known_adapter_def unique_name_def
      nonempty_text_def json_same_def same_target_def lit_def)

lemma load_restore_wf: "load_restore cf raw = Some tr \<Longrightarrow> wf_restore cf tr \<and> \<not> pr_completed tr"
  by (auto simp: load_restore_def wf_restore_def known_adapter_def unique_name_def nonempty_text_def Let_def
      split: json.splits if_splits option.splits)

lemma same_target_trans: "same_target a b \<Longrightarrow> same_target b c \<Longrightarrow> same_target a c"
  by (simp add: same_target_def)

lemma heap_grows_target:
  "heap_grows s s' \<Longrightarrow> t < length (ba_heap s) \<Longrightarrow>
   same_target (transaction s t) (transaction s' t) \<and> (wf_restore cf (transaction s' t) \<longleftrightarrow> wf_restore cf (transaction s t))"
  by (simp add: heap_grows_def same_target_def wf_restore_def)

lemma power_log_ok_append:
  "power_log_ok l' \<Longrightarrow> \<forall>e \<in> set l. quiet_entry s e \<Longrightarrow> power_log_ok (l @ l')"
proof (induction l)
  case (Cons e l)
  then show ?case by (cases e) auto
qed simp

lemma quiet_inv:
  assumes q: "quiet cf s s'" and i: "ba_inv cf s"
  shows "ba_inv cf s'"
proof -
  note grows = q [unfolded quiet_def, THEN conjunct1]
  obtain l where l: "ba_log s' = l @ ba_log s" "\<And>e. e \<in> set l \<Longrightarrow> quiet_entry s' e"
    using q by (auto simp: quiet_def)
  have len: "length (ba_heap s') = length (ba_heap s)"
    and latch: "\<And>t. t < length (ba_heap s) \<Longrightarrow> pr_completed (transaction s t) \<Longrightarrow> pr_completed (transaction s' t)"
    using grows by (auto simp: heap_grows_def)
  have job: "ba_job s' = ba_job s" and stale: "ba_stale s' \<Longrightarrow> ba_stale s"
    and prior: "\<And>t. ba_restore s' = Some t \<Longrightarrow> ba_restore s = Some t"
    and forth: "\<And>t. ba_restore s = Some t \<Longrightarrow> ba_restore s' = Some t \<or> ba_restore s' = None \<and> pr_completed (transaction s' t)"
    using q by (auto simp: quiet_def)
  have gone: "ba_restore s = None \<Longrightarrow> ba_restore s' = None" using prior by (cases "ba_restore s'") auto
  have neutral: "SentOff t \<in> set (ba_log s') \<longleftrightarrow> SentOff t \<in> set (ba_log s)"
    "Loaded t \<in> set (ba_log s') \<longleftrightarrow> Loaded t \<in> set (ba_log s)" for t
    using l by force+
  have owes: "owes s' t \<longleftrightarrow> owes s t" for t by (simp add: owes_def neutral)
  have tracked: "tracked s t \<Longrightarrow> tracked s' t" for t
    using latch forth gone by (auto simp: tracked_def len)
  have heap: "heap_inv cf s'"
    using i prior stale heap_grows_target [OF grows, of _ cf] by (auto simp: ba_inv_def heap_inv_def len)
  have "journal_inv cf s'"
    unfolding journal_inv_def
  proof (intro allI impI)
    fix t assume t: "ba_restore s' = Some t" "\<not> pr_completed (transaction s' t)"
    have lt: "t < length (ba_heap s)" using t(1) heap by (simp add: heap_inv_def len)
    have "ba_journal s' = ba_journal s \<or> (\<exists>phase \<in> {lit ''off'', lit ''on''}. ba_journal s' = journal_of cf (transaction s' t) phase)"
      using q t by (auto simp: quiet_def journal_kept_def)
    then show "\<exists>tr. load_restore cf (ba_journal s') = Some tr \<and> same_target tr (transaction s' t)"
    proof
      assume "ba_journal s' = ba_journal s"
      moreover obtain tr where "load_restore cf (ba_journal s) = Some tr" "same_target tr (transaction s t)"
        using i prior [OF t(1)] t(2) latch lt by (auto simp: ba_inv_def journal_inv_def)
      ultimately show ?thesis using heap_grows_target [OF grows lt] by (auto intro: same_target_trans)
    next
      assume "\<exists>phase \<in> {lit ''off'', lit ''on''}. ba_journal s' = journal_of cf (transaction s' t) phase"
      then obtain phase where "phase \<in> {lit ''off'', lit ''on''}" "ba_journal s' = journal_of cf (transaction s' t) phase" by blast
      moreover have "wf_restore cf (transaction s' t)" using heap lt by (simp add: heap_inv_def len)
      ultimately show ?thesis using load_journal_of by metis
    qed
  qed
  moreover have "log_inv s'"
    unfolding log_inv_def
  proof (intro conjI allI impI)
    show "power_log_ok (ba_log s')"
      using i l by (auto simp: ba_inv_def log_inv_def intro!: power_log_ok_append)
    fix t
    show "t < length (ba_heap s')" if "SentOff t \<in> set (ba_log s')"
      using that i by (simp add: neutral ba_inv_def log_inv_def len)
    show "t < length (ba_heap s')" if c: "Completed t \<in> set (ba_log s')"
      using c l i by (force simp: ba_inv_def log_inv_def len)
    show "pr_completed (transaction s' t)" if c: "Completed t \<in> set (ba_log s')"
      using c l i latch by (force simp: ba_inv_def log_inv_def)
  qed
  moreover have "owed_inv s'"
    using i prior latch by (auto simp: ba_inv_def owed_inv_def owes job heap_inv_def)
  moreover have "job_ok cf s' (ba_job s')"
    using i tracked owes neutral l(1) gone stale unfolding ba_inv_def job
    by (cases "ba_job s") auto
  ultimately show ?thesis using heap by (simp add: ba_inv_def)
qed

lemma quiet_refl [simp]: "quiet cf s s"
  by (simp add: quiet_def heap_grows_def journal_kept_def)

lemma quiet_note: "quiet_entry s e \<Longrightarrow> quiet cf s (ba_note e s)"
  by (cases e) (auto simp: quiet_def heap_grows_def journal_kept_def ba_note_def)

lemma quiet_saw_off: "quiet cf s (pr_update t (pr_saw_off_update f) s)"
  by (cases "t < length (ba_heap s)")
    (auto simp: quiet_def heap_grows_def journal_kept_def pr_update_def nth_list_update)

lemma quiet_cleanup: "heap_inv cf s \<Longrightarrow> quiet cf s (cleanup_journal d s)"
  by (auto simp: heap_inv_def quiet_def heap_grows_def journal_kept_def cleanup_journal_def cleanup_pending_def update_journal_def Let_def
      split: option.splits)

lemma quiet_complete:
  assumes "t < length (ba_heap s)" "heap_inv cf s"
  shows "quiet cf s (complete_restore d t s)"
  using assms
  by (auto simp: heap_inv_def quiet_def heap_grows_def journal_kept_def complete_restore_def cleanup_journal_def cleanup_pending_def
      update_journal_def pr_update_def ba_note_def nth_list_update Let_def split: option.splits)

lemma quiet_revision: "quiet cf s (s\<lparr>ba_revision := r, ba_incarnation := i\<rparr>)"
  by (simp add: quiet_def heap_grows_def journal_kept_def)

lemma quiet_monitor: "quiet cf s (s\<lparr>ba_matches := m\<rparr>)"
  by (simp add: quiet_def heap_grows_def journal_kept_def)

section \<open>Every step keeps the invariant\<close>

lemma job_ok_cong:
  "ba_heap s' = ba_heap s \<Longrightarrow> ba_restore s' = ba_restore s \<Longrightarrow> ba_stale s' = ba_stale s \<Longrightarrow> ba_log s' = ba_log s \<Longrightarrow>
   job_ok cf s' j = job_ok cf s j"
  by (cases j) (simp_all add: tracked_def owes_def)

lemma goto_job_inv:
  assumes i: "ba_inv cf s" and j: "job_ok cf s j"
    and o: "\<And>t. ba_restore s = Some t \<Longrightarrow> \<not> pr_completed (transaction s t) \<Longrightarrow> preflight (ba_job s) = Some t \<Longrightarrow> preflight j = Some t"
  shows "ba_inv cf (goto_job j s)"
proof -
  have "job_ok cf (goto_job j s) j" using j job_ok_cong [of "goto_job j s" s cf j] by (simp add: goto_job_def)
  moreover have "owed_inv (goto_job j s)"
    using i o by (auto simp: ba_inv_def owed_inv_def goto_job_def owes_def)
  ultimately show ?thesis
    using i by (simp add: ba_inv_def heap_inv_def journal_inv_def log_inv_def goto_job_def)
qed

lemma goto_job_calm:
  "ba_inv cf s \<Longrightarrow> preflight (ba_job s) = None \<Longrightarrow> job_ok cf s j \<Longrightarrow> ba_inv cf (goto_job j s)"
  by (rule goto_job_inv) auto

lemma complete_inv: "ba_inv cf s \<Longrightarrow> tracked s t \<Longrightarrow> ba_inv cf (complete_restore d t s)"
  by (rule quiet_inv [OF quiet_complete]) (auto simp: ba_inv_def tracked_def)

lemma complete_job [simp]: "ba_job (complete_restore d t s) = ba_job s"
  by (simp add: complete_restore_def cleanup_journal_def update_journal_def pr_update_def ba_note_def Let_def)

lemma complete_restored:
  "t < length (ba_heap s) \<Longrightarrow> ba_restore (complete_restore d t s) = Some u \<Longrightarrow>
   \<not> pr_completed (transaction (complete_restore d t s) u) \<Longrightarrow> u \<noteq> t"
  by (auto simp: complete_restore_def cleanup_journal_def update_journal_def pr_update_def ba_note_def Let_def nth_list_update
      split: if_splits)

lemma end_job_inv:
  assumes i: "ba_inv cf s" and t: "tracked s t" and p: "preflight (ba_job s) \<in> {None, Some t}"
  shows "ba_inv cf (goto_job (Finished e) (complete_restore d t s))"
proof (rule goto_job_inv)
  show "ba_inv cf (complete_restore d t s)" using i t by (rule complete_inv)
  fix u
  assume u: "ba_restore (complete_restore d t s) = Some u" "\<not> pr_completed (transaction (complete_restore d t s) u)"
    "preflight (ba_job (complete_restore d t s)) = Some u"
  have "t < length (ba_heap s)" using t by (simp add: tracked_def)
  then show "preflight (Finished e) = Some u" using complete_restored u p by auto
qed simp

lemma cleanup_inv: "ba_inv cf s \<Longrightarrow> ba_inv cf (cleanup_journal d s)"
  by (rule quiet_inv [OF quiet_cleanup]) (auto simp: ba_inv_def)

lemma cleanup_job [simp]: "ba_job (cleanup_journal d s) = ba_job s"
  by (simp add: cleanup_journal_def update_journal_def Let_def)

lemma cycle_begin_inv:
  "ba_inv cf s \<Longrightarrow> ba_job s = Idle \<Longrightarrow> known_adapter cf expected \<Longrightarrow> ba_inv cf (cycle_begin expected s)"
  by (auto simp: cycle_begin_def restore_pending_def cleanup_pending_def intro!: goto_job_calm split: option.splits)

lemma cycle_abandon_inv:
  "ba_inv cf s \<Longrightarrow> preflight (ba_job s) = Some t \<Longrightarrow> tracked s t \<Longrightarrow> ba_inv cf (cycle_abandon d t e s)"
  unfolding cycle_abandon_def by (rule end_job_inv) auto

lemma cycle_recheck_inv:
  assumes "ba_inv cf s" "ba_job s = Recheck t"
  shows "ba_inv cf (cycle_recheck d t inst s)"
proof -
  have t: "tracked s t" "preflight (ba_job s) = Some t" "job_ok cf s (Verify t r n)" for r n using assms by (auto simp: ba_inv_def)
  then show ?thesis
    using assms(1) by (auto simp: cycle_recheck_def intro!: cycle_abandon_inv goto_job_inv split: sum.splits)
qed

lemma restore_begin_inv:
  assumes "ba_inv cf s" "preflight (ba_job s) = None"
  shows "ba_inv cf (restore_begin d e s)"
proof -
  let ?u = "cleanup_journal d s"
  have u: "ba_inv cf ?u" "preflight (ba_job ?u) = None" using assms by (simp_all add: cleanup_inv)
  show ?thesis
  proof (cases "ba_restore ?u")
    case None
    then show ?thesis using u by (simp add: restore_begin_def Let_def goto_job_calm)
  next
    case (Some t)
    then have "tracked ?u t" "\<not> pr_completed (transaction ?u t) \<Longrightarrow> owes ?u t"
      using u by (auto simp: ba_inv_def heap_inv_def owed_inv_def tracked_def)
    then show ?thesis using u Some by (simp add: restore_begin_def Let_def goto_job_calm)
  qed
qed

lemma restoration_error_inv:
  assumes "ba_inv cf s" "preflight (ba_job s) = None" "tracked s t"
  shows "ba_inv cf (restoration_error d t x s)"
  using assms by (auto simp: restoration_error_def intro!: complete_inv goto_job_calm split: recovery_error.splits)

lemma restore_bus_inv:
  assumes "ba_inv cf s" "ba_job s = RestoreBus t e"
  shows "ba_inv cf (restore_bus d t e bus s)"
  using assms
  by (auto simp: restore_bus_def ba_inv_def [of cf s] intro!: complete_inv goto_job_calm split: sum.splits)

lemma restoration_instance_inv:
  assumes i: "ba_inv cf s" and j: "ba_job s = RestoreInstance t final e"
  shows "ba_inv cf (restoration_instance d t final e inst s)"
proof -
  have "tracked s t" "owes s t" using i j by (simp_all add: ba_inv_def)
  then show ?thesis
    using i j by (auto simp: restoration_instance_def intro!: complete_inv goto_job_calm restoration_error_inv split: sum.splits)
qed

lemma restore_request_inv:
  assumes i: "ba_inv cf s" and j: "preflight (ba_job s) = None" and t: "tracked s t" "owes s t"
  shows "ba_inv cf (restore_request d t e current s)"
proof -
  have "ba_inv cf (goto_job (PoweringOn t e) (ba_note (SentOn t) s))" if c: "\<not> pr_completed (transaction s t)"
  proof -
    have "job_ok cf (ba_note (SentOn t) s) (ba_job s)"
      using i by (cases "ba_job s") (auto simp: ba_inv_def ba_note_def tracked_def owes_def)
    moreover have "log_inv (ba_note (SentOn t) s)"
      using i c t by (auto simp: ba_inv_def log_inv_def ba_note_def owes_def)
    ultimately have "ba_inv cf (ba_note (SentOn t) s)"
      using i by (auto simp: ba_inv_def heap_inv_def journal_inv_def owed_inv_def owes_def ba_note_def)
    then show ?thesis
      using j t by (intro goto_job_calm) (auto simp: ba_note_def tracked_def owes_def)
  qed
  then show ?thesis
    using i j t by (auto simp: restore_request_def Let_def intro!: complete_inv goto_job_calm)
qed

lemma persist_on_quiet:
  assumes "t < length (ba_heap s)" "ba_restore s = Some t"
  shows "quiet cf s (update_journal d (journal_of cf (transaction s t) (lit ''on'')) s)"
  using assms by (auto simp: quiet_def heap_grows_def journal_kept_def update_journal_def)

lemma restore_decide_inv:
  assumes i: "ba_inv cf s" and j: "preflight (ba_job s) = None" and t: "tracked s t" "owes s t"
  shows "ba_inv cf (restore_decide cf d t e current s)"
proof -
  let ?u = "pr_update t (pr_saw_off_update (\<lambda>_. True)) s"
  let ?v = "update_journal d (journal_of cf (transaction ?u t) (lit ''on'')) ?u"
  let ?w = "if d = Saved then ba_note (Journaled t (lit ''on'')) ?v else ?v"
  have same: "ba_restore ?w = ba_restore s" "ba_job ?w = ba_job s" "length (ba_heap ?w) = length (ba_heap s)"
    "pr_completed (transaction ?w t) = pr_completed (transaction s t)" "owes ?w t = owes s t"
    using t(1) by (auto simp: pr_update_def update_journal_def ba_note_def owes_def tracked_def)
  have "ba_inv cf ?w" if "\<not> pr_completed (transaction s t)"
  proof -
    have u: "ba_inv cf ?u" using i quiet_saw_off by (rule quiet_inv [rotated])
    have "t < length (ba_heap ?u)" "ba_restore ?u = Some t"
      using t(1) that by (simp_all add: pr_update_def tracked_def)
    then have "ba_inv cf ?v" using u persist_on_quiet quiet_inv by metis
    moreover have "quiet cf ?v (ba_note (Journaled t (lit ''on'')) ?v)" by (rule quiet_note) simp
    ultimately show ?thesis using quiet_inv by auto
  qed
  then have "ba_inv cf (goto_job (RestoreInstance t True e) ?w)" if "\<not> pr_completed (transaction s t)"
    using that j t same by (intro goto_job_calm) (simp_all add: tracked_def)
  then show ?thesis
    using i j t unfolding restore_decide_def Let_def
    by (auto intro!: complete_inv goto_job_calm)
qed

lemma restoration_read_inv:
  assumes i: "ba_inv cf s" and j: "ba_job s = RestoreRead t final r n e"
  shows "ba_inv cf (restoration_read cf d t final e result s)"
proof -
  have "tracked s t" "owes s t" "preflight (ba_job s) = None" using i j by (simp_all add: ba_inv_def)
  then show ?thesis
    using i unfolding restoration_read_def Let_def
    by (auto intro!: complete_inv goto_job_calm restoration_error_inv restore_request_inv restore_decide_inv split: sum.splits)
qed

lemma restore_requested_inv:
  assumes i: "ba_inv cf s" and j: "ba_job s = PoweringOn t e"
  shows "ba_inv cf (restore_requested d t e reply s)"
proof -
  have "tracked s t" "preflight (ba_job s) = None" using i j by (simp_all add: ba_inv_def)
  then show ?thesis
    using i by (auto simp: restore_requested_def intro!: complete_inv goto_job_calm split: option.splits)
qed

lemma cycle_verify_inv:
  assumes i: "ba_inv cf s" and j: "ba_job s = Verify t r n"
  shows "ba_inv cf (cycle_verify d c t result s)"
proof -
  have t: "tracked s t" "preflight (ba_job s) = Some t" "Journaled t (lit ''off'') \<in> set (ba_log s)" "SentOff t \<notin> set (ba_log s)"
    using i j by (simp_all add: ba_inv_def)
  have "ba_inv cf (goto_job (PoweringOff t) (ba_note (SentOff t) s))" if c: "\<not> pr_completed (transaction s t)"
  proof -
    have "log_inv (ba_note (SentOff t) s)"
      using i c t by (auto simp: ba_inv_def log_inv_def ba_note_def tracked_def)
    moreover have "owed_inv (goto_job (PoweringOff t) (ba_note (SentOff t) s))"
      using i t(2) by (auto simp: ba_inv_def owed_inv_def owes_def ba_note_def goto_job_def)
    ultimately show ?thesis
      using i t(1) by (auto simp: ba_inv_def heap_inv_def journal_inv_def log_inv_def goto_job_def ba_note_def tracked_def owes_def)
  qed
  then show ?thesis
    using i t by (auto simp: cycle_verify_def intro!: cycle_abandon_inv split: sum.splits)
qed

text \<open>A new transaction at the end of the heap.\<close>

lemma alloc_nth [simp]: "t < length h \<Longrightarrow> (h @ [x]) ! t = h ! t"
  by (simp add: nth_append)

lemma cycle_journal_inv:
  assumes i: "ba_inv cf s" and j: "ba_job s = Prepare expected" and w: "bus \<noteq> []" "inst \<noteq> []"
  shows "ba_inv cf (cycle_journal cf d expected bus inst s)"
proof -
  let ?tr = "\<lparr>pr_expected = expected, pr_bus_id = bus, pr_instance = inst, pr_saw_off = False, pr_completed = False\<rparr>"
  let ?t = "length (ba_heap s)"
  have none: "ba_restore s = None" "\<not> ba_stale s" and wf: "wf_restore cf ?tr"
    using i j w by (simp_all add: ba_inv_def wf_restore_def)
  obtain tr where load: "load_restore cf (journal_of cf ?tr (lit ''off'')) = Some tr" "same_target tr ?tr"
    using load_journal_of [OF wf] by blast
  have heap: "\<forall>t < Suc ?t. wf_restore cf ((ba_heap s @ [?tr]) ! t)"
    using i wf by (auto simp: ba_inv_def heap_inv_def less_Suc_eq)
  have log: "power_log_ok (ba_log s)" "SentOff ?t \<notin> set (ba_log s)"
    "\<And>t. Completed t \<in> set (ba_log s) \<Longrightarrow> t < ?t \<and> pr_completed (transaction s t)"
    "\<And>t. SentOff t \<in> set (ba_log s) \<Longrightarrow> t < ?t"
    using i by (auto simp: ba_inv_def log_inv_def)
  show ?thesis
  proof (cases "d = Saved")
    case True
    then show ?thesis
      using none heap load log
      by (auto simp: cycle_journal_def Let_def update_journal_def goto_job_def ba_note_def ba_inv_def heap_inv_def journal_inv_def
          log_inv_def owed_inv_def tracked_def less_Suc_eq)
  next
    case False
    then show ?thesis
      using none heap log
      by (auto simp: cycle_journal_def Let_def update_journal_def goto_job_def ba_inv_def heap_inv_def journal_inv_def
          log_inv_def owed_inv_def less_Suc_eq)
  qed
qed

lemma run_job_inv:
  assumes "ba_inv cf s" "sound_event cf (WorkerStep d c a)"
  shows "ba_inv cf (worker_step cf d c a s)"
proof (cases "ba_job s")
  case (Prepare expected)
  then show ?thesis
    using assms by (cases a) (auto simp: worker_step_def intro!: goto_job_calm cycle_journal_inv split: sum.splits prod.splits)
next
  case (PoweringOff t)
  then show ?thesis using assms by (auto simp: worker_step_def intro!: restore_begin_inv split: answer.splits)
next
  case (RestoreProps t e)
  then have "tracked s t" "owes s t" using assms by (simp_all add: ba_inv_def)
  then show ?thesis
    using assms RestoreProps by (auto simp: worker_step_def intro!: goto_job_calm split: answer.splits option.splits)
qed (use assms in \<open>auto simp: worker_step_def intro!: cycle_recheck_inv cycle_verify_inv restore_bus_inv
       restoration_instance_inv restoration_read_inv restore_requested_inv split: answer.splits\<close>)

lemma bump_inv: "ba_inv cf s \<Longrightarrow> ba_inv cf (bump_revision s)"
  by (rule quiet_inv [of cf s]) (auto simp: bump_revision_def quiet_def heap_grows_def journal_kept_def ba_note_def)

lemma incarnation_inv: "ba_inv cf s \<Longrightarrow> ba_inv cf (s\<lparr>ba_incarnation := n\<rparr>)"
  by (rule quiet_inv [of cf s]) (auto simp: quiet_def heap_grows_def journal_kept_def)

lemma note_inv: "ba_inv cf s \<Longrightarrow> quiet_entry s e \<Longrightarrow> ba_inv cf (ba_note e s)"
  by (rule quiet_inv [OF quiet_note])

lemma observe_power_inv: "ba_inv cf s \<Longrightarrow> ba_inv cf (observe_power d changed s)"
proof -
  assume i: "ba_inv cf s"
  have "ba_restore s = Some t \<Longrightarrow> tracked s t" for t using i by (simp add: ba_inv_def heap_inv_def tracked_def)
  then show ?thesis
    using i by (auto simp: observe_power_def intro!: complete_inv quiet_inv [OF quiet_saw_off] split: option.splits)
qed

lemma properties_changed_inv:
  "ba_inv cf s \<Longrightarrow> ba_inv cf (properties_changed cf d path interface changed invalidated s)"
  by (auto simp: properties_changed_def Let_def intro!: bump_inv observe_power_inv note_inv)

lemma ba_step_inv: "ba_inv cf s \<Longrightarrow> ba_step cf s s' \<Longrightarrow> ba_inv cf s'"
proof -
  have q: "ba_inv cf s \<Longrightarrow> ba_inv cf (ba_note InvalidateAll (s\<lparr>ba_incarnation := n, ba_revision := r\<rparr>))"
    "ba_inv cf s \<Longrightarrow> ba_inv cf (s\<lparr>ba_matches := m\<rparr>)" for s n r m
    by (rule quiet_inv [of cf s]; simp add: quiet_def heap_grows_def journal_kept_def ba_note_def)+
  assume i: "ba_inv cf s" and "ba_step cf s s'"
  then obtain ev where ev: "s' = ba_apply cf ev s" "sound_event cf ev" by (auto elim: ba_stepE)
  show "ba_inv cf s'"
  proof (cases ev)
    case (StartCycle expected)
    then show ?thesis using i ev by (auto intro: cycle_begin_inv)
  next
    case (WorkerStep d c a)
    then show ?thesis using i ev run_job_inv by simp
  next
    case Delivered
    then show ?thesis using i ev by (auto intro!: goto_job_calm split: job.splits)
  qed (use i ev in \<open>auto simp: interfaces_changed_def adapter_owner_changed_def start_monitoring_def stop_monitoring_def
         intro: q bump_inv incarnation_inv properties_changed_inv cleanup_inv restore_begin_inv\<close>)
qed

lemma ba_init_inv: "ba_init cf s \<Longrightarrow> ba_inv cf s"
proof -
  assume "ba_init cf s"
  then obtain readable doc where s: "s = BluezRecoveryAdapter_init cf readable doc" by (auto simp: ba_init_def)
  have "load_restore cf JNull = None" by (simp add: load_restore_def)
  then show ?thesis
    using load_restore_wf [of cf doc]
    by (cases readable; cases "load_restore cf doc")
      (simp_all add: s BluezRecoveryAdapter_init_def reload_journal_def Let_def ba_inv_def heap_inv_def journal_inv_def
        log_inv_def owed_inv_def owes_def ba_note_def same_target_def)
qed

interpretation power: invariant_system "ba_init cf" "ba_step cf" "ba_inv cf" for cf
  by unfold_locales (auto intro: ba_init_inv ba_step_inv)

section \<open>Where power requests come from\<close>

definition requested_off :: "power_adapter \<Rightarrow> nat set" where
  "requested_off s = {t. SentOff t \<in> set (ba_log s)}"

lemma requested_off_same [simp]:
  "requested_off (goto_job j s) = requested_off s"
  "requested_off (cleanup_journal d s) = requested_off s"
  "requested_off (update_journal d v s) = requested_off s"
  "requested_off (complete_restore d t s) = requested_off s"
  "requested_off (pr_update t f s) = requested_off s"
  "requested_off (bump_revision s) = requested_off s"
  "(\<And>t. e \<noteq> SentOff t) \<Longrightarrow> requested_off (ba_note e s) = requested_off s"
  by (auto simp: requested_off_def goto_job_def cleanup_journal_def update_journal_def complete_restore_def pr_update_def
      bump_revision_def ba_note_def Let_def)

lemma requested_off_fields [simp]:
  "requested_off (s\<lparr>ba_incarnation := n\<rparr>) = requested_off s"
  "requested_off (s\<lparr>ba_incarnation := n, ba_revision := r\<rparr>) = requested_off s"
  "requested_off (s\<lparr>ba_matches := m\<rparr>) = requested_off s"
  by (simp_all add: requested_off_def)

lemma observe_power_off [simp]: "requested_off (observe_power d changed s) = requested_off s"
  by (simp add: observe_power_def split: option.splits)

lemma cycle_journal_off: "requested_off (cycle_journal cf d x b i s) = requested_off s"
  by (auto simp: requested_off_def cycle_journal_def update_journal_def goto_job_def ba_note_def Let_def)

lemma restore_begin_off [simp]: "requested_off (restore_begin d e s) = requested_off s"
  by (auto simp: restore_begin_def Let_def split: option.splits)

lemma worker_step_off:
  assumes "requested_off (worker_step cf d c a s) \<noteq> requested_off s"
  shows "\<exists>t r n. ba_job s = Verify t r n \<and> \<not> pr_completed (transaction s t) \<and>
    worker_step cf d c a s = goto_job (PoweringOff t) (ba_note (SentOff t) s)"
  using assms
  by (cases "ba_job s")
    (auto simp: worker_step_def cycle_journal_off cycle_recheck_def cycle_abandon_def cycle_verify_def restore_bus_def
      restoration_instance_def restoration_error_def restoration_read_def restore_request_def restore_decide_def restore_requested_def
      Let_def split: answer.splits sum.splits option.splits recovery_error.splits if_splits)

lemma requested_off_step:
  assumes "requested_off (ba_apply cf ev s) \<noteq> requested_off s"
  shows "\<exists>t r n. ba_job s = Verify t r n \<and> \<not> pr_completed (transaction s t) \<and>
    ba_apply cf ev s = goto_job (PoweringOff t) (ba_note (SentOff t) s)"
proof (cases ev)
  case (WorkerStep d c a)
  then show ?thesis using assms worker_step_off by simp
qed (use assms in \<open>auto simp: interfaces_changed_def adapter_owner_changed_def properties_changed_def start_monitoring_def
       stop_monitoring_def cycle_begin_def Let_def split: if_splits job.splits\<close>)

lemma goto_job_simps [simp]:
  "ba_job (goto_job j s) = j"
  "restore_pending (goto_job j s) = restore_pending s"
  "ba_log (goto_job j s) = ba_log s"
  "ba_heap (goto_job j s) = ba_heap s"
  by (simp_all add: goto_job_def restore_pending_def cong: option.case_cong)

lemma complete_not_pending: "tracked s t \<Longrightarrow> \<not> restore_pending (complete_restore d t s)"
  by (cases "ba_restore s")
    (auto simp: tracked_def restore_pending_def complete_restore_def cleanup_journal_def update_journal_def pr_update_def
      ba_note_def Let_def)

lemma cycle_journal_end:
  "ba_job (cycle_journal cf d x b i s) = Finished r \<Longrightarrow> r = Some OtherError \<and> ba_restore (cycle_journal cf d x b i s) = ba_restore s"
  by (auto simp: cycle_journal_def update_journal_def goto_job_def Let_def split: if_splits)

lemma observe_power_job [simp]: "ba_job (observe_power d changed s) = ba_job s"
  by (simp add: observe_power_def pr_update_def split: option.splits)

lemma main_thread_job:
  assumes "ba_job s \<noteq> Idle" "\<And>e. ba_job s \<noteq> Finished e" "\<not> (\<exists>d c a. ev = WorkerStep d c a)"
  shows "ba_job (ba_apply cf ev s) = ba_job s"
proof (cases ev)
  case Delivered
  then show ?thesis using assms by (simp split: job.splits)
qed (use assms in \<open>simp_all add: interfaces_changed_def adapter_owner_changed_def properties_changed_def start_monitoring_def
       stop_monitoring_def bump_revision_def ba_note_def Let_def\<close>)

text \<open>A new process that can read the settings document finds a pending restoration again.\<close>

lemma restart_pending:
  assumes "ba_inv cf s" "restore_pending s"
  shows "\<exists>t u. ba_restore s = Some t \<and>
    ba_restore (BluezRecoveryAdapter_init cf True (ba_journal s)) = Some u \<and>
    restore_pending (BluezRecoveryAdapter_init cf True (ba_journal s)) \<and>
    same_target (transaction (BluezRecoveryAdapter_init cf True (ba_journal s)) u) (transaction s t)"
proof -
  obtain t where t: "ba_restore s = Some t" "\<not> pr_completed (transaction s t)"
    using assms(2) by (auto simp: restore_pending_def split: option.splits)
  then obtain tr where tr: "load_restore cf (ba_journal s) = Some tr" "same_target tr (transaction s t)"
    using assms(1) by (auto simp: ba_inv_def journal_inv_def)
  then show ?thesis
    using t load_restore_wf [OF tr(1)]
    by (simp add: BluezRecoveryAdapter_init_def reload_journal_def ba_note_def restore_pending_def)
qed

section \<open>Guarantees\<close>

text \<open>
  C2: the controller is switched off only while the obligation to switch it on again is durable. When the worker
  sends the power-off of a transaction, that transaction is the adapter's pending one, its journal entry was written
  before, and reading the journal on disk gives a transaction for the same BlueZ owner, address, bus and insertion.
\<close>

theorem power_off_journaled:
  assumes "reachable (ba_init cf) (ba_step cf) s" "ba_step cf s s'" "ba_log s' = SentOff t # ba_log s"
  shows "ba_restore s' = Some t \<and> \<not> pr_completed (transaction s' t) \<and> Journaled t (lit ''off'') \<in> set (ba_log s) \<and>
    (\<exists>tr. load_restore cf (ba_journal s') = Some tr \<and> same_target tr (transaction s' t))"
proof -
  have i: "ba_inv cf s'" using assms(1,2) by (rule power.reachable_step_inv)
  then have "SentOff t \<notin> set (ba_log s)" and j: "Journaled t (lit ''off'') \<in> set (ba_log s)"
    by (simp_all add: ba_inv_def log_inv_def assms(3))
  then have "requested_off s' \<noteq> requested_off s" by (auto simp: requested_off_def assms(3))
  then obtain u r n where u: "ba_job s = Verify u r n" "\<not> pr_completed (transaction s u)"
      "s' = goto_job (PoweringOff u) (ba_note (SentOff u) s)"
    using assms(2) requested_off_step by (metis ba_stepE)
  have [simp]: "u = t" using assms(3) u(3) by (simp add: goto_job_def ba_note_def)
  have "ba_restore s' = Some t" "\<not> pr_completed (transaction s' t)"
    using power.reachable_inv [OF assms(1)] u by (auto simp: ba_inv_def tracked_def goto_job_def ba_note_def)
  then show ?thesis using i j by (simp add: ba_inv_def journal_inv_def)
qed

lemma power_log_ok_suffix: "power_log_ok (a @ b) \<Longrightarrow> power_log_ok b"
  by (induction a rule: power_log_ok.induct) auto

text \<open>
  C10: power is only ever restored where it is owed. Every power-on request belongs to a transaction that switched the
  controller off or was found in the journal at start, and none follows the completion of its transaction: a later manual
  power-off is never undone. Each transaction switches off at most once, after its journal entry and before its completion.
\<close>

theorem power_requests_justified:
  assumes "reachable (ba_init cf) (ba_step cf) s"
  shows "(ba_log s = a @ SentOn t # b \<longrightarrow> Completed t \<notin> set b \<and> (SentOff t \<in> set b \<or> Loaded t \<in> set b)) \<and>
    (ba_log s = a @ SentOff t # b \<longrightarrow> Completed t \<notin> set b \<and> SentOff t \<notin> set b \<and> Journaled t (lit ''off'') \<in> set b)"
proof -
  have "power_log_ok (ba_log s)" using power.reachable_inv [OF assms] by (simp add: ba_inv_def log_inv_def)
  then show ?thesis using power_log_ok_suffix by (metis power_log_ok.simps(2,3))
qed

text \<open>
  C8: whatever fails before the power-off request - the journal write, the insertion, the snapshot, a cancellation - the
  cycle ends with an exception, no request was sent and nothing is left pending.
\<close>

theorem failed_cycle_leaves_power:
  assumes "reachable (ba_init cf) (ba_step cf) s" "ba_step cf s s'"
    and "preflight (ba_job s) \<noteq> None \<or> (\<exists>expected. ba_job s = Prepare expected)" "ba_job s' = Finished r"
  shows "r \<noteq> None \<and> requested_off s' = requested_off s \<and> \<not> restore_pending s'"
proof -
  have "job_ok cf s (ba_job s)" using power.reachable_inv [OF assms(1)] by (simp add: ba_inv_def)
  moreover obtain ev where ev: "s' = ba_apply cf ev s" using assms(2) by (metis ba_stepE)
  moreover have "preflight (ba_job s) = Some t \<or> ba_job s = Prepare x \<Longrightarrow> \<exists>d c a. ev = WorkerStep d c a" for t x
    using assms(4) main_thread_job [of s ev cf] ev by (cases "ba_job s") auto
  ultimately obtain d c a where s': "s' = worker_step cf d c a s" using assms(3) by fastforce
  show ?thesis
  proof (cases "ba_job s")
    case (Prepare expected)
    then show ?thesis
      using assms(4) \<open>job_ok cf s (ba_job s)\<close>
      by (auto simp: s' worker_step_def cycle_journal_off restore_pending_def [of s] restore_pending_def [of "cycle_journal _ _ _ _ _ _"]
          dest: cycle_journal_end split: answer.splits sum.splits prod.splits)
  next
    case (Recheck t)
    then show ?thesis
      using assms(4) \<open>job_ok cf s (ba_job s)\<close> complete_not_pending [of s t]
      by (auto simp: s' worker_step_def cycle_recheck_def cycle_abandon_def split: answer.splits sum.splits if_splits)
  next
    case (Verify t r n)
    then show ?thesis
      using assms(4) \<open>job_ok cf s (ba_job s)\<close> complete_not_pending [of s t]
      by (auto simp: s' worker_step_def cycle_verify_def cycle_abandon_def split: answer.splits sum.splits if_splits)
  qed (use assms(3) in auto)
qed

text \<open>
  C15: a pending restoration is carried out. If the system bus, the insertion and the controller are the ones of the
  transaction and the controller reports that it is off, one attempt asks BlueZ to switch it on and, once BlueZ has
  answered, completes the transaction - whichever of the settings updates fail.
\<close>

theorem restoration_completes:
  assumes r: "reachable (ba_init cf) (ba_step cf) s" and t: "ba_restore s = Some t" "\<not> pr_completed (transaction s t)"
    and j: "ba_job s = Idle" and n: "ba_incarnation s = as_incarnation (pr_expected (transaction s t))"
    and st: "state_from_objects cf (as_owner (pr_expected (transaction s t))) objects (ba_revision s) (ba_incarnation s) s = Inr current"
    and off: "as_address current = as_address (pr_expected (transaction s t))" "\<not> as_powered current"
      "as_power_state current \<in> set TERMINAL_POWER"
  shows "let s' = fold (ba_apply cf)
      [StartRestore d1, WorkerStep d2 c (Text (Inr (pr_bus_id (transaction s t)))), WorkerStep d3 c (Reply None),
       WorkerStep d4 c (Text (Inr (pr_instance (transaction s t)))),
       WorkerStep d5 c (Objects (Inr (as_owner (pr_expected (transaction s t)), objects))),
       WorkerStep d6 c (Text (Inr (pr_instance (transaction s t)))),
       WorkerStep d7 c (Objects (Inr (as_owner (pr_expected (transaction s t)), objects))), WorkerStep d8 c (Reply None)] s
    in SentOn t \<in> set (ba_log s') \<and> pr_completed (transaction s' t) \<and> \<not> restore_pending s' \<and> ba_job s' = Finished None"
proof -
  have lt: "t < length (ba_heap s)" "\<not> ba_stale s"
    using power.reachable_inv [OF r] t by (simp_all add: ba_inv_def heap_inv_def)
  have cur: "as_owner current = as_owner (pr_expected (transaction s t))" "as_incarnation current = ba_incarnation s"
    using st by (auto simp: state_from_objects_def Let_def split: option.splits if_splits)
  have same: "state_from_objects cf owner objects rv i u = state_from_objects cf owner objects rv i s"
    if "ba_revision u = ba_revision s" for u owner rv i
    by (simp only: state_from_objects_def that)
  have blocked: "as_power_state current \<noteq> lit ''off-blocked''"
    using off(3) by (auto simp: TERMINAL_POWER_def)
  have starts: "restore_begin d1 None s = goto_job (RestoreBus t None) s"
    using t lt by (simp add: restore_begin_def cleanup_journal_def cleanup_pending_def)
  define u where "u = update_journal d5 (journal_of cf ((transaction s t)\<lparr>pr_saw_off := True\<rparr>) (lit ''on''))
      (pr_update t (pr_saw_off_update (\<lambda>_. True)) s)"
  define v where "v = (if d5 = Saved then ba_note (Journaled t (lit ''on'')) u else u)"
  have v: "ba_revision v = ba_revision s" "ba_incarnation v = ba_incarnation s" "length (ba_heap v) = length (ba_heap s)"
    "transaction v t = (transaction s t)\<lparr>pr_saw_off := True\<rparr>" "ba_restore v = Some t" "\<not> ba_stale v"
    using t lt by (auto simp: v_def u_def update_journal_def pr_update_def ba_note_def)
  have first: "fold (ba_apply cf)
      [StartRestore d1, WorkerStep d2 c (Text (Inr (pr_bus_id (transaction s t)))), WorkerStep d3 c (Reply None),
       WorkerStep d4 c (Text (Inr (pr_instance (transaction s t)))),
       WorkerStep d5 c (Objects (Inr (as_owner (pr_expected (transaction s t)), objects)))] s = goto_job (RestoreInstance t True None) v"
    using t lt off n st cur blocked same [of "goto_job _ s"] j
    by (simp add: starts worker_step_def restore_bus_def restoration_instance_def read_answer_def restoration_read_def
        restore_decide_def goto_job_def Let_def v_def u_def pr_update_def update_journal_def ba_note_def)
  let ?w = "ba_note (SentOn t) v"
  have "fold (ba_apply cf)
      [WorkerStep d6 c (Text (Inr (pr_instance (transaction s t)))),
       WorkerStep d7 c (Objects (Inr (as_owner (pr_expected (transaction s t)), objects))), WorkerStep d8 c (Reply None)]
      (goto_job (RestoreInstance t True None) v) = goto_job (Finished None) (complete_restore d8 t (goto_job (PoweringOn t None) ?w))"
    using t lt off n st cur blocked same [of "goto_job _ v"] v
    by (simp add: worker_step_def restoration_instance_def read_answer_def restoration_read_def restore_request_def
        restore_requested_def goto_job_def Let_def ba_note_def)
  moreover have "tracked (goto_job (PoweringOn t None) ?w) t"
    using v lt by (simp add: tracked_def goto_job_def ba_note_def)
  then have "\<not> restore_pending (complete_restore d8 t (goto_job (PoweringOn t None) ?w))"
    by (rule complete_not_pending)
  moreover have "pr_completed (transaction (complete_restore d8 t (goto_job (PoweringOn t None) ?w)) t) \<and>
      SentOn t \<in> set (ba_log (complete_restore d8 t (goto_job (PoweringOn t None) ?w)))"
    using v lt by (simp add: complete_restore_def cleanup_journal_def update_journal_def goto_job_def ba_note_def pr_update_def Let_def)
  ultimately show ?thesis
    using first by (simp add: Let_def)
qed

section \<open>A concrete run\<close>

lemma reachable_fold:
  "reachable (ba_init cf) (ba_step cf) s \<Longrightarrow> list_all (sound_event cf) evs \<Longrightarrow>
   reachable (ba_init cf) (ba_step cf) (fold (ba_apply cf) evs s)"
proof (induction evs arbitrary: s)
  case (Cons ev evs)
  then have "reachable (ba_init cf) (ba_step cf) (ba_apply cf ev s)"
    by (auto intro: reachable.next_state ba_step.intros)
  then show ?case using Cons by simp
qed simp

definition demo_power_cf :: adapter_config where
  "demo_power_cf = \<lparr>ac_path = lit ''/org/bluez/hci0'', ac_device = lit ''/org/bluez/hci0/dev_A'',
     ac_case = \<lparr>upper_char = (\<lambda>c. [c]), fold_char = (\<lambda>c. [c])\<rparr>, ac_valid_bus_name = (\<lambda>_. True)\<rparr>"

definition demo_objects :: "bool \<Rightarrow> managed_objects" where
  "demo_objects on =
     [(lit ''/org/bluez/hci0'', \<lparr>mo_adapter = Some \<lparr>a1_address = Some (lit ''AA''), a1_powered = Some on,
         a1_power_state = Some (if on then lit ''on'' else lit ''off''), a1_discovering = Some False, a1_discoverable = Some False\<rparr>,
         mo_device = None, mo_le = None, mo_bredr = None\<rparr>),
      (lit ''/org/bluez/hci0/dev_A'', \<lparr>mo_adapter = None, mo_device = Some \<lparr>d1_paired = Some True, d1_bonded = Some True,
         d1_blocked = Some False, d1_connected = Some False\<rparr>, mo_le = None, mo_bredr = None\<rparr>)]"

definition demo_expected :: adapter_state where
  "demo_expected = \<lparr>as_owner = lit '':1.5'', as_address = lit ''AA'', as_powered = True, as_safe = True,
     as_power_state = lit ''on'', as_revision = 0, as_incarnation = 0, as_le_reset_safe = True\<rparr>"

definition demo_fresh :: power_adapter where
  "demo_fresh = BluezRecoveryAdapter_init demo_power_cf True JNull"

definition demo_prepare :: "ba_event list" where
  "demo_prepare = [Monitor True, StartCycle demo_expected, WorkerStep Saved False (Prepared (Inr (lit ''bus'', lit ''0:7''))),
     WorkerStep Saved False (Text (Inr (lit ''0:7'')))]"

definition demo_transaction :: power_restore where
  "demo_transaction = \<lparr>pr_expected = demo_expected, pr_bus_id = lit ''bus'', pr_instance = lit ''0:7'', pr_saw_off = False,
     pr_completed = False\<rparr>"

definition demo_ready :: power_adapter where
  "demo_ready = \<lparr>ba_revision = 0, ba_incarnation = 0, ba_matches = True, ba_heap = [demo_transaction], ba_restore = Some 0,
     ba_stale = False, ba_journal = journal_of demo_power_cf demo_transaction (lit ''off''), ba_job = Verify 0 0 0,
     ba_log = [Journaled 0 (lit ''off'')]\<rparr>"

lemma demo_expected_known: "known_adapter demo_power_cf demo_expected"
  by (simp add: known_adapter_def unique_name_def demo_expected_def demo_power_cf_def lit_def)

lemma demo_ready_run: "fold (ba_apply demo_power_cf) demo_prepare demo_fresh = demo_ready"
  by (simp add: demo_fresh_def demo_prepare_def demo_ready_def BluezRecoveryAdapter_init_def reload_journal_def load_restore_def
      start_monitoring_def cycle_begin_def restore_pending_def cleanup_pending_def goto_job_def worker_step_def cycle_journal_def
      update_journal_def ba_note_def cycle_recheck_def demo_transaction_def Let_def)

lemma demo_ready_reachable: "reachable (ba_init demo_power_cf) (ba_step demo_power_cf) demo_ready"
proof -
  have "reachable (ba_init demo_power_cf) (ba_step demo_power_cf) demo_fresh"
    by (rule reachable.start) (auto simp: ba_init_def demo_fresh_def)
  then have "reachable (ba_init demo_power_cf) (ba_step demo_power_cf) (fold (ba_apply demo_power_cf) demo_prepare demo_fresh)"
    by (rule reachable_fold) (simp add: demo_prepare_def demo_expected_known lit_def)
  then show ?thesis by (simp add: demo_ready_run)
qed

lemma demo_read:
  "state_from_objects demo_power_cf (lit '':1.5'') (demo_objects True) 0 0 s =
     (if ba_revision s = 0 then Inr demo_expected else Inl RuntimeError)"
  "state_from_objects demo_power_cf (lit '':1.5'') (demo_objects False) 0 0 s =
     (if ba_revision s = 0 then Inr (demo_expected\<lparr>as_powered := False, as_safe := False, as_power_state := lit ''off'',
        as_le_reset_safe := False\<rparr>) else Inl RuntimeError)"
  by (simp_all add: state_from_objects_def demo_power_cf_def demo_objects_def demo_expected_def prop_or_def blocks_cycle_def
      below_adapter_def lit_def)

definition demo_verify :: "bool \<Rightarrow> ba_event" where
  "demo_verify cancelled = WorkerStep Saved cancelled (Objects (Inr (lit '':1.5'', demo_objects True)))"

definition demo_off :: power_adapter where
  "demo_off = goto_job (PoweringOff 0) (ba_note (SentOff 0) demo_ready)"

lemmas demo_run_defs = demo_verify_def demo_ready_def demo_off_def demo_transaction_def worker_step_def read_answer_def
  cycle_verify_def cycle_abandon_def complete_restore_def cleanup_journal_def cleanup_pending_def update_journal_def pr_update_def
  goto_job_def ba_note_def

lemma demo_verify_run:
  "ba_apply demo_power_cf (demo_verify False) demo_ready = demo_off"
  "ba_job (ba_apply demo_power_cf (demo_verify True) demo_ready) = Finished (Some RuntimeError)"
proof -
  have e: "as_safe demo_expected" "as_revision demo_expected = 0" by (simp_all add: demo_expected_def)
  show "ba_apply demo_power_cf (demo_verify False) demo_ready = demo_off"
    by (simp add: demo_run_defs demo_read e)
  show "ba_job (ba_apply demo_power_cf (demo_verify True) demo_ready) = Finished (Some RuntimeError)"
    by (simp add: demo_run_defs demo_read e Let_def)
qed

lemma demo_verify_step: "ba_step demo_power_cf demo_ready (ba_apply demo_power_cf (demo_verify c) demo_ready)"
  by (rule ba_step.intros) (simp add: demo_verify_def)

theorem power_off_journaled_witness:
  "ba_log demo_off = SentOff 0 # ba_log demo_ready \<and> ba_restore demo_off = Some 0 \<and> \<not> pr_completed (transaction demo_off 0) \<and>
   Journaled 0 (lit ''off'') \<in> set (ba_log demo_ready) \<and>
   (\<exists>tr. load_restore demo_power_cf (ba_journal demo_off) = Some tr \<and> same_target tr (transaction demo_off 0))"
proof -
  have l: "ba_log demo_off = SentOff 0 # ba_log demo_ready" by (simp add: demo_off_def goto_job_def ba_note_def)
  have "ba_step demo_power_cf demo_ready demo_off" using demo_verify_step [of False] by (simp add: demo_verify_run)
  then show ?thesis using power_off_journaled [OF demo_ready_reachable _ l] l by simp
qed

lemma demo_off_reachable: "reachable (ba_init demo_power_cf) (ba_step demo_power_cf) demo_off"
  using demo_ready_reachable demo_verify_step [of False] by (auto simp: demo_verify_run intro: reachable.next_state)

theorem power_requests_justified_witness:
  "ba_log demo_off = [] @ SentOff 0 # [Journaled 0 (lit ''off'')] \<and> Completed 0 \<notin> set [Journaled 0 (lit ''off'')] \<and>
   SentOff 0 \<notin> set [Journaled 0 (lit ''off'')] \<and> Journaled 0 (lit ''off'') \<in> set [Journaled 0 (lit ''off'')]"
proof -
  have "ba_log demo_off = [] @ SentOff 0 # [Journaled 0 (lit ''off'')]"
    by (simp add: demo_off_def goto_job_def ba_note_def demo_ready_def)
  then show ?thesis using power_requests_justified [OF demo_off_reachable] by blast
qed

theorem failed_cycle_leaves_power_witness:
  "requested_off (ba_apply demo_power_cf (demo_verify True) demo_ready) = requested_off demo_ready \<and>
   \<not> restore_pending (ba_apply demo_power_cf (demo_verify True) demo_ready)"
  using failed_cycle_leaves_power [OF demo_ready_reachable demo_verify_step _ demo_verify_run(2)]
  by (simp add: demo_ready_def)

text \<open>The reply to the power-off and the bus identifier are lost; the attempt ends and the obligation stays.\<close>

definition demo_lost :: "ba_event list" where
  "demo_lost = [WorkerStep Saved False (Reply (Some OtherError)), WorkerStep Saved False (Text (Inl OtherError)), Delivered]"

definition demo_idle :: power_adapter where
  "demo_idle = goto_job Idle demo_off"

lemma demo_idle_reachable: "reachable (ba_init demo_power_cf) (ba_step demo_power_cf) demo_idle"
proof -
  have "fold (ba_apply demo_power_cf) demo_lost demo_off = demo_idle"
    by (simp add: demo_lost_def demo_idle_def demo_run_defs restore_begin_def restore_bus_def)
  moreover have "list_all (sound_event demo_power_cf) demo_lost" by (simp add: demo_lost_def)
  ultimately show ?thesis using reachable_fold [OF demo_off_reachable] by metis
qed

theorem restoration_completes_witness:
  "let s' = fold (ba_apply demo_power_cf)
      [StartRestore Unsaved, WorkerStep Unsaved False (Text (Inr (lit ''bus''))), WorkerStep Unsaved False (Reply None),
       WorkerStep Unsaved False (Text (Inr (lit ''0:7''))), WorkerStep Unsaved False (Objects (Inr (lit '':1.5'', demo_objects False))),
       WorkerStep Unsaved False (Text (Inr (lit ''0:7''))), WorkerStep Unsaved False (Objects (Inr (lit '':1.5'', demo_objects False))),
       WorkerStep Unsaved False (Reply None)] demo_idle
    in SentOn 0 \<in> set (ba_log s') \<and> pr_completed (transaction s' 0) \<and> \<not> restore_pending s' \<and> ba_job s' = Finished None"
proof -
  have t: "transaction demo_idle 0 = demo_transaction" "ba_restore demo_idle = Some 0" "ba_job demo_idle = Idle"
    "ba_incarnation demo_idle = 0" "ba_revision demo_idle = 0"
    by (simp_all add: demo_idle_def demo_off_def demo_ready_def goto_job_def ba_note_def)
  show ?thesis
    using restoration_completes [OF demo_idle_reachable t(2) _ t(3), where objects = "demo_objects False" and c = False
        and ?d1.0 = Unsaved and ?d2.0 = Unsaved and ?d3.0 = Unsaved and ?d4.0 = Unsaved and ?d5.0 = Unsaved and ?d6.0 = Unsaved
        and ?d7.0 = Unsaved and ?d8.0 = Unsaved]
    by (simp add: t demo_transaction_def demo_expected_def demo_read TERMINAL_POWER_def)
qed

text \<open>
  The latch can be set by signals of an earlier switch. If an off/on pair that was queued before the snapshot reaches the
  main thread while \<open>Set(False)\<close> waits for its reply, the transaction completes, its journal entry is cleared, and
  \<open>restore\<close> returns without asking for power-on.
\<close>

definition demo_late_signals :: "ba_event list" where
  "demo_late_signals = [PropertiesChanged Saved (lit ''/org/bluez/hci0'') ADAPTER1 [(lit ''Powered'', False)] [],
     PropertiesChanged Saved (lit ''/org/bluez/hci0'') ADAPTER1 [(lit ''Powered'', True)] [],
     WorkerStep Saved False (Reply None)]"

lemma late_signals_drop_obligation:
  "let s = fold (ba_apply demo_power_cf) (demo_prepare @ demo_verify False # demo_late_signals) demo_fresh
   in SentOff 0 \<in> set (ba_log s) \<and> SentOn 0 \<notin> set (ba_log s) \<and> \<not> restore_pending s \<and> ba_journal s = JNull \<and>
      ba_job s = Finished None"
proof -
  have p: "ac_path demo_power_cf = lit ''/org/bluez/hci0''" by (simp add: demo_power_cf_def)
  have "fold (ba_apply demo_power_cf) (demo_prepare @ demo_verify False # demo_late_signals) demo_fresh =
      fold (ba_apply demo_power_cf) demo_late_signals demo_off"
    by (simp add: demo_ready_run demo_verify_run del: ba_apply.simps)
  then show ?thesis
    by (simp add: demo_late_signals_def p properties_changed_def observe_power_def relevant_change_def
        bump_revision_def restore_begin_def restore_pending_def demo_run_defs Let_def)
qed

end
