(* ===== verification/Bluetooth_Recovery.thy ===== *)
theory Bluetooth_Recovery
  imports Power_Safety
begin

text \<open>
  The policy of the last-resort power cycle (\<open>bluetooth_recovery.py\<close>, class \<open>BluetoothRecovery\<close>) together with
  the serialized worker it runs on (\<open>obex/worker.py\<close>): the saved record of attempts, the observation windows, the
  soft reset, the MAP probe, the reservation of the worker, and the hand-over to the adapter of \<open>Power_Restore\<close>.

  The controller is wired as the daemon wires it, with the asynchronous snapshot. What its callbacks answer, the two
  clocks and the outcome of settings updates are arguments of each event; the monotonic clock does not run backwards,
  the wall clock may jump. \<open>br_log\<close> records what was observed and decided; no operation reads it. What the operations
  guarantee is shown in \<open>Recovery_Guarantees\<close>.
\<close>

section \<open>The worker\<close>

definition MAX_OBEX_PENDING_OPERATIONS :: nat where [consts_defs]: "MAX_OBEX_PENDING_OPERATIONS = 256"

text \<open>
  A submitted operation until its result was delivered: work of another component, the MAP probe before and after it
  ran, and a power job before and after the executor took it up.
\<close>

datatype future = Foreign
  | ProbeJob nat adapter_state
  | ProbeResult nat adapter_state "real option"
  | CycleJob adapter_state
  | RestoreJob
  | PowerJob

record obex_worker =
  ow_closed :: bool
  ow_reserved :: bool
  ow_futures :: "future list"

definition ObexWorker_init :: obex_worker where
  "ObexWorker_init = \<lparr>ow_closed = False, ow_reserved = False, ow_futures = []\<rparr>"

text \<open>\<open>None\<close>: \<open>submit\<close> raises \<open>RuntimeError\<close>.\<close>

definition ow_submit :: "future \<Rightarrow> bool \<Rightarrow> obex_worker \<Rightarrow> obex_worker option" where
  "ow_submit operation reserved w =
     (if ow_closed w \<or> ow_reserved w \<noteq> reserved \<or> MAX_OBEX_PENDING_OPERATIONS \<le> length (ow_futures w) then None
      else Some (w\<lparr>ow_futures := ow_futures w @ [operation]\<rparr>))"

definition reserve_if_idle :: "obex_worker \<Rightarrow> bool \<times> obex_worker" where
  "reserve_if_idle w =
     (if ow_closed w \<or> ow_reserved w \<or> ow_futures w \<noteq> [] then (False, w) else (True, w\<lparr>ow_reserved := True\<rparr>))"

definition ow_release :: "obex_worker \<Rightarrow> obex_worker" where
  "ow_release w = w\<lparr>ow_reserved := False\<rparr>"

text \<open>\<open>_deliver_pending\<close> after its callback: the oldest future is discarded.\<close>

definition ow_discard :: "obex_worker \<Rightarrow> obex_worker" where
  "ow_discard w = w\<lparr>ow_futures := tl (ow_futures w)\<rparr>"

text \<open>\<open>shutdown\<close>: the operation the executor has taken up is finished, queued work is cancelled.\<close>

fun taken_up :: "future \<Rightarrow> bool" where
  "taken_up (CycleJob st) = False"
| "taken_up RestoreJob = False"
| "taken_up _ = True"

definition ow_shutdown :: "obex_worker \<Rightarrow> obex_worker" where
  "ow_shutdown w =
     (if ow_closed w then w
      else w\<lparr>ow_closed := True, ow_futures := filter taken_up (take 1 (ow_futures w))\<rparr>)"

section \<open>State\<close>

definition POLL_SECONDS :: int where [consts_defs]: "POLL_SECONDS = 10"
definition OUTAGE_SECONDS :: real where [consts_defs]: "OUTAGE_SECONDS = 300"
definition SOFT_RESET_SECONDS :: real where [consts_defs]: "SOFT_RESET_SECONDS = 180"
definition RESET_SETTLE_SECONDS :: real where [consts_defs]: "RESET_SETTLE_SECONDS = 60"
definition REARM_SECONDS :: real where [consts_defs]: "REARM_SECONDS = 600"
definition HOURLY_LIMIT_SECONDS :: real where [consts_defs]: "HOURLY_LIMIT_SECONDS = 3600"
definition HEALTH_PROBE_SECONDS :: real where [consts_defs]: "HEALTH_PROBE_SECONDS = 60"
definition HEALTH_FRESH_SECONDS :: real where [consts_defs]: "HEALTH_FRESH_SECONDS = 90"

record observation =
  ob_healthy :: bool
  ob_proof :: "real option"
  ob_eligible :: bool
  ob_busy :: bool

datatype rec_timer = Tick

datatype rec_call = Pause | Resume | ProbeHealth | ResetLe real

text \<open>What a look at the phone showed, for the log.\<close>

datatype verdict = Healthy | Busy | Outage | LeOutage | Unsafe

datatype rec_entry = Observed real verdict | Gap | Forgot | SoftReset real | ProbeSent real | WindowLost
  | CycleSubmitted real real adapter_state | RestoreSubmitted

text \<open>A pending \<open>read_async\<close>: what it is for, the BlueZ owner, and the counters when it began.\<close>

datatype purpose = Snapshot nat | AfterProbe nat adapter_state real

record pending_read =
  rd_purpose :: purpose
  rd_owner :: pystr
  rd_revision :: nat
  rd_incarnation :: nat

type_synonym json_record = "(pystr \<times> json) list"

record recovery =
  br_record :: json_record
  br_disk :: "json option"
  br_running :: bool
  br_suspended :: bool
  br_timer :: "nat option"
  br_generation :: nat
  br_snapshot_pending :: bool
  br_identity :: "(pystr \<times> pystr) option"
  br_proof_floor :: real
  br_outage_since :: "real option"
  br_healthy_since :: "real option"
  br_last_observation :: real
  br_le_outage_since :: "real option"
  br_soft_reset_at :: "real option"
  br_probing :: bool
  br_active :: bool
  br_operation_pending :: bool
  br_resume_pending :: bool
  br_cancelled :: bool
  br_adapter :: power_adapter
  br_worker :: obex_worker
  br_reads :: "pending_read list"
  br_idles :: "(nat \<times> adapter_state \<times> real) list"
  br_clock :: real
  br_history :: "(rec_timer, rec_call) eff list"
  br_log :: "rec_entry list"

record rec_config =
  rc_adapter :: adapter_config
  rc_phone :: pystr
  rc_sched :: "(rec_timer, rec_call) eff list \<Rightarrow> nat"

text \<open>
  The environment of one event: the clocks, whether \<open>blocked\<close> holds, what \<open>observe\<close>, \<open>reset_le\<close> and \<open>pause\<close> do
  (\<open>None\<close> or \<open>False\<close>: they raise), whether \<open>probe_health\<close> returns, the BlueZ owner (\<open>None\<close>: \<open>read_async\<close> raises), and
  the outcomes of the updates of the recovery record and of the journal.
\<close>

record rec_env =
  re_now :: real
  re_wall :: real
  re_blocked :: bool
  re_observe :: "observation option"
  re_probe_health :: bool
  re_reset_le :: "bool option"
  re_pause :: bool
  re_owner :: "pystr option"
  re_disk :: disk
  re_journal :: disk

definition br_note :: "rec_entry \<Rightarrow> recovery \<Rightarrow> recovery" where
  "br_note e s = s\<lparr>br_log := e # br_log s\<rparr>"

definition br_call :: "rec_call \<Rightarrow> recovery \<Rightarrow> recovery" where
  "br_call c s = s\<lparr>br_history := Call c # br_history s\<rparr>"

definition on_adapter :: "rec_config \<Rightarrow> ba_event \<Rightarrow> recovery \<Rightarrow> recovery" where
  "on_adapter cf ev s = s\<lparr>br_adapter := ba_apply (rc_adapter cf) ev (br_adapter s)\<rparr>"

definition saved_record :: "json option \<Rightarrow> json_record" where
  "saved_record raw = (case raw of Some (JObj kvs) \<Rightarrow> kvs | _ \<Rightarrow> [])"

text \<open>A new daemon process over the settings on disk: the recovery record and the journal.\<close>

definition BluetoothRecovery_init :: "rec_config \<Rightarrow> real \<Rightarrow> json option \<Rightarrow> json \<Rightarrow> recovery" where
  "BluetoothRecovery_init cf now doc journal =
     \<lparr>br_record = saved_record doc, br_disk = doc, br_running = False, br_suspended = False, br_timer = None,
      br_generation = 0, br_snapshot_pending = False, br_identity = None, br_proof_floor = now, br_outage_since = None,
      br_healthy_since = None, br_last_observation = now, br_le_outage_since = None, br_soft_reset_at = None, br_probing = False,
      br_active = False, br_operation_pending = False, br_resume_pending = False, br_cancelled = False,
      br_adapter = BluezRecoveryAdapter_init (rc_adapter cf) True journal, br_worker = ObexWorker_init, br_reads = [],
      br_idles = [], br_clock = now, br_history = [], br_log = []\<rparr>"

section \<open>The saved record\<close>

definition br_save :: "disk \<Rightarrow> json_record \<Rightarrow> recovery \<Rightarrow> bool \<times> recovery" where
  "br_save d updates s =
     (let record' = fold (\<lambda>(k, v). al_set k v) updates (br_record s);
          s = (if d = Unsaved then s else s\<lparr>br_disk := Some (JObj record')\<rparr>)
      in if d = Saved then (True, s\<lparr>br_record := record'\<rparr>) else (False, s))"

definition known_phone :: "rec_config \<Rightarrow> adapter_state \<Rightarrow> json_record \<Rightarrow> bool" where
  "known_phone cf st r \<longleftrightarrow> map_of r (lit ''adapter'') = Some (JStr (as_address st)) \<and>
     map_of r (lit ''phone'') = Some (JStr (rc_phone cf)) \<and> map_of r (lit ''verified'') = Some (JBool True)"

text \<open>\<open>type(last) in (int, float) and math.isfinite(last)\<close>, the number then.\<close>

definition last_attempt :: "json_record \<Rightarrow> real option" where
  "last_attempt r = (case map_of r (lit ''last_attempt'') of None \<Rightarrow> Some 0
     | Some (JInt i) \<Rightarrow> Some (of_int i) | Some (JFloat x) \<Rightarrow> x | _ \<Rightarrow> None)"

definition unspent :: "json_record \<Rightarrow> bool" where
  "unspent r \<longleftrightarrow> map_of r (lit ''spent'') = Some (JBool False)"

definition cycle_allowed :: "rec_config \<Rightarrow> real \<Rightarrow> adapter_state \<Rightarrow> recovery \<Rightarrow> bool" where
  "cycle_allowed cf wall st s \<longleftrightarrow> known_phone cf st (br_record s) \<and> \<not> cleanup_pending (br_adapter s) \<and> unspent (br_record s) \<and>
     (case last_attempt (br_record s) of None \<Rightarrow> False | Some x \<Rightarrow> HOURLY_LIMIT_SECONDS \<le> wall - x)"

section \<open>Starting, stopping, forgetting\<close>

definition br_invalidate :: "real \<Rightarrow> bool option \<Rightarrow> recovery \<Rightarrow> recovery" where
  "br_invalidate now suspended s =
     (let s = br_note Forgot s;
          s = s\<lparr>br_generation := br_generation s + 1, br_snapshot_pending := False,
             br_suspended := (case suspended of None \<Rightarrow> br_suspended s | Some b \<Rightarrow> b), br_outage_since := None,
             br_le_outage_since := None, br_healthy_since := None, br_soft_reset_at := None, br_probing := False,
             br_proof_floor := now\<rparr>
      in if br_active s then s\<lparr>br_cancelled := True\<rparr>
         else if br_running s \<and> suspended = Some False \<and> br_resume_pending s
         then br_call Resume (s\<lparr>br_resume_pending := False\<rparr>)
         else s)"

definition br_finished :: "real \<Rightarrow> recovery \<Rightarrow> recovery" where
  "br_finished now s =
     (let s = s\<lparr>br_operation_pending := False\<rparr>
      in if restore_pending (br_adapter s) then s
         else let s = br_invalidate now (Some (br_suspended s)) (s\<lparr>br_active := False, br_worker := ow_release (br_worker s)\<rparr>)
           in if br_running s \<and> br_suspended s then s\<lparr>br_resume_pending := True\<rparr>
              else if br_running s then br_call Resume s
              else s)"

text \<open>The part of \<open>_continue_restoration\<close> after the reservation: submit one more attempt.\<close>

definition submit_restore :: "real \<Rightarrow> recovery \<Rightarrow> recovery" where
  "submit_restore now s =
     (if br_operation_pending s then s
      else case ow_submit RestoreJob True (br_worker s) of
             None \<Rightarrow> br_finished now (s\<lparr>br_operation_pending := True\<rparr>)
           | Some w \<Rightarrow> br_note RestoreSubmitted (s\<lparr>br_operation_pending := True, br_worker := w\<rparr>))"

definition continue_restoration :: "rec_env \<Rightarrow> recovery \<Rightarrow> recovery" where
  "continue_restoration env s =
     (if br_active s then submit_restore (re_now env) s
      else let (reserved, w) = reserve_if_idle (br_worker s)
        in if \<not> reserved then s
           else let s = br_call Pause (s\<lparr>br_worker := w, br_active := True\<rparr>)
             in if re_pause env then submit_restore (re_now env) s else br_finished (re_now env) s)"

definition recovery_start :: "rec_config \<Rightarrow> rec_env \<Rightarrow> bool \<Rightarrow> recovery \<Rightarrow> recovery" where
  "recovery_start cf env subscribed s =
     (if br_running s then s
      else let ok = fst (start_monitoring subscribed (br_adapter s)); s = on_adapter cf (Monitor subscribed) s
        in if \<not> ok then s
           else let i = rc_sched cf (br_history s);
                    s = s\<lparr>br_running := True, br_timer := Some i, br_history := Schedule i POLL_SECONDS Tick # br_history s\<rparr>
             in if restore_pending (br_adapter s) then continue_restoration env s else s)"

definition recovery_stop :: "rec_config \<Rightarrow> real \<Rightarrow> recovery \<Rightarrow> recovery" where
  "recovery_stop cf now s =
     (let s = on_adapter cf Unmonitor (br_invalidate now None (s\<lparr>br_running := False\<rparr>))
      in case br_timer s of None \<Rightarrow> s
         | Some i \<Rightarrow> s\<lparr>br_timer := None, br_history := Cancel i # br_history s\<rparr>)"

definition forget_phone :: "rec_env \<Rightarrow> recovery \<Rightarrow> recovery" where
  "forget_phone env s =
     snd (br_save (re_disk env) [(lit ''verified'', JBool False), (lit ''spent'', JBool True)] (br_invalidate (re_now env) None s))"

section \<open>Observing\<close>

definition end_windows :: "recovery \<Rightarrow> recovery" where
  "end_windows s = s\<lparr>br_outage_since := None, br_le_outage_since := None, br_soft_reset_at := None\<rparr>"

text \<open>\<open>read_async\<close>: \<open>None\<close> when asking for the owner raises.\<close>

definition read_async :: "rec_env \<Rightarrow> purpose \<Rightarrow> recovery \<Rightarrow> recovery option" where
  "read_async env purpose s =
     map_option (\<lambda>owner. s\<lparr>br_reads := br_reads s @ [\<lparr>rd_purpose = purpose, rd_owner = owner,
       rd_revision = ba_revision (br_adapter s), rd_incarnation = ba_incarnation (br_adapter s)\<rparr>]\<rparr>) (re_owner env)"

definition snapshot_failed :: "real \<Rightarrow> nat \<Rightarrow> recovery \<Rightarrow> recovery" where
  "snapshot_failed now generation s =
     (if generation \<noteq> br_generation s \<or> \<not> br_running s then s else br_invalidate now None s)"

text \<open>How old the proof of health is; \<open>None\<close>: there is none since the last invalidation.\<close>

definition proof_age :: "real \<Rightarrow> observation \<Rightarrow> recovery \<Rightarrow> real option" where
  "proof_age now ob s =
     (case ob_proof ob of None \<Rightarrow> None | Some p \<Rightarrow> if p < br_proof_floor s then None else Some (now - p))"

definition probe_due :: "real option \<Rightarrow> bool" where
  "probe_due age = (case age of None \<Rightarrow> True | Some a \<Rightarrow> HEALTH_PROBE_SECONDS \<le> a)"

definition proof_stale :: "real option \<Rightarrow> bool" where
  "proof_stale age = (case age of None \<Rightarrow> True | Some a \<Rightarrow> HEALTH_FRESH_SECONDS < a)"

text \<open>A fresh proof: learn the phone, or arm the next cycle after sustained health.\<close>

definition rearm :: "rec_config \<Rightarrow> rec_env \<Rightarrow> adapter_state \<Rightarrow> recovery \<Rightarrow> recovery" where
  "rearm cf env st s =
     (let since = (case br_healthy_since s of None \<Rightarrow> re_now env | Some t \<Rightarrow> t); s = s\<lparr>br_healthy_since := Some since\<rparr>
      in if \<not> known_phone cf st (br_record s)
         then snd (br_save (re_disk env) [(lit ''adapter'', JStr (as_address st)), (lit ''phone'', JStr (rc_phone cf)),
                (lit ''verified'', JBool True), (lit ''spent'', JBool False)] s)
         else if \<not> unspent (br_record s) \<and> REARM_SECONDS \<le> re_now env - since
         then snd (br_save (re_disk env) [(lit ''spent'', JBool False)] s)
         else s)"

text \<open>The branch of \<open>_check\<close> for a healthy phone. The flag says that no callback raised.\<close>

definition check_healthy :: "rec_config \<Rightarrow> rec_env \<Rightarrow> adapter_state \<Rightarrow> observation \<Rightarrow> recovery \<Rightarrow> bool \<times> recovery" where
  "check_healthy cf env st ob s =
     (let s = end_windows (br_note (Observed (re_now env) Healthy) s); age = proof_age (re_now env) ob s
      in if known_phone cf st (br_record s) \<and> unspent (br_record s) then (True, s)
         else let s = (if probe_due age then br_call ProbeHealth s else s)
           in if probe_due age \<and> \<not> re_probe_health env then (False, s)
              else if proof_stale age then (True, s\<lparr>br_healthy_since := None\<rparr>)
              else (True, rearm cf env st s))"

text \<open>Submitting the MAP probe at the end of \<open>_check\<close>.\<close>

definition submit_probe :: "real \<Rightarrow> adapter_state \<Rightarrow> recovery \<Rightarrow> recovery" where
  "submit_probe now st s =
     (case ow_submit (ProbeJob (br_generation s) st) False (br_worker s) of
        None \<Rightarrow> s\<lparr>br_probing := False\<rparr>
      | Some w \<Rightarrow> br_note (ProbeSent now) (s\<lparr>br_probing := True, br_worker := w\<rparr>))"

text \<open>The windows of an outage: the phone-only reset first, then the probe.\<close>

definition open_windows :: "real \<Rightarrow> bool \<Rightarrow> recovery \<Rightarrow> recovery" where
  "open_windows now allowed s =
     (br_note (Observed now (if allowed then Outage else LeOutage)) s)
       \<lparr>br_le_outage_since := Some (case br_le_outage_since s of None \<Rightarrow> now | Some t \<Rightarrow> t),
        br_outage_since := (if allowed then Some (case br_outage_since s of None \<Rightarrow> now | Some t \<Rightarrow> t) else None)\<rparr>"

definition window_age :: "real \<Rightarrow> real option \<Rightarrow> real" where
  "window_age now since = now - (case since of None \<Rightarrow> now | Some t \<Rightarrow> t)"

definition advance_outage :: "rec_env \<Rightarrow> adapter_state \<Rightarrow> bool \<Rightarrow> recovery \<Rightarrow> bool \<times> recovery" where
  "advance_outage env st allowed s =
     (let now = re_now env; s = open_windows now allowed s
      in if br_probing s then (True, s)
         else if br_soft_reset_at s = None \<and> SOFT_RESET_SECONDS \<le> window_age now (br_le_outage_since s)
         then let s = br_call (ResetLe (now - window_age now (br_le_outage_since s))) s
           in case re_reset_le env of
                None \<Rightarrow> (False, s)
              | Some granted \<Rightarrow> (True, if granted then br_note (SoftReset now) (s\<lparr>br_soft_reset_at := Some now\<rparr>) else s)
         else if \<not> allowed \<or> window_age now (br_outage_since s) < OUTAGE_SECONDS \<or> br_soft_reset_at s = None \<or>
                 window_age now (br_soft_reset_at s) < RESET_SETTLE_SECONDS
         then (True, s)
         else (True, submit_probe now st s))"

definition check_outage :: "rec_config \<Rightarrow> rec_env \<Rightarrow> adapter_state \<Rightarrow> observation \<Rightarrow> recovery \<Rightarrow> bool \<times> recovery" where
  "check_outage cf env st ob s =
     (let now = re_now env; s = s\<lparr>br_healthy_since := None\<rparr>
      in if ob_busy ob then (True, br_note (Observed now Busy) s)
         else if \<not> as_le_reset_safe st \<or> \<not> ob_eligible ob \<or> \<not> known_phone cf st (br_record s) \<or> cleanup_pending (br_adapter s)
         then (True, end_windows (br_note (Observed now Unsafe) s))
         else advance_outage env st (as_safe st \<and> cycle_allowed cf (re_wall env) st s) s)"

text \<open>\<open>_check\<close> with a snapshot: forget on another controller, on power-off and after a gap, then look at the phone.\<close>

definition check_identity :: "real \<Rightarrow> adapter_state \<Rightarrow> recovery \<Rightarrow> recovery" where
  "check_identity now st s =
     (if Some (as_owner st, as_address st) = br_identity s then s
      else (br_invalidate now None s)\<lparr>br_identity := Some (as_owner st, as_address st)\<rparr>)"

definition check_gap :: "real \<Rightarrow> recovery \<Rightarrow> recovery" where
  "check_gap now s =
     (let s = (if HEALTH_FRESH_SECONDS < now - br_last_observation s
               then (end_windows (br_note Gap s))\<lparr>br_healthy_since := None\<rparr> else s)
      in s\<lparr>br_last_observation := now\<rparr>)"

definition br_check :: "rec_config \<Rightarrow> rec_env \<Rightarrow> adapter_state \<Rightarrow> recovery \<Rightarrow> bool \<times> recovery" where
  "br_check cf env st s =
     (let now = re_now env; s = check_identity now st s
      in if \<not> as_powered st then (True, br_invalidate now None s)
         else let s = check_gap now s
           in case re_observe env of
                None \<Rightarrow> (False, s)
              | Some ob \<Rightarrow> if ob_healthy ob then check_healthy cf env st ob s else check_outage cf env st ob s)"

definition snapshot_ready :: "rec_config \<Rightarrow> rec_env \<Rightarrow> nat \<Rightarrow> adapter_state \<Rightarrow> recovery \<Rightarrow> recovery" where
  "snapshot_ready cf env generation st s =
     (if generation \<noteq> br_generation s \<or> \<not> br_running s \<or> br_suspended s then s
      else let s = s\<lparr>br_snapshot_pending := False\<rparr>
        in if br_active s \<or> restore_pending (br_adapter s) then s
           else let (ok, s) = br_check cf env st s
             in if ok then s else snapshot_failed (re_now env) (br_generation s) s)"

text \<open>\<open>_tick\<close> of a running controller; it keeps its timer.\<close>

definition br_tick :: "rec_config \<Rightarrow> rec_env \<Rightarrow> recovery \<Rightarrow> recovery" where
  "br_tick cf env s =
     (if br_suspended s then s
      else if re_blocked env then if br_active s then s else br_invalidate (re_now env) None s
      else if br_active s \<or> restore_pending (br_adapter s) then continue_restoration env s
      else let s = on_adapter cf (Cleanup (re_journal env)) s
        in if br_snapshot_pending s then s
           else let s = s\<lparr>br_snapshot_pending := True\<rparr>
             in case read_async env (Snapshot (br_generation s)) s of
                  None \<Rightarrow> br_invalidate (re_now env) None s
                | Some s \<Rightarrow> s)"

section \<open>The probe and the cycle\<close>

definition br_probe_failed :: "nat \<Rightarrow> recovery \<Rightarrow> recovery" where
  "br_probe_failed generation s =
     (if generation \<noteq> br_generation s then s
      else br_note WindowLost (s\<lparr>br_probing := False, br_outage_since := None\<rparr>))"

text \<open>The end of \<open>_after_probe\<close>: the attempt is saved and the worker reserved.\<close>

definition submit_cycle :: "rec_env \<Rightarrow> adapter_state \<Rightarrow> recovery \<Rightarrow> recovery" where
  "submit_cycle env current s =
     (let s = br_call Pause (s\<lparr>br_active := True, br_operation_pending := True, br_cancelled := False\<rparr>)
      in if \<not> re_pause env then br_finished (re_now env) s
         else case ow_submit (CycleJob current) True (br_worker s) of
                None \<Rightarrow> br_finished (re_now env) s
              | Some w \<Rightarrow> br_note (CycleSubmitted (re_now env) (re_wall env) current) (s\<lparr>br_worker := w\<rparr>))"

definition decide_cycle :: "rec_config \<Rightarrow> rec_env \<Rightarrow> adapter_state \<Rightarrow> adapter_state \<Rightarrow> recovery \<Rightarrow> recovery" where
  "decide_cycle cf env expected current s =
     (case re_observe env of
        None \<Rightarrow> br_invalidate (re_now env) None s
      | Some ob \<Rightarrow>
          if current \<noteq> expected \<or> \<not> as_safe current \<or> ob_healthy ob \<or> \<not> ob_eligible ob \<or> ob_busy ob \<or>
             \<not> cycle_allowed cf (re_wall env) current s
          then s
          else let (reserved, w) = reserve_if_idle (br_worker s)
            in if \<not> reserved then s
               else let (saved, s) = br_save (re_disk env) [(lit ''spent'', JBool True),
                          (lit ''last_attempt'', JFloat (Some (re_wall env)))] (s\<lparr>br_worker := w\<rparr>)
                 in if \<not> saved then s\<lparr>br_worker := ow_release (br_worker s)\<rparr> else submit_cycle env current s)"

definition after_probe ::
  "rec_config \<Rightarrow> rec_env \<Rightarrow> nat \<Rightarrow> adapter_state \<Rightarrow> real \<Rightarrow> adapter_state option \<Rightarrow> recovery \<Rightarrow> recovery" where
  "after_probe cf env generation expected probed current s =
     (if generation \<noteq> br_generation s \<or> \<not> br_running s \<or> br_suspended s then s
      else if 30 < re_now env - probed \<or>
              (case br_outage_since s of None \<Rightarrow> True | Some t \<Rightarrow> re_now env - t < OUTAGE_SECONDS)
      then s\<lparr>br_probing := False\<rparr>
      else case current of
             None \<Rightarrow> (case read_async env (AfterProbe generation expected probed) s of
                         None \<Rightarrow> snapshot_failed (re_now env) generation s
                       | Some s \<Rightarrow> s)
           | Some c \<Rightarrow> decide_cycle cf env expected c (s\<lparr>br_probing := False\<rparr>))"

section \<open>Events\<close>

text \<open>The answer of a pending \<open>read_async\<close>; \<open>None\<close> is a D-Bus error.\<close>

definition read_done :: "rec_config \<Rightarrow> rec_env \<Rightarrow> nat \<Rightarrow> managed_objects option \<Rightarrow> recovery \<Rightarrow> recovery" where
  "read_done cf env i objects s =
     (if length (br_reads s) \<le> i then s
      else let r = br_reads s ! i; s = s\<lparr>br_reads := take i (br_reads s) @ drop (Suc i) (br_reads s)\<rparr>;
               result = (case objects of None \<Rightarrow> Inl OtherError
                 | Some obs \<Rightarrow> state_from_objects (rc_adapter cf) (rd_owner r) obs (rd_revision r) (rd_incarnation r) (br_adapter s))
        in case rd_purpose r of
             Snapshot generation \<Rightarrow>
               (case result of Inl e \<Rightarrow> snapshot_failed (re_now env) generation s
                | Inr st \<Rightarrow> snapshot_ready cf env generation st s)
           | AfterProbe generation expected probed \<Rightarrow>
               (case result of Inl e \<Rightarrow> snapshot_failed (re_now env) generation s
                | Inr st \<Rightarrow> after_probe cf env generation expected probed (Some st) s))"

text \<open>The executor takes up the power job at the head of its queue.\<close>

definition take_up :: "rec_config \<Rightarrow> disk \<Rightarrow> recovery \<Rightarrow> recovery" where
  "take_up cf d s =
     (let start = (\<lambda>ev fs. on_adapter cf ev (s\<lparr>br_worker := (br_worker s)\<lparr>ow_futures := PowerJob # fs\<rparr>\<rparr>))
      in if ba_job (br_adapter s) \<noteq> Idle then s
         else case ow_futures (br_worker s) of
                CycleJob st # fs \<Rightarrow> start (StartCycle st) fs
              | RestoreJob # fs \<Rightarrow> start (StartRestore d) fs
              | _ \<Rightarrow> s)"

definition job_step :: "rec_config \<Rightarrow> disk \<Rightarrow> answer \<Rightarrow> recovery \<Rightarrow> recovery" where
  "job_step cf d a s = on_adapter cf (WorkerStep d (br_cancelled s) a) s"

text \<open>The probe runs on the worker: the time it returned, or \<open>None\<close> when it raised.\<close>

definition run_probe :: "real option \<Rightarrow> recovery \<Rightarrow> recovery" where
  "run_probe result s =
     (case ow_futures (br_worker s) of
        ProbeJob generation st # fs \<Rightarrow>
          s\<lparr>br_worker := (br_worker s)\<lparr>ow_futures := ProbeResult generation st result # fs\<rparr>\<rparr>
      | _ \<Rightarrow> s)"

text \<open>A result reaches the main loop: the callback runs, then the future is discarded.\<close>

definition deliver :: "rec_config \<Rightarrow> real \<Rightarrow> recovery \<Rightarrow> recovery" where
  "deliver cf now s =
     (let discard = (\<lambda>s. s\<lparr>br_worker := ow_discard (br_worker s)\<rparr>)
      in case ow_futures (br_worker s) of
           Foreign # _ \<Rightarrow> discard s
         | ProbeResult generation st (Some probed) # _ \<Rightarrow> discard (s\<lparr>br_idles := br_idles s @ [(generation, st, probed)]\<rparr>)
         | ProbeResult generation st None # _ \<Rightarrow> discard (br_probe_failed generation s)
         | PowerJob # _ \<Rightarrow>
             (case ba_job (br_adapter s) of
                Finished e \<Rightarrow> discard (br_finished now (on_adapter cf Delivered s))
              | _ \<Rightarrow> s)
         | _ \<Rightarrow> s)"

definition run_idle :: "rec_config \<Rightarrow> rec_env \<Rightarrow> recovery \<Rightarrow> recovery" where
  "run_idle cf env s =
     (case br_idles s of [] \<Rightarrow> s
      | (generation, st, probed) # rest \<Rightarrow> after_probe cf env generation st probed None (s\<lparr>br_idles := rest\<rparr>))"

definition foreign_submit :: "recovery \<Rightarrow> recovery" where
  "foreign_submit s =
     (case ow_submit Foreign False (br_worker s) of None \<Rightarrow> s | Some w \<Rightarrow> s\<lparr>br_worker := w\<rparr>)"

text \<open>
  \<open>finish_shutdown\<close>, the clean-up job of the closed worker: restoration attempts whose exceptions are swallowed until
  nothing is pending or the deadline has passed, then the journal clean-up.
\<close>

definition finish_shutdown :: "rec_config \<Rightarrow> disk \<Rightarrow> real \<Rightarrow> real \<Rightarrow> recovery \<Rightarrow> recovery" where
  "finish_shutdown cf d now deadline s =
     (case ba_job (br_adapter s) of
        Finished e \<Rightarrow> on_adapter cf Delivered s
      | Idle \<Rightarrow> if restore_pending (br_adapter s) \<and> now < deadline then on_adapter cf (StartRestore d) s
                else on_adapter cf (Cleanup d) s
      | _ \<Rightarrow> s)"

datatype rec_event =
    EvStart rec_env bool
  | EvStop real
  | EvInvalidate real "bool option"
  | EvForget rec_env
  | EvTick rec_env
  | EvRead rec_env nat "managed_objects option"
  | EvIdle rec_env
  | EvDeliver real
  | EvTakeUp disk
  | EvJob disk answer
  | EvProbe real bool
  | EvForeign
  | EvSignal ba_event
  | EvShutdown
  | EvFinish disk real real
  | EvRestart real

text \<open>Events of the main loop; they end with the shutdown, which blocks it.\<close>

fun main_event :: "rec_config \<Rightarrow> rec_event \<Rightarrow> recovery \<Rightarrow> recovery" where
  "main_event cf (EvStart env subscribed) s = recovery_start cf env subscribed s"
| "main_event cf (EvStop now) s = recovery_stop cf now s"
| "main_event cf (EvInvalidate now suspended) s = br_invalidate now suspended s"
| "main_event cf (EvForget env) s = forget_phone env s"
| "main_event cf (EvTick env) s = (if br_timer s \<noteq> None then br_tick cf env s else s)"
| "main_event cf (EvRead env i objects) s = read_done cf env i objects s"
| "main_event cf (EvIdle env) s = run_idle cf env s"
| "main_event cf (EvDeliver now) s = deliver cf now s"
| "main_event cf (EvTakeUp d) s = take_up cf d s"
| "main_event cf (EvProbe now ok) s = run_probe (if ok then Some now else None) s"
| "main_event cf EvForeign s = foreign_submit s"
| "main_event cf (EvSignal ev) s = on_adapter cf ev s"
| "main_event cf EvShutdown s = s\<lparr>br_worker := ow_shutdown (br_worker s)\<rparr>"
| "main_event cf _ s = s"

fun event_time :: "rec_event \<Rightarrow> real option" where
  "event_time (EvStart env subscribed) = Some (re_now env)"
| "event_time (EvStop now) = Some now"
| "event_time (EvInvalidate now suspended) = Some now"
| "event_time (EvForget env) = Some (re_now env)"
| "event_time (EvTick env) = Some (re_now env)"
| "event_time (EvRead env i objects) = Some (re_now env)"
| "event_time (EvIdle env) = Some (re_now env)"
| "event_time (EvDeliver now) = Some now"
| "event_time (EvProbe now ok) = Some now"
| "event_time _ = None"

definition advance_clock :: "rec_event \<Rightarrow> recovery \<Rightarrow> recovery" where
  "advance_clock ev s = (case event_time ev of None \<Rightarrow> s | Some now \<Rightarrow> s\<lparr>br_clock := now\<rparr>)"

definition rec_apply :: "rec_config \<Rightarrow> rec_event \<Rightarrow> recovery \<Rightarrow> recovery" where
  "rec_apply cf ev s =
     (case ev of
        EvJob d a \<Rightarrow> job_step cf d a s
      | EvFinish d now deadline \<Rightarrow> if ow_closed (br_worker s) then finish_shutdown cf d now deadline s else s
      | EvRestart now \<Rightarrow>
          (BluetoothRecovery_init cf now (br_disk s) (ba_journal (br_adapter s)))\<lparr>br_log := Forgot # br_log s\<rparr>
      | _ \<Rightarrow> if ow_closed (br_worker s) then s else main_event cf ev (advance_clock ev s))"

text \<open>
  What the environment promises: the monotonic clock does not run backwards, asking for BlueZ's owner gives a unique bus
  name, adapters have an address, the adapter answers as \<open>sound_event\<close> says, and the signals are BlueZ's.
\<close>

fun event_owner :: "rec_event \<Rightarrow> pystr option" where
  "event_owner (EvStart env subscribed) = re_owner env"
| "event_owner (EvTick env) = re_owner env"
| "event_owner (EvRead env i objects) = re_owner env"
| "event_owner (EvIdle env) = re_owner env"
| "event_owner _ = None"

definition addressed :: "rec_config \<Rightarrow> managed_objects \<Rightarrow> bool" where
  "addressed cf objects \<longleftrightarrow>
     (\<forall>(path, ob) \<in> set objects. \<forall>a address. mo_adapter ob = Some a \<longrightarrow> a1_address a = Some address \<longrightarrow>
        py_upper (ac_case (rc_adapter cf)) address \<noteq> [])"

fun bluez_signal :: "ba_event \<Rightarrow> bool" where
  "bluez_signal (InterfacesChanged path interfaces) = True"
| "bluez_signal OwnerChanged = True"
| "bluez_signal (PropertiesChanged d path interface changed invalidated) = True"
| "bluez_signal _ = False"

definition sound_rec_event :: "rec_config \<Rightarrow> rec_event \<Rightarrow> recovery \<Rightarrow> bool" where
  "sound_rec_event cf ev s \<longleftrightarrow>
     (\<forall>now. event_time ev = Some now \<longrightarrow> br_clock s \<le> now) \<and>
     (\<forall>owner. event_owner ev = Some owner \<longrightarrow> unique_name (rc_adapter cf) owner) \<and>
     (case ev of EvRead env i (Some objects) \<Rightarrow> addressed cf objects
      | EvJob d a \<Rightarrow> sound_event (rc_adapter cf) (WorkerStep d (br_cancelled s) a)
      | EvSignal e \<Rightarrow> bluez_signal e
      | _ \<Rightarrow> True)"

inductive rec_step :: "rec_config \<Rightarrow> recovery \<Rightarrow> recovery \<Rightarrow> bool" for cf where
  "sound_rec_event cf ev s \<Longrightarrow> rec_step cf s (rec_apply cf ev s)"

inductive_cases rec_stepE: "rec_step cf s s'"

definition rec_init :: "rec_config \<Rightarrow> recovery \<Rightarrow> bool" where
  "rec_init cf s \<longleftrightarrow> fresh_ids (rc_sched cf) \<and> (\<exists>now doc journal. s = BluetoothRecovery_init cf now doc journal)"

end
