(* ===== verification/Recovery_Moves.thy ===== *)
theory Recovery_Moves
  imports Bluetooth_Recovery
begin

text \<open>
  How the operations of the last-resort recovery move its state: what each of them leaves alone, that the worker is
  reserved exactly while the controller is active and holds a power job only then, and that all steps but one submit no
  power cycle and lose no saved attempt. The guarantees over whole runs rest on these lemmas.
\<close>

section \<open>What the operations leave alone\<close>

lemma invalidate_frame [simp]:
  "br_worker (br_invalidate now su s) = br_worker s"
  "br_adapter (br_invalidate now su s) = br_adapter s"
  "br_active (br_invalidate now su s) = br_active s"
  "br_operation_pending (br_invalidate now su s) = br_operation_pending s"
  "br_record (br_invalidate now su s) = br_record s"
  "br_disk (br_invalidate now su s) = br_disk s"
  "br_reads (br_invalidate now su s) = br_reads s"
  "br_idles (br_invalidate now su s) = br_idles s"
  "br_timer (br_invalidate now su s) = br_timer s"
  "br_running (br_invalidate now su s) = br_running s"
  "br_log (br_invalidate now su s) = Forgot # br_log s"
  "br_clock (br_invalidate now su s) = br_clock s"
  "br_outage_since (br_invalidate now su s) = None"
  "br_soft_reset_at (br_invalidate now su s) = None"
  "br_last_observation (br_invalidate now su s) = br_last_observation s"
  by (simp_all add: br_invalidate_def br_note_def br_call_def Let_def)

lemma save_frame [simp]:
  "br_worker (snd (br_save d u s)) = br_worker s"
  "br_adapter (snd (br_save d u s)) = br_adapter s"
  "br_active (snd (br_save d u s)) = br_active s"
  "br_operation_pending (snd (br_save d u s)) = br_operation_pending s"
  "br_reads (snd (br_save d u s)) = br_reads s"
  "br_idles (snd (br_save d u s)) = br_idles s"
  "br_timer (snd (br_save d u s)) = br_timer s"
  "br_running (snd (br_save d u s)) = br_running s"
  "br_log (snd (br_save d u s)) = br_log s"
  "br_clock (snd (br_save d u s)) = br_clock s"
  "br_history (snd (br_save d u s)) = br_history s"
  "br_outage_since (snd (br_save d u s)) = br_outage_since s"
  "br_soft_reset_at (snd (br_save d u s)) = br_soft_reset_at s"
  "br_last_observation (snd (br_save d u s)) = br_last_observation s"
  by (simp_all add: br_save_def Let_def)

lemma finished_frame [simp]:
  "br_worker (br_finished now s) = (if restore_pending (br_adapter s) then br_worker s else ow_release (br_worker s))"
  "br_active (br_finished now s) = (br_active s \<and> restore_pending (br_adapter s))"
  "br_operation_pending (br_finished now s) = False"
  "br_adapter (br_finished now s) = br_adapter s"
  "br_record (br_finished now s) = br_record s"
  "br_disk (br_finished now s) = br_disk s"
  "br_reads (br_finished now s) = br_reads s"
  "br_timer (br_finished now s) = br_timer s"
  "br_running (br_finished now s) = br_running s"
  by (simp_all add: br_finished_def br_call_def Let_def)

lemma note_frame [simp]:
  "br_worker (br_note e s) = br_worker s" "br_adapter (br_note e s) = br_adapter s" "br_active (br_note e s) = br_active s"
  "br_operation_pending (br_note e s) = br_operation_pending s" "br_record (br_note e s) = br_record s"
  "br_disk (br_note e s) = br_disk s" "br_reads (br_note e s) = br_reads s" "br_timer (br_note e s) = br_timer s"
  "br_running (br_note e s) = br_running s" "br_history (br_note e s) = br_history s" "br_log (br_note e s) = e # br_log s"
  "br_outage_since (br_note e s) = br_outage_since s" "br_soft_reset_at (br_note e s) = br_soft_reset_at s"
  "br_last_observation (br_note e s) = br_last_observation s" "br_generation (br_note e s) = br_generation s"
  by (simp_all add: br_note_def)

lemma call_frame [simp]:
  "br_worker (br_call c s) = br_worker s" "br_adapter (br_call c s) = br_adapter s" "br_active (br_call c s) = br_active s"
  "br_operation_pending (br_call c s) = br_operation_pending s" "br_record (br_call c s) = br_record s"
  "br_disk (br_call c s) = br_disk s" "br_reads (br_call c s) = br_reads s" "br_timer (br_call c s) = br_timer s"
  "br_running (br_call c s) = br_running s" "br_log (br_call c s) = br_log s"
  "br_outage_since (br_call c s) = br_outage_since s" "br_soft_reset_at (br_call c s) = br_soft_reset_at s"
  "br_last_observation (br_call c s) = br_last_observation s" "live (br_history (br_call c s)) = live (br_history s)"
  by (simp_all add: br_call_def)

lemma windows_frame [simp]:
  "br_worker (end_windows s) = br_worker s" "br_adapter (end_windows s) = br_adapter s" "br_active (end_windows s) = br_active s"
  "br_operation_pending (end_windows s) = br_operation_pending s" "br_record (end_windows s) = br_record s"
  "br_disk (end_windows s) = br_disk s" "br_reads (end_windows s) = br_reads s" "br_timer (end_windows s) = br_timer s"
  "br_running (end_windows s) = br_running s" "br_history (end_windows s) = br_history s" "br_log (end_windows s) = br_log s"
  "br_outage_since (end_windows s) = None" "br_soft_reset_at (end_windows s) = None"
  "br_last_observation (end_windows s) = br_last_observation s" "br_healthy_since (end_windows s) = br_healthy_since s"
  by (simp_all add: end_windows_def)

lemma adapter_frame [simp]:
  "br_worker (on_adapter cf ev s) = br_worker s" "br_active (on_adapter cf ev s) = br_active s"
  "br_operation_pending (on_adapter cf ev s) = br_operation_pending s" "br_record (on_adapter cf ev s) = br_record s"
  "br_disk (on_adapter cf ev s) = br_disk s" "br_reads (on_adapter cf ev s) = br_reads s" "br_timer (on_adapter cf ev s) = br_timer s"
  "br_running (on_adapter cf ev s) = br_running s" "br_history (on_adapter cf ev s) = br_history s"
  "br_log (on_adapter cf ev s) = br_log s" "br_outage_since (on_adapter cf ev s) = br_outage_since s"
  "br_soft_reset_at (on_adapter cf ev s) = br_soft_reset_at s" "br_last_observation (on_adapter cf ev s) = br_last_observation s"
  "br_adapter (on_adapter cf ev s) = ba_apply (rc_adapter cf) ev (br_adapter s)"
  by (simp_all add: on_adapter_def)

section \<open>The reservation of the worker\<close>

fun power_future :: "future \<Rightarrow> bool" where
  "power_future (CycleJob st) = True"
| "power_future RestoreJob = True"
| "power_future PowerJob = True"
| "power_future _ = False"

text \<open>
  While the worker is open: it is reserved exactly when the controller is active; a power job in flight is the only future
  and the adapter works on it exactly when the executor took it up; otherwise the adapter is idle, and the worker of an
  active controller has nothing queued.
\<close>

definition res_ok :: "obex_worker \<Rightarrow> power_adapter \<Rightarrow> bool \<Rightarrow> bool \<Rightarrow> bool" where
  "res_ok w ad active op \<longleftrightarrow> (ow_closed w \<and> (\<forall>st. CycleJob st \<notin> set (ow_futures w)) \<or> \<not> ow_closed w \<and>
     ow_reserved w = active \<and>
     (if op then active \<and> (\<exists>f. ow_futures w = [f] \<and> power_future f \<and> (f = PowerJob \<longleftrightarrow> ba_job ad \<noteq> Idle))
      else ba_job ad = Idle \<and> (active \<longrightarrow> ow_futures w = []) \<and>
           (\<forall>f \<in> set (ow_futures w). \<not> power_future f)))"

definition reserve_inv :: "recovery \<Rightarrow> bool" where
  "reserve_inv s \<longleftrightarrow> res_ok (br_worker s) (br_adapter s) (br_active s) (br_operation_pending s)"

lemma reserve_frame:
  "br_worker s' = br_worker s \<Longrightarrow> br_adapter s' = br_adapter s \<Longrightarrow> br_active s' = br_active s \<Longrightarrow>
   br_operation_pending s' = br_operation_pending s \<Longrightarrow> reserve_inv s \<Longrightarrow> reserve_inv s'"
  by (simp add: reserve_inv_def)

text \<open>The end of a power job, before its future is discarded.\<close>

lemma reserve_finished:
  assumes "br_active s" "ow_reserved (br_worker s)" "ba_job (br_adapter s) = Idle" "ow_futures (br_worker s) = []"
  shows "reserve_inv (br_finished now s)"
  using assms by (simp add: reserve_inv_def res_ok_def ow_release_def)

lemma reserve_submit_restore:
  assumes "reserve_inv s" "br_active s"
  shows "reserve_inv (submit_restore now s)"
proof (cases "br_operation_pending s \<or> ow_closed (br_worker s)")
  case True
  then show ?thesis
    using assms by (auto simp: submit_restore_def ow_submit_def reserve_inv_def res_ok_def ow_release_def)
next
  case False
  then show ?thesis
    using assms by (auto simp: submit_restore_def ow_submit_def reserve_inv_def res_ok_def consts_defs)
qed

lemma reserve_continue:
  assumes i: "reserve_inv s"
  shows "reserve_inv (continue_restoration env s)"
proof (cases "br_active s \<or> \<not> fst (reserve_if_idle (br_worker s))")
  case True
  then show ?thesis
    using i by (auto simp: continue_restoration_def reserve_submit_restore split: prod.splits)
next
  case False
  let ?s = "br_call Pause (s\<lparr>br_worker := (br_worker s)\<lparr>ow_reserved := True\<rparr>, br_active := True\<rparr>)"
  have w: "reserve_if_idle (br_worker s) = (True, (br_worker s)\<lparr>ow_reserved := True\<rparr>)" "ow_futures (br_worker s) = []"
      "\<not> ow_closed (br_worker s)"
    using False by (auto simp: reserve_if_idle_def split: if_splits)
  then have s: "reserve_inv ?s" "\<not> br_operation_pending s" "ba_job (br_adapter s) = Idle"
    using i False by (auto simp: reserve_inv_def res_ok_def split: if_splits)
  have "continue_restoration env s = (if re_pause env then submit_restore (re_now env) ?s else br_finished (re_now env) ?s)"
    using False w by (simp add: continue_restoration_def)
  moreover have "reserve_inv (br_finished (re_now env) ?s)"
    using w s by (intro reserve_finished) auto
  moreover have "reserve_inv (submit_restore (re_now env) ?s)"
    using s(1) by (rule reserve_submit_restore) simp
  ultimately show ?thesis by simp
qed

fun main_thread :: "ba_event \<Rightarrow> bool" where
  "main_thread (StartCycle st) = False"
| "main_thread (StartRestore d) = False"
| "main_thread (WorkerStep d c a) = False"
| "main_thread Delivered = False"
| "main_thread ev = True"

lemma main_thread_job_same [simp]: "main_thread ev \<Longrightarrow> ba_job (ba_apply cf ev ad) = ba_job ad"
  by (cases ev) (simp_all add: interfaces_changed_def adapter_owner_changed_def properties_changed_def start_monitoring_def
      stop_monitoring_def bump_revision_def ba_note_def Let_def)

lemma bluez_signal_main: "bluez_signal ev \<Longrightarrow> main_thread ev"
  by (cases ev) simp_all

lemma reserve_adapter: "main_thread ev \<Longrightarrow> reserve_inv s \<Longrightarrow> reserve_inv (on_adapter cf ev s)"
  by (auto simp: reserve_inv_def res_ok_def simp del: ba_apply.simps)

lemma reserve_invalidate: "reserve_inv s \<Longrightarrow> reserve_inv (br_invalidate now su s)"
  by (rule reserve_frame) simp_all

lemma reserve_start:
  assumes i: "reserve_inv s"
  shows "reserve_inv (recovery_start cf env subscribed s)"
proof -
  define a where "a = on_adapter cf (Monitor subscribed) s"
  define t where "t = a\<lparr>br_running := True, br_timer := Some (rc_sched cf (br_history a)),
    br_history := Schedule (rc_sched cf (br_history a)) POLL_SECONDS Tick # br_history a\<rparr>"
  have a: "reserve_inv a" using i by (simp add: a_def reserve_adapter)
  then have t: "reserve_inv t" by (simp add: t_def reserve_inv_def)
  have "recovery_start cf env subscribed s \<in> {s, a, t, continue_restoration env t}"
    by (simp add: recovery_start_def Let_def a_def [symmetric] t_def [symmetric])
  then show ?thesis using i a t reserve_continue by auto
qed

lemma reserve_stop:
  assumes "reserve_inv s"
  shows "reserve_inv (recovery_stop cf now s)"
proof -
  define t where "t = on_adapter cf Unmonitor (br_invalidate now None (s\<lparr>br_running := False\<rparr>))"
  have "reserve_inv (s\<lparr>br_running := False\<rparr>)" using assms by (simp add: reserve_inv_def)
  then have "reserve_inv t" unfolding t_def by (intro reserve_adapter reserve_invalidate) simp
  then show ?thesis
    by (cases "br_timer t") (simp_all add: recovery_stop_def Let_def t_def [symmetric] reserve_inv_def)
qed

lemma reserve_save: "reserve_inv s \<Longrightarrow> reserve_inv (snd (br_save d u s))"
  by (rule reserve_frame) simp_all

lemma reserve_forget: "reserve_inv s \<Longrightarrow> reserve_inv (forget_phone env s)"
  by (simp add: forget_phone_def reserve_save reserve_invalidate)

lemma reserve_unreserved_submit:
  assumes "reserve_inv s" "ow_submit f False (br_worker s) = Some w" "\<not> power_future f"
  shows "reserve_inv (s\<lparr>br_worker := w\<rparr>)"
  using assms by (auto simp: reserve_inv_def res_ok_def ow_submit_def split: if_splits)

lemma open_windows_frame [simp]:
  "br_worker (open_windows now al s) = br_worker s" "br_adapter (open_windows now al s) = br_adapter s"
  "br_active (open_windows now al s) = br_active s" "br_operation_pending (open_windows now al s) = br_operation_pending s"
  "br_record (open_windows now al s) = br_record s" "br_disk (open_windows now al s) = br_disk s"
  "br_reads (open_windows now al s) = br_reads s" "br_timer (open_windows now al s) = br_timer s"
  "br_running (open_windows now al s) = br_running s" "br_history (open_windows now al s) = br_history s"
  "br_soft_reset_at (open_windows now al s) = br_soft_reset_at s"
  "br_last_observation (open_windows now al s) = br_last_observation s"
  "br_log (open_windows now al s) = Observed now (if al then Outage else LeOutage) # br_log s"
  by (simp_all add: open_windows_def)

text \<open>A look at the phone touches the worker only to submit the probe.\<close>

definition looked :: "recovery \<Rightarrow> recovery \<Rightarrow> bool" where
  "looked s s' \<longleftrightarrow> br_adapter s' = br_adapter s \<and> br_active s' = br_active s \<and> br_operation_pending s' = br_operation_pending s \<and>
     br_reads s' = br_reads s \<and> br_timer s' = br_timer s \<and> br_running s' = br_running s \<and>
     live (br_history s') = live (br_history s) \<and>
     (br_worker s' = br_worker s \<or> (\<exists>g st. ow_submit (ProbeJob g st) False (br_worker s) = Some (br_worker s')))"

lemma looked_submit: "looked s (submit_probe now st s)"
  by (cases "ow_submit (ProbeJob (br_generation s) st) False (br_worker s)") (auto simp: looked_def submit_probe_def)

lemma looked_simps [simp]:
  "looked s s" "looked s (br_call c s)" "looked s (br_note e s)"
  "looked s (br_note e ((br_call c s)\<lparr>br_soft_reset_at := x\<rparr>))" "looked s (s\<lparr>br_healthy_since := y\<rparr>)"
  by (simp_all add: looked_def)

lemma looked_trans: "looked s u \<Longrightarrow> br_worker u = br_worker s \<Longrightarrow> looked u v \<Longrightarrow> looked s v"
  by (simp add: looked_def)

lemma looked_save: "looked s (snd (br_save d u s))"
  by (simp add: looked_def)

lemma looked_advance: "looked s (snd (advance_outage env st al s))"
proof -
  define t where "t = open_windows (re_now env) al s"
  have "looked t (snd (advance_outage env st al s))"
    unfolding advance_outage_def Let_def t_def [symmetric]
    by (simp add: looked_submit split: option.split)
  moreover have "looked s t" "br_worker t = br_worker s" by (simp_all add: looked_def t_def)
  ultimately show ?thesis using looked_trans by blast
qed

lemma looked_rearm: "looked s (rearm cf env st s)"
  by (simp add: rearm_def Let_def looked_def)

lemma looked_healthy: "looked s (snd (check_healthy cf env st ob s))"
proof -
  define t where "t = end_windows (br_note (Observed (re_now env) Healthy) s)"
  have "looked t (snd (check_healthy cf env st ob s))"
    unfolding check_healthy_def Let_def t_def [symmetric]
    by (simp add: looked_rearm looked_trans [OF looked_simps(2) _ looked_rearm] looked_trans [OF looked_simps(2) _ looked_simps(5)])
  moreover have "looked s t" "br_worker t = br_worker s" by (simp_all add: looked_def t_def)
  ultimately show ?thesis using looked_trans by blast
qed

lemma looked_check: "looked s (snd (br_check cf env st s))"
proof -
  define u where "u = check_identity (re_now env) st s"
  define t where "t = check_gap (re_now env) u"
  have u: "looked s u" "br_worker u = br_worker s"
    by (simp_all add: u_def check_identity_def looked_def br_invalidate_def Let_def)
  have t: "looked u t" "br_worker t = br_worker u"
    by (simp_all add: t_def check_gap_def looked_def Let_def)
  have "looked t (snd (check_outage cf env st ob t))" for ob
    unfolding check_outage_def Let_def
    by (simp add: looked_trans [OF looked_simps(5) _ looked_advance] looked_trans [OF looked_simps(5) _ looked_simps(3)]) (simp add: looked_def)
  moreover have "looked u (br_invalidate (re_now env) None u)"
    by (simp add: looked_def br_invalidate_def Let_def)
  ultimately have "looked u (snd (br_check cf env st s))"
    unfolding br_check_def Let_def u_def [symmetric] t_def [symmetric]
    using looked_trans [OF t looked_healthy] looked_trans [OF t] t by (simp split: option.split)
  then show ?thesis using looked_trans [OF u] by blast
qed

lemma reserve_looked: "looked s s' \<Longrightarrow> reserve_inv s \<Longrightarrow> reserve_inv s'"
  using reserve_unreserved_submit [of s] by (auto simp: looked_def reserve_inv_def)

lemma reserve_snapshot_failed: "reserve_inv s \<Longrightarrow> reserve_inv (snapshot_failed now g s)"
  by (simp add: snapshot_failed_def reserve_invalidate)

lemma reserve_snapshot_ready:
  assumes "reserve_inv s"
  shows "reserve_inv (snapshot_ready cf env g st s)"
proof -
  define t where "t = s\<lparr>br_snapshot_pending := False\<rparr>"
  have t: "reserve_inv t" using assms by (simp add: t_def reserve_inv_def)
  have "reserve_inv (snd (br_check cf env st t))" using looked_check t by (rule reserve_looked)
  then show ?thesis
    using assms t unfolding snapshot_ready_def Let_def t_def [symmetric]
    by (cases "br_check cf env st t") (simp add: reserve_snapshot_failed)
qed

lemma reserve_read_async: "read_async env p s = Some s' \<Longrightarrow> reserve_inv s \<Longrightarrow> reserve_inv s'"
  by (auto simp: read_async_def reserve_inv_def)

lemma reserve_tick:
  assumes "reserve_inv s"
  shows "reserve_inv (br_tick cf env s)"
proof -
  define a where "a = on_adapter cf (Cleanup (re_journal env)) s"
  define t where "t = a\<lparr>br_snapshot_pending := True\<rparr>"
  have a: "reserve_inv a" using assms by (simp add: a_def reserve_adapter)
  then have t: "reserve_inv t" by (simp add: t_def reserve_inv_def)
  show ?thesis
    using assms a t unfolding br_tick_def Let_def a_def [symmetric] t_def [symmetric]
    by (simp add: reserve_invalidate reserve_continue reserve_read_async split: option.split)
qed

lemma reserve_submit_cycle:
  assumes "ow_reserved (br_worker s)" "ow_futures (br_worker s) = []" "ba_job (br_adapter s) = Idle"
  shows "reserve_inv (submit_cycle env current s)"
proof -
  define t where "t = br_call Pause (s\<lparr>br_active := True, br_operation_pending := True, br_cancelled := False\<rparr>)"
  have t: "br_worker t = br_worker s" "br_adapter t = br_adapter s" "br_active t" "br_operation_pending t" by (simp_all add: t_def)
  then have f: "reserve_inv (br_finished (re_now env) t)" using assms by (intro reserve_finished) simp_all
  show ?thesis
  proof (cases "ow_submit (CycleJob current) True (br_worker t)")
    case None
    then show ?thesis using f by (simp add: submit_cycle_def Let_def t_def)
  next
    case (Some w)
    then have "reserve_inv (t\<lparr>br_worker := w\<rparr>)"
      using assms t by (auto simp: ow_submit_def reserve_inv_def res_ok_def split: if_splits)
    then show ?thesis
      using f Some unfolding submit_cycle_def Let_def t_def [symmetric] by (simp add: reserve_inv_def)
  qed
qed

lemma reserve_decide:
  assumes i: "reserve_inv s"
  shows "reserve_inv (decide_cycle cf env expected current s)"
proof (cases "fst (reserve_if_idle (br_worker s))")
  case False
  then show ?thesis
    using i by (auto simp: decide_cycle_def reserve_invalidate split: option.split prod.split)
next
  case True
  define w where "w = (br_worker s)\<lparr>ow_reserved := True\<rparr>"
  define t where "t = snd (br_save (re_disk env) [(lit ''spent'', JBool True),
    (lit ''last_attempt'', JFloat (Some (re_wall env)))] (s\<lparr>br_worker := w\<rparr>))"
  have w: "reserve_if_idle (br_worker s) = (True, w)" "ow_futures (br_worker s) = []" "\<not> ow_closed (br_worker s)"
      "\<not> ow_reserved (br_worker s)"
    using True by (auto simp: w_def reserve_if_idle_def split: if_splits)
  then have s: "\<not> br_active s" "\<not> br_operation_pending s" "ba_job (br_adapter s) = Idle"
    using i by (auto simp: reserve_inv_def res_ok_def split: if_splits)
  have t: "br_worker t = w" "br_adapter t = br_adapter s" "br_active t = br_active s" "br_operation_pending t = br_operation_pending s"
    by (simp_all add: t_def)
  have "reserve_inv (submit_cycle env current t)"
    using t s w by (intro reserve_submit_cycle) (simp_all add: w_def)
  moreover have "reserve_inv (t\<lparr>br_worker := ow_release (br_worker t)\<rparr>)"
    using t s w by (simp add: reserve_inv_def res_ok_def ow_release_def w_def)
  moreover obtain ok where "br_save (re_disk env) [(lit ''spent'', JBool True),
      (lit ''last_attempt'', JFloat (Some (re_wall env)))] (s\<lparr>br_worker := w\<rparr>) = (ok, t)"
    by (metis prod.collapse t_def)
  ultimately show ?thesis
    using i by (auto simp: decide_cycle_def w reserve_invalidate split: option.split)
qed

lemma reserve_after_probe:
  assumes i: "reserve_inv s"
  shows "reserve_inv (after_probe cf env g expected probed current s)"
proof -
  have "reserve_inv (s\<lparr>br_probing := False\<rparr>)" using i by (simp add: reserve_inv_def)
  then show ?thesis
    using i by (simp add: after_probe_def reserve_decide reserve_snapshot_failed reserve_read_async split: option.split)
qed

lemma reserve_read_done:
  assumes i: "reserve_inv s"
  shows "reserve_inv (read_done cf env n objects s)"
proof -
  define t where "t = s\<lparr>br_reads := take n (br_reads s) @ drop (Suc n) (br_reads s)\<rparr>"
  have t: "reserve_inv t" using i by (simp add: t_def reserve_inv_def)
  show ?thesis
    using i t unfolding read_done_def Let_def t_def [symmetric]
    by (simp add: reserve_snapshot_failed reserve_snapshot_ready reserve_after_probe split: option.split purpose.split sum.split)
qed

lemma worker_step_busy [simp]: "ba_job (worker_step cf d c a ad) = Idle \<longleftrightarrow> ba_job ad = Idle"
proof (cases "ba_job ad")
  case (Prepare x)
  then show ?thesis
    by (auto simp: worker_step_def cycle_journal_def update_journal_def goto_job_def ba_note_def Let_def split: answer.split sum.split)
qed (auto simp: worker_step_def cycle_recheck_def cycle_abandon_def cycle_verify_def restore_begin_def restore_bus_def
      restoration_instance_def restoration_error_def restoration_read_def restore_request_def restore_decide_def
      restore_requested_def Let_def split: answer.split sum.split option.split recovery_error.split)

lemma reserve_job_step: "reserve_inv s \<Longrightarrow> reserve_inv (job_step cf d a s)"
  by (auto simp: job_step_def reserve_inv_def res_ok_def)

lemma start_busy:
  "ba_job ad = Idle \<Longrightarrow> ba_job (ba_apply cf (StartCycle st) ad) \<noteq> Idle"
  "ba_job ad = Idle \<Longrightarrow> ba_job (ba_apply cf (StartRestore d) ad) \<noteq> Idle"
  by (auto simp: cycle_begin_def restore_begin_def Let_def split: option.split)

lemma reserve_take_up:
  assumes i: "reserve_inv s" and c: "\<not> ow_closed (br_worker s)"
  shows "reserve_inv (take_up cf d s)"
proof (cases "br_operation_pending s \<and> ba_job (br_adapter s) = Idle")
  case True
  then obtain f where f: "ow_futures (br_worker s) = [f]" "power_future f" "f \<noteq> PowerJob" "ow_reserved (br_worker s)" "br_active s"
    using i c by (auto simp: reserve_inv_def res_ok_def)
  then show ?thesis
    using True start_busy [of "br_adapter s"]
    by (cases f) (auto simp: take_up_def reserve_inv_def res_ok_def simp del: ba_apply.simps)
next
  case False
  then have "\<forall>f \<in> set (ow_futures (br_worker s)). \<not> power_future f" if "ba_job (br_adapter s) = Idle"
    using i c that by (auto simp: reserve_inv_def res_ok_def)
  then have "take_up cf d s = s" by (auto simp: take_up_def split: list.split future.split)
  then show ?thesis using i by simp
qed

lemma reserve_run_probe:
  assumes "reserve_inv s"
  shows "reserve_inv (run_probe r s)"
proof (cases "ow_futures (br_worker s)")
  case (Cons f fs)
  then show ?thesis using assms by (cases f) (auto simp: run_probe_def reserve_inv_def res_ok_def)
qed (use assms in \<open>simp add: run_probe_def\<close>)

lemma reserve_discard:
  "reserve_inv s \<Longrightarrow> \<not> br_operation_pending s \<Longrightarrow> reserve_inv (s\<lparr>br_worker := ow_discard (br_worker s)\<rparr>)"
  by (cases "ow_futures (br_worker s)") (auto simp: reserve_inv_def res_ok_def ow_discard_def)

lemma br_probe_failed_frame [simp]:
  "br_worker (br_probe_failed g s) = br_worker s" "br_adapter (br_probe_failed g s) = br_adapter s"
  "br_active (br_probe_failed g s) = br_active s" "br_operation_pending (br_probe_failed g s) = br_operation_pending s"
  "br_record (br_probe_failed g s) = br_record s" "br_disk (br_probe_failed g s) = br_disk s" "br_reads (br_probe_failed g s) = br_reads s"
  "br_timer (br_probe_failed g s) = br_timer s" "br_running (br_probe_failed g s) = br_running s"
  "br_history (br_probe_failed g s) = br_history s"
  by (simp_all add: br_probe_failed_def)

lemma reserve_deliver:
  assumes i: "reserve_inv s" and c: "\<not> ow_closed (br_worker s)"
  shows "reserve_inv (deliver cf now s)"
proof (cases "br_operation_pending s")
  case True
  then obtain f where f: "ow_futures (br_worker s) = [f]" "power_future f" "ow_reserved (br_worker s)" "br_active s"
    using i c by (auto simp: reserve_inv_def res_ok_def)
  define t where "t = on_adapter cf Delivered s"
  show ?thesis
  proof (cases "f = PowerJob \<and> (\<exists>e. ba_job (br_adapter s) = Finished e)")
    case True
    then have "br_adapter t = goto_job Idle (br_adapter s)" "br_worker t = br_worker s" "br_active t"
      using f by (auto simp: t_def)
    then have "reserve_inv ((br_finished now t)\<lparr>br_worker := ow_discard (br_worker (br_finished now t))\<rparr>)"
      using f by (simp add: reserve_inv_def res_ok_def ow_discard_def ow_release_def)
    then show ?thesis using True f by (auto simp: deliver_def t_def)
  next
    case False
    then show ?thesis using i f by (cases f) (auto simp: deliver_def split: job.split)
  qed
next
  case False
  then have n: "\<forall>f \<in> set (ow_futures (br_worker s)). \<not> power_future f" using i c by (auto simp: reserve_inv_def res_ok_def)
  have p: "reserve_inv (br_probe_failed g s)" "reserve_inv (s\<lparr>br_idles := l\<rparr>)" for g l using i by (auto simp: reserve_inv_def)
  show ?thesis
  proof (cases "ow_futures (br_worker s)")
    case (Cons f fs)
    then show ?thesis
      using i n False reserve_discard [OF p(1)] reserve_discard [OF p(2)]
      by (cases f) (auto simp: deliver_def intro: reserve_discard split: option.split)
  qed (use i in \<open>simp add: deliver_def\<close>)
qed

lemma reserve_run_idle: "reserve_inv s \<Longrightarrow> reserve_inv (run_idle cf env s)"
  by (auto simp: run_idle_def reserve_inv_def [of "s\<lparr>br_idles := _\<rparr>"] reserve_inv_def [of s]
      intro!: reserve_after_probe split: list.split)

lemma reserve_foreign: "reserve_inv s \<Longrightarrow> reserve_inv (foreign_submit s)"
  using reserve_unreserved_submit [of s Foreign] by (auto simp: foreign_submit_def split: option.split)

lemma reserve_advance: "reserve_inv s \<Longrightarrow> reserve_inv (advance_clock ev s)"
  by (auto simp: advance_clock_def reserve_inv_def split: option.split)

lemma advance_worker [simp]: "br_worker (advance_clock ev s) = br_worker s"
  by (simp add: advance_clock_def split: option.split)

lemma reserve_init: "reserve_inv (BluetoothRecovery_init cf now doc journal)"
  by (simp add: reserve_inv_def res_ok_def BluetoothRecovery_init_def ObexWorker_init_def BluezRecoveryAdapter_init_def
      reload_journal_def ba_note_def Let_def split: option.split)

lemma reserve_finish: "reserve_inv s \<Longrightarrow> ow_closed (br_worker s) \<Longrightarrow> reserve_inv (finish_shutdown cf d now deadline s)"
  by (auto simp: finish_shutdown_def reserve_inv_def res_ok_def split: job.split)

lemma reserve_shutdown: "reserve_inv s \<Longrightarrow> reserve_inv (s\<lparr>br_worker := ow_shutdown (br_worker s)\<rparr>)"
  by (auto simp: reserve_inv_def res_ok_def ow_shutdown_def dest: in_set_takeD)

lemma reserve_log: "reserve_inv (s\<lparr>br_log := l\<rparr>) = reserve_inv s"
  by (simp add: reserve_inv_def)

lemma reserve_step:
  assumes i: "reserve_inv s" and st: "rec_step cf s s'"
  shows "reserve_inv s'"
proof -
  obtain ev where ev: "s' = rec_apply cf ev s" "sound_rec_event cf ev s" using st by (auto elim: rec_stepE)
  have main: "reserve_inv (main_event cf ev (advance_clock ev s))" if "\<not> ow_closed (br_worker s)"
    using that reserve_advance [OF i, of ev] ev(2) reserve_shutdown [OF reserve_advance [OF i, of ev]]
    by (cases ev) (simp_all add: reserve_start reserve_stop reserve_invalidate reserve_forget reserve_tick reserve_read_done
        reserve_run_idle reserve_deliver reserve_take_up reserve_run_probe reserve_foreign reserve_adapter bluez_signal_main
        sound_rec_event_def)
  then show ?thesis
    using i reserve_init by (cases ev) (simp_all add: ev(1) rec_apply_def reserve_job_step reserve_finish reserve_log)
qed

section \<open>The budget of attempts\<close>

fun attempts :: "rec_entry list \<Rightarrow> real list" where
  "attempts [] = []"
| "attempts (CycleSubmitted now wall st # l) = wall # attempts l"
| "attempts (_ # l) = attempts l"

definition attempt_saved :: "real \<Rightarrow> json_record \<Rightarrow> bool" where
  "attempt_saved x r \<longleftrightarrow> (\<exists>y. map_of r (lit ''last_attempt'') = Some (JFloat (Some y)) \<and> x \<le> y)"

definition budget_saved :: "real \<Rightarrow> recovery \<Rightarrow> bool" where
  "budget_saved x s \<longleftrightarrow> attempt_saved x (br_record s) \<and> attempt_saved x (saved_record (br_disk s))"

text \<open>
  The steps that submit no cycle: the adapter moves on the main thread only, no cycle job appears, no attempt is logged and
  none is lost from the record or from the disk.
\<close>

definition tame :: "rec_config \<Rightarrow> recovery \<Rightarrow> recovery \<Rightarrow> bool" where
  "tame cf s s' \<longleftrightarrow>
     (\<exists>evs. list_all main_thread evs \<and> br_adapter s' = fold (ba_apply (rc_adapter cf)) evs (br_adapter s)) \<and>
     (\<forall>st. CycleJob st \<in> set (ow_futures (br_worker s')) \<longrightarrow> CycleJob st \<in> set (ow_futures (br_worker s))) \<and>
     attempts (br_log s') = attempts (br_log s) \<and> (\<forall>x. budget_saved x s \<longrightarrow> budget_saved x s')"

lemma tame_frame:
  assumes "br_adapter s' = br_adapter s" "ow_futures (br_worker s') = ow_futures (br_worker s)"
    "attempts (br_log s') = attempts (br_log s)" "br_record s' = br_record s" "br_disk s' = br_disk s"
  shows "tame cf s s'"
  using assms unfolding tame_def budget_saved_def by (auto intro: exI [of _ "[]"])

lemma tame_refl [simp]: "tame cf s s"
  by (rule tame_frame) simp_all

lemma tame_trans: "tame cf s t \<Longrightarrow> tame cf t u \<Longrightarrow> tame cf s u"
proof -
  assume a: "tame cf s t" "tame cf t u"
  then obtain e f where "list_all main_thread e" "br_adapter t = fold (ba_apply (rc_adapter cf)) e (br_adapter s)"
    "list_all main_thread f" "br_adapter u = fold (ba_apply (rc_adapter cf)) f (br_adapter t)"
    unfolding tame_def by blast
  then have "\<exists>evs. list_all main_thread evs \<and> br_adapter u = fold (ba_apply (rc_adapter cf)) evs (br_adapter s)"
    by (intro exI [of _ "e @ f"]) simp
  then show ?thesis using a unfolding tame_def by auto
qed

lemma tame_adapter: "main_thread ev \<Longrightarrow> tame cf s (on_adapter cf ev s)"
  unfolding tame_def budget_saved_def by (auto intro: exI [of _ "[ev]"])

lemma tame_submit:
  assumes "ow_submit f r (br_worker s) = Some w" "\<forall>st. f \<noteq> CycleJob st"
  shows "tame cf s (s\<lparr>br_worker := w\<rparr>)"
  using assms unfolding tame_def budget_saved_def by (auto simp: ow_submit_def intro: exI [of _ "[]"] split: if_splits)

lemma attempt_saved_al_set: "k \<noteq> lit ''last_attempt'' \<Longrightarrow> attempt_saved x (al_set k v r) = attempt_saved x r"
  by (simp add: attempt_saved_def)

lemma attempt_saved_fold:
  "list_all (\<lambda>(k, v). k \<noteq> lit ''last_attempt'') u \<Longrightarrow>
   attempt_saved x (fold (\<lambda>(k, v). al_set k v) u r) = attempt_saved x r"
proof (induction u arbitrary: r)
  case (Cons p u)
  obtain k v where p: "p = (k, v)" by fastforce
  show ?case using Cons.IH [of "al_set k v r"] Cons.prems by (simp add: p attempt_saved_al_set)
qed simp

lemma tame_save:
  assumes "list_all (\<lambda>(k, v). k \<noteq> lit ''last_attempt'') u"
  shows "tame cf s (snd (br_save d u s))"
proof -
  note attempt_saved_fold [OF assms]
  then have "budget_saved x s \<Longrightarrow> budget_saved x (snd (br_save d u s))" for x
    by (auto simp: budget_saved_def br_save_def saved_record_def Let_def)
  then show ?thesis unfolding tame_def by (auto intro: exI [of _ "[]"])
qed

lemma tame_invalidate: "tame cf s (br_invalidate now su s)"
  by (rule tame_frame) simp_all

lemma tame_finished: "tame cf s (br_finished now s)"
  by (rule tame_frame) (simp_all add: ow_release_def br_finished_def Let_def)

lemma tame_submit_restore: "tame cf s (submit_restore now s)"
proof -
  have a: "tame cf s (br_finished now (s\<lparr>br_operation_pending := True\<rparr>))"
    by (rule tame_trans [OF tame_frame tame_finished]) simp_all
  have b: "tame cf s (br_note RestoreSubmitted (s\<lparr>br_operation_pending := True, br_worker := w\<rparr>))"
    if "ow_submit RestoreJob True (br_worker s) = Some w" for w
    by (rule tame_trans [OF tame_submit [OF that] tame_frame]) simp_all
  show ?thesis using a b by (simp add: submit_restore_def split: option.split)
qed

lemma tame_continue: "tame cf s (continue_restoration env s)"
proof -
  obtain ok w where w: "reserve_if_idle (br_worker s) = (ok, w)" by fastforce
  then have "tame cf s (br_call Pause (s\<lparr>br_worker := w, br_active := True\<rparr>))"
    by (intro tame_frame) (auto simp: reserve_if_idle_def split: if_splits)
  then show ?thesis
    using tame_trans [OF _ tame_finished] tame_trans [OF _ tame_submit_restore] w
    by (simp add: continue_restoration_def tame_submit_restore Let_def)
qed

lemma tame_start: "tame cf s (recovery_start cf env subscribed s)"
proof -
  define a where "a = on_adapter cf (Monitor subscribed) s"
  define t where "t = a\<lparr>br_running := True, br_timer := Some (rc_sched cf (br_history a)),
    br_history := Schedule (rc_sched cf (br_history a)) POLL_SECONDS Tick # br_history a\<rparr>"
  have a: "tame cf s a" by (simp add: a_def tame_adapter del: ba_apply.simps)
  have t: "tame cf a t" by (rule tame_frame) (simp_all add: t_def)
  have "recovery_start cf env subscribed s \<in> {s, a, t, continue_restoration env t}"
    by (simp add: recovery_start_def Let_def a_def [symmetric] t_def [symmetric])
  then show ?thesis using a tame_trans [OF a t] tame_trans [OF _ tame_continue] by auto
qed

lemma tame_stop: "tame cf s (recovery_stop cf now s)"
proof -
  define t where "t = on_adapter cf Unmonitor (br_invalidate now None (s\<lparr>br_running := False\<rparr>))"
  have "tame cf s (s\<lparr>br_running := False\<rparr>)" by (rule tame_frame) simp_all
  then have "tame cf s (br_invalidate now None (s\<lparr>br_running := False\<rparr>))" using tame_invalidate by (rule tame_trans)
  then have t: "tame cf s t" unfolding t_def by (rule tame_trans) (simp add: tame_adapter)
  have "recovery_stop cf now s = t \<or> (\<exists>i. recovery_stop cf now s = t\<lparr>br_timer := None, br_history := Cancel i # br_history t\<rparr>)"
    by (auto simp: recovery_stop_def Let_def t_def split: option.split)
  moreover have "tame cf t (t\<lparr>br_timer := None, br_history := h\<rparr>)" for h by (rule tame_frame) simp_all
  ultimately show ?thesis using t tame_trans by metis
qed

lemma tame_forget: "tame cf s (forget_phone env s)"
  unfolding forget_phone_def by (rule tame_trans [OF tame_invalidate tame_save]) simp

lemma tame_submit_probe: "tame cf s (submit_probe now st s)"
proof (cases "ow_submit (ProbeJob (br_generation s) st) False (br_worker s)")
  case None
  then show ?thesis by (intro tame_frame) (simp_all add: submit_probe_def)
next
  case (Some w)
  have "tame cf (s\<lparr>br_worker := w\<rparr>) (br_note (ProbeSent now) (s\<lparr>br_probing := True, br_worker := w\<rparr>))" by (rule tame_frame) simp_all
  then show ?thesis using Some tame_trans [OF tame_submit [OF Some]] by (simp add: submit_probe_def)
qed

lemma tame_advance: "tame cf s (snd (advance_outage env st al s))"
proof -
  define t where "t = open_windows (re_now env) al s"
  have c: "tame cf t (br_call c t)" "tame cf t (br_note (SoftReset now) ((br_call c t)\<lparr>br_soft_reset_at := x\<rparr>))" for c now x
    by (rule tame_frame; simp)+
  have "tame cf t (snd (advance_outage env st al s))"
    unfolding advance_outage_def Let_def t_def [symmetric]
    by (simp add: tame_submit_probe c split: option.split)
  moreover have "tame cf s t" by (rule tame_frame) (simp_all add: t_def)
  ultimately show ?thesis using tame_trans by blast
qed

lemma tame_rearm: "tame cf s (rearm cf' env st s)"
proof -
  have h: "tame cf s (s\<lparr>br_healthy_since := x\<rparr>)" for x by (rule tame_frame) simp_all
  then have "tame cf s (snd (br_save d u (s\<lparr>br_healthy_since := x\<rparr>)))" if "list_all (\<lambda>(k, v). k \<noteq> lit ''last_attempt'') u" for d u x
    using tame_trans tame_save that by blast
  then show ?thesis using h by (simp add: rearm_def Let_def)
qed

lemma tame_healthy: "tame cf s (snd (check_healthy cf env st ob s))"
proof -
  define t where "t = end_windows (br_note (Observed (re_now env) Healthy) s)"
  have c: "tame cf t (br_call c t)" "tame cf t (t\<lparr>br_healthy_since := x\<rparr>)"
    "tame cf t ((br_call c t)\<lparr>br_healthy_since := x\<rparr>)" for c x
    by (rule tame_frame; simp)+
  have "tame cf t (snd (check_healthy cf env st ob s))"
    unfolding check_healthy_def Let_def t_def [symmetric]
    by (simp add: tame_rearm c tame_trans [OF c(1) tame_rearm])
  moreover have "tame cf s t" by (rule tame_frame) (simp_all add: t_def)
  ultimately show ?thesis using tame_trans by blast
qed

lemma tame_outage: "tame cf s (snd (check_outage cf env st ob s))"
proof -
  define t where "t = s\<lparr>br_healthy_since := None\<rparr>"
  have c: "tame cf t (br_note (Observed n Busy) t)" "tame cf t (end_windows (br_note (Observed n Unsafe) t))" for n
    by (rule tame_frame; simp)+
  have "tame cf t (snd (check_outage cf env st ob s))"
    unfolding check_outage_def Let_def t_def [symmetric] by (simp add: tame_advance c)
  moreover have "tame cf s t" by (rule tame_frame) (simp_all add: t_def)
  ultimately show ?thesis using tame_trans by blast
qed

lemma tame_check: "tame cf s (snd (br_check cf env st s))"
proof -
  define u where "u = check_identity (re_now env) st s"
  define t where "t = check_gap (re_now env) u"
  have u: "tame cf s u" by (rule tame_frame) (simp_all add: u_def check_identity_def)
  have t: "tame cf u t" by (rule tame_frame) (simp_all add: t_def check_gap_def Let_def)
  have "tame cf u (snd (br_check cf env st s))"
    unfolding br_check_def Let_def u_def [symmetric] t_def [symmetric]
    using t by (simp add: tame_invalidate tame_trans [OF t tame_healthy] tame_trans [OF t tame_outage] split: option.split)
  then show ?thesis using u tame_trans by blast
qed

lemma tame_snapshot_failed: "tame cf s (snapshot_failed now g s)"
  by (simp add: snapshot_failed_def tame_invalidate)

lemma tame_snapshot_ready: "tame cf s (snapshot_ready cf env g st s)"
proof -
  define t where "t = s\<lparr>br_snapshot_pending := False\<rparr>"
  have t: "tame cf s t" by (rule tame_frame) (simp_all add: t_def)
  have "tame cf s (snd (br_check cf env st t))" using t tame_check by (rule tame_trans)
  then show ?thesis
    using t tame_trans [OF _ tame_snapshot_failed] unfolding snapshot_ready_def Let_def t_def [symmetric]
    by (cases "br_check cf env st t") simp
qed

lemma tame_read_async: "read_async env p s = Some s' \<Longrightarrow> tame cf s s'"
  by (rule tame_frame) (auto simp: read_async_def)

lemma tame_tick: "tame cf s (br_tick cf env s)"
proof -
  define a where "a = on_adapter cf (Cleanup (re_journal env)) s"
  define t where "t = a\<lparr>br_snapshot_pending := True\<rparr>"
  have a: "tame cf s a" by (simp add: a_def tame_adapter del: ba_apply.simps)
  have "tame cf a t" by (rule tame_frame) (simp_all add: t_def)
  then have t: "tame cf s t" using a tame_trans by blast
  show ?thesis
    using a t tame_trans [OF t tame_invalidate] tame_trans [OF t tame_read_async]
    unfolding br_tick_def Let_def a_def [symmetric] t_def [symmetric]
    by (simp add: tame_invalidate tame_continue split: option.split)
qed

text \<open>The one step that submits a cycle: an allowed attempt, saved in memory and on disk, on an idle worker.\<close>

definition submitted :: "rec_config \<Rightarrow> adapter_state \<Rightarrow> recovery \<Rightarrow> recovery \<Rightarrow> bool" where
  "submitted cf st s s' \<longleftrightarrow> (\<exists>wall. cycle_allowed cf wall st s \<and> attempts (br_log s') = wall # attempts (br_log s) \<and>
     budget_saved wall s' \<and> br_adapter s' = br_adapter s \<and> ow_futures (br_worker s') = [CycleJob st] \<and>
     ow_futures (br_worker s) = [] \<and> \<not> ow_closed (br_worker s) \<and> \<not> ow_reserved (br_worker s))"

lemma attempt_later:
  "cycle_allowed cf wall st s \<Longrightarrow> attempt_saved x (br_record s) \<Longrightarrow> x + HOURLY_LIMIT_SECONDS \<le> wall"
  by (auto simp: cycle_allowed_def attempt_saved_def last_attempt_def)

lemma decide_cases: "tame cf s (decide_cycle cf env expected current s) \<or> submitted cf current s (decide_cycle cf env expected current s)"
proof (cases "cycle_allowed cf (re_wall env) current s \<and> fst (reserve_if_idle (br_worker s))")
  case False
  then show ?thesis
    by (auto simp: decide_cycle_def tame_invalidate split: option.split prod.split)
next
  case True
  define w where "w = (br_worker s)\<lparr>ow_reserved := True\<rparr>"
  define u where "u = [(lit ''spent'', JBool True), (lit ''last_attempt'', JFloat (Some (re_wall env)))]"
  define t where "t = snd (br_save (re_disk env) u (s\<lparr>br_worker := w\<rparr>))"
  define v where "v = br_call Pause (t\<lparr>br_active := True, br_operation_pending := True, br_cancelled := False\<rparr>)"
  have w: "reserve_if_idle (br_worker s) = (True, w)" "ow_futures (br_worker s) = []" "\<not> ow_closed (br_worker s)"
      "\<not> ow_reserved (br_worker s)"
    using True by (auto simp: w_def reserve_if_idle_def split: if_splits)
  obtain ok where ok: "br_save (re_disk env) u (s\<lparr>br_worker := w\<rparr>) = (ok, t)" by (metis prod.collapse t_def)
  have t: "br_worker t = w" "br_adapter t = br_adapter s" "br_log t = br_log s" by (simp_all add: t_def)
  have at: "attempt_saved (re_wall env) (fold (\<lambda>(k, v). al_set k v) u (br_record s))"
    by (simp add: u_def attempt_saved_def)
  have later: "x \<le> re_wall env" if "attempt_saved x (br_record s)" for x
    using attempt_later [of cf "re_wall env" current s x] True that by (simp add: HOURLY_LIMIT_SECONDS_def)
  have mono: "attempt_saved x r" if "attempt_saved y r" "x \<le> y" for x y r using that by (force simp: attempt_saved_def)
  have kept: "budget_saved x t" if "budget_saved x s" for x
    using that at later [of x] mono
    by (auto simp: t_def br_save_def budget_saved_def saved_record_def Let_def)
  have tt: "tame cf s t"
    unfolding tame_def using kept t w by (auto intro: exI [of _ "[]"] simp: w_def)
  have saved: "budget_saved (re_wall env) t" if ok
    using that ok at by (auto simp: br_save_def budget_saved_def saved_record_def Let_def split: if_splits)
  have "tame cf t v" by (rule tame_frame) (simp_all add: v_def)
  then have tv: "tame cf s v" using tt tame_trans by blast
  have sub: "tame cf s (submit_cycle env current t) \<or> submitted cf current s (submit_cycle env current t)" if ok
  proof (cases "re_pause env \<and> ow_submit (CycleJob current) True (br_worker v) \<noteq> None")
    case False
    then have "submit_cycle env current t = br_finished (re_now env) v"
      unfolding submit_cycle_def Let_def v_def [symmetric] by auto
    then show ?thesis using tame_trans [OF tv tame_finished] by simp
  next
    case True
    then have e: "submit_cycle env current t = br_note (CycleSubmitted (re_now env) (re_wall env) current)
        (v\<lparr>br_worker := w\<lparr>ow_futures := [CycleJob current]\<rparr>\<rparr>)"
      unfolding submit_cycle_def Let_def v_def [symmetric]
      using w t by (auto simp: ow_submit_def w_def v_def split: if_splits)
    then show ?thesis
      using w t saved [OF that] \<open>cycle_allowed cf (re_wall env) current s \<and> _\<close>
      by (auto simp: e submitted_def v_def budget_saved_def)
  qed
  have rel: "tame cf s (t\<lparr>br_worker := ow_release (br_worker t)\<rparr>)"
    by (rule tame_trans [OF tt tame_frame]) (simp_all add: ow_release_def)
  have "decide_cycle cf env expected current s \<in>
      {s, br_invalidate (re_now env) None s, t\<lparr>br_worker := ow_release (br_worker t)\<rparr>} \<or>
    ok \<and> decide_cycle cf env expected current s = submit_cycle env current t"
    using ok w unfolding u_def by (auto simp: decide_cycle_def split: option.split)
  then show ?thesis using rel sub by (auto simp: tame_invalidate)
qed

lemma tame_submitted: "tame cf s t \<Longrightarrow> br_adapter t = br_adapter s \<Longrightarrow> br_worker t = br_worker s \<Longrightarrow> br_record t = br_record s \<Longrightarrow>
   submitted cf st t u \<Longrightarrow> submitted cf st s u"
  by (auto simp: submitted_def tame_def cycle_allowed_def)

lemma after_probe_cases:
  "tame cf s (after_probe cf env g expected probed current s) \<or>
   (\<exists>st. current = Some st \<and> submitted cf st s (after_probe cf env g expected probed current s))"
proof -
  define t where "t = s\<lparr>br_probing := False\<rparr>"
  have t: "tame cf s t" "br_adapter t = br_adapter s" "br_worker t = br_worker s" "br_record t = br_record s"
    by (rule tame_frame) (simp_all add: t_def)
  have d: "tame cf s (decide_cycle cf env expected st t) \<or> submitted cf st s (decide_cycle cf env expected st t)" for st
    using decide_cases [of cf t env expected st] tame_trans [OF t(1)] tame_submitted [OF t] by blast
  show ?thesis
    using t(1) d unfolding after_probe_def t_def [symmetric]
    by (auto simp: tame_snapshot_failed split: option.split intro: tame_read_async)
qed

lemma read_done_cases:
  "tame cf s (read_done cf env n objects s) \<or>
   (\<exists>st obs. n < length (br_reads s) \<and> objects = Some obs \<and> submitted cf st s (read_done cf env n objects s) \<and>
      state_from_objects (rc_adapter cf) (rd_owner (br_reads s ! n)) obs (rd_revision (br_reads s ! n))
        (rd_incarnation (br_reads s ! n)) (br_adapter s) = Inr st)"
proof (cases "n < length (br_reads s)")
  case True
  define t where "t = s\<lparr>br_reads := take n (br_reads s) @ drop (Suc n) (br_reads s)\<rparr>"
  define r where "r = br_reads s ! n"
  have t: "tame cf s t" "br_adapter t = br_adapter s" "br_worker t = br_worker s" "br_record t = br_record s"
    by (rule tame_frame) (simp_all add: t_def)
  define res where "res = (case objects of None \<Rightarrow> Inl OtherError
    | Some obs \<Rightarrow> state_from_objects (rc_adapter cf) (rd_owner r) obs (rd_revision r) (rd_incarnation r) (br_adapter s))"
  have e: "read_done cf env n objects s =
    (case rd_purpose r of
       Snapshot g \<Rightarrow> (case res of Inl e \<Rightarrow> snapshot_failed (re_now env) g t | Inr st \<Rightarrow> snapshot_ready cf env g st t)
     | AfterProbe g expected probed \<Rightarrow>
         (case res of Inl e \<Rightarrow> snapshot_failed (re_now env) g t | Inr st \<Rightarrow> after_probe cf env g expected probed (Some st) t))"
    using True unfolding read_done_def Let_def t_def [symmetric] r_def [symmetric] res_def t(2) by simp
  have f: "tame cf s (snapshot_failed now g t)" "tame cf s (snapshot_ready cf env g st t)" for now g st
    using tame_trans [OF t(1) tame_snapshot_failed] tame_trans [OF t(1) tame_snapshot_ready] by blast+
  have a: "tame cf s (after_probe cf env g expected probed (Some st) t) \<or> submitted cf st s (after_probe cf env g expected probed (Some st) t)"
    for g expected probed st
    using after_probe_cases [of cf t env g expected probed "Some st"] tame_trans [OF t(1)] tame_submitted [OF t] by auto
  show ?thesis
  proof (cases "rd_purpose r")
    case (Snapshot g)
    then show ?thesis using f by (simp add: e split: sum.split)
  next
    case (AfterProbe g expected probed)
    show ?thesis
    proof (cases res)
      case (Inl x)
      then show ?thesis using f AfterProbe by (simp add: e)
    next
      case (Inr st)
      have rd: "read_done cf env n objects s = after_probe cf env g expected probed (Some st) t"
        using AfterProbe Inr by (simp add: e)
      obtain obs where "objects = Some obs" "state_from_objects (rc_adapter cf) (rd_owner r) obs (rd_revision r) (rd_incarnation r)
          (br_adapter s) = Inr st"
        using Inr by (auto simp: res_def split: option.splits)
      then show ?thesis using a [of g expected probed st] True unfolding rd r_def by blast
    qed
  qed
qed (simp add: read_done_def)

lemma run_idle_tame: "tame cf s (run_idle cf env s)"
proof (cases "br_idles s")
  case (Cons p rest)
  obtain g st probed where p: "p = (g, st, probed)" by (cases p) auto
  define t where "t = s\<lparr>br_idles := rest\<rparr>"
  have "tame cf s t" by (rule tame_frame) (simp_all add: t_def)
  then show ?thesis
    using after_probe_cases [of cf t env g st probed None] tame_trans by (simp add: run_idle_def Cons p t_def)
qed (simp add: run_idle_def)

end
