(* ===== verification/Recovery_Guarantees.thy ===== *)
theory Recovery_Guarantees
  imports Recovery_Moves
begin

text \<open>
  What the last-resort recovery guarantees over any run, restarts of the daemon included: the worker is reserved exactly
  while a power job or a pending restoration needs it, power cycles are at least an hour apart by the saved record, and a
  cycle follows five minutes of uninterrupted outage. The adapter inside the controller only moves by the steps of
  \<open>Power_Restore\<close>, so the guarantees of \<open>Power_Safety\<close> hold of it as well.
\<close>

section \<open>Steps, as far as the adapter and the budget see them\<close>

text \<open>A cycle that was submitted and has not sent its power-off yet.\<close>

fun before_off :: "job \<Rightarrow> bool" where
  "before_off (Prepare st) = True"
| "before_off (Recheck t) = True"
| "before_off (Verify t r n) = True"
| "before_off _ = False"

definition cycle_waits :: "recovery \<Rightarrow> bool" where
  "cycle_waits s \<longleftrightarrow> (\<exists>st. CycleJob st \<in> set (ow_futures (br_worker s))) \<or> before_off (ba_job (br_adapter s))"

definition spent_offs :: "recovery \<Rightarrow> nat" where
  "spent_offs s = card (requested_off (br_adapter s)) + of_bool (cycle_waits s)"

definition moved :: "rec_config \<Rightarrow> recovery \<Rightarrow> recovery \<Rightarrow> bool" where
  "moved cf s s' \<longleftrightarrow>
     (\<exists>evs. list_all (sound_event (rc_adapter cf)) evs \<and> br_adapter s' = fold (ba_apply (rc_adapter cf)) evs (br_adapter s)) \<and>
     (\<forall>st. CycleJob st \<in> set (ow_futures (br_worker s')) \<longrightarrow> CycleJob st \<in> set (ow_futures (br_worker s))) \<and>
     attempts (br_log s') = attempts (br_log s) \<and> (\<forall>x. budget_saved x s \<longrightarrow> budget_saved x s') \<and> spent_offs s' \<le> spent_offs s"

lemma main_thread_off: "main_thread ev \<Longrightarrow> requested_off (ba_apply cf ev ad) = requested_off ad"
  by (cases ev) (simp_all add: interfaces_changed_def adapter_owner_changed_def properties_changed_def start_monitoring_def
       stop_monitoring_def Let_def)

lemma main_thread_sound: "main_thread ev \<Longrightarrow> sound_event cf ev"
  by (cases ev) simp_all

lemma main_thread_fold:
  "list_all main_thread evs \<Longrightarrow> list_all (sound_event cf) evs \<and>
   requested_off (fold (ba_apply cf) evs ad) = requested_off ad \<and> ba_job (fold (ba_apply cf) evs ad) = ba_job ad"
proof (induction evs arbitrary: ad)
  case (Cons ev evs)
  have ev: "main_thread ev" using Cons.prems by simp
  show ?case
    using Cons.IH [of "ba_apply cf ev ad"] Cons.prems main_thread_off [OF ev, of cf ad] main_thread_sound [OF ev, of cf]
      main_thread_job_same [OF ev, of cf ad]
    by (simp del: ba_apply.simps main_thread_job_same)
qed simp

lemma finite_requested_off [simp]: "finite (requested_off ad)"
proof -
  have "requested_off ad \<subseteq> (\<lambda>e. case e of SentOff t \<Rightarrow> t | _ \<Rightarrow> 0) ` set (ba_log ad)"
    by (force simp: requested_off_def)
  then show ?thesis by (rule finite_subset) simp
qed

lemma tame_moved:
  assumes "tame cf s s'"
  shows "moved cf s s'"
proof -
  obtain evs where evs: "list_all main_thread evs" "br_adapter s' = fold (ba_apply (rc_adapter cf)) evs (br_adapter s)"
    using assms by (auto simp: tame_def)
  have "cycle_waits s' \<Longrightarrow> cycle_waits s"
    using assms main_thread_fold [OF evs(1), of "rc_adapter cf" "br_adapter s"] by (auto simp: cycle_waits_def tame_def evs(2))
  then have "spent_offs s' \<le> spent_offs s"
    using main_thread_fold [OF evs(1), of "rc_adapter cf" "br_adapter s"] by (simp add: spent_offs_def evs(2))
  then show ?thesis
    using assms main_thread_fold [OF evs(1)] evs(2) unfolding tame_def moved_def by blast
qed

text \<open>Steps of the power job itself leave everything but the adapter and its future alone.\<close>

lemma moved_job:
  assumes "br_adapter s' = ba_apply (rc_adapter cf) ev (br_adapter s)" "sound_event (rc_adapter cf) ev"
    "\<forall>st. CycleJob st \<in> set (ow_futures (br_worker s')) \<longrightarrow> CycleJob st \<in> set (ow_futures (br_worker s))"
    "attempts (br_log s') = attempts (br_log s)" "br_record s' = br_record s" "br_disk s' = br_disk s" "spent_offs s' \<le> spent_offs s"
  shows "moved cf s s'"
  using assms unfolding moved_def by (intro conjI exI [of _ "[ev]"]) (simp_all add: budget_saved_def)

lemma worker_step_before_off: "before_off (ba_job (worker_step cf d c a ad)) \<Longrightarrow> before_off (ba_job ad)"
proof (cases "ba_job ad")
  case (RestoreRead t final r n e)
  assume "before_off (ba_job (worker_step cf d c a ad))"
  then show ?thesis
    by (simp add: RestoreRead worker_step_def restoration_error_def restoration_read_def restore_request_def restore_decide_def
      Let_def split: answer.splits sum.splits recovery_error.splits if_splits)
qed (simp_all add: worker_step_def restore_begin_def restore_bus_def restoration_instance_def restoration_error_def
      restore_requested_def Let_def split: answer.splits sum.splits option.splits recovery_error.splits if_splits)

lemma job_step_moved:
  assumes i: "reserve_inv s" and so: "sound_event (rc_adapter cf) (WorkerStep d (br_cancelled s) a)"
  shows "moved cf s (job_step cf d a s)"
proof (rule moved_job)
  let ?ad = "br_adapter s" and ?ad' = "worker_step (rc_adapter cf) d (br_cancelled s) a (br_adapter s)"
  show "spent_offs (job_step cf d a s) \<le> spent_offs s"
  proof (cases "requested_off ?ad' = requested_off ?ad")
    case True
    then show ?thesis
      using worker_step_before_off [of "rc_adapter cf" d "br_cancelled s" a ?ad]
      by (auto simp: spent_offs_def cycle_waits_def job_step_def)
  next
    case False
    then obtain t r n where t: "ba_job ?ad = Verify t r n" "?ad' = goto_job (PoweringOff t) (ba_note (SentOff t) ?ad)"
      using worker_step_off by blast
    have "requested_off ?ad' = insert t (requested_off ?ad)" by (auto simp: t requested_off_def goto_job_def ba_note_def)
    then have "card (requested_off ?ad') \<le> Suc (card (requested_off ?ad))" by (simp add: card_insert_if)
    moreover have "CycleJob st \<notin> set (ow_futures (br_worker s))" for st
      using i t(1) by (auto simp: reserve_inv_def res_ok_def split: if_splits)
    moreover have "\<not> before_off (ba_job ?ad')" by (simp add: t)
    ultimately show ?thesis using t(1) by (simp add: spent_offs_def cycle_waits_def job_step_def)
  qed
qed (use so in \<open>simp_all add: job_step_def\<close>)

lemma start_job_off:
  "requested_off (ba_apply cf (StartCycle st) ad) = requested_off ad"
  "requested_off (ba_apply cf (StartRestore d) ad) = requested_off ad"
  "requested_off (ba_apply cf Delivered ad) = requested_off ad"
  "ba_job ad = Idle \<Longrightarrow> \<not> before_off (ba_job (ba_apply cf (StartRestore d) ad))"
  "\<not> before_off (ba_job ad) \<Longrightarrow> \<not> before_off (ba_job (ba_apply cf Delivered ad))"
  by (auto simp: cycle_begin_def restore_begin_def Let_def split: option.split job.split)

lemma spent_offs_le:
  "requested_off (br_adapter s') = requested_off (br_adapter s) \<Longrightarrow> (cycle_waits s' \<Longrightarrow> cycle_waits s) \<Longrightarrow> spent_offs s' \<le> spent_offs s"
  by (simp add: spent_offs_def)

lemma take_up_moved:
  assumes "\<And>st. CycleJob st \<in> set (ow_futures (br_worker s)) \<Longrightarrow> known_adapter (rc_adapter cf) st"
  shows "moved cf s (take_up cf d s)"
proof (cases "ba_job (br_adapter s) = Idle")
  case j: True
  show ?thesis
  proof (cases "ow_futures (br_worker s)")
    case (Cons f fs)
    show ?thesis
    proof (cases f)
      case (CycleJob st)
      have "known_adapter (rc_adapter cf) st" using assms CycleJob Cons by simp
      then show ?thesis
        using j Cons CycleJob
        by (intro moved_job [where ev = "StartCycle st"] spent_offs_le)
          (auto simp: take_up_def start_job_off cycle_waits_def simp del: ba_apply.simps)
    next
      case RestoreJob
      then show ?thesis
        using j Cons
        by (intro moved_job [where ev = "StartRestore d"] spent_offs_le)
          (auto simp: take_up_def start_job_off cycle_waits_def simp del: ba_apply.simps)
    qed (use j Cons in \<open>simp_all add: take_up_def tame_moved\<close>)
  qed (use j in \<open>simp add: take_up_def tame_moved\<close>)
qed (simp add: take_up_def tame_moved)

lemma attempts_finished [simp]: "attempts (br_log (br_finished now s)) = attempts (br_log s)"
  using tame_finished [of undefined s now] by (simp add: tame_def)

lemma tame_discard: "tame cf s (s\<lparr>br_worker := ow_discard (br_worker s)\<rparr>)"
  unfolding tame_def budget_saved_def
  by (cases "ow_futures (br_worker s)") (auto simp: ow_discard_def intro: exI [of _ "[]"])

lemma tame_probe_failed: "tame cf s (br_probe_failed g s)"
  by (rule tame_frame) (simp_all add: br_probe_failed_def)

lemma deliver_moved: "moved cf s (deliver cf now s)"
proof (cases "ow_futures (br_worker s)")
  case Nil
  then show ?thesis by (simp add: deliver_def tame_moved)
next
  case (Cons f fs)
  show ?thesis
  proof (cases f)
    case PowerJob
    show ?thesis
    proof (cases "\<exists>e. ba_job (br_adapter s) = Finished e")
      case True
      let ?t = "br_finished now (on_adapter cf Delivered s)"
      have e: "deliver cf now s = ?t\<lparr>br_worker := ow_discard (br_worker ?t)\<rparr>"
        using True Cons PowerJob by (auto simp: deliver_def)
      show ?thesis
        unfolding e using True Cons PowerJob
        by (intro moved_job [where ev = Delivered] spent_offs_le)
          (auto simp: start_job_off cycle_waits_def ow_discard_def ow_release_def split: if_splits)
    next
      case False
      then show ?thesis using Cons PowerJob by (auto simp: deliver_def tame_moved split: job.split)
    qed
  next
    case (ProbeResult g st r)
    have "tame cf s (s\<lparr>br_idles := x\<rparr>)" for x by (rule tame_frame) simp_all
    then have i: "tame cf s (s\<lparr>br_idles := x, br_worker := ow_discard (br_worker s)\<rparr>)" for x
      using tame_trans [OF _ tame_discard [of cf "s\<lparr>br_idles := x\<rparr>"]] by simp
    have "tame cf s ((br_probe_failed g s)\<lparr>br_worker := ow_discard (br_worker s)\<rparr>)"
      using tame_trans [OF tame_probe_failed tame_discard [of cf "br_probe_failed g s"]] by simp
    then show ?thesis using Cons ProbeResult i by (cases r) (simp_all add: deliver_def tame_moved)
  qed (use Cons in \<open>simp_all add: deliver_def tame_moved tame_discard\<close>)
qed

lemma finish_moved: "moved cf s (finish_shutdown cf d now deadline s)"
proof (cases "ba_job (br_adapter s)")
  case Idle
  have "moved cf s (on_adapter cf (StartRestore d) s)"
    using Idle by (intro moved_job [where ev = "StartRestore d"] spent_offs_le)
      (auto simp: start_job_off cycle_waits_def simp del: ba_apply.simps)
  moreover have "moved cf s (on_adapter cf (Cleanup d) s)" by (simp add: tame_moved tame_adapter)
  ultimately show ?thesis using Idle by (simp add: finish_shutdown_def)
next
  case (Finished e)
  then have "\<not> before_off (ba_job (br_adapter s))" by simp
  then have "moved cf s (on_adapter cf Delivered s)"
    by (intro moved_job [where ev = Delivered] spent_offs_le)
      (auto simp: start_job_off cycle_waits_def simp del: ba_apply.simps)
  then show ?thesis using Finished by (simp add: finish_shutdown_def)
qed (simp_all add: finish_shutdown_def tame_moved)

section \<open>Pending snapshots\<close>

definition reads_from :: "pystr option \<Rightarrow> recovery \<Rightarrow> recovery \<Rightarrow> bool" where
  "reads_from owner s s' \<longleftrightarrow> (\<forall>r \<in> set (br_reads s'). r \<in> set (br_reads s) \<or> Some (rd_owner r) = owner)"

lemma reads_from_same: "br_reads s' = br_reads s \<Longrightarrow> reads_from owner s s'"
  by (simp add: reads_from_def)

lemma reads_from_async: "read_async env p s = Some s' \<Longrightarrow> reads_from (re_owner env) s s'"
  by (auto simp: read_async_def reads_from_def)

lemma submit_restore_reads [simp]: "br_reads (submit_restore now s) = br_reads s"
  by (simp add: submit_restore_def split: option.split)

lemma continue_reads [simp]: "br_reads (continue_restoration env s) = br_reads s"
  by (simp add: continue_restoration_def Let_def split: prod.split)

lemma snapshot_failed_reads [simp]: "br_reads (snapshot_failed now g s) = br_reads s"
  by (simp add: snapshot_failed_def)

lemma start_reads [simp]: "br_reads (recovery_start cf env b s) = br_reads s"
  by (simp add: recovery_start_def Let_def)

lemma stop_reads [simp]: "br_reads (recovery_stop cf now s) = br_reads s"
  by (simp add: recovery_stop_def Let_def split: option.split)

lemma check_reads [simp]: "br_reads (snd (br_check cf env st s)) = br_reads s"
  using looked_check [of s cf env st] by (simp add: looked_def)

lemma snapshot_ready_reads [simp]: "br_reads (snapshot_ready cf env g st s) = br_reads s"
proof -
  define t where "t = s\<lparr>br_snapshot_pending := False\<rparr>"
  obtain ok u where u: "br_check cf env st t = (ok, u)" by fastforce
  then have "br_reads u = br_reads s" "br_reads t = br_reads s" using check_reads [of cf env st t] by (simp_all add: t_def)
  then show ?thesis
    unfolding snapshot_ready_def Let_def t_def [symmetric] by (simp add: u)
qed

lemma tick_reads: "reads_from (re_owner env) s (br_tick cf env s)"
  by (auto simp: br_tick_def Let_def reads_from_def read_async_def split: option.split)

lemma submit_cycle_reads [simp]: "br_reads (submit_cycle env st s) = br_reads s"
  by (simp add: submit_cycle_def Let_def split: option.split)

lemma decide_reads [simp]: "br_reads (decide_cycle cf env expected st s) = br_reads s"
proof -
  have "br_reads t = br_reads s" if "br_save d u (s\<lparr>br_worker := w\<rparr>) = (ok, t)" for d u w ok t
    using save_frame(5) [of d u "s\<lparr>br_worker := w\<rparr>"] that by simp
  then show ?thesis by (auto simp: decide_cycle_def split: option.split prod.split)
qed

lemma after_probe_reads: "reads_from (re_owner env) s (after_probe cf env g expected probed current s)"
  by (auto simp: after_probe_def reads_from_def read_async_def split: option.split)

lemma run_idle_reads: "reads_from (re_owner env) s (run_idle cf env s)"
proof (cases "br_idles s")
  case (Cons p rest)
  obtain g st probed where "p = (g, st, probed)" by (cases p) auto
  then show ?thesis
    using Cons after_probe_reads [of env "s\<lparr>br_idles := rest\<rparr>" cf g st probed None] by (simp add: run_idle_def reads_from_def)
qed (simp add: run_idle_def reads_from_def)

lemma read_done_reads: "reads_from (re_owner env) s (read_done cf env n objects s)"
proof -
  define t where "t = s\<lparr>br_reads := take n (br_reads s) @ drop (Suc n) (br_reads s)\<rparr>"
  have w: "reads_from (re_owner env) s u" if "reads_from (re_owner env) t u" for u
    using that by (auto simp: reads_from_def t_def dest: in_set_takeD in_set_dropD)
  show ?thesis
  proof (cases "length (br_reads s) \<le> n")
    case False
    then have "reads_from (re_owner env) t (read_done cf env n objects s)"
      unfolding read_done_def Let_def t_def [symmetric]
      by (simp add: after_probe_reads reads_from_same split: option.split purpose.split sum.split)
    then show ?thesis by (rule w)
  qed (simp add: read_done_def reads_from_def)
qed

lemma deliver_reads [simp]: "br_reads (deliver cf now s) = br_reads s"
  by (simp add: deliver_def split: list.split future.split option.split job.split)

lemma take_up_reads [simp]: "br_reads (take_up cf d s) = br_reads s"
  by (simp add: take_up_def split: list.split future.split)

lemma run_probe_reads [simp]: "br_reads (run_probe r s) = br_reads s"
  by (simp add: run_probe_def split: list.split future.split)

lemma foreign_reads [simp]: "br_reads (foreign_submit s) = br_reads s"
  by (simp add: foreign_submit_def split: option.split)

lemma advance_reads [simp]: "br_reads (advance_clock ev s) = br_reads s"
  by (simp add: advance_clock_def split: option.split)

lemma main_event_reads: "reads_from (event_owner ev) s (main_event cf ev (advance_clock ev s))"
proof -
  have w: "reads_from owner s u" if "reads_from owner (advance_clock ev s) u" for u owner
    using that by (simp add: reads_from_def)
  show ?thesis
    by (rule w, cases ev) (simp_all add: reads_from_same tick_reads read_done_reads run_idle_reads forget_phone_def)
qed

section \<open>The invariant of a run\<close>

definition adapter_inv :: "rec_config \<Rightarrow> recovery \<Rightarrow> bool" where
  "adapter_inv cf s \<longleftrightarrow> reachable (ba_init (rc_adapter cf)) (ba_step (rc_adapter cf)) (br_adapter s) \<and>
     (\<forall>r \<in> set (br_reads s). unique_name (rc_adapter cf) (rd_owner r)) \<and>
     (\<forall>st. CycleJob st \<in> set (ow_futures (br_worker s)) \<longrightarrow> known_adapter (rc_adapter cf) st)"

definition budget_inv :: "recovery \<Rightarrow> bool" where
  "budget_inv s \<longleftrightarrow> sorted_wrt (\<lambda>later earlier. earlier + HOURLY_LIMIT_SECONDS \<le> later) (attempts (br_log s)) \<and>
     (\<forall>x \<in> set (attempts (br_log s)). budget_saved x s) \<and> spent_offs s \<le> length (attempts (br_log s))"

lemma moved_budget: "moved cf s s' \<Longrightarrow> budget_inv s \<Longrightarrow> budget_inv s'"
  by (auto simp: moved_def budget_inv_def)

lemma submitted_budget:
  assumes sub: "submitted cf st s s'" and i: "budget_inv s" "reserve_inv s"
  shows "budget_inv s'"
proof -
  obtain wall where w: "cycle_allowed cf wall st s" "attempts (br_log s') = wall # attempts (br_log s)" "budget_saved wall s'"
      "br_adapter s' = br_adapter s" "ow_futures (br_worker s) = []" "\<not> ow_closed (br_worker s)" "\<not> ow_reserved (br_worker s)"
    using sub by (auto simp: submitted_def)
  have earlier: "x + HOURLY_LIMIT_SECONDS \<le> wall" if "x \<in> set (attempts (br_log s))" for x
    using i(1) that attempt_later [OF w(1), of x] by (simp add: budget_inv_def budget_saved_def)
  have "ba_job (br_adapter s) = Idle" using i(2) w by (auto simp: reserve_inv_def res_ok_def split: if_splits)
  then have "spent_offs s = card (requested_off (br_adapter s))" using w by (simp add: spent_offs_def cycle_waits_def)
  then have "spent_offs s' \<le> Suc (spent_offs s)" using w(4) by (simp add: spent_offs_def)
  moreover have "budget_saved x s'" if "x \<in> set (attempts (br_log s))" for x
  proof -
    have "x \<le> wall" using earlier [OF that] by (simp add: HOURLY_LIMIT_SECONDS_def)
    then show ?thesis using w(3) by (force simp: budget_saved_def attempt_saved_def)
  qed
  ultimately show ?thesis using i(1) w(2,3) earlier by (auto simp: budget_inv_def)
qed

lemma moved_adapter:
  "moved cf s s' \<Longrightarrow> reads_from owner s s' \<Longrightarrow> \<forall>n. owner = Some n \<longrightarrow> unique_name (rc_adapter cf) n \<Longrightarrow>
   adapter_inv cf s \<Longrightarrow> adapter_inv cf s'"
  by (auto simp: adapter_inv_def moved_def reads_from_def intro: reachable_fold)

lemma submitted_adapter:
  "submitted cf st s s' \<Longrightarrow> known_adapter (rc_adapter cf) st \<Longrightarrow> reads_from owner s s' \<Longrightarrow>
   \<forall>n. owner = Some n \<longrightarrow> unique_name (rc_adapter cf) n \<Longrightarrow> adapter_inv cf s \<Longrightarrow> adapter_inv cf s'"
  by (auto simp: adapter_inv_def submitted_def reads_from_def)

lemma state_known:
  assumes "state_from_objects (rc_adapter cf) owner obs r n ad = Inr st" "unique_name (rc_adapter cf) owner" "addressed cf obs"
  shows "known_adapter (rc_adapter cf) st"
proof -
  obtain ob props where "map_of obs (ac_path (rc_adapter cf)) = Some ob" "mo_adapter ob = Some props"
      "as_owner st = owner" "a1_address props \<noteq> None" "as_address st = py_upper (ac_case (rc_adapter cf)) (the (a1_address props))"
    using assms(1) by (auto simp: state_from_objects_def Let_def split: option.splits if_splits bind_splits)
  then show ?thesis
    using assms(2,3) map_of_SomeD [of obs] by (fastforce simp: known_adapter_def addressed_def)
qed

lemma tame_clock: "tame cf s (advance_clock ev s)"
  by (rule tame_frame) (simp_all add: advance_clock_def split: option.split)

lemma tame_run_probe: "tame cf s (run_probe r s)"
proof (cases "ow_futures (br_worker s)")
  case (Cons f fs)
  then show ?thesis by (cases f) (auto simp: run_probe_def tame_def budget_saved_def intro: exI [of _ "[]"])
qed (simp add: run_probe_def)

lemma tame_foreign: "tame cf s (foreign_submit s)"
  using tame_submit [of Foreign False s] by (auto simp: foreign_submit_def split: option.split)

lemma tame_shutdown: "tame cf s (s\<lparr>br_worker := ow_shutdown (br_worker s)\<rparr>)"
  by (auto simp: tame_def budget_saved_def ow_shutdown_def intro: exI [of _ "[]"] dest: in_set_takeD)

lemma main_event_cases:
  assumes a: "adapter_inv cf t" and so: "sound_rec_event cf ev s"
  shows "moved cf t (main_event cf ev t) \<or> (\<exists>st. submitted cf st t (main_event cf ev t) \<and> known_adapter (rc_adapter cf) st)"
proof (cases ev)
  case (EvRead env n objects)
  then show ?thesis
    using read_done_cases [of cf t env n objects]
  proof (elim disjE)
    assume "\<exists>st obs. n < length (br_reads t) \<and> objects = Some obs \<and> submitted cf st t (read_done cf env n objects t) \<and>
      state_from_objects (rc_adapter cf) (rd_owner (br_reads t ! n)) obs (rd_revision (br_reads t ! n))
        (rd_incarnation (br_reads t ! n)) (br_adapter t) = Inr st"
    then obtain st obs where st: "n < length (br_reads t)" "objects = Some obs" "submitted cf st t (read_done cf env n objects t)"
      "state_from_objects (rc_adapter cf) (rd_owner (br_reads t ! n)) obs (rd_revision (br_reads t ! n))
        (rd_incarnation (br_reads t ! n)) (br_adapter t) = Inr st" by blast
    moreover have "unique_name (rc_adapter cf) (rd_owner (br_reads t ! n))" using a st(1) by (simp add: adapter_inv_def)
    moreover have "addressed cf obs" using so EvRead st(2) by (simp add: sound_rec_event_def)
    ultimately show ?thesis using EvRead state_known by auto
  qed (simp add: EvRead tame_moved)
next
  case (EvTakeUp d)
  then show ?thesis using a take_up_moved by (simp add: adapter_inv_def)
next
  case (EvSignal e)
  then show ?thesis using so by (simp add: sound_rec_event_def bluez_signal_main tame_adapter tame_moved)
qed (simp_all add: tame_moved tame_start tame_stop tame_invalidate tame_forget tame_tick run_idle_tame deliver_moved
      tame_run_probe tame_foreign tame_shutdown)

definition rec_inv :: "rec_config \<Rightarrow> recovery \<Rightarrow> bool" where
  "rec_inv cf s \<longleftrightarrow> reserve_inv s \<and> adapter_inv cf s \<and> budget_inv s"

lemma rec_init_inv: "rec_init cf s \<Longrightarrow> rec_inv cf s"
proof -
  assume "rec_init cf s"
  then obtain now doc journal where s: "s = BluetoothRecovery_init cf now doc journal" by (auto simp: rec_init_def)
  have "ba_init (rc_adapter cf) (br_adapter s)" by (auto simp: s BluetoothRecovery_init_def ba_init_def)
  then have "adapter_inv cf s" by (auto simp: adapter_inv_def s BluetoothRecovery_init_def ObexWorker_init_def intro: reachable.start)
  moreover have "requested_off (br_adapter s) = {}" "\<not> before_off (ba_job (br_adapter s))"
    by (simp_all add: s requested_off_def BluetoothRecovery_init_def BluezRecoveryAdapter_init_def reload_journal_def ba_note_def Let_def
        split: option.split)
  then have "budget_inv s"
    by (simp add: s budget_inv_def spent_offs_def cycle_waits_def BluetoothRecovery_init_def ObexWorker_init_def)
  ultimately show ?thesis using reserve_init by (simp add: rec_inv_def s)
qed

text \<open>A restart keeps the record of attempts: it is read back from the disk.\<close>

lemma restart_inv:
  assumes i: "rec_inv cf s"
  shows "rec_inv cf ((BluetoothRecovery_init cf now (br_disk s) journal)\<lparr>br_log := Forgot # br_log s\<rparr>)"
proof -
  let ?n = "BluetoothRecovery_init cf now (br_disk s) journal"
  have "ba_init (rc_adapter cf) (br_adapter ?n)" by (auto simp: BluetoothRecovery_init_def ba_init_def)
  then have "adapter_inv cf (?n\<lparr>br_log := Forgot # br_log s\<rparr>)"
    by (auto simp: adapter_inv_def BluetoothRecovery_init_def ObexWorker_init_def intro: reachable.start)
  moreover have o: "requested_off (br_adapter ?n) = {}" "\<not> before_off (ba_job (br_adapter ?n))"
    by (simp_all add: requested_off_def BluetoothRecovery_init_def BluezRecoveryAdapter_init_def reload_journal_def ba_note_def Let_def
        split: option.split)
  have "budget_saved x s \<Longrightarrow> budget_saved x (?n\<lparr>br_log := Forgot # br_log s\<rparr>)" for x
    by (simp add: budget_saved_def BluetoothRecovery_init_def)
  then have "budget_inv (?n\<lparr>br_log := Forgot # br_log s\<rparr>)"
    using i o by (auto simp: rec_inv_def budget_inv_def spent_offs_def cycle_waits_def BluetoothRecovery_init_def ObexWorker_init_def)
  ultimately show ?thesis using reserve_init by (simp add: rec_inv_def reserve_log)
qed

lemma clock_inv: "rec_inv cf s \<Longrightarrow> rec_inv cf (advance_clock ev s)"
  using moved_budget [OF tame_moved [OF tame_clock]] moved_adapter [OF tame_moved [OF tame_clock], of None] reserve_advance
  by (auto simp: rec_inv_def reads_from_same)

lemma rec_step_inv:
  assumes i: "rec_inv cf s" and st: "rec_step cf s s'"
  shows "rec_inv cf s'"
proof -
  obtain ev where ev: "s' = rec_apply cf ev s" "sound_rec_event cf ev s" using st by (auto elim: rec_stepE)
  have res: "reserve_inv s'" using i st reserve_step by (auto simp: rec_inv_def)
  define t where "t = advance_clock ev s"
  have t: "rec_inv cf t" using i by (simp add: t_def clock_inv)
  have owner: "\<forall>n. event_owner ev = Some n \<longrightarrow> unique_name (rc_adapter cf) n" using ev(2) by (simp add: sound_rec_event_def)
  have reads: "reads_from (event_owner ev) t (main_event cf ev t)"
    using main_event_reads [of ev s cf] by (simp add: t_def reads_from_def)
  have main: "adapter_inv cf (main_event cf ev t) \<and> budget_inv (main_event cf ev t)"
    using main_event_cases [OF _ ev(2), of t] t moved_adapter [OF _ reads owner] moved_budget
      submitted_adapter [OF _ _ reads owner] submitted_budget
    unfolding rec_inv_def by blast
  have others: "adapter_inv cf u \<and> budget_inv u" if "moved cf s u" "br_reads u = br_reads s" for u
    using that i moved_adapter [OF that(1), of None] moved_budget [OF that(1)] by (simp add: rec_inv_def reads_from_same)
  have "adapter_inv cf s' \<and> budget_inv s'"
  proof (cases ev)
    case (EvJob d a)
    have "moved cf s (job_step cf d a s)"
      using i ev(2) EvJob by (intro job_step_moved) (auto simp: rec_inv_def sound_rec_event_def)
    then show ?thesis using others [of "job_step cf d a s"] by (simp add: ev(1) EvJob rec_apply_def job_step_def)
  next
    case (EvFinish d now deadline)
    have "br_reads (finish_shutdown cf d now deadline s) = br_reads s" by (simp add: finish_shutdown_def split: job.split)
    then show ?thesis using others finish_moved i by (simp add: ev(1) EvFinish rec_apply_def rec_inv_def)
  next
    case (EvRestart now)
    then show ?thesis using restart_inv [OF i] by (simp add: ev(1) rec_apply_def rec_inv_def)
  qed (use main i in \<open>simp_all add: ev(1) rec_apply_def rec_inv_def t_def\<close>)
  then show ?thesis using res by (simp add: rec_inv_def)
qed

interpretation recovery: invariant_system "rec_init cf" "rec_step cf" "rec_inv cf" for cf
  by unfold_locales (auto intro: rec_init_inv rec_step_inv)

end
