(* ===== verification/Recovery_Windows.thy ===== *)
theory Recovery_Windows
  imports Recovery_Guarantees
begin

text \<open>
  The observation windows of the last-resort recovery against its log: the fields that time an outage and the phone-only
  reset are functions of what was observed, observations that keep a window open are at most ninety seconds apart, and
  probes and power cycles are submitted only when their windows are old enough. The second part concerns the poll timer.
\<close>

section \<open>What the log says about the windows\<close>

text \<open>Since when every look at the phone showed an outage that allows a cycle, or was skipped because the phone was busy.\<close>

fun outage_start :: "rec_entry list \<Rightarrow> real option" where
  "outage_start [] = None"
| "outage_start (Observed now v # l) =
     (case v of Outage \<Rightarrow> Some (case outage_start l of None \<Rightarrow> now | Some t \<Rightarrow> t) | Busy \<Rightarrow> outage_start l | _ \<Rightarrow> None)"
| "outage_start (Gap # l) = None"
| "outage_start (Forgot # l) = None"
| "outage_start (WindowLost # l) = None"
| "outage_start (_ # l) = outage_start l"

text \<open>When a phone-only reset was granted with no recovery, gap or invalidation since.\<close>

fun reset_start :: "rec_entry list \<Rightarrow> real option" where
  "reset_start [] = None"
| "reset_start (SoftReset t # l) = Some t"
| "reset_start (Observed now v # l) = (case v of Healthy \<Rightarrow> None | Unsafe \<Rightarrow> None | _ \<Rightarrow> reset_start l)"
| "reset_start (Gap # l) = None"
| "reset_start (Forgot # l) = None"
| "reset_start (_ # l) = reset_start l"

fun last_look :: "rec_entry list \<Rightarrow> real option" where
  "last_look [] = None"
| "last_look (Observed now v # l) = Some now"
| "last_look (Gap # l) = None"
| "last_look (Forgot # l) = None"
| "last_look (_ # l) = last_look l"

text \<open>Looks with no gap between them are at most ninety seconds apart.\<close>

fun looks_dense :: "rec_entry list \<Rightarrow> bool" where
  "looks_dense [] = True"
| "looks_dense (Observed now v # l) =
     (looks_dense l \<and> (case last_look l of None \<Rightarrow> True | Some u \<Rightarrow> now - u \<le> HEALTH_FRESH_SECONDS))"
| "looks_dense (_ # l) = looks_dense l"

definition old_enough :: "real \<Rightarrow> real \<Rightarrow> real option \<Rightarrow> bool" where
  "old_enough now age since \<longleftrightarrow> (\<exists>t. since = Some t \<and> age \<le> now - t)"

fun requests_justified :: "rec_entry list \<Rightarrow> bool" where
  "requests_justified [] = True"
| "requests_justified (ProbeSent now # l) =
     (old_enough now OUTAGE_SECONDS (outage_start l) \<and> old_enough now RESET_SETTLE_SECONDS (reset_start l) \<and> requests_justified l)"
| "requests_justified (CycleSubmitted now wall st # l) = (old_enough now OUTAGE_SECONDS (outage_start l) \<and> requests_justified l)"
| "requests_justified (_ # l) = requests_justified l"

definition win_ok :: "rec_entry list \<Rightarrow> real option \<Rightarrow> real option \<Rightarrow> bool" where
  "win_ok l outage reset \<longleftrightarrow> outage = outage_start l \<and> reset = reset_start l \<and> looks_dense l \<and> requests_justified l"

definition look_ok :: "rec_entry list \<Rightarrow> real \<Rightarrow> bool" where
  "look_ok l seen \<longleftrightarrow> (\<forall>u. last_look l = Some u \<longrightarrow> seen = u)"

definition windows_ok :: "recovery \<Rightarrow> bool" where
  "windows_ok s \<longleftrightarrow> win_ok (br_log s) (br_outage_since s) (br_soft_reset_at s)"

definition window_inv :: "recovery \<Rightarrow> bool" where
  "window_inv s \<longleftrightarrow> windows_ok s \<and> look_ok (br_log s) (br_last_observation s)"

lemmas window_defs = window_inv_def windows_ok_def

lemma win_ok_forget: "win_ok l outage reset \<Longrightarrow> win_ok (Forgot # l) None None"
  by (simp add: win_ok_def)

lemma look_ok_forget [simp]: "look_ok (Forgot # l) seen"
  by (simp add: look_ok_def)

text \<open>Entries that say nothing about the windows.\<close>

lemma restore_entry [simp]:
  "win_ok (RestoreSubmitted # l) outage reset = win_ok l outage reset"
  "look_ok (RestoreSubmitted # l) seen = look_ok l seen"
  by (simp_all add: win_ok_def look_ok_def)

lemma window_invalidate: "windows_ok s \<Longrightarrow> window_inv (br_invalidate now su s)"
  by (auto simp: window_defs dest: win_ok_forget)

lemma window_ok_inv: "window_inv s \<Longrightarrow> windows_ok s"
  by (simp add: window_inv_def)

lemma window_finished: "window_inv s \<Longrightarrow> window_inv (br_finished now s)"
  using win_ok_forget by (auto simp: br_finished_def Let_def window_defs)

lemma window_submit_restore: "window_inv s \<Longrightarrow> window_inv (submit_restore now s)"
  using window_finished [of "s\<lparr>br_operation_pending := True\<rparr>" now]
  by (auto simp: submit_restore_def window_defs split: option.split)

lemma window_continue: "window_inv s \<Longrightarrow> window_inv (continue_restoration env s)"
proof -
  assume w: "window_inv s"
  obtain ok w' where r: "reserve_if_idle (br_worker s) = (ok, w')" by fastforce
  have "window_inv (br_call Pause (s\<lparr>br_worker := w', br_active := True\<rparr>))" using w by (simp add: window_defs)
  then show ?thesis using w r by (simp add: continue_restoration_def Let_def window_finished window_submit_restore)
qed

lemma window_start: "window_inv s \<Longrightarrow> window_inv (recovery_start cf env subscribed s)"
proof -
  assume w: "window_inv s"
  define a where "a = on_adapter cf (Monitor subscribed) s"
  define t where "t = a\<lparr>br_running := True, br_timer := Some (rc_sched cf (br_history a)),
    br_history := Schedule (rc_sched cf (br_history a)) POLL_SECONDS Tick # br_history a\<rparr>"
  have a: "window_inv a" using w by (simp add: a_def window_defs)
  then have t: "window_inv t" by (simp add: t_def window_defs)
  have "recovery_start cf env subscribed s \<in> {s, a, t, continue_restoration env t}"
    by (simp add: recovery_start_def Let_def a_def [symmetric] t_def [symmetric])
  then show ?thesis using w a t window_continue by auto
qed

lemma window_stop: "window_inv s \<Longrightarrow> window_inv (recovery_stop cf now s)"
  by (auto simp: recovery_stop_def Let_def window_defs dest: win_ok_forget split: option.split)

lemma window_forget: "window_inv s \<Longrightarrow> window_inv (forget_phone env s)"
  by (auto simp: forget_phone_def window_defs dest: win_ok_forget)

section \<open>Looking at the phone\<close>

lemma look_entry [simp]: "look_ok (Observed now v # l) now"
  by (simp add: look_ok_def)

text \<open>What holds of a look at time \<open>now\<close> after the gap check: the last one is recent.\<close>

definition recent :: "real \<Rightarrow> recovery \<Rightarrow> bool" where
  "recent now s \<longleftrightarrow> windows_ok s \<and> br_last_observation s = now \<and>
     (case last_look (br_log s) of None \<Rightarrow> True | Some u \<Rightarrow> now - u \<le> HEALTH_FRESH_SECONDS)"

lemma recent_ends:
  "recent now s \<Longrightarrow> v \<in> {Healthy, Unsafe} \<Longrightarrow> window_inv (end_windows (br_note (Observed now v) s))"
  by (auto simp: recent_def window_defs win_ok_def)

lemma recent_busy: "recent now s \<Longrightarrow> window_inv (br_note (Observed now Busy) s)"
  by (auto simp: recent_def window_defs win_ok_def)

lemma recent_open: "recent now s \<Longrightarrow> window_inv (open_windows now al s)"
  by (auto simp: recent_def window_defs win_ok_def open_windows_def)

lemma window_save: "window_inv s \<Longrightarrow> window_inv (snd (br_save d u s))"
  by (simp add: window_defs)

lemma window_rearm: "window_inv s \<Longrightarrow> window_inv (rearm cf env st s)"
  by (simp add: rearm_def Let_def window_defs)

lemma window_healthy: "recent (re_now env) s \<Longrightarrow> window_inv (snd (check_healthy cf env st ob s))"
proof -
  assume r: "recent (re_now env) s"
  define t where "t = end_windows (br_note (Observed (re_now env) Healthy) s)"
  have t: "window_inv t" using r by (simp add: t_def recent_ends)
  then have "window_inv (br_call c t)" "window_inv (t\<lparr>br_healthy_since := x\<rparr>)" "window_inv ((br_call c t)\<lparr>br_healthy_since := x\<rparr>)" for c x
    by (simp_all add: window_defs)
  then show ?thesis
    using t unfolding check_healthy_def Let_def t_def [symmetric] by (simp add: window_rearm)
qed

lemma window_submit_probe:
  assumes w: "window_inv s" and o: "old_enough now OUTAGE_SECONDS (br_outage_since s)"
    "old_enough now RESET_SETTLE_SECONDS (br_soft_reset_at s)"
  shows "window_inv (submit_probe now st s)"
  using assms by (auto simp: submit_probe_def window_defs win_ok_def look_ok_def split: option.split)

lemma window_age_old: "\<not> window_age now since < age \<Longrightarrow> since \<noteq> None \<Longrightarrow> old_enough now age since"
  by (auto simp: window_age_def old_enough_def)

lemma window_advance: "recent (re_now env) s \<Longrightarrow> window_inv (snd (advance_outage env st al s))"
proof -
  assume r: "recent (re_now env) s"
  define t where "t = open_windows (re_now env) al s"
  have t: "window_inv t" using r by (simp add: t_def recent_open)
  have since: "al \<Longrightarrow> br_outage_since t \<noteq> None" by (simp add: t_def open_windows_def)
  have c: "window_inv (br_call c t)" "window_inv (br_note (SoftReset n) ((br_call c t)\<lparr>br_soft_reset_at := Some n\<rparr>))" for c n
    using t by (auto simp: window_defs win_ok_def look_ok_def)
  show ?thesis
    using t c since unfolding advance_outage_def Let_def t_def [symmetric]
    by (auto intro!: window_submit_probe window_age_old split: option.split)
qed

lemma window_outage: "recent (re_now env) s \<Longrightarrow> window_inv (snd (check_outage cf env st ob s))"
proof -
  assume "recent (re_now env) s"
  then have "recent (re_now env) (s\<lparr>br_healthy_since := None\<rparr>)" by (simp add: recent_def windows_ok_def)
  then show ?thesis by (simp add: check_outage_def Let_def recent_busy recent_ends window_advance)
qed

lemma window_check:
  assumes "window_inv s"
  shows "windows_ok (snd (br_check cf env st s)) \<and> (fst (br_check cf env st s) \<longrightarrow> window_inv (snd (br_check cf env st s)))"
proof -
  define u where "u = check_identity (re_now env) st s"
  define t where "t = check_gap (re_now env) u"
  have u: "window_inv u"
    using assms by (auto simp: u_def check_identity_def window_defs dest: win_ok_forget)
  then have r: "recent (re_now env) t"
    by (auto simp: t_def check_gap_def recent_def window_defs win_ok_def look_ok_def Let_def split: option.splits)
  have e: "br_check cf env st s =
      (if \<not> as_powered st then (True, br_invalidate (re_now env) None u)
       else case re_observe env of None \<Rightarrow> (False, t)
         | Some ob \<Rightarrow> if ob_healthy ob then check_healthy cf env st ob t else check_outage cf env st ob t)"
    unfolding br_check_def Let_def t_def u_def by (rule refl)
  have "window_inv (br_invalidate (re_now env) None u)" using u by (simp add: window_invalidate window_ok_inv)
  then show ?thesis
    using r window_healthy [OF r, of cf st] window_outage [OF r, of cf st]
    by (simp add: e window_ok_inv recent_def split: option.split)
qed

lemma window_snapshot_failed: "window_inv s \<Longrightarrow> window_inv (snapshot_failed now g s)"
  by (simp add: snapshot_failed_def window_invalidate window_ok_inv)

lemma window_snapshot_ready:
  assumes w: "window_inv s"
  shows "window_inv (snapshot_ready cf env g st s)"
proof -
  define t where "t = s\<lparr>br_snapshot_pending := False\<rparr>"
  obtain ok u where u: "br_check cf env st t = (ok, u)" by fastforce
  have t: "window_inv t" using w by (simp add: t_def window_defs)
  have ok: "windows_ok u" "ok \<Longrightarrow> window_inv u" using window_check [OF t, of cf env st] u by simp_all
  have "br_running u = br_running s" using looked_check [of t cf env st] u by (simp add: looked_def t_def)
  then have "br_running s \<Longrightarrow> window_inv (snapshot_failed (re_now env) (br_generation u) u)"
    using ok(1) by (simp add: snapshot_failed_def window_invalidate)
  then show ?thesis
    using w t ok(2) unfolding snapshot_ready_def Let_def t_def [symmetric] by (simp add: u)
qed

lemma window_read_async: "read_async env p s = Some s' \<Longrightarrow> window_inv s \<Longrightarrow> window_inv s'"
  by (auto simp: read_async_def window_defs)

lemma window_tick: "window_inv s \<Longrightarrow> window_inv (br_tick cf env s)"
proof -
  assume w: "window_inv s"
  define t where "t = (on_adapter cf (Cleanup (re_journal env)) s)\<lparr>br_snapshot_pending := True\<rparr>"
  have a: "window_inv (on_adapter cf (Cleanup (re_journal env)) s)" "window_inv t" using w by (simp_all add: t_def window_defs)
  show ?thesis
    using w a window_read_async [of env _ t] unfolding br_tick_def Let_def t_def [symmetric]
    by (simp add: window_continue window_invalidate window_ok_inv split: option.split)
qed

lemma window_probe_failed: "window_inv s \<Longrightarrow> window_inv (br_probe_failed g s)"
  by (auto simp: br_probe_failed_def window_defs win_ok_def look_ok_def)

lemma window_submit_cycle:
  assumes w: "window_inv s" and o: "old_enough (re_now env) OUTAGE_SECONDS (br_outage_since s)"
  shows "window_inv (submit_cycle env current s)"
proof -
  define t where "t = br_call Pause (s\<lparr>br_active := True, br_operation_pending := True, br_cancelled := False\<rparr>)"
  have t: "window_inv t" "br_outage_since t = br_outage_since s" using w by (simp_all add: t_def window_defs)
  then have "window_inv (br_note (CycleSubmitted (re_now env) (re_wall env) current) (t\<lparr>br_worker := x\<rparr>))" for x
    using o by (auto simp: window_defs win_ok_def look_ok_def)
  then show ?thesis
    using t window_finished unfolding submit_cycle_def Let_def t_def [symmetric] by (simp split: option.split)
qed

lemma window_decide:
  assumes w: "window_inv s" and o: "old_enough (re_now env) OUTAGE_SECONDS (br_outage_since s)"
  shows "window_inv (decide_cycle cf env expected current s)"
proof -
  obtain r x where r: "reserve_if_idle (br_worker s) = (r, x)" by fastforce
  obtain ok t where t: "br_save (re_disk env) [(lit ''spent'', JBool True), (lit ''last_attempt'', JFloat (Some (re_wall env)))]
      (s\<lparr>br_worker := x\<rparr>) = (ok, t)" by fastforce
  have "t = snd (br_save (re_disk env) [(lit ''spent'', JBool True), (lit ''last_attempt'', JFloat (Some (re_wall env)))]
      (s\<lparr>br_worker := x\<rparr>))" by (simp add: t)
  then have "window_inv t" "br_outage_since t = br_outage_since s" "window_inv (t\<lparr>br_worker := y\<rparr>)" for y
    using w by (simp_all add: window_defs)
  then show ?thesis
    using w o by (auto simp: decide_cycle_def r t window_invalidate window_ok_inv intro: window_submit_cycle split: option.split)
qed

lemma window_after_probe: "window_inv s \<Longrightarrow> window_inv (after_probe cf env g expected probed current s)"
proof -
  assume w: "window_inv s"
  then have p: "window_inv (s\<lparr>br_probing := False\<rparr>)" by (simp add: window_defs)
  have "old_enough (re_now env) OUTAGE_SECONDS (br_outage_since (s\<lparr>br_probing := False\<rparr>))"
    if "\<not> (case br_outage_since s of None \<Rightarrow> True | Some t \<Rightarrow> re_now env - t < OUTAGE_SECONDS)"
    using that by (auto simp: old_enough_def split: option.splits)
  then show ?thesis
    using w p unfolding after_probe_def
    by (auto intro: window_decide window_snapshot_failed window_read_async split: option.split)
qed

lemma window_read_done: "window_inv s \<Longrightarrow> window_inv (read_done cf env n objects s)"
proof -
  assume w: "window_inv s"
  define t where "t = s\<lparr>br_reads := take n (br_reads s) @ drop (Suc n) (br_reads s)\<rparr>"
  have t: "window_inv t" using w by (simp add: t_def window_defs)
  show ?thesis
    using w t unfolding read_done_def Let_def t_def [symmetric]
    by (simp add: window_snapshot_failed window_snapshot_ready window_after_probe split: option.split purpose.split sum.split)
qed

lemma window_deliver: "window_inv s \<Longrightarrow> window_inv (deliver cf now s)"
proof -
  assume w: "window_inv s"
  have d: "window_inv u \<Longrightarrow> window_inv (u\<lparr>br_worker := x\<rparr>)" for u x by (simp add: window_defs)
  have "window_inv (on_adapter cf Delivered s)" using w by (simp add: window_defs)
  moreover have "window_inv (s\<lparr>br_idles := l, br_worker := x\<rparr>)" for l x using w by (simp add: window_defs)
  ultimately show ?thesis
    using w d by (auto simp: deliver_def window_finished window_probe_failed simp del: finished_frame br_probe_failed_frame
        split: list.split future.split option.split job.split)
qed

lemma window_run_idle: "window_inv s \<Longrightarrow> window_inv (run_idle cf env s)"
  by (auto simp: run_idle_def window_defs [of s] intro!: window_after_probe split: list.split) (simp add: window_defs)

lemma window_step:
  assumes i: "window_inv s" and st: "rec_step cf s s'"
  shows "window_inv s'"
proof -
  obtain ev where ev: "s' = rec_apply cf ev s" using st by (auto elim: rec_stepE)
  define t where "t = advance_clock ev s"
  have t: "window_inv t" using i by (simp add: t_def advance_clock_def window_defs split: option.split)
  have same: "window_inv (t\<lparr>br_worker := w\<rparr>)" "window_inv (on_adapter cf e t)" for w e using t by (simp_all add: window_defs)
  have main: "window_inv (main_event cf ev t)"
    using t same by (cases ev) (simp_all add: window_start window_stop window_invalidate window_ok_inv window_forget window_tick
        window_read_done window_run_idle window_deliver take_up_def run_probe_def foreign_submit_def window_defs [of "on_adapter _ _ _"]
        split: list.split future.split option.split)
  have job: "window_inv (job_step cf d a s)" "window_inv (finish_shutdown cf d n dl s)" for d a n dl
    using i by (simp_all add: job_step_def finish_shutdown_def window_defs split: job.split)
  have "window_inv ((BluetoothRecovery_init cf n doc j)\<lparr>br_log := Forgot # br_log s\<rparr>)" for n doc j
    using i by (auto simp: window_defs BluetoothRecovery_init_def dest: win_ok_forget)
  then show ?thesis
    using i main job by (cases ev) (simp_all add: ev rec_apply_def t_def)
qed

lemma window_init: "rec_init cf s \<Longrightarrow> window_inv s"
  by (auto simp: rec_init_def BluetoothRecovery_init_def window_defs win_ok_def look_ok_def)

interpretation windows: invariant_system "rec_init cf" "rec_step cf" window_inv for cf
  by unfold_locales (auto intro: window_init window_step)

section \<open>The poll timer\<close>

definition same_timer :: "recovery \<Rightarrow> recovery \<Rightarrow> bool" where
  "same_timer s s' \<longleftrightarrow> br_timer s' = br_timer s \<and> br_running s' = br_running s \<and> live (br_history s') = live (br_history s)"

lemma same_timer_trans: "same_timer s t \<Longrightarrow> same_timer t u \<Longrightarrow> same_timer s u"
  by (simp add: same_timer_def)

lemma same_timer_invalidate [simp]: "same_timer s (br_invalidate now su s)"
  by (simp add: same_timer_def br_invalidate_def Let_def)

lemma same_timer_looked: "looked s s' \<Longrightarrow> same_timer s s'"
  by (simp add: looked_def same_timer_def)

lemma same_timer_finished [simp]: "same_timer s (br_finished now s)"
proof -
  have "live (br_history (br_invalidate now su u)) = live (br_history u)" for su u
    using same_timer_invalidate [of u now su] by (simp add: same_timer_def)
  then show ?thesis by (simp add: same_timer_def br_finished_def Let_def)
qed

lemma same_timer_submit_restore [simp]: "same_timer s (submit_restore now s)"
  using same_timer_finished [of "s\<lparr>br_operation_pending := True\<rparr>" now]
  by (auto simp: submit_restore_def same_timer_def split: option.split)

lemma same_timer_continue [simp]: "same_timer s (continue_restoration env s)"
proof -
  obtain ok w where r: "reserve_if_idle (br_worker s) = (ok, w)" by fastforce
  define t where "t = br_call Pause (s\<lparr>br_worker := w, br_active := True\<rparr>)"
  have "same_timer s t" by (simp add: t_def same_timer_def)
  then have "same_timer s (submit_restore now t)" "same_timer s (br_finished now t)" for now
    using same_timer_trans same_timer_submit_restore same_timer_finished by blast+
  then show ?thesis by (simp add: continue_restoration_def r Let_def t_def) (simp add: same_timer_def)
qed

lemma same_timer_snapshot_ready [simp]: "same_timer s (snapshot_ready cf env g st s)"
proof -
  define t where "t = s\<lparr>br_snapshot_pending := False\<rparr>"
  obtain ok u where u: "br_check cf env st t = (ok, u)" by fastforce
  have t: "same_timer s t" by (simp add: t_def same_timer_def)
  have "same_timer s u" using same_timer_trans [OF t same_timer_looked [OF looked_check [of t cf env st]]] by (simp add: u)
  then show ?thesis
    using t same_timer_trans [OF _ same_timer_invalidate] unfolding snapshot_ready_def Let_def t_def [symmetric]
    by (simp add: u snapshot_failed_def) (simp add: same_timer_def)
qed

lemma same_timer_refl [simp]: "same_timer s s" "same_timer s (on_adapter cf ev s)" "same_timer s (snd (br_save d u s))"
  by (simp_all add: same_timer_def)

lemma same_timer_read_async: "read_async env p s = Some s' \<Longrightarrow> same_timer s s'"
  by (auto simp: read_async_def same_timer_def)

lemma same_timer_tick [simp]: "same_timer s (br_tick cf env s)"
proof -
  define t where "t = (on_adapter cf (Cleanup (re_journal env)) s)\<lparr>br_snapshot_pending := True\<rparr>"
  have t: "same_timer s t" by (simp add: t_def same_timer_def)
  show ?thesis
    using same_timer_trans [OF t same_timer_invalidate] same_timer_trans [OF t same_timer_read_async]
    unfolding br_tick_def Let_def t_def [symmetric] by (simp split: option.split)
qed

lemma same_timer_submit_cycle: "same_timer s (submit_cycle env current s)"
proof -
  define t where "t = br_call Pause (s\<lparr>br_active := True, br_operation_pending := True, br_cancelled := False\<rparr>)"
  have t: "same_timer s t" "same_timer s (br_note e (t\<lparr>br_worker := w\<rparr>))" for e w by (simp_all add: t_def same_timer_def)
  then show ?thesis
    using same_timer_trans [OF t(1) same_timer_finished] unfolding submit_cycle_def Let_def t_def [symmetric]
    by (simp split: option.split)
qed

lemma same_timer_decide: "same_timer s (decide_cycle cf env expected current s)"
proof -
  obtain r x where r: "reserve_if_idle (br_worker s) = (r, x)" by fastforce
  obtain ok t where t: "br_save (re_disk env) [(lit ''spent'', JBool True), (lit ''last_attempt'', JFloat (Some (re_wall env)))]
      (s\<lparr>br_worker := x\<rparr>) = (ok, t)" by fastforce
  have "t = snd (br_save (re_disk env) [(lit ''spent'', JBool True), (lit ''last_attempt'', JFloat (Some (re_wall env)))]
      (s\<lparr>br_worker := x\<rparr>))" by (simp add: t)
  then have u: "same_timer s t" "same_timer s (t\<lparr>br_worker := y\<rparr>)" for y by (simp_all add: same_timer_def)
  then show ?thesis
    using same_timer_trans [OF u(1) same_timer_submit_cycle] by (auto simp: decide_cycle_def r t split: option.split)
qed

lemma same_timer_after_probe: "same_timer s (after_probe cf env g expected probed current s)"
proof -
  have p: "same_timer s (s\<lparr>br_probing := False\<rparr>)" by (simp add: same_timer_def)
  show ?thesis
    using p same_timer_trans [OF p same_timer_decide] same_timer_read_async
    by (simp add: after_probe_def snapshot_failed_def split: option.split)
qed

lemma same_timer_read_done: "same_timer s (read_done cf env n objects s)"
proof -
  define t where "t = s\<lparr>br_reads := take n (br_reads s) @ drop (Suc n) (br_reads s)\<rparr>"
  have t: "same_timer s t" by (simp add: t_def same_timer_def)
  show ?thesis
    using t same_timer_trans [OF t] unfolding read_done_def Let_def t_def [symmetric]
    by (simp add: snapshot_failed_def same_timer_after_probe split: option.split purpose.split sum.split)
qed

lemma same_timer_run_idle: "same_timer s (run_idle cf env s)"
proof (cases "br_idles s")
  case (Cons p rest)
  have "same_timer s (s\<lparr>br_idles := rest\<rparr>)" by (simp add: same_timer_def)
  then show ?thesis
    using same_timer_trans [OF _ same_timer_after_probe] by (simp add: run_idle_def Cons split: prod.split)
qed (simp add: run_idle_def)

lemma same_timer_deliver: "same_timer s (deliver cf now s)"
proof -
  have f: "same_timer u (v\<lparr>br_worker := x\<rparr>) = same_timer u v" for u v x by (simp add: same_timer_def)
  have "same_timer s (br_probe_failed g s)" for g by (simp add: br_probe_failed_def same_timer_def)
  moreover have "same_timer s (br_finished now (on_adapter cf Delivered s))"
    by (rule same_timer_trans [OF same_timer_refl(2) same_timer_finished])
  moreover have "same_timer s (s\<lparr>br_idles := l\<rparr>)" for l by (simp add: same_timer_def)
  ultimately show ?thesis
    by (simp add: deliver_def f del: finished_frame br_probe_failed_frame split: list.split future.split option.split job.split)
qed

definition timer_inv :: "rec_config \<Rightarrow> recovery \<Rightarrow> bool" where
  "timer_inv cf s \<longleftrightarrow> fresh_ids (rc_sched cf) \<and> live (br_history s) = timer_set [br_timer s] \<and> (br_timer s \<noteq> None \<longleftrightarrow> br_running s)"

lemma timer_same: "same_timer s s' \<Longrightarrow> timer_inv cf s \<Longrightarrow> timer_inv cf s'"
  by (simp add: same_timer_def timer_inv_def)

lemma timer_start: "timer_inv cf s \<Longrightarrow> timer_inv cf (recovery_start cf env subscribed s)"
proof -
  assume i: "timer_inv cf s"
  define a where "a = on_adapter cf (Monitor subscribed) s"
  define t where "t = a\<lparr>br_running := True, br_timer := Some (rc_sched cf (br_history a)),
    br_history := Schedule (rc_sched cf (br_history a)) POLL_SECONDS Tick # br_history a\<rparr>"
  have a: "timer_inv cf a" using i by (simp add: a_def timer_inv_def)
  have t: "timer_inv cf t" if "\<not> br_running s" using i that by (auto simp: t_def a_def timer_inv_def)
  have "recovery_start cf env subscribed s \<in> (if br_running s then {s} else {a, t, continue_restoration env t})"
    by (simp add: recovery_start_def Let_def a_def [symmetric] t_def [symmetric])
  then show ?thesis using i a t timer_same [OF same_timer_continue] by (auto split: if_splits)
qed

lemma timer_stop: "timer_inv cf s \<Longrightarrow> timer_inv cf (recovery_stop cf now s)"
proof -
  assume i: "timer_inv cf s"
  define t where "t = on_adapter cf Unmonitor (br_invalidate now None (s\<lparr>br_running := False\<rparr>))"
  have "same_timer (s\<lparr>br_running := False\<rparr>) t"
    unfolding t_def by (rule same_timer_trans [OF same_timer_invalidate same_timer_refl(2)])
  then have "br_timer t = br_timer s" "\<not> br_running t" "live (br_history t) = live (br_history s)" by (simp_all add: same_timer_def)
  then show ?thesis
    using i unfolding recovery_stop_def Let_def t_def [symmetric]
    by (cases "br_timer s") (simp_all add: timer_inv_def)
qed

lemma timer_step:
  assumes i: "timer_inv cf s" and st: "rec_step cf s s'"
  shows "timer_inv cf s'"
proof -
  obtain ev where ev: "s' = rec_apply cf ev s" using st by (auto elim: rec_stepE)
  define t where "t = advance_clock ev s"
  have t: "timer_inv cf t"
    using i by (auto simp: t_def advance_clock_def timer_inv_def split: option.split)
  have w: "same_timer t (t\<lparr>br_worker := w\<rparr>)" "same_timer t (on_adapter cf e (t\<lparr>br_worker := w\<rparr>))" for w e
    by (simp_all add: same_timer_def)
  have main: "timer_inv cf (main_event cf ev t)"
  proof (cases "(\<exists>env b. ev = EvStart env b) \<or> (\<exists>now. ev = EvStop now)")
    case True
    then show ?thesis using t timer_start timer_stop by auto
  next
    case False
    have "same_timer t (main_event cf ev t)"
      using False w same_timer_trans [OF same_timer_invalidate same_timer_refl(3)]
      by (cases ev) (simp_all add: same_timer_read_done same_timer_run_idle same_timer_deliver forget_phone_def take_up_def
          run_probe_def foreign_submit_def split: list.split future.split option.split)
    then show ?thesis using t timer_same by blast
  qed
  have job: "timer_inv cf (job_step cf d a s)" "timer_inv cf (finish_shutdown cf d n dl s)" for d a n dl
    using i by (simp_all add: job_step_def finish_shutdown_def timer_inv_def split: job.split)
  have "timer_inv cf ((BluetoothRecovery_init cf n doc j)\<lparr>br_log := Forgot # br_log s\<rparr>)" for n doc j
    using i by (simp add: timer_inv_def BluetoothRecovery_init_def)
  then show ?thesis using i main job by (cases ev) (simp_all add: ev rec_apply_def t_def)
qed

lemma timer_init: "rec_init cf s \<Longrightarrow> timer_inv cf s"
  by (auto simp: rec_init_def BluetoothRecovery_init_def timer_inv_def)

interpretation poll: timer_owner "rec_init cf" "rec_step cf" "timer_inv cf" br_history "\<lambda>s. [br_timer s]" for cf
proof unfold_locales
  show "rec_init cf s \<Longrightarrow> timer_inv cf s" for s by (rule timer_init)
  show "timer_inv cf s \<Longrightarrow> rec_step cf s t \<Longrightarrow> timer_inv cf t" for s t by (rule timer_step)
  show "timer_inv cf s \<Longrightarrow> live (br_history s) = timer_set [br_timer s]" for s by (simp add: timer_inv_def)
qed

end
