(* ===== verification/Recovery_Properties.thy ===== *)
theory Recovery_Properties
  imports Recovery_Windows
begin

text \<open>
  The properties of the last-resort Bluetooth recovery as a whole, controller, worker and adapter together, and a run that
  shows them at work: a phone that is unreachable for five minutes, a granted phone-only reset, a successful probe, and the
  power cycle that follows.
\<close>

section \<open>Guarantees\<close>


fun keeps_window :: "rec_entry \<Rightarrow> bool" where
  "keeps_window (Observed now v) = (v = Outage \<or> v = Busy)"
| "keeps_window Gap = False"
| "keeps_window Forgot = False"
| "keeps_window WindowLost = False"
| "keeps_window _ = True"

lemma window_cons:
  "keeps_window e \<Longrightarrow> \<exists>a b. l = a @ x # b \<and> list_all keeps_window a \<Longrightarrow> \<exists>a b. e # l = a @ x # b \<and> list_all keeps_window a"
  by (metis append_Cons list.pred_inject(2))

lemma outage_start_window:
  "outage_start l = Some t \<Longrightarrow> \<exists>a b. l = a @ Observed t Outage # b \<and> list_all keeps_window a"
proof (induction l rule: outage_start.induct)
  case (2 now v l)
  show ?case
  proof (cases "v = Outage \<and> outage_start l = None")
    case True
    then show ?thesis using "2.prems" by (intro exI [of _ "[]"] exI [of _ l]) simp
  next
    case False
    then have "outage_start l = Some t" "v = Outage \<or> v = Busy" using "2.prems" by (auto split: verdict.splits option.splits)
    then obtain a b where "l = a @ Observed t Outage # b" "list_all keeps_window a"
      using "2.IH" "2.prems" by (auto split: verdict.splits)
    then show ?thesis using \<open>v = Outage \<or> v = Busy\<close> by (intro exI [of _ "Observed now v # a"] exI [of _ b]) auto
  qed
qed (simp, simp, simp, simp, (rule window_cons, simp, simp del: ex_simps)+)

lemma requests_justified_suffix: "requests_justified (a @ b) \<Longrightarrow> requests_justified b"
  by (induction a rule: requests_justified.induct) auto

lemma looks_dense_suffix: "looks_dense (a @ b) \<Longrightarrow> looks_dense b"
  by (induction a rule: looks_dense.induct) (auto split: option.splits)

text \<open>
  C6: a power cycle needs five minutes of outage. When a cycle is submitted, some look at the phone at least 300
  seconds before showed an outage that allows a cycle, every look since showed the same or a busy phone, nothing was forgotten
  in between, and consecutive looks were at most 90 seconds apart. The probe before it needs the same, and a phone-only reset
  that was granted at least 60 seconds before with no recovery since.
\<close>

theorem cycle_after_outage:
  assumes r: "reachable (rec_init cf) (rec_step cf) s" and l: "br_log s = a @ e # b"
    and e: "e = CycleSubmitted now wall st \<or> e = ProbeSent now"
  shows "\<exists>x y t. b = x @ Observed t Outage # y \<and> 300 \<le> now - t \<and> list_all keeps_window x \<and> looks_dense b \<and>
    (e = ProbeSent now \<longrightarrow> (\<exists>u. reset_start b = Some u \<and> 60 \<le> now - u))"
proof -
  have w: "looks_dense (a @ e # b)" "requests_justified (a @ e # b)"
    using windows.reachable_inv [OF r] by (simp_all add: window_defs win_ok_def l)
  have j: "requests_justified (e # b)" using w(2) by (rule requests_justified_suffix)
  have d: "looks_dense b" using looks_dense_suffix [of "a @ [e]" b] w(1) by simp
  obtain t where t: "outage_start b = Some t" "300 \<le> now - t"
    using j e by (auto simp: old_enough_def OUTAGE_SECONDS_def)
  have "\<exists>u. reset_start b = Some u \<and> 60 \<le> now - u" if "e = ProbeSent now"
    using j that by (auto simp: old_enough_def RESET_SETTLE_SECONDS_def)
  then show ?thesis using outage_start_window [OF t(1)] t(2) d by blast
qed

text \<open>
  C14: the worker is reserved exactly while the recovery is active, and the recovery does not get stuck. While the worker is
  open, a power job in flight is its only work and there is none otherwise; an active recovery without a job submits the next
  restoration attempt at its next unblocked tick, and its timer is running.
\<close>

theorem reservation_follows_recovery:
  assumes r: "reachable (rec_init cf) (rec_step cf) s" and o: "\<not> ow_closed (br_worker s)"
  shows "(ow_reserved (br_worker s) \<longleftrightarrow> br_active s) \<and>
    (br_operation_pending s \<longrightarrow> br_active s \<and> (\<exists>f. ow_futures (br_worker s) = [f] \<and> power_future f)) \<and>
    (\<not> br_operation_pending s \<longrightarrow> ba_job (br_adapter s) = Idle \<and> list_all (\<lambda>f. \<not> power_future f) (ow_futures (br_worker s))) \<and>
    (br_running s \<longrightarrow> br_timer s \<noteq> None) \<and>
    (br_active s \<and> \<not> br_operation_pending s \<and> \<not> br_suspended s \<and> \<not> re_blocked env \<longrightarrow>
       br_operation_pending (br_tick cf env s) \<and> ow_futures (br_worker (br_tick cf env s)) = [RestoreJob])"
proof -
  have i: "res_ok (br_worker s) (br_adapter s) (br_active s) (br_operation_pending s)"
    using recovery.reachable_inv [OF r] by (simp add: rec_inv_def reserve_inv_def)
  have t: "timer_inv cf s" using poll.reachable_inv [OF r] .
  have "br_operation_pending (br_tick cf env s) \<and> ow_futures (br_worker (br_tick cf env s)) = [RestoreJob]"
    if a: "br_active s" "\<not> br_operation_pending s" "\<not> br_suspended s" "\<not> re_blocked env"
  proof -
    have "ow_submit RestoreJob True (br_worker s) = Some ((br_worker s)\<lparr>ow_futures := [RestoreJob]\<rparr>)"
      using i a o by (simp add: ow_submit_def res_ok_def MAX_OBEX_PENDING_OPERATIONS_def)
    then show ?thesis
      using a by (simp add: br_tick_def continue_restoration_def submit_restore_def)
  qed
  then show ?thesis
    using i t o by (auto simp: res_ok_def timer_inv_def list_all_iff split: if_splits)
qed


section \<open>A concrete run\<close>

definition demo_rec_cf :: rec_config where
  "demo_rec_cf = \<lparr>rc_adapter = demo_power_cf, rc_phone = lit ''P'', rc_sched = (\<lambda>h. Suc (top_id h))\<rparr>"

definition demo_record :: json_record where
  "demo_record = [(lit ''adapter'', JStr (lit ''AA'')), (lit ''phone'', JStr (lit ''P'')), (lit ''verified'', JBool True),
     (lit ''spent'', JBool False)]"

definition demo_env :: "real \<Rightarrow> rec_env" where
  "demo_env now = \<lparr>re_now = now, re_wall = 10000 + now, re_blocked = False,
     re_observe = Some \<lparr>ob_healthy = False, ob_proof = None, ob_eligible = True, ob_busy = False\<rparr>, re_probe_health = True,
     re_reset_le = Some True, re_pause = True, re_owner = Some (lit '':1.5''), re_disk = Saved, re_journal = Saved\<rparr>"

definition demo_look :: "real \<Rightarrow> rec_event list" where
  "demo_look now = [EvTick (demo_env now), EvRead (demo_env now) 0 (Some (demo_objects True))]"

definition demo_boot :: recovery where
  "demo_boot = BluetoothRecovery_init demo_rec_cf 0 (Some (JObj demo_record)) JNull"

definition demo_ident :: "pystr \<times> pystr" where
  "demo_ident = (lit '':1.5'', lit ''AA'')"

text \<open>The controller while it watches an outage that began at time 0.\<close>

definition demo_watch :: "real \<Rightarrow> real option \<Rightarrow> (rec_timer, rec_call) eff list \<Rightarrow> rec_entry list \<Rightarrow> recovery" where
  "demo_watch now reset h l =
     \<lparr>br_record = demo_record, br_disk = Some (JObj demo_record), br_running = True, br_suspended = False, br_timer = Some 1,
      br_generation = 1, br_snapshot_pending = False, br_identity = Some demo_ident, br_proof_floor = 0, br_outage_since = Some 0,
      br_healthy_since = None, br_last_observation = now, br_le_outage_since = Some 0, br_soft_reset_at = reset, br_probing = False,
      br_active = False, br_operation_pending = False, br_resume_pending = False, br_cancelled = False,
      br_adapter = demo_fresh\<lparr>ba_matches := True\<rparr>, br_worker = ObexWorker_init, br_reads = [], br_idles = [], br_clock = now,
      br_history = h, br_log = l\<rparr>"

definition demo_on :: recovery where
  "demo_on = demo_boot\<lparr>br_running := True, br_timer := Some 1, br_history := [Schedule 1 10 Tick],
     br_adapter := demo_fresh\<lparr>ba_matches := True\<rparr>\<rparr>"

lemma demo_fresh_fields:
  "demo_fresh = \<lparr>ba_revision = 0, ba_incarnation = 0, ba_matches = False, ba_heap = [], ba_restore = None, ba_stale = False,
     ba_journal = JNull, ba_job = Idle, ba_log = []\<rparr>"
  by (simp add: demo_fresh_def BluezRecoveryAdapter_init_def reload_journal_def load_restore_def)

lemma demo_start: "rec_apply demo_rec_cf (EvStart (demo_env 0) True) demo_boot = demo_on"
proof -
  have "br_adapter demo_boot = demo_fresh" by (simp add: demo_boot_def BluetoothRecovery_init_def demo_fresh_def demo_rec_cf_def)
  then show ?thesis
    by (simp add: rec_apply_def advance_clock_def recovery_start_def start_monitoring_def on_adapter_def demo_on_def demo_env_def
        demo_boot_def BluetoothRecovery_init_def ObexWorker_init_def demo_fresh_fields demo_rec_cf_def POLL_SECONDS_def
        restore_pending_def Let_def)
qed

lemma demo_known: "known_phone demo_rec_cf demo_expected demo_record" "unspent demo_record" "last_attempt demo_record = Some 0"
  by (simp_all add: known_phone_def unspent_def last_attempt_def demo_record_def demo_rec_cf_def demo_expected_def)

lemma demo_expected_fields:
  "as_owner demo_expected = lit '':1.5''" "as_address demo_expected = lit ''AA''" "as_powered demo_expected" "as_safe demo_expected"
  "as_le_reset_safe demo_expected"
  by (simp_all add: demo_expected_def)

lemmas demo_eval = rec_apply_def advance_clock_def br_tick_def read_async_def read_done_def snapshot_ready_def br_check_def
  check_identity_def check_gap_def check_outage_def advance_outage_def open_windows_def window_age_def br_note_def br_call_def
  br_invalidate_def on_adapter_def cleanup_journal_def cleanup_pending_def restore_pending_def cycle_allowed_def demo_known
  demo_expected_fields demo_ident_def Let_def ObexWorker_init_def demo_fresh_fields demo_read demo_env_def demo_look_def

lemma demo_rc: "rc_adapter demo_rec_cf = demo_power_cf"
  by (simp add: demo_rec_cf_def)

lemma demo_look_first:
  "fold (rec_apply demo_rec_cf) (demo_look 0) demo_on = demo_watch 0 None [Schedule 1 10 Tick] [Observed 0 Outage, Forgot]"
  by (simp add: demo_eval consts_defs demo_rc demo_on_def demo_boot_def BluetoothRecovery_init_def demo_watch_def saved_record_def
      HOURLY_LIMIT_SECONDS_def SOFT_RESET_SECONDS_def OUTAGE_SECONDS_def HEALTH_FRESH_SECONDS_def)

lemmas demo_limits = HOURLY_LIMIT_SECONDS_def SOFT_RESET_SECONDS_def OUTAGE_SECONDS_def HEALTH_FRESH_SECONDS_def
  RESET_SETTLE_SECONDS_def

text \<open>A look before the reset is due, the look that grants it, a look while it settles, and the one that sends the probe.\<close>

lemma demo_look_early:
  assumes "0 \<le> now" "now - seen \<le> 90" "now < 180"
  shows "fold (rec_apply demo_rec_cf) (demo_look now) (demo_watch seen None h l) = demo_watch now None h (Observed now Outage # l)"
  using assms by (simp add: demo_eval demo_limits demo_rc demo_watch_def)

lemma demo_look_reset:
  assumes "now - seen \<le> 90" "180 \<le> now"
  shows "fold (rec_apply demo_rec_cf) (demo_look now) (demo_watch seen None h l) =
    demo_watch now (Some now) (Call (ResetLe 0) # h) (SoftReset now # Observed now Outage # l)"
  using assms by (simp add: demo_eval demo_limits demo_rc demo_watch_def)

lemma demo_look_settle:
  assumes "0 \<le> now" "now - seen \<le> 90" "now < 300"
  shows "fold (rec_apply demo_rec_cf) (demo_look now) (demo_watch seen (Some t) h l) = demo_watch now (Some t) h (Observed now Outage # l)"
  using assms by (simp add: demo_eval demo_limits demo_rc demo_watch_def)

definition demo_probing :: "real \<Rightarrow> (rec_timer, rec_call) eff list \<Rightarrow> rec_entry list \<Rightarrow> recovery" where
  "demo_probing now h l = (demo_watch now (Some 180) h (ProbeSent now # Observed now Outage # l))
     \<lparr>br_probing := True, br_worker := ObexWorker_init\<lparr>ow_futures := [ProbeJob 1 demo_expected]\<rparr>\<rparr>"

lemma demo_look_probe:
  "fold (rec_apply demo_rec_cf) (demo_look 300) (demo_watch 240 (Some 180) h l) = demo_probing 300 h l"
  by (simp add: demo_eval demo_limits demo_rc demo_watch_def demo_probing_def submit_probe_def ow_submit_def
      MAX_OBEX_PENDING_OPERATIONS_def)

definition demo_probed :: "rec_event list" where
  "demo_probed = [EvProbe 302 True, EvDeliver 302, EvIdle (demo_env 303), EvRead (demo_env 304) 0 (Some (demo_objects True))]"

definition demo_cycling :: "(rec_timer, rec_call) eff list \<Rightarrow> rec_entry list \<Rightarrow> recovery" where
  "demo_cycling h l = (demo_watch 300 (Some 180) (Call Pause # h)
       (CycleSubmitted 304 10304 demo_expected # ProbeSent 300 # Observed 300 Outage # l))
     \<lparr>br_clock := 304, br_worker := ObexWorker_init\<lparr>ow_reserved := True, ow_futures := [CycleJob demo_expected]\<rparr>,
      br_active := True, br_operation_pending := True,
      br_record := al_set (lit ''last_attempt'') (JFloat (Some 10304)) (al_set (lit ''spent'') (JBool True) demo_record),
      br_disk := Some (JObj (al_set (lit ''last_attempt'') (JFloat (Some 10304)) (al_set (lit ''spent'') (JBool True) demo_record)))\<rparr>"

lemma demo_probed_run: "fold (rec_apply demo_rec_cf) demo_probed (demo_probing 300 h l) = demo_cycling h l"
  by (simp add: demo_probed_def demo_probing_def demo_cycling_def demo_watch_def demo_eval demo_limits demo_rc run_probe_def deliver_def
      ow_discard_def run_idle_def after_probe_def decide_cycle_def reserve_if_idle_def br_save_def submit_cycle_def ow_submit_def
      MAX_OBEX_PENDING_OPERATIONS_def)

text \<open>Every event of the run is one the environment can produce.\<close>

fun sound_run :: "rec_config \<Rightarrow> rec_event list \<Rightarrow> recovery \<Rightarrow> bool" where
  "sound_run cf [] s = True"
| "sound_run cf (ev # evs) s = (sound_rec_event cf ev s \<and> sound_run cf evs (rec_apply cf ev s))"

abbreviation rec_reachable :: "recovery \<Rightarrow> bool" where
  "rec_reachable \<equiv> reachable (rec_init demo_rec_cf) (rec_step demo_rec_cf)"

lemma reachable_run: "rec_reachable s \<Longrightarrow> sound_run demo_rec_cf evs s \<Longrightarrow> rec_reachable (fold (rec_apply demo_rec_cf) evs s)"
proof (induction evs arbitrary: s)
  case (Cons ev evs)
  then have "rec_reachable (rec_apply demo_rec_cf ev s)" by (auto intro: reachable.next_state rec_step.intros)
  then show ?case using Cons by simp
qed simp

lemma demo_unique: "unique_name demo_power_cf (lit '':1.5'')"
  by (simp add: unique_name_def demo_power_cf_def lit_def)

lemma demo_addressed: "addressed demo_rec_cf (demo_objects on)"
  by (auto simp: addressed_def demo_objects_def demo_rec_cf_def demo_power_cf_def lit_def)

lemma demo_tick_clock:
  "br_clock (rec_apply demo_rec_cf (EvTick (demo_env now)) (demo_watch seen r h l)) = now"
  "br_clock (rec_apply demo_rec_cf (EvTick (demo_env now)) demo_on) = now"
  by (simp_all add: demo_eval demo_rc demo_watch_def demo_on_def demo_boot_def BluetoothRecovery_init_def)

lemma demo_selectors:
  "re_now (demo_env now) = now" "re_owner (demo_env now) = Some (lit '':1.5'')" "br_clock (demo_watch seen r h l) = seen"
  "br_clock demo_on = 0" "br_clock demo_boot = 0" "br_clock (demo_probing n h l) = n"
  by (simp_all add: demo_env_def demo_watch_def demo_on_def demo_boot_def BluetoothRecovery_init_def demo_probing_def)

lemma demo_look_reachable:
  assumes "rec_reachable (demo_watch seen r h l)" "seen \<le> now"
  shows "rec_reachable (fold (rec_apply demo_rec_cf) (demo_look now) (demo_watch seen r h l))"
  using assms
  by (intro reachable_run) (simp_all add: demo_look_def sound_rec_event_def demo_tick_clock demo_addressed demo_rc demo_unique demo_selectors)

lemma demo_boot_reachable: "rec_reachable demo_boot"
  by (rule reachable.start) (auto simp: rec_init_def demo_boot_def demo_rec_cf_def fresh_ids_top)

lemma demo_on_reachable: "rec_reachable demo_on"
proof -
  have "rec_step demo_rec_cf demo_boot (rec_apply demo_rec_cf (EvStart (demo_env 0) True) demo_boot)"
    by (rule rec_step.intros) (simp add: sound_rec_event_def demo_selectors demo_rc demo_unique)
  then show ?thesis using demo_boot_reachable by (auto simp: demo_start intro: reachable.next_state)
qed

definition demo_history :: "(rec_timer, rec_call) eff list" where
  "demo_history = [Call (ResetLe 0), Schedule 1 10 Tick]"

definition demo_log :: "rec_entry list" where
  "demo_log = [Observed 240 Outage, SoftReset 180, Observed 180 Outage, Observed 120 Outage, Observed 60 Outage, Observed 0 Outage, Forgot]"

lemma demo_watch_reachable: "rec_reachable (demo_watch 240 (Some 180) demo_history demo_log)"
proof -
  have "rec_reachable (fold (rec_apply demo_rec_cf) (demo_look 0) demo_on)"
    using demo_on_reachable
    by (intro reachable_run) (simp_all add: demo_look_def sound_rec_event_def demo_tick_clock demo_addressed demo_rc demo_unique
        demo_selectors)
  then have "rec_reachable (demo_watch 0 None [Schedule 1 10 Tick] [Observed 0 Outage, Forgot])" by (simp only: demo_look_first)
  from demo_look_reachable [OF this, of 60] have "rec_reachable (demo_watch 60 None [Schedule 1 10 Tick] [Observed 60 Outage, Observed 0 Outage, Forgot])"
    by (simp add: demo_look_early)
  from demo_look_reachable [OF this, of 120] have "rec_reachable (demo_watch 120 None [Schedule 1 10 Tick]
      [Observed 120 Outage, Observed 60 Outage, Observed 0 Outage, Forgot])"
    by (simp add: demo_look_early)
  from demo_look_reachable [OF this, of 180] have "rec_reachable (demo_watch 180 (Some 180) demo_history
      [SoftReset 180, Observed 180 Outage, Observed 120 Outage, Observed 60 Outage, Observed 0 Outage, Forgot])"
    by (simp add: demo_look_reset demo_history_def)
  from demo_look_reachable [OF this, of 240] show ?thesis
    by (simp add: demo_look_settle demo_log_def)
qed

lemma demo_probing_reachable: "rec_reachable (demo_probing 300 demo_history demo_log)"
  using demo_look_reachable [OF demo_watch_reachable, of 300] by (simp add: demo_look_probe)

definition demo_cycle :: recovery where
  "demo_cycle = demo_cycling demo_history demo_log"

lemma demo_cycle_reachable: "rec_reachable demo_cycle"
proof -
  have "sound_run demo_rec_cf demo_probed (demo_probing 300 demo_history demo_log)"
    by (simp add: demo_probed_def sound_rec_event_def demo_addressed demo_rc demo_unique demo_probing_def demo_watch_def
        demo_eval demo_limits run_probe_def deliver_def ow_discard_def run_idle_def after_probe_def)
  then show ?thesis
    using reachable_run [OF demo_probing_reachable, of demo_probed] by (simp add: demo_cycle_def demo_probed_run)
qed


theorem cycle_after_outage_witness:
  "\<exists>x y t. ProbeSent 300 # Observed 300 Outage # demo_log = x @ Observed t Outage # y \<and> 300 \<le> 304 - t \<and> list_all keeps_window x \<and>
     looks_dense (ProbeSent 300 # Observed 300 Outage # demo_log)"
proof -
  have "br_log demo_cycle = [] @ CycleSubmitted 304 10304 demo_expected # ProbeSent 300 # Observed 300 Outage # demo_log"
    by (simp add: demo_cycle_def demo_cycling_def demo_watch_def)
  then show ?thesis using cycle_after_outage [OF demo_cycle_reachable, of "[]"] by blast
qed

theorem reservation_follows_recovery_witness:
  "br_operation_pending demo_cycle \<and> br_active demo_cycle \<and> ow_reserved (br_worker demo_cycle) \<and>
   (\<exists>f. ow_futures (br_worker demo_cycle) = [f] \<and> power_future f) \<and> br_timer demo_cycle \<noteq> None"
proof -
  have "\<not> ow_closed (br_worker demo_cycle)" "br_operation_pending demo_cycle" "br_running demo_cycle"
    by (simp_all add: demo_cycle_def demo_cycling_def demo_watch_def ObexWorker_init_def)
  then show ?thesis using reservation_follows_recovery [OF demo_cycle_reachable] by blast
qed

text \<open>The executor takes the cycle up and the journal is written; then the daemon stops.\<close>

definition demo_journal_steps :: "rec_event list" where
  "demo_journal_steps = [EvTakeUp Saved, EvJob Saved (Prepared (Inr (lit ''bus'', lit ''0:7'')))]"

definition demo_crash :: recovery where
  "demo_crash = fold (rec_apply demo_rec_cf) demo_journal_steps demo_cycle"

lemma demo_crash_pending: "rec_reachable demo_crash \<and> restore_pending (br_adapter demo_crash)"
proof -
  have f: "ow_futures (br_worker demo_cycle) = [CycleJob demo_expected]" "br_adapter demo_cycle = demo_fresh\<lparr>ba_matches := True\<rparr>"
    "\<not> ow_closed (br_worker demo_cycle)"
    by (simp_all add: demo_cycle_def demo_cycling_def demo_watch_def ObexWorker_init_def)
  have "sound_run demo_rec_cf demo_journal_steps demo_cycle"
    by (simp add: demo_journal_steps_def sound_rec_event_def lit_def)
  moreover have "restore_pending (br_adapter demo_crash)"
    by (simp add: demo_crash_def demo_journal_steps_def rec_apply_def advance_clock_def take_up_def f demo_fresh_fields job_step_def
        cycle_begin_def restore_pending_def cleanup_pending_def goto_job_def worker_step_def cycle_journal_def update_journal_def
        ba_note_def Let_def)
  ultimately show ?thesis using reachable_run [OF demo_cycle_reachable] by (auto simp: demo_crash_def)
qed


section \<open>A probe that outlives its outage\<close>

text \<open>
  While a probe is queued no phone-only reset is requested. If the phone recovers while the probe waits behind other work and
  is lost again, the answer of that probe, five minutes into the new outage, leads to a power cycle although no phone-only reset
  was granted in this outage.
\<close>

definition demo_stuck :: "real \<Rightarrow> real option \<Rightarrow> rec_entry list \<Rightarrow> recovery" where
  "demo_stuck now since l = (demo_watch now None demo_history l)
     \<lparr>br_outage_since := since, br_le_outage_since := since, br_probing := True,
      br_worker := ObexWorker_init\<lparr>ow_futures := [ProbeJob 1 demo_expected]\<rparr>\<rparr>"

definition demo_well :: "real \<Rightarrow> rec_event list" where
  "demo_well now = (let env = (demo_env now)\<lparr>re_observe := Some \<lparr>ob_healthy = True, ob_proof = None, ob_eligible = True, ob_busy = False\<rparr>\<rparr>
     in [EvTick env, EvRead env 0 (Some (demo_objects True))])"

lemma demo_recovers:
  "fold (rec_apply demo_rec_cf) (demo_well 310) (demo_probing 300 demo_history demo_log) =
     demo_stuck 310 None (Observed 310 Healthy # ProbeSent 300 # Observed 300 Outage # demo_log)"
  by (simp add: demo_well_def demo_eval demo_limits demo_rc demo_watch_def demo_stuck_def demo_probing_def check_healthy_def end_windows_def)

lemma demo_lost_again:
  assumes "now - seen \<le> 90" "0 \<le> now"
  shows "fold (rec_apply demo_rec_cf) (demo_look now) (demo_stuck seen since l) =
     demo_stuck now (Some (case since of None \<Rightarrow> now | Some t \<Rightarrow> t)) (Observed now Outage # l)"
  using assms by (simp add: demo_eval demo_limits demo_rc demo_watch_def demo_stuck_def cong: option.case_cong)

definition demo_second_outage :: "rec_event list" where
  "demo_second_outage = demo_well 310 @ concat (map demo_look [320, 380, 440, 500, 560, 620]) @
     [EvProbe 621 True, EvDeliver 621, EvIdle (demo_env 622), EvRead (demo_env 623) 0 (Some (demo_objects True))]"

lemma stale_probe_skips_reset:
  "\<exists>l. br_log (fold (rec_apply demo_rec_cf) demo_second_outage (demo_probing 300 demo_history demo_log)) =
      CycleSubmitted 623 10623 demo_expected # l \<and> outage_start l = Some 320 \<and> reset_start l = None"
proof -
  let ?l = "[Observed 620 Outage, Observed 560 Outage, Observed 500 Outage, Observed 440 Outage, Observed 380 Outage,
    Observed 320 Outage, Observed 310 Healthy, ProbeSent 300, Observed 300 Outage] @ demo_log"
  have "fold (rec_apply demo_rec_cf) demo_second_outage (demo_probing 300 demo_history demo_log) =
    fold (rec_apply demo_rec_cf) [EvProbe 621 True, EvDeliver 621, EvIdle (demo_env 622),
      EvRead (demo_env 623) 0 (Some (demo_objects True))] (demo_stuck 620 (Some 320) ?l)"
    by (simp only: demo_second_outage_def fold_append comp_apply demo_recovers list.map concat.simps append_Nil2 append_Nil)
      (simp add: demo_lost_again)
  moreover have "br_log (fold (rec_apply demo_rec_cf) [EvProbe 621 True, EvDeliver 621, EvIdle (demo_env 622),
      EvRead (demo_env 623) 0 (Some (demo_objects True))] (demo_stuck 620 (Some 320) l)) = CycleSubmitted 623 10623 demo_expected # l" for l
    by (simp add: demo_stuck_def demo_watch_def demo_eval demo_limits demo_rc run_probe_def deliver_def
      ow_discard_def run_idle_def after_probe_def decide_cycle_def reserve_if_idle_def br_save_def submit_cycle_def ow_submit_def
      MAX_OBEX_PENDING_OPERATIONS_def)
  ultimately show ?thesis by simp
qed

end
